(* ===== verification/Brasa_Prelude.thy ===== *)
theory Brasa_Prelude
  imports Main "HOL-Library.Word" "HOL-Library.Signed_Division" "HOL-Library.Char_ord"
begin

unbundle bit_operations_syntax

text \<open>
  Shared vocabulary of the development: the machine integers of the language, the
  parts of Rust's standard library the modelled code relies on (checked \<open>i64\<close>
  arithmetic, UTF-8 decoding of a \<open>str\<close>, saturating \<open>u64\<close> arithmetic), and the generic
  lemmas on lists and maps that several components use.

  A Rust \<open>str\<close> is a \<^typ>\<open>string\<close> whose characters are the bytes of its UTF-8
  encoding; a Rust \<open>char\<close> is the natural number of its code point. An \<open>i64\<close> is a
  64-bit word read through \<^const>\<open>sint\<close>.
\<close>

named_theorems len_simps \<open>lengths of the containers the components update\<close>

type_synonym i64 = "64 word"
type_synonym rust_char = nat

section \<open>Checked 64-bit arithmetic\<close>

definition i64_min :: int where "i64_min = - (2 ^ 63)"
definition i64_max :: int where "i64_max = 2 ^ 63 - 1"

definition i64_of :: "int \<Rightarrow> i64 option" where
  "i64_of n = (if i64_min \<le> n \<and> n \<le> i64_max then Some (word_of_int n) else None)"

definition checked_add :: "i64 \<Rightarrow> i64 \<Rightarrow> i64 option" where
  "checked_add a b = i64_of (sint a + sint b)"

definition checked_sub :: "i64 \<Rightarrow> i64 \<Rightarrow> i64 option" where
  "checked_sub a b = i64_of (sint a - sint b)"

definition checked_mul :: "i64 \<Rightarrow> i64 \<Rightarrow> i64 option" where
  "checked_mul a b = i64_of (sint a * sint b)"

text \<open>Rust divides towards zero; both operations answer \<open>None\<close> on a zero divisor and on
  \<open>MIN / -1\<close>.\<close>

definition trunc_div :: "int \<Rightarrow> int \<Rightarrow> int" where
  "trunc_div a b = sgn a * sgn b * (\<bar>a\<bar> div \<bar>b\<bar>)"

definition trunc_rem :: "int \<Rightarrow> int \<Rightarrow> int" where
  "trunc_rem a b = a - trunc_div a b * b"

definition checked_div :: "i64 \<Rightarrow> i64 \<Rightarrow> i64 option" where
  "checked_div a b = (if b = 0 then None else i64_of (trunc_div (sint a) (sint b)))"

definition checked_rem :: "i64 \<Rightarrow> i64 \<Rightarrow> i64 option" where
  "checked_rem a b =
     (if b = 0 then None
      else if i64_of (trunc_div (sint a) (sint b)) = None then None
      else i64_of (trunc_rem (sint a) (sint b)))"

definition checked_pow :: "i64 \<Rightarrow> nat \<Rightarrow> i64 option" where
  "checked_pow a e = i64_of (sint a ^ e)"

definition checked_neg :: "i64 \<Rightarrow> i64 option" where
  "checked_neg a = i64_of (- sint a)"

lemma sint_range: "i64_min \<le> sint (w :: i64)" "sint (w :: i64) \<le> i64_max"
  using sint_ge [of w] sint_lt [of w] by (simp_all add: i64_min_def i64_max_def)

lemma sint_word_of_int_64:
  "i64_min \<le> n \<Longrightarrow> n \<le> i64_max \<Longrightarrow> sint (word_of_int n :: i64) = n"
  unfolding i64_min_def i64_max_def
  by (simp add: sint_sbintrunc' signed_take_bit_int_eq_self)

lemma i64_of_Some_iff: "i64_of n = Some w \<longleftrightarrow> sint w = n"
proof
  assume "i64_of n = Some w"
  then show "sint w = n"
    by (auto simp: i64_of_def sint_word_of_int_64 split: if_splits)
next
  assume "sint w = n"
  then show "i64_of n = Some w"
    using sint_range [of w] by (auto simp: i64_of_def)
qed

lemma i64_of_None_iff: "i64_of n = None \<longleftrightarrow> n < i64_min \<or> i64_max < n"
  by (auto simp: i64_of_def)

lemma i64_of_sint [simp]: "i64_of (sint w) = Some w"
  by (simp add: i64_of_Some_iff)

lemma trunc_div_bound: "\<bar>trunc_div a b\<bar> \<le> \<bar>a\<bar>"
proof (cases "a = 0 \<or> b = 0")
  case True
  then show ?thesis by (auto simp: trunc_div_def)
next
  case False
  then have "0 \<le> \<bar>a\<bar> div \<bar>b\<bar>" and "\<bar>a\<bar> div \<bar>b\<bar> \<le> \<bar>a\<bar>"
    using zdiv_mono2 [of "\<bar>a\<bar>" 1 "\<bar>b\<bar>"] by (auto simp: pos_imp_zdiv_nonneg_iff)
  with False show ?thesis
    by (simp add: trunc_div_def abs_mult abs_sgn_eq)
qed

section \<open>Saturating 64-bit counters\<close>

definition u64_max :: nat where "u64_max = 2 ^ 64 - 1"

definition sat_add :: "nat \<Rightarrow> nat \<Rightarrow> nat" where
  "sat_add a b = min u64_max (a + b)"

definition sat_mul :: "nat \<Rightarrow> nat \<Rightarrow> nat" where
  "sat_mul a b = min u64_max (a * b)"

lemma u64_max_pos [simp]: "0 < u64_max"
  by (simp add: u64_max_def)

lemma sat_add_eq_0 [simp]: "sat_add a b = 0 \<longleftrightarrow> a = 0 \<and> b = 0"
  using u64_max_pos by (auto simp: sat_add_def min_def simp del: u64_max_pos)

lemma sat_mul_eq_0 [simp]: "sat_mul a b = 0 \<longleftrightarrow> a = 0 \<or> b = 0"
  by (cases "a = 0"; cases "b = 0"; simp add: sat_mul_def u64_max_def min_def)

section \<open>Lists indexed by position\<close>

text \<open>\<open>find_pos\<close> is \<open>Iterator::position\<close>, \<open>remove_at\<close> is \<open>Vec::remove\<close> without its result.\<close>

fun find_pos :: "('a \<Rightarrow> bool) \<Rightarrow> 'a list \<Rightarrow> nat option" where
  "find_pos p [] = None"
| "find_pos p (x # xs) = (if p x then Some 0 else map_option Suc (find_pos p xs))"

definition remove_at :: "nat \<Rightarrow> 'a list \<Rightarrow> 'a list" where
  "remove_at i xs = take i xs @ drop (Suc i) xs"

lemma find_pos_Some_iff:
  "find_pos p xs = Some i \<longleftrightarrow> i < length xs \<and> p (xs ! i) \<and> (\<forall>j < i. \<not> p (xs ! j))"
proof (induction xs arbitrary: i)
  case (Cons x xs)
  then show ?case
    by (cases i) (auto simp: less_Suc_eq_0_disj)
qed simp

lemma find_pos_None_iff: "find_pos p xs = None \<longleftrightarrow> (\<forall>x \<in> set xs. \<not> p x)"
  by (induction xs) auto

lemma find_pos_cong: "(\<And>x. x \<in> set xs \<Longrightarrow> p x \<longleftrightarrow> q x) \<Longrightarrow> find_pos p xs = find_pos q xs"
  by (induction xs) auto

lemma find_pos_map: "find_pos p (map f xs) = find_pos (p \<circ> f) xs"
  by (induction xs) auto

lemma length_remove_at [len_simps]: "i < length xs \<Longrightarrow> length (remove_at i xs) = length xs - 1"
  by (simp add: remove_at_def)

lemma nth_remove_at:
  "i < length xs \<Longrightarrow> j < length xs - 1 \<Longrightarrow>
     remove_at i xs ! j = (if j < i then xs ! j else xs ! Suc j)"
  by (auto simp: remove_at_def nth_append min_def)

lemma map_remove_at: "map f (remove_at i xs) = remove_at i (map f xs)"
  by (simp add: remove_at_def take_map drop_map)

lemma filter_remove_at:
  "i < length xs \<Longrightarrow>
     length (filter p (remove_at i xs)) = length (filter p xs) - (if p (xs ! i) then 1 else 0)"
proof -
  assume i: "i < length xs"
  then have "filter p xs = filter p (take i xs) @ (if p (xs ! i) then [xs ! i] else [])
      @ filter p (drop (Suc i) xs)"
    by (subst id_take_nth_drop [OF i]) simp
  then show ?thesis by (simp add: remove_at_def)
qed

section \<open>Orderings and floats\<close>

datatype ordering = Less | Equal | Greater

fun cmp :: "'a :: linorder \<Rightarrow> 'a \<Rightarrow> ordering" where
  "cmp x y = (if x < y then Less else if x = y then Equal else Greater)"

text \<open>\<open>str\<close> compares its bytes lexicographically.\<close>

fun str_cmp :: "string \<Rightarrow> string \<Rightarrow> ordering" where
  "str_cmp [] [] = Equal"
| "str_cmp [] (_ # _) = Less"
| "str_cmp (_ # _) [] = Greater"
| "str_cmp (x # xs) (y # ys) = (if x < y then Less else if x = y then str_cmp xs ys else Greater)"

text \<open>An \<open>f64\<close> is its IEEE 754 binary64 bit pattern. Comparison is defined on the pattern: a
  NaN compares with nothing, both zeros are equal, everything else is ordered by sign and
  magnitude. Arithmetic is a parameter of the machine model.\<close>

type_synonym f64 = "64 word"

definition f64_magnitude :: "f64 \<Rightarrow> int" where
  "f64_magnitude b = uint b mod 2 ^ 63"

definition f64_is_nan :: "f64 \<Rightarrow> bool" where
  "f64_is_nan b \<longleftrightarrow> 2047 * 2 ^ 52 < f64_magnitude b"

definition f64_key :: "f64 \<Rightarrow> int" where
  "f64_key b = (if 2 ^ 63 \<le> uint b then - f64_magnitude b else f64_magnitude b)"

definition f64_partial_cmp :: "f64 \<Rightarrow> f64 \<Rightarrow> ordering option" where
  "f64_partial_cmp a b =
     (if f64_is_nan a \<or> f64_is_nan b then None else Some (cmp (f64_key a) (f64_key b)))"

definition f64_eq :: "f64 \<Rightarrow> f64 \<Rightarrow> bool" where
  "f64_eq a b \<longleftrightarrow> f64_partial_cmp a b = Some Equal"

definition f64_neg :: "f64 \<Rightarrow> f64" where
  "f64_neg b = b XOR (push_bit 63 1)"

lemma f64_eq_sym: "f64_eq a b \<longleftrightarrow> f64_eq b a"
  by (auto simp: f64_eq_def f64_partial_cmp_def split: if_splits)

lemma f64_eq_refl: "f64_eq a a \<longleftrightarrow> \<not> f64_is_nan a"
  by (simp add: f64_eq_def f64_partial_cmp_def)

section \<open>UTF-8\<close>

text \<open>Decoding follows the table of well-formed byte sequences: no overlong forms, no
  surrogates, nothing above \<open>0x10FFFF\<close>.\<close>

definition cont :: "nat \<Rightarrow> bool" where
  "cont b \<longleftrightarrow> 128 \<le> b \<and> b < 192"

definition scalar :: "nat \<Rightarrow> bool" where
  "scalar c \<longleftrightarrow> c < 55296 \<or> (57344 \<le> c \<and> c < 1114112)"

fun utf8_bytes_decode :: "nat list \<Rightarrow> nat list option" where
  "utf8_bytes_decode [] = Some []"
| "utf8_bytes_decode (a # bs) =
     (if a < 128 then map_option ((#) a) (utf8_bytes_decode bs)
      else if 194 \<le> a \<and> a < 224 then
        (case bs of
           b # r \<Rightarrow> if cont b
                    then map_option ((#) ((a - 192) * 64 + (b - 128))) (utf8_bytes_decode r)
                    else None
         | _ \<Rightarrow> None)
      else if 224 \<le> a \<and> a < 240 then
        (case bs of
           b # c # r \<Rightarrow>
             (let v = (a - 224) * 4096 + (b - 128) * 64 + (c - 128)
              in if cont b \<and> cont c \<and> 2048 \<le> v \<and> scalar v
                 then map_option ((#) v) (utf8_bytes_decode r) else None)
         | _ \<Rightarrow> None)
      else if 240 \<le> a \<and> a < 245 then
        (case bs of
           b # c # d # r \<Rightarrow>
             (let v = (a - 240) * 262144 + (b - 128) * 4096 + (c - 128) * 64 + (d - 128)
              in if cont b \<and> cont c \<and> cont d \<and> 65536 \<le> v \<and> scalar v
                 then map_option ((#) v) (utf8_bytes_decode r) else None)
         | _ \<Rightarrow> None)
      else None)"

definition from_utf8 :: "string \<Rightarrow> rust_char list option" where
  "from_utf8 s = utf8_bytes_decode (map of_char s)"

text \<open>\<open>str::chars\<close>: the bytes of a \<open>str\<close> are always valid.\<close>

definition str_chars :: "string \<Rightarrow> rust_char list" where
  "str_chars s = (case from_utf8 s of Some cs \<Rightarrow> cs | None \<Rightarrow> [])"

end
