(* ===== verification/Decimal_Text.thy ===== *)
theory Decimal_Text
  imports Brasa_Prelude
begin

text \<open>
  Integers as decimal text: what \<open>to_string\<close> and the zero-padded \<open>{:0w}\<close> print, and the value
  a run of ASCII digits is read back as.
\<close>

section \<open>Printing\<close>

fun dec_nat :: "nat \<Rightarrow> string" where
  "dec_nat n = (if n < 10 then [char_of (48 + n)] else dec_nat (n div 10) @ [char_of (48 + n mod 10)])"

declare dec_nat.simps [simp del]

definition dec_int :: "int \<Rightarrow> string" where
  "dec_int i = (if i < 0 then CHR ''-'' # dec_nat (nat (- i)) else dec_nat (nat i))"

text \<open>\<open>{:0w}\<close> counts the sign as a column and pads between the sign and the digits.\<close>

definition zero_pad :: "nat \<Rightarrow> nat \<Rightarrow> string" where
  "zero_pad w n = replicate (w - length (dec_nat n)) CHR ''0'' @ dec_nat n"

definition pad_int :: "nat \<Rightarrow> int \<Rightarrow> string" where
  "pad_int w i = (if i < 0 then CHR ''-'' # zero_pad (w - 1) (nat (- i)) else zero_pad w (nat i))"

text \<open>\<open>[String]::join\<close>.\<close>

fun join :: "string \<Rightarrow> string list \<Rightarrow> string" where
  "join sep [] = []"
| "join sep [x] = x"
| "join sep (x # xs) = x @ sep @ join sep xs"

section \<open>Reading\<close>

definition is_digit :: "char \<Rightarrow> bool" where
  "is_digit c \<longleftrightarrow> 48 \<le> (of_char c :: nat) \<and> (of_char c :: nat) < 58"

definition digit_value :: "char \<Rightarrow> int" where
  "digit_value c = of_char c - 48"

definition digits_value :: "string \<Rightarrow> int" where
  "digits_value ds = foldl (\<lambda>acc d. acc * 10 + digit_value d) 0 ds"

section \<open>Reading back what is printed\<close>

lemma digits_value_simps [simp]:
  "digits_value [] = 0"
  "digits_value (ds @ [d]) = digits_value ds * 10 + digit_value d"
  by (simp_all add: digits_value_def)

lemma of_char_digit: "d < 10 \<Longrightarrow> of_char (char_of (48 + d) :: char) = (48 + d :: nat)"
  by simp

lemma digit_of [simp]:
  assumes "d < 10"
  shows "is_digit (char_of (48 + d))" and "digit_value (char_of (48 + d)) = int d"
proof -
  have "of_char (char_of (48 + d) :: char) = (48 + d :: nat)" using assms by simp
  then have n: "of_char (char_of (48 + d) :: char) = 48 + int d"
    using of_char_of by (metis of_char_eq_iff of_nat_add of_nat_numeral of_nat_of_char)
  show "is_digit (char_of (48 + d))" using assms by (simp add: is_digit_def)
  show "digit_value (char_of (48 + d)) = int d" using n by (simp add: digit_value_def)
qed

lemma digit_value_nonneg: "is_digit c \<Longrightarrow> 0 \<le> digit_value c"
  unfolding is_digit_def digit_value_def by (metis diff_ge_0_iff_ge of_nat_le_iff of_nat_numeral of_nat_of_char)

lemma dec_nat_digits: "c \<in> set (dec_nat n) \<Longrightarrow> is_digit c"
proof (induction n rule: dec_nat.induct)
  case (1 n)
  show ?case
  proof (cases "n < 10")
    case True
    with 1(2) show ?thesis by (simp add: dec_nat.simps [of n])
  next
    case False
    with 1 show ?thesis by (auto simp: dec_nat.simps [of n])
  qed
qed

lemma digits_value_dec_nat [simp]: "digits_value (dec_nat n) = int n"
proof (induction n rule: dec_nat.induct)
  case (1 n)
  show ?case
  proof (cases "n < 10")
    case True
    then show ?thesis by (simp add: dec_nat.simps [of n] digits_value_def)
  next
    case False
    with 1 show ?thesis by (simp add: dec_nat.simps [of n] zdiv_int zmod_int)
  qed
qed

lemma digits_value_zeros: "digits_value (replicate k CHR ''0'' @ ds) = digits_value ds"
proof -
  have "foldl (\<lambda>acc d. acc * 10 + digit_value d) 0 (replicate k CHR ''0'') = 0"
    by (induction k) (simp_all add: digit_value_def)
  then show ?thesis by (simp add: digits_value_def)
qed

lemma digits_value_zero_pad [simp]: "digits_value (zero_pad w n) = int n"
  by (simp add: zero_pad_def digits_value_zeros)

lemma zero_pad_digits: "c \<in> set (zero_pad w n) \<Longrightarrow> is_digit c"
  by (auto simp: zero_pad_def is_digit_def dest: dec_nat_digits)

lemma length_dec_nat: "0 < k \<Longrightarrow> n < 10 ^ k \<Longrightarrow> length (dec_nat n) \<le> k"
proof (induction n arbitrary: k rule: dec_nat.induct)
  case (1 n)
  show ?case
  proof (cases "n < 10")
    case True
    with 1(2) show ?thesis by (simp add: dec_nat.simps [of n])
  next
    case False
    with 1(3) obtain j where k: "k = Suc j" "0 < j"
      by (cases k; cases "k - 1") auto
    with 1(3) have "n div 10 < 10 ^ j" by (simp add: less_mult_imp_div_less mult.commute)
    with 1(1) False k show ?thesis by (simp add: dec_nat.simps [of n])
  qed
qed

lemma dec_nat_not_empty [simp]: "dec_nat n \<noteq> []" "0 < length (dec_nat n)"
  by (cases "n < 10"; simp add: dec_nat.simps [of n])+

lemma length_zero_pad: "0 < w \<Longrightarrow> n < 10 ^ w \<Longrightarrow> length (zero_pad w n) = w"
  using length_dec_nat [of w n] by (simp add: zero_pad_def)

lemma zero_pad_long: "w \<le> length (zero_pad w n)" "zero_pad w n \<noteq> []"
  by (auto simp: zero_pad_def)

end
