(* ===== verification/Time_Iso.thy ===== *)
theory Time_Iso
  imports Decimal_Text
begin

text \<open>
  Timestamps as ISO 8601 text (\<open>brasa_runtime/src/time_glue.rs\<close>): the calendar conversions, the
  renderer \<open>iso_utc\<close> and the scanner \<open>parse_iso\<close>. The plain \<open>i64\<close> arithmetic of the code is
  written on \<open>int\<close>: its operands are bounded by the ranges of the fields, the checked
  operations are \<open>fit\<close>. The cursor of \<open>Scan\<close> is the rest of the bytes, and the \<open>{:?}\<close> form of
  the rejected text is the parameter \<open>dbg\<close>.
\<close>

section \<open>The calendar\<close>

definition civil_from_days :: "int \<Rightarrow> int \<times> int \<times> int" where
  "civil_from_days z0 =
     (let z = z0 + 719468;
          era = trunc_div (if 0 \<le> z then z else z - 146096) 146097;
          doe = z - era * 146097;
          yoe = (doe - doe div 1460 + doe div 36524 - doe div 146096) div 365;
          year = yoe + era * 400;
          doy = doe - (365 * yoe + yoe div 4 - yoe div 100);
          mp = (5 * doy + 2) div 153;
          day = doy - (153 * mp + 2) div 5 + 1;
          month = (if mp < 10 then mp + 3 else mp - 9)
      in (if month \<le> 2 then year + 1 else year, month, day))"

text \<open>\<open>year % 4 == 0\<close> tests divisibility whatever the sign of the remainder.\<close>

definition days_in_month :: "int \<Rightarrow> int \<Rightarrow> int" where
  "days_in_month year month =
     (if month \<in> {1, 3, 5, 7, 8, 10, 12} then 31
      else if month \<in> {4, 6, 9, 11} then 30
      else if trunc_rem year 4 = 0 \<and> (trunc_rem year 100 \<noteq> 0 \<or> trunc_rem year 400 = 0) then 29 else 28)"

definition day_number :: "int \<Rightarrow> int \<Rightarrow> int \<Rightarrow> int" where
  "day_number year month day =
     (let shifted = year - (if month \<le> 2 then 1 else 0);
          era = trunc_div (if 0 \<le> shifted then shifted else shifted - 399) 400;
          yoe = shifted - era * 400;
          mp = (if 2 < month then month - 3 else month + 9);
          doy = (153 * mp + 2) div 5 + day - 1;
          doe = yoe * 365 + yoe div 4 - yoe div 100 + doy
      in era * 146097 + doe - 719468)"

section \<open>The two divisions by an era\<close>

lemma trunc_div_era:
  assumes n: "0 < n"
  shows "trunc_div (if 0 \<le> z then z else z - (n - 1)) n = z div n"
proof (cases "0 \<le> z")
  case True
  with n show ?thesis by (cases "z = 0") (simp_all add: trunc_div_def)
next
  case False
  have "n - 1 - z = n * (- (z div n)) + (n - 1 - z mod n)"
    using mult_div_mod_eq [of n z] by (simp add: algebra_simps)
  then have "(n - 1 - z) div n = - (z div n)"
    by (rule int_div_pos_eq) (use n pos_mod_bound [of n z] pos_mod_sign [of n z] in linarith)+
  moreover have "\<bar>z - (n - 1)\<bar> = n - 1 - z" and "z - (n - 1) < 0" using n False by auto
  ultimately show ?thesis using n False by (simp add: trunc_div_def)
qed

lemma trunc_rem_zero:
  assumes n: "0 < n"
  shows "trunc_rem y n = 0 \<longleftrightarrow> n dvd y"
proof (cases "0 \<le> y")
  case True
  then have "trunc_rem y n = y mod n"
    using n by (cases "y = 0") (simp_all add: trunc_rem_def trunc_div_def minus_div_mult_eq_mod)
  then show ?thesis by (simp add: mod_eq_0_iff_dvd)
next
  case False
  then have "trunc_rem y n = - ((- y) mod n)"
    using n minus_div_mult_eq_mod [of "- y" n] by (simp add: trunc_rem_def trunc_div_def)
  then show ?thesis by (simp add: mod_eq_0_iff_dvd)
qed

section \<open>The year of an era\<close>

text \<open>\<open>year_start\<close> is the day of the era on which a year starts, \<open>year_count\<close> the number the code
  divides by 365. It never decreases, so a check at both ends of each of the 400 years places every
  day.\<close>

definition year_start :: "int \<Rightarrow> int" where
  "year_start y = 365 * y + y div 4 - y div 100"

definition year_count :: "int \<Rightarrow> int" where
  "year_count doe = doe - doe div 1460 + doe div 36524 - doe div 146096"

lemma year_count_Suc: "year_count d \<le> year_count (d + 1)"
proof -
  have step: "(d + 1) div n = d div n + (if n dvd d + 1 then 1 else 0)" if "0 < n" for n :: int
  proof (cases "n dvd d + 1")
    case True
    then obtain k where k: "d + 1 = n * k" by (auto simp: dvd_def)
    have "d = n * (k - 1) + (n - 1)" using k by (simp add: algebra_simps)
    then have "d div n = k - 1" by (rule int_div_pos_eq) (use that in auto)
    with k that True show ?thesis by simp
  next
    case False
    have "d + 1 = n * (d div n) + (d mod n + 1)" using mult_div_mod_eq [of n d] by simp
    moreover have "d mod n + 1 \<noteq> n"
    proof
      assume "d mod n + 1 = n"
      with mult_div_mod_eq [of n d] have "d + 1 = n * (d div n) + n" by linarith
      then have "d + 1 = n * (d div n + 1)" by (simp only: distrib_left mult_1_right)
      with False show False by simp
    qed
    moreover have "0 \<le> d mod n" "d mod n < n" using that by auto
    ultimately have "(d + 1) div n = d div n" using int_div_pos_eq [of "d + 1" n "d div n" "d mod n + 1"] by simp
    with False show ?thesis by simp
  qed
  have "36524 dvd d + 1" if "146096 dvd d + 1" using that by (rule dvd_trans [rotated]) simp
  then show ?thesis by (auto simp: year_count_def step)
qed

lemma year_count_mono: "a \<le> b \<Longrightarrow> year_count a \<le> year_count b"
proof (induction "nat (b - a)" arbitrary: b)
  case (Suc k)
  then have "year_count a \<le> year_count (b - 1)" by simp
  also have "\<dots> \<le> year_count b" using year_count_Suc [of "b - 1"] by simp
  finally show ?case .
qed simp

lemma years_placed:
  "list_all (\<lambda>y. 365 * y \<le> year_count (year_start y) \<and>
      year_count (if y = 399 then 146096 else year_start (y + 1) - 1) < 365 * (y + 1)) [0..399]"
  by code_simp

definition year_end :: "int \<Rightarrow> int" where
  "year_end y = (if y = 399 then 146097 else year_start (y + 1))"

lemma year_of_day:
  assumes "0 \<le> y" "y \<le> 399" and "year_start y \<le> doe" "doe < year_end y"
  shows "year_count doe div 365 = y"
proof -
  have "y \<in> set [0..399]" using assms(1,2) by simp
  with years_placed have "365 * y \<le> year_count (year_start y) \<and>
      year_count (if y = 399 then 146096 else year_start (y + 1) - 1) < 365 * (y + 1)"
    unfolding list_all_iff by (rule bspec)
  moreover have "(if y = 399 then 146096 else year_start (y + 1) - 1) = year_end y - 1"
    by (simp add: year_end_def)
  ultimately have "365 * y \<le> year_count (year_start y)" "year_count (year_end y - 1) < 365 * (y + 1)"
    by simp_all
  moreover have "year_count (year_start y) \<le> year_count doe" "year_count doe \<le> year_count (year_end y - 1)"
    using assms(3,4) by (auto intro: year_count_mono)
  ultimately have "365 * y \<le> year_count doe" "year_count doe < 365 * (y + 1)" by linarith+
  then show ?thesis by (intro int_div_pos_eq [of _ 365 y "year_count doe - 365 * y"]) auto
qed

lemma day_has_year:
  assumes "0 \<le> doe" "doe < 146097"
  obtains y where "0 \<le> y" "y \<le> 399" "year_start y \<le> doe" "doe < year_end y"
proof -
  have "\<exists>y. 0 \<le> y \<and> y \<le> 399 \<and> year_start y \<le> doe \<and> doe < year_end y" if "int k \<le> 399" "year_start (int k) \<le> doe" for k
    using that
  proof (induction "399 - k" arbitrary: k)
    case 0
    then show ?case using assms by (intro exI [of _ 399]) (simp add: year_end_def)
  next
    case (Suc j)
    show ?case
    proof (cases "doe < year_start (int k + 1)")
      case True
      with Suc show ?thesis by (intro exI [of _ "int k"]) (auto simp: year_end_def)
    next
      case False
      then have "year_start (int (Suc k)) \<le> doe" by (simp add: add.commute)
      with Suc show ?thesis by (intro Suc.hyps(1) [of "Suc k"]) auto
    qed
  qed
  from this [of 0] assms that show ?thesis by (auto simp: year_start_def)
qed

text \<open>The year after year 399 of an era is the first of the next one: it is a leap year, as every
  year that ends a quarter and not a century.\<close>

lemma year_length: "0 \<le> y \<Longrightarrow> y \<le> 399 \<Longrightarrow>
    year_end y - year_start y = (if 4 dvd y + 1 \<and> (\<not> 100 dvd y + 1 \<or> 400 dvd y + 1) then 366 else 365)"
proof -
  have "list_all (\<lambda>y. year_end y - year_start y =
      (if 4 dvd y + 1 \<and> (\<not> 100 dvd y + 1 \<or> 400 dvd y + 1) then 366 else 365)) [0..399]"
    by code_simp
  then show "0 \<le> y \<Longrightarrow> y \<le> 399 \<Longrightarrow> ?thesis" by (simp add: list_all_iff)
qed

section \<open>The calendar is exact\<close>

text \<open>The months counted from March: \<open>month_start\<close> is the day of the year on which a month starts.\<close>

definition month_start :: "int \<Rightarrow> int" where
  "month_start mp = (153 * mp + 2) div 5"

definition real_date :: "int \<Rightarrow> int \<Rightarrow> int \<Rightarrow> bool" where
  "real_date year month day \<longleftrightarrow>
     1 \<le> month \<and> month \<le> 12 \<and> 1 \<le> day \<and> day \<le> days_in_month year month"

lemma days_in_month_leap:
  "days_in_month year month =
     (if month \<in> {1, 3, 5, 7, 8, 10, 12} then 31
      else if month \<in> {4, 6, 9, 11} then 30
      else if 4 dvd year \<and> (\<not> 100 dvd year \<or> 400 dvd year) then 29 else 28)"
  by (simp add: days_in_month_def trunc_rem_zero)

text \<open>What \<open>civil_from_days\<close> answers on a day given by era, year of the era and day of the year.\<close>

lemma civil_of_parts:
  assumes "0 \<le> y" "y \<le> 399" and "0 \<le> doy" "year_start y + doy < year_end y"
    and "z = era * 146097 + (year_start y + doy) - 719468"
    and "mp = (5 * doy + 2) div 153" and "month = (if mp < 10 then mp + 3 else mp - 9)"
  shows "civil_from_days z =
    (if month \<le> 2 then y + era * 400 + 1 else y + era * 400, month, doy - month_start mp + 1)"
proof -
  have "year_end y \<le> 146097" using year_length [of y] assms(1,2)
    by (auto simp: year_end_def year_start_def)
  moreover have "0 \<le> year_start y" using assms(1) by (simp add: year_start_def) 
  ultimately have "(z + 719468) div 146097 = era"
    using assms(3-5) by (intro int_div_pos_eq [of _ 146097 era "year_start y + doy"]) auto
  moreover have minus: "(146097 :: int) - 1 = 146096" by simp
  ultimately have era: "trunc_div (if 0 \<le> z + 719468 then z + 719468 else z + 719468 - 146096) 146097 = era"
    using trunc_div_era [of 146097 "z + 719468"] by (simp only: minus)
  have doe: "z + 719468 - era * 146097 = year_start y + doy" using assms(5) by simp
  have "year_count (year_start y + doy) div 365 = y"
    using year_of_day [of y "year_start y + doy"] assms(1-4) by simp
  then have yoe: "(year_start y + doy - (year_start y + doy) div 1460 + (year_start y + doy) div 36524
      - (year_start y + doy) div 146096) div 365 = y"
    by (simp add: year_count_def)
  have doy: "year_start y + doy - (365 * y + y div 4 - y div 100) = doy"
    by (simp add: year_start_def)
  show ?thesis
    unfolding civil_from_days_def Let_def era doe yoe doy month_start_def assms(6,7) by simp
qed

lemma div_bounds: "0 < n \<Longrightarrow> n * (a div n) \<le> a \<and> a < n * (a div n) + n" for a n :: int
  using mult_div_mod_eq [of n a] pos_mod_bound [of n a] pos_mod_sign [of n a] by linarith

lemma month_of_day:
  assumes "month_start m \<le> doy" and "doy < month_start (m + 1)"
  shows "(5 * doy + 2) div 153 = m"
  using div_bounds [of 5 "153 * m + 2"] div_bounds [of 5 "153 * (m + 1) + 2"] assms
  unfolding month_start_def
  by (intro int_div_pos_eq [of _ 153 m "5 * doy + 2 - 153 * m"]) simp_all

lemma day_in_month:
  assumes "m = (5 * doy + 2) div 153"
  shows "month_start m \<le> doy" and "doy < month_start (m + 1)"
  using div_bounds [of 5 "153 * m + 2"] div_bounds [of 5 "153 * (m + 1) + 2"]
    div_bounds [of 153 "5 * doy + 2"] assms
  unfolding month_start_def by simp_all

lemma day_number_of_parts:
  assumes "0 \<le> y" "y \<le> 399" "0 \<le> mp" "mp \<le> 11" and month: "month = (if mp < 10 then mp + 3 else mp - 9)"
    and year: "year = (if month \<le> 2 then y + era * 400 + 1 else y + era * 400)"
  shows "day_number year month day = era * 146097 + year_start y + month_start mp + day - 719469"
proof -
  have shifted: "year - (if month \<le> 2 then 1 else 0) = y + era * 400" using year by simp
  have "(y + era * 400) div 400 = era" using assms(1,2) by (intro int_div_pos_eq [of _ 400 era y]) auto
  moreover have minus: "(400 :: int) - 1 = 399" by simp
  ultimately have era: "trunc_div (if 0 \<le> y + era * 400 then y + era * 400 else y + era * 400 - 399) 400 = era"
    using trunc_div_era [of 400 "y + era * 400"] by (simp only: minus)
  have yoe: "y + era * 400 - era * 400 = y" by simp
  have mp: "(if 2 < month then month - 3 else month + 9) = mp" using month assms(3,4) by auto
  show ?thesis
    unfolding day_number_def Let_def shifted era yoe mp by (simp add: year_start_def month_start_def)
qed

lemma month_length:
  assumes "0 \<le> mp" "mp \<le> 10" and "month = (if mp < 10 then mp + 3 else mp - 9)"
  shows "month_start (mp + 1) - month_start mp = days_in_month year month"
proof -
  have "mp = 0 \<or> mp = 1 \<or> mp = 2 \<or> mp = 3 \<or> mp = 4 \<or> mp = 5 \<or> mp = 6 \<or> mp = 7 \<or> mp = 8 \<or> mp = 9 \<or> mp = 10"
    using assms(1,2) by presburger
  then show ?thesis
    unfolding assms(3) by (elim disjE) (simp_all add: month_start_def days_in_month_def)
qed

lemma february_length:
  assumes "0 \<le> y" "y \<le> 399"
  shows "year_end y - year_start y - month_start 11 = days_in_month (y + era * 400 + 1) 2"
proof -
  have "d dvd y + era * 400 + 1 \<longleftrightarrow> d dvd y + 1" if "d dvd 400" for d :: int
  proof -
    have "d dvd era * 400" using that by (rule dvd_mult)
    then have "d dvd era * 400 + (y + 1) \<longleftrightarrow> d dvd y + 1" by (rule dvd_add_right_iff)
    then show ?thesis by (simp add: algebra_simps)
  qed
  then have "4 dvd y + era * 400 + 1 \<longleftrightarrow> 4 dvd y + 1" "100 dvd y + era * 400 + 1 \<longleftrightarrow> 100 dvd y + 1"
    "400 dvd y + era * 400 + 1 \<longleftrightarrow> 400 dvd y + 1" by simp_all
  then show ?thesis
    using year_length [OF assms] by (simp add: days_in_month_leap month_start_def)
qed

text \<open>The parts of a day number.\<close>

lemma civil_parts:
  obtains y doy where "0 \<le> y" "y \<le> 399" "0 \<le> doy" "doy \<le> 365" "year_start y + doy < year_end y"
    "z = (z + 719468) div 146097 * 146097 + (year_start y + doy) - 719468"
proof -
  define doe where "doe = z + 719468 - (z + 719468) div 146097 * 146097"
  have "0 \<le> doe" "doe < 146097"
    using div_bounds [of 146097 "z + 719468"] by (simp_all add: doe_def)
  then obtain y where y: "0 \<le> y" "y \<le> 399" "year_start y \<le> doe" "doe < year_end y"
    by (rule day_has_year)
  show ?thesis
  proof (rule that [of y "doe - year_start y"])
    show "doe - year_start y \<le> 365" using year_length [OF y(1,2)] y by (auto split: if_splits)
  qed (use y in \<open>simp_all add: doe_def\<close>)
qed

lemma civil_from_days_real:
  assumes "civil_from_days z = (year, month, day)"
  shows "real_date year month day \<and> day_number year month day = z \<and>
    \<bar>year - (z + 719468) div 146097 * 400\<bar> \<le> 400"
proof -
  define era where "era = (z + 719468) div 146097"
  obtain y doy where y: "0 \<le> y" "y \<le> 399" and doy: "0 \<le> doy" "year_start y + doy < year_end y"
    "z = era * 146097 + (year_start y + doy) - 719468" and small: "doy \<le> 365"
    unfolding era_def by (rule civil_parts [of z]) blast
  define mp where "mp = (5 * doy + 2) div 153"
  define m where "m = (if mp < 10 then mp + 3 else mp - 9)"
  let ?year = "if m \<le> 2 then y + era * 400 + 1 else y + era * 400"
  have mp: "0 \<le> mp" "mp \<le> 11"
    using doy(1) small div_bounds [of 153 "5 * doy + 2"] by (simp_all add: mp_def)
  have "civil_from_days z = (?year, m, doy - month_start mp + 1)"
    by (rule civil_of_parts [OF y doy mp_def m_def])
  with assms have "(year, month, day) = (?year, m, doy - month_start mp + 1)" by (rule trans [OF sym])
  then have parts: "year = ?year" "month = m" "day = doy - month_start mp + 1" by blast+
  have "day_number ?year m (doy - month_start mp + 1) = z"
    using day_number_of_parts [OF y mp m_def refl, of era "doy - month_start mp + 1"] doy(3) by simp
  moreover have "doy - month_start mp + 1 \<le> days_in_month ?year m"
  proof (cases "mp = 11")
    case True
    then have "m = 2" by (simp add: m_def)
    with True show ?thesis using february_length [OF y, of era] doy(2) by simp
  next
    case False
    then show ?thesis using month_length [of mp m ?year] mp day_in_month(2) [OF mp_def] m_def by simp
  qed
  then have "real_date ?year m (doy - month_start mp + 1)"
    using mp day_in_month(1) [OF mp_def] by (auto simp: real_date_def m_def)
  ultimately show ?thesis using parts y by (auto simp: era_def [symmetric])
qed

lemma civil_from_day_number:
  assumes date: "real_date year month day"
  shows "civil_from_days (day_number year month day) = (year, month, day)"
proof -
  define mp where "mp = (if 2 < month then month - 3 else month + 9)"
  define shifted where "shifted = year - (if month \<le> 2 then 1 else 0)"
  define era where "era = shifted div 400"
  define y where "y = shifted mod 400"
  have m: "1 \<le> month" "month \<le> 12" and d: "1 \<le> day" "day \<le> days_in_month year month"
    using date by (auto simp: real_date_def)
  have y: "0 \<le> y" "y \<le> 399" using pos_mod_bound [of 400 shifted] by (auto simp: y_def)
  have mp: "0 \<le> mp" "mp \<le> 11" and month: "month = (if mp < 10 then mp + 3 else mp - 9)"
    using m by (auto simp: mp_def)
  have year: "year = (if month \<le> 2 then y + era * 400 + 1 else y + era * 400)"
    using mult_div_mod_eq [of 400 shifted] by (auto simp: y_def era_def shifted_def)
  define doy where "doy = month_start mp + day - 1"
  have number: "day_number year month day = era * 146097 + (year_start y + doy) - 719468"
    using day_number_of_parts [OF y mp month year, of day] by (simp add: doy_def)
  have "0 \<le> month_start mp" using mp(1) by (simp add: month_start_def)
  then have doy: "0 \<le> doy" using d by (simp add: doy_def)
  have inside: "doy < month_start (mp + 1) \<and> year_start y + doy < year_end y"
  proof (cases "mp = 11")
    case True
    then have "month = 2" using month by simp
    then have "year_start y + doy < year_end y"
      using february_length [OF y, of era] d True year by (simp add: doy_def)
    moreover have "doy \<le> 365" using year_length [OF y] calculation by (auto split: if_splits)
    ultimately show ?thesis using True by (simp add: month_start_def)
  next
    case False
    then have "doy < month_start (mp + 1)"
      using month_length [of mp month year] mp month d by (simp add: doy_def)
    moreover have "month_start (mp + 1) \<le> month_start 11"
      using mp False by (auto simp: month_start_def intro!: zdiv_mono1)
    moreover have "month_start 11 = 337" by (simp add: month_start_def)
    moreover have "year_start y + 365 \<le> year_end y" using year_length [OF y] by (auto split: if_splits)
    ultimately show ?thesis by simp
  qed
  then have "(5 * doy + 2) div 153 = mp"
    using month_of_day [of mp doy] d by (simp add: doy_def)
  then have "mp = (5 * doy + 2) div 153" by simp
  from civil_of_parts [OF y doy conjunct2 [OF inside] number this month] year
  show "civil_from_days (day_number year month day) = (year, month, day)"
    by (simp add: doy_def)
qed

text \<open>C30: the two calendar conversions are inverse to each other. Every day number is shown as a
  date that exists, and converting that date gives the day number back; every date that exists
  gives a day number that is shown as that date.\<close>

theorem calendar_exact:
  "(case civil_from_days z of (year, month, day) \<Rightarrow>
      real_date year month day \<and> day_number year month day = z) \<and>
   (real_date year month day \<longrightarrow> civil_from_days (day_number year month day) = (year, month, day))"
  using civil_from_days_real [of z] civil_from_day_number by (auto split: prod.split)

lemma calendar_exact_witness:
  "real_date 2024 2 29 \<and> civil_from_days (day_number 2024 2 29) = (2024, 2, 29)"
proof -
  have "real_date 2024 2 29" by (simp add: real_date_def days_in_month_leap)
  with calendar_exact [of 0 2024 2 29] show ?thesis by blast
qed

section \<open>Rendering\<close>

definition day_millis :: int where "day_millis = 86400000"

definition iso_utc :: "i64 \<Rightarrow> string" where
  "iso_utc w =
     (let n = sint w; ms = n mod day_millis
      in case civil_from_days (n div day_millis) of (year, month, day) \<Rightarrow>
        pad_int 4 year @ ''-'' @ pad_int 2 month @ ''-'' @ pad_int 2 day @ ''T'' @
        pad_int 2 (ms div 3600000) @ '':'' @ pad_int 2 (ms mod 3600000 div 60000) @ '':'' @
        pad_int 2 (ms mod 60000 div 1000) @ ''.'' @ pad_int 3 (ms mod 1000) @ ''Z'')"

section \<open>Scanning\<close>

record time_error =
  te_name :: string
  te_message :: string

type_synonym 'a scanned = "time_error + ('a \<times> string)"

definition reject :: "(string \<Rightarrow> string) \<Rightarrow> string \<Rightarrow> string \<Rightarrow> time_error" where
  "reject dbg whole detail =
     \<lparr>te_name = ''time.ParseError'',
      te_message = ''cannot parse timestamp '' @ dbg whole @ '': '' @ detail\<rparr>"

text \<open>The \<open>?\<close> operator.\<close>

definition then_scan :: "'e + 'a \<Rightarrow> ('a \<Rightarrow> 'e + 'b) \<Rightarrow> 'e + 'b" where
  "then_scan r f = (case r of Inl e \<Rightarrow> Inl e | Inr x \<Rightarrow> f x)"

definition fit :: "int \<Rightarrow> int option" where
  "fit n = (if i64_min \<le> n \<and> n \<le> i64_max then Some n else None)"

definition scan_literal :: "(string \<Rightarrow> time_error) \<Rightarrow> char \<Rightarrow> string \<Rightarrow> string \<Rightarrow> unit scanned" where
  "scan_literal rj c expected rest =
     (if rest = [] \<or> hd rest \<noteq> c then Inl (rj (''expected '' @ expected)) else Inr ((), tl rest))"

definition scan_fixed :: "(string \<Rightarrow> time_error) \<Rightarrow> nat \<Rightarrow> string \<Rightarrow> string \<Rightarrow> int scanned" where
  "scan_fixed rj count field rest =
     (if length rest < count then Inl (rj (''the '' @ field @ '' is cut short''))
      else if \<not> list_all is_digit (take count rest)
      then Inl (rj (''the '' @ field @ '' is not '' @ dec_nat count @ '' digits''))
      else Inr (digits_value (take count rest), drop count rest))"

fun year_value :: "int \<Rightarrow> string \<Rightarrow> int option" where
  "year_value acc [] = Some acc"
| "year_value acc (d # ds) =
     (case fit (acc * 10) of
        None \<Rightarrow> None
      | Some shifted \<Rightarrow>
          (case fit (shifted + digit_value d) of None \<Rightarrow> None | Some y \<Rightarrow> year_value y ds))"

definition max_year :: int where "max_year = 999999999"

definition scan_year :: "(string \<Rightarrow> time_error) \<Rightarrow> string \<Rightarrow> int scanned" where
  "scan_year rj rest =
     (let negative = (rest \<noteq> [] \<and> hd rest = CHR ''-'');
          r = (if negative then tl rest else rest);
          digits = takeWhile is_digit r
      in if digits = [] \<or> (\<not> negative \<and> length digits < 4) then Inl (rj ''expected a four-digit year'')
         else case year_value 0 digits of
           None \<Rightarrow> Inl (rj ''the year is too large to represent'')
         | Some y \<Rightarrow>
             if max_year < y then Inl (rj ''the year is too far from the epoch to represent'')
             else Inr (if negative then - y else y, dropWhile is_digit r))"

definition scan_separator :: "(string \<Rightarrow> time_error) \<Rightarrow> string \<Rightarrow> unit scanned" where
  "scan_separator rj rest =
     (if rest \<noteq> [] \<and> (hd rest = CHR ''T'' \<or> hd rest = CHR ''t'') then Inr ((), tl rest)
      else Inl (rj ''expected `T` between the date and the time''))"

definition scan_fraction :: "(string \<Rightarrow> time_error) \<Rightarrow> string \<Rightarrow> int scanned" where
  "scan_fraction rj rest =
     (if rest = [] \<or> hd rest \<noteq> CHR ''.'' then Inr (0, rest)
      else let digits = takeWhile is_digit (tl rest)
        in if digits = [] then Inl (rj ''expected at least one fractional-second digit'')
           else Inr (digits_value (take 3 (digits @ ''000'')), dropWhile is_digit (tl rest)))"

definition scan_offset :: "(string \<Rightarrow> time_error) \<Rightarrow> string \<Rightarrow> int scanned" where
  "scan_offset rj rest =
     (if rest \<noteq> [] \<and> (hd rest = CHR ''Z'' \<or> hd rest = CHR ''z'') then Inr (0, tl rest)
      else if rest = [] \<or> (hd rest \<noteq> CHR ''+'' \<and> hd rest \<noteq> CHR ''-'')
      then Inl (rj ''expected a `Z` or a `+HH:MM` offset (a timestamp without an offset does not name an instant)'')
      else then_scan (scan_fixed rj 2 ''offset hour'' (tl rest)) (\<lambda>(hours, r).
        then_scan (scan_literal rj CHR '':'' ''a `:` in the offset'' r) (\<lambda>(_, r).
        then_scan (scan_fixed rj 2 ''offset minute'' r) (\<lambda>(minutes, r).
          if 23 < hours then Inl (rj (''offset hour '' @ dec_int hours @ '' is out of range''))
          else if 59 < minutes then Inl (rj (''offset minute '' @ dec_int minutes @ '' is out of range''))
          else Inr ((if hd rest = CHR ''+'' then 1 else - 1) * (hours * 60 + minutes), r)))))"

definition scan_end :: "(string \<Rightarrow> time_error) \<Rightarrow> string \<Rightarrow> unit scanned" where
  "scan_end rj rest = (if rest = [] then Inr ((), []) else Inl (rj ''unexpected text after the offset''))"

definition civil_days :: "(string \<Rightarrow> time_error) \<Rightarrow> int \<Rightarrow> int \<Rightarrow> int \<Rightarrow> time_error + int" where
  "civil_days rj year month day =
     (if month < 1 \<or> 12 < month then Inl (rj (''month '' @ dec_int month @ '' is out of range''))
      else if day < 1 \<or> days_in_month year month < day
      then Inl (rj (''day '' @ dec_int day @ '' does not exist in month '' @ dec_int month @
                    '' of year '' @ dec_int year))
      else Inr (day_number year month day))"

definition time_of_day_millis :: "(string \<Rightarrow> time_error) \<Rightarrow> int \<Rightarrow> int \<Rightarrow> int \<Rightarrow> time_error + int" where
  "time_of_day_millis rj hour minute second =
     (if 23 < hour then Inl (rj (''hour '' @ dec_int hour @ '' is out of range''))
      else if 59 < minute then Inl (rj (''minute '' @ dec_int minute @ '' is out of range''))
      else if 59 < second
      then Inl (rj (''second '' @ dec_int second @ '' is out of range (leap seconds have no epoch timestamp)''))
      else Inr (hour * 3600000 + minute * 60000 + second * 1000))"

definition too_far :: string where
  "too_far = ''the instant is too far from the epoch to represent''"

definition instant :: "(string \<Rightarrow> time_error) \<Rightarrow> int \<Rightarrow> int \<Rightarrow> int \<Rightarrow> int \<Rightarrow> time_error + i64" where
  "instant rj days time_of_day fraction offset =
     (case fit (days * day_millis) of None \<Rightarrow> Inl (rj too_far) | Some a \<Rightarrow>
      case fit (a + time_of_day) of None \<Rightarrow> Inl (rj too_far) | Some b \<Rightarrow>
      case fit (b + fraction) of None \<Rightarrow> Inl (rj too_far) | Some c \<Rightarrow>
      case i64_of (c - offset * 60000) of None \<Rightarrow> Inl (rj too_far) | Some w \<Rightarrow> Inr w)"

definition parse_iso :: "(string \<Rightarrow> string) \<Rightarrow> string \<Rightarrow> time_error + i64" where
  "parse_iso dbg whole =
     (let rj = reject dbg whole in
      then_scan (scan_year rj whole) (\<lambda>(year, r).
      then_scan (scan_literal rj CHR ''-'' ''a `-` after the year'' r) (\<lambda>(_, r).
      then_scan (scan_fixed rj 2 ''month'' r) (\<lambda>(month, r).
      then_scan (scan_literal rj CHR ''-'' ''a `-` after the month'' r) (\<lambda>(_, r).
      then_scan (scan_fixed rj 2 ''day'' r) (\<lambda>(day, r).
      then_scan (scan_separator rj r) (\<lambda>(_, r).
      then_scan (scan_fixed rj 2 ''hour'' r) (\<lambda>(hour, r).
      then_scan (scan_literal rj CHR '':'' ''a `:` after the hour'' r) (\<lambda>(_, r).
      then_scan (scan_fixed rj 2 ''minute'' r) (\<lambda>(minute, r).
      then_scan (scan_literal rj CHR '':'' ''a `:` after the minute'' r) (\<lambda>(_, r).
      then_scan (scan_fixed rj 2 ''second'' r) (\<lambda>(second, r).
      then_scan (scan_fraction rj r) (\<lambda>(fraction, r).
      then_scan (scan_offset rj r) (\<lambda>(offset, r).
      then_scan (scan_end rj r) (\<lambda>_.
      then_scan (civil_days rj year month day) (\<lambda>days.
      then_scan (time_of_day_millis rj hour minute second) (\<lambda>time_of_day.
      instant rj days time_of_day fraction offset)))))))))))))))))"

section \<open>Reading back what is rendered\<close>

lemma then_scan_simps [simp]: "then_scan (Inr x) f = f x" "then_scan (Inl e) f = Inl e"
  by (simp_all add: then_scan_def)

lemma foldl_digits_ge:
  "0 \<le> acc \<Longrightarrow> list_all is_digit ds \<Longrightarrow> acc \<le> foldl (\<lambda>acc d. acc * 10 + digit_value d) acc ds"
proof (induction ds arbitrary: acc)
  case (Cons d ds)
  then have "0 \<le> digit_value d" by (simp add: digit_value_nonneg)
  with Cons have "acc * 10 + digit_value d \<le> foldl (\<lambda>acc d. acc * 10 + digit_value d) acc (d # ds)" by simp
  with \<open>0 \<le> digit_value d\<close> Cons.prems(1) show ?case by linarith
qed simp

lemma year_value_fits:
  "0 \<le> acc \<Longrightarrow> list_all is_digit ds \<Longrightarrow> foldl (\<lambda>acc d. acc * 10 + digit_value d) acc ds \<le> i64_max \<Longrightarrow>
     year_value acc ds = Some (foldl (\<lambda>acc d. acc * 10 + digit_value d) acc ds)"
proof (induction ds arbitrary: acc)
  case (Cons d ds)
  then have d: "0 \<le> digit_value d" by (simp add: digit_value_nonneg)
  with Cons.prems have "acc * 10 + digit_value d \<le> i64_max"
    using foldl_digits_ge [of "acc * 10 + digit_value d" ds] by simp
  with d Cons.prems(1) have "fit (acc * 10) = Some (acc * 10)"
    "fit (acc * 10 + digit_value d) = Some (acc * 10 + digit_value d)"
    by (simp_all add: fit_def i64_min_def)
  with Cons d show ?case by simp
qed simp

lemma digits_prefix:
  assumes "list_all is_digit ds" and "\<not> is_digit c"
  shows "takeWhile is_digit (ds @ c # r) = ds" "dropWhile is_digit (ds @ c # r) = c # r"
  using assms by (induction ds) auto

lemma not_digit [simp]: "\<not> is_digit CHR ''-''" "\<not> is_digit CHR ''Z''" "\<not> is_digit CHR '':''" "\<not> is_digit CHR ''.''"
  by (simp_all add: is_digit_def)

lemma zero_pad_all: "list_all is_digit (zero_pad w n)"
  using zero_pad_digits by (auto simp: list_all_iff)

lemma length_zero_pad_4: "\<not> length (zero_pad 4 n) < 4"
  using zero_pad_long(1) [of 4 n] by simp

lemma scan_year_rendered:
  assumes "\<bar>y\<bar> \<le> max_year"
  shows "scan_year rj (pad_int 4 y @ CHR ''-'' # r) = Inr (y, CHR ''-'' # r)"
proof -
  have year: "year_value 0 (zero_pad w n) = Some (int n)" if "int n \<le> max_year" for w n
    using year_value_fits [OF order_refl zero_pad_all, of w n] that digits_value_zero_pad [of w n]
    by (simp add: digits_value_def max_year_def i64_max_def)
  note parts = digits_prefix [OF zero_pad_all not_digit(1)]
  show ?thesis
  proof (cases "y < 0")
    case True
    with year [of "nat (- y)" 3] parts assms show ?thesis
      by (simp add: scan_year_def pad_int_def zero_pad_long Let_def)
  next
    case False
    have "hd (zero_pad 4 n @ CHR ''-'' # r) \<noteq> CHR ''-''" for n
      using zero_pad_digits [of "hd (zero_pad 4 n)" 4 n] zero_pad_long(2) [of 4 n] not_digit(1) by auto
    with False year [of "nat y" 4] parts assms show ?thesis
      by (simp add: length_zero_pad_4 scan_year_def pad_int_def zero_pad_long Let_def)
  qed
qed

lemma scan_fixed_rendered:
  assumes "0 \<le> v" "v < 100"
  shows "scan_fixed rj 2 field (pad_int 2 v @ r) = Inr (v, r)"
proof -
  have "length (zero_pad 2 (nat v)) = 2" by (rule length_zero_pad) (use assms in simp_all)
  then show ?thesis using assms zero_pad_all [of 2 "nat v"] by (simp add: scan_fixed_def pad_int_def)
qed

lemma scan_literal_met [simp]: "scan_literal rj c what (c # r) = Inr ((), r)"
  by (simp add: scan_literal_def)

lemma scan_separator_met [simp]: "scan_separator rj (CHR ''T'' # r) = Inr ((), r)"
  by (simp add: scan_separator_def)

lemma scan_fraction_rendered:
  assumes "0 \<le> v" "v < 1000"
  shows "scan_fraction rj (CHR ''.'' # pad_int 3 v @ CHR ''Z'' # r) = Inr (v, CHR ''Z'' # r)"
proof -
  have len: "length (zero_pad 3 (nat v)) = 3" by (rule length_zero_pad) (use assms in simp_all)
  then have "zero_pad 3 (nat v) \<noteq> []" by auto
  with len assms show ?thesis
    by (simp add: scan_fraction_def pad_int_def digits_prefix [OF zero_pad_all not_digit(2)])
qed

lemma scan_offset_zulu [simp]: "scan_offset rj (CHR ''Z'' # r) = Inr (0, r)"
  by (simp add: scan_offset_def)

lemma scan_end_met [simp]: "scan_end rj [] = Inr ((), [])"
  by (simp add: scan_end_def)

text \<open>The years an \<open>i64\<close> of milliseconds can name.\<close>

lemma days_bound:
  assumes "i64_min \<le> n" "n \<le> i64_max"
  shows "\<bar>n div day_millis\<bar> \<le> 200000000000"
  using assms div_bounds [of day_millis n] by (simp add: day_millis_def i64_min_def i64_max_def)

lemma year_bound:
  assumes "civil_from_days z = (year, month, day)" and "\<bar>z\<bar> \<le> 200000000000"
  shows "\<bar>year\<bar> \<le> max_year"
proof -
  have "\<bar>(z + 719468) div 146097\<bar> \<le> 1400000"
    using div_bounds [of 146097 "z + 719468"] assms(2) by simp
  moreover have "\<bar>year - (z + 719468) div 146097 * 400\<bar> \<le> 400"
    using civil_from_days_real [OF assms(1)] by simp
  ultimately show ?thesis by (simp add: max_year_def)
qed

lemma clock_parts:
  assumes "0 \<le> ms" "ms < day_millis"
  shows "0 \<le> ms div 3600000" "ms div 3600000 < 24"
    "0 \<le> ms mod 3600000 div 60000" "ms mod 3600000 div 60000 < 60"
    "0 \<le> ms mod 60000 div 1000" "ms mod 60000 div 1000 < 60"
    "0 \<le> ms mod 1000" "ms mod 1000 < 1000"
    "ms div 3600000 * 3600000 + ms mod 3600000 div 60000 * 60000 + ms mod 60000 div 1000 * 1000 + ms mod 1000 = ms"
proof -
  have "ms mod 3600000 mod 60000 = ms mod 60000" "ms mod 60000 mod 1000 = ms mod 1000"
    by (simp_all add: mod_mod_cancel)
  then show "ms div 3600000 * 3600000 + ms mod 3600000 div 60000 * 60000 + ms mod 60000 div 1000 * 1000 + ms mod 1000 = ms"
    using div_mult_mod_eq [of ms 3600000] div_mult_mod_eq [of "ms mod 3600000" 60000]
      div_mult_mod_eq [of "ms mod 60000" 1000] by (simp only:)
  show "ms div 3600000 < 24" using assms div_bounds [of 3600000 ms] by (simp add: day_millis_def)
  show "ms mod 3600000 div 60000 < 60"
    using div_bounds [of 60000 "ms mod 3600000"] pos_mod_bound [of 3600000 ms] by simp
  show "ms mod 60000 div 1000 < 60"
    using div_bounds [of 1000 "ms mod 60000"] pos_mod_bound [of 60000 ms] by simp
qed (use assms in \<open>simp_all add: pos_imp_zdiv_nonneg_iff\<close>)

lemma parse_rendered:
  assumes year: "\<bar>year\<bar> \<le> max_year" and date: "real_date year month day"
    and clock: "0 \<le> hour" "hour < 24" "0 \<le> minute" "minute < 60" "0 \<le> second" "second < 60"
      "0 \<le> fraction" "fraction < 1000"
    and whole: "whole = pad_int 4 year @ CHR ''-'' # pad_int 2 month @ CHR ''-'' # pad_int 2 day @ CHR ''T'' #
      pad_int 2 hour @ CHR '':'' # pad_int 2 minute @ CHR '':'' # pad_int 2 second @ CHR ''.'' #
      pad_int 3 fraction @ CHR ''Z'' # []"
  shows "parse_iso dbg whole =
    instant (reject dbg whole) (day_number year month day)
      (hour * 3600000 + minute * 60000 + second * 1000) fraction 0"
proof -
  obtain rj where rj: "reject dbg whole = rj" by simp
  have "0 \<le> month" "month < 100" "0 \<le> day" "day < 100"
    using date days_in_month_leap [of year month] by (auto simp: real_date_def split: if_splits)
  note scans = scan_year_rendered [OF year] scan_fixed_rendered [OF this(1,2)] scan_fixed_rendered [OF this(3,4)]
  have "hour < 100" "minute < 100" "second < 100" using clock by simp_all
  note scans = scans scan_fixed_rendered [OF clock(1) this(1)] scan_fixed_rendered [OF clock(3) this(2)]
    scan_fixed_rendered [OF clock(5) this(3)] scan_fraction_rendered [OF clock(7,8)]
  have days: "civil_days rj year month day = Inr (day_number year month day)"
    using date by (simp add: civil_days_def real_date_def)
  have time: "time_of_day_millis rj hour minute second = Inr (hour * 3600000 + minute * 60000 + second * 1000)"
    using clock by (simp add: time_of_day_millis_def)
  show ?thesis
    unfolding parse_iso_def Let_def rj
    unfolding whole
    by (simp only: scans scan_literal_met scan_separator_met scan_offset_zulu scan_end_met then_scan_simps
        prod.case days time)
qed

lemma instant_of_parts:
  assumes "n = days * day_millis + (time_of_day + fraction)" and "0 \<le> time_of_day" "0 \<le> fraction"
    and "time_of_day + fraction < day_millis" and "n = sint w"
  shows "instant rj days time_of_day fraction 0 =
    (if - 9223372036828800000 \<le> n then Inr w else Inl (rj too_far))"
proof (cases "- 106751991167 \<le> days")
  case True
  then have "- 9223372036828800000 \<le> days * day_millis" by (simp add: day_millis_def)
  moreover have "n \<le> i64_max" using assms(5) sint_range [of w] by simp
  ultimately have "fit (days * day_millis) = Some (days * day_millis)"
    "fit (days * day_millis + time_of_day) = Some (days * day_millis + time_of_day)"
    "fit (days * day_millis + time_of_day + fraction) = Some n" "- 9223372036828800000 \<le> n"
    using assms by (simp_all add: fit_def i64_min_def)
  then show ?thesis using assms(5) by (simp add: instant_def i64_of_sint)
next
  case False
  then have "days * day_millis \<le> - 106751991168 * day_millis"
    by (intro mult_right_mono) (simp_all add: day_millis_def)
  then have "days * day_millis < i64_min" and "\<not> - 9223372036828800000 \<le> n"
    using assms(1,4) by (simp_all add: i64_min_def day_millis_def)
  then show ?thesis by (simp add: instant_def fit_def)
qed

text \<open>C16: \<open>parse_iso\<close> reads back every timestamp \<open>iso_utc\<close> writes, for every \<open>i64\<close> from the first
  whole day on. On the earlier milliseconds, those of the cut day on which \<open>i64::MIN\<close> falls, the
  product of the day number and the length of a day does not fit and the text is rejected,
  although the instant does fit.\<close>

theorem iso_round_trip:
  "parse_iso dbg (iso_utc w) =
     (if - 9223372036828800000 \<le> sint w then Inr w else Inl (reject dbg (iso_utc w) too_far))"
proof -
  define n where "n = sint w"
  define rj where "rj = reject dbg (iso_utc w)"
  define ms where "ms = n mod day_millis"
  obtain year month day where civil: "civil_from_days (n div day_millis) = (year, month, day)"
    by (cases "civil_from_days (n div day_millis)") auto
  have range: "i64_min \<le> n" "n \<le> i64_max" using sint_range [of w] by (simp_all add: n_def)
  have ms: "0 \<le> ms" "ms < day_millis" by (simp_all add: ms_def day_millis_def)
  note clock = clock_parts [OF ms]
  have shown: "iso_utc w = pad_int 4 year @ CHR ''-'' # pad_int 2 month @ CHR ''-'' # pad_int 2 day @ CHR ''T'' #
      pad_int 2 (ms div 3600000) @ CHR '':'' # pad_int 2 (ms mod 3600000 div 60000) @ CHR '':'' #
      pad_int 2 (ms mod 60000 div 1000) @ CHR ''.'' # pad_int 3 (ms mod 1000) @ CHR ''Z'' # []"
    unfolding iso_utc_def Let_def n_def [symmetric] ms_def [symmetric] civil by simp
  have sum: "n = n div day_millis * day_millis + (ms div 3600000 * 3600000 +
      ms mod 3600000 div 60000 * 60000 + ms mod 60000 div 1000 * 1000 + ms mod 1000)"
    unfolding clock(9) by (simp add: ms_def div_mult_mod_eq)
  from parse_rendered [OF year_bound [OF civil days_bound [OF range]] _ clock(1-8) shown, of dbg]
  have "parse_iso dbg (iso_utc w) =
      instant rj (n div day_millis)
        (ms div 3600000 * 3600000 + ms mod 3600000 div 60000 * 60000 + ms mod 60000 div 1000 * 1000) (ms mod 1000) 0"
    using civil_from_days_real [OF civil] by (simp add: rj_def)
  moreover have "instant rj (n div day_millis)
        (ms div 3600000 * 3600000 + ms mod 3600000 div 60000 * 60000 + ms mod 60000 div 1000 * 1000) (ms mod 1000) 0 =
      (if - 9223372036828800000 \<le> n then Inr w else Inl (rj too_far))"
  proof (rule instant_of_parts [OF sum _ clock(7) _ n_def])
    show "0 \<le> ms div 3600000 * 3600000 + ms mod 3600000 div 60000 * 60000 + ms mod 60000 div 1000 * 1000"
      using clock(1,3,5) by linarith
  qed (simp only: clock(9) ms(2))
  ultimately show ?thesis by (simp only: n_def rj_def)
qed

end
