(* ===== verification/Random_Numbers.thy ===== *)
theory Random_Numbers
  imports Brasa_Prelude "HOL-Library.Multiset"
begin

text \<open>
  The generator of \<open>std::rand\<close> (\<open>brasa_runtime/src/rand_glue.rs\<close>): SplitMix64 seeding, the
  xoshiro256** step, rejection sampling, integers of a range and the shuffle. A rejection loop that
  never ends is \<open>None\<close>.
\<close>

section \<open>The generator\<close>

type_synonym u64 = "64 word"
type_synonym rng = "u64 \<times> u64 \<times> u64 \<times> u64"

definition split_mix :: "u64 \<Rightarrow> u64 \<times> u64" where
  "split_mix x0 =
     (let x = x0 + 0x9E3779B97F4A7C15;
          z1 = (x XOR drop_bit 30 x) * 0xBF58476D1CE4E5B9;
          z2 = (z1 XOR drop_bit 27 z1) * 0x94D049BB133111EB
      in (z2 XOR drop_bit 31 z2, x))"

definition seeded :: "u64 \<Rightarrow> rng" where
  "seeded seed =
     (let (a, x1) = split_mix seed; (b, x2) = split_mix x1; (c, x3) = split_mix x2; (d, x4) = split_mix x3
      in (a, b, c, d))"

definition next_u64 :: "rng \<Rightarrow> u64 \<times> rng" where
  "next_u64 g =
     (case g of (s0, s1, s2, s3) \<Rightarrow>
        let result = word_rotl 7 (s1 * 5) * 9;
            t = push_bit 17 s1;
            s2 = s2 XOR s0;
            s3 = s3 XOR s1;
            s1 = s1 XOR s2;
            s0 = s0 XOR s3;
            s2 = s2 XOR t;
            s3 = word_rotl 45 s3
        in (result, (s0, s1, s2, s3)))"

section \<open>Bounded draws\<close>

definition threshold :: "u64 \<Rightarrow> u64" where
  "threshold n = (- n) mod n"

partial_function (option) below :: "u64 \<Rightarrow> rng \<Rightarrow> (u64 \<times> rng) option" where
  "below n g =
     (case next_u64 g of (raw, g') \<Rightarrow>
        if threshold n \<le> raw then Some (raw mod n, g') else below n g')"

text \<open>The arithmetic is done in \<open>i128\<close>; \<open>as u64\<close> and \<open>as i64\<close> keep the low bits.\<close>

definition int_span :: "i64 \<Rightarrow> i64 \<Rightarrow> bool \<Rightarrow> int" where
  "int_span lo hi inclusive = sint hi - sint lo + (if inclusive then 1 else 0)"

definition int_in :: "i64 \<Rightarrow> i64 \<Rightarrow> bool \<Rightarrow> rng \<Rightarrow> (i64 option \<times> rng) option" where
  "int_in lo hi inclusive g =
     (let span = int_span lo hi inclusive
      in if span \<le> 0 then Some (None, g)
         else
           (case (if 2 ^ 64 - 1 < span then Some (next_u64 g) else below (word_of_int span) g) of
              None \<Rightarrow> None
            | Some (offset, g') \<Rightarrow> Some (Some (word_of_int (sint lo + uint offset)), g')))"

section \<open>Shuffling\<close>

definition swap :: "nat \<Rightarrow> nat \<Rightarrow> 'a list \<Rightarrow> 'a list" where
  "swap i j xs = xs[i := xs ! j, j := xs ! i]"

fun shuffle_from :: "nat \<Rightarrow> rng \<Rightarrow> 'a list \<Rightarrow> ('a list \<times> rng) option" where
  "shuffle_from 0 g xs = Some (xs, g)"
| "shuffle_from (Suc i) g xs =
     (case below (word_of_nat (Suc i) + 1) g of
        None \<Rightarrow> None
      | Some (j, g') \<Rightarrow> shuffle_from i g' (swap (Suc i) (unat j) xs))"

definition shuffle :: "rng \<Rightarrow> 'a list \<Rightarrow> ('a list \<times> rng) option" where
  "shuffle g xs = shuffle_from (length xs - 1) g xs"

section \<open>Every value is as likely as any other\<close>

lemma unat_u64: "unat (w :: u64) < 2 ^ 64"
proof -
  have "(unsigned w :: nat) < 2 ^ LENGTH(64)" by (rule unsigned_less)
  then show ?thesis by simp
qed

lemma threshold_value:
  assumes "0 < n"
  shows "unat (threshold n) = 2 ^ 64 mod unat n"
proof -
  have pos: "0 < uint n" "uint n < 2 ^ 64" using assms uint_lt2p [of n] by (simp_all add: word_less_def)
  have "- uint n mod 2 ^ 64 = 2 ^ 64 - uint n"
    by (rule int_mod_pos_eq [of _ _ "- 1"]) (use pos in simp_all)
  then have "uint (- n) = 2 ^ 64 - uint n" by (simp add: uint_word_ariths)
  then have "uint (threshold n) = (2 ^ 64 - uint n) mod uint n"
    by (simp add: threshold_def uint_mod)
  also have "\<dots> = 2 ^ 64 mod uint n" by (rule minus_mod_self2)
  finally have "int (unat (threshold n)) = int (2 ^ 64 mod unat n)" by (simp add: zmod_int)
  then show ?thesis by (simp only: of_nat_eq_iff)
qed

lemma residue_count:
  fixes n r t :: nat
  assumes "r < n"
  shows "card {x. M mod n \<le> x \<and> x < M \<and> x mod n = r} = M div n"
proof -
  let ?t = "M mod n"
  let ?f = "\<lambda>k. ?t + ((r + n - ?t mod n) mod n + k * n)"
  let ?d = "(r + n - ?t mod n) mod n"
  have n: "0 < n" using assms by simp
  have d: "(?t + ?d) mod n = r"
  proof -
    have "(?t + ?d) mod n = (?t + (r + n - ?t)) mod n" using n by (simp add: mod_add_right_eq)
    also have "?t + (r + n - ?t) = r + n" using pos_mod_bound n by (simp add: less_imp_le_nat trans_le_add2)
    finally show ?thesis using assms by simp
  qed
  have "{x. ?t \<le> x \<and> x < M \<and> x mod n = r} = ?f ` {..< M div n}" (is "?L = ?R")
  proof
    show "?R \<subseteq> ?L"
    proof
      fix x assume "x \<in> ?R"
      then obtain k where k: "k < M div n" "x = ?f k" by auto
      have "x mod n = r" using d k(2) by (simp add: add.assoc [symmetric])
      moreover have "?d + k * n < (M div n) * n"
      proof -
        have "?d < n" using n by simp
        then have "?d + k * n < Suc k * n" by simp
        also have "\<dots> \<le> (M div n) * n" using k(1) by (intro mult_right_mono) auto
        finally show ?thesis .
      qed
      then have "x < M" using k(2) div_mult_mod_eq [of M n] by linarith
      ultimately show "x \<in> ?L" using k(2) by simp
    qed
    show "?L \<subseteq> ?R"
    proof
      fix x assume x: "x \<in> ?L"
      define y where "y = x - ?t"
      have y: "x = ?t + y" using x by (simp add: y_def)
      moreover have "x < (M div n) * n + ?t" using x by simp
      ultimately have y: "x = ?t + y" "y < (M div n) * n" by linarith+
      have "y mod n = ?d mod n"
      proof -
        have "(?t + y) mod n = (?t + ?d) mod n" using d x y(1) by simp
        then have "(int ?t + int y) mod int n = (int ?t + int ?d) mod int n"
          by (simp only: of_nat_add [symmetric] zmod_int [symmetric])
        then have "int y mod int n = int ?d mod int n" by (simp only: mod_eq_dvd_iff add_diff_cancel_left)
        then show ?thesis by (simp only: zmod_int [symmetric] of_nat_eq_iff)
      qed
      then have "y = ?d + (y div n) * n" using div_mult_mod_eq [of y n] n by simp
      moreover have "y div n < M div n" using y(2) n by (simp add: div_less_iff_less_mult)
      ultimately show "x \<in> ?R" using y(1) by (intro image_eqI [of _ _ "y div n"]) auto
    qed
  qed
  moreover have "inj_on ?f {..< M div n}" using n by (auto intro: inj_onI)
  ultimately show ?thesis by (simp add: card_image)
qed

lemma card_words: "card {w :: u64. P (unat w)} = card {x. x < 2 ^ 64 \<and> P x}"
proof -
  have "{x. x < 2 ^ 64 \<and> P x} = unat ` {w :: u64. P (unat w)}"
  proof
    show "{x. x < 2 ^ 64 \<and> P x} \<subseteq> unat ` {w :: u64. P (unat w)}"
    proof
      fix x assume x: "x \<in> {x. x < 2 ^ 64 \<and> P x}"
      then have "unat (word_of_nat x :: u64) = x" by (simp add: unat_of_nat take_bit_nat_eq_self_iff)
      with x show "x \<in> unat ` {w :: u64. P (unat w)}" by (intro image_eqI [of _ _ "word_of_nat x"]) auto
    qed
  qed (use unat_u64 in auto)
  moreover have "inj_on unat {w :: u64. P (unat w)}" by (rule inj_onI) (simp add: word_unat_eq_iff)
  ultimately show ?thesis by (simp add: card_image)
qed

text \<open>C36: a bounded draw has no modulo bias. Whatever the bound, each of its values is the remainder of
  exactly the same number of raw outputs that the rejection accepts, and more than half of all raw
  outputs are accepted.\<close>

theorem below_unbiased:
  assumes "0 < n" and "r < n"
  shows "card {raw. threshold n \<le> raw \<and> raw mod n = r} = 2 ^ 64 div unat n \<and>
    2 ^ 64 < 2 * card {raw. threshold n \<le> raw}"
proof -
  let ?n = "unat n"
  have n: "0 < ?n" "?n < 2 ^ 64" using assms(1) unat_u64 [of n] by (simp_all add: word_less_nat_alt)
  have "{raw. threshold n \<le> raw \<and> raw mod n = r} = {raw. 2 ^ 64 mod ?n \<le> unat raw \<and> unat raw mod ?n = unat r}"
    by (simp add: word_le_nat_alt threshold_value [OF assms(1)] unat_mod word_unat_eq_iff)
  then have "card {raw. threshold n \<le> raw \<and> raw mod n = r} =
      card {x. 2 ^ 64 mod ?n \<le> x \<and> x < 2 ^ 64 \<and> x mod ?n = unat r}"
    using card_words [of "\<lambda>x. 2 ^ 64 mod ?n \<le> x \<and> x mod ?n = unat r"] by (simp add: conj_ac)
  also have "\<dots> = 2 ^ 64 div ?n" using assms(2) by (intro residue_count) (simp add: word_less_nat_alt)
  finally have each: "card {raw. threshold n \<le> raw \<and> raw mod n = r} = 2 ^ 64 div ?n" .
  have "{raw. threshold n \<le> raw} = {raw. 2 ^ 64 mod ?n \<le> unat raw}"
    by (simp add: word_le_nat_alt threshold_value [OF assms(1)])
  then have "card {raw. threshold n \<le> raw} = card {2 ^ 64 mod ?n ..< 2 ^ 64}"
    using card_words [of "\<lambda>x. 2 ^ 64 mod ?n \<le> x"] by (simp add: atLeastLessThan_def Collect_conj_eq [symmetric] Int_def conj_ac atLeast_def lessThan_def)
  moreover have "2 * (2 ^ 64 mod ?n) < 2 ^ 64"
  proof -
    have "1 \<le> 2 ^ 64 div ?n" using n by (simp add: Suc_le_eq div_greater_zero_iff)
    then have "?n \<le> 2 ^ 64 div ?n * ?n" by simp
    moreover have "2 ^ 64 mod ?n < ?n" using n by simp
    moreover have "2 ^ 64 div ?n * ?n + 2 ^ 64 mod ?n = 2 ^ 64" by (rule div_mult_mod_eq)
    ultimately show ?thesis by linarith
  qed
  ultimately show ?thesis using each by simp
qed

lemma below_unbiased_witness:
  "card {raw. threshold 6 \<le> raw \<and> raw mod 6 = 2} = 2 ^ 64 div unat (6 :: u64) \<and>
     2 ^ 64 < 2 * card {raw. threshold 6 \<le> raw}"
  by (rule below_unbiased) simp_all

lemma below_bounded:
  assumes "below n g = Some (v, g')" and "0 < n"
  shows "v < n"
proof -
  have "0 < n \<longrightarrow> fst (v, g') < n"
    by (rule below.raw_induct [where P = "\<lambda>n g r. 0 < n \<longrightarrow> fst r < n", OF _ assms(1)])
       (auto simp: word_less_nat_alt unat_mod split: prod.splits if_splits)
  with assms(2) show ?thesis by simp
qed

section \<open>Integers of a range\<close>

definition in_range :: "i64 \<Rightarrow> i64 \<Rightarrow> bool \<Rightarrow> i64 \<Rightarrow> bool" where
  "in_range lo hi inclusive v \<longleftrightarrow>
     sint lo \<le> sint v \<and> (if inclusive then sint v \<le> sint hi else sint v < sint hi)"

lemma offset_in_range:
  assumes "uint offset < int_span lo hi inclusive"
  shows "sint (word_of_int (sint lo + uint (offset :: u64)) :: i64) = sint lo + uint offset"
proof (rule sint_word_of_int_64)
  show "i64_min \<le> sint lo + uint offset" using sint_range(1) [of lo] uint_ge_0 [of offset] by linarith
  show "sint lo + uint offset \<le> i64_max"
    using assms sint_range(2) [of hi] by (auto simp: int_span_def split: if_splits)
qed

text \<open>C37: an integer of a range is drawn without bias and without wrap-around. The draw answers no
  value exactly on an empty range and otherwise a value of the range; the offsets below the length
  of the range and the values of the range correspond one to one.\<close>

theorem int_in_range:
  assumes "int_in lo hi inclusive g = Some (r, g')"
  shows "(r = None \<longleftrightarrow> (\<nexists>v. in_range lo hi inclusive v)) \<and>
    (case r of None \<Rightarrow> g' = g | Some v \<Rightarrow> in_range lo hi inclusive v) \<and>
    bij_betw (\<lambda>offset :: u64. word_of_int (sint lo + uint offset) :: i64)
      {offset. uint offset < int_span lo hi inclusive} {v. in_range lo hi inclusive v}"
proof -
  let ?f = "\<lambda>offset :: u64. word_of_int (sint lo + uint offset) :: i64"
  let ?span = "int_span lo hi inclusive"
  have value_of: "in_range lo hi inclusive (?f offset)" if "uint offset < ?span" for offset
    using that offset_in_range [OF that] by (auto simp: in_range_def int_span_def split: if_splits)
  have "bij_betw ?f {offset. uint offset < ?span} {v. in_range lo hi inclusive v}"
  proof (rule bij_betwI')
    fix a b :: u64 assume "a \<in> {offset. uint offset < ?span}" "b \<in> {offset. uint offset < ?span}"
    then show "?f a = ?f b \<longleftrightarrow> a = b"
      using offset_in_range [of a lo hi inclusive] offset_in_range [of b lo hi inclusive]
      by (metis add_left_cancel mem_Collect_eq word_uint_eq_iff)
  next
    fix v assume v: "v \<in> {v. in_range lo hi inclusive v}"
    define offset :: u64 where "offset = word_of_int (sint v - sint lo)"
    have "0 \<le> sint v - sint lo" "sint v - sint lo < ?span"
      using v by (auto simp: in_range_def int_span_def split: if_splits)
    moreover have "sint v - sint lo < 2 ^ 64"
      using sint_range [of v] sint_range [of lo] by (simp add: i64_min_def i64_max_def)
    ultimately have "uint offset = sint v - sint lo" 
      unfolding offset_def uint_word_of_int by simp
    with \<open>sint v - sint lo < ?span\<close> show "\<exists>x \<in> {offset. uint offset < ?span}. v = ?f x"
      by (intro bexI [of _ offset]) simp_all
  qed (use value_of in simp)
  moreover have "(r = None \<longleftrightarrow> ?span \<le> 0) \<and> (case r of None \<Rightarrow> g' = g | Some v \<Rightarrow> in_range lo hi inclusive v)"
  proof (cases "?span \<le> 0")
    case True
    with assms show ?thesis by (auto simp: int_in_def)
  next
    case False
    from False assms obtain offset where r: "r = Some (?f offset)"
      and draw: "(if 2 ^ 64 - 1 < ?span then Some (next_u64 g) else below (word_of_int ?span) g) = Some (offset, g')"
      unfolding int_in_def Let_def by (simp split: option.splits prod.splits del: Option.option.simps) auto
    have "uint offset < ?span"
    proof (cases "2 ^ 64 - 1 < ?span")
      case True
      then show ?thesis using uint_lt2p [of offset] by simp
    next
      case small: False
      then have n: "uint (word_of_int ?span :: u64) = ?span" using False by (simp add: uint_word_of_int)
      have "offset < word_of_int ?span"
        using draw small False n by (intro below_bounded [of _ g offset g']) (simp_all add: word_less_def)
      then show ?thesis using n by (simp add: word_less_def)
    qed
    with r False value_of show ?thesis by simp
  qed
  moreover have "?span \<le> 0 \<longleftrightarrow> (\<nexists>v. in_range lo hi inclusive v)"
  proof
    assume "\<nexists>v. in_range lo hi inclusive v"
    then have "\<not> in_range lo hi inclusive lo" by blast
    then show "?span \<le> 0" by (auto simp: in_range_def int_span_def split: if_splits)
  qed (auto simp: in_range_def int_span_def split: if_splits)
  ultimately show ?thesis by simp
qed

lemma int_in_range_witness:
  "\<exists>v g'. int_in 0 8 False (1, 2, 3, 4) = Some (Some v, g') \<and> in_range 0 8 False v"
proof -
  obtain raw g' where raw: "next_u64 (1, 2, 3, 4) = (raw, g')" by (cases "next_u64 (1, 2, 3, 4)")
  then have "below 8 (1, 2, 3, 4) = Some (raw mod 8, g')" by (simp add: below.simps threshold_def)
  then have "int_in 0 8 False (1, 2, 3, 4) = Some (Some (word_of_int (sint (0 :: i64) + uint (raw mod 8))), g')"
    by (simp add: int_in_def int_span_def)
  from int_in_range [OF this] have "in_range 0 8 False (word_of_int (sint (0 :: i64) + uint (raw mod 8)))"
    by simp
  with \<open>int_in 0 8 False (1, 2, 3, 4) = _\<close> show ?thesis by blast
qed

section \<open>Every order is as likely as any other\<close>

text \<open>The shuffle as a function of the positions it draws.\<close>

fun shuffle_with :: "nat \<Rightarrow> nat list \<Rightarrow> 'a list \<Rightarrow> 'a list" where
  "shuffle_with (Suc i) (j # js) xs = shuffle_with i js (swap (Suc i) j xs)"
| "shuffle_with _ _ xs = xs"

fun choices :: "nat \<Rightarrow> nat list \<Rightarrow> bool" where
  "choices 0 js \<longleftrightarrow> js = []"
| "choices (Suc i) js \<longleftrightarrow> (case js of [] \<Rightarrow> False | j # r \<Rightarrow> j \<le> Suc i \<and> choices i r)"

lemma swap_facts:
  assumes "i < length xs" "j \<le> i"
  shows "mset (swap i j xs) = mset xs" "length (swap i j xs) = length xs" "swap i j xs ! i = xs ! j"
    "drop (Suc i) (swap i j xs) = drop (Suc i) xs"
  using assms by (simp_all add: swap_def mset_swap nth_list_update)

lemma shuffle_from_choices:
  "shuffle_from i g xs = Some (ys, g') \<Longrightarrow> i < length xs \<Longrightarrow> length xs < 2 ^ 64 \<Longrightarrow>
     \<exists>js. choices i js \<and> ys = shuffle_with i js xs"
proof (induction i arbitrary: g xs)
  case (Suc i)
  let ?n = "word_of_nat (Suc i) + 1 :: u64"
  from Suc.prems(1) obtain j h where j: "below ?n g = Some (j, h)"
    and rest: "shuffle_from i h (swap (Suc i) (unat j) xs) = Some (ys, g')"
    by (auto split: option.splits)
  have "?n = word_of_nat (i + 2)" by simp
  moreover have "unat (word_of_nat (i + 2) :: u64) = i + 2"
    using Suc.prems(2,3) by (simp only: unat_of_nat) simp
  ultimately have n: "unat ?n = i + 2" by (simp only:)
  then have "0 < ?n" by (simp only: word_less_nat_alt) simp
  then have "j < ?n" by (rule below_bounded [OF j])
  then have "unat j < i + 2" by (simp only: word_less_nat_alt n)
  then have "unat j \<le> Suc i" by simp
  moreover obtain js where "choices i js" "ys = shuffle_with i js (swap (Suc i) (unat j) xs)"
    using Suc.IH [OF rest] Suc.prems(2,3) swap_facts(2) [of "Suc i" xs "unat j"] calculation by auto
  ultimately show ?case by (intro exI [of _ "unat j # js"]) simp
qed simp

lemma shuffle_with_facts:
  "choices i js \<Longrightarrow> i < length xs \<Longrightarrow>
     mset (shuffle_with i js xs) = mset xs \<and> drop (Suc i) (shuffle_with i js xs) = drop (Suc i) xs"
proof (induction i arbitrary: js xs)
  case (Suc i)
  then obtain j r where js: "js = j # r" "j \<le> Suc i" "choices i r" by (auto split: list.splits)
  note sw = swap_facts [OF Suc.prems(2) js(2)]
  have IH: "mset (shuffle_with i r (swap (Suc i) j xs)) = mset (swap (Suc i) j xs) \<and>
      drop (Suc i) (shuffle_with i r (swap (Suc i) j xs)) = drop (Suc i) (swap (Suc i) j xs)"
    using Suc.IH [OF js(3), of "swap (Suc i) j xs"] Suc.prems(2) sw(2) by simp
  then have "drop 1 (drop (Suc i) (shuffle_with i r (swap (Suc i) j xs))) = drop 1 (drop (Suc i) (swap (Suc i) j xs))"
    by (simp only:)
  then have "drop (Suc (Suc i)) (shuffle_with i r (swap (Suc i) j xs)) = drop (Suc (Suc i)) (swap (Suc i) j xs)"
    by (simp add: drop_drop)
  with IH sw js show ?case by simp
qed simp

lemma one_choice:
  "distinct xs \<Longrightarrow> mset ys = mset xs \<Longrightarrow> i < length xs \<Longrightarrow> drop (Suc i) ys = drop (Suc i) xs \<Longrightarrow>
     \<exists>!js. choices i js \<and> shuffle_with i js xs = ys"
proof (induction i arbitrary: xs)
  case 0
  have "mset (take 1 ys) + mset (drop 1 ys) = mset (take 1 xs) + mset (drop 1 xs)"
    using 0(2) by (simp flip: mset_append)
  with 0(4) have "mset (take 1 ys) = mset (take 1 xs)" by simp
  moreover have "length ys = length xs" using 0(2) by (rule mset_eq_length)
  ultimately have "take 1 ys = take 1 xs" using 0(3) by (cases xs; cases ys) auto
  with 0(4) have "ys = xs" by (metis One_nat_def append_take_drop_id)
  then show ?case by auto
next
  case (Suc i)
  let ?i = "Suc i"
  have len: "length ys = length xs" using Suc.prems(2) by (rule mset_eq_length)
  have "mset (take (Suc ?i) ys) + mset (drop (Suc ?i) ys) = mset (take (Suc ?i) xs) + mset (drop (Suc ?i) xs)"
    using Suc.prems(2) by (simp flip: mset_append)
  with Suc.prems(4) have "set (take (Suc ?i) ys) = set (take (Suc ?i) xs)"
    by (metis add_right_cancel mset_eq_setD)
  moreover have "ys ! ?i \<in> set (take (Suc ?i) ys)" using len Suc.prems(3) by (auto simp: in_set_conv_nth)
  ultimately obtain j where j: "j \<le> ?i" "xs ! j = ys ! ?i" by (auto simp: in_set_conv_nth less_Suc_eq_le)
  note sw = swap_facts [OF Suc.prems(3) j(1)]
  have dist: "distinct (swap ?i j xs)" using sw(1) Suc.prems(1) by (metis distinct_count_atmost_1 mset_eq_imp_distinct_iff)
  have "drop ?i ys = drop ?i (swap ?i j xs)"
    using Suc.prems(3,4) len sw j(2) by (metis Cons_nth_drop_Suc)
  then obtain js where js: "choices i js" "shuffle_with i js (swap ?i j xs) = ys"
    and only: "\<And>ks. choices i ks \<Longrightarrow> shuffle_with i ks (swap ?i j xs) = ys \<Longrightarrow> ks = js"
    using Suc.IH [OF dist] Suc.prems(2,3) sw(1,2) by (metis Suc_lessD)
  show ?case
  proof (rule ex1I [of _ "j # js"])
    show "choices ?i (j # js) \<and> shuffle_with ?i (j # js) xs = ys" using j js by simp
  next
    fix ks assume ks: "choices ?i ks \<and> shuffle_with ?i ks xs = ys"
    then obtain k r where k: "ks = k # r" "k \<le> ?i" "choices i r" by (auto split: list.splits)
    note sk = swap_facts [OF Suc.prems(3) k(2)]
    have "drop ?i (shuffle_with i r (swap ?i k xs)) = drop ?i (swap ?i k xs)"
      using shuffle_with_facts [OF k(3), of "swap ?i k xs"] Suc.prems(3) sk(2) by simp
    then have "drop ?i ys = drop ?i (swap ?i k xs)" using ks k(1) by simp
    then have "ys ! ?i = xs ! k" using Suc.prems(3) len sk(2,3) by (metis hd_drop_conv_nth)
    then have "k = j" using j k(2) Suc.prems(1,3) by (metis le_less_trans nth_eq_iff_index_eq)
    then show "ks = j # js" using ks k only by simp
  qed
qed

text \<open>C38: the shuffle is fair. What it returns is the effect of one choice of positions, each within
  its bound, and every order of distinct items is the effect of exactly one such choice; so the
  shuffle loses and duplicates nothing, and with unbiased draws each order is as likely as any other.\<close>

theorem shuffle_fair:
  assumes "xs \<noteq> []" and "length xs < 2 ^ 64"
  shows "(\<forall>ys g'. shuffle g xs = Some (ys, g') \<longrightarrow>
      mset ys = mset xs \<and> (\<exists>js. choices (length xs - 1) js \<and> ys = shuffle_with (length xs - 1) js xs)) \<and>
    (distinct xs \<longrightarrow> (\<forall>ys. mset ys = mset xs \<longrightarrow>
      (\<exists>!js. choices (length xs - 1) js \<and> shuffle_with (length xs - 1) js xs = ys)))"
proof -
  have i: "length xs - 1 < length xs" using assms(1) by simp
  show ?thesis
  proof (intro conjI allI impI)
    fix ys g' assume "shuffle g xs = Some (ys, g')"
    with shuffle_from_choices [OF _ i assms(2)]
    show js: "\<exists>js. choices (length xs - 1) js \<and> ys = shuffle_with (length xs - 1) js xs"
      unfolding shuffle_def by blast
    with shuffle_with_facts [OF _ i] show "mset ys = mset xs" by blast
  next
    fix ys assume d: "distinct xs" and m: "mset ys = mset xs"
    have "length ys = length xs" using m by (rule mset_eq_length)
    then show "\<exists>!js. choices (length xs - 1) js \<and> shuffle_with (length xs - 1) js xs = ys"
      by (intro one_choice [OF d m i]) simp
  qed
qed

lemma shuffle_fair_witness:
  "\<exists>!js. choices 2 js \<and> shuffle_with 2 js [1, 2, 3 :: nat] = [3, 1, 2]"
proof -
  have "mset [3, 1, 2 :: nat] = mset [1, 2, 3]" and "distinct [1, 2, 3 :: nat]"
    and "[1, 2, 3 :: nat] \<noteq> []" "length [1, 2, 3 :: nat] < 2 ^ 64" and two: "length [1, 2, 3 :: nat] - 1 = 2"
    by simp_all
  with shuffle_fair [of "[1, 2, 3 :: nat]" "(1, 2, 3, 4)"] show ?thesis unfolding two by blast
qed

end
