(* ===== verification/Lsp_Text.thy ===== *)
theory Lsp_Text
  imports Brasa_Prelude
begin

text \<open>
  The positions and the URIs of the language server (\<open>brasa_lsp/src/convert.rs\<close>,
  \<open>brasa_lsp/src/uri.rs\<close>). For positions a text is the list of its characters; a byte offset
  that is not between two characters cannot be sliced at, which is the host panic \<open>None\<close>. For
  URIs a text is its bytes.
\<close>

section \<open>Positions\<close>

definition len_utf8 :: "rust_char \<Rightarrow> nat" where
  "len_utf8 c = (if c < 128 then 1 else if c < 2048 then 2 else if c < 65536 then 3 else 4)"

definition len_utf16 :: "rust_char \<Rightarrow> nat" where
  "len_utf16 c = (if c < 65536 then 1 else 2)"

definition byte_len :: "rust_char list \<Rightarrow> nat" where
  "byte_len cs = sum_list (map len_utf8 cs)"

definition utf16_len :: "rust_char list \<Rightarrow> nat" where
  "utf16_len cs = sum_list (map len_utf16 cs)"

text \<open>The two parts of a text at a byte offset.\<close>

fun split_bytes :: "nat \<Rightarrow> rust_char list \<Rightarrow> (rust_char list \<times> rust_char list) option" where
  "split_bytes n [] = (if n = 0 then Some ([], []) else None)"
| "split_bytes n (c # cs) =
     (if n = 0 then Some ([], c # cs)
      else if n < len_utf8 c then None
      else map_option (\<lambda>(a, b). (c # a, b)) (split_bytes (n - len_utf8 c) cs))"

definition newline :: rust_char where "newline = 10"

record position =
  pos_line :: nat
  pos_character :: nat

text \<open>The characters after the last newline.\<close>

definition last_line :: "rust_char list \<Rightarrow> rust_char list" where
  "last_line cs = rev (takeWhile (\<lambda>c. c \<noteq> newline) (rev cs))"

text \<open>\<open>as u32\<close> keeps the low 32 bits.\<close>

definition offset_to_position :: "rust_char list \<Rightarrow> nat \<Rightarrow> position option" where
  "offset_to_position cs offset =
     map_option (\<lambda>(before, after).
         \<lparr>pos_line = count_list before newline mod 2 ^ 32,
          pos_character = utf16_len (last_line before) mod 2 ^ 32\<rparr>)
       (split_bytes (min offset (byte_len cs)) cs)"

fun skip_lines :: "nat \<Rightarrow> nat \<Rightarrow> rust_char list \<Rightarrow> (nat \<times> rust_char list) option" where
  "skip_lines 0 start cs = Some (start, cs)"
| "skip_lines (Suc n) start cs =
     (case dropWhile (\<lambda>c. c \<noteq> newline) cs of
        [] \<Rightarrow> None
      | _ # rest \<Rightarrow> skip_lines n (start + byte_len (takeWhile (\<lambda>c. c \<noteq> newline) cs) + 1) rest)"

text \<open>The loop over the characters of the line; \<open>None\<close> when it runs to the end.\<close>

fun walk_line :: "nat \<Rightarrow> nat \<Rightarrow> nat \<Rightarrow> rust_char list \<Rightarrow> nat option" where
  "walk_line target utf16 byte [] = None"
| "walk_line target utf16 byte (c # cs) =
     (if target \<le> utf16 then Some byte
      else if c = newline then Some byte
      else walk_line target (utf16 + len_utf16 c) (byte + len_utf8 c) cs)"

definition trim_end_newlines :: "rust_char list \<Rightarrow> rust_char list" where
  "trim_end_newlines cs = rev (dropWhile (\<lambda>c. c = newline) (rev cs))"

definition position_to_offset :: "rust_char list \<Rightarrow> position \<Rightarrow> nat" where
  "position_to_offset cs pos =
     (case skip_lines (pos_line pos) 0 cs of
        None \<Rightarrow> byte_len cs mod 2 ^ 32
      | Some (start, line) \<Rightarrow>
          (case walk_line (pos_character pos) 0 0 line of
             Some byte \<Rightarrow> (start + byte) mod 2 ^ 32
           | None \<Rightarrow> (start + byte_len (trim_end_newlines line)) mod 2 ^ 32))"

section \<open>Percent encoding\<close>

definition hex_value :: "char \<Rightarrow> nat option" where
  "hex_value c =
     (let n = of_char c in
      if 48 \<le> n \<and> n < 58 then Some (n - 48)
      else if 65 \<le> n \<and> n < 71 then Some (n - 55)
      else if 97 \<le> n \<and> n < 103 then Some (n - 87)
      else None)"

text \<open>\<open>u8::from_str_radix\<close> of a text of two characters: a leading plus sign is allowed.\<close>

definition radix16 :: "char \<Rightarrow> char \<Rightarrow> char option" where
  "radix16 a b =
     (if a = CHR ''+'' then map_option char_of (hex_value b)
      else case (hex_value a, hex_value b) of
        (Some x, Some y) \<Rightarrow> Some (char_of (x * 16 + y))
      | _ \<Rightarrow> None)"

fun decode_bytes :: "string \<Rightarrow> string" where
  "decode_bytes [] = []"
| "decode_bytes (c # cs) =
     (case cs of
        a # b # rest \<Rightarrow>
          (if c = CHR ''%'' \<and> from_utf8 [a, b] \<noteq> None \<and> radix16 a b \<noteq> None
           then the (radix16 a b) # decode_bytes rest
           else c # decode_bytes cs)
      | _ \<Rightarrow> c # decode_bytes cs)"

text \<open>\<open>from_utf8_lossy\<close> keeps valid text; how it replaces invalid bytes is the parameter \<open>lossy\<close>.\<close>

definition percent_decode :: "(string \<Rightarrow> string) \<Rightarrow> string \<Rightarrow> string" where
  "percent_decode lossy cs =
     (let out = decode_bytes cs in if from_utf8 out = None then lossy out else out)"

definition unreserved :: "char \<Rightarrow> bool" where
  "unreserved c \<longleftrightarrow>
     (let n = of_char c :: nat in
      65 \<le> n \<and> n < 91 \<or> 97 \<le> n \<and> n < 123 \<or> 48 \<le> n \<and> n < 58 \<or> n = 45 \<or> n = 46 \<or> n = 95 \<or> n = 126 \<or> n = 47)"

definition hex_digit :: "nat \<Rightarrow> char" where
  "hex_digit n = char_of (if n < 10 then 48 + n else 55 + n)"

definition encode_byte :: "char \<Rightarrow> string" where
  "encode_byte c =
     (if unreserved c then [c]
      else [CHR ''%'', hex_digit (of_char c div 16), hex_digit (of_char c mod 16)])"

definition percent_encode :: "string \<Rightarrow> string" where
  "percent_encode cs = concat (map encode_byte cs)"

text \<open>The text of the URI of a path, and the path of the text of a URI. A path is absolute when it
  starts with a slash.\<close>

definition from_path :: "string \<Rightarrow> string option" where
  "from_path path =
     (if path = [] \<or> hd path \<noteq> CHR ''/'' then None else Some (''file://'' @ percent_encode path))"

definition to_path :: "(string \<Rightarrow> string) \<Rightarrow> string \<Rightarrow> string option" where
  "to_path lossy uri =
     (if take 7 uri \<noteq> ''file://'' then None
      else let rest = drop 7 uri
        in if find_pos (\<lambda>c. c = CHR ''/'') rest = Some 0 then Some (percent_decode lossy rest) else None)"

section \<open>Positions and offsets\<close>

lemma len_utf8_pos [simp]: "0 < len_utf8 c" "0 < len_utf16 c"
  by (simp_all add: len_utf8_def len_utf16_def)

lemma byte_len_simps [simp]:
  "byte_len [] = 0" "byte_len (c # cs) = len_utf8 c + byte_len cs" "byte_len (a @ b) = byte_len a + byte_len b"
  by (simp_all add: byte_len_def)

lemma utf16_len_simps [simp]:
  "utf16_len [] = 0" "utf16_len (c # cs) = len_utf16 c + utf16_len cs" "utf16_len (a @ b) = utf16_len a + utf16_len b"
  by (simp_all add: utf16_len_def)

lemma newline_len [simp]: "len_utf8 newline = 1"
  by (simp add: len_utf8_def newline_def)

lemma split_bytes_Some: "split_bytes n cs = Some (a, b) \<longleftrightarrow> cs = a @ b \<and> byte_len a = n"
proof (induction n cs arbitrary: a rule: split_bytes.induct)
  case (2 n c cs)
  show ?case
  proof (cases "n < len_utf8 c")
    case True
    then show ?thesis by (cases a) auto
  next
    case False
    then have "n \<noteq> 0" by (metis len_utf8_pos(1) neq0_conv not_less_iff_gr_or_eq)
    show ?thesis
    proof (cases a)
      case Nil
      with \<open>n \<noteq> 0\<close> False show ?thesis by auto
    next
      case (Cons x a')
      with \<open>n \<noteq> 0\<close> False 2 [of a'] show ?thesis by auto
    qed
  qed
qed auto

text \<open>A text up to an offset is some whole lines and the start of another one.\<close>

lemma last_line_split:
  obtains front where "cs = front @ last_line cs" "front = [] \<or> last front = newline" "newline \<notin> set (last_line cs)"
    "count_list front newline = count_list cs newline"
proof -
  let ?r = "dropWhile (\<lambda>c. c \<noteq> newline) (rev cs)"
  have "rev cs = takeWhile (\<lambda>c. c \<noteq> newline) (rev cs) @ ?r" by simp
  then have cs: "cs = rev ?r @ last_line cs" by (metis last_line_def rev_append rev_rev_ident)
  have no: "newline \<notin> set (last_line cs)" by (auto simp: last_line_def dest: set_takeWhileD)
  have "rev ?r = [] \<or> last (rev ?r) = newline"
    using hd_dropWhile [of "\<lambda>c. c \<noteq> newline" "rev cs"] by (auto simp: last_rev)
  moreover have "count_list (rev ?r) newline = count_list cs newline"
    using no arg_cong [OF cs, of "\<lambda>l. count_list l newline"] by (simp add: count_notin)
  ultimately show ?thesis using that cs no by blast
qed

lemma first_line:
  assumes "newline \<notin> set xs"
  shows "dropWhile (\<lambda>c. c \<noteq> newline) (xs @ newline # ys) = newline # ys"
    and "takeWhile (\<lambda>c. c \<noteq> newline) (xs @ newline # ys) = xs"
  using assms by (induction xs) auto

lemma skip_lines_front:
  "front = [] \<or> last front = newline \<Longrightarrow>
     skip_lines (count_list front newline) start (front @ rest) = Some (start + byte_len front, rest)"
proof (induction "count_list front newline" arbitrary: front start)
  case 0
  then have "newline \<notin> set front" by (metis count_list_0_iff)
  with 0 have "front = []" by (metis last_in_set)
  then show ?case by simp
next
  case (Suc n)
  have "newline \<in> set front" using Suc(2) by (metis count_notin nat.distinct(1))
  then obtain xs ys where front: "front = xs @ newline # ys" and xs: "newline \<notin> set xs"
    by (metis split_list_first)
  then have n: "n = count_list ys newline" using Suc(2) by (simp add: count_notin)
  moreover have "ys = [] \<or> last ys = newline" using Suc(3) front by (auto split: if_splits)
  ultimately have "skip_lines n (start + byte_len xs + 1) (ys @ rest) =
      Some (start + byte_len xs + 1 + byte_len ys, rest)"
    using Suc(1) by simp
  then show ?case
    unfolding Suc(2) [symmetric] front using first_line [OF xs, of "ys @ rest"] xs n
    by (simp add: add.assoc)
qed

lemma walk_line_at:
  assumes "newline \<notin> set a"
  shows "walk_line (utf16 + utf16_len a) utf16 byte (a @ b) = (if b = [] then None else Some (byte + byte_len a))"
  using assms
proof (induction a arbitrary: utf16 byte)
  case Nil
  then show ?case by (cases b) auto
next
  case (Cons c a)
  then have "walk_line (utf16 + len_utf16 c + utf16_len a) (utf16 + len_utf16 c) (byte + len_utf8 c) (a @ b) =
      (if b = [] then None else Some (byte + len_utf8 c + byte_len a))"
    by (intro Cons.IH) simp
  with Cons.prems len_utf8_pos(2) [of c] show ?case by (auto simp: add.assoc simp del: len_utf8_pos)
qed

lemma trim_no_newline: "newline \<notin> set cs \<Longrightarrow> trim_end_newlines cs = cs"
  unfolding trim_end_newlines_def by (subst dropWhile_eq_self_iff [THEN iffD2]) (auto simp: hd_rev dest: last_in_set)

lemma utf16_le_utf8: "utf16_len cs \<le> byte_len cs"
  by (induction cs) (auto simp: len_utf8_def len_utf16_def)

lemma lines_le_bytes: "count_list cs newline \<le> byte_len cs"
  by (induction cs) (auto simp: Suc_le_eq trans_less_add1 add_mono Suc_leI)

text \<open>C31: going to a position of the protocol and back loses nothing. For every offset between two
  characters of a text of less than 4 GB, the conversion answers a position, and that position is
  converted to the same offset.\<close>

theorem position_round_trip:
  assumes "split_bytes offset cs = Some (before, after)" and "byte_len cs < 2 ^ 32"
  shows "\<exists>pos. offset_to_position cs offset = Some pos \<and> position_to_offset cs pos = offset"
proof -
  have cs: "cs = before @ after" "byte_len before = offset" using assms(1) by (simp_all add: split_bytes_Some)
  let ?line = "last_line before"
  obtain front where front: "before = front @ ?line" "front = [] \<or> last front = newline" "newline \<notin> set ?line"
    "count_list front newline = count_list before newline" by (rule last_line_split)
  have small: "count_list before newline < 2 ^ 32" "utf16_len ?line < 2 ^ 32" "offset < 2 ^ 32"
    using lines_le_bytes [of before] utf16_le_utf8 [of ?line] assms(2) cs arg_cong [OF front(1), of byte_len] by auto
  define pos where "pos = \<lparr>pos_line = count_list before newline, pos_character = utf16_len ?line\<rparr>"
  have "min offset (byte_len cs) = offset" using cs by auto
  then have there: "offset_to_position cs offset = Some pos"
    using assms(1) small by (simp add: offset_to_position_def pos_def)
  have "skip_lines (pos_line pos) 0 cs = Some (byte_len front, ?line @ after)"
  proof -
    have "cs = front @ ?line @ after" using cs(1) front(1) by (metis append_assoc)
    then show ?thesis using skip_lines_front [OF front(2), of 0 "?line @ after"] front(4) by (simp add: pos_def)
  qed
  moreover have "walk_line (pos_character pos) 0 0 (?line @ after) = (if after = [] then None else Some (byte_len ?line))"
    using walk_line_at [OF front(3), of 0 0 after] by (simp add: pos_def)
  moreover have "byte_len front + byte_len ?line = offset" using cs(2) arg_cong [OF front(1), of byte_len] by simp
  ultimately have "position_to_offset cs pos = offset"
    using small(3) trim_no_newline [OF front(3)] by (simp add: position_to_offset_def)
  with there show ?thesis by blast
qed

lemma position_round_trip_witness:
  "\<exists>pos. offset_to_position [97, 10, 128512, 98] 6 = Some pos \<and> position_to_offset [97, 10, 128512, 98] pos = 6"
  by (rule position_round_trip [of 6 _ "[97, 10, 128512]" "[98]"]) (simp_all add: len_utf8_def)

text \<open>C33: a stale offset can still panic. An offset inside a character of the text has no position:
  the slice is out of bounds, although the conversion is documented to clamp rather than panic.\<close>

theorem stale_offset_panics:
  assumes "cs = a @ c # b" and "byte_len a < offset" and "offset < byte_len a + len_utf8 c"
  shows "offset_to_position cs offset = None"
proof -
  have "split_bytes offset cs \<noteq> Some (x, y)" for x y
  proof
    assume "split_bytes offset cs = Some (x, y)"
    then have xy: "a @ c # b = x @ y" "byte_len x = offset" using assms(1) by (simp_all add: split_bytes_Some)
    then consider (left) us where "x @ us = a" | (right) us where "x = a @ c # us"
      by (auto simp: append_eq_append_conv2 Cons_eq_append_conv)
    then show False
    proof cases
      case left
      then have "byte_len x \<le> byte_len a" by auto
      with assms(2) xy(2) show False by simp
    next
      case right
      with assms(3) xy(2) show False by simp
    qed
  qed
  moreover have "min offset (byte_len cs) = offset" using assms by auto
  ultimately show ?thesis by (cases "split_bytes offset cs") (auto simp: offset_to_position_def)
qed

lemma stale_offset_panics_witness: "offset_to_position [97, 233] 2 = None"
  by (rule stale_offset_panics [of _ "[97]" 233 "[]"]) (simp_all add: len_utf8_def)

text \<open>C34: a position inside a surrogate pair goes to the next character. The documentation of
  \<open>position_to_offset\<close> says it resolves to the start of the character itself.\<close>

theorem inside_pair_moves_on:
  assumes "newline \<notin> set a" and "65536 \<le> c" and "d \<noteq> newline" and "byte_len a + 8 < 2 ^ 32"
  shows "position_to_offset (a @ c # d # b) \<lparr>pos_line = 0, pos_character = utf16_len a + 1\<rparr> = byte_len (a @ [c])"
proof -
  have c: "c \<noteq> newline" "len_utf16 c = 2" "len_utf8 c = 4"
    using assms(2) by (simp_all add: newline_def len_utf16_def len_utf8_def)
  have "walk_line (utf16 + utf16_len a + 1) utf16 byte (a @ c # d # b) = Some (byte + byte_len a + 4)" for utf16 byte
    using assms(1)
  proof (induction a arbitrary: utf16 byte)
    case Nil
    with c show ?case by simp
  next
    case (Cons x a)
    from Cons.IH [of "utf16 + len_utf16 x" "byte + len_utf8 x"] Cons.prems show ?case by (auto simp: add.assoc)
  qed
  from this [of 0 0] show ?thesis using assms(4) c by (simp add: position_to_offset_def)
qed

lemma inside_pair_moves_on_witness:
  "position_to_offset ([97] @ 128512 # 98 # []) \<lparr>pos_line = 0, pos_character = utf16_len [97] + 1\<rparr> =
     byte_len ([97] @ [128512])"
  by (rule inside_pair_moves_on) (simp_all add: newline_def len_utf8_def)

section \<open>Percent encoding\<close>

lemma hex_value_digit: "n < 16 \<Longrightarrow> hex_value (hex_digit n) = Some n"
  by (simp add: hex_value_def hex_digit_def)

lemma hex_digit_ascii:
  shows "n < 16 \<Longrightarrow> of_char (hex_digit n) < (128 :: nat)" and "n < 16 \<Longrightarrow> hex_digit n \<noteq> CHR ''+''"
proof -
  assume n: "n < 16"
  show "of_char (hex_digit n) < (128 :: nat)" using n by (simp add: hex_digit_def)
  have "of_char (hex_digit n) \<noteq> (43 :: nat)" using n by (simp add: hex_digit_def)
  then show "hex_digit n \<noteq> CHR ''+''" by auto
qed

lemma decode_encoded_byte: "decode_bytes (encode_byte c @ rest) = c # decode_bytes rest"
proof (cases "unreserved c")
  case True
  then have "c \<noteq> CHR ''%''" by (auto simp: unreserved_def)
  with True show ?thesis by (cases rest; cases "tl rest") (auto simp: encode_byte_def split: list.split)
next
  case False
  let ?n = "of_char c :: nat"
  have n: "?n div 16 < 16" "?n mod 16 < 16" by (simp_all add: less_mult_imp_div_less)
  have "radix16 (hex_digit (?n div 16)) (hex_digit (?n mod 16)) = Some (char_of (?n div 16 * 16 + ?n mod 16))"
    using n hex_digit_ascii(2) [OF n(1)] by (simp add: radix16_def hex_value_digit)
  also have "?n div 16 * 16 + ?n mod 16 = ?n" by simp
  finally have "radix16 (hex_digit (?n div 16)) (hex_digit (?n mod 16)) = Some c" by simp
  moreover have "from_utf8 [hex_digit (?n div 16), hex_digit (?n mod 16)] \<noteq> None"
    using hex_digit_ascii(1) [OF n(1)] hex_digit_ascii(1) [OF n(2)] by (simp add: from_utf8_def)
  ultimately show ?thesis using False by (simp add: encode_byte_def)
qed

lemma decode_encoded: "decode_bytes (percent_encode cs) = cs"
  by (induction cs) (simp_all add: percent_encode_def decode_encoded_byte)

text \<open>C32: a path survives the protocol. The text of the URI of an absolute path leads back to that
  path, whatever bytes its name has, as long as they are valid UTF-8; a relative path has no URI.\<close>

theorem path_round_trip:
  assumes "from_utf8 path \<noteq> None"
  shows "case from_path path of
      Some uri \<Rightarrow> to_path lossy uri = Some path
    | None \<Rightarrow> path = [] \<or> hd path \<noteq> CHR ''/''"
proof (cases "path = [] \<or> hd path \<noteq> CHR ''/''")
  case False
  then obtain rest where "path = CHR ''/'' # rest" by (cases path) auto
  moreover have "unreserved CHR ''/''" by (simp add: unreserved_def)
  ultimately have "find_pos (\<lambda>c. c = CHR ''/'') (percent_encode path) = Some 0"
    by (simp add: percent_encode_def encode_byte_def)
  with False assms show ?thesis
    by (simp add: from_path_def to_path_def percent_decode_def decode_encoded Let_def del: not_None_eq)
qed (auto simp: from_path_def)

lemma path_round_trip_witness:
  "\<exists>uri. from_path ''/a b'' = Some uri \<and> to_path (\<lambda>s. s) uri = Some ''/a b''"
  using path_round_trip [of "''/a b''" "\<lambda>s. s"] by (simp add: from_utf8_def from_path_def)


end
