(* ===== verification/Ordered_Table.thy ===== *)
theory Ordered_Table
  imports Brasa_Prelude
begin

text \<open>
  The insertion-ordered tables of the runtime (\<open>brasa_runtime/src/table.rs\<close>): \<open>OrderedMap\<close>
  and \<open>OrderedSet\<close>, a vector of entries with a hashed index from the projection of a key
  to its position. The specification is the plain linear scan over the entries the module
  replaced; the locale \<open>hash_keyed\<close> is the contract of the \<open>HashKeyed\<close> trait, and inside it
  every indexed operation is shown to do what the scan does.
\<close>

section \<open>Keys and tables\<close>

datatype hash_key =
    HInt i64
  | HStr string
  | HChar rust_char
  | HBool bool
  | HTuple "hash_key list"

record 'v omap =
  map_entries :: "('v \<times> 'v) list"
  map_index :: "hash_key \<Rightarrow> nat option"
  unprojectable :: nat

definition om_new :: "'v omap" where
  "om_new = \<lparr>map_entries = [], map_index = (\<lambda>_. None), unprojectable = 0\<rparr>"

definition om_len :: "'v omap \<Rightarrow> nat" where
  "om_len m = length (map_entries m)"

fun index_keys :: "('v \<Rightarrow> hash_key option) \<Rightarrow> 'v list \<Rightarrow> nat \<Rightarrow>
    (hash_key \<Rightarrow> nat option) \<times> nat \<Rightarrow> (hash_key \<Rightarrow> nat option) \<times> nat" where
  "index_keys hk [] position st = st"
| "index_keys hk (k # ks) position (idx, un) =
     index_keys hk ks (Suc position)
       (case hk k of Some h \<Rightarrow> (idx(h \<mapsto> position), un) | None \<Rightarrow> (idx, Suc un))"

definition om_from_distinct_entries :: "('v \<Rightarrow> hash_key option) \<Rightarrow> ('v \<times> 'v) list \<Rightarrow> 'v omap" where
  "om_from_distinct_entries hk es =
     (let (idx, un) = index_keys hk (map fst es) 0 (\<lambda>_. None, 0)
      in \<lparr>map_entries = es, map_index = idx, unprojectable = un\<rparr>)"

definition om_position ::
    "('v \<Rightarrow> hash_key option) \<Rightarrow> 'v omap \<Rightarrow> 'v \<Rightarrow> ('v \<Rightarrow> 'v \<Rightarrow> bool) \<Rightarrow> nat option" where
  "om_position hk m key eq =
     (case (if unprojectable m = 0 then hk key else None) of
        Some hashed \<Rightarrow> map_index m hashed
      | None \<Rightarrow> find_pos (\<lambda>(k, _). eq k key) (map_entries m))"

definition om_get ::
    "('v \<Rightarrow> hash_key option) \<Rightarrow> 'v omap \<Rightarrow> 'v \<Rightarrow> ('v \<Rightarrow> 'v \<Rightarrow> bool) \<Rightarrow> 'v option" where
  "om_get hk m key eq = map_option (\<lambda>ix. snd (map_entries m ! ix)) (om_position hk m key eq)"

definition om_contains_key ::
    "('v \<Rightarrow> hash_key option) \<Rightarrow> 'v omap \<Rightarrow> 'v \<Rightarrow> ('v \<Rightarrow> 'v \<Rightarrow> bool) \<Rightarrow> bool" where
  "om_contains_key hk m key eq = (om_position hk m key eq \<noteq> None)"

definition om_insert ::
    "('v \<Rightarrow> hash_key option) \<Rightarrow> 'v omap \<Rightarrow> 'v \<Rightarrow> 'v \<Rightarrow> ('v \<Rightarrow> 'v \<Rightarrow> bool) \<Rightarrow> 'v omap" where
  "om_insert hk m key v eq =
     (case om_position hk m key eq of
        Some ix \<Rightarrow> m\<lparr>map_entries := (map_entries m)[ix := (fst (map_entries m ! ix), v)]\<rparr>
      | None \<Rightarrow>
          (case hk key of
             Some hashed \<Rightarrow> m\<lparr>map_entries := map_entries m @ [(key, v)],
                               map_index := (map_index m)(hashed \<mapsto> length (map_entries m))\<rparr>
           | None \<Rightarrow> m\<lparr>map_entries := map_entries m @ [(key, v)],
                         unprojectable := Suc (unprojectable m)\<rparr>))"

definition shift_index :: "nat \<Rightarrow> (hash_key \<Rightarrow> nat option) \<Rightarrow> hash_key \<Rightarrow> nat option" where
  "shift_index ix idx = (\<lambda>h. map_option (\<lambda>p. if ix < p then p - 1 else p) (idx h))"

definition om_remove ::
    "('v \<Rightarrow> hash_key option) \<Rightarrow> 'v omap \<Rightarrow> 'v \<Rightarrow> ('v \<Rightarrow> 'v \<Rightarrow> bool) \<Rightarrow> 'v option \<times> 'v omap" where
  "om_remove hk m key eq =
     (case om_position hk m key eq of
        None \<Rightarrow> (None, m)
      | Some ix \<Rightarrow>
          (let (removed_key, removed_value) = map_entries m ! ix;
               (idx, un) =
                 (case hk removed_key of
                    Some hashed \<Rightarrow> ((map_index m)(hashed := None), unprojectable m)
                  | None \<Rightarrow> (map_index m, unprojectable m - 1))
           in (Some removed_value,
               \<lparr>map_entries = remove_at ix (map_entries m), map_index = shift_index ix idx,
                unprojectable = un\<rparr>)))"

record 'v oset =
  set_items :: "'v list"
  set_index :: "hash_key \<Rightarrow> nat option"
  sunprojectable :: nat

definition os_new :: "'v oset" where
  "os_new = \<lparr>set_items = [], set_index = (\<lambda>_. None), sunprojectable = 0\<rparr>"

definition os_len :: "'v oset \<Rightarrow> nat" where
  "os_len m = length (set_items m)"

definition os_from_distinct_items :: "('v \<Rightarrow> hash_key option) \<Rightarrow> 'v list \<Rightarrow> 'v oset" where
  "os_from_distinct_items hk xs =
     (let (idx, un) = index_keys hk xs 0 (\<lambda>_. None, 0)
      in \<lparr>set_items = xs, set_index = idx, sunprojectable = un\<rparr>)"

definition os_position ::
    "('v \<Rightarrow> hash_key option) \<Rightarrow> 'v oset \<Rightarrow> 'v \<Rightarrow> ('v \<Rightarrow> 'v \<Rightarrow> bool) \<Rightarrow> nat option" where
  "os_position hk s v eq =
     (case (if sunprojectable s = 0 then hk v else None) of
        Some hashed \<Rightarrow> set_index s hashed
      | None \<Rightarrow> find_pos (\<lambda>item. eq item v) (set_items s))"

definition os_contains ::
    "('v \<Rightarrow> hash_key option) \<Rightarrow> 'v oset \<Rightarrow> 'v \<Rightarrow> ('v \<Rightarrow> 'v \<Rightarrow> bool) \<Rightarrow> bool" where
  "os_contains hk s v eq = (os_position hk s v eq \<noteq> None)"

definition os_add ::
    "('v \<Rightarrow> hash_key option) \<Rightarrow> 'v oset \<Rightarrow> 'v \<Rightarrow> ('v \<Rightarrow> 'v \<Rightarrow> bool) \<Rightarrow> 'v oset" where
  "os_add hk s v eq =
     (if os_position hk s v eq \<noteq> None then s
      else case hk v of
          Some hashed \<Rightarrow> s\<lparr>set_items := set_items s @ [v],
                            set_index := (set_index s)(hashed \<mapsto> length (set_items s))\<rparr>
        | None \<Rightarrow> s\<lparr>set_items := set_items s @ [v], sunprojectable := Suc (sunprojectable s)\<rparr>)"

definition os_remove ::
    "('v \<Rightarrow> hash_key option) \<Rightarrow> 'v oset \<Rightarrow> 'v \<Rightarrow> ('v \<Rightarrow> 'v \<Rightarrow> bool) \<Rightarrow> bool \<times> 'v oset" where
  "os_remove hk s v eq =
     (case os_position hk s v eq of
        None \<Rightarrow> (False, s)
      | Some ix \<Rightarrow>
          (let (idx, un) =
                 (case hk (set_items s ! ix) of
                    Some hashed \<Rightarrow> ((set_index s)(hashed := None), sunprojectable s)
                  | None \<Rightarrow> (set_index s, sunprojectable s - 1))
           in (True, \<lparr>set_items = remove_at ix (set_items s), set_index = shift_index ix idx,
                      sunprojectable = un\<rparr>)))"

section \<open>The index invariant\<close>

text \<open>What both tables keep between their key vector, the index and the counter.\<close>

definition index_ok :: "('v \<Rightarrow> hash_key option) \<Rightarrow> 'v list \<Rightarrow> (hash_key \<Rightarrow> nat option) \<Rightarrow> nat \<Rightarrow> bool" where
  "index_ok hk ks idx un \<longleftrightarrow>
     un = length (filter (\<lambda>k. hk k = None) ks) \<and>
     (\<forall>h p. idx h = Some p \<longleftrightarrow> p < length ks \<and> hk (ks ! p) = Some h)"

definition om_inv :: "('v \<Rightarrow> hash_key option) \<Rightarrow> 'v omap \<Rightarrow> bool" where
  "om_inv hk m \<longleftrightarrow> index_ok hk (map fst (map_entries m)) (map_index m) (unprojectable m)"

definition os_inv :: "('v \<Rightarrow> hash_key option) \<Rightarrow> 'v oset \<Rightarrow> bool" where
  "os_inv hk s \<longleftrightarrow> index_ok hk (set_items s) (set_index s) (sunprojectable s)"

lemma index_ok_Nil [simp]: "index_ok hk [] (\<lambda>_. None) 0"
  by (simp add: index_ok_def)

lemma index_ok_app_Some:
  assumes ok: "index_ok hk ks idx un" and k: "hk k = Some h" and h: "idx h = None"
  shows "index_ok hk (ks @ [k]) (idx(h \<mapsto> length ks)) un"
proof -
  have idx: "idx h' = Some p \<longleftrightarrow> p < length ks \<and> hk (ks ! p) = Some h'" for h' p
    using ok by (simp add: index_ok_def)
  have "(idx(h \<mapsto> length ks)) h' = Some p \<longleftrightarrow>
      p < length (ks @ [k]) \<and> hk ((ks @ [k]) ! p) = Some h'" for h' p
    using idx [of h' p] k h by (cases "p < length ks"; cases "h' = h") (auto simp: nth_append)
  then show ?thesis
    using ok k by (simp add: index_ok_def del: fun_upd_apply)
qed

lemma index_ok_app_None:
  assumes ok: "index_ok hk ks idx un" and k: "hk k = None"
  shows "index_ok hk (ks @ [k]) idx (Suc un)"
proof -
  have "idx h = Some p \<longleftrightarrow> p < length (ks @ [k]) \<and> hk ((ks @ [k]) ! p) = Some h" for h p
    using ok k by (cases "p < length ks") (auto simp: index_ok_def nth_append)
  then show ?thesis
    using ok k by (simp add: index_ok_def)
qed

lemma index_ok_range: "index_ok hk ks idx un \<Longrightarrow> idx h = Some p \<Longrightarrow> p < length ks"
  by (simp add: index_ok_def)

lemma index_ok_remove:
  assumes ok: "index_ok hk ks idx un" and ix: "ix < length ks"
    and st: "(idx', un') = (case hk (ks ! ix) of Some h \<Rightarrow> (idx(h := None), un) | None \<Rightarrow> (idx, un - 1))"
  shows "index_ok hk (remove_at ix ks) (shift_index ix idx') un'"
proof -
  have un: "un' = length (filter (\<lambda>k. hk k = None) (remove_at ix ks))"
    using ok st ix by (cases "hk (ks ! ix)") (simp_all add: index_ok_def filter_remove_at)
  have uniq: "idx h = Some p \<longleftrightarrow> p < length ks \<and> hk (ks ! p) = Some h" for h p
    using ok by (simp add: index_ok_def)
  have idx': "idx' h = Some p \<longleftrightarrow> p < length ks \<and> p \<noteq> ix \<and> hk (ks ! p) = Some h" for h p
  proof (cases "hk (ks ! ix)")
    case None
    with st uniq [of h p] show ?thesis by auto
  next
    case (Some g)
    with st have i: "idx' = idx(g := None)" by simp
    have "h = g \<Longrightarrow> idx h = Some ix" using uniq [of h ix] Some ix by simp
    with i Some uniq [of h p] show ?thesis by (cases "h = g") auto
  qed
  have "shift_index ix idx' h = Some p \<longleftrightarrow>
      p < length ks - 1 \<and> hk (remove_at ix ks ! p) = Some h" for h p
  proof -
    have "shift_index ix idx' h = Some p \<longleftrightarrow>
        (\<exists>q. idx' h = Some q \<and> p = (if ix < q then q - 1 else q))"
      unfolding shift_index_def map_option_eq_Some by (simp only: eq_commute)
    also have "\<dots> \<longleftrightarrow> (\<exists>q. idx' h = Some q \<and> q = (if p < ix then p else Suc p))"
    proof (intro ex_cong1 conj_cong refl)
      fix q assume "idx' h = Some q"
      then have "q \<noteq> ix" by (simp add: idx')
      then show "p = (if ix < q then q - 1 else q) \<longleftrightarrow> q = (if p < ix then p else Suc p)"
        by auto
    qed
    also have "\<dots> \<longleftrightarrow> idx' h = Some (if p < ix then p else Suc p)"
      by simp
    also have "\<dots> \<longleftrightarrow> p < length ks - 1 \<and> hk (remove_at ix ks ! p) = Some h"
      using ix by (auto simp: idx' nth_remove_at)
    finally show ?thesis .
  qed
  with un ix show ?thesis
    by (simp add: index_ok_def len_simps)
qed

lemma index_keys_ok:
  assumes "index_ok hk ks0 idx un"
    and "\<And>i j. i < j \<Longrightarrow> j < length (ks0 @ ks) \<Longrightarrow> hk ((ks0 @ ks) ! i) \<noteq> None \<Longrightarrow>
      hk ((ks0 @ ks) ! i) \<noteq> hk ((ks0 @ ks) ! j)"
  shows "index_ok hk (ks0 @ ks) (fst (index_keys hk ks (length ks0) (idx, un)))
    (snd (index_keys hk ks (length ks0) (idx, un)))"
  using assms
proof (induction ks arbitrary: ks0 idx un)
  case (Cons k ks)
  show ?case
  proof (cases "hk k")
    case None
    then show ?thesis
      using Cons.IH [of "ks0 @ [k]"] index_ok_app_None [OF Cons.prems(1)] Cons.prems(2) by simp
  next
    case (Some h)
    have "idx h = None"
    proof (rule ccontr)
      assume "idx h \<noteq> None"
      then obtain p where "p < length ks0" "hk (ks0 ! p) = Some h"
        using Cons.prems(1) by (auto simp: index_ok_def)
      then show False
        using Cons.prems(2) [of p "length ks0"] Some by (simp add: nth_append)
    qed
    then show ?thesis
      using Cons.IH [of "ks0 @ [k]"] index_ok_app_Some [OF Cons.prems(1) Some] Cons.prems(2) Some
      by simp
  qed
qed simp

section \<open>The specification: linear scans over the entries\<close>

definition scan_get :: "('v \<Rightarrow> 'v \<Rightarrow> bool) \<Rightarrow> ('v \<times> 'v) list \<Rightarrow> 'v \<Rightarrow> 'v option" where
  "scan_get eq es key = map_option (\<lambda>i. snd (es ! i)) (find_pos (\<lambda>(k, _). eq k key) es)"

definition scan_insert :: "('v \<Rightarrow> 'v \<Rightarrow> bool) \<Rightarrow> ('v \<times> 'v) list \<Rightarrow> 'v \<Rightarrow> 'v \<Rightarrow> ('v \<times> 'v) list" where
  "scan_insert eq es key v =
     (case find_pos (\<lambda>(k, _). eq k key) es of
        Some i \<Rightarrow> es[i := (fst (es ! i), v)]
      | None \<Rightarrow> es @ [(key, v)])"

definition scan_remove ::
    "('v \<Rightarrow> 'v \<Rightarrow> bool) \<Rightarrow> ('v \<times> 'v) list \<Rightarrow> 'v \<Rightarrow> 'v option \<times> ('v \<times> 'v) list" where
  "scan_remove eq es key =
     (case find_pos (\<lambda>(k, _). eq k key) es of
        Some i \<Rightarrow> (Some (snd (es ! i)), remove_at i es)
      | None \<Rightarrow> (None, es))"

definition scan_add :: "('v \<Rightarrow> 'v \<Rightarrow> bool) \<Rightarrow> 'v list \<Rightarrow> 'v \<Rightarrow> 'v list" where
  "scan_add eq xs v = (if \<exists>x \<in> set xs. eq x v then xs else xs @ [v])"

text \<open>The content of a map whose keys all project.\<close>

definition om_view :: "'v omap \<Rightarrow> hash_key \<Rightarrow> 'v option" where
  "om_view m h = map_option (\<lambda>p. snd (map_entries m ! p)) (map_index m h)"

section \<open>Interface of a keyed map\<close>

text \<open>What a user of \<open>OrderedMap\<close> relies on: keys are compared through a projection, and the
  three operations act on the content as the operations of a partial map.\<close>

locale keyed_map =
  fixes proj :: "'k \<Rightarrow> 'h option"
    and empty :: 'm
    and update :: "'m \<Rightarrow> 'k \<Rightarrow> 'v \<Rightarrow> 'm"
    and delete :: "'m \<Rightarrow> 'k \<Rightarrow> 'm"
    and lookup :: "'m \<Rightarrow> 'k \<Rightarrow> 'v option"
    and view :: "'m \<Rightarrow> 'h \<Rightarrow> 'v option"
    and invar :: "'m \<Rightarrow> bool"
  assumes invar_empty: "invar empty"
    and view_empty: "view empty = Map.empty"
    and invar_update: "invar m \<Longrightarrow> proj k = Some h \<Longrightarrow> invar (update m k v)"
    and view_update: "invar m \<Longrightarrow> proj k = Some h \<Longrightarrow> view (update m k v) = (view m)(h \<mapsto> v)"
    and invar_delete: "invar m \<Longrightarrow> proj k = Some h \<Longrightarrow> invar (delete m k)"
    and view_delete: "invar m \<Longrightarrow> proj k = Some h \<Longrightarrow> view (delete m k) = (view m)(h := None)"
    and lookup_view: "invar m \<Longrightarrow> proj k = Some h \<Longrightarrow> lookup m k = view m h"
begin

lemma lookup_update:
  "invar m \<Longrightarrow> proj k = Some h \<Longrightarrow> proj k' = Some h' \<Longrightarrow>
     lookup (update m k v) k' = (if h = h' then Some v else lookup m k')"
  by (simp add: lookup_view invar_update view_update)

lemma lookup_delete:
  "invar m \<Longrightarrow> proj k = Some h \<Longrightarrow> proj k' = Some h' \<Longrightarrow>
     lookup (delete m k) k' = (if h = h' then None else lookup m k')"
  by (simp add: lookup_view invar_delete view_delete)

lemma view_foldl_update:
  "invar m \<Longrightarrow> \<forall>(k, v) \<in> set kvs. proj k \<noteq> None \<Longrightarrow>
     invar (foldl (\<lambda>m (k, v). update m k v) m kvs) \<and>
     view (foldl (\<lambda>m (k, v). update m k v) m kvs) =
       view m ++ map_of (rev (map (\<lambda>(k, v). (the (proj k), v)) kvs))"
proof (induction kvs arbitrary: m)
  case (Cons kv kvs)
  obtain k v where kv: "kv = (k, v)" by force
  with Cons.prems obtain h where h: "proj k = Some h" by auto
  with Cons.IH [of "update m k v"] Cons.prems kv show ?case
    by (simp add: invar_update view_update map_add_def fun_eq_iff split: option.split)
qed simp

lemma lookup_literal:
  "\<forall>(k, v) \<in> set kvs. proj k \<noteq> None \<Longrightarrow> proj key = Some h \<Longrightarrow>
     lookup (foldl (\<lambda>m (k, v). update m k v) empty kvs) key =
       map_of (rev (map (\<lambda>(k, v). (the (proj k), v)) kvs)) h"
  using view_foldl_update [OF invar_empty, of kvs]
  by (simp add: lookup_view view_empty)

end

section \<open>The contract of \<open>HashKeyed\<close> and what it buys\<close>

text \<open>The trait asks the projection to agree with the equality the backend passes in, on every
  pair that projects; a value that does not project is always allowed.\<close>

locale hash_keyed =
  fixes hk :: "'v \<Rightarrow> hash_key option" and eq :: "'v \<Rightarrow> 'v \<Rightarrow> bool"
  assumes agree: "hk a = Some h \<Longrightarrow> hk b = Some k \<Longrightarrow> eq a b \<longleftrightarrow> h = k"
begin

lemma index_is_scan:
  assumes ok: "index_ok hk ks idx 0" and key: "hk key = Some h"
  shows "idx h = find_pos (\<lambda>k. eq k key) ks"
proof -
  have proj: "\<exists>h'. hk (ks ! p) = Some h'" if "p < length ks" for p
    using ok that by (auto simp: index_ok_def filter_empty_conv)
  have eqv: "eq (ks ! p) key \<longleftrightarrow> idx h = Some p" if "p < length ks" for p
    using proj [OF that] ok that key by (auto simp: index_ok_def agree)
  show ?thesis
  proof (cases "idx h")
    case None
    with eqv have "find_pos (\<lambda>k. eq k key) ks = None"
      by (simp add: find_pos_None_iff all_set_conv_all_nth)
    with None show ?thesis by simp
  next
    case (Some p)
    with index_ok_range [OF ok Some] eqv have "find_pos (\<lambda>k. eq k key) ks = Some p"
      by (auto simp: find_pos_Some_iff)
    with Some show ?thesis by simp
  qed
qed

lemma om_position_scan:
  "om_inv hk m \<Longrightarrow> om_position hk m key eq = find_pos (\<lambda>(k, _). eq k key) (map_entries m)"
proof (cases "unprojectable m = 0 \<and> hk key \<noteq> None")
  case True
  assume "om_inv hk m"
  with True obtain h where "hk key = Some h" "index_ok hk (map fst (map_entries m)) (map_index m) 0"
    by (auto simp: om_inv_def)
  with index_is_scan [OF this(2,1)] True show ?thesis
    by (simp add: om_position_def find_pos_map comp_def case_prod_unfold)
qed (auto simp: om_position_def)

lemma os_position_scan:
  "os_inv hk s \<Longrightarrow> os_position hk s v eq = find_pos (\<lambda>item. eq item v) (set_items s)"
proof (cases "sunprojectable s = 0 \<and> hk v \<noteq> None")
  case True
  assume "os_inv hk s"
  with True obtain h where "hk v = Some h" "index_ok hk (set_items s) (set_index s) 0"
    by (auto simp: os_inv_def)
  with index_is_scan [OF this(2,1)] True show ?thesis
    by (simp add: os_position_def)
qed (auto simp: os_position_def)

text \<open>A scan that finds nothing leaves the key's hash free in the index, so an insertion
  never overwrites a position.\<close>

lemma scan_None_index:
  assumes ok: "index_ok hk ks idx un" and none: "find_pos (\<lambda>k. eq k key) ks = None"
    and key: "hk key = Some h"
  shows "idx h = None"
proof (rule ccontr)
  assume "idx h \<noteq> None"
  then obtain p where "p < length ks" "hk (ks ! p) = Some h"
    using ok by (auto simp: index_ok_def)
  then have "eq (ks ! p) key" using key by (simp add: agree)
  with \<open>p < length ks\<close> none show False
    by (simp add: find_pos_None_iff)
qed

lemma om_insert_inv: "om_inv hk m \<Longrightarrow> om_inv hk (om_insert hk m key v eq)"
proof -
  assume inv: "om_inv hk m"
  show ?thesis
  proof (cases "om_position hk m key eq")
    case (Some ix)
    then have "ix < length (map_entries m)"
      using om_position_scan [OF inv] by (auto simp: find_pos_Some_iff)
    then have "map fst ((map_entries m)[ix := (fst (map_entries m ! ix), v)]) = map fst (map_entries m)"
      by (simp add: map_update list_update_same_conv)
    with inv Some show ?thesis by (simp add: om_insert_def om_inv_def)
  next
    case None
    then have "find_pos (\<lambda>k. eq k key) (map fst (map_entries m)) = None"
      using om_position_scan [OF inv] by (simp add: find_pos_map comp_def case_prod_unfold)
    with None inv show ?thesis
      using scan_None_index [of "map fst (map_entries m)"]
        index_ok_app_Some [of hk "map fst (map_entries m)"]
        index_ok_app_None [of hk "map fst (map_entries m)"]
      by (auto simp: om_insert_def om_inv_def simp del: fun_upd_apply split: option.splits)
  qed
qed

lemma os_add_inv: "os_inv hk s \<Longrightarrow> os_inv hk (os_add hk s v eq)"
proof -
  assume inv: "os_inv hk s"
  show ?thesis
  proof (cases "os_position hk s v eq")
    case None
    with inv show ?thesis
      using scan_None_index [of "set_items s"] os_position_scan [OF inv]
        index_ok_app_Some [of hk "set_items s"] index_ok_app_None [of hk "set_items s"]
      by (auto simp: os_add_def os_inv_def simp del: fun_upd_apply split: option.splits)
  qed (use inv in \<open>simp add: os_add_def\<close>)
qed

lemma om_remove_inv: "om_inv hk m \<Longrightarrow> om_inv hk (snd (om_remove hk m key eq))"
proof -
  assume inv: "om_inv hk m"
  show ?thesis
  proof (cases "om_position hk m key eq")
    case (Some ix)
    then have "ix < length (map fst (map_entries m))"
      using om_position_scan [OF inv] by (auto simp: find_pos_Some_iff)
    then show ?thesis
      using index_ok_remove [OF inv [unfolded om_inv_def], of ix] Some
      by (auto simp: om_remove_def om_inv_def map_remove_at Let_def
          split: prod.splits option.splits)
  qed (use inv in \<open>simp add: om_remove_def\<close>)
qed

lemma os_remove_inv: "os_inv hk s \<Longrightarrow> os_inv hk (snd (os_remove hk s v eq))"
proof -
  assume inv: "os_inv hk s"
  show ?thesis
  proof (cases "os_position hk s v eq")
    case (Some ix)
    then have "ix < length (set_items s)"
      using os_position_scan [OF inv] by (auto simp: find_pos_Some_iff)
    then show ?thesis
      using index_ok_remove [OF inv [unfolded os_inv_def], of ix] Some
      by (auto simp: os_remove_def os_inv_def Let_def split: prod.splits option.splits)
  qed (use inv in \<open>simp add: os_remove_def\<close>)
qed

end

section \<open>The tables refine the scans\<close>

context hash_keyed
begin

lemma om_get_scan: "om_inv hk m \<Longrightarrow> om_get hk m key eq = scan_get eq (map_entries m) key"
  by (simp add: om_get_def scan_get_def om_position_scan)

lemma om_contains_scan:
  "om_inv hk m \<Longrightarrow> om_contains_key hk m key eq \<longleftrightarrow> (\<exists>(k, v) \<in> set (map_entries m). eq k key)"
  by (auto simp: om_contains_key_def om_position_scan find_pos_None_iff)

lemma om_insert_scan:
  "om_inv hk m \<Longrightarrow> map_entries (om_insert hk m key v eq) = scan_insert eq (map_entries m) key v"
  by (simp add: om_insert_def scan_insert_def om_position_scan split: option.split)

lemma om_remove_scan:
  "om_inv hk m \<Longrightarrow>
     (fst (om_remove hk m key eq), map_entries (snd (om_remove hk m key eq))) =
       scan_remove eq (map_entries m) key"
  by (simp add: om_remove_def scan_remove_def om_position_scan Let_def case_prod_unfold
      split: option.split)

lemma os_add_scan: "os_inv hk s \<Longrightarrow> set_items (os_add hk s v eq) = scan_add eq (set_items s) v"
  by (auto simp: os_add_def scan_add_def os_position_scan find_pos_None_iff split: option.splits)

lemma os_contains_scan:
  "os_inv hk s \<Longrightarrow> os_contains hk s v eq \<longleftrightarrow> (\<exists>x \<in> set (set_items s). eq x v)"
  by (auto simp: os_contains_def os_position_scan find_pos_None_iff)

lemma view_position:
  "om_inv hk m \<Longrightarrow> unprojectable m = 0 \<Longrightarrow> hk key = Some h \<Longrightarrow> om_position hk m key eq = map_index m h"
  by (simp add: om_position_def)

lemma om_get_view:
  "unprojectable m = 0 \<Longrightarrow> hk key = Some h \<Longrightarrow> om_get hk m key eq = om_view m h"
  by (simp add: om_get_def om_position_def om_view_def)

lemma om_insert_view:
  assumes inv: "om_inv hk m" "unprojectable m = 0" and key: "hk key = Some h"
  shows "om_view (om_insert hk m key v eq) = (om_view m)(h \<mapsto> v)"
    and "unprojectable (om_insert hk m key v eq) = 0"
proof -
  have idx: "map_index m g = Some p \<Longrightarrow> p < length (map_entries m) \<and> hk (fst (map_entries m ! p)) = Some g"
    for g p
    using inv(1) by (auto simp: om_inv_def index_ok_def)
  note pos = view_position [OF inv key]
  show "unprojectable (om_insert hk m key v eq) = 0"
    using inv(2) key by (simp add: om_insert_def split: option.split)
  show "om_view (om_insert hk m key v eq) = (om_view m)(h \<mapsto> v)"
  proof
    fix g
    show "om_view (om_insert hk m key v eq) g = ((om_view m)(h \<mapsto> v)) g"
      using pos key idx [of h] idx [of g]
      by (cases "map_index m h"; cases "map_index m g"; cases "g = h")
         (auto simp: om_insert_def om_view_def nth_append nth_list_update)
  qed
qed

lemma om_remove_view:
  assumes inv: "om_inv hk m" "unprojectable m = 0" and key: "hk key = Some h"
  shows "om_view (snd (om_remove hk m key eq)) = (om_view m)(h := None)"
    and "unprojectable (snd (om_remove hk m key eq)) = 0"
proof -
  have idx: "map_index m g = Some p \<longleftrightarrow> p < length (map_entries m) \<and> hk (fst (map_entries m ! p)) = Some g"
    for g p
    using inv(1) by (auto simp: om_inv_def index_ok_def)
  note pos = view_position [OF inv key]
  show "unprojectable (snd (om_remove hk m key eq)) = 0"
    using inv(2) by (simp add: om_remove_def Let_def split: option.split prod.split)
  show "om_view (snd (om_remove hk m key eq)) = (om_view m)(h := None)"
  proof (cases "map_index m h")
    case None
    with pos show ?thesis
      by (auto simp: om_remove_def om_view_def fun_eq_iff)
  next
    case (Some ix)
    then have ix: "ix < length (map_entries m)" "hk (fst (map_entries m ! ix)) = Some h"
      by (auto simp: idx)
    have view: "om_view (snd (om_remove hk m key eq)) g =
        map_option (\<lambda>p. snd (remove_at ix (map_entries m) ! p)) (shift_index ix ((map_index m)(h := None)) g)"
      for g
      using pos Some ix(2)
      by (simp add: om_remove_def om_view_def Let_def case_prod_unfold del: fun_upd_apply)
    show ?thesis
    proof
      fix g
      show "om_view (snd (om_remove hk m key eq)) g = ((om_view m)(h := None)) g"
      proof (cases "g = h \<or> map_index m g = None")
        case True
        then show ?thesis unfolding view by (auto simp: shift_index_def om_view_def)
      next
        case False
        then obtain p where p: "map_index m g = Some p" "g \<noteq> h" by auto
        moreover from p Some have "p \<noteq> ix" by (metis idx option.inject)
        ultimately show ?thesis
          using ix(1) p(1) [unfolded idx] unfolding view
          by (auto simp: shift_index_def om_view_def nth_remove_at)
      qed
    qed
  qed
qed

end

sublocale hash_keyed \<subseteq> keyed: keyed_map hk om_new "\<lambda>m k v. om_insert hk m k v eq"
  "\<lambda>m k. snd (om_remove hk m k eq)" "\<lambda>m k. om_get hk m k eq" om_view
  "\<lambda>m. om_inv hk m \<and> unprojectable m = 0"
proof unfold_locales
  show "om_inv hk om_new \<and> unprojectable om_new = 0"
    by (simp add: om_inv_def om_new_def)
  show "om_view om_new = Map.empty"
    by (simp add: om_view_def om_new_def fun_eq_iff)
qed (auto simp: om_insert_inv om_insert_view om_remove_inv om_remove_view om_get_view)

lemma om_from_distinct_entries_inv:
  assumes "\<And>i j. i < j \<Longrightarrow> j < length es \<Longrightarrow> hk (fst (es ! i)) \<noteq> None \<Longrightarrow>
      hk (fst (es ! i)) \<noteq> hk (fst (es ! j))"
  shows "om_inv hk (om_from_distinct_entries hk es) \<and>
    map_entries (om_from_distinct_entries hk es) = es"
  using index_keys_ok [OF index_ok_Nil, of "map fst es" hk] assms
  by (auto simp: om_inv_def om_from_distinct_entries_def Let_def case_prod_unfold)

lemma os_from_distinct_items_inv:
  assumes "\<And>i j. i < j \<Longrightarrow> j < length xs \<Longrightarrow> hk (xs ! i) \<noteq> None \<Longrightarrow> hk (xs ! i) \<noteq> hk (xs ! j)"
  shows "os_inv hk (os_from_distinct_items hk xs) \<and> set_items (os_from_distinct_items hk xs) = xs"
  using index_keys_ok [OF index_ok_Nil, of xs hk] assms
  by (auto simp: os_inv_def os_from_distinct_items_def Let_def case_prod_unfold)

end
