(* ===== verification/Runtime_Values.thy ===== *)
theory Runtime_Values
  imports Ordered_Table
begin

text \<open>
  The values of the virtual machine (\<open>brasa_vm/src/value.rs\<close>): the type \<open>val\<close> with one
  constructor per variant of \<open>Value\<close>, the projection into hash keys, the ordering of
  primitives, and loop iterators.

  A handle to a shared immutable node (an \<open>Rc\<close>) is the node's contents together with the
  address of its allocation, because closures compare by identity and the collector
  deduplicates nodes by address. A \<open>GcRef\<close> is the index of an arena slot. The state of an
  iterator is mutable, so \<open>VIter\<close> holds the address under which it is stored.
\<close>

type_synonym addr = nat
type_synonym gc_ref = nat
type_synonym const_id = nat
type_synonym func_id = nat
type_synonym struct_id = nat
type_synonym enum_id = nat
type_synonym builtin_id = nat

text \<open>A \<open>serde_json\<close> tree: a type of another crate, never inspected here.\<close>

typedecl json_value

record output_value =
  out_stdout :: string
  out_stderr :: string
  out_code :: i64

record response_value =
  resp_status :: i64
  resp_body :: string
  resp_headers :: "(string \<times> string) list"

record args_value =
  args_flags :: "string list"
  args_options :: "(string \<times> string) list"
  args_rest :: "string list"

record stat_value =
  stat_size :: i64
  stat_modified_millis :: i64
  stat_is_file :: bool
  stat_is_dir :: bool
  stat_is_symlink :: bool

record native_error_value =
  ne_name :: string
  ne_message :: string
  ne_payload :: "output_value option"

record panic_value =
  pv_name :: string
  pv_detail :: string
  pv_stack :: "string list"

datatype val =
    VInt i64
  | VFloat f64
  | VBool bool
  | VChar rust_char
  | VUnit
  | VStr string
  | VRange i64 i64 bool
  | VTuple addr "val list"
  | VVector gc_ref
  | VMap gc_ref
  | VSet gc_ref
  | VSome addr val
  | VNone
  | VStruct gc_ref
  | VEnum addr enum_id nat "val list"
  | VFunc func_id
  | VClosure addr func_id "val list"
  | VBoundMethod addr val func_id
  | VBoundBuiltin addr val builtin_id
  | VNativeError native_error_value
  | VCaughtError addr val
  | VCaughtPanic addr panic_value
  | VIter addr
  | VBinding gc_ref
  | VProcOutput output_value
  | VWalk addr val val
  | VStat stat_value
  | VJson json_value
  | VCliArgs args_value
  | VHttpResponse response_value
  | VConcurrentScope gc_ref
  | VTask gc_ref

datatype task_state =
    TaskPending val gc_ref
  | TaskRunning
  | TaskDone val
  | TaskFailed val bool nat

record scope_state =
  scope_tasks :: "val list"
  scope_exited :: bool

section \<open>Loop iterators\<close>

datatype iter_state =
    IterRange i64 i64 bool bool
  | IterItems "val list" nat

fun iter_next :: "iter_state \<Rightarrow> val option \<times> iter_state" where
  "iter_next (IterRange nx hi inclusive fin) =
     (if fin then (None, IterRange nx hi inclusive fin)
      else if \<not> (if inclusive then sint nx \<le> sint hi else sint nx < sint hi)
      then (None, IterRange nx hi inclusive fin)
      else (Some (VInt nx),
            (case checked_add nx 1 of
               Some n \<Rightarrow> IterRange n hi inclusive fin
             | None \<Rightarrow> IterRange nx hi inclusive True)))"
| "iter_next (IterItems items ix) =
     (if ix < length items then (Some (items ! ix), IterItems items (Suc ix))
      else (None, IterItems items ix))"

fun iter_take :: "nat \<Rightarrow> iter_state \<Rightarrow> val list \<times> iter_state" where
  "iter_take 0 it = ([], it)"
| "iter_take (Suc n) it =
     (case iter_next it of
        (None, it') \<Rightarrow> ([], it')
      | (Some v, it') \<Rightarrow> (let (vs, it'') = iter_take n it' in (v # vs, it'')))"

section \<open>Hash keys and primitive ordering\<close>

fun val_hash_key :: "val \<Rightarrow> hash_key option"
  and vals_hash_keys :: "val list \<Rightarrow> hash_key list option" where
  "val_hash_key (VInt i) = Some (HInt i)"
| "val_hash_key (VStr s) = Some (HStr s)"
| "val_hash_key (VChar c) = Some (HChar c)"
| "val_hash_key (VBool b) = Some (HBool b)"
| "val_hash_key (VTuple a xs) = map_option HTuple (vals_hash_keys xs)"
| "val_hash_key _ = None"
| "vals_hash_keys [] = Some []"
| "vals_hash_keys (x # xs) =
     (case val_hash_key x of None \<Rightarrow> None | Some k \<Rightarrow> map_option ((#) k) (vals_hash_keys xs))"

definition val_cmp :: "val \<Rightarrow> val \<Rightarrow> ordering option" where
  "val_cmp a b =
     (case a of
        VInt x \<Rightarrow> (case b of VInt y \<Rightarrow> Some (cmp (sint x) (sint y)) | _ \<Rightarrow> None)
      | VFloat x \<Rightarrow> (case b of VFloat y \<Rightarrow> f64_partial_cmp x y | _ \<Rightarrow> None)
      | VStr x \<Rightarrow> (case b of VStr y \<Rightarrow> Some (str_cmp x y) | _ \<Rightarrow> None)
      | VChar x \<Rightarrow> (case b of VChar y \<Rightarrow> Some (cmp x y) | _ \<Rightarrow> None)
      | _ \<Rightarrow> None)"

section \<open>Lemmas\<close>

text \<open>A range loop visits the integers from the lower bound in order and stops for good,
  whatever the bounds.\<close>

lemma iter_take_range:
  "int n = sint hi - sint lo + (if inclusive then 1 else 0) \<Longrightarrow>
     fst (iter_take n (IterRange lo hi inclusive False)) =
       map (\<lambda>k. VInt (word_of_int (sint lo + int k))) [0..<n] \<and>
     fst (iter_next (snd (iter_take n (IterRange lo hi inclusive False)))) = None"
proof (induction n arbitrary: lo)
  case 0
  then show ?case by (auto split: if_splits)
next
  case (Suc n)
  have go: "if inclusive then sint lo \<le> sint hi else sint lo < sint hi"
    using Suc.prems by (auto split: if_splits)
  show ?case
  proof (cases "checked_add lo 1")
    case None
    then have "i64_max \<le> sint lo"
      using sint_range [of lo] by (auto simp: checked_add_def i64_of_None_iff i64_min_def)
    then have "n = 0" using Suc.prems sint_range(2) [of hi] by (auto split: if_splits)
    with go None show ?thesis by (simp split: if_splits)
  next
    case (Some lo')
    then have lo': "sint lo' = sint lo + 1"
      by (simp add: checked_add_def i64_of_Some_iff)
    with Suc.prems have "int n = sint hi - sint lo' + (if inclusive then 1 else 0)"
      by simp
    from Suc.IH [OF this] go Some lo' show ?thesis
      by (simp add: case_prod_unfold Let_def map_upt_Suc ac_simps del: upt_Suc split: if_splits)
  qed
qed

end
