(* ===== verification/Gc_Heap.thy ===== *)
theory Gc_Heap
  imports Runtime_Values
begin

text \<open>
  The collected heap (\<open>brasa_vm/src/heap.rs\<close>): the arena of the cycle-capable kinds with
  its free list, the byte accounting that arms a collection, marking from a root set
  and sweeping, and the debugger's views of the arena. A Rust panic (an index out of
  bounds, an \<open>unreachable!\<close>, the arena outgrowing \<open>u32\<close>) is the result \<open>None\<close>.

  The contents of the iterators' \<open>RefCell\<close>s, which the collector reads through, are the
  association list \<open>iters\<close>. \<open>Vec\<close>s used as stacks have their top at the head of the list.
  \<open>size_of::<Value>()\<close> is pinned to 24 by a test of the crate; \<open>size_of::<HeapCell>()\<close>
  is up to the compiler and therefore a field of the heap.
\<close>

section \<open>State\<close>

definition default_gc_budget_bytes :: nat where "default_gc_budget_bytes = 1024 * 1024"
definition growth_factor :: nat where "growth_factor = 2"
definition mark_amortization :: nat where "mark_amortization = 4"
definition slot_bytes :: nat where "slot_bytes = 24"

datatype heap_cell =
    CVector "val list"
  | CMap "val omap"
  | CSet "val oset"
  | CStruct struct_id "val list"
  | CBinding val
  | CScope scope_state
  | CTask task_state
  | CFree

datatype pending = PCell gc_ref | PShared val

record mark_state =
  marked :: "bool list"
  visited :: "addr set"
  pending :: "pending list"

record heap =
  cells :: "heap_cell list"
  free :: "nat list"
  iters :: "(addr \<times> iter_state) list"
  cell_size :: nat
  threshold_bytes :: nat
  floor_bytes :: nat
  live_bytes :: nat
  peak_bytes :: nat
  since_collection_bytes :: nat
  mark_floor_bytes :: nat
  stat_allocations :: nat
  stat_collections :: nat
  stat_live :: nat

definition heap_new :: "nat \<Rightarrow> nat \<Rightarrow> heap" where
  "heap_new size_of_cell budget_bytes =
     \<lparr>cells = [], free = [], iters = [], cell_size = size_of_cell,
      threshold_bytes = budget_bytes, floor_bytes = budget_bytes, live_bytes = 0,
      peak_bytes = 0, since_collection_bytes = 0, mark_floor_bytes = budget_bytes,
      stat_allocations = 0, stat_collections = 0, stat_live = 0\<rparr>"

fun cell_slots :: "heap_cell \<Rightarrow> nat" where
  "cell_slots (CVector vs) = length vs"
| "cell_slots (CSet s) = os_len s"
| "cell_slots (CMap m) = 2 * om_len m"
| "cell_slots (CStruct shp fs) = length fs"
| "cell_slots (CBinding v) = 1"
| "cell_slots (CScope st) = length (scope_tasks st)"
| "cell_slots (CTask t) = 1"
| "cell_slots CFree = 0"

definition cell_bytes :: "nat \<Rightarrow> heap_cell \<Rightarrow> nat" where
  "cell_bytes size_of_cell c =
     (case c of CFree \<Rightarrow> 0 | _ \<Rightarrow> size_of_cell + cell_slots c * slot_bytes)"

section \<open>Accounting and allocation\<close>

definition charge :: "nat \<Rightarrow> heap \<Rightarrow> heap" where
  "charge bytes h =
     (let live = live_bytes h + bytes
      in h\<lparr>live_bytes := live, peak_bytes := max (peak_bytes h) live,
           since_collection_bytes := since_collection_bytes h + bytes\<rparr>)"

definition recharge :: "nat \<Rightarrow> nat \<Rightarrow> heap \<Rightarrow> heap" where
  "recharge before_slots after_slots h =
     (if before_slots \<le> after_slots then charge ((after_slots - before_slots) * slot_bytes) h
      else h\<lparr>live_bytes := live_bytes h - (before_slots - after_slots) * slot_bytes\<rparr>)"

definition heap_alloc :: "heap_cell \<Rightarrow> heap \<Rightarrow> (gc_ref \<times> heap) option" where
  "heap_alloc c h0 =
     (let h = charge (cell_bytes (cell_size h0) c)
                (h0\<lparr>stat_allocations := stat_allocations h0 + 1, stat_live := stat_live h0 + 1\<rparr>)
      in case free h of
           ix # rest \<Rightarrow>
             if ix < length (cells h)
             then Some (ix, h\<lparr>free := rest, cells := (cells h)[ix := c]\<rparr>) else None
         | [] \<Rightarrow>
             if length (cells h) < 2 ^ 32
             then Some (length (cells h), h\<lparr>cells := cells h @ [c]\<rparr>) else None)"

definition alloc_vector :: "val list \<Rightarrow> heap \<Rightarrow> (val \<times> heap) option" where
  "alloc_vector vs h = map_option (map_prod VVector id) (heap_alloc (CVector vs) h)"

definition alloc_map :: "val omap \<Rightarrow> heap \<Rightarrow> (val \<times> heap) option" where
  "alloc_map m h = map_option (map_prod VMap id) (heap_alloc (CMap m) h)"

definition alloc_set :: "val oset \<Rightarrow> heap \<Rightarrow> (val \<times> heap) option" where
  "alloc_set s h = map_option (map_prod VSet id) (heap_alloc (CSet s) h)"

definition alloc_struct :: "struct_id \<Rightarrow> val list \<Rightarrow> heap \<Rightarrow> (val \<times> heap) option" where
  "alloc_struct shp fs h = map_option (map_prod VStruct id) (heap_alloc (CStruct shp fs) h)"

definition alloc_binding :: "val \<Rightarrow> heap \<Rightarrow> (val \<times> heap) option" where
  "alloc_binding v h = map_option (map_prod VBinding id) (heap_alloc (CBinding v) h)"

definition alloc_scope :: "heap \<Rightarrow> (val \<times> heap) option" where
  "alloc_scope h =
     map_option (map_prod VConcurrentScope id)
       (heap_alloc (CScope \<lparr>scope_tasks = [], scope_exited = False\<rparr>) h)"

definition alloc_task :: "task_state \<Rightarrow> heap \<Rightarrow> (val \<times> heap) option" where
  "alloc_task t h = map_option (map_prod VTask id) (heap_alloc (CTask t) h)"

section \<open>Access and mutation\<close>

definition cell_at :: "heap \<Rightarrow> gc_ref \<Rightarrow> heap_cell option" where
  "cell_at h r = (if r < length (cells h) then Some (cells h ! r) else None)"

definition heap_vector :: "heap \<Rightarrow> gc_ref \<Rightarrow> val list option" where
  "heap_vector h r = (case cell_at h r of Some (CVector vs) \<Rightarrow> Some vs | _ \<Rightarrow> None)"

definition heap_map :: "heap \<Rightarrow> gc_ref \<Rightarrow> val omap option" where
  "heap_map h r = (case cell_at h r of Some (CMap m) \<Rightarrow> Some m | _ \<Rightarrow> None)"

definition heap_set :: "heap \<Rightarrow> gc_ref \<Rightarrow> val oset option" where
  "heap_set h r = (case cell_at h r of Some (CSet s) \<Rightarrow> Some s | _ \<Rightarrow> None)"

definition heap_struct :: "heap \<Rightarrow> gc_ref \<Rightarrow> (struct_id \<times> val list) option" where
  "heap_struct h r = (case cell_at h r of Some (CStruct shp fs) \<Rightarrow> Some (shp, fs) | _ \<Rightarrow> None)"

definition heap_binding :: "heap \<Rightarrow> gc_ref \<Rightarrow> val option" where
  "heap_binding h r = (case cell_at h r of Some (CBinding v) \<Rightarrow> Some v | _ \<Rightarrow> None)"

definition heap_scope :: "heap \<Rightarrow> gc_ref \<Rightarrow> scope_state option" where
  "heap_scope h r = (case cell_at h r of Some (CScope st) \<Rightarrow> Some st | _ \<Rightarrow> None)"

definition heap_task :: "heap \<Rightarrow> gc_ref \<Rightarrow> task_state option" where
  "heap_task h r = (case cell_at h r of Some (CTask t) \<Rightarrow> Some t | _ \<Rightarrow> None)"

definition set_cell :: "gc_ref \<Rightarrow> heap_cell \<Rightarrow> heap \<Rightarrow> heap" where
  "set_cell r c h = h\<lparr>cells := (cells h)[r := c]\<rparr>"

definition edit_vector :: "gc_ref \<Rightarrow> (val list \<Rightarrow> 'r \<times> val list) \<Rightarrow> heap \<Rightarrow> ('r \<times> heap) option" where
  "edit_vector r edit h =
     (case heap_vector h r of None \<Rightarrow> None
      | Some vs \<Rightarrow>
          (let (res, vs') = edit vs
           in Some (res, recharge (length vs) (length vs') (set_cell r (CVector vs') h))))"

definition edit_map :: "gc_ref \<Rightarrow> (val omap \<Rightarrow> 'r \<times> val omap) \<Rightarrow> heap \<Rightarrow> ('r \<times> heap) option" where
  "edit_map r edit h =
     (case heap_map h r of None \<Rightarrow> None
      | Some m \<Rightarrow>
          (let (res, m') = edit m
           in Some (res, recharge (2 * om_len m) (2 * om_len m') (set_cell r (CMap m') h))))"

definition edit_scope :: "gc_ref \<Rightarrow> (scope_state \<Rightarrow> 'r \<times> scope_state) \<Rightarrow> heap \<Rightarrow> ('r \<times> heap) option" where
  "edit_scope r edit h =
     (case heap_scope h r of None \<Rightarrow> None
      | Some st \<Rightarrow>
          (let (res, st') = edit st
           in Some (res, recharge (length (scope_tasks st)) (length (scope_tasks st'))
                           (set_cell r (CScope st') h))))"

definition edit_set :: "gc_ref \<Rightarrow> (val oset \<Rightarrow> 'r \<times> val oset) \<Rightarrow> heap \<Rightarrow> ('r \<times> heap) option" where
  "edit_set r edit h =
     (case heap_set h r of None \<Rightarrow> None
      | Some s \<Rightarrow>
          (let (res, s') = edit s
           in Some (res, recharge (os_len s) (os_len s') (set_cell r (CSet s') h))))"

definition should_collect :: "heap \<Rightarrow> bool" where
  "should_collect h \<longleftrightarrow>
     threshold_bytes h \<le> live_bytes h \<and> mark_floor_bytes h \<le> since_collection_bytes h"

definition relax_mark_floor :: "heap \<Rightarrow> heap" where
  "relax_mark_floor h =
     (let arena_only = max (live_bytes h div mark_amortization) (floor_bytes h)
      in h\<lparr>mark_floor_bytes := min (mark_floor_bytes h) arena_only\<rparr>)"

section \<open>Marking\<close>

fun cell_ref :: "val \<Rightarrow> gc_ref option" where
  "cell_ref (VVector r) = Some r"
| "cell_ref (VMap r) = Some r"
| "cell_ref (VSet r) = Some r"
| "cell_ref (VStruct r) = Some r"
| "cell_ref (VBinding r) = Some r"
| "cell_ref (VConcurrentScope r) = Some r"
| "cell_ref (VTask r) = Some r"
| "cell_ref _ = None"

fun shared_address :: "val \<Rightarrow> addr option" where
  "shared_address (VTuple a _) = Some a"
| "shared_address (VSome a _) = Some a"
| "shared_address (VEnum a _ _ _) = Some a"
| "shared_address (VWalk a _ _) = Some a"
| "shared_address (VClosure a _ _) = Some a"
| "shared_address (VBoundMethod a _ _) = Some a"
| "shared_address (VBoundBuiltin a _ _) = Some a"
| "shared_address (VCaughtError a _) = Some a"
| "shared_address (VCaughtPanic a _) = Some a"
| "shared_address (VIter a) = Some a"
| "shared_address _ = None"

definition mark_begin :: "nat \<Rightarrow> mark_state" where
  "mark_begin slots = \<lparr>marked = replicate slots False, visited = {}, pending = []\<rparr>"

definition visit :: "val \<Rightarrow> mark_state \<Rightarrow> mark_state option" where
  "visit v m =
     (case cell_ref v of
        Some slot \<Rightarrow>
          if slot < length (marked m) then
            if marked m ! slot then Some m
            else Some (m\<lparr>marked := (marked m)[slot := True], pending := PCell slot # pending m\<rparr>)
          else None
      | None \<Rightarrow>
          (case shared_address v of
             Some address \<Rightarrow>
               if address \<in> visited m then Some m
               else Some (m\<lparr>visited := insert address (visited m),
                            pending := PShared v # pending m\<rparr>)
           | None \<Rightarrow> Some m))"

fun visit_all :: "val list \<Rightarrow> mark_state \<Rightarrow> mark_state option" where
  "visit_all [] m = Some m"
| "visit_all (v # vs) m = (case visit v m of None \<Rightarrow> None | Some m' \<Rightarrow> visit_all vs m')"

definition entry_values :: "val omap \<Rightarrow> val list" where
  "entry_values m = concat (map (\<lambda>(k, v). [k, v]) (map_entries m))"

fun scan_cell :: "heap_cell \<Rightarrow> mark_state \<Rightarrow> mark_state option" where
  "scan_cell (CVector vs) m = visit_all vs m"
| "scan_cell (CSet s) m = visit_all (set_items s) m"
| "scan_cell (CMap es) m = visit_all (entry_values es) m"
| "scan_cell (CStruct shp fs) m = visit_all fs m"
| "scan_cell (CBinding v) m = visit v m"
| "scan_cell (CScope st) m = visit_all (scope_tasks st) m"
| "scan_cell (CTask (TaskPending block scope)) m = visit_all [block, VConcurrentScope scope] m"
| "scan_cell (CTask TaskRunning) m = Some m"
| "scan_cell (CTask (TaskDone v)) m = visit v m"
| "scan_cell (CTask (TaskFailed e observed order)) m = visit e m"
| "scan_cell CFree m = None"

fun scan_shared :: "(addr \<times> iter_state) list \<Rightarrow> val \<Rightarrow> mark_state \<Rightarrow> mark_state option" where
  "scan_shared its (VTuple a vs) m = visit_all vs m"
| "scan_shared its (VSome a v) m = visit v m"
| "scan_shared its (VEnum a shp variant fs) m = visit_all fs m"
| "scan_shared its (VWalk a paths unreadable) m = visit_all [paths, unreadable] m"
| "scan_shared its (VClosure a f captures) m = visit_all captures m"
| "scan_shared its (VBoundMethod a recv f) m = visit recv m"
| "scan_shared its (VBoundBuiltin a recv b) m = visit recv m"
| "scan_shared its (VCaughtError a v) m = visit v m"
| "scan_shared its (VCaughtPanic a p) m = Some m"
| "scan_shared its (VIter a) m =
     (case map_of its a of
        Some (IterItems vs ix) \<Rightarrow> visit_all vs m
      | Some (IterRange _ _ _ _) \<Rightarrow> Some m
      | None \<Rightarrow> None)"
| "scan_shared its v m = None"

fun mark_step :: "heap_cell list \<Rightarrow> (addr \<times> iter_state) list \<Rightarrow> pending \<Rightarrow> mark_state \<Rightarrow>
    mark_state option" where
  "mark_step cs its (PCell r) m = (if r < length cs then scan_cell (cs ! r) m else None)"
| "mark_step cs its (PShared v) m = scan_shared its v m"

text \<open>\<open>values_of\<close> is the debugger's list of what a cell holds; marking visits the same values,
  which \<open>scan_cell_values\<close> states.\<close>

fun values_of :: "heap_cell \<Rightarrow> val list" where
  "values_of (CVector vs) = vs"
| "values_of (CSet s) = set_items s"
| "values_of (CMap es) = entry_values es"
| "values_of (CStruct shp fs) = fs"
| "values_of (CBinding v) = [v]"
| "values_of (CScope st) = scope_tasks st"
| "values_of (CTask (TaskPending block scope)) = [block, VConcurrentScope scope]"
| "values_of (CTask TaskRunning) = []"
| "values_of (CTask (TaskDone v)) = [v]"
| "values_of (CTask (TaskFailed e observed order)) = [e]"
| "values_of CFree = []"

fun shared_values :: "(addr \<times> iter_state) list \<Rightarrow> val \<Rightarrow> val list" where
  "shared_values its (VTuple a vs) = vs"
| "shared_values its (VSome a v) = [v]"
| "shared_values its (VEnum a shp variant fs) = fs"
| "shared_values its (VWalk a paths unreadable) = [paths, unreadable]"
| "shared_values its (VClosure a f captures) = captures"
| "shared_values its (VBoundMethod a recv f) = [recv]"
| "shared_values its (VBoundBuiltin a recv b) = [recv]"
| "shared_values its (VCaughtError a v) = [v]"
| "shared_values its (VIter a) =
     (case map_of its a of Some (IterItems vs ix) \<Rightarrow> vs | _ \<Rightarrow> [])"
| "shared_values its v = []"

lemma visit_all_single [simp]: "visit_all [v] m = visit v m"
  by (simp split: option.split)

lemma scan_cell_values: "scan_cell c m = (if c = CFree then None else visit_all (values_of c) m)"
  by (cases "(c, m)" rule: scan_cell.cases) (auto simp del: visit_all.simps(2) simp add: visit_all.simps(1))

lemma scan_shared_values:
  "scan_shared its v m =
     (if shared_address v = None \<or> (\<exists>a. v = VIter a \<and> map_of its a = None) then None
      else visit_all (shared_values its v) m)"
  by (cases "(its, v, m)" rule: scan_shared.cases)
     (auto split: option.split iter_state.split simp del: visit_all.simps(2))

text \<open>Termination of the marking loop: every address that can ever be pushed occurs in the
  values of the cells, of the iterators or of the worklist.\<close>

fun addrs :: "val \<Rightarrow> addr set" where
  "addrs (VTuple a vs) = insert a (\<Union>v \<in> set vs. addrs v)"
| "addrs (VSome a v) = insert a (addrs v)"
| "addrs (VEnum a shp variant fs) = insert a (\<Union>v \<in> set fs. addrs v)"
| "addrs (VWalk a paths unreadable) = insert a (addrs paths \<union> addrs unreadable)"
| "addrs (VClosure a f captures) = insert a (\<Union>v \<in> set captures. addrs v)"
| "addrs (VBoundMethod a recv f) = insert a (addrs recv)"
| "addrs (VBoundBuiltin a recv b) = insert a (addrs recv)"
| "addrs (VCaughtError a v) = insert a (addrs v)"
| "addrs (VCaughtPanic a p) = {a}"
| "addrs (VIter a) = {a}"
| "addrs v = {}"

lemma finite_addrs [simp]: "finite (addrs v)"
  by (induction v) auto

lemma shared_address_addrs: "shared_address v = Some a \<Longrightarrow> a \<in> addrs v"
  by (cases v) auto

fun iter_values :: "iter_state \<Rightarrow> val list" where
  "iter_values (IterItems vs ix) = vs"
| "iter_values (IterRange _ _ _ _) = []"

fun pending_addrs :: "pending \<Rightarrow> addr set" where
  "pending_addrs (PCell r) = {}"
| "pending_addrs (PShared v) = addrs v"

definition iters_addrs :: "(addr \<times> iter_state) list \<Rightarrow> addr set" where
  "iters_addrs its = (\<Union>(a, st) \<in> set its. \<Union>v \<in> set (iter_values st). addrs v)"

definition cells_addrs :: "heap_cell list \<Rightarrow> addr set" where
  "cells_addrs cs = (\<Union>c \<in> set cs. \<Union>v \<in> set (values_of c). addrs v)"

definition worklist_addrs :: "pending list \<Rightarrow> addr set" where
  "worklist_addrs ps = (\<Union>p \<in> set ps. pending_addrs p)"

definition universe :: "heap_cell list \<Rightarrow> (addr \<times> iter_state) list \<Rightarrow> pending list \<Rightarrow> addr set" where
  "universe cs its ps = cells_addrs cs \<union> iters_addrs its \<union> worklist_addrs ps"

lemma finite_pending_addrs [simp]: "finite (pending_addrs p)"
  by (cases p) auto

lemma finite_universe [simp]: "finite (universe cs its ps)"
  by (auto simp: universe_def cells_addrs_def iters_addrs_def worklist_addrs_def)

definition mark_measure :: "addr set \<Rightarrow> mark_state \<Rightarrow> nat" where
  "mark_measure u m =
     2 * length (filter Not (marked m)) + 2 * card (u - visited m) + length (pending m)"

lemma unmarked_update:
  "i < length bs \<Longrightarrow> \<not> bs ! i \<Longrightarrow>
     Suc (length (filter Not (bs[i := True]))) = length (filter Not bs)"
proof -
  assume i: "i < length bs" "\<not> bs ! i"
  have "filter Not bs = filter Not (take i bs) @ bs ! i # filter Not (drop (Suc i) bs)"
    using i by (subst id_take_nth_drop [OF i(1)]) simp
  moreover have "filter Not (bs[i := True]) = filter Not (take i bs) @ filter Not (drop (Suc i) bs)"
    using i(1) by (simp add: upd_conv_take_nth_drop)
  ultimately show ?thesis by simp
qed

lemma visit_measure:
  assumes "visit v m = Some m'" and "finite u" and "addrs v \<subseteq> u"
  shows "mark_measure u m' \<le> mark_measure u m"
proof (cases "cell_ref v")
  case (Some r)
  with assms(1) unmarked_update [of r "marked m"] show ?thesis
    by (auto simp: visit_def mark_measure_def split: if_splits)
next
  case None
  show ?thesis
  proof (cases "shared_address v")
    case (Some a)
    then have "a \<in> u" using assms(3) shared_address_addrs by blast
    then have "a \<notin> visited m \<Longrightarrow> Suc (card (u - insert a (visited m))) = card (u - visited m)"
      unfolding Diff_insert [of u a "visited m"] using assms(2) by (intro card_Suc_Diff1) auto
    with None Some assms(1) show ?thesis
      by (auto simp: visit_def mark_measure_def split: if_splits)
  qed (use None assms(1) in \<open>simp add: visit_def\<close>)
qed

lemma visit_all_measure:
  "visit_all vs m = Some m' \<Longrightarrow> finite u \<Longrightarrow> (\<And>v. v \<in> set vs \<Longrightarrow> addrs v \<subseteq> u) \<Longrightarrow>
     mark_measure u m' \<le> mark_measure u m"
proof (induction vs arbitrary: m)
  case (Cons v vs)
  then obtain m1 where m1: "visit v m = Some m1" "visit_all vs m1 = Some m'"
    by (auto split: option.splits)
  have "mark_measure u m' \<le> mark_measure u m1"
    using Cons.IH [OF m1(2) Cons.prems(2)] Cons.prems(3) by simp
  also have "\<dots> \<le> mark_measure u m"
    using visit_measure [OF m1(1) Cons.prems(2)] Cons.prems(3) by simp
  finally show ?case .
qed simp

lemma visit_pending:
  "visit v m = Some m' \<Longrightarrow>
     worklist_addrs (pending m') \<subseteq> worklist_addrs (pending m) \<union> addrs v"
  by (auto simp: visit_def worklist_addrs_def split: option.splits if_splits)

lemma visit_all_pending:
  "visit_all vs m = Some m' \<Longrightarrow> (\<And>v. v \<in> set vs \<Longrightarrow> addrs v \<subseteq> u) \<Longrightarrow>
     worklist_addrs (pending m') \<subseteq> worklist_addrs (pending m) \<union> u"
proof (induction vs arbitrary: m)
  case (Cons v vs)
  then obtain m1 where m1: "visit v m = Some m1" "visit_all vs m1 = Some m'"
    by (auto split: option.splits)
  have "addrs v \<subseteq> u" using Cons.prems(2) by simp
  with visit_pending [OF m1(1)] Cons.IH [OF m1(2)] Cons.prems(2) show ?case
    by fastforce
qed simp

fun succ_values :: "heap_cell list \<Rightarrow> (addr \<times> iter_state) list \<Rightarrow> pending \<Rightarrow> val list" where
  "succ_values cs its (PCell r) = (if r < length cs then values_of (cs ! r) else [])"
| "succ_values cs its (PShared v) = shared_values its v"

lemma mark_step_values: "mark_step cs its p m = Some m' \<Longrightarrow> visit_all (succ_values cs its p) m = Some m'"
  by (cases p) (auto simp: scan_cell_values scan_shared_values split: if_splits)

lemma shared_values_addrs:
  "v' \<in> set (shared_values its v) \<Longrightarrow> addrs v' \<subseteq> addrs v \<union> iters_addrs its"
proof (cases v)
  case (VIter a)
  assume "v' \<in> set (shared_values its v)"
  with VIter obtain vs ix where "map_of its a = Some (IterItems vs ix)" "v' \<in> set vs"
    by (cases "map_of its a"; cases "the (map_of its a)") auto
  then have "(a, IterItems vs ix) \<in> set its" "v' \<in> set (iter_values (IterItems vs ix))"
    by (auto dest: map_of_SomeD)
  then show ?thesis unfolding iters_addrs_def by blast
qed auto

lemma succ_values_addrs:
  "v \<in> set (succ_values cs its p) \<Longrightarrow> addrs v \<subseteq> universe cs its (p # ps)"
proof (cases p)
  case (PCell r)
  assume "v \<in> set (succ_values cs its p)"
  with PCell have "cs ! r \<in> set cs" "v \<in> set (values_of (cs ! r))"
    by (auto split: if_splits)
  then show ?thesis unfolding universe_def cells_addrs_def by blast
next
  case (PShared w)
  assume "v \<in> set (succ_values cs its p)"
  with PShared have "addrs v \<subseteq> addrs w \<union> iters_addrs its"
    by (intro shared_values_addrs) simp
  with PShared show ?thesis by (auto simp: universe_def worklist_addrs_def)
qed

lemma mark_step_decreases:
  assumes step: "mark_step cs its p (m\<lparr>pending := ps\<rparr>) = Some m'" and p: "pending m = p # ps"
  shows "mark_measure (universe cs its (pending m')) m' < mark_measure (universe cs its (p # ps)) m"
proof -
  let ?u = "universe cs its (p # ps)"
  note vs = mark_step_values [OF step]
  have "worklist_addrs ps \<subseteq> ?u" by (auto simp: universe_def worklist_addrs_def)
  with visit_all_pending [OF vs, of ?u] succ_values_addrs [of _ cs its p ps] have "worklist_addrs (pending m') \<subseteq> ?u"
    by auto
  then have sub: "universe cs its (pending m') \<subseteq> ?u"
    by (auto simp: universe_def)
  have "mark_measure (universe cs its (pending m')) m' \<le> mark_measure ?u m'"
    using sub by (simp add: mark_measure_def card_mono Diff_mono)
  also have "\<dots> \<le> mark_measure ?u (m\<lparr>pending := ps\<rparr>)"
    by (rule visit_all_measure [OF vs]) (simp_all add: succ_values_addrs)
  also have "\<dots> < mark_measure ?u m"
    using p by (simp add: mark_measure_def)
  finally show ?thesis .
qed

function mark_loop :: "heap_cell list \<Rightarrow> (addr \<times> iter_state) list \<Rightarrow> mark_state \<Rightarrow> mark_state option" where
  "mark_loop cs its m =
     (case pending m of
        [] \<Rightarrow> Some m
      | p # ps \<Rightarrow>
          (case mark_step cs its p (m\<lparr>pending := ps\<rparr>) of
             None \<Rightarrow> None
           | Some m' \<Rightarrow> mark_loop cs its m'))"
  by pat_completeness auto
termination
  by (relation "measure (\<lambda>(cs, its, m). mark_measure (universe cs its (pending m)) m)")
     (auto dest: mark_step_decreases)

declare mark_loop.simps [simp del]

section \<open>Sweeping and collection\<close>

definition is_free :: "heap_cell \<Rightarrow> bool" where
  "is_free c = (case c of CFree \<Rightarrow> True | _ \<Rightarrow> False)"

lemma is_free_iff [simp]: "is_free c \<longleftrightarrow> c = CFree"
  by (cases c) (auto simp: is_free_def)

text \<open>The sweep carries the free list, the byte count of the survivors and the live count.\<close>

fun sweep :: "nat \<Rightarrow> nat \<Rightarrow> bool list \<Rightarrow> heap_cell list \<Rightarrow> nat list \<times> nat \<times> nat \<Rightarrow>
    heap_cell list \<times> nat list \<times> nat \<times> nat" where
  "sweep sz ix (b # bs) (c # cs) (fr, live, n) =
     (if b then
        (let (cs', st) = sweep sz (Suc ix) bs cs (fr, live + cell_bytes sz c, n) in (c # cs', st))
      else if \<not> is_free c then
        (let (cs', st) = sweep sz (Suc ix) bs cs (ix # fr, live, n - 1) in (CFree # cs', st))
      else
        (let (cs', st) = sweep sz (Suc ix) bs cs (fr, live, n) in (c # cs', st)))"
| "sweep sz ix _ cs st = (cs, st)"

definition collect :: "val list \<Rightarrow> heap \<Rightarrow> heap option" where
  "collect roots h =
     (case visit_all roots (mark_begin (length (cells h))) of
        None \<Rightarrow> None
      | Some m0 \<Rightarrow>
          (case mark_loop (cells h) (iters h) m0 of
             None \<Rightarrow> None
           | Some m \<Rightarrow>
               (let (cs, fr, live, n) =
                      sweep (cell_size h) 0 (marked m) (cells h) (free h, 0, stat_live h)
                in Some (h\<lparr>cells := cs, free := fr, stat_live := n, live_bytes := live,
                           stat_collections := stat_collections h + 1,
                           threshold_bytes := max (live * growth_factor) (floor_bytes h),
                           since_collection_bytes := 0,
                           mark_floor_bytes :=
                             max ((length roots * slot_bytes + live) div mark_amortization)
                               (floor_bytes h)\<rparr>))))"

section \<open>Reachability\<close>

definition succs :: "heap_cell list \<Rightarrow> (addr \<times> iter_state) list \<Rightarrow> val \<Rightarrow> val list" where
  "succs cs its v =
     (case cell_ref v of
        Some r \<Rightarrow> if r < length cs then values_of (cs ! r) else []
      | None \<Rightarrow> shared_values its v)"

inductive reach :: "heap_cell list \<Rightarrow> (addr \<times> iter_state) list \<Rightarrow> val list \<Rightarrow> val \<Rightarrow> bool"
  for cs its roots where
  reach_root: "v \<in> set roots \<Longrightarrow> reach cs its roots v"
| reach_step: "reach cs its roots v \<Longrightarrow> w \<in> set (succs cs its v) \<Longrightarrow> reach cs its roots w"

definition live_slot :: "heap_cell list \<Rightarrow> (addr \<times> iter_state) list \<Rightarrow> val list \<Rightarrow> gc_ref \<Rightarrow> bool" where
  "live_slot cs its roots r \<longleftrightarrow> (\<exists>v. reach cs its roots v \<and> cell_ref v = Some r)"

text \<open>What the machine owes the collector at a safepoint: a reachable reference names an
  occupied slot, a reachable iterator has its state, and one address is one node.\<close>

definition target_ok :: "heap_cell list \<Rightarrow> (addr \<times> iter_state) list \<Rightarrow> val \<Rightarrow> bool" where
  "target_ok cs its v \<longleftrightarrow>
     (case cell_ref v of
        Some r \<Rightarrow> r < length cs \<and> cs ! r \<noteq> CFree
      | None \<Rightarrow> (case v of VIter a \<Rightarrow> map_of its a \<noteq> None | _ \<Rightarrow> True))"

definition no_dangling :: "heap_cell list \<Rightarrow> (addr \<times> iter_state) list \<Rightarrow> val list \<Rightarrow> bool" where
  "no_dangling cs its roots \<longleftrightarrow> (\<forall>v. reach cs its roots v \<longrightarrow> target_ok cs its v)"

definition one_node_per_address ::
    "heap_cell list \<Rightarrow> (addr \<times> iter_state) list \<Rightarrow> val list \<Rightarrow> bool" where
  "one_node_per_address cs its roots \<longleftrightarrow>
     (\<forall>v w. reach cs its roots v \<and> reach cs its roots w \<and> shared_address v \<noteq> None \<and>
        shared_address v = shared_address w \<longrightarrow> v = w)"

lemma shared_no_cell: "shared_address v = Some a \<Longrightarrow> cell_ref v = None"
  by (cases v) auto

section \<open>Marking is reachability\<close>

definition noticed :: "mark_state \<Rightarrow> val \<Rightarrow> bool" where
  "noticed m v \<longleftrightarrow>
     (case cell_ref v of
        Some r \<Rightarrow> r < length (marked m) \<and> marked m ! r
      | None \<Rightarrow> (case shared_address v of Some a \<Rightarrow> a \<in> visited m | None \<Rightarrow> True))"

definition item_of :: "val \<Rightarrow> pending" where
  "item_of v = (case cell_ref v of Some r \<Rightarrow> PCell r | None \<Rightarrow> PShared v)"

text \<open>The invariant of the worklist; \<open>xs\<close> holds the item being scanned.\<close>

definition mark_inv ::
    "heap_cell list \<Rightarrow> (addr \<times> iter_state) list \<Rightarrow> val list \<Rightarrow> pending set \<Rightarrow> mark_state \<Rightarrow> bool" where
  "mark_inv cs its roots xs m \<longleftrightarrow>
     length (marked m) = length cs \<and>
     (\<forall>r < length cs. marked m ! r \<longrightarrow> live_slot cs its roots r) \<and>
     (\<forall>a \<in> visited m. \<exists>v. reach cs its roots v \<and> shared_address v = Some a) \<and>
     (\<forall>p \<in> set (pending m) \<union> xs. \<exists>v. reach cs its roots v \<and> p = item_of v \<and>
        (cell_ref v \<noteq> None \<or> shared_address v \<noteq> None)) \<and>
     (\<forall>v. reach cs its roots v \<and> noticed m v \<and> item_of v \<notin> set (pending m) \<union> xs \<longrightarrow>
        (\<forall>w \<in> set (succs cs its v). noticed m w))"

definition mark_mono :: "mark_state \<Rightarrow> mark_state \<Rightarrow> bool" where
  "mark_mono m m' \<longleftrightarrow> (\<forall>v. noticed m v \<longrightarrow> noticed m' v)"

lemma mark_mono_trans: "mark_mono a b \<Longrightarrow> mark_mono b c \<Longrightarrow> mark_mono a c"
  by (simp add: mark_mono_def)

lemma visit_noticed: "visit v m = Some m' \<Longrightarrow> noticed m' v \<and> mark_mono m m'"
  by (auto simp: visit_def noticed_def mark_mono_def nth_list_update
      split: option.splits if_splits)

lemma noticed_visit:
  assumes "visit v m = Some m'" and "noticed m' w"
  shows "noticed m w \<or> item_of w = item_of v \<or>
    (\<exists>a. shared_address v = Some a \<and> shared_address w = Some a)"
  using assms
  by (auto simp: visit_def noticed_def item_of_def nth_list_update
      split: option.splits if_splits)

lemma visit_pending_set:
  "visit v m = Some m' \<Longrightarrow> noticed m v \<and> m' = m \<or>
     set (pending m') = insert (item_of v) (set (pending m)) \<and>
     (cell_ref v \<noteq> None \<or> shared_address v \<noteq> None) \<or>
     m' = m \<and> cell_ref v = None \<and> shared_address v = None"
  by (auto simp: visit_def noticed_def item_of_def split: option.splits if_splits)

lemma visit_inv:
  assumes inv: "mark_inv cs its roots xs m" and one: "one_node_per_address cs its roots"
    and v: "reach cs its roots v" and m': "visit v m = Some m'"
  shows "mark_inv cs its roots xs m'"
proof (cases "m' = m")
  case False
  then have pend: "set (pending m') = insert (item_of v) (set (pending m))"
      "cell_ref v \<noteq> None \<or> shared_address v \<noteq> None"
    using visit_pending_set [OF m'] by auto
  have marked: "length (marked m') = length cs"
      "\<And>r. r < length cs \<Longrightarrow> marked m' ! r \<Longrightarrow> live_slot cs its roots r"
    using inv v m'
    by (auto simp: mark_inv_def visit_def live_slot_def nth_list_update
        split: option.splits if_splits)
  have vis: "\<forall>a \<in> visited m'. \<exists>v. reach cs its roots v \<and> shared_address v = Some a"
    using inv v m' by (auto simp: mark_inv_def visit_def split: option.splits if_splits)
  have "noticed m' x"
    if w: "reach cs its roots w" "noticed m' w" "item_of w \<notin> set (pending m') \<union> xs"
      and x: "x \<in> set (succs cs its w)" for w x
  proof -
    have "item_of w \<noteq> item_of v" using w(3) pend by auto
    moreover from this have "\<not> (shared_address v = Some a \<and> shared_address w = Some a)" for a
      using one v w(1) unfolding one_node_per_address_def by (metis option.distinct(1))
    ultimately have "noticed m w" using noticed_visit [OF m' w(2)] by blast
    with w pend x inv have "noticed m x" by (auto simp: mark_inv_def)
    then show ?thesis using visit_noticed [OF m'] by (simp add: mark_mono_def)
  qed
  with marked vis inv v pend show ?thesis
    unfolding mark_inv_def by blast
qed (use inv in simp)

lemma visit_all_inv:
  assumes "mark_inv cs its roots xs m" and "one_node_per_address cs its roots"
    and "\<And>v. v \<in> set vs \<Longrightarrow> reach cs its roots v" and "visit_all vs m = Some m'"
  shows "mark_inv cs its roots xs m' \<and> mark_mono m m' \<and> (\<forall>v \<in> set vs. noticed m' v)"
  using assms
proof (induction vs arbitrary: m)
  case (Cons v vs)
  then obtain m1 where m1: "visit v m = Some m1" "visit_all vs m1 = Some m'"
    by (auto split: option.splits)
  have "mark_inv cs its roots xs m1"
    using visit_inv [OF Cons.prems(1,2) _ m1(1)] Cons.prems(3) by simp
  with Cons.IH [OF this] Cons.prems m1 visit_noticed [OF m1(1)] show ?case
    by (auto simp: mark_mono_def)
qed (simp add: mark_mono_def)

lemma visit_total:
  assumes "length (marked m) = length cs" and "target_ok cs its v"
  shows "\<exists>m1. visit v m = Some m1 \<and> length (marked m1) = length cs"
proof (cases "cell_ref v")
  case None
  then show ?thesis using assms(1) by (cases "shared_address v") (auto simp: visit_def)
qed (use assms in \<open>auto simp: visit_def target_ok_def\<close>)

lemma visit_all_total:
  assumes "length (marked m) = length cs" and "\<And>v. v \<in> set vs \<Longrightarrow> target_ok cs its v"
  shows "visit_all vs m \<noteq> None"
  using assms
proof (induction vs arbitrary: m)
  case (Cons v vs)
  from Cons.prems obtain m1 where "visit v m = Some m1" "length (marked m1) = length cs"
    using visit_total [of m cs its v] by auto
  with Cons.IH [of m1] Cons.prems show ?case by simp
qed simp

lemma succ_values_item:
  "cell_ref v \<noteq> None \<or> shared_address v \<noteq> None \<Longrightarrow>
     succ_values cs its (item_of v) = succs cs its v"
  by (auto simp: item_of_def succs_def split: option.split)

lemma mark_step_total:
  assumes inv: "mark_inv cs its roots {item_of v} m" and nd: "no_dangling cs its roots"
    and v: "reach cs its roots v" "cell_ref v \<noteq> None \<or> shared_address v \<noteq> None"
  shows "mark_step cs its (item_of v) m \<noteq> None"
proof -
  have "target_ok cs its w" if "w \<in> set (succs cs its v)" for w
    using nd reach_step [OF v(1) that] by (simp add: no_dangling_def)
  then have tot: "visit_all (succs cs its v) m \<noteq> None"
    using inv by (intro visit_all_total [of _ cs _ its]) (auto simp: mark_inv_def)
  have ok: "target_ok cs its v" using nd v(1) by (simp add: no_dangling_def)
  show ?thesis
  proof (cases "cell_ref v")
    case (Some r)
    with ok tot show ?thesis
      by (simp add: item_of_def target_ok_def succs_def scan_cell_values)
  next
    case None
    with ok v(2) tot show ?thesis
      by (auto simp: item_of_def target_ok_def succs_def scan_shared_values)
  qed
qed

lemma mark_step_inv:
  assumes inv: "mark_inv cs its roots {} m" and p: "pending m = p # ps"
    and one: "one_node_per_address cs its roots" and nd: "no_dangling cs its roots"
  shows "\<exists>m'. mark_step cs its p (m\<lparr>pending := ps\<rparr>) = Some m' \<and>
    mark_inv cs its roots {} m' \<and> mark_mono m m'"
proof -
  let ?m0 = "m\<lparr>pending := ps\<rparr>"
  from inv p obtain v where v: "reach cs its roots v" "p = item_of v"
      "cell_ref v \<noteq> None \<or> shared_address v \<noteq> None"
    unfolding mark_inv_def by auto
  have n0: "noticed ?m0 w \<longleftrightarrow> noticed m w" for w
    by (simp add: noticed_def split: option.split)
  have inv0: "mark_inv cs its roots {p} ?m0"
    using inv p unfolding mark_inv_def n0 by simp
  obtain m' where m': "mark_step cs its p ?m0 = Some m'"
    using mark_step_total [OF _ nd v(1,3)] inv0 v(2) by blast
  have vs: "visit_all (succs cs its v) ?m0 = Some m'"
    using mark_step_values [OF m'] by (simp add: v(2) succ_values_item [OF v(3)])
  have all: "mark_inv cs its roots {p} m'" "mark_mono ?m0 m'" "\<forall>w \<in> set (succs cs its v). noticed m' w"
    using visit_all_inv [OF inv0 one reach_step [OF v(1)] vs] by auto
  have "mark_inv cs its roots {} m'"
  proof -
    have "noticed m' x"
      if w: "reach cs its roots w" "noticed m' w" "item_of w \<notin> set (pending m')"
        and x: "x \<in> set (succs cs its w)" for w x
    proof (cases "item_of w = p")
      case True
      then have "succs cs its w = succs cs its v"
        by (auto simp: v(2) item_of_def succs_def split: option.splits)
      with all(3) x show ?thesis by simp
    next
      case False
      with all(1) w x show ?thesis by (auto simp: mark_inv_def)
    qed
    with all(1) show ?thesis unfolding mark_inv_def by blast
  qed
  with m' all(2) show ?thesis by (auto simp: mark_mono_def n0)
qed

lemma mark_loop_correct:
  assumes "mark_inv cs its roots {} m" and "one_node_per_address cs its roots"
    and "no_dangling cs its roots"
  shows "\<exists>m'. mark_loop cs its m = Some m' \<and> mark_inv cs its roots {} m' \<and> pending m' = [] \<and>
    mark_mono m m'"
  using assms
proof (induction cs its m rule: mark_loop.induct)
  case (1 cs its m)
  show ?case
  proof (cases "pending m")
    case Nil
    with "1.prems"(1) show ?thesis
      by (auto simp: mark_loop.simps [of cs its m] mark_mono_def)
  next
    case (Cons p ps)
    from mark_step_inv [OF "1.prems"(1) Cons "1.prems"(2,3)] obtain m' where
      m': "mark_step cs its p (m\<lparr>pending := ps\<rparr>) = Some m'" "mark_inv cs its roots {} m'"
        "mark_mono m m'" by blast
    from "1.IH" [OF Cons m'(1,2) "1.prems"(2,3)] m' Cons show ?thesis
      by (auto simp: mark_loop.simps [of cs its m] intro: mark_mono_trans)
  qed
qed

lemma scalar_succs: "cell_ref v = None \<Longrightarrow> shared_address v = None \<Longrightarrow> succs cs its v = []"
  by (cases v) (auto simp: succs_def)

lemma mark_begin_inv: "mark_inv cs its roots {} (mark_begin (length cs))"
proof -
  have "succs cs its v = []" if "noticed (mark_begin (length cs)) v" for v
    using that scalar_succs [of v] by (auto simp: mark_begin_def noticed_def split: option.splits)
  then show ?thesis by (simp add: mark_inv_def mark_begin_def)
qed

lemma reach_noticed:
  assumes "mark_inv cs its roots {} m" and "pending m = []" and "\<forall>v \<in> set roots. noticed m v"
  shows "reach cs its roots v \<Longrightarrow> noticed m v"
  by (induction rule: reach.induct) (use assms in \<open>auto simp: mark_inv_def\<close>)

lemma mark_correct:
  assumes one: "one_node_per_address cs its roots" and nd: "no_dangling cs its roots"
  shows "\<exists>m0 m. visit_all roots (mark_begin (length cs)) = Some m0 \<and>
    mark_loop cs its m0 = Some m \<and> length (marked m) = length cs \<and>
    (\<forall>r < length cs. marked m ! r \<longleftrightarrow> live_slot cs its roots r)"
proof -
  let ?b = "mark_begin (length cs)"
  have "visit_all roots ?b \<noteq> None"
    by (rule visit_all_total [of _ cs _ its])
       (use nd in \<open>auto simp: mark_begin_def no_dangling_def intro: reach_root\<close>)
  then obtain m0 where m0: "visit_all roots ?b = Some m0" by blast
  note i0 = visit_all_inv [OF mark_begin_inv one reach_root m0]
  from mark_loop_correct [OF _ one nd] i0 obtain m where
    m: "mark_loop cs its m0 = Some m" "mark_inv cs its roots {} m" "pending m = []" "mark_mono m0 m"
    by blast
  have "noticed m v" if "reach cs its roots v" for v
    using reach_noticed [OF m(2,3) _ that] i0 m(4) by (auto simp: mark_mono_def)
  then have "live_slot cs its roots r \<Longrightarrow> marked m ! r" for r
    by (fastforce simp: live_slot_def noticed_def)
  with m0 m show ?thesis by (auto simp: mark_inv_def)
qed

section \<open>The effect of a collection\<close>

lemma sweep_cells:
  "length bs = length cs \<Longrightarrow>
     fst (sweep sz ix bs cs st) = map2 (\<lambda>b c. if b then c else CFree) bs cs"
  by (induction sz ix bs cs st rule: sweep.induct) (auto simp: Let_def case_prod_unfold)

lemma sweep_free:
  "length bs = length cs \<Longrightarrow>
     fst (snd (sweep sz ix bs cs (fr, live, n))) =
       rev (map ((+) ix) (filter (\<lambda>i. \<not> bs ! i \<and> cs ! i \<noteq> CFree) [0..<length cs])) @ fr"
proof (induction bs arbitrary: cs ix fr live n)
  case (Cons b bs)
  then obtain c cs' where cs: "cs = c # cs'" by (cases cs) auto
  have up: "[0..<length cs] = 0 # map Suc [0..<length cs']"
    by (simp add: cs map_Suc_upt upt_conv_Cons del: upt_Suc)
  show ?case
    unfolding up using Cons
    by (auto simp: cs Let_def case_prod_unfold filter_map comp_def rev_map)
qed simp

lemma sweep_live_bytes:
  "length bs = length cs \<Longrightarrow>
     fst (snd (snd (sweep sz ix bs cs (fr, live, n)))) =
       live + sum_list (map2 (\<lambda>b c. if b then cell_bytes sz c else 0) bs cs)"
proof (induction bs arbitrary: cs ix fr live n)
  case (Cons b bs)
  then obtain c cs' where "cs = c # cs'" by (cases cs) auto
  with Cons show ?case by (auto simp: Let_def case_prod_unfold)
qed simp

definition occupied :: "heap_cell list \<Rightarrow> nat" where
  "occupied cs = length (filter (\<lambda>c. c \<noteq> CFree) cs)"

lemma sweep_stat_live:
  "length bs = length cs \<Longrightarrow> n \<ge> occupied cs \<Longrightarrow>
     snd (snd (snd (sweep sz ix bs cs (fr, live, n)))) =
       n - (occupied cs - occupied (map2 (\<lambda>b c. if b then c else CFree) bs cs))"
proof (induction bs arbitrary: cs ix fr live n)
  case (Cons b bs)
  then obtain c cs' where cs: "cs = c # cs'" by (cases cs) auto
  have le: "occupied (map2 (\<lambda>b c. if b then c else CFree) bs cs') \<le> occupied cs'"
  proof -
    have "occupied (map2 (\<lambda>b c. if b then c else CFree) bs cs') \<le> occupied cs'"
      for cs' :: "heap_cell list"
    proof (induction bs arbitrary: cs')
      case (Cons b bs)
      then show ?case
        by (cases cs') (auto simp: occupied_def intro: le_SucI)
    qed (simp add: occupied_def)
    then show ?thesis .
  qed
  show ?case
    using Cons le by (auto simp: cs Let_def case_prod_unfold occupied_def)
qed (simp add: occupied_def)

definition retained :: "nat \<Rightarrow> heap_cell list \<Rightarrow> nat" where
  "retained sz cs = sum_list (map (cell_bytes sz) cs)"

text \<open>The heap's own invariant: the free list is exactly the holes, and both counters are
  exact.\<close>

definition heap_wf :: "heap \<Rightarrow> bool" where
  "heap_wf h \<longleftrightarrow>
     distinct (free h) \<and>
     set (free h) = {i. i < length (cells h) \<and> cells h ! i = CFree} \<and>
     stat_live h = occupied (cells h) \<and>
     live_bytes h = retained (cell_size h) (cells h)"

definition sweep_map :: "bool list \<Rightarrow> heap_cell list \<Rightarrow> heap_cell list" where
  "sweep_map bs cs = map2 (\<lambda>b c. if b then c else CFree) bs cs"

lemma cell_bytes_CFree [simp]: "cell_bytes sz CFree = 0"
  by (simp add: cell_bytes_def)

lemma length_sweep_map [len_simps]: "length bs = length cs \<Longrightarrow> length (sweep_map bs cs) = length cs"
  by (simp add: sweep_map_def)

lemma nth_sweep_map:
  "length bs = length cs \<Longrightarrow> i < length cs \<Longrightarrow>
     sweep_map bs cs ! i = (if bs ! i then cs ! i else CFree)"
  by (simp add: sweep_map_def)

lemma occupied_sweep_map: "length bs = length cs \<Longrightarrow> occupied (sweep_map bs cs) \<le> occupied cs"
proof (induction bs cs rule: list_induct2)
  case (Cons b bs c cs)
  then show ?case by (auto simp: sweep_map_def occupied_def)
qed (simp add: sweep_map_def occupied_def)

lemma retained_sweep_map:
  "length bs = length cs \<Longrightarrow>
     sum_list (map2 (\<lambda>b c. if b then cell_bytes sz c else 0) bs cs) = retained sz (sweep_map bs cs)"
  by (induction bs cs rule: list_induct2) (auto simp: sweep_map_def retained_def)

lemma collect_result:
  assumes wf: "heap_wf h" and one: "one_node_per_address (cells h) (iters h) roots"
    and nd: "no_dangling (cells h) (iters h) roots"
  shows "\<exists>bs h'. collect roots h = Some h' \<and> length bs = length (cells h) \<and>
    (\<forall>r < length (cells h). bs ! r \<longleftrightarrow> live_slot (cells h) (iters h) roots r) \<and>
    cells h' = sweep_map bs (cells h) \<and>
    free h' = rev (filter (\<lambda>i. \<not> bs ! i \<and> cells h ! i \<noteq> CFree) [0..<length (cells h)]) @ free h \<and>
    stat_live h' = occupied (cells h') \<and> live_bytes h' = retained (cell_size h) (cells h') \<and>
    iters h' = iters h \<and> cell_size h' = cell_size h \<and> floor_bytes h' = floor_bytes h \<and>
    threshold_bytes h' = max (live_bytes h' * growth_factor) (floor_bytes h) \<and>
    since_collection_bytes h' = 0 \<and> floor_bytes h \<le> mark_floor_bytes h' \<and>
    stat_allocations h' = stat_allocations h \<and> peak_bytes h' = peak_bytes h"
proof -
  from mark_correct [OF one nd] obtain m0 m where
    m: "visit_all roots (mark_begin (length (cells h))) = Some m0"
       "mark_loop (cells h) (iters h) m0 = Some m"
    and len: "length (marked m) = length (cells h)"
    and live: "\<forall>r < length (cells h). marked m ! r \<longleftrightarrow> live_slot (cells h) (iters h) roots r"
    by blast
  obtain cs fr lb n where
    sw: "sweep (cell_size h) 0 (marked m) (cells h) (free h, 0, stat_live h) = (cs, fr, lb, n)"
    by (metis prod_cases4)
  have cs: "cs = sweep_map (marked m) (cells h)"
    using sweep_cells [OF len, of "cell_size h" 0 "(free h, 0, stat_live h)"] sw
    by (simp add: sweep_map_def)
  have fr: "fr = rev (filter (\<lambda>i. \<not> marked m ! i \<and> cells h ! i \<noteq> CFree) [0..<length (cells h)]) @ free h"
    using sweep_free [OF len, of "cell_size h" 0 "free h" 0 "stat_live h"] sw
    by (simp add: map_idI)
  have lb: "lb = retained (cell_size h) cs"
    using sweep_live_bytes [OF len, of "cell_size h" 0 "free h" 0 "stat_live h"] sw
    by (simp add: retained_sweep_map [OF len] cs)
  have n: "n = occupied cs"
    using sweep_stat_live [OF len, of "stat_live h" "cell_size h" 0 "free h" 0] sw wf
      occupied_sweep_map [OF len] by (simp add: heap_wf_def cs sweep_map_def)
  show ?thesis
    using m sw len live cs fr lb n
    by (intro exI [of _ "marked m"]) (simp add: collect_def)
qed

lemma collect_wf:
  assumes wf: "heap_wf h" and one: "one_node_per_address (cells h) (iters h) roots"
    and nd: "no_dangling (cells h) (iters h) roots" and h': "collect roots h = Some h'"
  shows "heap_wf h'"
proof -
  from collect_result [OF wf one nd] h' obtain bs where
    len: "length bs = length (cells h)" and cs: "cells h' = sweep_map bs (cells h)"
    and fr: "free h' = rev (filter (\<lambda>i. \<not> bs ! i \<and> cells h ! i \<noteq> CFree) [0..<length (cells h)]) @ free h"
    and n: "stat_live h' = occupied (cells h')" "live_bytes h' = retained (cell_size h) (cells h')"
      "cell_size h' = cell_size h"
    by auto
  have d: "distinct (free h)" and s: "i \<in> set (free h) \<longleftrightarrow> i < length (cells h) \<and> cells h ! i = CFree" for i
    using wf by (simp_all add: heap_wf_def)
  have "distinct (free h')"
    using d by (auto simp: fr s)
  moreover have "set (free h') = {i. i < length (cells h') \<and> cells h' ! i = CFree}"
    unfolding fr cs by (rule set_eqI) (use len in \<open>auto simp: s len_simps nth_sweep_map\<close>)
  ultimately show ?thesis using n by (simp add: heap_wf_def)
qed

text \<open>A collection changes nothing a reachable value can see.\<close>

lemma reach_collect:
  assumes h': "cells h' = sweep_map bs (cells h)" "iters h' = iters h"
    and len: "length bs = length (cells h)"
    and live: "\<forall>r < length (cells h). bs ! r \<longleftrightarrow> live_slot (cells h) (iters h) roots r"
  shows "reach (cells h') (iters h') roots v \<longleftrightarrow> reach (cells h) (iters h) roots v"
proof -
  have same: "succs (cells h') (iters h') w = succs (cells h) (iters h) w"
    if "reach (cells h) (iters h) roots w" for w
    using that live len unfolding h'
    by (auto simp: succs_def len_simps nth_sweep_map live_slot_def split: option.split)
  show ?thesis
  proof
    assume "reach (cells h') (iters h') roots v"
    then show "reach (cells h) (iters h) roots v"
      by (induction rule: reach.induct) (auto simp: same intro: reach.intros)
  next
    assume "reach (cells h) (iters h) roots v"
    then show "reach (cells h') (iters h') roots v"
      by (induction rule: reach.induct) (auto simp: same [symmetric] intro: reach.intros)
  qed
qed

lemma collect_no_dangling:
  assumes wf: "heap_wf h" and one: "one_node_per_address (cells h) (iters h) roots"
    and nd: "no_dangling (cells h) (iters h) roots" and h': "collect roots h = Some h'"
  shows "no_dangling (cells h') (iters h') roots \<and> one_node_per_address (cells h') (iters h') roots"
proof -
  from collect_result [OF wf one nd] h' obtain bs where
    len: "length bs = length (cells h)"
    and live: "\<forall>r < length (cells h). bs ! r \<longleftrightarrow> live_slot (cells h) (iters h) roots r"
    and cs: "cells h' = sweep_map bs (cells h)" "iters h' = iters h"
    by auto
  note re = reach_collect [OF cs len live]
  have "target_ok (cells h') (iters h') v" if v: "reach (cells h) (iters h) roots v" for v
  proof -
    have ok: "target_ok (cells h) (iters h) v" using nd v by (simp add: no_dangling_def)
    show ?thesis
    proof (cases "cell_ref v")
      case (Some r)
      with ok v live len show ?thesis
        by (auto simp: target_ok_def cs len_simps nth_sweep_map live_slot_def)
    qed (use ok cs(2) in \<open>simp add: target_ok_def\<close>)
  qed
  with re one show ?thesis by (simp add: no_dangling_def one_node_per_address_def)
qed

section \<open>Allocation and mutation keep the invariant\<close>

lemma occupied_update:
  "i < length cs \<Longrightarrow> occupied (cs[i := c]) =
     occupied cs - (if cs ! i = CFree then 0 else 1) + (if c = CFree then 0 else 1)"
proof -
  assume i: "i < length cs"
  have "filter P (cs[i := c]) = filter P (take i cs) @ (if P c then [c] else []) @ filter P (drop (Suc i) cs)"
    and "filter P cs = filter P (take i cs) @ (if P (cs ! i) then [cs ! i] else []) @ filter P (drop (Suc i) cs)"
    for P
    using i by (simp add: upd_conv_take_nth_drop) (subst id_take_nth_drop [OF i], simp)
  then show ?thesis unfolding occupied_def by simp
qed

lemma retained_update:
  "i < length cs \<Longrightarrow>
     retained sz (cs[i := c]) + cell_bytes sz (cs ! i) = retained sz cs + cell_bytes sz c"
proof -
  assume i: "i < length cs"
  have "retained sz (cs[i := c]) =
      retained sz (take i cs) + cell_bytes sz c + retained sz (drop (Suc i) cs)"
    using i by (simp add: upd_conv_take_nth_drop retained_def)
  moreover have "retained sz cs =
      retained sz (take i cs) + cell_bytes sz (cs ! i) + retained sz (drop (Suc i) cs)"
    unfolding retained_def by (subst id_take_nth_drop [OF i], simp)
  ultimately show ?thesis by simp
qed

lemma charge_simps [simp]:
  "cells (charge b h) = cells h" "free (charge b h) = free h" "iters (charge b h) = iters h"
  "cell_size (charge b h) = cell_size h" "stat_live (charge b h) = stat_live h"
  "live_bytes (charge b h) = live_bytes h + b"
  by (simp_all add: charge_def Let_def)

lemma heap_new_wf: "heap_wf (heap_new sz budget)"
  by (simp add: heap_wf_def heap_new_def occupied_def retained_def)

lemma heap_wfD:
  assumes "heap_wf h"
  shows "distinct (free h)" "set (free h) = {i. i < length (cells h) \<and> cells h ! i = CFree}"
    "stat_live h = occupied (cells h)" "live_bytes h = retained (cell_size h) (cells h)"
  using assms by (simp_all add: heap_wf_def)

lemma heap_alloc_Nil:
  "free h = [] \<Longrightarrow> heap_alloc c h = Some (r, h') \<Longrightarrow>
     r = length (cells h) \<and> cells h' = cells h @ [c] \<and> free h' = [] \<and>
     stat_live h' = stat_live h + 1 \<and> cell_size h' = cell_size h \<and> iters h' = iters h \<and>
     live_bytes h' = live_bytes h + cell_bytes (cell_size h) c"
  by (auto simp add: heap_alloc_def Let_def charge_def split: if_split_asm)

lemma heap_alloc_Cons:
  "free h = ix # rest \<Longrightarrow> heap_alloc c h = Some (r, h') \<Longrightarrow>
     r = ix \<and> ix < length (cells h) \<and> cells h' = (cells h)[ix := c] \<and> free h' = rest \<and>
     stat_live h' = stat_live h + 1 \<and> cell_size h' = cell_size h \<and> iters h' = iters h \<and>
     live_bytes h' = live_bytes h + cell_bytes (cell_size h) c"
  by (auto simp add: heap_alloc_def Let_def charge_def split: if_split_asm)

lemma occupied_append [simp]:
  "occupied (cs @ [c]) = occupied cs + (if c = CFree then 0 else 1)"
  by (simp add: occupied_def)

lemma retained_append [simp]: "retained sz (cs @ [c]) = retained sz cs + cell_bytes sz c"
  by (simp add: retained_def)

lemma occupied_le: "occupied cs \<le> length cs"
  by (simp add: occupied_def)

lemma occupied_full: "(\<And>i. i < length cs \<Longrightarrow> cs ! i \<noteq> CFree) \<Longrightarrow> occupied cs = length cs"
  unfolding occupied_def by (subst filter_True) (auto simp: in_set_conv_nth)

lemma occupied_hole: "i < length cs \<Longrightarrow> cs ! i = CFree \<Longrightarrow> occupied cs < length cs"
  unfolding occupied_def by (rule length_filter_less [of "cs ! i"]) (auto simp: in_set_conv_nth)

lemma heap_alloc_spec:
  assumes wf: "heap_wf h" and c: "c \<noteq> CFree" and r: "heap_alloc c h = Some (r, h')"
  shows "heap_wf h' \<and> cells h' = (if r < length (cells h) then (cells h)[r := c] else cells h @ [c]) \<and>
    r < length (cells h') \<and> r \<le> length (cells h) \<and> iters h' = iters h \<and>
    (cell_at h r = None \<or> cell_at h r = Some CFree) \<and>
    length (cells h') = max (length (cells h)) (stat_live h') \<and> stat_live h' = stat_live h + 1"
proof (cases "free h")
  case Nil
  note h' = heap_alloc_Nil [OF Nil r] and w = heap_wfD [OF wf]
  have none: "cells h ! i \<noteq> CFree" if "i < length (cells h)" for i
    using w(2) Nil that by auto
  have "{i. i < length (cells h @ [c]) \<and> (cells h @ [c]) ! i = CFree} = {}"
    using none c by (auto simp: nth_append less_Suc_eq)
  then have "heap_wf h'"
    using h' w c by (simp add: heap_wf_def)
  then show ?thesis
    using h' w occupied_full [of "cells h"] none by (simp add: cell_at_def)
next
  case (Cons ix rest)
  note w = heap_wfD [OF wf]
  obtain h': "r = ix" "ix < length (cells h)" "cells h' = (cells h)[ix := c]" "free h' = rest"
    "stat_live h' = stat_live h + 1" "cell_size h' = cell_size h" "iters h' = iters h"
    "live_bytes h' = live_bytes h + cell_bytes (cell_size h) c"
    using heap_alloc_Cons [OF Cons r] by blast
  have ix: "ix < length (cells h)" "cells h ! ix = CFree"
    using w(2) Cons by auto
  have d: "distinct rest" using w(1) Cons by simp
  have "set rest = set (free h) - {ix}"
    using w(1) Cons by auto
  also have "set (free h) - {ix} = {i. i < length (cells h) \<and> (cells h)[ix := c] ! i = CFree}"
    unfolding w(2) using c ix(1) by (auto simp: nth_list_update)
  finally have fr: "set rest = {i. i < length (cells h') \<and> cells h' ! i = CFree}"
    using h'(3) by simp
  have oc: "occupied (cells h') = stat_live h'"
    using occupied_update [OF ix(1), of c] ix(2) c h'(3,5) w(3) by simp
  have re: "retained (cell_size h') (cells h') = live_bytes h'"
    using retained_update [OF ix(1), of "cell_size h" c] ix(2) h'(3,6,8) w(4) by simp
  have "heap_wf h'"
    unfolding heap_wf_def h'(4) by (intro conjI d fr oc [symmetric] re [symmetric])
  then show ?thesis
    using h'(1,3,5,7) w(3) occupied_hole [OF ix] ix by (simp add: cell_at_def)
qed

lemma heap_alloc_total:
  "heap_wf h \<Longrightarrow> length (cells h) < 2 ^ 32 \<Longrightarrow> heap_alloc c h \<noteq> None"
  using heap_wfD(2) [of h]
  by (cases "free h") (auto simp add: heap_alloc_def Let_def charge_def set_eq_iff)

end
