(* ===== verification/Retention_Path.thy ===== *)
theory Retention_Path
  imports Gc_Heap
begin

text \<open>
  The debugger's answer to ``why is this object still here''
  (\<open>Heap::retention_path\<close>, \<open>Heap::cells_of\<close> in \<open>brasa_vm/src/heap.rs\<close>): a breadth-first walk
  over the arena. The \<open>HashMap\<close> of predecessors is an association list, newest entry first;
  the \<open>VecDeque\<close> is a list. The outer \<open>None\<close> is the panic of an index out of bounds.
\<close>

fun cells_of :: "val \<Rightarrow> gc_ref list" where
  "cells_of (VVector r) = [r]"
| "cells_of (VMap r) = [r]"
| "cells_of (VSet r) = [r]"
| "cells_of (VStruct r) = [r]"
| "cells_of (VBinding r) = [r]"
| "cells_of (VConcurrentScope r) = [r]"
| "cells_of (VTask r) = [r]"
| "cells_of (VTuple a vs) = concat (map cells_of vs)"
| "cells_of (VSome a v) = cells_of v"
| "cells_of (VEnum a shp variant fs) = concat (map cells_of fs)"
| "cells_of _ = []"

type_synonym previous = "(gc_ref \<times> gc_ref option) list"

fun enqueue :: "gc_ref option \<Rightarrow> gc_ref list \<Rightarrow> previous \<times> gc_ref list \<Rightarrow> previous \<times> gc_ref list" where
  "enqueue from [] (prev, queue) = (prev, queue)"
| "enqueue from (c # cs) (prev, queue) =
     (if map_of prev c = None then enqueue from cs ((c, from) # prev, queue @ [c])
      else enqueue from cs (prev, queue))"

definition enqueue_all :: "gc_ref option \<Rightarrow> val list \<Rightarrow> previous \<times> gc_ref list \<Rightarrow> previous \<times> gc_ref list" where
  "enqueue_all from vs st = enqueue from (concat (map cells_of vs)) st"

text \<open>The inner loop follows the predecessors back to a root; building the list from the front
  is the pushing and the final \<open>reverse\<close>.\<close>

partial_function (option) follow_back :: "previous \<Rightarrow> gc_ref \<Rightarrow> gc_ref list \<Rightarrow> gc_ref list option" where
  "follow_back prev at path =
     (case map_of prev at of
        Some (Some parent) \<Rightarrow> follow_back prev parent (parent # path)
      | _ \<Rightarrow> Some path)"

declare follow_back.simps [code]

text \<open>Every cell is enqueued once, so the walk ends: each round either records a new cell of the
  arena or shortens the part of the queue that lies in the arena.\<close>

definition unseen :: "heap_cell list \<Rightarrow> previous \<Rightarrow> gc_ref set" where
  "unseen cs prev = {r. r < length cs \<and> map_of prev r = None}"

lemma finite_unseen [simp]: "finite (unseen cs prev)"
  by (simp add: unseen_def)

lemma enqueue_spec:
  "enqueue from xs (prev, queue) = (prev', queue') \<Longrightarrow>
     \<exists>new. prev' = map (\<lambda>c. (c, from)) (rev new) @ prev \<and> queue' = queue @ new \<and> distinct new \<and>
       set new = {c \<in> set xs. map_of prev c = None}"
proof (induction "from" xs "(prev, queue)" arbitrary: prev queue rule: enqueue.induct)
  case (2 "from" c cs prev queue)
  show ?case
  proof (cases "map_of prev c")
    case None
    with "2.prems" "2.hyps"(1) obtain new where
      "prev' = map (\<lambda>c. (c, from)) (rev new) @ (c, from) # prev" "queue' = (queue @ [c]) @ new"
      "distinct new" "set new = {d \<in> set cs. map_of ((c, from) # prev) d = None}"
      by auto
    with None show ?thesis by (intro exI [of _ "c # new"]) auto
  next
    case (Some p)
    with "2.prems" "2.hyps"(2) obtain new where
      "prev' = map (\<lambda>c. (c, from)) (rev new) @ prev" "queue' = queue @ new"
      "distinct new" "set new = {d \<in> set cs. map_of prev d = None}"
      by auto
    with Some show ?thesis by (intro exI [of _ new]) auto
  qed
qed simp

lemma map_of_new:
  "map_of (map (\<lambda>c. (c, from)) xs @ prev) c = (if c \<in> set xs then Some from else map_of prev c)"
  by (induction xs) auto

lemma map_of_const [simp]:
  "map_of (map (\<lambda>c. (c, from)) xs) c = (if c \<in> set xs then Some from else None)"
  by (induction xs) auto

function walk_cells :: "heap_cell list \<Rightarrow> gc_ref \<Rightarrow> previous \<Rightarrow> gc_ref list \<Rightarrow> gc_ref list option option" where
  "walk_cells cs target prev [] = Some None"
| "walk_cells cs target prev (c # queue) =
     (if c = target then map_option Some (follow_back prev c [c])
      else if c < length cs then
        (let (prev', queue') = enqueue_all (Some c) (values_of (cs ! c)) (prev, queue)
         in walk_cells cs target prev' queue')
      else None)"
  by pat_completeness auto
termination
proof (relation "measures [\<lambda>(cs, target, prev, queue). card (unseen cs prev),
    \<lambda>(cs, target, prev, queue). length (filter (\<lambda>c. c < length cs) queue)]", goal_cases)
  case (2 cs target prev c queue st prev' queue')
  from 2(3,4) obtain new where
    new: "prev' = map (\<lambda>d. (d, Some c)) (rev new) @ prev" "queue' = queue @ new"
    using enqueue_spec [of "Some c" _ prev queue] unfolding enqueue_all_def by (metis old.prod.exhaust)
  have le: "unseen cs prev' \<subseteq> unseen cs prev"
    by (auto simp: unseen_def new(1) map_of_new split: if_splits)
  show ?case
  proof (cases "unseen cs prev' = unseen cs prev")
    case True
    have "\<not> d < length cs" if "d \<in> set new" for d
    proof
      assume "d < length cs"
      moreover have "map_of prev d = None"
        using that enqueue_spec [of "Some c" _ prev queue] 2(3,4) new unfolding enqueue_all_def
        by (metis (mono_tags, lifting) mem_Collect_eq old.prod.exhaust same_append_eq)
      ultimately have "d \<in> unseen cs prev" "d \<notin> unseen cs prev'"
        using that by (auto simp: unseen_def new(1) map_of_new)
      with True show False by blast
    qed
    then have "filter (\<lambda>c. c < length cs) new = []" by (simp add: filter_empty_conv)
    then show ?thesis using True 2(2) new(2) by simp
  next
    case False
    with le have "card (unseen cs prev') < card (unseen cs prev)" by (simp add: psubset_card_mono psubsetI)
    then show ?thesis by simp
  qed
qed simp

definition retention_path :: "val list \<Rightarrow> gc_ref \<Rightarrow> heap \<Rightarrow> gc_ref list option option" where
  "retention_path roots target h =
     (let (prev, queue) = enqueue_all None roots ([], [])
      in walk_cells (cells h) target prev queue)"

section \<open>Chains of arena cells\<close>

definition holds :: "heap_cell list \<Rightarrow> gc_ref \<Rightarrow> gc_ref \<Rightarrow> bool" where
  "holds cs c d \<longleftrightarrow> c < length cs \<and> (\<exists>v \<in> set (values_of (cs ! c)). d \<in> set (cells_of v))"

definition root_cells :: "val list \<Rightarrow> gc_ref set" where
  "root_cells roots = (\<Union>v \<in> set roots. set (cells_of v))"

inductive chain :: "heap_cell list \<Rightarrow> val list \<Rightarrow> gc_ref list \<Rightarrow> gc_ref \<Rightarrow> bool" for cs roots where
  chain_root: "c \<in> root_cells roots \<Longrightarrow> chain cs roots [c] c"
| chain_step: "chain cs roots path c \<Longrightarrow> holds cs c d \<Longrightarrow> chain cs roots (path @ [d]) d"

fun tree_ok :: "heap_cell list \<Rightarrow> val list \<Rightarrow> previous \<Rightarrow> bool" where
  "tree_ok cs roots [] \<longleftrightarrow> True"
| "tree_ok cs roots ((c, from) # prev) \<longleftrightarrow>
     map_of prev c = None \<and>
     (case from of None \<Rightarrow> c \<in> root_cells roots
      | Some p \<Rightarrow> map_of prev p \<noteq> None \<and> holds cs p c) \<and>
     tree_ok cs roots prev"

fun depth :: "previous \<Rightarrow> gc_ref \<Rightarrow> nat" where
  "depth [] x = 0"
| "depth ((c, from) # prev) x =
     (if x = c then (case from of None \<Rightarrow> 1 | Some p \<Rightarrow> Suc (depth prev p)) else depth prev x)"

lemma follow_back_chain:
  "tree_ok cs roots prev \<Longrightarrow> map_of prev x \<noteq> None \<Longrightarrow>
     \<exists>p. chain cs roots (p @ [x]) x \<and> Suc (length p) = depth prev x \<and>
       (\<forall>full acc. (\<forall>y. map_of prev y \<noteq> None \<longrightarrow> map_of full y = map_of prev y) \<longrightarrow>
          follow_back full x acc = Some (p @ acc))"
proof (induction prev arbitrary: x)
  case (Cons e prev)
  obtain c "from" where e: "e = (c, from)" by (cases e)
  have dom: "map_of prev y \<noteq> None \<Longrightarrow> y \<noteq> c" for y
    using Cons.prems(1) by (auto simp: e)
  show ?case
  proof (cases "x = c")
    case False
    with Cons.prems have "tree_ok cs roots prev" "map_of prev x \<noteq> None" by (auto simp: e)
    from Cons.IH [OF this] obtain p where
      p: "chain cs roots (p @ [x]) x" "Suc (length p) = depth prev x"
      "\<And>full acc. (\<forall>y. map_of prev y \<noteq> None \<longrightarrow> map_of full y = map_of prev y) \<Longrightarrow>
          follow_back full x acc = Some (p @ acc)" by blast
    show ?thesis using p(1,2) False dom by (intro exI [of _ p]) (auto simp: e intro!: p(3))
  next
    case True
    show ?thesis
    proof (cases "from")
      case None
      with Cons.prems True have "c \<in> root_cells roots" by (simp add: e)
      then show ?thesis
        using None True by (auto simp: e chain_root follow_back.simps)
    next
      case (Some q)
      with Cons.prems have q: "tree_ok cs roots prev" "map_of prev q \<noteq> None" "holds cs q c"
        by (auto simp: e)
      from Cons.IH [OF q(1,2)] obtain p where
        p: "chain cs roots (p @ [q]) q" "Suc (length p) = depth prev q"
        "\<And>full acc. (\<forall>y. map_of prev y \<noteq> None \<longrightarrow> map_of full y = map_of prev y) \<Longrightarrow>
            follow_back full q acc = Some (p @ acc)" by blast
      have "follow_back full c acc = Some ((p @ [q]) @ acc)"
        if "\<forall>y. map_of (e # prev) y \<noteq> None \<longrightarrow> map_of full y = map_of (e # prev) y" for full acc
      proof -
        have "map_of full c = Some (Some q)" using that Some by (auto simp: e)
        moreover have "\<forall>y. map_of prev y \<noteq> None \<longrightarrow> map_of full y = map_of prev y"
          using that dom by (auto simp: e)
        ultimately show ?thesis
          using p(3) [of full "q # acc"] by (simp add: follow_back.simps [of full c])
      qed
      with chain_step [OF p(1) q(3)] p(2) Some True show ?thesis
        by (intro exI [of _ "p @ [q]"]) (auto simp: e)
    qed
  qed
qed simp

lemma depth_new:
  "set new \<inter> {c. map_of prev c \<noteq> None} = {} \<Longrightarrow> map_of prev x \<noteq> None \<Longrightarrow>
     depth (map (\<lambda>c. (c, from)) new @ prev) x = depth prev x"
  by (induction new) auto

lemma depth_fresh:
  "set new \<inter> {c. map_of prev c \<noteq> None} = {} \<Longrightarrow> x \<in> set new \<Longrightarrow>
     (case from of None \<Rightarrow> True | Some p \<Rightarrow> map_of prev p \<noteq> None) \<Longrightarrow>
     depth (map (\<lambda>c. (c, from)) new @ prev) x = (case from of None \<Rightarrow> 1 | Some p \<Rightarrow> Suc (depth prev p))"
  by (induction new) (auto simp: depth_new split: option.splits)

lemma tree_new:
  "tree_ok cs roots prev \<Longrightarrow> distinct new \<Longrightarrow> set new \<inter> {c. map_of prev c \<noteq> None} = {} \<Longrightarrow>
     (\<And>c. c \<in> set new \<Longrightarrow>
        (case from of None \<Rightarrow> c \<in> root_cells roots | Some p \<Rightarrow> map_of prev p \<noteq> None \<and> holds cs p c)) \<Longrightarrow>
     tree_ok cs roots (map (\<lambda>c. (c, from)) new @ prev)"
proof (induction new)
  case (Cons c new)
  then have "tree_ok cs roots (map (\<lambda>c. (c, from)) new @ prev)" by auto
  with Cons.prems(2,3) Cons.prems(4) [of c, simplified] show ?case
    by (auto simp: map_of_new split: option.splits if_splits)
qed simp

section \<open>The breadth-first invariant\<close>

definition bfs_inv :: "heap_cell list \<Rightarrow> val list \<Rightarrow> gc_ref \<Rightarrow> previous \<Rightarrow> gc_ref list \<Rightarrow> bool" where
  "bfs_inv cs roots target prev queue \<longleftrightarrow>
     tree_ok cs roots prev \<and> distinct queue \<and>
     (\<forall>c \<in> root_cells roots. map_of prev c \<noteq> None \<and> depth prev c = 1) \<and>
     (\<forall>c \<in> set queue. map_of prev c \<noteq> None) \<and>
     (\<forall>c. map_of prev c \<noteq> None \<and> c \<notin> set queue \<longrightarrow>
        c \<noteq> target \<and>
        (\<forall>d. holds cs c d \<longrightarrow> map_of prev d \<noteq> None \<and> depth prev d \<le> Suc (depth prev c)) \<and>
        (\<forall>q \<in> set queue. depth prev c \<le> depth prev q)) \<and>
     sorted (map (depth prev) queue) \<and>
     (\<forall>p \<in> set queue. \<forall>q \<in> set queue. depth prev q \<le> Suc (depth prev p))"

lemma bfs_reach:
  assumes inv: "bfs_inv cs roots target prev queue"
  shows "chain cs roots path x \<Longrightarrow>
    (map_of prev x \<noteq> None \<and> depth prev x \<le> length path) \<or> (\<exists>q \<in> set queue. depth prev q \<le> length path)"
proof (induction rule: chain.induct)
  case (chain_root c)
  then show ?case using inv by (auto simp: bfs_inv_def)
next
  case (chain_step path c d)
  show ?case
  proof (cases "\<exists>q \<in> set queue. depth prev q \<le> length path")
    case True
    then show ?thesis by force
  next
    case False
    with chain_step.IH have c: "map_of prev c \<noteq> None" "depth prev c \<le> length path" "c \<notin> set queue"
      by auto
    with inv chain_step.hyps(2) have "map_of prev d \<noteq> None" "depth prev d \<le> Suc (depth prev c)"
      unfolding bfs_inv_def by blast+
    with c(2) show ?thesis by simp
  qed
qed

lemma bfs_start:
  assumes "enqueue_all None roots ([], []) = (prev, queue)"
  shows "bfs_inv cs roots target prev queue"
proof -
  from enqueue_spec [OF assms [unfolded enqueue_all_def]] obtain new where
    new: "prev = map (\<lambda>c. (c, None)) (rev new) @ []" "queue = new" "distinct new"
      "set new = root_cells roots"
    by (auto simp: root_cells_def)
  have dom: "map_of prev c \<noteq> None \<longleftrightarrow> c \<in> set new" for c
    unfolding new(1) map_of_new by simp
  have d: "depth prev c = 1" if "c \<in> set new" for c
    unfolding new(1) using that by (subst depth_fresh) auto
  have "tree_ok cs roots prev"
    unfolding new(1) by (rule tree_new) (auto simp: new(3,4))
  moreover have "sorted (map (depth prev) queue)"
    using d by (simp add: new(2) sorted_iff_nth_mono)
  ultimately show ?thesis
    unfolding bfs_inv_def dom using d new(2-4) by auto
qed

lemma bfs_step:
  assumes inv: "bfs_inv cs roots target prev (c # queue)" and c: "c \<noteq> target" "c < length cs"
    and st: "enqueue_all (Some c) (values_of (cs ! c)) (prev, queue) = (prev', queue')"
  shows "bfs_inv cs roots target prev' queue'"
proof -
  from enqueue_spec [OF st [unfolded enqueue_all_def]] obtain new where
    new: "prev' = map (\<lambda>d. (d, Some c)) (rev new) @ prev" "queue' = queue @ new" "distinct new"
    and set: "\<And>d. d \<in> set new \<longleftrightarrow> holds cs c d \<and> map_of prev d = None"
    using c(2) by (auto simp: holds_def)
  have disj: "set (rev new) \<inter> {d. map_of prev d \<noteq> None} = {}" using set by auto
  have tree: "tree_ok cs roots prev" and cdom: "map_of prev c \<noteq> None"
    and qdom: "\<And>q. q \<in> set queue \<Longrightarrow> map_of prev q \<noteq> None" and cq: "c \<notin> set queue"
    and dq: "distinct queue"
    using inv by (auto simp: bfs_inv_def)
  have fin: "\<And>e. map_of prev e \<noteq> None \<Longrightarrow> e \<noteq> c \<Longrightarrow> e \<notin> set queue \<Longrightarrow> e \<noteq> target \<and>
      (\<forall>d. holds cs e d \<longrightarrow> map_of prev d \<noteq> None \<and> depth prev d \<le> Suc (depth prev e)) \<and>
      (\<forall>q \<in> set (c # queue). depth prev e \<le> depth prev q)"
    using inv unfolding bfs_inv_def by simp
  have srt: "sorted (map (depth prev) queue)" and cmin: "\<And>q. q \<in> set queue \<Longrightarrow> depth prev c \<le> depth prev q"
    and near: "\<And>q. q \<in> set queue \<Longrightarrow> depth prev q \<le> Suc (depth prev c)"
    using inv by (auto simp: bfs_inv_def)
  have dom: "map_of prev' d \<noteq> None \<longleftrightarrow> d \<in> set new \<or> map_of prev d \<noteq> None" for d
    by (simp add: new(1) map_of_new)
  have old: "map_of prev d \<noteq> None \<Longrightarrow> depth prev' d = depth prev d" for d
    unfolding new(1) by (rule depth_new [OF disj])
  have fresh: "d \<in> set new \<Longrightarrow> depth prev' d = Suc (depth prev c)" for d
    unfolding new(1) using depth_fresh [OF disj, of d "Some c"] cdom by simp
  have T: "tree_ok cs roots prev'"
    unfolding new(1) by (rule tree_new [OF tree]) (use new(3) disj set cdom in auto)
  have "set queue \<inter> set new = {}" using qdom set by (metis disjoint_iff)
  then have D: "distinct queue'" using dq new(2,3) by simp
  have R: "\<forall>e \<in> root_cells roots. map_of prev' e \<noteq> None \<and> depth prev' e = 1"
    using inv dom old unfolding bfs_inv_def by metis
  have Q: "\<forall>e \<in> set queue'. map_of prev' e \<noteq> None"
    using dom qdom new(2) by auto
  have S: "sorted (map (depth prev') queue')"
  proof -
    have "map (depth prev') queue = map (depth prev) queue" using old qdom by simp
    moreover have "map (depth prev') new = map (\<lambda>_. Suc (depth prev c)) new" using fresh by simp
    moreover have "sorted (map (\<lambda>_. Suc (depth prev c)) new)" by (simp add: sorted_iff_nth_mono)
    ultimately show ?thesis
      unfolding new(2) map_append using srt near fresh by (auto simp only: sorted_append set_map)
  qed
  have range: "e \<in> set queue' \<Longrightarrow> depth prev c \<le> depth prev' e \<and> depth prev' e \<le> Suc (depth prev c)" for e
    using old [OF qdom] fresh cmin near new(2) by fastforce
  have N: "\<forall>p \<in> set queue'. \<forall>q \<in> set queue'. depth prev' q \<le> Suc (depth prev' p)"
    using range by (meson le_trans Suc_le_mono)
  have P: "e \<noteq> target \<and>
        (\<forall>d. holds cs e d \<longrightarrow> map_of prev' d \<noteq> None \<and> depth prev' d \<le> Suc (depth prev' e)) \<and>
        (\<forall>q \<in> set queue'. depth prev' e \<le> depth prev' q)"
    if e: "map_of prev' e \<noteq> None" "e \<notin> set queue'" for e
  proof (cases "e = c")
    case True
    have "map_of prev' d \<noteq> None \<and> depth prev' d \<le> Suc (depth prev' c)" if "holds cs c d" for d
    proof (cases "map_of prev d")
      case None
      with that set have "d \<in> set new" by simp
      then show ?thesis using dom fresh old [OF cdom] by simp
    next
      case (Some y)
      then have dd: "map_of prev d \<noteq> None" by simp
      have "depth prev d \<le> Suc (depth prev c)"
      proof (cases "d = c \<or> d \<in> set queue")
        case True
        then show ?thesis using near by auto
      next
        case False
        then have "depth prev d \<le> depth prev c" using fin [OF dd] by simp
        then show ?thesis by simp
      qed
      then show ?thesis using dom old [OF cdom] old [OF dd] dd by simp
    qed
    then show ?thesis using True c(1) range old [OF cdom] by simp
  next
    case False
    then have ed: "map_of prev e \<noteq> None" "e \<notin> set queue" using e dom new(2) by auto
    note dn = fin [OF ed(1) False ed(2)]
    then have "depth prev e \<le> depth prev c" by simp
    then have "\<forall>q \<in> set queue'. depth prev' e \<le> depth prev' q"
      using range old [OF ed(1)] by (metis le_trans)
    with dn old ed(1) dom show ?thesis by simp
  qed
  show ?thesis
    unfolding bfs_inv_def using T D R Q P S N by blast
qed

lemma walk_cells_correct:
  "bfs_inv cs roots target prev queue \<Longrightarrow>
     (case walk_cells cs target prev queue of
        None \<Rightarrow> \<exists>path c. chain cs roots path c \<and> length cs \<le> c
      | Some None \<Rightarrow> \<not> (\<exists>path. chain cs roots path target)
      | Some (Some path) \<Rightarrow> chain cs roots path target \<and>
          (\<forall>path'. chain cs roots path' target \<longrightarrow> length path \<le> length path'))"
proof (induction cs target prev queue rule: walk_cells.induct)
  case (1 cs target prev)
  have "\<not> chain cs roots path target" for path
    using bfs_reach [OF 1, of path target] 1 by (auto simp: bfs_inv_def)
  then show ?case by simp
next
  case (2 cs target prev c queue)
  note inv = "2.prems"
  have tree: "tree_ok cs roots prev" and dom: "map_of prev c \<noteq> None"
    using inv by (auto simp: bfs_inv_def)
  from follow_back_chain [OF tree dom] obtain p where
    p: "chain cs roots (p @ [c]) c" "Suc (length p) = depth prev c"
      "follow_back prev c [c] = Some (p @ [c])" by auto
  consider (found) "c = target" | (scan) "c \<noteq> target" "c < length cs" | (crash) "c \<noteq> target" "\<not> c < length cs"
    by blast
  then show ?case
  proof cases
    case found
    have "length (p @ [c]) \<le> length path'" if "chain cs roots path' c" for path'
    proof -
      have "\<forall>q \<in> set (c # queue). depth prev c \<le> depth prev q"
        using inv by (auto simp: bfs_inv_def)
      then show ?thesis using bfs_reach [OF inv that] p(2) by force
    qed
    then show ?thesis using found p by simp
  next
    case scan
    obtain prev' queue' where
      st: "enqueue_all (Some c) (values_of (cs ! c)) (prev, queue) = (prev', queue')"
      by fastforce
    from "2.IH" [OF scan refl st [symmetric] bfs_step [OF inv scan st]] show ?thesis
      using scan st by simp
  next
    case crash
    then have "length cs \<le> c" by simp
    with p(1) crash show ?thesis by auto
  qed
qed

section \<open>The properties of the walk\<close>


definition chain_heap :: heap where
  "chain_heap = (heap_new 48 0)\<lparr>cells := [CVector [VVector 1, VVector 2], CVector [VVector 3],
     CBinding (VTuple 9 [VVector 3]), CVector [VVector 0]]\<rparr>"

lemma chain_heap_bound:
  "chain (cells chain_heap) [VVector 0] path c \<Longrightarrow> c < length (cells chain_heap)"
proof -
  have h: "holds (cells chain_heap) c d \<Longrightarrow> d < 4" for c d
    by (auto simp: holds_def chain_heap_def less_Suc_eq numeral_eq_Suc)
  have "chain (cells chain_heap) [VVector 0] path c \<Longrightarrow> c < 4"
    by (induction rule: chain.induct) (use h in \<open>auto simp: root_cells_def\<close>)
  then show "chain (cells chain_heap) [VVector 0] path c \<Longrightarrow> c < length (cells chain_heap)"
    by (simp add: chain_heap_def)
qed

lemma chain_heap_three: "chain (cells chain_heap) [VVector 0] ([0, 1] @ [3]) 3"
proof -
  have "chain (cells chain_heap) [VVector 0] [0] 0" by (rule chain_root) (simp add: root_cells_def)
  from chain_step [OF this, of 1] have "chain (cells chain_heap) [VVector 0] [0, 1] 1"
    by (simp add: holds_def chain_heap_def)
  then show ?thesis by (rule chain_step) (simp add: holds_def chain_heap_def)
qed


text \<open>C29: The walk answers \<open>None\<close> (nothing retains the object) for a cell that the next
  collection keeps: a closure's captures are traced by the collector but not followed by
  \<open>cells_of\<close>.\<close>

theorem retention_path_misses_captures:
  assumes "heap_wf h" and "one_node_per_address (cells h) (iters h) [VClosure a f [VVector r]]"
    and "no_dangling (cells h) (iters h) [VClosure a f [VVector r]]"
  shows "retention_path [VClosure a f [VVector r]] r h = Some None \<and>
    (\<exists>h' c. collect [VClosure a f [VVector r]] h = Some h' \<and> c \<noteq> CFree \<and>
       cell_at h r = Some c \<and> cell_at h' r = Some c)"
proof -
  let ?roots = "[VClosure a f [VVector r]]"
  from collect_result [OF assms] obtain bs h' where h': "collect ?roots h = Some h'"
    and len: "length bs = length (cells h)"
    and live: "\<forall>r < length (cells h). bs ! r \<longleftrightarrow> live_slot (cells h) (iters h) ?roots r"
    and cs: "cells h' = sweep_map bs (cells h)"
    by blast
  have "reach (cells h) (iters h) ?roots (VClosure a f [VVector r])" by (rule reach_root) simp
  then have re: "reach (cells h) (iters h) ?roots (VVector r)" by (rule reach_step) (simp add: succs_def)
  then have "r < length (cells h)" "cells h ! r \<noteq> CFree"
    using assms(3) by (auto simp: no_dangling_def target_ok_def)
  moreover have "live_slot (cells h) (iters h) ?roots r"
    unfolding live_slot_def using re by (intro exI [of _ "VVector r"]) simp
  ultimately have "cell_at h' r = cell_at h r"
    using live len by (simp add: cell_at_def cs len_simps nth_sweep_map)
  then show ?thesis
    using h' \<open>r < length (cells h)\<close> \<open>cells h ! r \<noteq> CFree\<close>
    by (auto simp: retention_path_def enqueue_all_def cell_at_def)
qed

lemma retention_path_misses_captures_witness:
  "\<exists>h h'. retention_path [VClosure 5 0 [VVector 0]] 0 h = Some None \<and>
     collect [VClosure 5 0 [VVector 0]] h = Some h' \<and> cell_at h' 0 = Some (CVector [])"
proof -
  obtain h where h: "heap_alloc (CVector []) (heap_new 48 0) = Some (0, h)" "cells h = [CVector []]"
    by (simp add: heap_alloc_def heap_new_def Let_def charge_def)
  let ?roots = "[VClosure 5 0 [VVector 0]]"
  have wf: "heap_wf h"
    using heap_alloc_spec [OF heap_new_wf _ h(1)] by blast
  have re: "reach (cells h) (iters h) ?roots v \<Longrightarrow> v = VClosure 5 0 [VVector 0] \<or> v = VVector 0" for v
    by (induction rule: reach.induct) (auto simp: succs_def h(2))
  have one: "one_node_per_address (cells h) (iters h) ?roots"
    unfolding one_node_per_address_def by (auto dest!: re)
  have nd: "no_dangling (cells h) (iters h) ?roots"
    unfolding no_dangling_def using h(2) by (auto dest!: re [unfolded h(2)] simp: target_ok_def)
  have "cell_at h 0 = Some (CVector [])" by (simp add: h(2) cell_at_def)
  with retention_path_misses_captures [OF wf one nd] show ?thesis
    by (metis option.inject)
qed

end
