(* ===== verification/Heap_Contract.thy ===== *)
theory Heap_Contract
  imports Gc_Heap
begin

text \<open>
  What the heap promises the machine (\<open>brasa_vm/src/heap.rs\<close>): a collection keeps exactly
  the reachable cells and their contents, the byte accounting is exact across allocation,
  mutation and collection, an allocation never lands on an occupied slot, and the size
  of the arena is the high-water mark of simultaneously live objects. Also the census of
  the arena and the string interner.
\<close>

section \<open>The census\<close>

definition kind_index :: "heap_cell \<Rightarrow> nat option" where
  "kind_index c =
     (case c of CVector _ \<Rightarrow> Some 0 | CMap _ \<Rightarrow> Some 1 | CSet _ \<Rightarrow> Some 2 | CStruct _ _ \<Rightarrow> Some 3
      | CBinding _ \<Rightarrow> Some 4 | CScope _ \<Rightarrow> Some 5 | CTask _ \<Rightarrow> Some 6 | CFree \<Rightarrow> None)"

fun tally :: "heap_cell list \<Rightarrow> nat list \<Rightarrow> nat list" where
  "tally [] counts = counts"
| "tally (c # cs) counts =
     (case kind_index c of
        Some k \<Rightarrow> tally cs (counts[k := counts ! k + 1])
      | None \<Rightarrow> tally cs counts)"

definition census :: "heap \<Rightarrow> (string \<times> nat) list" where
  "census h =
     filter (\<lambda>(label, count). 0 < count)
       (zip [''Vector'', ''Map'', ''Set'', ''struct'', ''binding'', ''scope'', ''task'']
         (tally (cells h) (replicate 7 0)))"

definition free_slots :: "heap \<Rightarrow> nat" where
  "free_slots h = length (filter is_free (cells h))"

definition arena_slots :: "heap \<Rightarrow> nat" where
  "arena_slots h = length (cells h)"

lemma kind_index_bound: "kind_index c = Some k \<Longrightarrow> k < 7"
  by (cases c) (auto simp: kind_index_def)

lemma kind_index_None [simp]: "kind_index c = None \<longleftrightarrow> c = CFree"
  by (cases c) (auto simp: kind_index_def)

lemma kind_index_CFree [simp]: "kind_index CFree = None"
  by (simp add: kind_index_def)

lemma length_tally [simp]: "length (tally cs counts) = length counts"
  by (induction cs counts rule: tally.induct) (auto split: option.split)

lemma nth_tally:
  "length counts = 7 \<Longrightarrow> k < 7 \<Longrightarrow>
     tally cs counts ! k = counts ! k + length (filter (\<lambda>c. kind_index c = Some k) cs)"
proof (induction cs counts rule: tally.induct)
  case (2 c cs counts)
  then show ?case
    using kind_index_bound [of c] by (cases "kind_index c") (auto simp: nth_list_update)
qed simp

lemma sum_list_tally:
  "length counts = 7 \<Longrightarrow> sum_list (tally cs counts) = sum_list counts + occupied cs"
proof (induction cs counts rule: tally.induct)
  case (2 c cs counts)
  have up: "sum_list (counts[k := Suc (counts ! k)]) = Suc (sum_list counts)" if "k < length counts" for k
    using that by (simp add: sum_list_update)
  show ?case
    using 2 kind_index_bound [of c] up
    by (cases "kind_index c") (auto simp: occupied_def)
qed (simp add: occupied_def)

lemma sum_list_positive:
  "length ls = length ns \<Longrightarrow>
     sum_list (map snd (filter (\<lambda>(label, count). 0 < count) (zip ls ns))) = sum_list (ns :: nat list)"
  by (induction ls ns rule: list_induct2) auto

lemma occupied_free_slots: "occupied (cells h) + free_slots h = arena_slots h"
  using sum_length_filter_compl [of is_free "cells h"]
  by (simp add: occupied_def free_slots_def arena_slots_def add.commute)

lemma free_slots_length: "heap_wf h \<Longrightarrow> free_slots h = length (free h)"
proof -
  assume wf: "heap_wf h"
  have "free_slots h = card {i. i < length (cells h) \<and> cells h ! i = CFree}"
    by (simp add: free_slots_def length_filter_conv_card)
  also have "\<dots> = card (set (free h))"
    using heap_wfD(2) [OF wf] by simp
  also have "\<dots> = length (free h)"
    using heap_wfD(1) [OF wf] by (rule distinct_card)
  finally show ?thesis .
qed

section \<open>Mutation\<close>

lemma cell_atD: "cell_at h r = Some c \<Longrightarrow> r < length (cells h) \<and> cells h ! r = c"
  by (simp add: cell_at_def split: if_splits)

lemma recharge_simps [simp]:
  "cells (recharge a b h) = cells h" "free (recharge a b h) = free h"
  "iters (recharge a b h) = iters h" "cell_size (recharge a b h) = cell_size h"
  "stat_live (recharge a b h) = stat_live h"
  "live_bytes (recharge a b h) =
     (if a \<le> b then live_bytes h + (b - a) * slot_bytes else live_bytes h - (a - b) * slot_bytes)"
  by (simp_all add: recharge_def)

lemma set_cell_simps [simp]:
  "cells (set_cell r c h) = (cells h)[r := c]" "free (set_cell r c h) = free h"
  "iters (set_cell r c h) = iters h" "cell_size (set_cell r c h) = cell_size h"
  "stat_live (set_cell r c h) = stat_live h" "live_bytes (set_cell r c h) = live_bytes h"
  by (simp_all add: set_cell_def)

lemma cell_bytes_occupied: "c \<noteq> CFree \<Longrightarrow> cell_bytes sz c = sz + cell_slots c * slot_bytes"
  by (cases c) (simp_all add: cell_bytes_def)

text \<open>Replacing an occupied cell and recharging the difference in slots keeps the accounting
  exact: the saturating subtraction never saturates.\<close>

lemma retained_member: "i < length cs \<Longrightarrow> cell_bytes sz (cs ! i) \<le> retained sz cs"
  by (simp add: retained_def elem_le_sum_list [of i "map (cell_bytes sz) cs", simplified])

lemma recharge_wf:
  assumes wf: "heap_wf h" and r: "cell_at h r = Some c" and c: "c \<noteq> CFree" and c': "c' \<noteq> CFree"
  shows "heap_wf (recharge (cell_slots c) (cell_slots c') (set_cell r c' h))"
proof -
  note w = heap_wfD [OF wf] and r = cell_atD [OF r]
  let ?sz = "cell_size h"
  let ?h = "recharge (cell_slots c) (cell_slots c') (set_cell r c' h)"
  have "set (free h) = {i. i < length ((cells h)[r := c']) \<and> (cells h)[r := c'] ! i = CFree}"
    unfolding w(2) using r c c' by (auto simp: nth_list_update)
  moreover have "occupied ((cells h)[r := c']) = stat_live h"
  proof -
    have "0 < occupied (cells h)"
      using r c by (auto simp: occupied_def filter_empty_conv intro!: bexI [OF _ nth_mem])
    then show ?thesis
      using occupied_update [of r "cells h" c'] r c c' w(3) by simp
  qed
  moreover have "live_bytes ?h = retained ?sz ((cells h)[r := c'])"
    using retained_update [of r "cells h" ?sz c'] r w(4) retained_member [of r "cells h" ?sz]
    by (auto simp add: cell_bytes_occupied c c' diff_mult_distrib)
  ultimately show ?thesis using w(1) by (simp add: heap_wf_def)
qed

lemmas edit_defs = edit_vector_def edit_map_def edit_scope_def edit_set_def
  heap_vector_def heap_map_def heap_scope_def heap_set_def

text \<open>Every edit replaces one occupied cell by one of the same kind.\<close>

definition edited :: "gc_ref \<Rightarrow> heap \<Rightarrow> heap \<Rightarrow> bool" where
  "edited r h h' \<longleftrightarrow> (\<exists>c c'. cell_at h r = Some c \<and> c \<noteq> CFree \<and> c' \<noteq> CFree \<and>
     kind_index c = kind_index c' \<and>
     h' = recharge (cell_slots c) (cell_slots c') (set_cell r c' h))"

lemma edit_vector_edited: "edit_vector r f h = Some (x, h') \<Longrightarrow> edited r h h'"
  unfolding edited_def
  by (auto simp: edit_defs kind_index_def split: option.splits heap_cell.splits prod.splits
      intro!: exI [of _ "CVector _"])

lemma edit_map_edited: "edit_map r f h = Some (x, h') \<Longrightarrow> edited r h h'"
  unfolding edited_def
  by (auto simp: edit_defs kind_index_def split: option.splits heap_cell.splits prod.splits
      intro!: exI [of _ "CMap _"])

lemma edit_set_edited: "edit_set r f h = Some (x, h') \<Longrightarrow> edited r h h'"
  unfolding edited_def
  by (auto simp: edit_defs kind_index_def split: option.splits heap_cell.splits prod.splits
      intro!: exI [of _ "CSet _"])

lemma edit_scope_edited: "edit_scope r f h = Some (x, h') \<Longrightarrow> edited r h h'"
  unfolding edited_def
  by (auto simp: edit_defs kind_index_def split: option.splits heap_cell.splits prod.splits
      intro!: exI [of _ "CScope _"])

lemma edited_wf: "heap_wf h \<Longrightarrow> edited r h h' \<Longrightarrow> heap_wf h' \<and> arena_slots h' = arena_slots h"
  by (auto simp: edited_def arena_slots_def recharge_wf)

lemma edit_vector_reads:
  "edit_vector r f h = Some (x, h') \<Longrightarrow>
     \<exists>vs. heap_vector h r = Some vs \<and> x = fst (f vs) \<and> heap_vector h' r = Some (snd (f vs)) \<and>
       (\<forall>q. q \<noteq> r \<longrightarrow> cell_at h' q = cell_at h q)"
  by (auto simp: edit_vector_def heap_vector_def cell_at_def
      split: option.splits heap_cell.splits prod.splits if_splits)

section \<open>Collections, whatever their roots\<close>

lemma visit_length: "visit v m = Some m' \<Longrightarrow> length (marked m') = length (marked m)"
  by (auto simp: visit_def split: option.splits if_splits)

lemma visit_all_length: "visit_all vs m = Some m' \<Longrightarrow> length (marked m') = length (marked m)"
  by (induction vs m rule: visit_all.induct) (auto split: option.splits dest: visit_length)

lemma mark_loop_length:
  "mark_loop cs its m = Some m' \<Longrightarrow> length (marked m') = length (marked m)"
proof (induction cs its m rule: mark_loop.induct)
  case (1 cs its m)
  show ?case
  proof (cases "pending m")
    case Nil
    with 1 show ?thesis by (simp add: mark_loop.simps [of cs its m])
  next
    case (Cons p ps)
    with "1.prems" obtain m1 where m1: "mark_step cs its p (m\<lparr>pending := ps\<rparr>) = Some m1"
        "mark_loop cs its m1 = Some m'"
      by (auto simp: mark_loop.simps [of cs its m] split: option.splits)
    from "1.IH" [OF Cons m1] visit_all_length [OF mark_step_values [OF m1(1)]]
    show ?thesis by simp
  qed
qed

lemma collect_decompose:
  assumes wf: "heap_wf h" and h': "collect roots h = Some h'"
  shows "\<exists>bs. length bs = length (cells h) \<and> cells h' = sweep_map bs (cells h) \<and>
    free h' = rev (filter (\<lambda>i. \<not> bs ! i \<and> cells h ! i \<noteq> CFree) [0..<length (cells h)]) @ free h \<and>
    stat_live h' = occupied (cells h') \<and> live_bytes h' = retained (cell_size h') (cells h')"
proof -
  from h' obtain m0 m where m: "visit_all roots (mark_begin (length (cells h))) = Some m0"
      "mark_loop (cells h) (iters h) m0 = Some m"
    by (auto simp: collect_def split: option.splits)
  have len: "length (marked m) = length (cells h)"
    using mark_loop_length [OF m(2)] visit_all_length [OF m(1)] by (simp add: mark_begin_def)
  obtain cs fr lb n where
    sw: "sweep (cell_size h) 0 (marked m) (cells h) (free h, 0, stat_live h) = (cs, fr, lb, n)"
    by (metis prod_cases4)
  have cs: "cs = sweep_map (marked m) (cells h)"
    using sweep_cells [OF len, of "cell_size h" 0 "(free h, 0, stat_live h)"] sw
    by (simp add: sweep_map_def)
  moreover have "fr = rev (filter (\<lambda>i. \<not> marked m ! i \<and> cells h ! i \<noteq> CFree) [0..<length (cells h)]) @ free h"
    using sweep_free [OF len, of "cell_size h" 0 "free h" 0 "stat_live h"] sw
    by (simp add: map_idI)
  moreover have "lb = retained (cell_size h) cs"
    using sweep_live_bytes [OF len, of "cell_size h" 0 "free h" 0 "stat_live h"] sw
    by (simp add: retained_sweep_map [OF len] cs)
  moreover have "n = occupied cs"
    using sweep_stat_live [OF len, of "stat_live h" "cell_size h" 0 "free h" 0] sw
      occupied_sweep_map [OF len] heap_wfD(3) [OF wf] by (simp add: cs sweep_map_def)
  ultimately show ?thesis
    using h' m sw len by (intro exI [of _ "marked m"]) (auto simp: collect_def)
qed

lemma collect_some_wf:
  assumes wf: "heap_wf h" and h': "collect roots h = Some h'"
  shows "heap_wf h' \<and> arena_slots h' = arena_slots h \<and> stat_live h' \<le> stat_live h"
proof -
  note w = heap_wfD [OF wf]
  from collect_decompose [OF wf h'] obtain bs where
    len: "length bs = length (cells h)" and cs: "cells h' = sweep_map bs (cells h)"
    and fr: "free h' = rev (filter (\<lambda>i. \<not> bs ! i \<and> cells h ! i \<noteq> CFree) [0..<length (cells h)]) @ free h"
    and n: "stat_live h' = occupied (cells h')" "live_bytes h' = retained (cell_size h') (cells h')"
    by blast
  have s: "i \<in> set (free h) \<longleftrightarrow> i < length (cells h) \<and> cells h ! i = CFree" for i
    unfolding w(2) by simp
  have "distinct (free h')"
    using w(1) by (auto simp: fr s)
  moreover have "set (free h') = {i. i < length (cells h') \<and> cells h' ! i = CFree}"
    unfolding fr cs by (rule set_eqI) (use len in \<open>auto simp: s len_simps nth_sweep_map\<close>)
  ultimately show ?thesis
    using n occupied_sweep_map [OF len] w(3) len by (simp add: heap_wf_def arena_slots_def cs len_simps)
qed

section \<open>The allocation interface\<close>

text \<open>What the machine relies on when it allocates: the new slot reads back, no occupied slot
  changes, and the slot was a hole or did not exist. \<open>alloc_seq\<close> is a run of allocations.\<close>

fun alloc_seq :: "('c \<Rightarrow> 'h \<Rightarrow> (nat \<times> 'h) option) \<Rightarrow> 'c list \<Rightarrow> 'h \<Rightarrow> (nat list \<times> 'h) option" where
  "alloc_seq alloc [] h = Some ([], h)"
| "alloc_seq alloc (c # cs) h =
     (case alloc c h of
        None \<Rightarrow> None
      | Some (r, h1) \<Rightarrow> map_option (map_prod ((#) r) id) (alloc_seq alloc cs h1))"

locale cell_store =
  fixes ok :: "'h \<Rightarrow> bool"
    and alloc :: "'c \<Rightarrow> 'h \<Rightarrow> (nat \<times> 'h) option"
    and read :: "'h \<Rightarrow> nat \<Rightarrow> 'c option"
    and hole :: 'c
  assumes alloc_ok: "ok h \<Longrightarrow> c \<noteq> hole \<Longrightarrow> alloc c h = Some (r, h') \<Longrightarrow> ok h'"
    and alloc_read: "ok h \<Longrightarrow> c \<noteq> hole \<Longrightarrow> alloc c h = Some (r, h') \<Longrightarrow> read h' r = Some c"
    and alloc_other: "ok h \<Longrightarrow> c \<noteq> hole \<Longrightarrow> alloc c h = Some (r, h') \<Longrightarrow> q \<noteq> r \<Longrightarrow> read h' q = read h q"
    and alloc_fresh: "ok h \<Longrightarrow> c \<noteq> hole \<Longrightarrow> alloc c h = Some (r, h') \<Longrightarrow>
      read h r = None \<or> read h r = Some hole"
begin

definition held :: "'h \<Rightarrow> nat \<Rightarrow> bool" where
  "held h q \<longleftrightarrow> (\<exists>c. read h q = Some c \<and> c \<noteq> hole)"

lemma alloc_keeps:
  "ok h \<Longrightarrow> c \<noteq> hole \<Longrightarrow> alloc c h = Some (r, h') \<Longrightarrow>
     \<not> held h r \<and> held h' r \<and> (\<forall>q. held h q \<longrightarrow> held h' q \<and> read h' q = read h q)"
  using alloc_fresh [of h c r h'] alloc_read [of h c r h'] alloc_other [of h c r h']
  by (metis held_def option.distinct(1) option.inject)

lemma alloc_seq_spec:
  "ok h \<Longrightarrow> hole \<notin> set cs \<Longrightarrow> alloc_seq alloc cs h = Some (rs, h') \<Longrightarrow>
     ok h' \<and> distinct rs \<and> map (read h') rs = map Some cs \<and> (\<forall>r \<in> set rs. \<not> held h r) \<and>
     (\<forall>q. held h q \<longrightarrow> held h' q \<and> read h' q = read h q)"
proof (induction cs arbitrary: h rs)
  case (Cons c cs)
  from Cons.prems(3) obtain r h1 rs1 where
    a: "alloc c h = Some (r, h1)" "alloc_seq alloc cs h1 = Some (rs1, h')" "rs = r # rs1"
    by (auto split: option.splits)
  have c: "c \<noteq> hole" "hole \<notin> set cs" using Cons.prems(2) by auto
  note ok1 = alloc_ok [OF Cons.prems(1) c(1) a(1)] and k = alloc_keeps [OF Cons.prems(1) c(1) a(1)]
  note ih = Cons.IH [OF ok1 c(2) a(2)]
  have "read h' r = Some c"
    using ih k alloc_read [OF Cons.prems(1) c(1) a(1)] by auto
  then show ?case using ih k a(3) by auto
qed simp

end

lemma heap_alloc_iters: "heap_wf h \<Longrightarrow> c \<noteq> CFree \<Longrightarrow> heap_alloc c h = Some (r, h') \<Longrightarrow> iters h' = iters h"
  by (blast dest: heap_alloc_spec)

interpretation arena: cell_store heap_wf heap_alloc cell_at CFree
proof unfold_locales
  fix h h' :: heap and c :: heap_cell and r q :: nat
  assume a: "heap_wf h" "c \<noteq> CFree" "heap_alloc c h = Some (r, h')"
  note sp = heap_alloc_spec [OF a]
  show "heap_wf h'" "cell_at h r = None \<or> cell_at h r = Some CFree" using sp by blast+
  show "cell_at h' r = Some c" using sp by (auto simp: cell_at_def nth_append)
  show "q \<noteq> r \<Longrightarrow> cell_at h' q = cell_at h q"
    using sp by (auto simp: cell_at_def nth_append split: if_splits)
qed

section \<open>The arena over a whole run\<close>

text \<open>Every way the machine changes a heap, with the high-water mark of simultaneously live
  objects beside it. An edit's result is of no concern to the heap, so edits return \<open>()\<close>.\<close>

inductive heap_run :: "nat \<Rightarrow> nat \<Rightarrow> heap \<Rightarrow> nat \<Rightarrow> bool" for sz budget where
  run_new: "heap_run sz budget (heap_new sz budget) 0"
| run_alloc: "heap_run sz budget h pk \<Longrightarrow> c \<noteq> CFree \<Longrightarrow> heap_alloc c h = Some (r, h') \<Longrightarrow>
    heap_run sz budget h' (max pk (stat_live h'))"
| run_vector: "heap_run sz budget h pk \<Longrightarrow> edit_vector r f h = Some ((), h') \<Longrightarrow> heap_run sz budget h' pk"
| run_map: "heap_run sz budget h pk \<Longrightarrow> edit_map r g h = Some ((), h') \<Longrightarrow> heap_run sz budget h' pk"
| run_set: "heap_run sz budget h pk \<Longrightarrow> edit_set r k h = Some ((), h') \<Longrightarrow> heap_run sz budget h' pk"
| run_scope: "heap_run sz budget h pk \<Longrightarrow> edit_scope r e h = Some ((), h') \<Longrightarrow> heap_run sz budget h' pk"
| run_iterator: "heap_run sz budget h pk \<Longrightarrow> heap_run sz budget (h\<lparr>iters := its\<rparr>) pk"
| run_unroot: "heap_run sz budget h pk \<Longrightarrow> heap_run sz budget (relax_mark_floor h) pk"
| run_collect: "heap_run sz budget h pk \<Longrightarrow> collect roots h = Some h' \<Longrightarrow> heap_run sz budget h' pk"

lemma iters_update_wf [simp]:
  "heap_wf (h\<lparr>iters := its\<rparr>) = heap_wf h" "arena_slots (h\<lparr>iters := its\<rparr>) = arena_slots h"
  by (simp_all add: heap_wf_def arena_slots_def)

lemma relax_mark_floor_wf [simp]:
  "heap_wf (relax_mark_floor h) = heap_wf h" "arena_slots (relax_mark_floor h) = arena_slots h"
  by (simp_all add: heap_wf_def arena_slots_def relax_mark_floor_def Let_def)

lemma heap_run_inv: "heap_run sz budget h pk \<Longrightarrow> heap_wf h \<and> arena_slots h = pk"
proof (induction rule: heap_run.induct)
  case run_new
  show ?case by (simp add: heap_new_wf arena_slots_def) (simp add: heap_new_def)
next
  case (run_alloc h pk c r h')
  from heap_alloc_spec [OF _ run_alloc.hyps(2,3)] run_alloc.IH show ?case
    unfolding arena_slots_def by blast
next
  case (run_collect h pk roots h')
  then show ?case using collect_some_wf [of h roots h'] by simp
next
  case run_vector
  then show ?case by (metis edited_wf edit_vector_edited)
next
  case run_map
  then show ?case by (metis edited_wf edit_map_edited)
next
  case run_set
  then show ?case by (metis edited_wf edit_set_edited)
next
  case run_scope
  then show ?case by (metis edited_wf edit_scope_edited)
qed simp_all

section \<open>The string interner\<close>

text \<open>A shared string is its address and its content; the address a new allocation gets is the
  caller's, as everywhere in the model.\<close>

record interner =
  table :: "(string \<times> addr) list"
  hits :: nat

definition interner_new :: interner where
  "interner_new = \<lparr>table = [], hits = 0\<rparr>"

definition intern :: "addr \<Rightarrow> string \<Rightarrow> interner \<Rightarrow> addr \<times> interner" where
  "intern fresh content i =
     (case map_of (table i) content of
        Some existing \<Rightarrow> (existing, i\<lparr>hits := hits i + 1\<rparr>)
      | None \<Rightarrow> (fresh, i\<lparr>table := (content, fresh) # table i\<rparr>))"

definition interner_len :: "interner \<Rightarrow> nat" where
  "interner_len i = length (table i)"

fun intern_all :: "(string \<times> addr) list \<Rightarrow> interner \<Rightarrow> addr list \<times> interner" where
  "intern_all [] i = ([], i)"
| "intern_all ((content, fresh) # rest) i =
     (let (shared, i1) = intern fresh content i;
          (shareds, i2) = intern_all rest i1
      in (shared # shareds, i2))"

definition interner_inv :: "interner \<Rightarrow> bool" where
  "interner_inv i \<longleftrightarrow> distinct (map fst (table i))"

lemma intern_spec:
  assumes "interner_inv i" and "intern fresh content i = (a, i')"
  shows "interner_inv i'" and "map_of (table i') content = Some a"
    and "map_of (table i) c = Some b \<Longrightarrow> map_of (table i') c = Some b"
    and "fst ` set (table i') = insert content (fst ` set (table i))"
    and "interner_len i' + hits i' = Suc (interner_len i + hits i)"
proof -
  consider (hit) "map_of (table i) content = Some a" "i' = i\<lparr>hits := hits i + 1\<rparr>"
    | (miss) "map_of (table i) content = None" "a = fresh" "i' = i\<lparr>table := (content, fresh) # table i\<rparr>"
    using assms(2) by (auto simp: intern_def split: option.splits)
  note two = this
  show "interner_inv i'"
    by (cases rule: two) (use assms(1) in \<open>auto simp: interner_inv_def map_of_eq_None_iff\<close>)
  show "map_of (table i') content = Some a"
    by (cases rule: two) auto
  show "map_of (table i) c = Some b \<Longrightarrow> map_of (table i') c = Some b"
    by (cases rule: two) auto
  show "interner_len i' + hits i' = Suc (interner_len i + hits i)"
    by (cases rule: two) (auto simp: interner_len_def)
  show "fst ` set (table i') = insert content (fst ` set (table i))"
  proof (cases rule: two)
    case hit
    then have "content \<in> fst ` set (table i)" by (force dest: map_of_SomeD)
    with hit show ?thesis by (simp add: insert_absorb)
  qed simp
qed

lemma intern_all_spec:
  "interner_inv i \<Longrightarrow> intern_all reqs i = (as, i') \<Longrightarrow>
     interner_inv i' \<and> map (map_of (table i') \<circ> fst) reqs = map Some as \<and>
     (\<forall>c b. map_of (table i) c = Some b \<longrightarrow> map_of (table i') c = Some b) \<and>
     fst ` set (table i') = fst ` set reqs \<union> fst ` set (table i) \<and>
     interner_len i' + hits i' = length reqs + interner_len i + hits i"
proof (induction reqs arbitrary: i as)
  case (Cons req reqs)
  obtain content fresh where req: "req = (content, fresh)" by (cases req)
  obtain a i1 where a: "intern fresh content i = (a, i1)" by (cases "intern fresh content i")
  obtain as1 where as1: "intern_all reqs i1 = (as1, i')" "as = a # as1"
    using Cons.prems(2) by (auto simp: req a Let_def split: prod.splits)
  note one = intern_spec [OF Cons.prems(1) a]
  from Cons.IH [OF one(1) as1(1)] one as1(2) show ?case by (auto simp: req)
qed simp

lemma intern_all_addresses:
  "intern_all reqs i = (as, i') \<Longrightarrow> distinct (map snd (table i) @ map snd reqs) \<Longrightarrow>
     distinct (map snd (table i'))"
proof (induction reqs arbitrary: i as)
  case (Cons req reqs)
  obtain content fresh where req: "req = (content, fresh)" by (cases req)
  obtain a i1 where a: "intern fresh content i = (a, i1)" by (cases "intern fresh content i")
  obtain as1 where as1: "intern_all reqs i1 = (as1, i')"
    using Cons.prems(1) by (auto simp: req a Let_def split: prod.splits)
  have "distinct (map snd (table i1) @ map snd reqs)"
  proof (cases "map_of (table i) content")
    case None
    with a have "table i1 = (content, fresh) # table i" by (auto simp: intern_def)
    with Cons.prems(2) show ?thesis by (simp add: req)
  next
    case (Some b)
    with a have "table i1 = table i" by (auto simp: intern_def)
    with Cons.prems(2) show ?thesis by (simp add: req)
  qed
  from Cons.IH [OF as1 this] show ?case .
qed simp

section \<open>The properties of the heap\<close>

text \<open>A heap with a reachable chain through a tuple, an unreachable cycle and a hole.\<close>

definition example_heap :: heap where
  "example_heap =
     (heap_new 48 0)\<lparr>cells := [CVector [VVector 0], CVector [VTuple 7 [VVector 3]], CFree, CVector []],
        free := [2], stat_live := 3, live_bytes := 192, peak_bytes := 192\<rparr>"

lemma example_heap_wf: "heap_wf example_heap"
  by (auto simp: example_heap_def heap_new_def heap_wf_def occupied_def retained_def
      cell_bytes_def slot_bytes_def less_Suc_eq numeral_eq_Suc)

lemma example_heap_reach:
  "reach (cells example_heap) (iters example_heap) [VVector 1] v \<longleftrightarrow>
     v = VVector 1 \<or> v = VTuple 7 [VVector 3] \<or> v = VVector 3" (is "?reach v \<longleftrightarrow> _")
proof
  show "?reach v \<Longrightarrow> v = VVector 1 \<or> v = VTuple 7 [VVector 3] \<or> v = VVector 3"
    by (induction rule: reach.induct) (auto simp: example_heap_def succs_def heap_new_def)
  have s: "VTuple 7 [VVector 3] \<in> set (succs (cells example_heap) (iters example_heap) (VVector 1))"
    "VVector 3 \<in> set (succs (cells example_heap) (iters example_heap) (VTuple 7 [VVector 3]))"
    by (simp_all add: example_heap_def succs_def)
  have "?reach (VVector 1)" by (simp add: reach_root)
  moreover from reach_step [OF this s(1)] have "?reach (VTuple 7 [VVector 3])" .
  moreover from reach_step [OF this s(2)] have "?reach (VVector 3)" .
  ultimately show "v = VVector 1 \<or> v = VTuple 7 [VVector 3] \<or> v = VVector 3 \<Longrightarrow> ?reach v" by auto
qed

lemma example_heap_safepoint:
  "one_node_per_address (cells example_heap) (iters example_heap) [VVector 1]"
  "no_dangling (cells example_heap) (iters example_heap) [VVector 1]"
  unfolding one_node_per_address_def no_dangling_def example_heap_reach
  by (auto simp: target_ok_def) (simp_all add: example_heap_def)

text \<open>C1: A collection at a safepoint (every reachable reference names an occupied slot) never
  hits one of the collector's panics; it leaves every cell reachable from the roots as it
  was, turns every other slot into a hole, keeps the heap's invariant, and every value that
  was reachable still is, with nothing dangling.\<close>

theorem collect_exact:
  assumes "heap_wf h" and "one_node_per_address (cells h) (iters h) roots"
    and "no_dangling (cells h) (iters h) roots"
  shows "\<exists>h'. collect roots h = Some h' \<and> heap_wf h' \<and> iters h' = iters h \<and>
    (\<forall>r. cell_at h' r =
       (if live_slot (cells h) (iters h) roots r then cell_at h r
        else map_option (\<lambda>_. CFree) (cell_at h r))) \<and>
    (\<forall>v. reach (cells h') (iters h') roots v = reach (cells h) (iters h) roots v) \<and>
    no_dangling (cells h') (iters h') roots"
proof -
  from collect_result [OF assms] obtain bs h' where h': "collect roots h = Some h'"
    and len: "length bs = length (cells h)"
    and live: "\<forall>r < length (cells h). bs ! r \<longleftrightarrow> live_slot (cells h) (iters h) roots r"
    and cs: "cells h' = sweep_map bs (cells h)" "iters h' = iters h"
    by blast
  have "cell_at h' r = (if live_slot (cells h) (iters h) roots r then cell_at h r
        else map_option (\<lambda>_. CFree) (cell_at h r))" for r
    using live len by (simp add: cell_at_def cs len_simps nth_sweep_map)
  with h' cs(2) collect_wf [OF assms h'] collect_no_dangling [OF assms h']
    reach_collect [OF cs len live] show ?thesis by blast
qed

lemma collect_exact_witness:
  "\<exists>h'. collect [VVector 1] example_heap = Some h' \<and> heap_wf h' \<and>
     cell_at h' 0 = Some CFree \<and> cell_at h' 3 = Some (CVector [])"
proof -
  have "\<not> live_slot (cells example_heap) (iters example_heap) [VVector 1] 0"
    "live_slot (cells example_heap) (iters example_heap) [VVector 1] 3"
    unfolding live_slot_def example_heap_reach by auto
  moreover have "cell_at example_heap 0 = Some (CVector [VVector 0])"
    "cell_at example_heap 3 = Some (CVector [])"
    by (simp_all add: cell_at_def example_heap_def)
  ultimately show ?thesis
    using collect_exact [OF example_heap_wf example_heap_safepoint] by fastforce
qed



text \<open>C27: Allocating any sequence of cells hands out distinct slots that read back what was
  stored, and no cell that was occupied before changes: an allocation reuses only holes.\<close>

theorem allocations_never_alias:
  assumes "heap_wf h" and "CFree \<notin> set cs" and "alloc_seq heap_alloc cs h = Some (rs, h')"
  shows "heap_wf h' \<and> distinct rs \<and> map (cell_at h') rs = map Some cs \<and>
    (\<forall>q c. cell_at h q = Some c \<and> c \<noteq> CFree \<longrightarrow> q \<notin> set rs \<and> cell_at h' q = Some c)"
  using arena.alloc_seq_spec [OF assms] unfolding arena.held_def by (metis option.inject)

lemma allocations_never_alias_witness:
  "\<exists>rs h'. alloc_seq heap_alloc [CVector [], CBinding VUnit] example_heap = Some (rs, h') \<and>
     distinct rs \<and> 3 \<notin> set rs \<and> cell_at h' 3 = Some (CVector [])"
proof -
  obtain rs h' where a: "alloc_seq heap_alloc [CVector [], CBinding VUnit] example_heap = Some (rs, h')"
    by (simp add: example_heap_def heap_new_def heap_alloc_def Let_def charge_def)
  have "cell_at example_heap 3 = Some (CVector [])" by (simp add: cell_at_def example_heap_def)
  with allocations_never_alias [OF example_heap_wf _ a] a show ?thesis by auto
qed

text \<open>C28: After a collection the next one is due only once the program has allocated at least
  as many bytes as survived, at least the configured floor, and a quarter of what marking
  the surviving cells and the roots costs: marking is amortised against allocation.\<close>

theorem collection_amortised:
  assumes "heap_wf h" and "collect roots h = Some h'" and "should_collect (charge n h')"
  shows "retained (cell_size h') (cells h') \<le> n \<and> floor_bytes h \<le> n \<and>
    length roots * slot_bytes + retained (cell_size h') (cells h') \<le> 4 * n + 3"
proof -
  have live: "live_bytes h' = retained (cell_size h') (cells h')"
    using collect_some_wf [OF assms(1,2)] by (simp add: heap_wfD(4))
  from assms(2) have t: "threshold_bytes h' = max (live_bytes h' * growth_factor) (floor_bytes h)"
    "since_collection_bytes h' = 0"
    "mark_floor_bytes h' = max ((length roots * slot_bytes + live_bytes h') div mark_amortization) (floor_bytes h)"
    by (auto simp: collect_def Let_def split: option.splits prod.splits)
  from assms(3) have "threshold_bytes h' \<le> live_bytes h' + n" "mark_floor_bytes h' \<le> n"
    by (simp_all add: should_collect_def charge_def Let_def t(2))
  then have "live_bytes h' * 2 \<le> live_bytes h' + n" "floor_bytes h \<le> n"
    "(length roots * slot_bytes + live_bytes h') div 4 \<le> n"
    by (simp_all add: t growth_factor_def mark_amortization_def)
  then show ?thesis unfolding live by (auto simp: algebra_simps)
qed

lemma collection_amortised_witness:
  "\<exists>h'. collect [] (heap_new 48 100) = Some h' \<and> should_collect (charge 100 h') \<and> floor_bytes (heap_new 48 100) \<le> 100"
proof -
  obtain h' where c: "collect [] (heap_new 48 100) = Some h'" and s: "should_collect (charge 100 h')"
    by (simp add: collect_def heap_new_def mark_begin_def mark_loop.simps growth_factor_def
        mark_amortization_def should_collect_def charge_def Let_def)
  with collection_amortised [OF heap_new_wf c s] show ?thesis by blast
qed

text \<open>The interner hands out one address per content: after any sequence of requests with
  pairwise distinct fresh addresses two requests share an address exactly when their
  contents are equal, the table holds each distinct content once, and every other request
  was a hit.\<close>

theorem intern_shares_exactly_equal_contents:
  assumes "distinct (map snd reqs)" and "intern_all reqs interner_new = (shared, i)"
  shows "length shared = length reqs \<and>
    (\<forall>j k. j < length reqs \<and> k < length reqs \<longrightarrow>
       (shared ! j = shared ! k \<longleftrightarrow> fst (reqs ! j) = fst (reqs ! k))) \<and>
    interner_len i = card (fst ` set reqs) \<and> hits i = length reqs - card (fst ` set reqs)"
proof -
  have inv: "interner_inv interner_new" by (simp add: interner_inv_def interner_new_def)
  note sp = intern_all_spec [OF inv assms(2)]
  have d: "distinct (map snd (table i))"
    using intern_all_addresses [OF assms(2)] assms(1) by (simp add: interner_new_def)
  have len: "length shared = length reqs" using sp by (metis length_map)
  have look: "map_of (table i) (fst (reqs ! j)) = Some (shared ! j)" if "j < length reqs" for j
    using sp that len by (metis comp_apply nth_map)
  have "shared ! j = shared ! k \<longleftrightarrow> fst (reqs ! j) = fst (reqs ! k)"
    if "j < length reqs" "k < length reqs" for j k
    using look [OF that(1)] look [OF that(2)] d
    by (metis eq_snd_iff fst_conv map_of_SomeD option.inject distinct_map inj_onD)
  moreover have "interner_len i = card (fst ` set reqs)"
    using sp by (simp add: interner_inv_def interner_len_def interner_new_def)
      (metis distinct_card length_map list.set_map)
  moreover have "interner_len i + hits i = length reqs"
    using sp by (simp add: interner_len_def interner_new_def)
  ultimately show ?thesis using len by auto
qed

lemma intern_shares_exactly_equal_contents_witness:
  "\<exists>shared i. intern_all [(''a'', 1), (''b'', 2), (''a'', 3)] interner_new = (shared, i) \<and>
     shared ! 0 = shared ! 2 \<and> shared ! 0 \<noteq> shared ! 1 \<and> hits i = 1"
proof -
  obtain shared i where a: "intern_all [(''a'', 1), (''b'', 2), (''a'', 3)] interner_new = (shared, i)"
    by fastforce
  have c: "card (fst ` set [(''a'', 1 :: addr), (''b'', 2), (''a'', 3)]) = 2"
    by (simp add: card_insert_if)
  have d: "distinct (map snd [(''a'', 1 :: addr), (''b'', 2), (''a'', 3)])" by simp
  note sp = intern_shares_exactly_equal_contents [OF d a]
  have all: "\<forall>j k. j < 3 \<and> k < 3 \<longrightarrow> (shared ! j = shared ! k \<longleftrightarrow>
      fst ([(''a'', 1 :: addr), (''b'', 2), (''a'', 3)] ! j) = fst ([(''a'', 1 :: addr), (''b'', 2), (''a'', 3)] ! k))"
    using sp by simp
  from all [rule_format, of 0 2] all [rule_format, of 0 1] sp a c show ?thesis by simp
qed

end
