(* ===== verification/Value_Equality.thy ===== *)
theory Value_Equality
  imports Heap_Contract
begin

text \<open>
  Structural equality of values (\<open>value_eq\<close>, \<open>eq\<close>, \<open>coinductive\<close>, \<open>assuming\<close> in
  \<open>brasa_vm/src/value.rs\<close>). The set of cell pairs assumed equal is inserted before and removed
  after a comparison, so it is passed down; the guard depth is kept. The accessors of the heap
  panic on a reference to a slot of another kind, which \<open>no_dangling\<close> and the typing of
  the program exclude; the comparison is \<open>False\<close> there.

  Equality is proved to be bisimilarity, the projection into hash keys to agree with it
  (the contract \<open>hash_keyed\<close> of the tables), and the two tables to be correct with it.
\<close>

section \<open>The comparison\<close>

definition cycle_guard_depth :: nat where "cycle_guard_depth = 16"

type_synonym assumed = "(gc_ref \<times> gc_ref) set"

definition assuming :: "assumed \<Rightarrow> gc_ref \<times> gc_ref \<Rightarrow> (assumed option \<Rightarrow> bool) \<Rightarrow> bool" where
  "assuming as pair compare =
     (if pair \<in> as then True else compare (Some (insert pair as)))"

definition coinductive_eq ::
    "gc_ref \<times> gc_ref \<Rightarrow> nat \<Rightarrow> assumed option \<Rightarrow> (assumed option \<Rightarrow> bool) \<Rightarrow> bool" where
  "coinductive_eq pair depth as compare =
     (if depth < cycle_guard_depth then compare as
      else case as of Some s \<Rightarrow> assuming s pair compare | None \<Rightarrow> assuming {} pair compare)"

definition all_zip :: "('a \<Rightarrow> 'a \<Rightarrow> bool) \<Rightarrow> 'a list \<Rightarrow> 'a list \<Rightarrow> bool" where
  "all_zip f xs ys = list_all (\<lambda>(x, y). f x y) (zip xs ys)"

definition vector_eq :: "heap \<Rightarrow> (val \<Rightarrow> val \<Rightarrow> bool) \<Rightarrow> gc_ref \<Rightarrow> gc_ref \<Rightarrow> bool" where
  "vector_eq h eq r q =
     (case heap_vector h r of None \<Rightarrow> False | Some x \<Rightarrow>
     (case heap_vector h q of None \<Rightarrow> False | Some y \<Rightarrow>
        length x = length y \<and> all_zip eq x y))"

definition map_eq :: "heap \<Rightarrow> (val \<Rightarrow> val \<Rightarrow> bool) \<Rightarrow> gc_ref \<Rightarrow> gc_ref \<Rightarrow> bool" where
  "map_eq h eq r q =
     (case heap_map h r of None \<Rightarrow> False | Some x \<Rightarrow>
     (case heap_map h q of None \<Rightarrow> False | Some y \<Rightarrow>
        om_len x = om_len y \<and>
        list_all (\<lambda>(k, v). case om_get val_hash_key y k eq of
                             Some v2 \<Rightarrow> eq v v2 | None \<Rightarrow> False) (map_entries x)))"

definition set_eq :: "heap \<Rightarrow> (val \<Rightarrow> val \<Rightarrow> bool) \<Rightarrow> gc_ref \<Rightarrow> gc_ref \<Rightarrow> bool" where
  "set_eq h eq r q =
     (case heap_set h r of None \<Rightarrow> False | Some x \<Rightarrow>
     (case heap_set h q of None \<Rightarrow> False | Some y \<Rightarrow>
        os_len x = os_len y \<and> list_all (\<lambda>a. os_contains val_hash_key y a eq) (set_items x)))"

definition struct_eq :: "heap \<Rightarrow> (val \<Rightarrow> val \<Rightarrow> bool) \<Rightarrow> gc_ref \<Rightarrow> gc_ref \<Rightarrow> bool" where
  "struct_eq h eq r q =
     (case heap_struct h r of None \<Rightarrow> False | Some (shape_x, fx) \<Rightarrow>
     (case heap_struct h q of None \<Rightarrow> False | Some (shape_y, fy) \<Rightarrow>
        shape_x = shape_y \<and> length fx = length fy \<and> all_zip eq fx fy))"

text \<open>The arms of \<open>eq\<close> that compare no other value.\<close>

definition leaf_eq :: "val \<Rightarrow> val \<Rightarrow> bool" where
  "leaf_eq a b =
     (case a of
        VInt x \<Rightarrow> (case b of VInt y \<Rightarrow> x = y | _ \<Rightarrow> False)
      | VFloat x \<Rightarrow> (case b of VFloat y \<Rightarrow> f64_eq x y | _ \<Rightarrow> False)
      | VBool x \<Rightarrow> (case b of VBool y \<Rightarrow> x = y | _ \<Rightarrow> False)
      | VChar x \<Rightarrow> (case b of VChar y \<Rightarrow> x = y | _ \<Rightarrow> False)
      | VUnit \<Rightarrow> (case b of VUnit \<Rightarrow> True | _ \<Rightarrow> False)
      | VStr x \<Rightarrow> (case b of VStr y \<Rightarrow> x = y | _ \<Rightarrow> False)
      | VRange lo hi inclusive \<Rightarrow>
          (case b of VRange lo2 hi2 inclusive2 \<Rightarrow> lo = lo2 \<and> hi = hi2 \<and> inclusive = inclusive2
           | _ \<Rightarrow> False)
      | VNone \<Rightarrow> (case b of VNone \<Rightarrow> True | _ \<Rightarrow> False)
      | VFunc x \<Rightarrow> (case b of VFunc y \<Rightarrow> x = y | _ \<Rightarrow> False)
      | VNativeError x \<Rightarrow>
          (case b of VNativeError y \<Rightarrow> ne_name x = ne_name y \<and> ne_message x = ne_message y
           | _ \<Rightarrow> False)
      | VClosure x _ _ \<Rightarrow> (case b of VClosure y _ _ \<Rightarrow> x = y | _ \<Rightarrow> False)
      | VConcurrentScope x \<Rightarrow> (case b of VConcurrentScope y \<Rightarrow> x = y | _ \<Rightarrow> False)
      | VTask x \<Rightarrow> (case b of VTask y \<Rightarrow> x = y | _ \<Rightarrow> False)
      | VBoundMethod x _ _ \<Rightarrow> (case b of VBoundMethod y _ _ \<Rightarrow> x = y | _ \<Rightarrow> False)
      | VBoundBuiltin x _ _ \<Rightarrow> (case b of VBoundBuiltin y _ _ \<Rightarrow> x = y | _ \<Rightarrow> False)
      | VProcOutput x \<Rightarrow>
          (case b of VProcOutput y \<Rightarrow>
             out_stdout x = out_stdout y \<and> out_stderr x = out_stderr y \<and> out_code x = out_code y
           | _ \<Rightarrow> False)
      | VJson x \<Rightarrow> (case b of VJson y \<Rightarrow> x = y | _ \<Rightarrow> False)
      | _ \<Rightarrow> False)"

lemma coinductive_eq_cong [fundef_cong]:
  assumes "pair = pair'" "depth = depth'" "as = as'"
    and "depth' < cycle_guard_depth \<Longrightarrow> f as' = g as'"
    and "\<And>s. \<not> depth' < cycle_guard_depth \<Longrightarrow> s = (case as' of Some s \<Rightarrow> s | None \<Rightarrow> {}) \<Longrightarrow>
      pair' \<notin> s \<Longrightarrow> f (Some (insert pair' s)) = g (Some (insert pair' s))"
  shows "coinductive_eq pair depth as f = coinductive_eq pair' depth' as' g"
proof (cases "depth' < cycle_guard_depth")
  case True
  with assms(4) show ?thesis unfolding assms(1-3) by (simp add: coinductive_eq_def)
next
  case False
  let ?s = "case as' of Some s \<Rightarrow> s | None \<Rightarrow> {}"
  have "coinductive_eq pair' depth' as' k = assuming ?s pair' k" for k
    using False by (simp add: coinductive_eq_def split: option.split)
  then show ?thesis
    unfolding assms(1-3) using assms(5) [OF False refl]
    by (cases "pair' \<in> ?s") (simp_all add: assuming_def)
qed

lemma all_zip_cong [fundef_cong]:
  assumes "xs = xs'" "ys = ys'"
    and "\<And>x y. x \<in> set xs' \<Longrightarrow> y \<in> set ys' \<Longrightarrow> f x y = g x y"
  shows "all_zip f xs ys = all_zip g xs' ys'"
proof -
  have eq: "f x y = g x y" if "(x, y) \<in> set (zip xs' ys')" for x y
    using that assms(3) by (meson set_zip_leftD set_zip_rightD)
  show ?thesis
    unfolding all_zip_def assms(1,2) by (rule list.pred_cong) (use eq in auto)
qed

definition in_arena :: "heap \<Rightarrow> gc_ref \<times> gc_ref \<Rightarrow> bool" where
  "in_arena h p \<longleftrightarrow> fst p < length (cells h) \<and> snd p < length (cells h)"

lemma in_arena_cell:
  "heap_vector h r = Some a \<Longrightarrow> r < length (cells h)" "heap_map h r = Some m \<Longrightarrow> r < length (cells h)"
  "heap_set h r = Some s \<Longrightarrow> r < length (cells h)" "heap_struct h r = Some t \<Longrightarrow> r < length (cells h)"
  by (auto simp: heap_vector_def heap_map_def heap_set_def heap_struct_def cell_at_def
      split: option.splits if_splits)

lemma container_eq_cong [fundef_cong]:
  assumes "h = h'" "r = r'" "q = q'"
    and "\<And>a b. in_arena h' (r', q') \<Longrightarrow> f a b = g a b"
  shows "vector_eq h f r q = vector_eq h' g r' q'"
    "map_eq h f r q = map_eq h' g r' q'"
    "set_eq h f r q = set_eq h' g r' q'"
    "struct_eq h f r q = struct_eq h' g r' q'"
proof -
  have eq: "f = g" if "in_arena h' (r', q')" using assms(4) that by blast
  show "vector_eq h f r q = vector_eq h' g r' q'"
    unfolding assms(1-3) by (cases "in_arena h' (r', q')")
      (simp add: eq, auto simp add: vector_eq_def in_arena_def dest: in_arena_cell split: option.split)
  show "map_eq h f r q = map_eq h' g r' q'"
    unfolding assms(1-3) by (cases "in_arena h' (r', q')")
      (simp add: eq, auto simp add: map_eq_def in_arena_def dest: in_arena_cell split: option.split)
  show "set_eq h f r q = set_eq h' g r' q'"
    unfolding assms(1-3) by (cases "in_arena h' (r', q')")
      (simp add: eq, auto simp add: set_eq_def in_arena_def dest: in_arena_cell split: option.split)
  show "struct_eq h f r q = struct_eq h' g r' q'"
    unfolding assms(1-3) by (cases "in_arena h' (r', q')")
      (simp add: eq, auto simp add: struct_eq_def in_arena_def dest: in_arena_cell split: option.split)
qed

definition spare_pairs :: "heap \<Rightarrow> assumed option \<Rightarrow> nat" where
  "spare_pairs h as =
     card (({..<length (cells h)} \<times> {..<length (cells h)}) - (case as of Some s \<Rightarrow> s | None \<Rightarrow> {}))"

lemma spare_pairs_insert:
  "in_arena h p \<Longrightarrow> s = (case as of Some s \<Rightarrow> s | None \<Rightarrow> {}) \<Longrightarrow> p \<notin> s \<Longrightarrow>
     spare_pairs h (Some (insert p s)) < spare_pairs h as"
proof -
  let ?U = "{..<length (cells h)} \<times> {..<length (cells h)}"
  assume p: "in_arena h p" and s: "s = (case as of Some s \<Rightarrow> s | None \<Rightarrow> {})" "p \<notin> s"
  have "p \<in> ?U - s" using p s(2) by (cases p) (simp add: in_arena_def)
  then have "?U - insert p s \<subset> ?U - s" by blast
  then have "card (?U - insert p s) < card (?U - s)" by (simp add: psubset_card_mono)
  then show ?thesis unfolding spare_pairs_def s(1) [symmetric] by simp
qed

function eq_at :: "heap \<Rightarrow> val \<Rightarrow> val \<Rightarrow> nat \<Rightarrow> assumed option \<Rightarrow> bool" where
  "eq_at h a b depth as =
     (case a of
        VTuple _ x \<Rightarrow>
          (case b of
             VTuple _ y \<Rightarrow>
               length x = length y \<and> all_zip (\<lambda>a b. eq_at h a b (Suc depth) as) x y
           | _ \<Rightarrow> False)
      | VVector x \<Rightarrow>
          (case b of
             VVector y \<Rightarrow> coinductive_eq (x, y) depth as
               (\<lambda>as'. vector_eq h (\<lambda>a b. eq_at h a b (Suc depth) as') x y)
           | _ \<Rightarrow> False)
      | VMap x \<Rightarrow>
          (case b of
             VMap y \<Rightarrow> coinductive_eq (x, y) depth as
               (\<lambda>as'. map_eq h (\<lambda>a b. eq_at h a b (Suc depth) as') x y)
           | _ \<Rightarrow> False)
      | VSet x \<Rightarrow>
          (case b of
             VSet y \<Rightarrow> coinductive_eq (x, y) depth as
               (\<lambda>as'. set_eq h (\<lambda>a b. eq_at h a b (Suc depth) as') x y)
           | _ \<Rightarrow> False)
      | VSome _ x \<Rightarrow> (case b of VSome _ y \<Rightarrow> eq_at h x y (Suc depth) as | _ \<Rightarrow> False)
      | VStruct x \<Rightarrow>
          (case b of
             VStruct y \<Rightarrow> coinductive_eq (x, y) depth as
               (\<lambda>as'. struct_eq h (\<lambda>a b. eq_at h a b (Suc depth) as') x y)
           | _ \<Rightarrow> False)
      | VEnum _ shape_x variant_x x \<Rightarrow>
          (case b of
             VEnum _ shape_y variant_y y \<Rightarrow>
               shape_x = shape_y \<and> variant_x = variant_y \<and> length x = length y \<and>
               all_zip (\<lambda>a b. eq_at h a b (Suc depth) as) x y
           | _ \<Rightarrow> False)
      | _ \<Rightarrow> leaf_eq a b)"
  by pat_completeness auto
termination
  by (relation "measures [\<lambda>(h, a, b, depth, as). spare_pairs h as,
    \<lambda>(h, a, b, depth, as). cycle_guard_depth - depth, \<lambda>(h, a, b, depth, as). size a]")
    (auto simp: spare_pairs_insert less_Suc_eq_le size_list_estimation')

declare eq_at.simps [simp del]

definition value_eq :: "heap \<Rightarrow> val \<Rightarrow> val \<Rightarrow> bool" where
  "value_eq h a b = eq_at h a b 0 None"

section \<open>One level of the comparison\<close>

definition node_eq :: "heap \<Rightarrow> (val \<Rightarrow> val \<Rightarrow> bool) \<Rightarrow> val \<Rightarrow> val \<Rightarrow> bool" where
  "node_eq h R a b =
     (case a of
        VTuple _ x \<Rightarrow> (case b of VTuple _ y \<Rightarrow> length x = length y \<and> all_zip R x y | _ \<Rightarrow> False)
      | VVector x \<Rightarrow> (case b of VVector y \<Rightarrow> vector_eq h R x y | _ \<Rightarrow> False)
      | VMap x \<Rightarrow> (case b of VMap y \<Rightarrow> map_eq h R x y | _ \<Rightarrow> False)
      | VSet x \<Rightarrow> (case b of VSet y \<Rightarrow> set_eq h R x y | _ \<Rightarrow> False)
      | VSome _ x \<Rightarrow> (case b of VSome _ y \<Rightarrow> R x y | _ \<Rightarrow> False)
      | VStruct x \<Rightarrow> (case b of VStruct y \<Rightarrow> struct_eq h R x y | _ \<Rightarrow> False)
      | VEnum _ shape_x variant_x x \<Rightarrow>
          (case b of
             VEnum _ shape_y variant_y y \<Rightarrow>
               shape_x = shape_y \<and> variant_x = variant_y \<and> length x = length y \<and> all_zip R x y
           | _ \<Rightarrow> False)
      | _ \<Rightarrow> leaf_eq a b)"

definition cell_pair :: "val \<Rightarrow> val \<Rightarrow> (gc_ref \<times> gc_ref) option" where
  "cell_pair a b =
     (case a of
        VVector x \<Rightarrow> (case b of VVector y \<Rightarrow> Some (x, y) | _ \<Rightarrow> None)
      | VMap x \<Rightarrow> (case b of VMap y \<Rightarrow> Some (x, y) | _ \<Rightarrow> None)
      | VSet x \<Rightarrow> (case b of VSet y \<Rightarrow> Some (x, y) | _ \<Rightarrow> None)
      | VStruct x \<Rightarrow> (case b of VStruct y \<Rightarrow> Some (x, y) | _ \<Rightarrow> None)
      | _ \<Rightarrow> None)"

lemma eq_at_node:
  "eq_at h a b depth as =
     (case cell_pair a b of
        Some p \<Rightarrow> coinductive_eq p depth as (\<lambda>as'. node_eq h (\<lambda>a b. eq_at h a b (Suc depth) as') a b)
      | None \<Rightarrow> node_eq h (\<lambda>a b. eq_at h a b (Suc depth) as) a b)"
  unfolding eq_at.simps [of h a b depth as] node_eq_def cell_pair_def
  by (cases a) (simp_all split: val.split)

text \<open>Maps and sets whose keys all project, which is what the checker's \<open>Hashable\<close> bound gives;
  then a lookup depends on the keys alone.\<close>

definition keyed_heap :: "heap \<Rightarrow> bool" where
  "keyed_heap h \<longleftrightarrow>
     (\<forall>r m. heap_map h r = Some m \<longrightarrow> om_inv val_hash_key m \<and> unprojectable m = 0) \<and>
     (\<forall>r s. heap_set h r = Some s \<longrightarrow> os_inv val_hash_key s \<and> sunprojectable s = 0)"

lemma index_keys_project:
  "index_ok hk ks idx 0 \<Longrightarrow> k \<in> set ks \<Longrightarrow> \<exists>h. hk k = Some h \<and> idx h \<noteq> None"
proof -
  assume ok: "index_ok hk ks idx 0" and k: "k \<in> set ks"
  from ok have "filter (\<lambda>k. hk k = None) ks = []" by (simp add: index_ok_def)
  with k obtain h where h: "hk k = Some h" by (auto simp: filter_empty_conv)
  from k obtain p where "p < length ks" "ks ! p = k" by (auto simp: in_set_conv_nth)
  with h ok have "idx h = Some p" by (simp add: index_ok_def)
  with h show ?thesis by simp
qed

definition key_view :: "val omap \<Rightarrow> val \<Rightarrow> val option" where
  "key_view m k = (case val_hash_key k of Some hk \<Rightarrow> om_view m hk | None \<Rightarrow> None)"

definition has_key :: "val oset \<Rightarrow> val \<Rightarrow> bool" where
  "has_key s k \<longleftrightarrow> (case val_hash_key k of Some hk \<Rightarrow> set_index s hk \<noteq> None | None \<Rightarrow> False)"

lemma keyed_map_project:
  "keyed_heap h \<Longrightarrow> heap_map h r = Some m \<Longrightarrow> (k, v) \<in> set (map_entries m) \<Longrightarrow>
     \<exists>hk. val_hash_key k = Some hk \<and> map_index m hk \<noteq> None"
proof -
  assume kh: "keyed_heap h" and m: "heap_map h r = Some m" and e: "(k, v) \<in> set (map_entries m)"
  from kh m have "index_ok val_hash_key (map fst (map_entries m)) (map_index m) 0"
    unfolding keyed_heap_def om_inv_def by metis
  from index_keys_project [OF this, of k] e show ?thesis by force
qed

lemma keyed_set_project:
  "keyed_heap h \<Longrightarrow> heap_set h r = Some s \<Longrightarrow> k \<in> set (set_items s) \<Longrightarrow>
     \<exists>hk. val_hash_key k = Some hk \<and> set_index s hk \<noteq> None"
proof -
  assume kh: "keyed_heap h" and m: "heap_set h r = Some s" and e: "k \<in> set (set_items s)"
  from kh m have "index_ok val_hash_key (set_items s) (set_index s) 0"
    unfolding keyed_heap_def os_inv_def by metis
  from index_keys_project [OF this e] show ?thesis .
qed

lemma map_eq_keyed:
  assumes "keyed_heap h"
  shows "map_eq h R r q \<longleftrightarrow>
    (\<exists>x y. heap_map h r = Some x \<and> heap_map h q = Some y \<and> om_len x = om_len y \<and>
      (\<forall>(k, v) \<in> set (map_entries x). \<exists>v2. key_view y k = Some v2 \<and> R v v2))"
proof (cases "heap_map h r")
  case (Some x)
  show ?thesis
  proof (cases "heap_map h q")
    case y: (Some y)
    have "unprojectable y = 0" using assms y by (simp add: keyed_heap_def)
    then have get: "om_get val_hash_key y k R = key_view y k" if "(k, v) \<in> set (map_entries x)" for k v
      using keyed_map_project [OF assms Some that]
      by (auto simp: key_view_def om_get_def om_position_def om_view_def)
    have "list_all (\<lambda>(k, v). case om_get val_hash_key y k R of Some v2 \<Rightarrow> R v v2 | None \<Rightarrow> False) (map_entries x)
      \<longleftrightarrow> (\<forall>(k, v) \<in> set (map_entries x). \<exists>v2. key_view y k = Some v2 \<and> R v v2)"
      unfolding list_all_iff by (intro ball_cong refl) (auto simp: get split: option.splits)
    then show ?thesis using Some y by (simp add: map_eq_def)
  qed (simp add: map_eq_def Some)
qed (simp add: map_eq_def)

lemma set_eq_keyed:
  assumes "keyed_heap h"
  shows "set_eq h R r q \<longleftrightarrow>
    (\<exists>x y. heap_set h r = Some x \<and> heap_set h q = Some y \<and> os_len x = os_len y \<and>
      (\<forall>k \<in> set (set_items x). has_key y k))"
proof (cases "heap_set h r")
  case (Some x)
  show ?thesis
  proof (cases "heap_set h q")
    case y: (Some y)
    have "sunprojectable y = 0" using assms y by (simp add: keyed_heap_def)
    then have "os_contains val_hash_key y k R = has_key y k" if "k \<in> set (set_items x)" for k
      using keyed_set_project [OF assms Some that]
      by (auto simp: has_key_def os_contains_def os_position_def)
    then show ?thesis using Some y by (simp add: set_eq_def list_all_iff)
  qed (simp add: set_eq_def Some)
qed (simp add: set_eq_def)

lemma all_zip_list_all2: "length xs = length ys \<and> all_zip R xs ys \<longleftrightarrow> list_all2 R xs ys"
  by (auto simp: all_zip_def list_all2_iff list_all_iff)

lemma vector_eq_list:
  "vector_eq h R r q \<longleftrightarrow>
     (\<exists>x y. heap_vector h r = Some x \<and> heap_vector h q = Some y \<and> list_all2 R x y)"
  by (auto simp: vector_eq_def all_zip_list_all2 split: option.split)

lemma struct_eq_list:
  "struct_eq h R r q \<longleftrightarrow>
     (\<exists>shp x y. heap_struct h r = Some (shp, x) \<and> heap_struct h q = Some (shp, y) \<and> list_all2 R x y)"
  by (auto simp: struct_eq_def all_zip_list_all2 split: option.split)

lemmas node_lists = vector_eq_list struct_eq_list all_zip_list_all2

fun composite :: "val \<Rightarrow> bool" where
  "composite (VTuple _ _) = True"
| "composite (VVector _) = True"
| "composite (VMap _) = True"
| "composite (VSet _) = True"
| "composite (VSome _ _) = True"
| "composite (VStruct _) = True"
| "composite (VEnum _ _ _ _) = True"
| "composite _ = False"

fun kids :: "heap \<Rightarrow> val \<Rightarrow> val list" where
  "kids h (VTuple _ xs) = xs"
| "kids h (VVector r) = (case heap_vector h r of Some vs \<Rightarrow> vs | None \<Rightarrow> [])"
| "kids h (VMap r) = (case heap_map h r of Some m \<Rightarrow> map snd (map_entries m) | None \<Rightarrow> [])"
| "kids h (VSome _ x) = [x]"
| "kids h (VStruct r) = (case heap_struct h r of Some (_, fs) \<Rightarrow> fs | None \<Rightarrow> [])"
| "kids h (VEnum _ _ _ fs) = fs"
| "kids h _ = []"

lemma node_eq_leaf: "\<not> composite a \<Longrightarrow> node_eq h R a b = leaf_eq a b"
  by (cases a) (simp_all add: node_eq_def)

lemma node_eq_right: "composite a \<Longrightarrow> node_eq h R a b \<Longrightarrow> composite b"
  by (cases a) (auto simp: node_eq_def split: val.splits)

lemma leaf_eq_left: "leaf_eq a b \<Longrightarrow> \<not> composite a \<and> \<not> composite b"
  by (cases a) (auto simp: leaf_eq_def split: val.splits)

lemma leaf_eq_sym: "leaf_eq a b \<Longrightarrow> leaf_eq b a"
  by (cases a) (auto simp: leaf_eq_def f64_eq_sym split: val.splits)

lemma f64_eq_trans: "f64_eq a b \<Longrightarrow> f64_eq b c \<Longrightarrow> f64_eq a c"
  by (auto simp: f64_eq_def f64_partial_cmp_def split: if_splits)

lemma leaf_eq_trans: "leaf_eq a b \<Longrightarrow> leaf_eq b c \<Longrightarrow> leaf_eq a c"
  by (cases a; cases b) (auto simp: leaf_eq_def split: val.splits dest: f64_eq_trans)

text \<open>A case analysis on pairs that one level of comparison accepts.\<close>

lemma node_eq_cases [consumes 1, case_names leaf tuple some enum vector map_case set struct]:
  assumes "node_eq h R a b"
  obtains "leaf_eq a b" "\<not> composite a" "\<not> composite b"
  | p x q y where "a = VTuple p x" "b = VTuple q y" "list_all2 R x y"
  | p x q y where "a = VSome p x" "b = VSome q y" "R x y"
  | p shp k x q y where "a = VEnum p shp k x" "b = VEnum q shp k y" "list_all2 R x y"
  | r q where "a = VVector r" "b = VVector q" "vector_eq h R r q"
  | r q where "a = VMap r" "b = VMap q" "map_eq h R r q"
  | r q where "a = VSet r" "b = VSet q" "set_eq h R r q"
  | r q where "a = VStruct r" "b = VStruct q" "struct_eq h R r q"
proof (cases "composite a")
  case False
  with assms leaf_eq_left that(1) show ?thesis by (simp add: node_eq_leaf)
next
  case True
  with assms that(2-) show ?thesis
    by (cases a) (auto simp: node_eq_def all_zip_list_all2 split: val.splits)
qed

lemma node_eq_intros:
  "leaf_eq a b \<Longrightarrow> node_eq h R a b"
  "list_all2 R x y \<Longrightarrow> node_eq h R (VTuple p x) (VTuple q y)"
  "R v w \<Longrightarrow> node_eq h R (VSome p v) (VSome q w)"
  "list_all2 R x y \<Longrightarrow> node_eq h R (VEnum p shp k x) (VEnum q shp k y)"
  "vector_eq h R r s \<Longrightarrow> node_eq h R (VVector r) (VVector s)"
  "map_eq h R r s \<Longrightarrow> node_eq h R (VMap r) (VMap s)"
  "set_eq h R r s \<Longrightarrow> node_eq h R (VSet r) (VSet s)"
  "struct_eq h R r s \<Longrightarrow> node_eq h R (VStruct r) (VStruct s)"
  using leaf_eq_left [of a b] by (simp_all add: node_eq_leaf)
    (simp_all add: node_eq_def all_zip_list_all2)

lemma key_view_value:
  assumes "keyed_heap h" and "heap_map h r = Some m" and "key_view m k = Some v"
  shows "v \<in> snd ` set (map_entries m)"
proof -
  from assms(3) obtain hk p where p: "map_index m hk = Some p" "v = snd (map_entries m ! p)"
    by (auto simp: key_view_def om_view_def split: option.splits)
  from assms(1,2) have "om_inv val_hash_key m" by (simp add: keyed_heap_def)
  with p(1) have "p < length (map_entries m)" by (auto simp: om_inv_def index_ok_def)
  with p(2) show ?thesis by simp
qed

lemma node_eq_mono:
  assumes kh: "keyed_heap h" and ne: "node_eq h P a b"
    and PQ: "\<And>c e. c \<in> set (kids h a) \<Longrightarrow> e \<in> set (kids h b) \<Longrightarrow> P c e \<Longrightarrow> Q c e"
  shows "node_eq h Q a b"
  using ne
proof (cases rule: node_eq_cases)
  case (map_case r q)
  then obtain x y where m: "heap_map h r = Some x" "heap_map h q = Some y" "om_len x = om_len y"
    "\<forall>(k, v) \<in> set (map_entries x). \<exists>v2. key_view y k = Some v2 \<and> P v v2"
    by (auto simp: map_eq_keyed [OF kh])
  have "\<exists>v2. key_view y k = Some v2 \<and> Q v v2" if kv: "(k, v) \<in> set (map_entries x)" for k v
  proof -
    from m(4) kv obtain v2 where v2: "key_view y k = Some v2" "P v v2" by auto
    with key_view_value [OF kh m(2)] kv m(1,2) have "Q v v2"
      by (intro PQ) (force simp: map_case)+
    with v2 show ?thesis by simp
  qed
  with m(1-3) have "map_eq h Q r q" unfolding map_eq_keyed [OF kh] by blast
  then show ?thesis by (simp add: map_case node_eq_intros)
next
  case (set r q)
  then show ?thesis by (simp add: node_eq_intros set_eq_keyed [OF kh])
next
  case (vector r q)
  then obtain x y where v: "heap_vector h r = Some x" "heap_vector h q = Some y" "list_all2 P x y"
    by (auto simp: vector_eq_list)
  from v(3) have "list_all2 Q x y"
    by (rule list.rel_mono_strong) (use v PQ in \<open>simp add: vector\<close>)
  with v show ?thesis by (auto simp: vector node_eq_intros vector_eq_list)
next
  case (struct r q)
  then obtain shp x y where v: "heap_struct h r = Some (shp, x)" "heap_struct h q = Some (shp, y)"
    "list_all2 P x y"
    by (auto simp: struct_eq_list)
  from v(3) have "list_all2 Q x y"
    by (rule list.rel_mono_strong) (use v PQ in \<open>simp add: struct\<close>)
  with v show ?thesis by (auto simp: struct node_eq_intros struct_eq_list)
next
  case (tuple p x q y)
  from tuple(3) have "list_all2 Q x y"
    by (rule list.rel_mono_strong) (use PQ in \<open>simp add: tuple\<close>)
  then show ?thesis by (simp add: tuple node_eq_intros)
next
  case (enum p shp k x q y)
  from enum(3) have "list_all2 Q x y"
    by (rule list.rel_mono_strong) (use PQ in \<open>simp add: enum\<close>)
  then show ?thesis by (simp add: enum node_eq_intros)
qed (use PQ in \<open>simp_all add: node_eq_intros\<close>)

text \<open>Equal lengths and distinct keys make the one-sided inclusions of the map and set
  comparisons symmetric.\<close>

lemma index_ok_card:
  assumes "index_ok hk ks idx 0"
  shows "dom idx = (\<lambda>k. the (hk k)) ` set ks" and "card (dom idx) = length ks"
proof -
  from assms have proj: "\<And>k. k \<in> set ks \<Longrightarrow> hk k \<noteq> None"
    by (auto simp: index_ok_def filter_empty_conv)
  have idx: "\<And>g p. idx g = Some p \<longleftrightarrow> p < length ks \<and> hk (ks ! p) = Some g"
    using assms by (simp add: index_ok_def)
  show "dom idx = (\<lambda>k. the (hk k)) ` set ks"
  proof (rule set_eqI)
    fix g
    have "g \<in> dom idx \<longleftrightarrow> (\<exists>p < length ks. hk (ks ! p) = Some g)" by (auto simp: dom_def idx)
    also have "\<dots> \<longleftrightarrow> (\<exists>k \<in> set ks. hk k = Some g)" by (metis in_set_conv_nth)
    also have "\<dots> \<longleftrightarrow> g \<in> (\<lambda>k. the (hk k)) ` set ks" using proj by force
    finally show "g \<in> dom idx \<longleftrightarrow> g \<in> (\<lambda>k. the (hk k)) ` set ks" .
  qed
  have "inj_on (\<lambda>p. the (hk (ks ! p))) {..<length ks}"
  proof (rule inj_onI)
    fix p q assume pq: "p \<in> {..<length ks}" "q \<in> {..<length ks}" "the (hk (ks ! p)) = the (hk (ks ! q))"
    then obtain g where "hk (ks ! p) = Some g" "hk (ks ! q) = Some g"
      using proj [of "ks ! p"] proj [of "ks ! q"] by auto
    with pq idx [of g p] idx [of g q] show "p = q" by auto
  qed
  moreover have "dom idx = (\<lambda>p. the (hk (ks ! p))) ` {..<length ks}"
    unfolding \<open>dom idx = (\<lambda>k. the (hk k)) ` set ks\<close> by (force simp: in_set_conv_nth)
  ultimately show "card (dom idx) = length ks" by (simp add: card_image)
qed

lemma index_ok_finite: "index_ok hk ks idx 0 \<Longrightarrow> finite (dom idx)"
  by (simp add: index_ok_card(1))

lemma index_same_dom:
  assumes ok: "index_ok hk ks idx 0" "index_ok hk ks' idx' 0" and len: "length ks = length ks'"
    and sub: "\<And>k. k \<in> set ks \<Longrightarrow> \<exists>g. hk k = Some g \<and> idx' g \<noteq> None"
  shows "dom idx = dom idx'"
proof -
  have "dom idx \<subseteq> dom idx'"
    unfolding index_ok_card(1) [OF ok(1)] using sub by force
  then show ?thesis
    using index_ok_card(2) [OF ok(1)] index_ok_card(2) [OF ok(2)] len index_ok_finite [OF ok(2)]
    by (simp add: card_subset_eq)
qed

lemma keyed_index:
  "keyed_heap h \<Longrightarrow> heap_map h r = Some m \<Longrightarrow>
     index_ok val_hash_key (map fst (map_entries m)) (map_index m) 0"
  "keyed_heap h \<Longrightarrow> heap_set h r = Some s \<Longrightarrow> index_ok val_hash_key (set_items s) (set_index s) 0"
  unfolding keyed_heap_def om_inv_def os_inv_def by metis+

lemma key_view_entry:
  assumes ok: "index_ok val_hash_key (map fst (map_entries m)) (map_index m) 0"
    and e: "(k, v) \<in> set (map_entries m)"
  shows "key_view m k = Some v"
proof -
  from e obtain p where p: "p < length (map_entries m)" "map_entries m ! p = (k, v)"
    by (auto simp: in_set_conv_nth)
  from index_keys_project [OF ok, of k] e obtain g where g: "val_hash_key k = Some g" by force
  from ok p g have "map_index m g = Some p" by (simp add: index_ok_def)
  with p g show ?thesis by (simp add: key_view_def om_view_def)
qed

lemma key_view_entryD:
  assumes ok: "index_ok val_hash_key (map fst (map_entries m)) (map_index m) 0"
    and v: "key_view m k = Some v"
  shows "\<exists>k'. (k', v) \<in> set (map_entries m) \<and> val_hash_key k' = val_hash_key k \<and> val_hash_key k \<noteq> None"
proof -
  from v obtain g p where g: "val_hash_key k = Some g" "map_index m g = Some p" "v = snd (map_entries m ! p)"
    by (auto simp: key_view_def om_view_def split: option.splits)
  with ok have "p < length (map_entries m)" "val_hash_key (fst (map_entries m ! p)) = Some g"
    by (auto simp: index_ok_def)
  with g show ?thesis
    by (intro exI [of _ "fst (map_entries m ! p)"]) (auto intro: nth_mem)
qed

lemma map_eq_conv:
  assumes kh: "keyed_heap h" and me: "map_eq h R r q"
  shows "map_eq h (\<lambda>x y. R y x) q r"
proof -
  from me obtain x y where m: "heap_map h r = Some x" "heap_map h q = Some y" "om_len x = om_len y"
    "\<forall>(k, v) \<in> set (map_entries x). \<exists>v2. key_view y k = Some v2 \<and> R v v2"
    by (auto simp: map_eq_keyed [OF kh])
  note ix = keyed_index(1) [OF kh m(1)] and iy = keyed_index(1) [OF kh m(2)]
  have "dom (map_index x) = dom (map_index y)"
  proof (rule index_same_dom [OF ix iy])
    show "length (map fst (map_entries x)) = length (map fst (map_entries y))"
      using m(3) by (simp add: om_len_def)
    fix k assume "k \<in> set (map fst (map_entries x))"
    with m(4) obtain v2 where "key_view y k = Some v2" by fastforce
    then show "\<exists>g. val_hash_key k = Some g \<and> map_index y g \<noteq> None"
      by (auto simp: key_view_def om_view_def split: option.splits)
  qed
  have "\<exists>v2. key_view x k = Some v2 \<and> R v2 v" if kv: "(k, v) \<in> set (map_entries y)" for k v
  proof -
    from index_keys_project [OF iy, of k] kv obtain g where
      g: "val_hash_key k = Some g" "g \<in> dom (map_index y)" by force
    with \<open>dom (map_index x) = dom (map_index y)\<close> have "g \<in> dom (map_index x)" by simp
    with g obtain v2 where v2: "key_view x k = Some v2"
      by (auto simp: key_view_def om_view_def)
    from key_view_entryD [OF ix v2] obtain k' where
      k': "(k', v2) \<in> set (map_entries x)" "val_hash_key k' = val_hash_key k" by blast
    with m(4) obtain w where "key_view y k' = Some w" "R v2 w" by auto
    moreover have "key_view y k' = key_view y k" using k'(2) by (simp add: key_view_def)
    ultimately have "R v2 v" using key_view_entry [OF iy kv] by simp
    with v2 show ?thesis by simp
  qed
  with m(1-3) show ?thesis unfolding map_eq_keyed [OF kh] by (metis (mono_tags, lifting) case_prodI2)
qed

lemma set_eq_conv:
  assumes kh: "keyed_heap h" and me: "set_eq h R r q"
  shows "set_eq h S q r"
proof -
  from me obtain x y where m: "heap_set h r = Some x" "heap_set h q = Some y" "os_len x = os_len y"
    "\<forall>k \<in> set (set_items x). has_key y k"
    by (auto simp: set_eq_keyed [OF kh])
  note ix = keyed_index(2) [OF kh m(1)] and iy = keyed_index(2) [OF kh m(2)]
  have d: "dom (set_index x) = dom (set_index y)"
    by (rule index_same_dom [OF ix iy])
       (use m(3,4) in \<open>auto simp: os_len_def has_key_def split: option.splits\<close>)
  have "has_key x k" if "k \<in> set (set_items y)" for k
  proof -
    from index_keys_project [OF iy that] obtain g where
      "val_hash_key k = Some g" "g \<in> dom (set_index y)" by auto
    with d have "g \<in> dom (set_index x)" by simp
    with \<open>val_hash_key k = Some g\<close> show ?thesis by (auto simp: has_key_def)
  qed
  with m(1-3) show ?thesis unfolding set_eq_keyed [OF kh] by auto
qed

lemma node_eq_conv:
  assumes kh: "keyed_heap h" and ne: "node_eq h R a b"
  shows "node_eq h (\<lambda>x y. R y x) b a"
  using ne
proof (cases rule: node_eq_cases)
  case leaf
  then show ?thesis by (simp add: node_eq_intros leaf_eq_sym)
next
  case (vector r q)
  then obtain x y where "heap_vector h r = Some x" "heap_vector h q = Some y" "list_all2 R x y"
    by (auto simp: vector_eq_list)
  then show ?thesis
    by (simp add: vector node_eq_intros vector_eq_list list_all2_conv_all_nth)
next
  case (struct r q)
  then obtain shp x y where "heap_struct h r = Some (shp, x)" "heap_struct h q = Some (shp, y)"
    "list_all2 R x y"
    by (auto simp: struct_eq_list)
  then show ?thesis
    by (simp add: struct node_eq_intros struct_eq_list list_all2_conv_all_nth)
qed (use map_eq_conv [OF kh] set_eq_conv [OF kh] in
    \<open>simp_all add: node_eq_intros list_all2_conv_all_nth\<close>)

lemma map_eq_comp:
  assumes kh: "keyed_heap h" and xy: "map_eq h R r q" and yz: "map_eq h S q t"
  shows "map_eq h (R OO S) r t"
proof -
  from xy obtain x y where mx: "heap_map h r = Some x" "heap_map h q = Some y" "om_len x = om_len y"
    "\<forall>(k, v) \<in> set (map_entries x). \<exists>v2. key_view y k = Some v2 \<and> R v v2"
    unfolding map_eq_keyed [OF kh] by blast
  from yz mx(2) obtain z where mz: "heap_map h t = Some z" "om_len y = om_len z"
    "\<forall>(k, v) \<in> set (map_entries y). \<exists>v2. key_view z k = Some v2 \<and> S v v2"
    unfolding map_eq_keyed [OF kh] by auto
  from mx(3) mz(2) have len: "om_len x = om_len z" by simp
  note m = mx(1,2) mz(1) len mx(4) mz(3)
  note iy = keyed_index(1) [OF kh m(2)]
  have "\<exists>v3. key_view z k = Some v3 \<and> (R OO S) v v3" if "(k, v) \<in> set (map_entries x)" for k v
  proof -
    from m(5) that obtain v2 where v2: "key_view y k = Some v2" "R v v2" by auto
    from key_view_entryD [OF iy v2(1)] obtain k' where
      k': "(k', v2) \<in> set (map_entries y)" "val_hash_key k' = val_hash_key k" by blast
    with m(6) obtain v3 where "key_view z k' = Some v3" "S v2 v3" by auto
    with k'(2) v2(2) show ?thesis by (auto simp: key_view_def)
  qed
  with m(1,3,4) show ?thesis unfolding map_eq_keyed [OF kh] by blast
qed

lemma set_eq_comp:
  assumes kh: "keyed_heap h" and xy: "set_eq h R r q" and yz: "set_eq h S q t"
  shows "set_eq h T r t"
proof -
  from xy obtain x y where mx: "heap_set h r = Some x" "heap_set h q = Some y" "os_len x = os_len y"
    "\<forall>k \<in> set (set_items x). has_key y k"
    unfolding set_eq_keyed [OF kh] by blast
  from yz mx(2) obtain z where mz: "heap_set h t = Some z" "os_len y = os_len z"
    "\<forall>k \<in> set (set_items y). has_key z k"
    unfolding set_eq_keyed [OF kh] by auto
  from mx(3) mz(2) have len: "os_len x = os_len z" by simp
  note m = mx(1,2) mz(1) len mx(4) mz(3)
  note iy = keyed_index(2) [OF kh m(2)]
  have "has_key z k" if "k \<in> set (set_items x)" for k
  proof -
    from m(5) that obtain g p where g: "val_hash_key k = Some g" "set_index y g = Some p"
      by (auto simp: has_key_def split: option.splits)
    with iy have "p < length (set_items y)" "val_hash_key (set_items y ! p) = Some g"
      by (auto simp: index_ok_def)
    with m(6) g(1) show ?thesis by (auto simp: has_key_def dest!: bspec [OF _ nth_mem])
  qed
  with m(1,3,4) show ?thesis unfolding set_eq_keyed [OF kh] by blast
qed

lemma list_all2_OO: "list_all2 R x y \<Longrightarrow> list_all2 S y z \<Longrightarrow> list_all2 (R OO S) x z"
  by (auto simp: list.rel_compp)

lemma node_eq_comp:
  assumes kh: "keyed_heap h" and ab: "node_eq h R a b" and bc: "node_eq h S b c"
  shows "node_eq h (R OO S) a c"
  using ab
proof (cases rule: node_eq_cases)
  case leaf
  with bc show ?thesis by (auto simp: node_eq_leaf intro: leaf_eq_trans)
next
  case (vector r q)
  from bc vector show ?thesis
    by (cases rule: node_eq_cases) (fastforce simp: node_eq_intros vector_eq_list dest: list_all2_OO)+
next
  case (struct r q)
  from bc struct show ?thesis
    by (cases rule: node_eq_cases) (fastforce simp: node_eq_intros struct_eq_list dest: list_all2_OO)+
next
  case (map_case r q)
  from bc map_case show ?thesis
    by (cases rule: node_eq_cases) (auto intro: map_eq_comp [OF kh] node_eq_intros)
next
  case (set r q)
  from bc set show ?thesis
    by (cases rule: node_eq_cases) (auto intro: set_eq_comp [OF kh] node_eq_intros)
next
  case (tuple p x q y)
  from bc tuple show ?thesis
    by (cases rule: node_eq_cases) (auto simp: node_eq_intros dest: list_all2_OO)
next
  case (some p x q y)
  from bc some show ?thesis
    by (cases rule: node_eq_cases) (auto intro: node_eq_intros relcomppI)
next
  case (enum p shp k x q y)
  from bc enum show ?thesis
    by (cases rule: node_eq_cases) (auto simp: node_eq_intros dest: list_all2_OO)
qed

lemma list_all2_INF: "(\<And>n. list_all2 (P n) x y) \<Longrightarrow> list_all2 (\<lambda>c e. \<forall>n. P n c e) x y"
  by (auto simp: list_all2_conv_all_nth)

lemma node_eq_INF:
  assumes kh: "keyed_heap h" and ne: "\<And>n :: nat. node_eq h (P n) a b"
  shows "node_eq h (\<lambda>c e. \<forall>n. P n c e) a b"
  using ne [of 0]
proof (cases rule: node_eq_cases)
  case (vector r q)
  with ne have "\<And>n. vector_eq h (P n) r q" by (simp add: node_eq_def)
  moreover from vector(3) obtain x y where
    v: "heap_vector h r = Some x" "heap_vector h q = Some y" by (auto simp: vector_eq_list)
  ultimately have "list_all2 (P n) x y" for n by (simp add: vector_eq_list)
  then have "list_all2 (\<lambda>c e. \<forall>n. P n c e) x y" by (rule list_all2_INF)
  with v show ?thesis by (simp add: vector node_eq_intros vector_eq_list)
next
  case (struct r q)
  with ne have "\<And>n. struct_eq h (P n) r q" by (simp add: node_eq_def)
  moreover from struct(3) obtain shp x y where
    v: "heap_struct h r = Some (shp, x)" "heap_struct h q = Some (shp, y)" by (auto simp: struct_eq_list)
  ultimately have "list_all2 (P n) x y" for n by (simp add: struct_eq_list)
  then have "list_all2 (\<lambda>c e. \<forall>n. P n c e) x y" by (rule list_all2_INF)
  with v show ?thesis by (simp add: struct node_eq_intros struct_eq_list)
next
  case (map_case r q)
  with ne have me: "\<And>n. map_eq h (P n) r q" by (simp add: node_eq_def)
  from map_case(3) obtain x y where
    m: "heap_map h r = Some x" "heap_map h q = Some y" "om_len x = om_len y"
    by (auto simp: map_eq_keyed [OF kh])
  have all: "\<forall>(k, v) \<in> set (map_entries x). \<exists>v2. key_view y k = Some v2 \<and> P n v v2" for n
    using me [of n] m by (simp add: map_eq_keyed [OF kh])
  have "\<exists>v2. key_view y k = Some v2 \<and> (\<forall>n. P n v v2)" if kv: "(k, v) \<in> set (map_entries x)" for k v
  proof -
    from all [of 0] kv obtain v2 where v2: "key_view y k = Some v2" by auto
    have "P n v v2" for n using all [of n] kv v2 by auto
    with v2 show ?thesis by simp
  qed
  with m have "map_eq h (\<lambda>c e. \<forall>n. P n c e) r q" unfolding map_eq_keyed [OF kh] by blast
  then show ?thesis by (simp add: map_case node_eq_intros)
next
  case (set r q)
  then show ?thesis by (simp add: node_eq_intros set_eq_keyed [OF kh])
next
  case (tuple p x q y)
  with ne show ?thesis
    by (auto simp: node_eq_def all_zip_list_all2 intro!: list_all2_INF)
next
  case (enum p shp k x q y)
  with ne show ?thesis
    by (auto simp: node_eq_def all_zip_list_all2 intro!: list_all2_INF)
next
  case (some p x q y)
  with ne show ?thesis by (auto simp: node_eq_def)
qed (simp add: node_eq_intros)

section \<open>Equality is bisimilarity\<close>

definition bisimulation :: "heap \<Rightarrow> (val \<Rightarrow> val \<Rightarrow> bool) \<Rightarrow> bool" where
  "bisimulation h R \<longleftrightarrow> (\<forall>a b. R a b \<longrightarrow> node_eq h R a b)"

definition bisimilar :: "heap \<Rightarrow> val \<Rightarrow> val \<Rightarrow> bool" where
  "bisimilar h a b \<longleftrightarrow> (\<exists>R. bisimulation h R \<and> R a b)"

primrec approx :: "nat \<Rightarrow> heap \<Rightarrow> val \<Rightarrow> val \<Rightarrow> bool" where
  "approx 0 h a b \<longleftrightarrow> True"
| "approx (Suc n) h a b \<longleftrightarrow> node_eq h (approx n h) a b"

text \<open>The references a comparison follows name cells of their kind.\<close>

fun val_ok :: "heap \<Rightarrow> val \<Rightarrow> bool" where
  "val_ok h (VVector r) \<longleftrightarrow> heap_vector h r \<noteq> None"
| "val_ok h (VMap r) \<longleftrightarrow> heap_map h r \<noteq> None"
| "val_ok h (VSet r) \<longleftrightarrow> heap_set h r \<noteq> None"
| "val_ok h (VStruct r) \<longleftrightarrow> heap_struct h r \<noteq> None"
| "val_ok h (VTuple _ xs) \<longleftrightarrow> (\<forall>x \<in> set xs. val_ok h x)"
| "val_ok h (VSome _ x) \<longleftrightarrow> val_ok h x"
| "val_ok h (VEnum _ _ _ xs) \<longleftrightarrow> (\<forall>x \<in> set xs. val_ok h x)"
| "val_ok h _ \<longleftrightarrow> True"

definition kinded_heap :: "heap \<Rightarrow> bool" where
  "kinded_heap h \<longleftrightarrow> (\<forall>c \<in> set (cells h). \<forall>v \<in> set (values_of c). val_ok h v)"

lemma kinded_cell: "kinded_heap h \<Longrightarrow> cell_at h r = Some c \<Longrightarrow> v \<in> set (values_of c) \<Longrightarrow> val_ok h v"
  by (auto simp: kinded_heap_def cell_at_def split: if_splits)

lemma val_ok_kids: "kinded_heap h \<Longrightarrow> val_ok h a \<Longrightarrow> c \<in> set (kids h a) \<Longrightarrow> val_ok h c"
proof -
  assume kd: "kinded_heap h" and a: "val_ok h a" and c: "c \<in> set (kids h a)"
  have m: "(k, v) \<in> set (map_entries m) \<Longrightarrow> v \<in> set (values_of (CMap m))" for k v m
    by (force simp: entry_values_def)
  show ?thesis
    using a c by (cases a) (auto simp: heap_vector_def heap_map_def heap_struct_def
        split: option.splits heap_cell.splits dest: m kinded_cell [OF kd])
qed

definition handle :: "heap \<Rightarrow> gc_ref \<Rightarrow> val" where
  "handle h r =
     (case cell_at h r of
        Some (CVector _) \<Rightarrow> VVector r
      | Some (CMap _) \<Rightarrow> VMap r
      | Some (CSet _) \<Rightarrow> VSet r
      | Some (CStruct _ _) \<Rightarrow> VStruct r
      | _ \<Rightarrow> VUnit)"

lemma handle_cell_pair:
  "val_ok h a \<Longrightarrow> val_ok h b \<Longrightarrow> cell_pair a b = Some (x, y) \<Longrightarrow> handle h x = a \<and> handle h y = b"
  by (cases a; cases b)
     (auto simp: cell_pair_def handle_def heap_vector_def heap_map_def heap_set_def heap_struct_def
      split: option.splits heap_cell.splits)

definition assumed_set :: "assumed option \<Rightarrow> assumed" where
  "assumed_set as = (case as of Some s \<Rightarrow> s | None \<Rightarrow> {})"

lemma assumed_set_simps [simp]: "assumed_set None = {}" "assumed_set (Some s) = s"
  by (simp_all add: assumed_set_def)

text \<open>Unless the pair is assumed, one step of the comparison is one level, with at most that pair
  added to what is assumed below.\<close>

lemma eq_at_step:
  assumes "eq_at h a b depth as" and "\<And>p. cell_pair a b = Some p \<Longrightarrow> p \<notin> assumed_set as"
  obtains as' where "node_eq h (\<lambda>a b. eq_at h a b (Suc depth) as') a b"
    and "\<And>p. p \<in> assumed_set as' \<Longrightarrow> p \<in> assumed_set as \<or> cell_pair a b = Some p"
proof (cases "cell_pair a b")
  case None
  with assms(1) that [of as] show ?thesis by (simp add: eq_at_node [of h a b depth as])
next
  case (Some p)
  show ?thesis
  proof (cases "depth < cycle_guard_depth")
    case True
    with assms(1) Some that [of as] show ?thesis
      by (simp add: eq_at_node [of h a b depth as] coinductive_eq_def)
  next
    case False
    with assms Some that [of "Some (insert p (assumed_set as))"] show ?thesis
      by (auto simp: eq_at_node [of h a b depth as] coinductive_eq_def assuming_def assumed_set_def
          split: option.splits)
  qed
qed

lemma eq_at_sound:
  assumes kh: "keyed_heap h" and kd: "kinded_heap h"
  shows "val_ok h a \<Longrightarrow> val_ok h b \<Longrightarrow> eq_at h a b depth as \<Longrightarrow> \<not> approx n h a b \<Longrightarrow>
    \<exists>(x, y) \<in> assumed_set as. \<exists>m \<le> n. \<not> approx m h (handle h x) (handle h y)"
proof (induction n arbitrary: a b depth as rule: less_induct)
  case (less n)
  show ?case
  proof (cases "\<exists>p. cell_pair a b = Some p \<and> p \<in> assumed_set as")
    case True
    then obtain x y where xy: "cell_pair a b = Some (x, y)" "(x, y) \<in> assumed_set as" by auto
    from handle_cell_pair [OF less.prems(1,2) xy(1)] less.prems(4)
    have "\<exists>m \<le> n. \<not> approx m h (handle h x) (handle h y)" by blast
    with xy(2) show ?thesis by blast
  next
    case False
    obtain k where k: "n = Suc k" using less.prems(4) by (cases n) auto
    from eq_at_step [OF less.prems(3)] False obtain as' where
      as': "node_eq h (\<lambda>a b. eq_at h a b (Suc depth) as') a b"
        "\<And>p. p \<in> assumed_set as' \<Longrightarrow> p \<in> assumed_set as \<or> cell_pair a b = Some p"
      by metis
    obtain c e where ce: "c \<in> set (kids h a)" "e \<in> set (kids h b)" "eq_at h c e (Suc depth) as'"
      "\<not> approx k h c e"
      using node_eq_mono [OF kh as'(1), of "approx k h"] less.prems(4) k by auto
    from less.IH [of k c e "Suc depth" as'] ce k val_ok_kids [OF kd] less.prems(1,2) obtain x y m where
      xy: "(x, y) \<in> assumed_set as'" "m \<le> k" "\<not> approx m h (handle h x) (handle h y)"
      by blast
    show ?thesis
    proof (cases "(x, y) \<in> assumed_set as")
      case True
      moreover have "m \<le> n" using xy(2) k by simp
      ultimately show ?thesis using xy(3) by blast
    next
      case False
      with as'(2) xy(1) have "cell_pair a b = Some (x, y)" by blast
      with handle_cell_pair [OF less.prems(1,2)] xy(3) have "\<not> approx m h a b" by auto
      from less.IH [OF _ less.prems(1-3) this] xy(2) k obtain z m' where
        "z \<in> assumed_set as" "m' \<le> m" "\<not> approx m' h (handle h (fst z)) (handle h (snd z))"
        by auto
      moreover then have "m' \<le> n" using xy(2) k by simp
      ultimately show ?thesis by (cases z) auto
    qed
  qed
qed

lemma approx_bisimulation:
  assumes kh: "keyed_heap h"
  shows "bisimulation h (\<lambda>a b. \<forall>n. approx n h a b)"
  unfolding bisimulation_def
proof (intro allI impI)
  fix a b assume "\<forall>n. approx n h a b"
  then have "node_eq h (approx n h) a b" for n by (metis approx.simps(2))
  then show "node_eq h (\<lambda>a b. \<forall>n. approx n h a b) a b" by (rule node_eq_INF [OF kh])
qed

lemma cell_pair_in_arena: "cell_pair a b = Some p \<Longrightarrow> node_eq h R a b \<Longrightarrow> in_arena h p"
  by (cases a; cases b)
     (auto simp: cell_pair_def node_eq_def in_arena_def vector_eq_def map_eq_def set_eq_def struct_eq_def
      dest: in_arena_cell split: option.splits)

lemma kids_size: "composite a \<Longrightarrow> cell_pair a b = None \<Longrightarrow> node_eq h R a b \<Longrightarrow> c \<in> set (kids h a) \<Longrightarrow> size c < size a"
  by (cases a; cases b)
     (auto simp: cell_pair_def node_eq_def less_Suc_eq_le intro: size_list_estimation')

lemma eq_at_complete:
  assumes kh: "keyed_heap h" and R: "bisimulation h R"
  shows "R a b \<Longrightarrow> eq_at h a b depth as"
proof (induction "(a, b, depth, as)" arbitrary: a b depth as
    rule: wf_induct_rule [OF wf_measures [of "[\<lambda>(a, b, depth, as). spare_pairs h as,
      \<lambda>(a, b, depth, as). cycle_guard_depth - depth, \<lambda>(a, b, depth, as). size a]"]])
  case (1 a b depth as)
  from R "1.prems" have ne: "node_eq h R a b" by (simp add: bisimulation_def)
  show ?case
  proof (cases "cell_pair a b")
    case None
    have "node_eq h (\<lambda>a b. eq_at h a b (Suc depth) as) a b"
    proof (rule node_eq_mono [OF kh ne])
      fix c e assume ce: "c \<in> set (kids h a)" "R c e"
      have "composite a" using ce(1) by (cases a) auto
      from kids_size [OF this None ne ce(1)] have "size c < size a" .
      then show "eq_at h c e (Suc depth) as" by (intro "1.hyps" ce(2)) auto
    qed
    with None show ?thesis by (simp add: eq_at_node [of h a b depth as])
  next
    case (Some p)
    note ar = cell_pair_in_arena [OF Some ne]
    have go: "node_eq h (\<lambda>a b. eq_at h a b (Suc depth) as') a b"
      if "spare_pairs h as' < spare_pairs h as \<or> as' = as \<and> depth < cycle_guard_depth" for as'
      by (rule node_eq_mono [OF kh ne], rule "1.hyps") (use that in auto)
    show ?thesis
    proof (cases "depth < cycle_guard_depth")
      case True
      then show ?thesis using go [of as] Some
        by (simp add: eq_at_node [of h a b depth as] coinductive_eq_def)
    next
      case False
      have "node_eq h (\<lambda>a b. eq_at h a b (Suc depth) (Some (insert p (assumed_set as)))) a b"
        if "p \<notin> assumed_set as"
        using that spare_pairs_insert [OF ar, of "assumed_set as" as] by (intro go) (simp add: assumed_set_def)
      then show ?thesis using False Some
        by (auto simp: eq_at_node [of h a b depth as] coinductive_eq_def assuming_def assumed_set_def
            split: option.splits)
    qed
  qed
qed

lemma eq_at_bisimilar:
  assumes "keyed_heap h" and "kinded_heap h" and "val_ok h a" and "val_ok h b"
  shows "eq_at h a b depth None \<longleftrightarrow> bisimilar h a b"
proof
  assume "eq_at h a b depth None"
  with eq_at_sound [OF assms] have "\<forall>n. approx n h a b" by fastforce
  with approx_bisimulation [OF assms(1)] show "bisimilar h a b" unfolding bisimilar_def by blast
next
  assume "bisimilar h a b"
  then show "eq_at h a b depth None"
    unfolding bisimilar_def using eq_at_complete [OF assms(1)] by blast
qed

lemma bisimilar_sym: "keyed_heap h \<Longrightarrow> bisimilar h a b \<Longrightarrow> bisimilar h b a"
  unfolding bisimilar_def bisimulation_def
  by (elim exE conjE, rule_tac x = "\<lambda>x y. R y x" in exI) (auto intro: node_eq_conv)

lemma bisimilar_trans: "keyed_heap h \<Longrightarrow> bisimilar h a b \<Longrightarrow> bisimilar h b c \<Longrightarrow> bisimilar h a c"
  unfolding bisimilar_def bisimulation_def
  by (elim exE conjE, rule_tac x = "R OO Ra" in exI) (auto intro!: node_eq_comp)

section \<open>Hash keys agree with equality\<close>

lemma tuple_key_simps [simp]:
  "Some (HInt i) \<noteq> map_option HTuple z" "Some (HStr s) \<noteq> map_option HTuple z"
  "Some (HChar c) \<noteq> map_option HTuple z" "Some (HBool t) \<noteq> map_option HTuple z"
  by (cases z; simp)+

lemma hash_key_agrees_at:
  "val_hash_key a = Some g \<Longrightarrow> val_hash_key b = Some k \<Longrightarrow> eq_at h a b depth as \<longleftrightarrow> g = k"
  "vals_hash_keys xs = Some gs \<Longrightarrow> vals_hash_keys ys = Some ks \<Longrightarrow>
     (length xs = length ys \<and> all_zip (\<lambda>a b. eq_at h a b depth as) xs ys) \<longleftrightarrow> gs = ks"
proof (induction a and xs arbitrary: b g k depth and ys gs ks depth
    rule: val_hash_key_vals_hash_keys.induct)
  case (5 p xs)
  then show ?case
    by (cases b) (auto simp: eq_at.simps [of h "VTuple p xs"] eq_at.simps [of h "VInt _"] split: val.splits)
next
  case 7
  then show ?case by (cases ys) (auto simp: all_zip_def split: option.splits)
next
  case (8 x xs)
  from "8.prems"(1) obtain g gs' where g: "val_hash_key x = Some g" "vals_hash_keys xs = Some gs'" "gs = g # gs'"
    by (auto split: option.splits)
  show ?case
  proof (cases ys)
    case Nil
    with "8.prems"(2) g show ?thesis by simp
  next
    case (Cons y ys')
    from "8.prems"(2) obtain k ks' where
      k: "val_hash_key y = Some k" "vals_hash_keys ys' = Some ks'" "ks = k # ks'"
      unfolding Cons by (auto split: option.splits)
    from "8.IH"(1) [OF g(1) k(1), of depth] "8.IH"(2) [OF g(1) g(2) k(2), of depth] show ?thesis
      by (auto simp: Cons g k all_zip_def)
  qed
qed (auto simp: eq_at.simps leaf_eq_def elim!: val_hash_key.elims split: val.splits)

lemma hash_key_agrees:
  "val_hash_key a = Some g \<Longrightarrow> val_hash_key b = Some k \<Longrightarrow> value_eq h a b \<longleftrightarrow> g = k"
  unfolding value_eq_def by (rule hash_key_agrees_at(1))

interpretation val_table: hash_keyed val_hash_key "value_eq h" for h
  by unfold_locales (rule hash_key_agrees)

section \<open>Properties\<close>

text \<open>C15: The comparison with its guard depth and its set of assumed pairs always ends, and on
  well-kinded heaps whose keys project it decides bisimilarity: two values, cyclic or not,
  are equal exactly when no finite unfolding tells them apart.\<close>

theorem value_eq_is_bisimilarity:
  assumes "keyed_heap h" and "kinded_heap h" and "val_ok h a" and "val_ok h b"
  shows "value_eq h a b \<longleftrightarrow> bisimilar h a b"
  unfolding value_eq_def by (rule eq_at_bisimilar [OF assms])

text \<open>Two cyclic vectors of different periods.\<close>

definition cyclic_heap :: heap where
  "cyclic_heap = (heap_new 48 0)\<lparr>cells :=
     [CVector [VInt 1, VVector 0], CVector [VInt 1, VVector 2], CVector [VInt 1, VVector 1]]\<rparr>"

lemma cyclic_heap_ok: "keyed_heap cyclic_heap" "kinded_heap cyclic_heap"
  by (auto simp: keyed_heap_def kinded_heap_def cyclic_heap_def heap_map_def heap_set_def
      heap_vector_def cell_at_def less_Suc_eq split: option.splits heap_cell.splits if_splits)

lemma value_eq_is_bisimilarity_witness:
  "value_eq cyclic_heap (VVector 0) (VVector 1)"
proof -
  let ?R = "\<lambda>a b. (\<exists>i. a = VInt i \<and> b = VInt i) \<or> (a = VVector 0 \<and> (b = VVector 1 \<or> b = VVector 2))"
  have "bisimulation cyclic_heap ?R"
    unfolding bisimulation_def
    by (auto simp: node_eq_def leaf_eq_def vector_eq_list heap_vector_def cell_at_def cyclic_heap_def)
  then have "bisimilar cyclic_heap (VVector 0) (VVector 1)" unfolding bisimilar_def by blast
  moreover have "val_ok cyclic_heap (VVector 0)" "val_ok cyclic_heap (VVector 1)"
    by (simp_all add: heap_vector_def cell_at_def cyclic_heap_def)
  ultimately show ?thesis using value_eq_is_bisimilarity cyclic_heap_ok by blast
qed

text \<open>Equality is symmetric and transitive, although maps and sets are compared by looking
  the keys of one side up in the other.\<close>

theorem value_eq_partial_equivalence:
  assumes "keyed_heap h" and "kinded_heap h" and "val_ok h a" and "val_ok h b" and "val_ok h c"
  shows "(value_eq h a b \<longleftrightarrow> value_eq h b a) \<and> (value_eq h a b \<and> value_eq h b c \<longrightarrow> value_eq h a c)"
  using eq_at_bisimilar [OF assms(1,2)] bisimilar_sym [OF assms(1)] bisimilar_trans [OF assms(1)] assms(3-)
  unfolding value_eq_def by metis

lemma value_eq_partial_equivalence_witness:
  "value_eq cyclic_heap (VVector 1) (VVector 0) = value_eq cyclic_heap (VVector 0) (VVector 1)"
proof -
  have "val_ok cyclic_heap (VVector 0)" "val_ok cyclic_heap (VVector 1)"
    by (simp_all add: heap_vector_def cell_at_def cyclic_heap_def)
  with value_eq_partial_equivalence [OF cyclic_heap_ok] show ?thesis by blast
qed

text \<open>C24: The hashed map is the linear scan it replaced: for any keys, projecting or not, every
  operation with the machine's equality gives what scanning the entries in insertion order
  gives, and keeps the index consistent.\<close>

theorem map_operations_are_scans:
  assumes "om_inv val_hash_key m"
  shows "om_get val_hash_key m k (value_eq h) = scan_get (value_eq h) (map_entries m) k \<and>
    map_entries (om_insert val_hash_key m k v (value_eq h)) = scan_insert (value_eq h) (map_entries m) k v \<and>
    (fst (om_remove val_hash_key m k (value_eq h)),
     map_entries (snd (om_remove val_hash_key m k (value_eq h)))) =
      scan_remove (value_eq h) (map_entries m) k \<and>
    om_inv val_hash_key (om_insert val_hash_key m k v (value_eq h)) \<and>
    om_inv val_hash_key (snd (om_remove val_hash_key m k (value_eq h)))"
  using assms val_table.om_get_scan val_table.om_insert_scan val_table.om_remove_scan
    val_table.om_insert_inv val_table.om_remove_inv by blast

lemma map_operations_are_scans_witness:
  "om_get val_hash_key (om_insert val_hash_key om_new (VInt 1) VUnit (value_eq cyclic_heap)) (VInt 1)
     (value_eq cyclic_heap) = scan_get (value_eq cyclic_heap) [(VInt 1, VUnit)] (VInt 1)"
proof -
  have new: "om_inv val_hash_key om_new" by (simp add: om_inv_def om_new_def)
  have i: "om_inv val_hash_key (om_insert val_hash_key om_new (VInt 1) VUnit (value_eq cyclic_heap))"
    using map_operations_are_scans [OF new] by blast
  have "map_entries (om_insert val_hash_key om_new (VInt 1) VUnit (value_eq cyclic_heap)) = [(VInt 1, VUnit)]"
    by (simp add: om_insert_def om_position_def om_new_def)
  with map_operations_are_scans [OF i, of "VInt 1" cyclic_heap] show ?thesis by simp
qed

text \<open>A map literal or any sequence of insertions of hashable keys answers every hashable
  lookup with the last value inserted under an equal key.\<close>

theorem map_insertions_last_wins:
  assumes "\<forall>(k, v) \<in> set kvs. val_hash_key k \<noteq> None" and "val_hash_key key = Some g"
  shows "om_get val_hash_key (foldl (\<lambda>m (k, v). om_insert val_hash_key m k v (value_eq h)) om_new kvs)
      key (value_eq h) =
    map_of (rev (map (\<lambda>(k, v). (the (val_hash_key k), v)) kvs)) g"
  by (rule val_table.keyed.lookup_literal [OF assms])

lemma map_insertions_last_wins_witness:
  "om_get val_hash_key (foldl (\<lambda>m (k, v). om_insert val_hash_key m k v (value_eq cyclic_heap)) om_new
     [(VInt 1, VBool False), (VStr ''a'', VUnit), (VInt 1, VBool True)]) (VInt 1) (value_eq cyclic_heap) =
   Some (VBool True)"
  using map_insertions_last_wins
    [of "[(VInt 1, VBool False), (VStr ''a'', VUnit), (VInt 1, VBool True)]" "VInt 1" "HInt 1" cyclic_heap]
  by simp

end
