(* ===== verification/Source_Text.thy ===== *)
theory Source_Text
  imports Brasa_Prelude
begin

text \<open>
  Sources and positions (\<open>brasa_source\<close>, \<open>brasa_arena\<close>): the append-only \<open>Store\<close> with its
  ids, spans, source files with their table of line starts, the path-interning source map, and
  the conversion of a byte position into a line and a column. A position is a \<open>u32\<close>, kept as
  a natural number; the cast from \<open>usize\<close> is written as a remainder. \<open>None\<close> is a Rust
  panic.
\<close>

section \<open>The arena store\<close>

type_synonym 'a store = "'a list"
type_synonym store_id = nat

definition store_alloc :: "'a \<Rightarrow> 'a store \<Rightarrow> store_id \<times> 'a store" where
  "store_alloc v s = (length s mod 2 ^ 32, s @ [v])"

definition store_try_get :: "'a store \<Rightarrow> store_id \<Rightarrow> 'a option" where
  "store_try_get s ix = (if ix < length s then Some (s ! ix) else None)"

definition store_get :: "'a store \<Rightarrow> store_id \<Rightarrow> 'a option" where
  "store_get s ix = (if ix < length s then Some (s ! ix) else None)"

section \<open>Spans\<close>

type_synonym byte_position = nat

record span =
  span_start :: byte_position
  span_end :: byte_position
  span_file :: store_id

definition span_new :: "store_id \<Rightarrow> byte_position \<Rightarrow> byte_position \<Rightarrow> span option" where
  "span_new f start stop =
     (if start \<le> stop then Some \<lparr>span_start = start, span_end = stop, span_file = f\<rparr> else None)"

definition span_merge :: "span \<Rightarrow> span \<Rightarrow> span option" where
  "span_merge a b =
     (if span_file a = span_file b
      then Some \<lparr>span_start = min (span_start a) (span_start b),
                 span_end = max (span_end a) (span_end b), span_file = span_file a\<rparr>
      else None)"

definition span_len :: "span \<Rightarrow> nat" where
  "span_len s = (if span_start s \<le> span_end s then span_end s - span_start s else 0)"

definition span_is_empty :: "span \<Rightarrow> bool" where
  "span_is_empty s \<longleftrightarrow> span_len s = 0"

section \<open>Source files\<close>

definition newline :: char where "newline = CHR 0x0A"

fun newline_starts :: "nat \<Rightarrow> string \<Rightarrow> byte_position list" where
  "newline_starts i [] = []"
| "newline_starts i (b # bs) =
     (if b = newline then (i + 1) mod 2 ^ 32 # newline_starts (Suc i) bs else newline_starts (Suc i) bs)"

definition compute_line_starts :: "string \<Rightarrow> byte_position list" where
  "compute_line_starts text = 0 # newline_starts 0 text"

record source_file =
  file_path :: string
  file_text :: string
  line_starts :: "byte_position list"

definition source_file_new :: "string \<Rightarrow> string \<Rightarrow> source_file" where
  "source_file_new path text =
     \<lparr>file_path = path, file_text = text, line_starts = compute_line_starts text\<rparr>"

definition len_bytes :: "source_file \<Rightarrow> nat" where
  "len_bytes f = length (file_text f) mod 2 ^ 32"

record source_map =
  map_files :: "source_file store"
  by_path :: "(string \<times> store_id) list"

definition source_map_new :: source_map where
  "source_map_new = \<lparr>map_files = [], by_path = []\<rparr>"

definition lookup_by_path :: "source_map \<Rightarrow> string \<Rightarrow> store_id option" where
  "lookup_by_path m path = map_of (by_path m) path"

definition add_file :: "string \<Rightarrow> string \<Rightarrow> source_map \<Rightarrow> store_id \<times> source_map" where
  "add_file path text m =
     (case map_of (by_path m) path of
        Some ix \<Rightarrow> (ix, m)
      | None \<Rightarrow>
          (let (ix, files) = store_alloc (source_file_new path text) (map_files m)
           in (ix, m\<lparr>map_files := files, by_path := (path, ix) # by_path m\<rparr>)))"

definition add_virtual :: "string \<Rightarrow> string \<Rightarrow> source_map \<Rightarrow> store_id \<times> source_map" where
  "add_virtual label text m =
     (let (ix, files) = store_alloc (source_file_new (''<'' @ label @ ''>'') text) (map_files m)
      in (ix, m\<lparr>map_files := files\<rparr>))"

function bisect_line :: "byte_position list \<Rightarrow> byte_position \<Rightarrow> nat \<Rightarrow> nat \<Rightarrow> nat" where
  "bisect_line starts pos lo hi =
     (if lo + 1 < hi then
        (let mid = (lo + hi) div 2
         in if starts ! mid \<le> pos then bisect_line starts pos mid hi else bisect_line starts pos lo mid)
      else lo)"
  by pat_completeness auto
termination by (relation "measure (\<lambda>(starts, pos, lo, hi). hi - lo)") auto

declare bisect_line.simps [simp del]

definition upper_bound_line :: "byte_position list \<Rightarrow> byte_position \<Rightarrow> nat" where
  "upper_bound_line starts pos = bisect_line starts pos 0 (length starts)"

definition unicode_column :: "string \<Rightarrow> nat" where
  "unicode_column bytes = (case from_utf8 bytes of Some cs \<Rightarrow> length cs | None \<Rightarrow> length bytes)"

definition display_line_col :: "source_map \<Rightarrow> store_id \<Rightarrow> byte_position \<Rightarrow> (nat \<times> nat) option" where
  "display_line_col m file pos =
     (case store_get (map_files m) file of
        None \<Rightarrow> None
      | Some f \<Rightarrow>
          (let line = upper_bound_line (line_starts f) pos; start = line_starts f ! line
           in if start \<le> pos \<and> pos \<le> length (file_text f)
              then Some (line mod 2 ^ 32 + 1,
                         unicode_column (drop start (take pos (file_text f))) mod 2 ^ 32 + 1)
              else None))"

section \<open>Lemmas\<close>

lemma bisect_line_spec:
  "sorted starts \<Longrightarrow> lo < hi \<Longrightarrow> hi \<le> length starts \<Longrightarrow> starts ! lo \<le> pos \<Longrightarrow>
     (hi < length starts \<Longrightarrow> pos < starts ! hi) \<Longrightarrow>
     bisect_line starts pos lo hi < length starts \<and> starts ! bisect_line starts pos lo hi \<le> pos \<and>
     (\<forall>j. bisect_line starts pos lo hi < j \<and> j < length starts \<longrightarrow> pos < starts ! j)"
proof (induction starts pos lo hi rule: bisect_line.induct)
  case (1 starts pos lo hi)
  show ?case
  proof (cases "lo + 1 < hi")
    case True
    define mid where "mid = (lo + hi) div 2"
    have mid: "lo < mid" "mid < hi" using True by (auto simp: mid_def)
    show ?thesis
    proof (cases "starts ! mid \<le> pos")
      case le: True
      from "1.IH"(1) [OF True mid_def le "1.prems"(1)] "1.prems"(3-) mid le show ?thesis
        by (simp add: bisect_line.simps [of starts pos lo hi] True mid_def [symmetric] Let_def)
    next
      case False
      from "1.IH"(2) [OF True mid_def False "1.prems"(1)] "1.prems"(3-) mid False show ?thesis
        by (simp add: bisect_line.simps [of starts pos lo hi] True mid_def [symmetric] Let_def)
    qed
  next
    case False
    with "1.prems" have hi: "hi = Suc lo" by simp
    have "pos < starts ! j" if "lo < j" "j < length starts" for j
      using "1.prems"(1,5) that hi sorted_nth_mono [of starts hi j] by fastforce
    moreover have "bisect_line starts pos lo hi = lo"
      using False by (simp add: bisect_line.simps [of starts pos lo hi])
    ultimately show ?thesis using hi "1.prems"(3,4) by simp
  qed
qed

lemma newline_starts_filter:
  "i + length bs < 2 ^ 32 \<Longrightarrow>
     newline_starts i bs = map (\<lambda>p. i + p + 1) (filter (\<lambda>p. bs ! p = newline) [0..<length bs])"
proof (induction i bs rule: newline_starts.induct)
  case (2 i b bs)
  have up: "[0..<length (b # bs)] = 0 # map Suc [0..<length bs]"
    by (simp add: map_Suc_upt upt_conv_Cons del: upt_Suc)
  show ?case
    unfolding up using 2 by (auto simp: filter_map comp_def)
qed simp

lemma line_starts_sorted:
  assumes "length text < 2 ^ 32"
  shows "sorted (compute_line_starts text)"
  using assms
  by (simp add: compute_line_starts_def newline_starts_filter sorted_map sorted_wrt_filter
      strict_sorted_imp_sorted)

lemma line_starts_mem:
  assumes "length text < 2 ^ 32"
  shows "s \<in> set (compute_line_starts text) \<longleftrightarrow> s = 0 \<or> (0 < s \<and> s \<le> length text \<and> text ! (s - 1) = newline)"
proof
  assume "s \<in> set (compute_line_starts text)"
  then show "s = 0 \<or> (0 < s \<and> s \<le> length text \<and> text ! (s - 1) = newline)"
    using assms by (auto simp: compute_line_starts_def newline_starts_filter)
next
  assume "s = 0 \<or> (0 < s \<and> s \<le> length text \<and> text ! (s - 1) = newline)"
  then show "s \<in> set (compute_line_starts text)"
  proof
    assume "0 < s \<and> s \<le> length text \<and> text ! (s - 1) = newline"
    then have "s - 1 \<in> {p. p < length text \<and> text ! p = newline}" "s = Suc (s - 1)" by auto
    then show ?thesis
      using assms by (auto simp: compute_line_starts_def newline_starts_filter intro!: image_eqI)
  qed (simp add: compute_line_starts_def)
qed

lemma newlines_before:
  assumes "length text < 2 ^ 32"
  shows "length (filter (\<lambda>s. s \<le> pos) (compute_line_starts text)) =
    Suc (length (filter (\<lambda>c. c = newline) (take pos text)))"
proof -
  have "length (filter (\<lambda>c. c = newline) (take pos text)) =
      card {p. p < length text \<and> p < pos \<and> text ! p = newline}"
    by (subst length_filter_conv_card) (rule arg_cong [of _ _ card], auto)
  moreover have "length (filter (\<lambda>s. s \<le> pos) (newline_starts 0 text)) =
      length (filter (\<lambda>p. text ! p = newline \<and> p < pos) [0..<length text])"
    using assms by (simp add: newline_starts_filter filter_map comp_def Suc_le_eq)
  moreover have "\<dots> = card {p. p < length text \<and> p < pos \<and> text ! p = newline}"
    by (subst length_filter_conv_card) (rule arg_cong [of _ _ card], auto)
  ultimately show ?thesis by (simp add: compute_line_starts_def)
qed

lemma upper_bound_line_count:
  assumes "sorted starts" and "starts \<noteq> []" and "starts ! 0 \<le> pos"
  shows "Suc (upper_bound_line starts pos) = length (filter (\<lambda>s. s \<le> pos) starts)"
    and "upper_bound_line starts pos < length starts"
    and "starts ! upper_bound_line starts pos \<le> pos"
    and "\<And>s. s \<in> set starts \<Longrightarrow> s \<le> pos \<Longrightarrow> s \<le> starts ! upper_bound_line starts pos"
proof -
  let ?l = "upper_bound_line starts pos"
  from bisect_line_spec [of starts 0 "length starts" pos] assms
  have l: "?l < length starts" "starts ! ?l \<le> pos" "\<And>j. ?l < j \<Longrightarrow> j < length starts \<Longrightarrow> pos < starts ! j"
    by (auto simp: upper_bound_line_def)
  then show "?l < length starts" "starts ! ?l \<le> pos" by auto
  have "{j. j < length starts \<and> starts ! j \<le> pos} = {..?l}"
    using l sorted_nth_mono [OF assms(1)] by (auto simp: not_le [symmetric]) (meson le_trans not_le)+
  then show "Suc ?l = length (filter (\<lambda>s. s \<le> pos) starts)"
    by (simp add: length_filter_conv_card)
  fix s assume "s \<in> set starts" "s \<le> pos"
  then obtain j where "j < length starts" "starts ! j = s" "j \<le> ?l"
    using l(3) by (metis in_set_conv_nth not_le)
  with sorted_nth_mono [OF assms(1)] l(1) show "s \<le> starts ! ?l" by auto
qed

lemma display_line_col_split:
  assumes f: "store_get (map_files m) file = Some f" "line_starts f = compute_line_starts (file_text f)"
    and len: "length (file_text f) < 2 ^ 32" and pos: "pos \<le> length (file_text f)"
  shows "\<exists>before bytes. take pos (file_text f) = before @ bytes \<and>
    (before = [] \<or> last before = newline) \<and> newline \<notin> set bytes \<and>
    display_line_col m file pos =
      Some (length (filter (\<lambda>c. c = newline) (take pos (file_text f))) + 1,
            unicode_column bytes mod 2 ^ 32 + 1)"
proof -
  let ?t = "file_text f" and ?s = "compute_line_starts (file_text f)"
  have ne: "?s \<noteq> []" "?s ! 0 \<le> pos" by (simp_all add: compute_line_starts_def)
  note u = upper_bound_line_count [OF line_starts_sorted [OF len] ne]
  let ?l = "upper_bound_line ?s pos" and ?st = "?s ! upper_bound_line ?s pos"
  have line: "?l = length (filter (\<lambda>c. c = newline) (take pos ?t))"
    using u(1) newlines_before [OF len, of pos] by simp
  have st: "?st = 0 \<or> (0 < ?st \<and> ?st \<le> length ?t \<and> ?t ! (?st - 1) = newline)"
    using line_starts_mem [OF len, of ?st] u(2) by auto
  have "newline \<notin> set (drop ?st (take pos ?t))"
  proof
    assume "newline \<in> set (drop ?st (take pos ?t))"
    then obtain k where "k < length (drop ?st (take pos ?t))" "drop ?st (take pos ?t) ! k = newline"
      by (auto simp: in_set_conv_nth)
    then have k: "?st + k < pos" "?t ! (?st + k) = newline" using pos u(3) by (auto simp: less_diff_conv)
    then have "Suc (?st + k) \<in> set ?s" using pos by (simp add: line_starts_mem [OF len])
    from u(4) [OF this] k(1) show False by simp
  qed
  moreover have "take ?st ?t = [] \<or> last (take ?st ?t) = newline"
  proof (cases "take ?st ?t = []")
    case False
    with st have "last (take ?st ?t) = ?t ! (?st - 1)" by (subst last_conv_nth) auto
    with st False show ?thesis by auto
  qed simp
  moreover have "take pos ?t = take ?st ?t @ drop ?st (take pos ?t)"
    using u(3) by (metis append_take_drop_id min.absorb1 take_take)
  moreover have "length (filter (\<lambda>c. c = newline) (take pos ?t)) < 2 ^ 32"
    using len pos by (metis length_filter_le le_less_trans length_take min.absorb2)
  ultimately show ?thesis
    using f pos u(3) line
    by (intro exI [of _ "take ?st ?t"] exI [of _ "drop ?st (take pos ?t)"])
       (simp add: display_line_col_def Let_def)
qed

section \<open>The source map\<close>

definition source_map_ok :: "source_map \<Rightarrow> bool" where
  "source_map_ok m \<longleftrightarrow>
     (\<forall>f \<in> set (map_files m). line_starts f = compute_line_starts (file_text f)) \<and>
     (\<forall>path ix. map_of (by_path m) path = Some ix \<longrightarrow>
        ix < length (map_files m) \<and> file_path (map_files m ! ix) = path)"

lemma source_map_new_ok: "source_map_ok source_map_new"
  by (simp add: source_map_ok_def source_map_new_def)

lemma add_file_ok:
  assumes "source_map_ok m" and "length (map_files m) < 2 ^ 32" and "add_file path text m = (ix, m')"
  shows "source_map_ok m'" and "lookup_by_path m' path = Some ix"
    and "\<exists>more. map_files m' = map_files m @ more"
    and "lookup_by_path m p = Some jx \<Longrightarrow> lookup_by_path m' p = Some jx"
    and "lookup_by_path m path = None \<Longrightarrow> store_get (map_files m') ix = Some (source_file_new path text)"
  using assms
  by (auto simp: add_file_def store_alloc_def store_get_def source_map_ok_def lookup_by_path_def
      source_file_new_def nth_append less_Suc_eq split: option.splits if_splits)

section \<open>Properties\<close>

text \<open>A byte position on a line is displayed as one more than the newlines before it and one
  more than the characters since the last of them (bytes, when they are not UTF-8), for
  every file the source map holds and every position up to its length.\<close>

theorem display_line_col_counts:
  assumes "source_map_ok m" and "store_get (map_files m) file = Some f"
    and "length (file_text f) < 2 ^ 32" and "pos \<le> length (file_text f)"
  shows "\<exists>before bytes. take pos (file_text f) = before @ bytes \<and>
    (before = [] \<or> last before = newline) \<and> newline \<notin> set bytes \<and>
    display_line_col m file pos =
      Some (length (filter (\<lambda>c. c = newline) (take pos (file_text f))) + 1,
            unicode_column bytes mod 2 ^ 32 + 1)"
proof (rule display_line_col_split [OF assms(2) _ assms(3,4)])
  show "line_starts f = compute_line_starts (file_text f)"
    using assms(1,2) by (auto simp: source_map_ok_def store_get_def split: if_splits)
qed

lemma display_line_col_counts_witness:
  "\<exists>m fid bytes. add_virtual ''multi'' (''alpha'' @ [newline] @ ''beta'') source_map_new = (fid, m) \<and>
     newline \<notin> set bytes \<and> display_line_col m fid 8 = Some (2, unicode_column bytes mod 2 ^ 32 + 1)"
proof -
  let ?t = "''alpha'' @ [newline] @ ''beta''"
  obtain m fid where m: "add_virtual ''multi'' ?t source_map_new = (fid, m)" by fastforce
  then have f: "store_get (map_files m) fid = Some (source_file_new (''<multi>'') ?t)" "source_map_ok m"
    by (auto simp: add_virtual_def store_alloc_def source_map_new_def store_get_def source_map_ok_def
        source_file_new_def)
  have "length ?t < 2 ^ 32" "8 \<le> length ?t" by simp_all
  with display_line_col_counts [OF f(2,1), of 8] m show ?thesis
    by (auto simp: source_file_new_def newline_def)
qed

end
