(* ===== verification/Bytecode.thy ===== *)
theory Bytecode
  imports Source_Text Runtime_Values
begin

text \<open>
  The instruction set, chunks, the constant pool and the module format (\<open>brasa_bytecode\<close>:
  \<open>op.rs\<close>, \<open>chunk.rs\<close>, \<open>constant.rs\<close>, \<open>module.rs\<close>). Indices are natural numbers; a panic
  of \<open>expect\<close> or of an index out of bounds is \<open>None\<close>.
\<close>

type_synonym code_ix = nat
type_synonym slot_ix = nat
type_synonym global_ix = nat

section \<open>Instructions\<close>

datatype (plugins only: ) op =
    Const const_id
  | LoadUnit | LoadTrue | LoadFalse | LoadNone | Pop | Dup
  | LoadLocal slot_ix | StoreLocal slot_ix
  | MakeBinding slot_ix | LoadBinding slot_ix | StoreBinding slot_ix
  | LoadGlobal global_ix | StoreGlobal global_ix
  | LoadFunc func_id
  | AddInt | SubInt | MulInt | DivInt | RemInt | PowInt | NegInt
  | AddFloat | SubFloat | MulFloat | DivFloat | RemFloat | PowFloat | NegFloat
  | Concat | Not
  | Eq | Lt | Le | Gt | Ge
  | EqInt | EqFloat | EqBool | LtInt | LeInt | GtInt | GeInt
  | LtFloat | LeFloat | GtFloat | GeFloat
  | Jump code_ix | JumpIfFalse code_ix | JumpIfFalseOrPop code_ix | JumpIfTrueOrPop code_ix
  | JumpIfVariantNe nat code_ix | JumpIfNone code_ix
  | WrapSome | WrapSomeDynamic | UnwrapSome
  | TupleField nat | EnumField nat | GetField nat | SetField nat | GetIndex | SetIndex
  | Call func_id nat | CallValue nat | CallBuiltin builtin_id nat | CallMethodDyn const_id nat
  | BindMethodDyn const_id | BindMethod func_id | BindBuiltin builtin_id | Ret
  | MakeVector nat | MakeMap nat | MakeTuple nat | MakeSetFromVector | MakeStruct struct_id
  | MakeEnum enum_id nat nat | MakeClosure func_id nat | MakeRange bool
  | ToString | IterNew | IterNext code_ix
  | Throw | JumpIfPanic code_ix | JumpIfTagNe const_id code_ix
  | CaughtValue | CaughtDetail | Rethrow

section \<open>Chunks\<close>

record handler =
  h_start :: code_ix
  h_end :: code_ix
  h_target :: code_ix
  h_depth :: nat

definition covers :: "handler \<Rightarrow> code_ix \<Rightarrow> bool" where
  "covers h ix \<longleftrightarrow> h_start h \<le> ix \<and> ix < h_end h"

record chunk =
  code :: "op list"
  spans :: "span list"
  handlers :: "handler list"

definition chunk_new :: chunk where
  "chunk_new = \<lparr>code = [], spans = [], handlers = []\<rparr>"

definition chunk_push :: "op \<Rightarrow> span \<Rightarrow> chunk \<Rightarrow> (code_ix \<times> chunk) option" where
  "chunk_push op sp c =
     (if length (code c) < 2 ^ 32
      then Some (length (code c), c\<lparr>code := code c @ [op], spans := spans c @ [sp]\<rparr>)
      else None)"

text \<open>The new instruction of a patched jump; \<open>None\<close> is the panic on a non-jump.\<close>

definition retarget :: "op \<Rightarrow> code_ix \<Rightarrow> op option" where
  "retarget op target =
     (case op of
        Jump _ \<Rightarrow> Some (Jump target)
      | JumpIfFalse _ \<Rightarrow> Some (JumpIfFalse target)
      | JumpIfFalseOrPop _ \<Rightarrow> Some (JumpIfFalseOrPop target)
      | JumpIfTrueOrPop _ \<Rightarrow> Some (JumpIfTrueOrPop target)
      | JumpIfVariantNe variant _ \<Rightarrow> Some (JumpIfVariantNe variant target)
      | JumpIfNone _ \<Rightarrow> Some (JumpIfNone target)
      | IterNext _ \<Rightarrow> Some (IterNext target)
      | JumpIfPanic _ \<Rightarrow> Some (JumpIfPanic target)
      | JumpIfTagNe tag _ \<Rightarrow> Some (JumpIfTagNe tag target)
      | _ \<Rightarrow> None)"

definition patch_jump :: "code_ix \<Rightarrow> code_ix \<Rightarrow> chunk \<Rightarrow> chunk option" where
  "patch_jump at target c =
     (if at < length (code c)
      then map_option (\<lambda>op. c\<lparr>code := (code c)[at := op]\<rparr>) (retarget (code c ! at) target)
      else None)"

definition push_handler :: "handler \<Rightarrow> chunk \<Rightarrow> chunk" where
  "push_handler h c = c\<lparr>handlers := handlers c @ [h]\<rparr>"

definition span_at :: "chunk \<Rightarrow> code_ix \<Rightarrow> span option" where
  "span_at c ix = (if ix < length (spans c) then Some (spans c ! ix) else None)"

definition handler_for :: "chunk \<Rightarrow> code_ix \<Rightarrow> handler option" where
  "handler_for c ix = find (\<lambda>h. covers h ix) (handlers c)"

section \<open>The constant pool\<close>

datatype pool_constant = KInt i64 | KFloat f64 | KStr string | KChar rust_char

text \<open>The interning key; a float is its bit pattern, which is how floats are modelled.\<close>

datatype const_key = KeyInt i64 | KeyFloatBits f64 | KeyStr string | KeyChar rust_char

fun const_key_of :: "pool_constant \<Rightarrow> const_key" where
  "const_key_of (KInt v) = KeyInt v"
| "const_key_of (KFloat v) = KeyFloatBits v"
| "const_key_of (KStr v) = KeyStr v"
| "const_key_of (KChar v) = KeyChar v"

record const_pool =
  pool_items :: "pool_constant list"
  pool_index :: "(const_key \<times> const_id) list"

definition const_pool_new :: const_pool where
  "const_pool_new = \<lparr>pool_items = [], pool_index = []\<rparr>"

definition pool_insert :: "pool_constant \<Rightarrow> const_pool \<Rightarrow> (const_id \<times> const_pool) option" where
  "pool_insert c p =
     (case map_of (pool_index p) (const_key_of c) of
        Some ix \<Rightarrow> Some (ix, p)
      | None \<Rightarrow>
          if length (pool_items p) < 2 ^ 32
          then Some (length (pool_items p),
                     p\<lparr>pool_items := pool_items p @ [c],
                       pool_index := (const_key_of c, length (pool_items p)) # pool_index p\<rparr>)
          else None)"

definition pool_get :: "const_pool \<Rightarrow> const_id \<Rightarrow> pool_constant option" where
  "pool_get p ix = (if ix < length (pool_items p) then Some (pool_items p ! ix) else None)"

section \<open>Modules\<close>

record function_entry =
  fn_name :: string
  arity :: nat
  captures :: nat
  locals :: nat
  max_stack :: nat
  fn_chunk :: chunk

record struct_shape =
  st_name :: string
  st_fields :: "string list"
  st_methods :: "func_id list"
  st_to_string :: "func_id option"

record variant_shape =
  va_name :: string
  va_arity :: nat

record enum_shape =
  en_name :: string
  en_variants :: "variant_shape list"

record test_entry =
  test_name :: string
  test_func :: func_id

record module_code =
  m_constants :: const_pool
  m_functions :: "function_entry list"
  m_structs :: "struct_shape list"
  m_enums :: "enum_shape list"
  m_globals :: "string list"
  m_tests :: "test_entry list"
  m_entry :: "func_id option"

section \<open>Lemmas\<close>

definition pool_ok :: "const_pool \<Rightarrow> bool" where
  "pool_ok p \<longleftrightarrow>
     (\<forall>k ix. map_of (pool_index p) k = Some ix \<longleftrightarrow>
        ix < length (pool_items p) \<and> const_key_of (pool_items p ! ix) = k)"

lemma const_key_inj [simp]: "const_key_of a = const_key_of b \<longleftrightarrow> a = b"
  by (cases a; cases b) auto

lemma pool_new_ok: "pool_ok const_pool_new"
  by (simp add: pool_ok_def const_pool_new_def)

lemma pool_insert_spec:
  assumes "pool_ok p" and "pool_insert c p = Some (ix, p')"
  shows "pool_ok p'" and "pool_get p' ix = Some c"
    and "pool_get p jx = Some d \<Longrightarrow> pool_get p' jx = Some d"
    and "set (pool_items p') = insert c (set (pool_items p))"
proof -
  consider (hit) "map_of (pool_index p) (const_key_of c) = Some ix" "p' = p"
    | (miss) "map_of (pool_index p) (const_key_of c) = None" "ix = length (pool_items p)"
      "p' = p\<lparr>pool_items := pool_items p @ [c],
              pool_index := (const_key_of c, length (pool_items p)) # pool_index p\<rparr>"
    using assms(2) by (auto simp: pool_insert_def split: option.splits if_splits)
  note two = this
  have inv: "map_of (pool_index p) k = Some ix \<longleftrightarrow>
      ix < length (pool_items p) \<and> const_key_of (pool_items p ! ix) = k" for k ix
    using assms(1) by (simp add: pool_ok_def)
  show "pool_ok p'"
  proof (cases rule: two)
    case miss
    have "const_key_of (pool_items p ! j) \<noteq> const_key_of c" if "j < length (pool_items p)" for j
      using inv [of "const_key_of c" j] miss(1) that by auto
    with inv miss(3) show ?thesis by (auto simp: pool_ok_def nth_append less_Suc_eq)
  qed (use assms(1) in simp)
  show "pool_get p' ix = Some c"
    by (cases rule: two) (auto simp: pool_get_def inv)
  show "pool_get p jx = Some d \<Longrightarrow> pool_get p' jx = Some d"
    by (cases rule: two) (auto simp: pool_get_def nth_append split: if_splits)
  show "set (pool_items p') = insert c (set (pool_items p))"
    by (cases rule: two) (auto simp: inv)
qed

lemma patch_jump_spec:
  "patch_jump at target c = Some c' \<Longrightarrow>
     length (code c') = length (code c) \<and> spans c' = spans c \<and> handlers c' = handlers c \<and>
     (\<forall>ix. ix \<noteq> at \<longrightarrow> code c' ! ix = code c ! ix) \<and> retarget (code c' ! at) t = retarget (code c ! at) t"
  by (cases "code c ! at") (auto simp: patch_jump_def retarget_def split: if_splits)

lemma handler_for_Some:
  "handler_for c ix = Some h \<Longrightarrow> h \<in> set (handlers c) \<and> covers h ix"
  by (auto simp: handler_for_def find_Some_iff)

end
