(* ===== verification/Vm_State.thy ===== *)
theory Vm_State
  imports Value_Equality Bytecode Decimal_Text
begin

text \<open>
  The state of the virtual machine (\<open>brasa_vm/src/vm.rs\<close>): signals, call frames, the running
  task, and what native code may do to them.

  A computation of the machine ends in an \<open>outcome\<close>: it returns, it raises a \<open>Signal\<close>, the
  host panics (\<open>Crash\<close>, with the kind of the failed assertion), or the fuel that bounds the
  model's recursion is spent. The value stack is a list with slot 0 first; the frames are a
  list with the innermost frame first.

  Native code never sees the value stack or the frames: a builtin is a \<open>prog\<close>, a tree whose
  nodes read the machine, replace its store (heap, allocator, native roots and the outside
  world), or call back into compiled code and go on with the result.
\<close>

section \<open>Signals and outcomes\<close>

datatype signal =
    SError val
  | SPanic panic_value
  | SFatal string
  | SBrokenPipe
  | SExit "32 word"
  | SBreakpoint
  | SPark

text \<open>Host panics: an operand missing from the stack, a frame missing from the frame stack, an
  instruction index past the end of the code, a local slot past the end of the stack, a closure
  with more captures than its function has slots for, an index into a table of the module, the reservation of a frame that is too small, and an
  \<open>unreachable!\<close> on a value of another kind.\<close>

datatype crash =
    Underflow | NoFrame | BadCode | BadSlot | BadCapture | BadIndex | BadReserve | BadKind

datatype ('a, 's) outcome =
    Returns 'a 's
  | Raises signal 's
  | Crash crash
  | OutOfFuel

definition bind :: "('a, 's) outcome \<Rightarrow> ('a \<Rightarrow> 's \<Rightarrow> ('b, 's) outcome) \<Rightarrow> ('b, 's) outcome" where
  "bind r f =
     (case r of
        Returns x s \<Rightarrow> f x s
      | Raises sig s \<Rightarrow> Raises sig s
      | Crash c \<Rightarrow> Crash c
      | OutOfFuel \<Rightarrow> OutOfFuel)"

definition demand :: "crash \<Rightarrow> 'a option \<Rightarrow> 's \<Rightarrow> ('a, 's) outcome" where
  "demand c x s = (case x of Some y \<Rightarrow> Returns y s | None \<Rightarrow> Crash c)"

lemma bind_simps [simp]:
  "bind (Returns x s) f = f x s" "bind (Raises sig s) f = Raises sig s"
  "bind (Crash c) f = Crash c" "bind OutOfFuel f = OutOfFuel"
  by (simp_all add: bind_def)

lemma demand_simps [simp]: "demand c (Some x) s = Returns x s" "demand c None s = Crash c"
  by (simp_all add: demand_def)

section \<open>The machine\<close>

record frame =
  fr_func :: func_id
  fr_ip :: nat
  fr_base :: nat
  fr_ret :: nat

record 'w store =
  st_heap :: heap
  st_next :: addr
  st_roots :: "val list"
  st_world :: 'w

record 'w vm =
  vm_globals :: "val option list"
  vm_stack :: "val list"
  vm_frames :: "frame list"
  vm_reentry :: nat
  vm_store :: "'w store"

text \<open>The roots a safepoint marks from: the running task's stack and native roots, and the
  initialised globals.\<close>

definition task_roots :: "'w vm \<Rightarrow> val list" where
  "task_roots s = vm_stack s @ st_roots (vm_store s)"

definition all_roots :: "'w vm \<Rightarrow> val list" where
  "all_roots s = task_roots s @ concat (map (\<lambda>g. case g of Some v \<Rightarrow> [v] | None \<Rightarrow> []) (vm_globals s))"

definition set_heap :: "heap \<Rightarrow> 'w vm \<Rightarrow> 'w vm" where
  "set_heap h s = s\<lparr>vm_store := (vm_store s)\<lparr>st_heap := h\<rparr>\<rparr>"

abbreviation vm_heap :: "'w vm \<Rightarrow> heap" where
  "vm_heap s \<equiv> st_heap (vm_store s)"

text \<open>The address of a new shared node. An address is compared only with those of live nodes,
  so a counter stands for the allocator.\<close>

definition fresh :: "'w vm \<Rightarrow> (addr, 'w vm) outcome" where
  "fresh s = Returns (st_next (vm_store s)) (s\<lparr>vm_store := (vm_store s)\<lparr>st_next := st_next (vm_store s) + 1\<rparr>\<rparr>)"

definition gc_alloc :: "(heap \<Rightarrow> (val \<times> heap) option) \<Rightarrow> 'w vm \<Rightarrow> (val, 'w vm) outcome" where
  "gc_alloc alloc s =
     (case alloc (vm_heap s) of Some (v, h) \<Rightarrow> Returns v (set_heap h s) | None \<Rightarrow> Crash BadIndex)"

section \<open>Stack helpers\<close>

definition push :: "val \<Rightarrow> 'w vm \<Rightarrow> (unit, 'w vm) outcome" where
  "push v s = Returns () (s\<lparr>vm_stack := vm_stack s @ [v]\<rparr>)"

definition pop :: "'w vm \<Rightarrow> (val, 'w vm) outcome" where
  "pop s =
     (if vm_stack s = [] then Crash Underflow
      else Returns (last (vm_stack s)) (s\<lparr>vm_stack := butlast (vm_stack s)\<rparr>))"

definition pop_n :: "nat \<Rightarrow> 'w vm \<Rightarrow> (val list, 'w vm) outcome" where
  "pop_n n s =
     (if length (vm_stack s) < n then Crash Underflow
      else Returns (drop (length (vm_stack s) - n) (vm_stack s))
             (s\<lparr>vm_stack := take (length (vm_stack s) - n) (vm_stack s)\<rparr>))"

definition peek :: "'w vm \<Rightarrow> (val, 'w vm) outcome" where
  "peek s = (if vm_stack s = [] then Crash Underflow else Returns (last (vm_stack s)) s)"

definition truncate_stack :: "nat \<Rightarrow> 'w vm \<Rightarrow> 'w vm" where
  "truncate_stack n s = s\<lparr>vm_stack := take n (vm_stack s)\<rparr>"

definition fatal :: "string \<Rightarrow> 'w vm \<Rightarrow> ('a, 'w vm) outcome" where
  "fatal message s = Raises (SFatal message) s"

text \<open>\<open>map_err\<close> with a message that replaces the signal's.\<close>

definition pop_int :: "string \<Rightarrow> 'w vm \<Rightarrow> (i64, 'w vm) outcome" where
  "pop_int message s = bind (pop s) (\<lambda>v s. case v of VInt i \<Rightarrow> Returns i s | _ \<Rightarrow> fatal message s)"

definition pop_bool :: "string \<Rightarrow> 'w vm \<Rightarrow> (bool, 'w vm) outcome" where
  "pop_bool message s = bind (pop s) (\<lambda>v s. case v of VBool b \<Rightarrow> Returns b s | _ \<Rightarrow> fatal message s)"

definition not_an_int :: string where "not_an_int = ''brasa: expected an int''"
definition not_a_bool :: string where "not_a_bool = ''brasa: condition is not a bool''"
definition bad_arith :: string where
  "bad_arith = ''brasa: invalid operands for arithmetic operator''"
definition bad_compare :: string where
  "bad_compare = ''brasa: invalid operands for comparison''"

definition top_frame :: "'w vm \<Rightarrow> (frame, 'w vm) outcome" where
  "top_frame s = (case vm_frames s of f # fs \<Rightarrow> Returns f s | [] \<Rightarrow> Crash NoFrame)"

definition jump :: "code_ix \<Rightarrow> 'w vm \<Rightarrow> (unit, 'w vm) outcome" where
  "jump target s =
     (case vm_frames s of
        f # fs \<Rightarrow> Returns () (s\<lparr>vm_frames := f\<lparr>fr_ip := target\<rparr> # fs\<rparr>)
      | [] \<Rightarrow> Crash NoFrame)"

definition slot_get :: "slot_ix \<Rightarrow> 'w vm \<Rightarrow> (val, 'w vm) outcome" where
  "slot_get slot s =
     bind (top_frame s) (\<lambda>f s.
       if fr_base f + slot < length (vm_stack s) then Returns (vm_stack s ! (fr_base f + slot)) s
       else Crash BadSlot)"

definition slot_set :: "slot_ix \<Rightarrow> val \<Rightarrow> 'w vm \<Rightarrow> (unit, 'w vm) outcome" where
  "slot_set slot v s =
     bind (top_frame s) (\<lambda>f s.
       if fr_base f + slot < length (vm_stack s)
       then Returns () (s\<lparr>vm_stack := (vm_stack s)[fr_base f + slot := v]\<rparr>) else Crash BadSlot)"

definition binding_ref :: "slot_ix \<Rightarrow> 'w vm \<Rightarrow> (gc_ref, 'w vm) outcome" where
  "binding_ref slot s =
     bind (slot_get slot s) (\<lambda>v s.
       case v of VBinding r \<Rightarrow> Returns r s | _ \<Rightarrow> fatal ''brasa: slot does not hold a binding'' s)"

section \<open>Native code\<close>

datatype ('w, 'a) prog =
    PDone 'a
  | PRaise signal
  | PCrash crash
  | PRead "'w vm \<Rightarrow> ('w, 'a) prog"
  | PWrite "'w vm \<Rightarrow> 'w store" "('w, 'a) prog"
  | PCall val "val list" "signal + val \<Rightarrow> ('w, 'a) prog"
  | PFunc func_id "val list" "signal + val \<Rightarrow> ('w, 'a) prog"

text \<open>\<open>p\<close> followed by \<open>k\<close>, which also sees the signal \<open>p\<close> ends with.\<close>

primrec prog_try :: "('w, 'a) prog \<Rightarrow> (signal + 'a \<Rightarrow> ('w, 'b) prog) \<Rightarrow> ('w, 'b) prog" where
  "prog_try (PDone x) k = k (Inr x)"
| "prog_try (PRaise sig) k = k (Inl sig)"
| "prog_try (PCrash c) k = PCrash c"
| "prog_try (PRead f) k = PRead (\<lambda>s. prog_try (f s) k)"
| "prog_try (PWrite f p) k = PWrite f (prog_try p k)"
| "prog_try (PCall callee args f) k = PCall callee args (\<lambda>r. prog_try (f r) k)"
| "prog_try (PFunc func args f) k = PFunc func args (\<lambda>r. prog_try (f r) k)"

definition prog_bind :: "('w, 'a) prog \<Rightarrow> ('a \<Rightarrow> ('w, 'b) prog) \<Rightarrow> ('w, 'b) prog" where
  "prog_bind p k = prog_try p (\<lambda>r. case r of Inl sig \<Rightarrow> PRaise sig | Inr x \<Rightarrow> k x)"

text \<open>Running native code, given how the machine calls a value and a compiled function.\<close>

primrec run_prog ::
    "(val \<Rightarrow> val list \<Rightarrow> 'w vm \<Rightarrow> (val, 'w vm) outcome) \<Rightarrow>
     (func_id \<Rightarrow> val list \<Rightarrow> 'w vm \<Rightarrow> (val, 'w vm) outcome) \<Rightarrow>
     ('w, 'a) prog \<Rightarrow> 'w vm \<Rightarrow> ('a, 'w vm) outcome" where
  "run_prog call_value call_func (PDone x) = (\<lambda>s. Returns x s)"
| "run_prog call_value call_func (PRaise sig) = (\<lambda>s. Raises sig s)"
| "run_prog call_value call_func (PCrash c) = (\<lambda>s. Crash c)"
| "run_prog call_value call_func (PRead f) = (\<lambda>s. run_prog call_value call_func (f s) s)"
| "run_prog call_value call_func (PWrite f p) =
     (\<lambda>s. run_prog call_value call_func p (s\<lparr>vm_store := f s\<rparr>))"
| "run_prog call_value call_func (PCall callee args k) =
     (\<lambda>s. case call_value callee args s of
        Returns v s' \<Rightarrow> run_prog call_value call_func (k (Inr v)) s'
      | Raises sig s' \<Rightarrow> run_prog call_value call_func (k (Inl sig)) s'
      | Crash c \<Rightarrow> Crash c
      | OutOfFuel \<Rightarrow> OutOfFuel)"
| "run_prog call_value call_func (PFunc func args k) =
     (\<lambda>s. case call_func func args s of
        Returns v s' \<Rightarrow> run_prog call_value call_func (k (Inr v)) s'
      | Raises sig s' \<Rightarrow> run_prog call_value call_func (k (Inl sig)) s'
      | Crash c \<Rightarrow> Crash c
      | OutOfFuel \<Rightarrow> OutOfFuel)"

end
