(* ===== verification/Native_Code.thy ===== *)
theory Native_Code
  imports Vm_State
begin

text \<open>
  How native code keeps values alive while it calls back into compiled code
  (\<open>with_rooted\<close>, \<open>unroot\<close> and the five rooted traversals of \<open>brasa_vm/src/vm.rs\<close>). The
  closure a traversal takes is a function from its arguments to a \<open>prog\<close>. The capacity of
  the root stack is not modelled.
\<close>

section \<open>Rooting\<close>

definition roots_of :: "'w vm \<Rightarrow> val list" where
  "roots_of s = st_roots (vm_store s)"

definition set_roots :: "(val list \<Rightarrow> val list) \<Rightarrow> 'w vm \<Rightarrow> 'w store" where
  "set_roots f s = (vm_store s)\<lparr>st_roots := f (roots_of s)\<rparr>"

definition unroot_store :: "nat \<Rightarrow> 'w vm \<Rightarrow> 'w store" where
  "unroot_store mark s =
     (let st = set_roots (take mark) s
      in if mark = 0 then st\<lparr>st_heap := relax_mark_floor (st_heap st)\<rparr> else st)"

definition unroot :: "nat \<Rightarrow> ('w, 'a) prog \<Rightarrow> ('w, 'a) prog" where
  "unroot mark p = PWrite (unroot_store mark) p"

definition of_result :: "signal + 'a \<Rightarrow> ('w, 'a) prog" where
  "of_result r = (case r of Inl sig \<Rightarrow> PRaise sig | Inr x \<Rightarrow> PDone x)"

definition with_rooted :: "val list \<Rightarrow> ('w, 'a) prog \<Rightarrow> ('w, 'a) prog" where
  "with_rooted vs body =
     PRead (\<lambda>s. PWrite (set_roots (\<lambda>rs. rs @ vs))
       (prog_try body (\<lambda>r. unroot (length (roots_of s)) (of_result r))))"

section \<open>Traversals\<close>

text \<open>One round of a traversal reads the element at \<open>ix\<close>; a signal unroots to \<open>mark\<close> and ends it.\<close>

definition root_at :: "nat \<Rightarrow> (val \<Rightarrow> ('w, 'a) prog) \<Rightarrow> ('w, 'a) prog" where
  "root_at ix k = PRead (\<lambda>s. if ix < length (roots_of s) then k (roots_of s ! ix) else PCrash BadIndex)"

definition or_unroot :: "nat \<Rightarrow> ('w, 'a) prog \<Rightarrow> ('a \<Rightarrow> ('w, 'b) prog) \<Rightarrow> ('w, 'b) prog" where
  "or_unroot mark p k = prog_try p (\<lambda>r. case r of Inl sig \<Rightarrow> unroot mark (PRaise sig) | Inr x \<Rightarrow> k x)"

definition keep_root :: "val \<Rightarrow> ('w, 'a) prog \<Rightarrow> ('w, 'a) prog" where
  "keep_root v p = PWrite (set_roots (\<lambda>rs. rs @ [v])) p"

text \<open>\<open>end\<close> is the length of the root stack once the snapshot is on it, \<open>base\<close> the index of the
  snapshot's first element.\<close>

definition rooted_region :: "val list \<Rightarrow> val list \<Rightarrow> (nat \<Rightarrow> nat \<Rightarrow> nat \<Rightarrow> ('w, 'a) prog) \<Rightarrow> ('w, 'a) prog" where
  "rooted_region before snapshot k =
     PRead (\<lambda>s. PWrite (set_roots (\<lambda>rs. rs @ before @ snapshot))
       (k (length (roots_of s)) (length (roots_of s) + length before)
          (length (roots_of s) + length before + length snapshot)))"

primrec collect_each ::
    "(val \<Rightarrow> ('w, val option) prog) \<Rightarrow> nat \<Rightarrow> nat list \<Rightarrow> ('w, 'a) prog \<Rightarrow> ('w, 'a) prog" where
  "collect_each step mark [] rest = rest"
| "collect_each step mark (ix # ixs) rest =
     root_at ix (\<lambda>item. or_unroot mark (step item) (\<lambda>kept.
       case kept of
         Some v \<Rightarrow> keep_root v (collect_each step mark ixs rest)
       | None \<Rightarrow> collect_each step mark ixs rest))"

definition collect_rooted ::
    "val \<Rightarrow> val list \<Rightarrow> (val \<Rightarrow> ('w, val option) prog) \<Rightarrow> ('w, val list) prog" where
  "collect_rooted recv snapshot step =
     rooted_region [recv] snapshot (\<lambda>mark base end_ix.
       collect_each step mark [base..<end_ix]
         (PRead (\<lambda>s. unroot mark (PDone (drop end_ix (roots_of s))))))"

text \<open>\<open>Some v\<close> is \<open>Step::Stop\<close>.\<close>

primrec find_each ::
    "(val \<Rightarrow> ('w, val option) prog) \<Rightarrow> nat \<Rightarrow> nat list \<Rightarrow> ('w, val option) prog" where
  "find_each step mark [] = unroot mark (PDone None)"
| "find_each step mark (ix # ixs) =
     root_at ix (\<lambda>item. or_unroot mark (step item) (\<lambda>found.
       case found of
         Some v \<Rightarrow> unroot mark (PDone (Some v))
       | None \<Rightarrow> find_each step mark ixs))"

definition find_rooted ::
    "val \<Rightarrow> val list \<Rightarrow> (val \<Rightarrow> ('w, val option) prog) \<Rightarrow> ('w, val option) prog" where
  "find_rooted recv snapshot step =
     rooted_region [recv] snapshot (\<lambda>mark base end_ix. find_each step mark [base..<end_ix])"

function each_pair ::
    "(val \<Rightarrow> val \<Rightarrow> ('w, unit) prog) \<Rightarrow> nat \<Rightarrow> nat \<Rightarrow> nat \<Rightarrow> ('w, unit) prog" where
  "each_pair step mark ix end_ix =
     (if ix < end_ix then
        root_at ix (\<lambda>left. root_at (ix + 1) (\<lambda>right.
          or_unroot mark (step left right) (\<lambda>_. each_pair step mark (ix + 2) end_ix)))
      else unroot mark (PDone ()))"
  by pat_completeness auto
termination
  by (relation "measure (\<lambda>(step, mark, ix, end_ix). end_ix - ix)") auto

declare each_pair.simps [simp del]

definition each_pair_rooted ::
    "val \<Rightarrow> (val \<times> val) list \<Rightarrow> (val \<Rightarrow> val \<Rightarrow> ('w, unit) prog) \<Rightarrow> ('w, unit) prog" where
  "each_pair_rooted recv snapshot step =
     rooted_region [recv] (concat (map (\<lambda>(a, b). [a, b]) snapshot)) (each_pair step)"

primrec key_each ::
    "(val \<Rightarrow> ('w, val) prog) \<Rightarrow> nat \<Rightarrow> nat list \<Rightarrow> ('w, 'a) prog \<Rightarrow> ('w, 'a) prog" where
  "key_each key_of mark [] rest = rest"
| "key_each key_of mark (ix # ixs) rest =
     root_at ix (\<lambda>item. or_unroot mark (key_of item) (\<lambda>key.
       keep_root key (key_each key_of mark ixs rest)))"

definition key_rooted ::
    "val \<Rightarrow> val list \<Rightarrow> (val \<Rightarrow> ('w, val) prog) \<Rightarrow> ('w, (val \<times> val) list) prog" where
  "key_rooted recv snapshot key_of =
     rooted_region [recv] snapshot (\<lambda>mark base end_ix.
       key_each key_of mark [base..<end_ix]
         (PRead (\<lambda>s.
            let ks = drop end_ix (roots_of s);
                its = drop base (take end_ix (roots_of s))
            in unroot mark (PDone (zip ks its)))))"

primrec fold_each ::
    "(val \<Rightarrow> val \<Rightarrow> ('w, val) prog) \<Rightarrow> nat \<Rightarrow> nat list \<Rightarrow> ('w, val) prog" where
  "fold_each step mark [] = root_at mark (\<lambda>folded. unroot mark (PDone folded))"
| "fold_each step mark (ix # ixs) =
     root_at ix (\<lambda>item. root_at mark (\<lambda>carried.
       or_unroot mark (step carried item) (\<lambda>nxt.
         PRead (\<lambda>s. if mark < length (roots_of s)
                    then PWrite (set_roots (\<lambda>rs. rs[mark := nxt])) (fold_each step mark ixs)
                    else PCrash BadIndex))))"

definition fold_rooted ::
    "val \<Rightarrow> val list \<Rightarrow> val \<Rightarrow> (val \<Rightarrow> val \<Rightarrow> ('w, val) prog) \<Rightarrow> ('w, val) prog" where
  "fold_rooted recv snapshot init step =
     rooted_region [init, recv] snapshot (\<lambda>mark base end_ix. fold_each step mark [base..<end_ix])"

end
