(* ===== verification/Display.thy ===== *)
theory Display
  imports Native_Code
begin

text \<open>
  What the machine is run with (its module and the parts that stay outside the model), and the
  rendering of values (\<open>brasa_vm/src/display.rs\<close>). The path of cells being rendered is pushed
  before and popped after a cell, so it is passed down.
\<close>

section \<open>The environment of a run\<close>

text \<open>The builtins (\<open>Method_Builtins\<close> has them), the decimal text of a float, float arithmetic and the
  accessors of \<open>serde_json\<close> trees are parameters. A builtin's id is its index in the
  registry, whose entries are a name and whether it takes a receiver.\<close>

record 'w env =
  e_module :: module_code
  e_max_depth :: nat
  e_registry :: "(string \<times> bool) list"
  e_method :: "string \<Rightarrow> val \<Rightarrow> val list \<Rightarrow> ('w, val) prog"
  e_free :: "string \<Rightarrow> val list \<Rightarrow> ('w, val) prog"
  e_record_field :: "val \<Rightarrow> string \<Rightarrow> bool"
  e_can_bind :: "val \<Rightarrow> string \<Rightarrow> bool"
  e_float_add :: "f64 \<Rightarrow> f64 \<Rightarrow> f64"
  e_float_sub :: "f64 \<Rightarrow> f64 \<Rightarrow> f64"
  e_float_mul :: "f64 \<Rightarrow> f64 \<Rightarrow> f64"
  e_float_div :: "f64 \<Rightarrow> f64 \<Rightarrow> f64"
  e_float_rem :: "f64 \<Rightarrow> f64 \<Rightarrow> f64"
  e_float_pow :: "f64 \<Rightarrow> f64 \<Rightarrow> f64"
  e_float_text :: "f64 \<Rightarrow> string"
  e_json_key :: "json_value \<Rightarrow> string \<Rightarrow> json_value option"
  e_json_position :: "json_value \<Rightarrow> i64 \<Rightarrow> json_value option"
  e_json_text :: "json_value \<Rightarrow> string"

definition nth_opt :: "'a list \<Rightarrow> nat \<Rightarrow> 'a option" where
  "nth_opt xs i = (if i < length xs then Some (xs ! i) else None)"

definition fn_at :: "'w env \<Rightarrow> func_id \<Rightarrow> function_entry option" where
  "fn_at E f = nth_opt (m_functions (e_module E)) f"

definition struct_at :: "'w env \<Rightarrow> struct_id \<Rightarrow> struct_shape option" where
  "struct_at E i = nth_opt (m_structs (e_module E)) i"

definition enum_at :: "'w env \<Rightarrow> enum_id \<Rightarrow> enum_shape option" where
  "enum_at E i = nth_opt (m_enums (e_module E)) i"

section \<open>Texts\<close>

text \<open>The UTF-8 bytes of a \<open>char\<close>.\<close>

definition utf8_encode :: "rust_char \<Rightarrow> string" where
  "utf8_encode c =
     map char_of
       (if c < 128 then [c]
        else if c < 2048 then [192 + c div 64, 128 + c mod 64]
        else if c < 65536 then [224 + c div 4096, 128 + c div 64 mod 64, 128 + c mod 64]
        else [240 + c div 262144, 128 + c div 4096 mod 64, 128 + c div 64 mod 64, 128 + c mod 64])"

definition render_tuple :: "string list \<Rightarrow> string" where
  "render_tuple parts =
     (case parts of
        [only] \<Rightarrow> ''('' @ only @ '',)''
      | _ \<Rightarrow> ''('' @ join '', '' parts @ '')'')"

definition f64_is_finite :: "f64 \<Rightarrow> bool" where
  "f64_is_finite b \<longleftrightarrow> f64_magnitude b < 2047 * 2 ^ 52"

definition render_float :: "(f64 \<Rightarrow> string) \<Rightarrow> f64 \<Rightarrow> string" where
  "render_float float_text v =
     (let text = float_text v
      in if f64_is_finite v \<and> CHR ''.'' \<notin> set text \<and> CHR ''e'' \<notin> set text then text @ ''.0'' else text)"

text \<open>The escaped characters are ASCII, so a string is escaped byte by byte. The characters
  with the codes 34, 92, 10, 9, 13 and 39 are the double quote, the backslash, line feed, tab,
  carriage return and the single quote.\<close>

definition escape_with :: "nat \<Rightarrow> nat \<Rightarrow> string option" where
  "escape_with quote c =
     (if c = quote then Some [char_of (92 :: nat), char_of quote]
      else if c = 92 then Some [char_of (92 :: nat), char_of (92 :: nat)]
      else if c = 10 then Some [char_of (92 :: nat), CHR ''n'']
      else if c = 9 then Some [char_of (92 :: nat), CHR ''t'']
      else if c = 13 then Some [char_of (92 :: nat), CHR ''r'']
      else None)"

definition escape_byte :: "char \<Rightarrow> string" where
  "escape_byte b = (case escape_with 34 (of_char b) of Some e \<Rightarrow> e | None \<Rightarrow> [b])"

definition escape_str :: "string \<Rightarrow> string" where
  "escape_str s = concat (map escape_byte s)"

definition escape_char :: "rust_char \<Rightarrow> string" where
  "escape_char c = (case escape_with 39 c of Some e \<Rightarrow> e | None \<Rightarrow> utf8_encode c)"

definition quoted_str :: "string \<Rightarrow> string" where
  "quoted_str s = char_of (34 :: nat) # escape_str s @ [char_of (34 :: nat)]"

definition quoted_char :: "rust_char \<Rightarrow> string" where
  "quoted_char c = char_of (39 :: nat) # escape_char c @ [char_of (39 :: nat)]"

definition bool_text :: "bool \<Rightarrow> string" where
  "bool_text b = (if b then ''true'' else ''false'')"

section \<open>Rendering\<close>

definition max_display_depth :: nat where "max_display_depth = 10000"
definition cycle_marker :: string where "cycle_marker = ''<cycle>''"

definition prog_map :: "('a \<Rightarrow> 'b) \<Rightarrow> ('w, 'a) prog \<Rightarrow> ('w, 'b) prog" where
  "prog_map f p = prog_bind p (\<lambda>x. PDone (f x))"

definition with_heap :: "('b option) \<Rightarrow> ('b \<Rightarrow> ('w, 'a) prog) \<Rightarrow> ('w, 'a) prog" where
  "with_heap x k = (case x of Some y \<Rightarrow> k y | None \<Rightarrow> PCrash BadKind)"

text \<open>\<open>render\<close> is the body for the path with the cell on it.\<close>

definition render_cell ::
    "val \<Rightarrow> gc_ref \<Rightarrow> gc_ref list \<Rightarrow> (gc_ref list \<Rightarrow> ('w, string) prog) \<Rightarrow> ('w, string) prog" where
  "render_cell v cell path body =
     (if cell \<in> set path then PDone cycle_marker else with_rooted [v] (body (cell # path)))"

text \<open>The parts that read only the value: \<open>None\<close> where \<open>render\<close> descends.\<close>

definition render_leaf :: "'w env \<Rightarrow> val \<Rightarrow> bool \<Rightarrow> string option" where
  "render_leaf E v quoted =
     (case v of
        VInt i \<Rightarrow> Some (dec_int (sint i))
      | VFloat x \<Rightarrow> Some (render_float (e_float_text E) x)
      | VBool b \<Rightarrow> Some (bool_text b)
      | VUnit \<Rightarrow> Some ''unit''
      | VChar c \<Rightarrow> Some (if quoted then quoted_char c else utf8_encode c)
      | VStr s \<Rightarrow> Some (if quoted then quoted_str s else s)
      | VRange lo hi inclusive \<Rightarrow>
          Some (dec_int (sint lo) @ (if inclusive then ''..='' else ''..'') @ dec_int (sint hi))
      | VNone \<Rightarrow> Some ''None''
      | VClosure _ _ _ \<Rightarrow> Some ''<lambda>''
      | VConcurrentScope _ \<Rightarrow> Some ''<scope>''
      | VTask _ \<Rightarrow> Some ''<task>''
      | VBoundMethod _ _ _ \<Rightarrow> Some ''<bound method>''
      | VBoundBuiltin _ _ _ \<Rightarrow> Some ''<bound method>''
      | VNativeError e \<Rightarrow> Some (ne_message e)
      | VCliArgs a \<Rightarrow>
          Some (''Args { flags: '' @ dec_nat (length (args_flags a)) @ '', options: '' @
                dec_nat (length (args_options a)) @ '', rest: '' @ dec_nat (length (args_rest a)) @ '' }'')
      | VStat st \<Rightarrow>
          Some (''Stat { size: '' @ dec_int (sint (stat_size st)) @ '', modifiedMillis: '' @
                dec_int (sint (stat_modified_millis st)) @ '', isFile?: '' @ bool_text (stat_is_file st) @
                '', isDir?: '' @ bool_text (stat_is_dir st) @ '', isSymlink?: '' @
                bool_text (stat_is_symlink st) @ '' }'')
      | VJson t \<Rightarrow> Some (e_json_text E t)
      | _ \<Rightarrow> None)"

definition too_deep :: "('w, 'a) prog" where
  "too_deep = PRaise (SFatal (''brasa: toString nesting deeper than '' @ dec_nat max_display_depth @ '' levels''))"

text \<open>The text fields of a record are rendered one level down: only the nesting test can fail.\<close>

definition render_text_field :: "string \<Rightarrow> nat \<Rightarrow> (string \<Rightarrow> ('w, 'a) prog) \<Rightarrow> ('w, 'a) prog" where
  "render_text_field text depth k =
     (if max_display_depth < depth then too_deep else k (quoted_str text))"

function render :: "'w env \<Rightarrow> val \<Rightarrow> bool \<Rightarrow> nat \<Rightarrow> gc_ref list \<Rightarrow> ('w, string) prog"
  and render_list :: "'w env \<Rightarrow> val list \<Rightarrow> nat \<Rightarrow> gc_ref list \<Rightarrow> ('w, string list) prog"
  where
  "render E v quoted depth path =
     (if max_display_depth < depth then too_deep
      else case render_leaf E v quoted of
        Some text \<Rightarrow> PDone text
      | None \<Rightarrow>
     (case v of
        VTuple _ items \<Rightarrow> prog_map render_tuple (with_rooted items (render_list E items depth path))
      | VVector cell \<Rightarrow> PRead (\<lambda>s. with_heap (heap_vector (vm_heap s) cell) (\<lambda>items.
          render_cell v cell path (\<lambda>path.
            prog_map (\<lambda>parts. ''['' @ join '', '' parts @ '']'')
              (with_rooted items (render_list E items depth path)))))
      | VSet cell \<Rightarrow> PRead (\<lambda>s. with_heap (heap_set (vm_heap s) cell) (\<lambda>st.
          render_cell v cell path (\<lambda>path.
            prog_map (\<lambda>parts. ''Set(['' @ join '', '' parts @ ''])'')
              (with_rooted (set_items st) (render_list E (set_items st) depth path)))))
      | VMap cell \<Rightarrow> PRead (\<lambda>s. with_heap (heap_map (vm_heap s) cell) (\<lambda>m.
          if map_entries m = [] then PDone ''{}''
          else render_cell v cell path (\<lambda>path.
            with_rooted (entry_values m)
              (prog_map (\<lambda>parts. ''{ '' @ join '', '' (map (\<lambda>i. parts ! (2 * i) @ '': '' @ parts ! (2 * i + 1))
                    [0..<length (map_entries m)]) @ '' }'')
                (render_list E (entry_values m) depth path)))))
      | VSome _ inner \<Rightarrow>
          prog_map (\<lambda>text. ''Some('' @ text @ '')'') (render E inner True (depth + 1) path)
      | VStruct cell \<Rightarrow> PRead (\<lambda>s. with_heap (heap_struct (vm_heap s) cell) (\<lambda>(shp, fs).
          case struct_at E shp of
            None \<Rightarrow> PCrash BadIndex
          | Some shape \<Rightarrow>
              (case st_to_string shape of
                 Some f \<Rightarrow> PFunc f [v] (\<lambda>r.
                   case r of
                     Inl sig \<Rightarrow> PRaise sig
                   | Inr (VStr text) \<Rightarrow> PDone text
                   | Inr _ \<Rightarrow> PRaise (SFatal ''brasa: `toString` must return a string''))
               | None \<Rightarrow>
                   if fs = [] then PDone (st_name shape @ '' {}'')
                   else render_cell v cell path (\<lambda>path.
                     with_rooted fs
                       (prog_map (\<lambda>parts. st_name shape @ '' { '' @
                            join '', '' (map (\<lambda>(name, text). name @ '': '' @ text) (zip (st_fields shape) parts))
                            @ '' }'')
                         (render_list E (take (length (st_fields shape)) fs) depth path))))))
      | VEnum _ shp variant fs \<Rightarrow>
          (case enum_at E shp of
             None \<Rightarrow> PCrash BadIndex
           | Some shape \<Rightarrow>
               (let name = (case nth_opt (en_variants shape) variant of
                              Some va \<Rightarrow> va_name va | None \<Rightarrow> ''<variant>'')
                in if fs = [] then PDone name
                   else prog_map (\<lambda>parts. name @ ''('' @ join '', '' parts @ '')'')
                          (with_rooted fs (render_list E fs depth path))))
      | VFunc f \<Rightarrow>
          (case fn_at E f of
             None \<Rightarrow> PCrash BadIndex
           | Some fn \<Rightarrow> PDone (''<function '' @ fn_name fn @ ''>''))
      | VProcOutput out \<Rightarrow>
          render_text_field (out_stdout out) (depth + 1) (\<lambda>stdout.
          render_text_field (out_stderr out) (depth + 1) (\<lambda>stderr.
            PDone (''Output { stdout: '' @ stdout @ '', stderr: '' @ stderr @ '', code: '' @
                   dec_int (sint (out_code out)) @ '' }'')))
      | VHttpResponse r \<Rightarrow>
          render_text_field (resp_body r) (depth + 1) (\<lambda>body.
            PDone (''Response { status: '' @ dec_int (sint (resp_status r)) @ '', body: '' @ body @ '' }''))
      | VWalk _ paths unreadable \<Rightarrow>
          with_rooted [paths, unreadable]
            (prog_map (\<lambda>parts. ''Walk { paths: '' @ parts ! 0 @ '', unreadable: '' @ parts ! 1 @ '' }'')
              (render_list E [paths, unreadable] depth path))
      | _ \<Rightarrow> PCrash BadKind))"
| "render_list E [] depth path = PDone []"
| "render_list E (v # vs) depth path =
     prog_bind (render E v True (depth + 1) path) (\<lambda>text.
       prog_map (\<lambda>rest. text # rest) (render_list E vs depth path))"
  by pat_completeness auto
termination
  by (relation "measures [\<lambda>x. case x of Inl (_, _, _, depth, _) \<Rightarrow> 2 * (max_display_depth + 1 - depth)
         | Inr (_, _, depth, _) \<Rightarrow> 2 * (max_display_depth + 1 - depth) - 1,
       \<lambda>x. case x of Inl _ \<Rightarrow> 0 | Inr (_, vs, _, _) \<Rightarrow> length vs]") auto

declare render.simps [simp del] render_list.simps(2) [simp del]

definition display :: "'w env \<Rightarrow> val \<Rightarrow> ('w, string) prog" where
  "display E v = render E v False 0 []"

end
