(* ===== verification/Vm.thy ===== *)
theory Vm
  imports Display
begin

text \<open>
  The dispatch loop of the virtual machine (\<open>brasa_vm/src/vm.rs\<close>): frames, one instruction,
  calls, unwinding through the handler tables, and whole runs. One definition per arm of
  \<open>Vm::step\<close> or helper. \<open>run\<close> executes native code; it is tied to the dispatch loop by
  \<open>execute\<close>, whose fuel bounds the number of instructions and of nested calls.

  The scheduler of concurrent tasks is not modelled: a run here has a single task. The
  running function's cached code slice is looked up at every instruction instead.
\<close>

section \<open>Panics and frames\<close>

definition index_out_of_bounds :: string where "index_out_of_bounds = ''panics.IndexOutOfBounds''"
definition division_by_zero :: string where "division_by_zero = ''panics.DivisionByZero''"
definition integer_overflow :: string where "integer_overflow = ''panics.IntegerOverflow''"
definition assertion_failed :: string where "assertion_failed = ''panics.AssertionFailed''"
definition stack_overflow :: string where "stack_overflow = ''panics.StackOverflow''"

definition call_depth :: "'w vm \<Rightarrow> nat" where
  "call_depth s =
     length (vm_frames s) - (if vm_frames s \<noteq> [] \<and> fr_func (last (vm_frames s)) = 0 then 1 else 0)"

definition capture_trace :: "'w env \<Rightarrow> 'w vm \<Rightarrow> string list option" where
  "capture_trace E s =
     those (map (\<lambda>f. map_option fn_name (fn_at E (fr_func f))) (filter (\<lambda>f. fr_func f \<noteq> 0) (vm_frames s)))"

definition vm_panic :: "'w env \<Rightarrow> string \<Rightarrow> string \<Rightarrow> 'w vm \<Rightarrow> ('a, 'w vm) outcome" where
  "vm_panic E name detail s =
     (case capture_trace E s of
        Some trace \<Rightarrow> Raises (SPanic \<lparr>pv_name = name, pv_detail = detail, pv_stack = trace\<rparr>) s
      | None \<Rightarrow> Crash BadIndex)"

definition overflow :: "'w env \<Rightarrow> string \<Rightarrow> 'w vm \<Rightarrow> ('a, 'w vm) outcome" where
  "overflow E symbol s = vm_panic E integer_overflow (''integer overflow in `'' @ symbol @ ''`'') s"

text \<open>\<open>Vec::resize\<close>.\<close>

definition resize :: "nat \<Rightarrow> 'a \<Rightarrow> 'a list \<Rightarrow> 'a list" where
  "resize n x xs = take n xs @ replicate (n - length xs) x"

definition enter_function :: "'w env \<Rightarrow> func_id \<Rightarrow> nat \<Rightarrow> nat \<Rightarrow> 'w vm \<Rightarrow> (unit, 'w vm) outcome" where
  "enter_function E func base ret_base s =
     (if e_max_depth E \<le> call_depth s then
        vm_panic E stack_overflow (''recursion limit ('' @ dec_nat (e_max_depth E) @ '' frames) exceeded'') s
      else
        bind (demand BadIndex (fn_at E func) s) (\<lambda>fn s.
          if base + locals fn + max_stack fn < length (vm_stack s) then Crash BadReserve
          else Returns () (s\<lparr>vm_stack := resize (base + locals fn) VUnit (vm_stack s),
                 vm_frames := \<lparr>fr_func = func, fr_ip = 0, fr_base = base, fr_ret = ret_base\<rparr> # vm_frames s\<rparr>)))"

definition write_captures :: "'w env \<Rightarrow> func_id \<Rightarrow> val list \<Rightarrow> 'w vm \<Rightarrow> (unit, 'w vm) outcome" where
  "write_captures E func caps s =
     bind (top_frame s) (\<lambda>f s.
     bind (demand BadIndex (fn_at E func) s) (\<lambda>fn s.
       let start = fr_base f + arity fn
       in if caps \<noteq> [] \<and> length (vm_stack s) < start + length caps then Crash BadCapture
          else Returns () (s\<lparr>vm_stack :=
                 take start (vm_stack s) @ caps @ drop (start + length caps) (vm_stack s)\<rparr>)))"

section \<open>Names and members\<close>

definition nominal_tag :: "'w env \<Rightarrow> heap \<Rightarrow> val \<Rightarrow> string option" where
  "nominal_tag E h v =
     (case v of
        VInt _ \<Rightarrow> Some ''int'' | VFloat _ \<Rightarrow> Some ''float'' | VBool _ \<Rightarrow> Some ''bool''
      | VChar _ \<Rightarrow> Some ''char'' | VUnit \<Rightarrow> Some ''unit'' | VStr _ \<Rightarrow> Some ''string''
      | VRange _ _ _ \<Rightarrow> Some ''Range'' | VTuple _ _ \<Rightarrow> Some ''tuple'' | VVector _ \<Rightarrow> Some ''Vector''
      | VMap _ \<Rightarrow> Some ''Map'' | VSet _ \<Rightarrow> Some ''Set'' | VSome _ _ \<Rightarrow> Some ''Option'' | VNone \<Rightarrow> Some ''Option''
      | VStruct r \<Rightarrow>
          (case heap_struct h r of
             Some (shp, fs) \<Rightarrow> map_option st_name (struct_at E shp) | None \<Rightarrow> None)
      | VEnum _ shp _ _ \<Rightarrow> map_option en_name (enum_at E shp)
      | VNativeError e \<Rightarrow> Some (ne_name e)
      | VProcOutput _ \<Rightarrow> Some ''Output'' | VHttpResponse _ \<Rightarrow> Some ''Response''
      | VCliArgs _ \<Rightarrow> Some ''Args'' | VWalk _ _ _ \<Rightarrow> Some ''Walk'' | VStat _ \<Rightarrow> Some ''Stat''
      | VJson _ \<Rightarrow> Some ''Json'' | VConcurrentScope _ \<Rightarrow> Some ''Scope'' | VTask _ \<Rightarrow> Some ''Task''
      | VFunc _ \<Rightarrow> Some ''function'' | VClosure _ _ _ \<Rightarrow> Some ''function''
      | VBoundMethod _ _ _ \<Rightarrow> Some ''function'' | VBoundBuiltin _ _ _ \<Rightarrow> Some ''function''
      | VCaughtError _ _ \<Rightarrow> None | VCaughtPanic _ _ \<Rightarrow> None | VIter _ \<Rightarrow> None | VBinding _ \<Rightarrow> None)"

text \<open>\<open>None\<close> is a method whose function is out of range.\<close>

fun find_method :: "'w env \<Rightarrow> string \<Rightarrow> func_id list \<Rightarrow> func_id option option" where
  "find_method E name [] = Some None"
| "find_method E name (m # ms) =
     (case fn_at E m of
        None \<Rightarrow> None
      | Some fn \<Rightarrow> if fn_name fn = name then Some (Some m) else find_method E name ms)"

text \<open>A struct behind a handle: its shape and its fields.\<close>

definition struct_view :: "'w env \<Rightarrow> gc_ref \<Rightarrow> 'w vm \<Rightarrow> (struct_shape \<times> val list, 'w vm) outcome" where
  "struct_view E r s =
     (case heap_struct (vm_heap s) r of
        None \<Rightarrow> Crash BadKind
      | Some (shp, fs) \<Rightarrow>
          (case struct_at E shp of None \<Rightarrow> Crash BadIndex | Some shape \<Rightarrow> Returns (shape, fs) s))"

definition field_at :: "val list \<Rightarrow> nat \<Rightarrow> 'w vm \<Rightarrow> (val, 'w vm) outcome" where
  "field_at fs ix s = demand BadIndex (nth_opt fs ix) s"

definition unknown_member :: "string \<Rightarrow> string" where
  "unknown_member name = ''brasa: unknown member `'' @ name @ ''`''"

definition display_value :: "'w env \<Rightarrow> val \<Rightarrow> ('w, val) prog" where
  "display_value E v = prog_map VStr (display E v)"

definition call_struct_by_name :: "'w env \<Rightarrow> val \<Rightarrow> string \<Rightarrow> val list \<Rightarrow> ('w, val) prog" where
  "call_struct_by_name E recv name args =
     PRead (\<lambda>s.
       case recv of
         VStruct r \<Rightarrow>
           (case heap_struct (vm_heap s) r of
              None \<Rightarrow> PCrash BadKind
            | Some (shp, fs) \<Rightarrow>
                (case struct_at E shp of
                   None \<Rightarrow> PCrash BadIndex
                 | Some shape \<Rightarrow>
                     (case find_method E name (st_methods shape) of
                        None \<Rightarrow> PCrash BadIndex
                      | Some (Some func) \<Rightarrow> PFunc func (recv # args) of_result
                      | Some None \<Rightarrow>
                          (case find_pos (\<lambda>field. field = name) (st_fields shape) of
                             Some ix \<Rightarrow>
                               (case nth_opt fs ix of
                                  None \<Rightarrow> PCrash BadIndex
                                | Some field \<Rightarrow> PCall field args of_result)
                           | None \<Rightarrow>
                               if name = ''toString'' then display_value E recv
                               else PRaise (SFatal (unknown_member name))))))
       | _ \<Rightarrow> PCrash BadKind)"

definition builtin_with_args :: "'w env \<Rightarrow> builtin_id \<Rightarrow> val list \<Rightarrow> ('w, val) prog" where
  "builtin_with_args E b args =
     (case nth_opt (e_registry E) b of
        None \<Rightarrow> PCrash BadIndex
      | Some (name, has_receiver) \<Rightarrow>
          if has_receiver
          then (case args of [] \<Rightarrow> PCrash BadIndex | recv # rest \<Rightarrow> e_method E name recv rest)
          else e_free E name args)"

definition const_str :: "'w env \<Rightarrow> const_id \<Rightarrow> 'w vm \<Rightarrow> (string, 'w vm) outcome" where
  "const_str E c s =
     (case pool_get (m_constants (e_module E)) c of
        None \<Rightarrow> Crash BadIndex
      | Some (KStr text) \<Rightarrow> Returns text s
      | Some _ \<Rightarrow> Crash BadKind)"


section \<open>Constants, slots and globals\<close>

definition const_val :: "pool_constant \<Rightarrow> val" where
  "const_val c = (case c of KInt v \<Rightarrow> VInt v | KFloat v \<Rightarrow> VFloat v | KStr v \<Rightarrow> VStr v | KChar v \<Rightarrow> VChar v)"

definition op_const :: "'w env \<Rightarrow> const_id \<Rightarrow> 'w vm \<Rightarrow> (unit, 'w vm) outcome" where
  "op_const E c s =
     bind (demand BadIndex (pool_get (m_constants (e_module E)) c) s) (\<lambda>k s. push (const_val k) s)"

definition op_dup :: "'w vm \<Rightarrow> (unit, 'w vm) outcome" where
  "op_dup s = bind (peek s) (\<lambda>v s. push v s)"

definition op_load_local :: "slot_ix \<Rightarrow> 'w vm \<Rightarrow> (unit, 'w vm) outcome" where
  "op_load_local slot s = bind (slot_get slot s) (\<lambda>v s. push v s)"

definition op_store_local :: "slot_ix \<Rightarrow> 'w vm \<Rightarrow> (unit, 'w vm) outcome" where
  "op_store_local slot s = bind (pop s) (\<lambda>v s. slot_set slot v s)"

definition op_make_binding :: "slot_ix \<Rightarrow> 'w vm \<Rightarrow> (unit, 'w vm) outcome" where
  "op_make_binding slot s =
     bind (pop s) (\<lambda>v s. bind (gc_alloc (alloc_binding v) s) (\<lambda>b s. slot_set slot b s))"

definition op_load_binding :: "slot_ix \<Rightarrow> 'w vm \<Rightarrow> (unit, 'w vm) outcome" where
  "op_load_binding slot s =
     bind (binding_ref slot s) (\<lambda>r s.
     bind (demand BadKind (heap_binding (vm_heap s) r) s) (\<lambda>v s. push v s))"

definition op_store_binding :: "slot_ix \<Rightarrow> 'w vm \<Rightarrow> (unit, 'w vm) outcome" where
  "op_store_binding slot s =
     bind (pop s) (\<lambda>v s. bind (binding_ref slot s) (\<lambda>r s.
     bind (demand BadKind (heap_binding (vm_heap s) r) s) (\<lambda>_ s.
       Returns () (set_heap (set_cell r (CBinding v) (vm_heap s)) s))))"

definition op_load_global :: "'w env \<Rightarrow> global_ix \<Rightarrow> 'w vm \<Rightarrow> (unit, 'w vm) outcome" where
  "op_load_global E ix s =
     bind (demand BadIndex (nth_opt (vm_globals s) ix) s) (\<lambda>g s.
       case g of
         Some v \<Rightarrow> push v s
       | None \<Rightarrow> bind (demand BadIndex (nth_opt (m_globals (e_module E)) ix) s) (\<lambda>name s.
           fatal (''brasa: `'' @ name @ ''` used before initialization'') s))"

definition op_store_global :: "global_ix \<Rightarrow> 'w vm \<Rightarrow> (unit, 'w vm) outcome" where
  "op_store_global ix s =
     bind (pop s) (\<lambda>v s.
       if ix < length (vm_globals s) then Returns () (s\<lparr>vm_globals := (vm_globals s)[ix := Some v]\<rparr>)
       else Crash BadIndex)"

section \<open>Arithmetic and comparison\<close>

definition int_arith :: "'w env \<Rightarrow> string \<Rightarrow> (i64 \<Rightarrow> i64 \<Rightarrow> i64 option) \<Rightarrow> 'w vm \<Rightarrow> (unit, 'w vm) outcome" where
  "int_arith E symbol f s =
     bind (pop_int bad_arith s) (\<lambda>b s. bind (pop_int bad_arith s) (\<lambda>a s.
       case f a b of Some r \<Rightarrow> push (VInt r) s | None \<Rightarrow> overflow E symbol s))"

definition int_div_rem ::
    "'w env \<Rightarrow> string \<Rightarrow> string \<Rightarrow> (i64 \<Rightarrow> i64 \<Rightarrow> i64 option) \<Rightarrow> 'w vm \<Rightarrow> (unit, 'w vm) outcome" where
  "int_div_rem E detail symbol f s =
     bind (pop_int not_an_int s) (\<lambda>b s. bind (pop_int not_an_int s) (\<lambda>a s.
       if b = 0 then vm_panic E division_by_zero detail s
       else case f a b of Some r \<Rightarrow> push (VInt r) s | None \<Rightarrow> overflow E symbol s))"

definition op_pow_int :: "'w env \<Rightarrow> 'w vm \<Rightarrow> (unit, 'w vm) outcome" where
  "op_pow_int E s =
     bind (pop_int not_an_int s) (\<lambda>b s. bind (pop_int not_an_int s) (\<lambda>a s.
       if sint b < 0 then vm_panic E assertion_failed ''negative exponent in integer `**`'' s
       else if 2 ^ 32 \<le> sint b then overflow E ''**'' s
       else case checked_pow a (nat (sint b)) of
              Some r \<Rightarrow> push (VInt r) s | None \<Rightarrow> overflow E ''**'' s))"

definition op_neg_int :: "'w env \<Rightarrow> 'w vm \<Rightarrow> (unit, 'w vm) outcome" where
  "op_neg_int E s =
     bind (pop_int not_an_int s) (\<lambda>a s.
       case checked_neg a of
         Some r \<Rightarrow> push (VInt r) s
       | None \<Rightarrow> vm_panic E integer_overflow ''integer overflow in unary `-`'' s)"

definition float_arith :: "(f64 \<Rightarrow> f64 \<Rightarrow> f64) \<Rightarrow> 'w vm \<Rightarrow> (unit, 'w vm) outcome" where
  "float_arith f s =
     bind (pop s) (\<lambda>b s. bind (pop s) (\<lambda>a s.
       case a of
         VFloat x \<Rightarrow> (case b of VFloat y \<Rightarrow> push (VFloat (f x y)) s | _ \<Rightarrow> fatal bad_arith s)
       | _ \<Rightarrow> fatal bad_arith s))"

definition bad_unary :: string where "bad_unary = ''brasa: invalid operand for unary operator''"

definition op_neg_float :: "'w vm \<Rightarrow> (unit, 'w vm) outcome" where
  "op_neg_float s =
     bind (pop s) (\<lambda>v s. case v of VFloat x \<Rightarrow> push (VFloat (f64_neg x)) s | _ \<Rightarrow> fatal bad_unary s)"

definition op_concat :: "'w vm \<Rightarrow> (unit, 'w vm) outcome" where
  "op_concat s =
     bind (pop s) (\<lambda>b s. bind (pop s) (\<lambda>a s.
       case a of
         VStr x \<Rightarrow> (case b of VStr y \<Rightarrow> push (VStr (x @ y)) s | _ \<Rightarrow> fatal bad_arith s)
       | _ \<Rightarrow> fatal bad_arith s))"

definition op_not :: "'w vm \<Rightarrow> (unit, 'w vm) outcome" where
  "op_not s = bind (pop_bool bad_unary s) (\<lambda>a s. push (VBool (\<not> a)) s)"

definition op_eq :: "'w vm \<Rightarrow> (unit, 'w vm) outcome" where
  "op_eq s = bind (pop s) (\<lambda>b s. bind (pop s) (\<lambda>a s. push (VBool (value_eq (vm_heap s) a b)) s))"

definition int_cmp :: "(int \<Rightarrow> int \<Rightarrow> bool) \<Rightarrow> 'w vm \<Rightarrow> (unit, 'w vm) outcome" where
  "int_cmp f s =
     bind (pop_int bad_compare s) (\<lambda>b s. bind (pop_int bad_compare s) (\<lambda>a s.
       push (VBool (f (sint a) (sint b))) s))"

definition float_cmp :: "(f64 \<Rightarrow> f64 \<Rightarrow> bool) \<Rightarrow> 'w vm \<Rightarrow> (unit, 'w vm) outcome" where
  "float_cmp f s =
     bind (pop s) (\<lambda>b s. bind (pop s) (\<lambda>a s.
       case a of
         VFloat x \<Rightarrow> (case b of VFloat y \<Rightarrow> push (VBool (f x y)) s | _ \<Rightarrow> fatal bad_compare s)
       | _ \<Rightarrow> fatal bad_compare s))"

definition f64_test :: "(ordering \<Rightarrow> bool) \<Rightarrow> f64 \<Rightarrow> f64 \<Rightarrow> bool" where
  "f64_test f x y = (case f64_partial_cmp x y of Some o' \<Rightarrow> f o' | None \<Rightarrow> False)"

definition op_eq_bool :: "'w vm \<Rightarrow> (unit, 'w vm) outcome" where
  "op_eq_bool s =
     bind (pop_bool bad_compare s) (\<lambda>b s. bind (pop_bool bad_compare s) (\<lambda>a s.
       push (VBool (a = b)) s))"

definition is_lt :: "ordering \<Rightarrow> bool" where "is_lt r \<longleftrightarrow> r = Less"
definition is_le :: "ordering \<Rightarrow> bool" where "is_le r \<longleftrightarrow> r \<noteq> Greater"
definition is_gt :: "ordering \<Rightarrow> bool" where "is_gt r \<longleftrightarrow> r = Greater"
definition is_ge :: "ordering \<Rightarrow> bool" where "is_ge r \<longleftrightarrow> r \<noteq> Less"

type_synonym 'w runner = "('w, val) prog \<Rightarrow> 'w vm \<Rightarrow> (val, 'w vm) outcome"

definition ordering_fallback ::
    "'w env \<Rightarrow> 'w runner \<Rightarrow> val \<Rightarrow> val \<Rightarrow> (ordering \<Rightarrow> bool) \<Rightarrow> 'w vm \<Rightarrow> (bool, 'w vm) outcome" where
  "ordering_fallback E run a b f s =
     (if (\<exists>x y. a = VFloat x \<and> b = VFloat y) then Returns False s
      else if (\<exists>p q. a = VStruct p \<and> b = VStruct q) then
        bind (run (call_struct_by_name E a ''cmp'' [b]) s) (\<lambda>v s.
          case v of VInt i \<Rightarrow> Returns (f (cmp (sint i) 0)) s
          | _ \<Rightarrow> fatal ''brasa: `cmp` must return an int'' s)
      else fatal ''brasa: operands are not comparable'' s)"

definition ordering_op :: "'w env \<Rightarrow> 'w runner \<Rightarrow> (ordering \<Rightarrow> bool) \<Rightarrow> 'w vm \<Rightarrow> (unit, 'w vm) outcome" where
  "ordering_op E run f s =
     bind (pop s) (\<lambda>b s. bind (pop s) (\<lambda>a s.
     bind (case val_cmp a b of Some r \<Rightarrow> Returns (f r) s | None \<Rightarrow> ordering_fallback E run a b f s)
       (\<lambda>r s. push (VBool r) s)))"

section \<open>Jumps\<close>

definition op_jump_if_false :: "code_ix \<Rightarrow> 'w vm \<Rightarrow> (unit, 'w vm) outcome" where
  "op_jump_if_false target s =
     bind (pop_bool not_a_bool s) (\<lambda>b s. if b then Returns () s else jump target s)"

text \<open>\<open>JumpIfFalseOrPop\<close> for \<open>key = False\<close>, \<open>JumpIfTrueOrPop\<close> for \<open>key = True\<close>.\<close>

definition op_jump_or_pop :: "bool \<Rightarrow> code_ix \<Rightarrow> 'w vm \<Rightarrow> (unit, 'w vm) outcome" where
  "op_jump_or_pop key target s =
     bind (peek s) (\<lambda>v s.
       case v of
         VBool b \<Rightarrow> if b = key then jump target s else bind (pop s) (\<lambda>_ s. Returns () s)
       | _ \<Rightarrow> fatal not_a_bool s)"

definition op_jump_if_variant_ne :: "nat \<Rightarrow> code_ix \<Rightarrow> 'w vm \<Rightarrow> (unit, 'w vm) outcome" where
  "op_jump_if_variant_ne variant target s =
     bind (peek s) (\<lambda>v s.
       case v of
         VEnum _ _ w _ \<Rightarrow> if w \<noteq> variant then jump target s else Returns () s
       | _ \<Rightarrow> Crash BadKind)"

definition op_jump_if_none :: "code_ix \<Rightarrow> 'w vm \<Rightarrow> (unit, 'w vm) outcome" where
  "op_jump_if_none target s =
     bind (peek s) (\<lambda>v s.
       case v of VNone \<Rightarrow> jump target s | VSome _ _ \<Rightarrow> Returns () s | _ \<Rightarrow> Crash BadKind)"

section \<open>Aggregates\<close>

definition push_some :: "val \<Rightarrow> 'w vm \<Rightarrow> (unit, 'w vm) outcome" where
  "push_some v s = bind (fresh s) (\<lambda>a s. push (VSome a v) s)"

definition op_wrap_some :: "'w vm \<Rightarrow> (unit, 'w vm) outcome" where
  "op_wrap_some s = bind (pop s) (\<lambda>v s. push_some v s)"

definition op_wrap_some_dynamic :: "'w vm \<Rightarrow> (unit, 'w vm) outcome" where
  "op_wrap_some_dynamic s =
     bind (pop s) (\<lambda>v s. case v of VSome _ _ \<Rightarrow> push v s | VNone \<Rightarrow> push v s | _ \<Rightarrow> push_some v s)"

definition op_unwrap_some :: "'w vm \<Rightarrow> (unit, 'w vm) outcome" where
  "op_unwrap_some s = bind (pop s) (\<lambda>v s. case v of VSome _ x \<Rightarrow> push x s | _ \<Rightarrow> Crash BadKind)"

definition op_tuple_field :: "nat \<Rightarrow> 'w vm \<Rightarrow> (unit, 'w vm) outcome" where
  "op_tuple_field ix s =
     bind (pop s) (\<lambda>v s.
       case v of VTuple _ vs \<Rightarrow> bind (field_at vs ix s) (\<lambda>x s. push x s) | _ \<Rightarrow> Crash BadKind)"

definition op_enum_field :: "nat \<Rightarrow> 'w vm \<Rightarrow> (unit, 'w vm) outcome" where
  "op_enum_field ix s =
     bind (pop s) (\<lambda>v s.
       case v of VEnum _ _ _ vs \<Rightarrow> bind (field_at vs ix s) (\<lambda>x s. push x s) | _ \<Rightarrow> Crash BadKind)"

definition op_get_field :: "nat \<Rightarrow> 'w vm \<Rightarrow> (unit, 'w vm) outcome" where
  "op_get_field ix s =
     bind (pop s) (\<lambda>v s.
       case v of
         VStruct r \<Rightarrow>
           (case heap_struct (vm_heap s) r of
              Some (shp, fs) \<Rightarrow> bind (field_at fs ix s) (\<lambda>x s. push x s)
            | None \<Rightarrow> Crash BadKind)
       | _ \<Rightarrow> Crash BadKind)"

definition op_set_field :: "nat \<Rightarrow> 'w vm \<Rightarrow> (unit, 'w vm) outcome" where
  "op_set_field ix s =
     bind (pop s) (\<lambda>x s. bind (pop s) (\<lambda>v s.
       case v of
         VStruct r \<Rightarrow>
           (case heap_struct (vm_heap s) r of
              Some (shp, fs) \<Rightarrow>
                if ix < length fs
                then Returns () (set_heap (set_cell r (CStruct shp (fs[ix := x])) (vm_heap s)) s)
                else Crash BadIndex
            | None \<Rightarrow> Crash BadKind)
       | _ \<Rightarrow> Crash BadKind))"

definition no_indexing :: string where
  "no_indexing = ''brasa: value does not support indexing''"

definition out_of_range :: "i64 \<Rightarrow> nat \<Rightarrow> string" where
  "out_of_range i len = ''index '' @ dec_int (sint i) @ '' out of range (len '' @ dec_nat len @ '')''"

definition json_index_value :: "'w env \<Rightarrow> json_value \<Rightarrow> val \<Rightarrow> 'w vm \<Rightarrow> (val, 'w vm) outcome" where
  "json_index_value E tree index s =
     (let wrap = (\<lambda>subtree. case subtree of
                    Some t \<Rightarrow> bind (fresh s) (\<lambda>a s. Returns (VSome a (VJson t)) s)
                  | None \<Rightarrow> Returns VNone s)
      in case index of
           VStr key \<Rightarrow> wrap (e_json_key E tree key)
         | VInt position \<Rightarrow> wrap (e_json_position E tree position)
         | _ \<Rightarrow> fatal ''brasa: a Json index must be a string or an int'' s)"

definition get_index :: "'w env \<Rightarrow> val \<Rightarrow> val \<Rightarrow> 'w vm \<Rightarrow> (val, 'w vm) outcome" where
  "get_index E recv index s =
     (case recv of
        VVector r \<Rightarrow>
          (case index of
             VInt i \<Rightarrow>
               bind (demand BadKind (heap_vector (vm_heap s) r) s) (\<lambda>items s.
                 if sint i < 0 \<or> length items \<le> nat (sint i)
                 then vm_panic E index_out_of_bounds (out_of_range i (length items)) s
                 else Returns (items ! nat (sint i)) s)
           | _ \<Rightarrow> fatal no_indexing s)
      | VMap r \<Rightarrow>
          bind (demand BadKind (heap_map (vm_heap s) r) s) (\<lambda>m s.
            case om_get val_hash_key m index (value_eq (vm_heap s)) of
              Some v \<Rightarrow> bind (fresh s) (\<lambda>a s. Returns (VSome a v) s)
            | None \<Rightarrow> Returns VNone s)
      | VJson tree \<Rightarrow> json_index_value E tree index s
      | VSome _ inner \<Rightarrow>
          (case inner of VJson tree \<Rightarrow> json_index_value E tree index s | _ \<Rightarrow> fatal no_indexing s)
      | VNone \<Rightarrow> Returns VNone s
      | _ \<Rightarrow> fatal no_indexing s)"

definition set_index :: "'w env \<Rightarrow> val \<Rightarrow> val \<Rightarrow> val \<Rightarrow> 'w vm \<Rightarrow> (unit, 'w vm) outcome" where
  "set_index E recv index v s =
     (case recv of
        VVector r \<Rightarrow>
          (case index of
             VInt i \<Rightarrow>
               bind (demand BadKind (heap_vector (vm_heap s) r) s) (\<lambda>items s.
                 if sint i < 0 \<or> length items \<le> nat (sint i)
                 then vm_panic E index_out_of_bounds (out_of_range i (length items)) s
                 else Returns () (set_heap (set_cell r (CVector (items[nat (sint i) := v])) (vm_heap s)) s))
           | _ \<Rightarrow> fatal ''brasa: vector index must be an int'' s)
      | VMap r \<Rightarrow>
          (case edit_map r (\<lambda>m. ((), om_insert val_hash_key m index v (value_eq (vm_heap s)))) (vm_heap s) of
             Some (_, h) \<Rightarrow> Returns () (set_heap h s)
           | None \<Rightarrow> Crash BadKind)
      | _ \<Rightarrow> fatal ''brasa: value does not support index assignment'' s)"

definition op_get_index :: "'w env \<Rightarrow> 'w vm \<Rightarrow> (unit, 'w vm) outcome" where
  "op_get_index E s =
     bind (pop s) (\<lambda>index s. bind (pop s) (\<lambda>recv s.
     bind (get_index E recv index s) (\<lambda>v s. push v s)))"

definition op_set_index :: "'w env \<Rightarrow> 'w vm \<Rightarrow> (unit, 'w vm) outcome" where
  "op_set_index E s =
     bind (pop s) (\<lambda>v s. bind (pop s) (\<lambda>index s. bind (pop s) (\<lambda>recv s. set_index E recv index v s)))"


section \<open>Calls\<close>

definition op_call :: "'w env \<Rightarrow> func_id \<Rightarrow> nat \<Rightarrow> 'w vm \<Rightarrow> (unit, 'w vm) outcome" where
  "op_call E func argc s =
     (if length (vm_stack s) < argc then Crash Underflow
      else enter_function E func (length (vm_stack s) - argc) (length (vm_stack s) - argc) s)"

definition takes_args :: "string \<Rightarrow> nat \<Rightarrow> nat \<Rightarrow> string" where
  "takes_args name expected found =
     ''brasa: '' @ name @ '' takes '' @ dec_nat expected @ '' argument(s), found '' @ dec_nat found"

definition quoted_name :: "string \<Rightarrow> string" where
  "quoted_name name = ''`'' @ name @ ''`''"

definition not_callable :: string where "not_callable = ''brasa: value is not callable''"

text \<open>The arity of a method counts its receiver; a method without parameters cannot be bound.\<close>

definition method_arity :: "function_entry \<Rightarrow> 'w vm \<Rightarrow> (nat, 'w vm) outcome" where
  "method_arity fn s = (if arity fn = 0 then Crash BadIndex else Returns (arity fn - 1) s)"

definition call_value_op :: "'w env \<Rightarrow> 'w runner \<Rightarrow> nat \<Rightarrow> 'w vm \<Rightarrow> (unit, 'w vm) outcome" where
  "call_value_op E run argc s =
     (if length (vm_stack s) < argc + 1 then Crash Underflow
      else let callee_ix = length (vm_stack s) - argc - 1
       in case vm_stack s ! callee_ix of
            VFunc func \<Rightarrow>
              bind (demand BadIndex (fn_at E func) s) (\<lambda>fn s.
                if arity fn \<noteq> argc then fatal (takes_args (quoted_name (fn_name fn)) (arity fn) argc) s
                else enter_function E func (callee_ix + 1) callee_ix s)
          | VClosure _ func caps \<Rightarrow>
              bind (demand BadIndex (fn_at E func) s) (\<lambda>fn s.
                if arity fn \<noteq> argc then fatal (takes_args ''lambda'' (arity fn) argc) s
                else bind (enter_function E func (callee_ix + 1) callee_ix s) (\<lambda>_ s.
                       write_captures E func caps s))
          | VBoundMethod _ recv func \<Rightarrow>
              bind (demand BadIndex (fn_at E func) s) (\<lambda>fn s.
              bind (method_arity fn s) (\<lambda>expected s.
                if expected \<noteq> argc then fatal (takes_args (quoted_name (fn_name fn)) expected argc) s
                else enter_function E func (callee_ix + 1) callee_ix
                       (s\<lparr>vm_stack := take (callee_ix + 1) (vm_stack s) @ [recv] @
                                       drop (callee_ix + 1) (vm_stack s)\<rparr>)))
          | VBoundBuiltin _ recv b \<Rightarrow>
              bind (pop_n argc s) (\<lambda>args s. bind (pop s) (\<lambda>_ s.
              bind (run (builtin_with_args E b (recv # args)) s) (\<lambda>v s. push v s)))
          | _ \<Rightarrow> fatal not_callable s)"

definition op_call_builtin :: "'w env \<Rightarrow> 'w runner \<Rightarrow> builtin_id \<Rightarrow> nat \<Rightarrow> 'w vm \<Rightarrow> (unit, 'w vm) outcome" where
  "op_call_builtin E run b argc s =
     bind (pop_n argc s) (\<lambda>args s. bind (run (builtin_with_args E b args) s) (\<lambda>v s. push v s))"

definition call_method_dyn :: "'w env \<Rightarrow> 'w runner \<Rightarrow> string \<Rightarrow> nat \<Rightarrow> 'w vm \<Rightarrow> (unit, 'w vm) outcome" where
  "call_method_dyn E run name argc s =
     (if length (vm_stack s) < argc \<or> argc = 0 then Crash Underflow
      else let base = length (vm_stack s) - argc
       in case vm_stack s ! base of
            VStruct r \<Rightarrow>
              bind (struct_view E r s) (\<lambda>view s.
                case find_method E name (st_methods (fst view)) of
                  None \<Rightarrow> Crash BadIndex
                | Some (Some func) \<Rightarrow> enter_function E func base base s
                | Some None \<Rightarrow>
                    (case find_pos (\<lambda>field. field = name) (st_fields (fst view)) of
                       Some ix \<Rightarrow>
                         bind (field_at (snd view) ix s) (\<lambda>field s.
                           call_value_op E run (argc - 1) (s\<lparr>vm_stack := (vm_stack s)[base := field]\<rparr>))
                     | None \<Rightarrow>
                         if name = ''toString'' \<and> argc = 1 then
                           bind (pop s) (\<lambda>recv s. bind (run (display_value E recv) s) (\<lambda>v s. push v s))
                         else fatal (unknown_member name) (truncate_stack base s)))
          | _ \<Rightarrow>
              bind (pop_n argc s) (\<lambda>args s.
              bind (run (e_method E name (hd args) (tl args)) s) (\<lambda>v s. push v s)))"

definition op_call_method_dyn :: "'w env \<Rightarrow> 'w runner \<Rightarrow> const_id \<Rightarrow> nat \<Rightarrow> 'w vm \<Rightarrow> (unit, 'w vm) outcome" where
  "op_call_method_dyn E run name argc s =
     bind (const_str E name s) (\<lambda>name s. call_method_dyn E run name argc s)"

text \<open>Binding on anything but a declared method or field of a struct.\<close>

definition bind_builtin_member :: "'w env \<Rightarrow> 'w runner \<Rightarrow> val \<Rightarrow> string \<Rightarrow> 'w vm \<Rightarrow> (val, 'w vm) outcome" where
  "bind_builtin_member E run recv name s =
     (if e_record_field E recv name then run (e_method E name recv []) s
      else case find_pos (\<lambda>d. fst d = name) (e_registry E) of
        Some b \<Rightarrow>
          if e_can_bind E recv name \<and> snd (e_registry E ! b)
          then bind (fresh s) (\<lambda>a s. Returns (VBoundBuiltin a recv b) s)
          else fatal (''brasa: unknown builtin method `'' @ name @ ''`'') s
      | None \<Rightarrow> fatal (''brasa: unknown builtin method `'' @ name @ ''`'') s)"

definition bind_member_by_name :: "'w env \<Rightarrow> 'w runner \<Rightarrow> val \<Rightarrow> string \<Rightarrow> 'w vm \<Rightarrow> (val, 'w vm) outcome" where
  "bind_member_by_name E run recv name s =
     (case recv of
        VStruct r \<Rightarrow>
          bind (struct_view E r s) (\<lambda>view s.
            case find_method E name (st_methods (fst view)) of
              None \<Rightarrow> Crash BadIndex
            | Some (Some func) \<Rightarrow> bind (fresh s) (\<lambda>a s. Returns (VBoundMethod a recv func) s)
            | Some None \<Rightarrow>
                (case find_pos (\<lambda>field. field = name) (st_fields (fst view)) of
                   Some ix \<Rightarrow> field_at (snd view) ix s
                 | None \<Rightarrow> bind_builtin_member E run recv name s))
      | _ \<Rightarrow> bind_builtin_member E run recv name s)"

definition op_bind_method_dyn :: "'w env \<Rightarrow> 'w runner \<Rightarrow> const_id \<Rightarrow> 'w vm \<Rightarrow> (unit, 'w vm) outcome" where
  "op_bind_method_dyn E run name s =
     bind (const_str E name s) (\<lambda>name s. bind (pop s) (\<lambda>recv s.
     bind (bind_member_by_name E run recv name s) (\<lambda>v s. push v s)))"

definition op_bind_method :: "func_id \<Rightarrow> 'w vm \<Rightarrow> (unit, 'w vm) outcome" where
  "op_bind_method func s = bind (pop s) (\<lambda>recv s. bind (fresh s) (\<lambda>a s. push (VBoundMethod a recv func) s))"

definition op_bind_builtin :: "builtin_id \<Rightarrow> 'w vm \<Rightarrow> (unit, 'w vm) outcome" where
  "op_bind_builtin b s = bind (pop s) (\<lambda>recv s. bind (fresh s) (\<lambda>a s. push (VBoundBuiltin a recv b) s))"

definition op_ret :: "'w vm \<Rightarrow> (unit, 'w vm) outcome" where
  "op_ret s =
     bind (pop s) (\<lambda>v s.
       case vm_frames s of
         [] \<Rightarrow> Crash NoFrame
       | f # fs \<Rightarrow> push v (truncate_stack (fr_ret f) (s\<lparr>vm_frames := fs\<rparr>)))"

section \<open>Construction\<close>

definition op_make_vector :: "nat \<Rightarrow> 'w vm \<Rightarrow> (unit, 'w vm) outcome" where
  "op_make_vector n s =
     bind (pop_n n s) (\<lambda>vs s. bind (gc_alloc (alloc_vector vs) s) (\<lambda>v s. push v s))"

fun insert_pairs :: "heap \<Rightarrow> val list \<Rightarrow> val omap \<Rightarrow> val omap" where
  "insert_pairs h (k # v # rest) m = insert_pairs h rest (om_insert val_hash_key m k v (value_eq h))"
| "insert_pairs h _ m = m"

definition op_make_map :: "nat \<Rightarrow> 'w vm \<Rightarrow> (unit, 'w vm) outcome" where
  "op_make_map n s =
     bind (pop_n (2 * n) s) (\<lambda>flat s.
     bind (gc_alloc (alloc_map (insert_pairs (vm_heap s) flat om_new)) s) (\<lambda>v s. push v s))"

definition op_make_tuple :: "nat \<Rightarrow> 'w vm \<Rightarrow> (unit, 'w vm) outcome" where
  "op_make_tuple n s = bind (pop_n n s) (\<lambda>vs s. bind (fresh s) (\<lambda>a s. push (VTuple a vs) s))"

definition set_of_items :: "heap \<Rightarrow> val list \<Rightarrow> val oset" where
  "set_of_items h vs = foldl (\<lambda>st v. os_add val_hash_key st v (value_eq h)) os_new vs"

definition op_make_set_from_vector :: "'w vm \<Rightarrow> (unit, 'w vm) outcome" where
  "op_make_set_from_vector s =
     bind (pop s) (\<lambda>v s.
       case v of
         VVector r \<Rightarrow>
           bind (demand BadKind (heap_vector (vm_heap s) r) s) (\<lambda>vs s.
           bind (gc_alloc (alloc_set (set_of_items (vm_heap s) vs)) s) (\<lambda>v s. push v s))
       | _ \<Rightarrow> fatal ''brasa: `Set` takes exactly 1 Vector argument'' s)"

definition op_make_struct :: "'w env \<Rightarrow> struct_id \<Rightarrow> 'w vm \<Rightarrow> (unit, 'w vm) outcome" where
  "op_make_struct E shp s =
     bind (demand BadIndex (struct_at E shp) s) (\<lambda>shape s.
     bind (pop_n (length (st_fields shape)) s) (\<lambda>vs s.
     bind (gc_alloc (alloc_struct shp vs) s) (\<lambda>v s. push v s)))"

definition op_make_enum :: "enum_id \<Rightarrow> nat \<Rightarrow> nat \<Rightarrow> 'w vm \<Rightarrow> (unit, 'w vm) outcome" where
  "op_make_enum en variant argc s =
     bind (pop_n argc s) (\<lambda>vs s. bind (fresh s) (\<lambda>a s. push (VEnum a en variant vs) s))"

definition op_make_closure :: "func_id \<Rightarrow> nat \<Rightarrow> 'w vm \<Rightarrow> (unit, 'w vm) outcome" where
  "op_make_closure func n s =
     bind (pop_n n s) (\<lambda>vs s. bind (fresh s) (\<lambda>a s. push (VClosure a func vs) s))"

definition op_make_range :: "bool \<Rightarrow> 'w vm \<Rightarrow> (unit, 'w vm) outcome" where
  "op_make_range inclusive s =
     bind (pop_int not_an_int s) (\<lambda>hi s. bind (pop_int not_an_int s) (\<lambda>lo s.
       push (VRange lo hi inclusive) s))"

section \<open>Iteration and rendering\<close>

definition op_to_string :: "'w env \<Rightarrow> 'w runner \<Rightarrow> 'w vm \<Rightarrow> (unit, 'w vm) outcome" where
  "op_to_string E run s = bind (pop s) (\<lambda>v s. bind (run (display_value E v) s) (\<lambda>t s. push t s))"

text \<open>The tuples of a map's snapshot are new nodes.\<close>

fun entry_tuples :: "addr \<Rightarrow> (val \<times> val) list \<Rightarrow> val list" where
  "entry_tuples a [] = []"
| "entry_tuples a ((k, v) # es) = VTuple a [k, v] # entry_tuples (a + 1) es"

definition iter_new :: "val \<Rightarrow> 'w vm \<Rightarrow> (iter_state, 'w vm) outcome" where
  "iter_new v s =
     (case v of
        VRange lo hi inclusive \<Rightarrow> Returns (IterRange lo hi inclusive False) s
      | VVector r \<Rightarrow> bind (demand BadKind (heap_vector (vm_heap s) r) s) (\<lambda>vs s. Returns (IterItems vs 0) s)
      | VMap r \<Rightarrow>
          bind (demand BadKind (heap_map (vm_heap s) r) s) (\<lambda>m s.
            let a = st_next (vm_store s)
            in Returns (IterItems (entry_tuples a (map_entries m)) 0)
                 (s\<lparr>vm_store := (vm_store s)\<lparr>st_next := a + length (map_entries m)\<rparr>\<rparr>))
      | VSet r \<Rightarrow>
          bind (demand BadKind (heap_set (vm_heap s) r) s) (\<lambda>st s. Returns (IterItems (set_items st) 0) s)
      | VStr t \<Rightarrow> Returns (IterItems (map VChar (str_chars t)) 0) s
      | _ \<Rightarrow> fatal ''brasa: `for` iterates `Vector`, `Map`, `Set`, ranges, and `string`'' s)"

definition put_iter :: "addr \<Rightarrow> iter_state \<Rightarrow> 'w vm \<Rightarrow> 'w vm" where
  "put_iter a st s =
     set_heap ((vm_heap s)\<lparr>iters := (a, st) # filter (\<lambda>p. fst p \<noteq> a) (iters (vm_heap s))\<rparr>) s"

definition op_iter_new :: "'w vm \<Rightarrow> (unit, 'w vm) outcome" where
  "op_iter_new s =
     bind (pop s) (\<lambda>v s. bind (iter_new v s) (\<lambda>st s. bind (fresh s) (\<lambda>a s. push (VIter a) (put_iter a st s))))"

definition op_iter_next :: "code_ix \<Rightarrow> 'w vm \<Rightarrow> (unit, 'w vm) outcome" where
  "op_iter_next target s =
     bind (peek s) (\<lambda>v s.
       case v of
         VIter a \<Rightarrow>
           bind (demand BadKind (map_of (iters (vm_heap s)) a) s) (\<lambda>st s.
             case iter_next st of
               (Some item, st') \<Rightarrow> push item (put_iter a st' s)
             | (None, st') \<Rightarrow> bind (pop (put_iter a st' s)) (\<lambda>_ s. jump target s))
       | _ \<Rightarrow> Crash BadKind)"

section \<open>Errors\<close>

definition op_throw :: "'w vm \<Rightarrow> (unit, 'w vm) outcome" where
  "op_throw s = bind (pop s) (\<lambda>v s. Raises (SError v) s)"

definition op_jump_if_panic :: "code_ix \<Rightarrow> 'w vm \<Rightarrow> (unit, 'w vm) outcome" where
  "op_jump_if_panic target s =
     bind (peek s) (\<lambda>v s.
       case v of
         VCaughtPanic _ _ \<Rightarrow> jump target s | VCaughtError _ _ \<Rightarrow> Returns () s | _ \<Rightarrow> Crash BadKind)"

definition op_jump_if_tag_ne :: "'w env \<Rightarrow> const_id \<Rightarrow> code_ix \<Rightarrow> 'w vm \<Rightarrow> (unit, 'w vm) outcome" where
  "op_jump_if_tag_ne E tag target s =
     bind (const_str E tag s) (\<lambda>tag s. bind (peek s) (\<lambda>v s.
     bind (demand BadKind
            (case v of
               VCaughtError _ x \<Rightarrow> nominal_tag E (vm_heap s) x
             | VCaughtPanic _ p \<Rightarrow> Some (pv_name p)
             | _ \<Rightarrow> None) s) (\<lambda>signal_tag s.
       if signal_tag \<noteq> tag then jump target s else Returns () s)))"

definition op_caught_value :: "'w vm \<Rightarrow> (unit, 'w vm) outcome" where
  "op_caught_value s = bind (peek s) (\<lambda>v s. case v of VCaughtError _ x \<Rightarrow> push x s | _ \<Rightarrow> Crash BadKind)"

definition op_caught_detail :: "'w vm \<Rightarrow> (unit, 'w vm) outcome" where
  "op_caught_detail s =
     bind (peek s) (\<lambda>v s.
       case v of
         VCaughtError _ x \<Rightarrow> push x s
       | VCaughtPanic _ p \<Rightarrow> push (VStr (pv_detail p)) s
       | _ \<Rightarrow> Crash BadKind)"

definition op_rethrow :: "'w vm \<Rightarrow> (unit, 'w vm) outcome" where
  "op_rethrow s =
     bind (pop s) (\<lambda>v s.
       case v of
         VCaughtError _ x \<Rightarrow> Raises (SError x) s
       | VCaughtPanic _ p \<Rightarrow> Raises (SPanic p) s
       | _ \<Rightarrow> Crash BadKind)"


section \<open>One instruction\<close>

definition step :: "'w env \<Rightarrow> 'w runner \<Rightarrow> op \<Rightarrow> 'w vm \<Rightarrow> (unit, 'w vm) outcome" where
  "step E run op s =
     (case op of
        Const c \<Rightarrow> op_const E c s
      | LoadUnit \<Rightarrow> push VUnit s
      | LoadTrue \<Rightarrow> push (VBool True) s
      | LoadFalse \<Rightarrow> push (VBool False) s
      | LoadNone \<Rightarrow> push VNone s
      | Pop \<Rightarrow> bind (pop s) (\<lambda>_ s. Returns () s)
      | Dup \<Rightarrow> op_dup s
      | LoadLocal slot \<Rightarrow> op_load_local slot s
      | StoreLocal slot \<Rightarrow> op_store_local slot s
      | MakeBinding slot \<Rightarrow> op_make_binding slot s
      | LoadBinding slot \<Rightarrow> op_load_binding slot s
      | StoreBinding slot \<Rightarrow> op_store_binding slot s
      | LoadGlobal ix \<Rightarrow> op_load_global E ix s
      | StoreGlobal ix \<Rightarrow> op_store_global ix s
      | LoadFunc func \<Rightarrow> push (VFunc func) s
      | AddInt \<Rightarrow> int_arith E ''+'' checked_add s
      | SubInt \<Rightarrow> int_arith E ''-'' checked_sub s
      | MulInt \<Rightarrow> int_arith E ''*'' checked_mul s
      | DivInt \<Rightarrow> int_div_rem E ''division by zero'' ''/'' checked_div s
      | RemInt \<Rightarrow> int_div_rem E ''remainder by zero'' ''%'' checked_rem s
      | PowInt \<Rightarrow> op_pow_int E s
      | NegInt \<Rightarrow> op_neg_int E s
      | AddFloat \<Rightarrow> float_arith (e_float_add E) s
      | SubFloat \<Rightarrow> float_arith (e_float_sub E) s
      | MulFloat \<Rightarrow> float_arith (e_float_mul E) s
      | DivFloat \<Rightarrow> float_arith (e_float_div E) s
      | RemFloat \<Rightarrow> float_arith (e_float_rem E) s
      | PowFloat \<Rightarrow> float_arith (e_float_pow E) s
      | NegFloat \<Rightarrow> op_neg_float s
      | Concat \<Rightarrow> op_concat s
      | Not \<Rightarrow> op_not s
      | Eq \<Rightarrow> op_eq s
      | Lt \<Rightarrow> ordering_op E run is_lt s
      | Le \<Rightarrow> ordering_op E run is_le s
      | Gt \<Rightarrow> ordering_op E run is_gt s
      | Ge \<Rightarrow> ordering_op E run is_ge s
      | EqInt \<Rightarrow> int_cmp (\<lambda>a b. a = b) s
      | LtInt \<Rightarrow> int_cmp (\<lambda>a b. a < b) s
      | LeInt \<Rightarrow> int_cmp (\<lambda>a b. a \<le> b) s
      | GtInt \<Rightarrow> int_cmp (\<lambda>a b. b < a) s
      | GeInt \<Rightarrow> int_cmp (\<lambda>a b. b \<le> a) s
      | EqFloat \<Rightarrow> float_cmp f64_eq s
      | LtFloat \<Rightarrow> float_cmp (f64_test is_lt) s
      | LeFloat \<Rightarrow> float_cmp (f64_test is_le) s
      | GtFloat \<Rightarrow> float_cmp (f64_test is_gt) s
      | GeFloat \<Rightarrow> float_cmp (f64_test is_ge) s
      | EqBool \<Rightarrow> op_eq_bool s
      | Jump target \<Rightarrow> jump target s
      | JumpIfFalse target \<Rightarrow> op_jump_if_false target s
      | JumpIfFalseOrPop target \<Rightarrow> op_jump_or_pop False target s
      | JumpIfTrueOrPop target \<Rightarrow> op_jump_or_pop True target s
      | JumpIfVariantNe variant target \<Rightarrow> op_jump_if_variant_ne variant target s
      | JumpIfNone target \<Rightarrow> op_jump_if_none target s
      | WrapSome \<Rightarrow> op_wrap_some s
      | WrapSomeDynamic \<Rightarrow> op_wrap_some_dynamic s
      | UnwrapSome \<Rightarrow> op_unwrap_some s
      | TupleField ix \<Rightarrow> op_tuple_field ix s
      | EnumField ix \<Rightarrow> op_enum_field ix s
      | GetField ix \<Rightarrow> op_get_field ix s
      | SetField ix \<Rightarrow> op_set_field ix s
      | GetIndex \<Rightarrow> op_get_index E s
      | SetIndex \<Rightarrow> op_set_index E s
      | Call func argc \<Rightarrow> op_call E func argc s
      | CallValue argc \<Rightarrow> call_value_op E run argc s
      | CallBuiltin b argc \<Rightarrow> op_call_builtin E run b argc s
      | CallMethodDyn name argc \<Rightarrow> op_call_method_dyn E run name argc s
      | BindMethodDyn name \<Rightarrow> op_bind_method_dyn E run name s
      | BindMethod func \<Rightarrow> op_bind_method func s
      | BindBuiltin b \<Rightarrow> op_bind_builtin b s
      | Ret \<Rightarrow> op_ret s
      | MakeVector n \<Rightarrow> op_make_vector n s
      | MakeMap n \<Rightarrow> op_make_map n s
      | MakeTuple n \<Rightarrow> op_make_tuple n s
      | MakeSetFromVector \<Rightarrow> op_make_set_from_vector s
      | MakeStruct shp \<Rightarrow> op_make_struct E shp s
      | MakeEnum en variant argc \<Rightarrow> op_make_enum en variant argc s
      | MakeClosure func n \<Rightarrow> op_make_closure func n s
      | MakeRange inclusive \<Rightarrow> op_make_range inclusive s
      | ToString \<Rightarrow> op_to_string E run s
      | IterNew \<Rightarrow> op_iter_new s
      | IterNext target \<Rightarrow> op_iter_next target s
      | Throw \<Rightarrow> op_throw s
      | JumpIfPanic target \<Rightarrow> op_jump_if_panic target s
      | JumpIfTagNe tag target \<Rightarrow> op_jump_if_tag_ne E tag target s
      | CaughtValue \<Rightarrow> op_caught_value s
      | CaughtDetail \<Rightarrow> op_caught_detail s
      | Rethrow \<Rightarrow> op_rethrow s)"

section \<open>The loop\<close>

text \<open>The value a handler is entered with; \<open>None\<close> for a signal that no handler catches.\<close>

definition caught_value :: "addr \<Rightarrow> signal \<Rightarrow> val option" where
  "caught_value a sig =
     (case sig of
        SError v \<Rightarrow> Some (VCaughtError a v)
      | SPanic p \<Rightarrow> Some (VCaughtPanic a p)
      | _ \<Rightarrow> None)"

definition catchable :: "signal \<Rightarrow> bool" where
  "catchable sig \<longleftrightarrow> caught_value 0 sig \<noteq> None"

definition enter_handler :: "frame \<Rightarrow> frame list \<Rightarrow> nat \<Rightarrow> handler \<Rightarrow> signal \<Rightarrow> 'w vm \<Rightarrow> (unit, 'w vm) outcome" where
  "enter_handler f fs floor h sig s =
     bind (fresh (truncate_stack (floor + h_depth h) s)) (\<lambda>a s.
     bind (demand BadKind (caught_value a sig) s) (\<lambda>c s.
       push c (s\<lparr>vm_frames := f\<lparr>fr_ip := h_target h\<rparr> # fs\<rparr>)))"

fun unwind :: "'w env \<Rightarrow> signal \<Rightarrow> nat \<Rightarrow> frame list \<Rightarrow> 'w vm \<Rightarrow> (unit, 'w vm) outcome" where
  "unwind E sig min_frames [] s =
     (if 0 < min_frames then Raises sig (s\<lparr>vm_frames := []\<rparr>) else Crash NoFrame)"
| "unwind E sig min_frames (f # fs) s =
     (if length (f # fs) < min_frames then Raises sig (s\<lparr>vm_frames := f # fs\<rparr>)
      else case fn_at E (fr_func f) of
        None \<Rightarrow> Crash BadIndex
      | Some fn \<Rightarrow>
          if fr_ip f = 0 then Crash BadCode
          else (case if catchable sig then handler_for (fn_chunk fn) (fr_ip f - 1) else None of
                  Some h \<Rightarrow> enter_handler f fs (fr_base f + locals fn) h sig s
                | None \<Rightarrow> unwind E sig min_frames fs (truncate_stack (fr_ret f) s)))"

text \<open>A safepoint collects when the heap says so.\<close>

definition safepoint :: "'w vm \<Rightarrow> (unit, 'w vm) outcome" where
  "safepoint s =
     (if should_collect (vm_heap s) then
        (case collect (all_roots s) (vm_heap s) of
           Some h \<Rightarrow> Returns () (set_heap h s) | None \<Rightarrow> Crash BadIndex)
      else Returns () s)"

definition fetch :: "'w env \<Rightarrow> 'w vm \<Rightarrow> (op, 'w vm) outcome" where
  "fetch E s =
     (case vm_frames s of
        [] \<Rightarrow> Crash NoFrame
      | f # fs \<Rightarrow>
          bind (demand BadIndex (fn_at E (fr_func f)) s) (\<lambda>fn s.
          bind (demand BadCode (nth_opt (code (fn_chunk fn)) (fr_ip f)) s) (\<lambda>op s.
            Returns op (s\<lparr>vm_frames := f\<lparr>fr_ip := fr_ip f + 1\<rparr> # fs\<rparr>))))"

text \<open>A park leaves the frames as they are; every other signal unwinds.\<close>

definition settle :: "'w env \<Rightarrow> nat \<Rightarrow> (unit, 'w vm) outcome \<Rightarrow> (unit, 'w vm) outcome" where
  "settle E min_frames r =
     (case r of
        Raises sig s \<Rightarrow> if sig = SPark then r else unwind E sig min_frames (vm_frames s) s
      | _ \<Rightarrow> r)"

definition one_instruction :: "'w env \<Rightarrow> 'w runner \<Rightarrow> nat \<Rightarrow> 'w vm \<Rightarrow> (unit, 'w vm) outcome" where
  "one_instruction E run min_frames s =
     bind (safepoint s) (\<lambda>_ s. bind (fetch E s) (\<lambda>op s. settle E min_frames (step E run op s)))"

definition exec_step ::
    "'w env \<Rightarrow> 'w runner \<Rightarrow> (nat \<Rightarrow> 'w vm \<Rightarrow> (unit, 'w vm) outcome) \<Rightarrow> nat \<Rightarrow> 'w vm \<Rightarrow> (unit, 'w vm) outcome" where
  "exec_step E run continue min_frames s =
     (if length (vm_frames s) < min_frames then Returns () s
      else bind (one_instruction E run min_frames s) (\<lambda>_ s. continue min_frames s))"

section \<open>Calls from native code\<close>

definition call_prep :: "'w env \<Rightarrow> func_id \<Rightarrow> val list option \<Rightarrow> val list \<Rightarrow> 'w vm \<Rightarrow> (unit, 'w vm) outcome" where
  "call_prep E func closure args s =
     (let ret_base = length (vm_stack s)
      in case enter_function E func ret_base ret_base (s\<lparr>vm_stack := vm_stack s @ args\<rparr>) of
           Raises sig s' \<Rightarrow> Raises sig (truncate_stack ret_base s')
         | Returns _ s' \<Rightarrow>
             (case closure of Some caps \<Rightarrow> write_captures E func caps s' | None \<Rightarrow> Returns () s')
         | Crash c \<Rightarrow> Crash c
         | OutOfFuel \<Rightarrow> OutOfFuel)"

definition leave_nested :: "'w vm \<Rightarrow> 'w vm" where
  "leave_nested s = s\<lparr>vm_reentry := vm_reentry s - 1\<rparr>"

definition call_frames ::
    "'w env \<Rightarrow> (nat \<Rightarrow> 'w vm \<Rightarrow> (unit, 'w vm) outcome) \<Rightarrow> func_id \<Rightarrow> val list option \<Rightarrow> val list \<Rightarrow>
     'w vm \<Rightarrow> (val, 'w vm) outcome" where
  "call_frames E exec func closure args s =
     bind (call_prep E func closure args s) (\<lambda>_ s.
       case exec (length (vm_frames s)) (s\<lparr>vm_reentry := vm_reentry s + 1\<rparr>) of
         Returns _ s' \<Rightarrow> pop (leave_nested s')
       | Raises sig s' \<Rightarrow> Raises sig (leave_nested s')
       | Crash c \<Rightarrow> Crash c
       | OutOfFuel \<Rightarrow> OutOfFuel)"

text \<open>\<open>with_rooted\<close> around a call of the machine itself.\<close>

definition rooted_call :: "val list \<Rightarrow> ('w vm \<Rightarrow> ('a, 'w vm) outcome) \<Rightarrow> 'w vm \<Rightarrow> ('a, 'w vm) outcome" where
  "rooted_call vs body s =
     (let mark = length (roots_of s);
          release = (\<lambda>s. s\<lparr>vm_store := unroot_store mark s\<rparr>)
      in case body (s\<lparr>vm_store := set_roots (\<lambda>rs. rs @ vs) s\<rparr>) of
           Returns x s' \<Rightarrow> Returns x (release s')
         | Raises sig s' \<Rightarrow> Raises sig (release s')
         | Crash c \<Rightarrow> Crash c
         | OutOfFuel \<Rightarrow> OutOfFuel)"

definition call_value_native ::
    "'w env \<Rightarrow> (nat \<Rightarrow> 'w vm \<Rightarrow> (unit, 'w vm) outcome) \<Rightarrow> 'w runner \<Rightarrow> val \<Rightarrow> val list \<Rightarrow> 'w vm \<Rightarrow>
     (val, 'w vm) outcome" where
  "call_value_native E exec run callee args s =
     (case callee of
        VFunc func \<Rightarrow>
          bind (demand BadIndex (fn_at E func) s) (\<lambda>fn s.
            if arity fn \<noteq> length args
            then fatal (takes_args (quoted_name (fn_name fn)) (arity fn) (length args)) s
            else call_frames E exec func None args s)
      | VClosure a func caps \<Rightarrow>
          bind (demand BadIndex (fn_at E func) s) (\<lambda>fn s.
            if arity fn \<noteq> length args then fatal (takes_args ''lambda'' (arity fn) (length args)) s
            else rooted_call [VClosure a func caps] (call_frames E exec func (Some caps) args) s)
      | VBoundMethod _ recv func \<Rightarrow>
          bind (demand BadIndex (fn_at E func) s) (\<lambda>fn s.
          bind (method_arity fn s) (\<lambda>expected s.
            if expected \<noteq> length args
            then fatal (takes_args (quoted_name (fn_name fn)) expected (length args)) s
            else call_frames E exec func None (recv # args) s))
      | VBoundBuiltin _ recv b \<Rightarrow> run (builtin_with_args E b (recv # args)) s
      | _ \<Rightarrow> fatal not_callable s)"

text \<open>One unit of fuel pays for one instruction of a loop or for one call from native code.\<close>

fun execute :: "'w env \<Rightarrow> nat \<Rightarrow> (nat \<Rightarrow> 'w vm \<Rightarrow> (unit, 'w vm) outcome)"
  and call_callable :: "'w env \<Rightarrow> nat \<Rightarrow> (val \<Rightarrow> val list \<Rightarrow> 'w vm \<Rightarrow> (val, 'w vm) outcome)" where
  "execute E 0 = (\<lambda>min_frames s. OutOfFuel)"
| "execute E (Suc n) =
     exec_step E (run_prog (call_callable E n) (\<lambda>func. call_frames E (execute E n) func None)) (execute E n)"
| "call_callable E 0 = (\<lambda>callee args s. OutOfFuel)"
| "call_callable E (Suc n) =
     call_value_native E (execute E n)
       (run_prog (call_callable E n) (\<lambda>func. call_frames E (execute E n) func None))"

definition call_function :: "'w env \<Rightarrow> nat \<Rightarrow> func_id \<Rightarrow> val list \<Rightarrow> 'w vm \<Rightarrow> (val, 'w vm) outcome" where
  "call_function E n func args = call_frames E (execute E n) func None args"

definition native :: "'w env \<Rightarrow> nat \<Rightarrow> ('w, 'a) prog \<Rightarrow> 'w vm \<Rightarrow> ('a, 'w vm) outcome" where
  "native E n = run_prog (call_callable E n) (call_function E n)"

section \<open>Whole runs\<close>

definition vm_new :: "'w env \<Rightarrow> nat \<Rightarrow> nat \<Rightarrow> 'w \<Rightarrow> 'w vm" where
  "vm_new E size_of_cell budget_bytes world =
     \<lparr>vm_globals = replicate (length (m_globals (e_module E))) None, vm_stack = [], vm_frames = [],
      vm_reentry = 0,
      vm_store = \<lparr>st_heap = heap_new size_of_cell budget_bytes, st_next = 0, st_roots = [], st_world = world\<rparr>\<rparr>"

definition call_entry :: "'w env \<Rightarrow> nat \<Rightarrow> func_id \<Rightarrow> 'w vm \<Rightarrow> (unit, 'w vm) outcome" where
  "call_entry E n func s =
     bind (enter_function E func 0 0 s) (\<lambda>_ s. bind (execute E n 1 s) (\<lambda>_ s.
       Returns () (truncate_stack 0 s)))"

definition run_program :: "'w env \<Rightarrow> nat \<Rightarrow> 'w vm \<Rightarrow> (unit, 'w vm) outcome" where
  "run_program E n s =
     bind (call_entry E n 0 s) (\<lambda>_ s.
       case m_entry (e_module E) of
         None \<Rightarrow> Returns () s
       | Some main \<Rightarrow>
           bind (demand BadIndex (fn_at E main) s) (\<lambda>fn s.
             if arity fn \<noteq> 0 then fatal ''brasa: `main` must take no parameters'' s
             else call_entry E n main s))"

datatype run_outcome =
    OSuccess | OError string | OPanic string | OBrokenPipe | OExit "32 word"

definition panic_text :: "panic_value \<Rightarrow> string" where
  "panic_text p =
     ''panic: '' @ pv_name p @ '': '' @ pv_detail p @
     concat (map (\<lambda>frame. CHR 0x0A # ''  in '' @ frame) (pv_stack p))"

text \<open>A failing \<open>toString\<close> of an uncaught error is replaced by a marker.\<close>

definition finish_error :: "'w env \<Rightarrow> nat \<Rightarrow> val \<Rightarrow> 'w vm \<Rightarrow> (run_outcome, 'w vm) outcome" where
  "finish_error E n v s =
     (case nominal_tag E (vm_heap s) v of
        None \<Rightarrow> Crash BadKind
      | Some tag \<Rightarrow>
          (case native E n (display E v) s of
             Returns text s' \<Rightarrow> Returns (OError (''error: '' @ tag @ '': '' @ text)) s'
           | Raises _ s' \<Rightarrow> Returns (OError (''error: '' @ tag @ '': <toString failed>'')) s'
           | Crash c \<Rightarrow> Crash c
           | OutOfFuel \<Rightarrow> OutOfFuel))"

definition finish :: "'w env \<Rightarrow> nat \<Rightarrow> (unit, 'w vm) outcome \<Rightarrow> (run_outcome, 'w vm) outcome" where
  "finish E n r =
     (case r of
        Returns _ s \<Rightarrow> Returns OSuccess s
      | Raises sig s \<Rightarrow>
          (case sig of
             SBreakpoint \<Rightarrow> Returns (OPanic ''brasa: debug pause escaped its session'') s
           | SError v \<Rightarrow> finish_error E n v s
           | SPanic p \<Rightarrow> Returns (OPanic (panic_text p)) s
           | SFatal message \<Rightarrow> Returns (OError message) s
           | SBrokenPipe \<Rightarrow> Returns OBrokenPipe s
           | SExit c \<Rightarrow> Returns (OExit c) s
           | SPark \<Rightarrow> Returns (OPanic ''brasa: a parked task escaped its scheduler'') s)
      | Crash c \<Rightarrow> Crash c
      | OutOfFuel \<Rightarrow> OutOfFuel)"

definition vm_run :: "'w env \<Rightarrow> nat \<Rightarrow> 'w vm \<Rightarrow> (run_outcome, 'w vm) outcome" where
  "vm_run E n s = finish E n (run_program E n s)"

text \<open>The top level of a test run, and one test. The stack is cleared whatever the result.\<close>

definition clear_stack :: "(unit, 'w vm) outcome \<Rightarrow> (unit, 'w vm) outcome" where
  "clear_stack r =
     (case r of
        Returns x s \<Rightarrow> Returns x (truncate_stack 0 s)
      | Raises sig s \<Rightarrow> Raises sig (truncate_stack 0 s)
      | _ \<Rightarrow> r)"

definition clear_frames :: "(unit, 'w vm) outcome \<Rightarrow> (unit, 'w vm) outcome" where
  "clear_frames r =
     (case r of
        Returns x s \<Rightarrow> Returns x (s\<lparr>vm_frames := []\<rparr>)
      | Raises sig s \<Rightarrow> Raises sig (s\<lparr>vm_frames := []\<rparr>)
      | _ \<Rightarrow> r)"

definition run_setup :: "'w env \<Rightarrow> nat \<Rightarrow> 'w vm \<Rightarrow> (run_outcome, 'w vm) outcome" where
  "run_setup E n s =
     finish E n (clear_stack (bind (enter_function E 0 0 0 s) (\<lambda>_ s. execute E n 1 s)))"

fun run_each_test :: "'w env \<Rightarrow> nat \<Rightarrow> test_entry list \<Rightarrow> 'w vm \<Rightarrow> ((string \<times> run_outcome) list, 'w vm) outcome" where
  "run_each_test E n [] s = Returns [] s"
| "run_each_test E n (t # ts) s =
     bind (finish E n (clear_frames (clear_stack (call_entry E n (test_func t) s)))) (\<lambda>r s.
     bind (run_each_test E n ts s) (\<lambda>rs s. Returns ((test_name t, r) # rs) s))"

definition run_tests :: "'w env \<Rightarrow> nat \<Rightarrow> 'w vm \<Rightarrow> (run_outcome \<times> (string \<times> run_outcome) list, 'w vm) outcome" where
  "run_tests E n s =
     bind (run_setup E n s) (\<lambda>r s.
       if r \<noteq> OSuccess then Returns (r, []) s
       else bind (run_each_test E n (m_tests (e_module E)) s) (\<lambda>rs s. Returns (OSuccess, rs) s))"

end
