(* ===== verification/Operand_Depth.thy ===== *)
theory Operand_Depth
  imports Bytecode
begin

text \<open>
  The operand-depth pass of the code generator (\<open>brasa_codegen/src/depth.rs\<close>): an abstract
  interpretation that assigns every reachable instruction its entry depth, fixes the depth
  of every handler and computes \<open>max_stack\<close>. \<open>debug\<close> says whether the build checks its
  assertions: a failed \<open>debug_assert!\<close> and a panic are \<open>None\<close>, and a build without
  assertions clamps or skips as the source does. The worklist is a list with its top at
  the head.
\<close>

section \<open>Stack effects\<close>

definition i32_count :: "nat \<Rightarrow> int" where
  "i32_count n = (if int n \<le> 2 ^ 31 - 1 then int n else 2 ^ 31 - 1)"

text \<open>\<open>None\<close>: the arms that are \<open>unreachable!\<close>, and a struct index out of bounds.\<close>

definition net_effect :: "op \<Rightarrow> struct_shape list \<Rightarrow> int option" where
  "net_effect op structs =
     (case op of
        Const _ \<Rightarrow> Some 1 | LoadUnit \<Rightarrow> Some 1 | LoadTrue \<Rightarrow> Some 1 | LoadFalse \<Rightarrow> Some 1
      | LoadNone \<Rightarrow> Some 1 | Dup \<Rightarrow> Some 1 | LoadLocal _ \<Rightarrow> Some 1 | LoadBinding _ \<Rightarrow> Some 1
      | LoadGlobal _ \<Rightarrow> Some 1 | LoadFunc _ \<Rightarrow> Some 1 | CaughtValue \<Rightarrow> Some 1 | CaughtDetail \<Rightarrow> Some 1
      | Pop \<Rightarrow> Some (-1) | StoreLocal _ \<Rightarrow> Some (-1) | MakeBinding _ \<Rightarrow> Some (-1)
      | StoreBinding _ \<Rightarrow> Some (-1) | StoreGlobal _ \<Rightarrow> Some (-1)
      | AddInt \<Rightarrow> Some (-1) | SubInt \<Rightarrow> Some (-1) | MulInt \<Rightarrow> Some (-1) | DivInt \<Rightarrow> Some (-1)
      | RemInt \<Rightarrow> Some (-1) | PowInt \<Rightarrow> Some (-1) | AddFloat \<Rightarrow> Some (-1) | SubFloat \<Rightarrow> Some (-1)
      | MulFloat \<Rightarrow> Some (-1) | DivFloat \<Rightarrow> Some (-1) | RemFloat \<Rightarrow> Some (-1) | PowFloat \<Rightarrow> Some (-1)
      | Concat \<Rightarrow> Some (-1) | Eq \<Rightarrow> Some (-1) | Lt \<Rightarrow> Some (-1) | Le \<Rightarrow> Some (-1) | Gt \<Rightarrow> Some (-1)
      | Ge \<Rightarrow> Some (-1) | EqInt \<Rightarrow> Some (-1) | EqFloat \<Rightarrow> Some (-1) | EqBool \<Rightarrow> Some (-1)
      | LtInt \<Rightarrow> Some (-1) | LeInt \<Rightarrow> Some (-1) | GtInt \<Rightarrow> Some (-1) | GeInt \<Rightarrow> Some (-1)
      | LtFloat \<Rightarrow> Some (-1) | LeFloat \<Rightarrow> Some (-1) | GtFloat \<Rightarrow> Some (-1) | GeFloat \<Rightarrow> Some (-1)
      | GetIndex \<Rightarrow> Some (-1) | MakeRange _ \<Rightarrow> Some (-1)
      | NegInt \<Rightarrow> Some 0 | NegFloat \<Rightarrow> Some 0 | Not \<Rightarrow> Some 0 | WrapSome \<Rightarrow> Some 0
      | WrapSomeDynamic \<Rightarrow> Some 0 | UnwrapSome \<Rightarrow> Some 0 | TupleField _ \<Rightarrow> Some 0
      | EnumField _ \<Rightarrow> Some 0 | GetField _ \<Rightarrow> Some 0 | BindMethod _ \<Rightarrow> Some 0
      | BindMethodDyn _ \<Rightarrow> Some 0 | BindBuiltin _ \<Rightarrow> Some 0 | ToString \<Rightarrow> Some 0
      | IterNew \<Rightarrow> Some 0 | MakeSetFromVector \<Rightarrow> Some 0
      | SetField _ \<Rightarrow> Some (-2) | SetIndex \<Rightarrow> Some (-3)
      | Call _ argc \<Rightarrow> Some (1 - int argc) | CallValue argc \<Rightarrow> Some (- int argc)
      | CallBuiltin _ argc \<Rightarrow> Some (1 - int argc) | CallMethodDyn _ argc \<Rightarrow> Some (1 - int argc)
      | MakeVector n \<Rightarrow> Some (1 - int n) | MakeTuple n \<Rightarrow> Some (1 - int n)
      | MakeMap n \<Rightarrow> Some (1 - 2 * int n)
      | MakeStruct s \<Rightarrow>
          (if s < length structs then Some (1 - i32_count (length (st_fields (structs ! s)))) else None)
      | MakeEnum _ _ argc \<Rightarrow> Some (1 - int argc)
      | MakeClosure _ n \<Rightarrow> Some (1 - int n)
      | _ \<Rightarrow> None)"

type_synonym flow = "int option \<times> (code_ix \<times> int) option"

definition transition :: "op \<Rightarrow> struct_shape list \<Rightarrow> flow option" where
  "transition op structs =
     (case op of
        Jump target \<Rightarrow> Some (None, Some (target, 0))
      | JumpIfFalse target \<Rightarrow> Some (Some (-1), Some (target, -1))
      | JumpIfFalseOrPop target \<Rightarrow> Some (Some (-1), Some (target, 0))
      | JumpIfTrueOrPop target \<Rightarrow> Some (Some (-1), Some (target, 0))
      | JumpIfVariantNe _ target \<Rightarrow> Some (Some 0, Some (target, 0))
      | JumpIfNone target \<Rightarrow> Some (Some 0, Some (target, 0))
      | JumpIfPanic target \<Rightarrow> Some (Some 0, Some (target, 0))
      | JumpIfTagNe _ target \<Rightarrow> Some (Some 0, Some (target, 0))
      | IterNext target \<Rightarrow> Some (Some 1, Some (target, -1))
      | Ret \<Rightarrow> Some (None, None) | Throw \<Rightarrow> Some (None, None) | Rethrow \<Rightarrow> Some (None, None)
      | _ \<Rightarrow> (case net_effect op structs of None \<Rightarrow> None | Some delta \<Rightarrow> Some (Some delta, None)))"

section \<open>The pass\<close>

definition u32_max :: nat where "u32_max = 2 ^ 32 - 1"
definition u16_max :: nat where "u16_max = 2 ^ 16 - 1"

definition apply_delta :: "bool \<Rightarrow> nat \<Rightarrow> int \<Rightarrow> nat option" where
  "apply_delta debug depth delta =
     (let nxt = int depth + delta
      in if debug \<and> nxt < 0 then None
         else Some (if nat (max nxt 0) \<le> u32_max then nat (max nxt 0) else u32_max))"

type_synonym depths = "nat option list"
type_synonym work = "(code_ix \<times> nat) list"

text \<open>The successors of an instruction, pushed and counted into \<open>max\<close>: the branch first, then
  the fall-through.\<close>

definition push_branch :: "bool \<Rightarrow> (code_ix \<times> int) option \<Rightarrow> nat \<Rightarrow> nat \<times> work \<Rightarrow> (nat \<times> work) option" where
  "push_branch debug branch depth st =
     (case branch of
        None \<Rightarrow> Some st
      | Some (target, delta) \<Rightarrow>
          (case apply_delta debug depth delta of
             None \<Rightarrow> None
           | Some nxt \<Rightarrow> Some (max (fst st) nxt, (target, nxt) # snd st)))"

definition push_fall :: "bool \<Rightarrow> int option \<Rightarrow> code_ix \<Rightarrow> nat \<Rightarrow> nat \<times> work \<Rightarrow> (nat \<times> work) option" where
  "push_fall debug fall ix depth st =
     (case fall of
        None \<Rightarrow> Some st
      | Some delta \<Rightarrow>
          (case apply_delta debug depth delta of
             None \<Rightarrow> None
           | Some nxt \<Rightarrow> Some (max (fst st) nxt, (ix + 1, nxt) # snd st)))"

definition visit_op :: "bool \<Rightarrow> op list \<Rightarrow> struct_shape list \<Rightarrow> code_ix \<Rightarrow> nat \<Rightarrow> nat \<times> work \<Rightarrow>
    (nat \<times> work) option" where
  "visit_op debug ops structs ix depth st =
     (case transition (ops ! ix) structs of
        None \<Rightarrow> None
      | Some (fall, branch) \<Rightarrow>
          (case push_branch debug branch depth st of
             None \<Rightarrow> None
           | Some st1 \<Rightarrow> push_fall debug fall ix depth st1))"

lemma filter_update:
  "ix < length xs \<Longrightarrow> xs ! ix = None \<Longrightarrow>
     length (filter (\<lambda>d. d = None) (xs[ix := Some y])) < length (filter (\<lambda>d. d = None) xs)"
proof (induction xs arbitrary: ix)
  case (Cons x xs)
  then show ?case by (cases ix) auto
qed simp

function drain :: "bool \<Rightarrow> op list \<Rightarrow> struct_shape list \<Rightarrow> depths \<Rightarrow> nat \<Rightarrow> work \<Rightarrow> (depths \<times> nat) option" where
  "drain debug ops structs depths mx [] = Some (depths, mx)"
| "drain debug ops structs depths mx ((ix, depth) # work) =
     (if \<not> (ix < length ops \<and> ix < length depths) then
        (if debug then None else drain debug ops structs depths mx work)
      else
        (case depths ! ix of
           Some existing \<Rightarrow>
             if debug \<and> existing \<noteq> depth then None else drain debug ops structs depths mx work
         | None \<Rightarrow>
             (case visit_op debug ops structs ix depth (max mx depth, work) of
                None \<Rightarrow> None
              | Some (mx', work') \<Rightarrow> drain debug ops structs (depths[ix := Some depth]) mx' work')))"
  by pat_completeness auto
termination
  by (relation "measures [\<lambda>(debug, ops, structs, depths, mx, work). length (filter (\<lambda>d. d = None) depths),
    \<lambda>(debug, ops, structs, depths, mx, work). length work]") (auto simp: filter_update)

text \<open>One pass over the handlers: a handler whose subject has been reached gets its depth and its
  dispatch sequence is queued.\<close>

definition seed_one :: "bool \<Rightarrow> depths \<Rightarrow> handler \<times> bool \<Rightarrow> nat \<times> work \<Rightarrow>
    ((handler \<times> bool) \<times> bool \<times> nat \<times> work) option" where
  "seed_one debug depths hb st =
     (if snd hb then Some (hb, False, st)
      else if \<not> h_start (fst hb) < length depths then None
      else
        (case depths ! h_start (fst hb) of
           None \<Rightarrow> Some (hb, False, st)
         | Some depth \<Rightarrow>
             if debug \<and> depth = u32_max then None
             else Some (((fst hb)\<lparr>h_depth := (if depth \<le> u16_max then depth else u16_max)\<rparr>, True), True,
                        max (fst st) ((depth + 1) mod 2 ^ 32),
                        (h_target (fst hb), (depth + 1) mod 2 ^ 32) # snd st)))"

fun seed :: "bool \<Rightarrow> depths \<Rightarrow> (handler \<times> bool) list \<Rightarrow> nat \<times> work \<Rightarrow>
    ((handler \<times> bool) list \<times> bool \<times> nat \<times> work) option" where
  "seed debug depths [] st = Some ([], False, st)"
| "seed debug depths (hb # hs) st =
     (case seed_one debug depths hb st of
        None \<Rightarrow> None
      | Some (hb', here, st1) \<Rightarrow>
          (case seed debug depths hs st1 of
             None \<Rightarrow> None
           | Some (hs', progressed, st2) \<Rightarrow> Some (hb' # hs', here \<or> progressed, st2)))"

definition unseeded :: "(handler \<times> bool) list \<Rightarrow> nat" where
  "unseeded hs = length (filter (\<lambda>hb. \<not> snd hb) hs)"

lemma seed_one_cases:
  assumes "seed_one debug depths hb st = Some (hb', here, st')"
  obtains "\<not> here" "hb' = hb" "st' = st" "snd hb \<or> depths ! h_start (fst hb) = None"
  | d where "here" "\<not> snd hb" "h_start (fst hb) < length depths" "depths ! h_start (fst hb) = Some d"
      "hb' = ((fst hb)\<lparr>h_depth := (if d \<le> u16_max then d else u16_max)\<rparr>, True)"
      "st' = (max (fst st) ((d + 1) mod 2 ^ 32), (h_target (fst hb), (d + 1) mod 2 ^ 32) # snd st)"
      "debug \<longrightarrow> d \<noteq> u32_max"
  using assms by (auto simp: seed_one_def split: if_splits option.splits)

lemma seed_unseeded:
  "seed debug depths hs st = Some (hs', progressed, st') \<Longrightarrow>
     unseeded hs' \<le> unseeded hs \<and> (progressed \<longrightarrow> unseeded hs' < unseeded hs) \<and>
     (\<not> progressed \<longrightarrow> hs' = hs \<and> st' = st)"
proof (induction hs arbitrary: st hs' progressed)
  case (Cons hb hs)
  from Cons.prems obtain hb' here st1 hs1 p1 where
    one: "seed_one debug depths hb st = Some (hb', here, st1)"
    and rest: "seed debug depths hs st1 = Some (hs1, p1, st')" "hs' = hb' # hs1" "progressed \<longleftrightarrow> here \<or> p1"
    by (simp split: option.splits prod.splits)
  note ih = Cons.IH [OF rest(1)]
  from one show ?case
    by (cases rule: seed_one_cases) (use ih rest in \<open>auto simp: unseeded_def\<close>)
qed (simp add: unseeded_def)

function rounds :: "bool \<Rightarrow> op list \<Rightarrow> struct_shape list \<Rightarrow> depths \<Rightarrow> nat \<Rightarrow> work \<Rightarrow>
    (handler \<times> bool) list \<Rightarrow> (depths \<times> nat \<times> (handler \<times> bool) list) option" where
  "rounds debug ops structs depths mx work hs =
     (case drain debug ops structs depths mx work of
        None \<Rightarrow> None
      | Some (depths', mx') \<Rightarrow>
          (case seed debug depths' hs (mx', []) of
             None \<Rightarrow> None
           | Some (hs', progressed, mx'', work'') \<Rightarrow>
               if \<not> progressed then Some (depths', mx'', hs')
               else rounds debug ops structs depths' mx'' work'' hs'))"
  by pat_completeness auto
termination
  by (relation "measure (\<lambda>(debug, ops, structs, depths, mx, work, hs). unseeded hs)")
     (auto dest: seed_unseeded)

declare rounds.simps [simp del] drain.simps [simp del]

definition analyse :: "bool \<Rightarrow> op list \<Rightarrow> handler list \<Rightarrow> struct_shape list \<Rightarrow>
    (depths \<times> nat \<times> handler list) option" where
  "analyse debug ops hs structs =
     map_option (\<lambda>(depths, mx, hs'). (depths, mx, map fst hs'))
       (rounds debug ops structs (replicate (length ops) None) 0 [(0, 0)] (map (\<lambda>h. (h, False)) hs))"

text \<open>The handlers are updated in place, whatever the result.\<close>

definition finalize :: "bool \<Rightarrow> op list \<Rightarrow> handler list \<Rightarrow> struct_shape list \<Rightarrow>
    (handler list \<times> (nat + nat)) option" where
  "finalize debug ops hs structs =
     map_option (\<lambda>(depths, mx, hs'). (hs', if mx \<le> u16_max then Inr mx else Inl mx))
       (analyse debug ops hs structs)"

section \<open>Consistent assignments\<close>

text \<open>The depth pass is right about \<open>D\<close> when every edge out of a reachable instruction arrives
  at the recorded depth and nothing underflows.\<close>

type_synonym assignment = "code_ix \<Rightarrow> nat option"

definition fits :: "assignment \<Rightarrow> code_ix \<Rightarrow> nat \<Rightarrow> int \<Rightarrow> bool" where
  "fits D target depth delta \<longleftrightarrow> 0 \<le> int depth + delta \<and> D target = Some (nat (int depth + delta))"

definition stable_at :: "op list \<Rightarrow> struct_shape list \<Rightarrow> assignment \<Rightarrow> code_ix \<Rightarrow> nat \<Rightarrow> bool" where
  "stable_at ops structs D ix depth \<longleftrightarrow>
     ix < length ops \<and>
     (\<exists>fall branch. transition (ops ! ix) structs = Some (fall, branch) \<and>
        (case fall of None \<Rightarrow> True | Some delta \<Rightarrow> fits D (ix + 1) depth delta) \<and>
        (case branch of None \<Rightarrow> True | Some (target, delta) \<Rightarrow> fits D target depth delta))"

definition stable :: "op list \<Rightarrow> struct_shape list \<Rightarrow> assignment \<Rightarrow> bool" where
  "stable ops structs D \<longleftrightarrow> (\<forall>ix depth. D ix = Some depth \<longrightarrow> stable_at ops structs D ix depth)"

definition depth_of :: "depths \<Rightarrow> assignment" where
  "depth_of depths ix = (if ix < length depths then depths ! ix else None)"

text \<open>What the worklist still owes: \<open>owed\<close> holds of an edge that has been followed or queued.\<close>

definition owed :: "depths \<Rightarrow> work \<Rightarrow> code_ix \<Rightarrow> nat \<Rightarrow> bool" where
  "owed depths work ix depth \<longleftrightarrow> depth_of depths ix = Some depth \<or> (ix, depth) \<in> set work"

definition owes :: "op list \<Rightarrow> struct_shape list \<Rightarrow> depths \<Rightarrow> work \<Rightarrow> code_ix \<Rightarrow> nat \<Rightarrow> bool" where
  "owes ops structs depths work ix depth \<longleftrightarrow>
     ix < length ops \<and>
     (\<exists>fall branch. transition (ops ! ix) structs = Some (fall, branch) \<and>
        (\<forall>delta. fall = Some delta \<longrightarrow>
           0 \<le> int depth + delta \<and> owed depths work (ix + 1) (nat (int depth + delta))) \<and>
        (\<forall>target delta. branch = Some (target, delta) \<longrightarrow>
           0 \<le> int depth + delta \<and> owed depths work target (nat (int depth + delta))))"

definition drain_inv :: "op list \<Rightarrow> struct_shape list \<Rightarrow> depths \<Rightarrow> nat \<Rightarrow> work \<Rightarrow> bool" where
  "drain_inv ops structs depths mx work \<longleftrightarrow>
     length depths = length ops \<and>
     (\<forall>ix depth. depth_of depths ix = Some depth \<longrightarrow> depth \<le> mx \<and> owes ops structs depths work ix depth)"

definition extends :: "depths \<Rightarrow> depths \<Rightarrow> bool" where
  "extends depths depths' \<longleftrightarrow> (\<forall>ix depth. depth_of depths ix = Some depth \<longrightarrow> depth_of depths' ix = Some depth)"

lemma extends_refl [simp]: "extends d d"
  by (simp add: extends_def)

lemma extends_trans: "extends a b \<Longrightarrow> extends b c \<Longrightarrow> extends a c"
  by (simp add: extends_def)

lemma apply_delta_debug:
  "apply_delta True depth delta = Some nxt \<Longrightarrow>
     0 \<le> int depth + delta \<and> (nxt = nat (int depth + delta) \<or> u32_max < nat (int depth + delta))"
  by (auto simp: apply_delta_def Let_def split: if_splits)

text \<open>A code of fewer than \<open>2 ^ 16\<close> instructions of bounded effect stays below \<open>u32_max\<close>; the
  pass itself is correct as long as the largest depth it saw did not saturate.\<close>

lemma apply_delta_exact:
  "apply_delta True depth delta = Some nxt \<Longrightarrow> nxt < u32_max \<Longrightarrow>
     0 \<le> int depth + delta \<and> nxt = nat (int depth + delta)"
  by (auto simp: apply_delta_def Let_def split: if_splits)

lemma visit_op_debug:
  assumes "visit_op True ops structs ix depth (mx, work) = Some (mx', work')" and "mx' < u32_max"
    and "ix < length ops"
  shows "mx \<le> mx' \<and> set work \<subseteq> set work' \<and>
    (\<exists>fall branch. transition (ops ! ix) structs = Some (fall, branch) \<and>
        (\<forall>delta. fall = Some delta \<longrightarrow>
           0 \<le> int depth + delta \<and> (ix + 1, nat (int depth + delta)) \<in> set work') \<and>
        (\<forall>target delta. branch = Some (target, delta) \<longrightarrow>
           0 \<le> int depth + delta \<and> (target, nat (int depth + delta)) \<in> set work'))"
proof -
  from assms(1) obtain fall branch mx1 work1 where
    t: "transition (ops ! ix) structs = Some (fall, branch)"
    and b: "push_branch True branch depth (mx, work) = Some (mx1, work1)"
    and f: "push_fall True fall ix depth (mx1, work1) = Some (mx', work')"
    by (auto simp: visit_op_def split: option.splits)
  have f': "mx1 \<le> mx' \<and> set work1 \<subseteq> set work' \<and>
      (\<forall>delta. fall = Some delta \<longrightarrow> 0 \<le> int depth + delta \<and> (ix + 1, nat (int depth + delta)) \<in> set work')"
    using f assms(2) by (auto simp: push_fall_def split: option.splits dest!: apply_delta_exact)
  then have "mx1 < u32_max" using assms(2) by simp
  then have "mx \<le> mx1 \<and> set work \<subseteq> set work1 \<and>
      (\<forall>target delta. branch = Some (target, delta) \<longrightarrow>
         0 \<le> int depth + delta \<and> (target, nat (int depth + delta)) \<in> set work1)"
    using b by (auto simp: push_branch_def split: option.splits prod.splits dest!: apply_delta_exact)
  with f' t show ?thesis by auto
qed

lemma owed_mono: "owed d w ix n \<Longrightarrow> extends d d' \<Longrightarrow> (\<And>e. e \<in> set w \<Longrightarrow> owed d' w' (fst e) (snd e)) \<Longrightarrow> owed d' w' ix n"
  by (force simp: owed_def extends_def)

lemma owes_mono:
  assumes "owes ops structs d w ix n" and "extends d d'" and "\<And>e. e \<in> set w \<Longrightarrow> owed d' w' (fst e) (snd e)"
  shows "owes ops structs d' w' ix n"
  using assms(1) owed_mono [OF _ assms(2,3)] unfolding owes_def by blast

lemma depth_of_update:
  "depth_of (d[ix := Some n]) j = (if j = ix \<and> ix < length d then Some n else depth_of d j)"
  by (simp add: depth_of_def nth_list_update)

lemma visit_op_max: "visit_op debug ops structs ix depth st = Some st' \<Longrightarrow> fst st \<le> fst st'"
  by (auto simp: visit_op_def push_branch_def push_fall_def split: option.splits)

lemma drain_max: "drain debug ops structs depths mx work = Some (depths', mx') \<Longrightarrow> mx \<le> mx'"
proof (induction debug ops structs depths mx work rule: drain.induct)
  case (2 debug ops structs depths mx ix depth work)
  show ?case
  proof (cases "\<exists>st. visit_op debug ops structs ix depth (max mx depth, work) = Some st \<and> depths ! ix = None \<and>
      ix < length ops \<and> ix < length depths")
    case True
    then obtain mx1 work1 where v: "visit_op debug ops structs ix depth (max mx depth, work) = Some (mx1, work1)"
        "depths ! ix = None" "ix < length ops" "ix < length depths" by auto
    with "2.prems" have "drain debug ops structs (depths[ix := Some depth]) mx1 work1 = Some (depths', mx')"
      by (simp add: drain.simps)
    from "2.IH"(2) [OF _ v(2) v(1) refl this] v visit_op_max [OF v(1)] show ?thesis by simp
  qed (use 2 in \<open>auto simp: drain.simps split: if_splits option.splits\<close>)
qed (simp add: drain.simps)

lemma drain_correct:
  "drain True ops structs depths mx work = Some (depths', mx') \<Longrightarrow> mx' < u32_max \<Longrightarrow>
     drain_inv ops structs depths mx work \<Longrightarrow>
     drain_inv ops structs depths' mx' [] \<and> extends depths depths' \<and> mx \<le> mx' \<and>
     (\<forall>e \<in> set work. depth_of depths' (fst e) = Some (snd e))"
proof (induction "True" ops structs depths mx work rule: drain.induct)
  case (1 ops structs depths mx)
  then show ?case by (simp add: drain.simps)
next
  case (2 ops structs depths mx ix depth work)
  from "2.prems"(1) have bound: "ix < length ops" "ix < length depths"
    by (auto simp: drain.simps split: if_splits)
  show ?case
  proof (cases "depths ! ix")
    case (Some existing)
    with "2.prems"(1) bound have same: "existing = depth"
      and go: "drain True ops structs depths mx work = Some (depths', mx')"
      by (auto simp: drain.simps split: if_splits)
    have here: "depth_of depths ix = Some depth" using Some same bound by (simp add: depth_of_def)
    have "drain_inv ops structs depths mx work"
      using "2.prems"(3) here unfolding drain_inv_def
      by (auto intro!: owes_mono [where d' = depths and w = "(ix, depth) # work"] simp: owed_def)
    from "2.hyps"(3) [OF _ Some _ go "2.prems"(2) this] bound same here show ?thesis
      by (auto simp: extends_def)
  next
    case None
    with "2.prems"(1) bound obtain mx1 work1 where
      v: "visit_op True ops structs ix depth (max mx depth, work) = Some (mx1, work1)"
      and go: "drain True ops structs (depths[ix := Some depth]) mx1 work1 = Some (depths', mx')"
      by (auto simp: drain.simps split: option.splits)
    let ?d = "depths[ix := Some depth]"
    have ext: "extends depths ?d" 
      unfolding extends_def depth_of_update using None bound by (auto simp: depth_of_def)
    have mono: "drain_inv ops structs ?d mx1 work1 \<and> max mx depth \<le> mx1 \<and> set work \<subseteq> set work1"
      if m1: "mx1 < u32_max"
    proof -
      note vo = visit_op_debug [OF v m1 bound(1)]
      have "owes ops structs ?d work1 ix depth"
        using vo bound(1) unfolding owes_def owed_def by blast
      moreover have "owes ops structs ?d work1 j n" if "depth_of depths j = Some n" for j n
      proof (rule owes_mono [OF _ ext])
        show "owes ops structs depths ((ix, depth) # work) j n"
          using "2.prems"(3) that by (simp add: drain_inv_def)
        fix e assume "e \<in> set ((ix, depth) # work)"
        then show "owed ?d work1 (fst e) (snd e)"
          using vo bound by (auto simp: owed_def depth_of_update)
      qed
      moreover have "n \<le> mx1" if "depth_of ?d j = Some n" for j n
      proof (cases "j = ix")
        case True
        with that bound vo show ?thesis by (simp add: depth_of_update)
      next
        case False
        with that have "depth_of depths j = Some n" by (simp add: depth_of_update)
        with "2.prems"(3) have "n \<le> mx" by (simp add: drain_inv_def)
        with vo show ?thesis by simp
      qed
      moreover have "length ?d = length ops" using "2.prems"(3) by (simp add: drain_inv_def)
      ultimately show ?thesis
        using vo unfolding drain_inv_def by (metis depth_of_update option.inject)
    qed
    have "mx1 \<le> mx'" by (rule drain_max [OF go])
    then have m1: "mx1 < u32_max" using "2.prems"(2) by simp
    note m = mono [OF m1]
    from "2.hyps"(2) [OF _ None v refl go "2.prems"(2)] m bound
    have ih: "drain_inv ops structs depths' mx' []" "extends ?d depths'" "mx1 \<le> mx'"
      "\<forall>e \<in> set work1. depth_of depths' (fst e) = Some (snd e)" by auto
    moreover have "depth_of depths' ix = Some depth"
      using ih(2) bound by (auto simp: extends_def depth_of_update)
    ultimately show ?thesis using m extends_trans [OF ext ih(2)] by auto
  qed
qed

section \<open>Handlers\<close>

definition cap16 :: "nat \<Rightarrow> nat" where
  "cap16 depth = (if depth \<le> u16_max then depth else u16_max)"

definition same_range :: "handler \<Rightarrow> handler \<Rightarrow> bool" where
  "same_range h h' \<longleftrightarrow> h_start h' = h_start h \<and> h_end h' = h_end h \<and> h_target h' = h_target h"

definition seeded_ok :: "depths \<Rightarrow> work \<Rightarrow> handler \<Rightarrow> bool" where
  "seeded_ok depths work h \<longleftrightarrow>
     (\<exists>d. depth_of depths (h_start h) = Some d \<and> h_depth h = cap16 d \<and> owed depths work (h_target h) (d + 1))"

lemma seeded_ok_mono:
  "seeded_ok d w h \<Longrightarrow> extends d d' \<Longrightarrow> (\<And>e. e \<in> set w \<Longrightarrow> owed d' w' (fst e) (snd e)) \<Longrightarrow> seeded_ok d' w' h"
  unfolding seeded_ok_def using owed_mono [of d w _ _ d' w'] by (fastforce simp: extends_def)

lemma seed_max: "seed debug depths hs st = Some (hs', p, st') \<Longrightarrow> fst st \<le> fst st' \<and> set (snd st) \<subseteq> set (snd st')"
proof (induction hs arbitrary: st hs' p)
  case (Cons hb hs)
  from Cons.prems obtain hb' here st1 hs1 p1 where
    one: "seed_one debug depths hb st = Some (hb', here, st1)"
    and rest: "seed debug depths hs st1 = Some (hs1, p1, st')"
    by (simp split: option.splits prod.splits)
  from one have "fst st \<le> fst st1 \<and> set (snd st) \<subseteq> set (snd st1)"
    by (cases rule: seed_one_cases) auto
  with Cons.IH [OF rest] show ?case by auto
qed simp

lemma seed_correct:
  "seed True depths hs st = Some (hs', p, st') \<Longrightarrow> fst st' < u32_max \<Longrightarrow>
     (\<forall>ix d. depth_of depths ix = Some d \<longrightarrow> d \<le> fst st) \<Longrightarrow>
     list_all2 (\<lambda>hb hb'. same_range (fst hb) (fst hb') \<and> (snd hb \<longrightarrow> hb' = hb) \<and>
        (\<not> snd hb \<and> snd hb' \<longrightarrow> seeded_ok depths (snd st') (fst hb')) \<and>
        (\<not> snd hb' \<longrightarrow> depth_of depths (h_start (fst hb')) = None)) hs hs'"
proof (induction hs arbitrary: st hs' p)
  case (Cons hb hs)
  from Cons.prems obtain hb' here st1 hs1 p1 where
    one: "seed_one True depths hb st = Some (hb', here, st1)"
    and rest: "seed True depths hs st1 = Some (hs1, p1, st')" "hs' = hb' # hs1"
    by (simp split: option.splits prod.splits)
  note mono = seed_max [OF rest(1)]
  from one show ?case
  proof (cases rule: seed_one_cases)
    case 1
    with Cons.IH [OF rest(1) Cons.prems(2)] Cons.prems(3) rest(2) show ?thesis
      by (auto simp: same_range_def depth_of_def)
  next
    case (2 d)
    have d: "depth_of depths (h_start (fst hb)) = Some d" using 2(3,4) by (simp add: depth_of_def)
    with Cons.prems(3) have dl: "d \<le> fst st" by blast
    also have "fst st \<le> fst st'" using 2(6) mono by simp
    finally have dm: "(d + 1) mod 2 ^ 32 = d + 1" using Cons.prems(2) by (simp add: u32_max_def)
    have mem: "(h_target (fst hb), d + 1) \<in> set (snd st')" using 2(6) mono dm by auto
    have "seeded_ok depths (snd st') (fst hb')"
      using 2(5) d mem by (auto simp: seeded_ok_def cap16_def owed_def)
    moreover have "\<forall>ix d. depth_of depths ix = Some d \<longrightarrow> d \<le> fst st1"
      using Cons.prems(3) 2(6) by (metis fst_conv max.coboundedI1)
    ultimately show ?thesis
      using Cons.IH [OF rest(1) Cons.prems(2)] rest(2) 2(2,5) by (simp add: same_range_def)
  qed
qed simp

definition rounds_inv :: "op list \<Rightarrow> struct_shape list \<Rightarrow> depths \<Rightarrow> nat \<Rightarrow> work \<Rightarrow> (handler \<times> bool) list \<Rightarrow> bool" where
  "rounds_inv ops structs depths mx work hs \<longleftrightarrow>
     drain_inv ops structs depths mx work \<and> (\<forall>hb \<in> set hs. snd hb \<longrightarrow> seeded_ok depths work (fst hb))"

lemma rounds_max: "rounds debug ops structs depths mx work hs = Some (depths', mx', hs') \<Longrightarrow> mx \<le> mx'"
proof (induction debug ops structs depths mx work hs rule: rounds.induct)
  case (1 debug ops structs depths mx work hs)
  from "1.prems" obtain d1 m1 hs1 p m2 w2 where
    d: "drain debug ops structs depths mx work = Some (d1, m1)"
    and s: "seed debug d1 hs (m1, []) = Some (hs1, p, m2, w2)"
    and r: "if \<not> p then (d1, m2, hs1) = (depths', mx', hs')
        else rounds debug ops structs d1 m2 w2 hs1 = Some (depths', mx', hs')"
    by (auto simp: rounds.simps [of debug ops structs depths mx work hs] split: option.splits if_splits)
  from drain_max [OF d] seed_max [OF s] have "mx \<le> m2" by simp
  with r "1.IH" [OF d refl s refl refl refl] show ?case by (cases p) auto
qed

lemma rounds_correct:
  "rounds True ops structs depths mx work hs = Some (depths', mx', hs') \<Longrightarrow> mx' < u32_max \<Longrightarrow>
     rounds_inv ops structs depths mx work hs \<Longrightarrow>
     rounds_inv ops structs depths' mx' [] hs' \<and> extends depths depths' \<and>
     (\<forall>e \<in> set work. depth_of depths' (fst e) = Some (snd e)) \<and>
     (\<forall>hb \<in> set hs'. \<not> snd hb \<longrightarrow> depth_of depths' (h_start (fst hb)) = None) \<and>
     list_all2 (\<lambda>hb hb'. same_range (fst hb) (fst hb')) hs hs'"
proof (induction "True" ops structs depths mx work hs rule: rounds.induct)
  case (1 ops structs depths mx work hs)
  from "1.prems"(1) obtain d1 m1 hs1 p m2 w2 where
    d: "drain True ops structs depths mx work = Some (d1, m1)"
    and s: "seed True d1 hs (m1, []) = Some (hs1, p, m2, w2)"
    and r: "if \<not> p then (d1, m2, hs1) = (depths', mx', hs')
        else rounds True ops structs d1 m2 w2 hs1 = Some (depths', mx', hs')"
    by (auto simp: rounds.simps [of True ops structs depths mx work hs] split: option.splits if_splits)
  have "m2 \<le> mx'" using r rounds_max by (cases p) auto
  with seed_max [OF s] "1.prems"(2) have lt: "m1 < u32_max" "m2 < u32_max" "m1 \<le> m2" by auto
  have inv: "drain_inv ops structs depths mx work" using "1.prems"(3) by (simp add: rounds_inv_def)
  note dr = drain_correct [OF d lt(1) inv]
  have bound: "\<forall>ix d. depth_of d1 ix = Some d \<longrightarrow> d \<le> fst (m1, [] :: work)"
    using dr by (simp add: drain_inv_def)
  have sd: "list_all2 (\<lambda>hb hb'. same_range (fst hb) (fst hb') \<and> (snd hb \<longrightarrow> hb' = hb) \<and>
        (\<not> snd hb \<and> snd hb' \<longrightarrow> seeded_ok d1 w2 (fst hb')) \<and>
        (\<not> snd hb' \<longrightarrow> depth_of d1 (h_start (fst hb')) = None)) hs hs1"
    using seed_correct [OF s _ bound] lt(2) by simp
  have di: "drain_inv ops structs d1 m2 w2"
    unfolding drain_inv_def
  proof (intro conjI allI impI)
    show "length d1 = length ops" using dr by (simp add: drain_inv_def)
    fix ix n assume ix: "depth_of d1 ix = Some n"
    with dr lt(3) show "n \<le> m2" by (force simp: drain_inv_def)
    from dr ix have "owes ops structs d1 [] ix n" by (simp add: drain_inv_def)
    then show "owes ops structs d1 w2 ix n" by (rule owes_mono) simp_all
  qed
  have ok1: "seeded_ok d1 w2 (fst hb')" if "hb' \<in> set hs1" "snd hb'" for hb'
  proof -
    from that(1) obtain i where i: "i < length hs1" "hs1 ! i = hb'" by (auto simp: in_set_conv_nth)
    define hb where "hb = hs ! i"
    from sd i have hb: "hb \<in> set hs" "snd hb \<longrightarrow> hb' = hb"
      "\<not> snd hb \<and> snd hb' \<longrightarrow> seeded_ok d1 w2 (fst hb')"
      by (auto simp: list_all2_conv_all_nth hb_def)
    show ?thesis
    proof (cases "snd hb")
      case True
      with "1.prems"(3) hb(1) have "seeded_ok depths work (fst hb)" by (simp add: rounds_inv_def)
      then have "seeded_ok d1 w2 (fst hb)"
        by (rule seeded_ok_mono) (use dr in \<open>auto simp: owed_def\<close>)
      with hb(2) True show ?thesis by simp
    qed (use hb that in blast)
  qed
  then have ri: "rounds_inv ops structs d1 m2 w2 hs1" using di by (simp add: rounds_inv_def)
  have ranges: "list_all2 (\<lambda>hb hb'. same_range (fst hb) (fst hb')) hs hs1"
    using sd by (rule list.rel_mono_strong) blast
  show ?case
  proof (cases p)
    case False
    with seed_unseeded [OF s] have w2: "w2 = []" by simp
    have "\<forall>hb \<in> set hs1. \<not> snd hb \<longrightarrow> depth_of d1 (h_start (fst hb)) = None"
    proof (intro ballI impI)
      fix hb assume "hb \<in> set hs1" "\<not> snd hb"
      then obtain i where "i < length hs1" "hs1 ! i = hb" by (auto simp: in_set_conv_nth)
      with sd \<open>\<not> snd hb\<close> show "depth_of d1 (h_start (fst hb)) = None"
        by (auto simp: list_all2_conv_all_nth)
    qed
    with False r ri ranges dr w2 show ?thesis by auto
  next
    case True
    with r have go: "rounds True ops structs d1 m2 w2 hs1 = Some (depths', mx', hs')" by simp
    from "1.hyps" [OF d refl s refl refl refl _ go "1.prems"(2) ri] True
    have ih: "rounds_inv ops structs depths' mx' [] hs'" "extends d1 depths'"
      "\<forall>hb \<in> set hs'. \<not> snd hb \<longrightarrow> depth_of depths' (h_start (fst hb)) = None"
      "list_all2 (\<lambda>hb hb'. same_range (fst hb) (fst hb')) hs1 hs'" by auto
    have "list_all2 (\<lambda>hb hb'. same_range (fst hb) (fst hb')) hs hs'"
      using list_all2_trans [OF _ ranges ih(4), of "\<lambda>hb hb'. same_range (fst hb) (fst hb')"]
      by (simp add: same_range_def)
    with ih dr extends_trans [OF _ ih(2)] show ?thesis by (auto simp: extends_def)
  qed
qed

section \<open>What the pass establishes\<close>

definition handlers_placed :: "assignment \<Rightarrow> handler list \<Rightarrow> bool" where
  "handlers_placed D hs \<longleftrightarrow>
     (\<forall>h \<in> set hs. \<forall>d. D (h_start h) = Some d \<longrightarrow> h_depth h = cap16 d \<and> D (h_target h) = Some (d + 1))"

lemma drain_inv_stable:
  "drain_inv ops structs depths mx [] \<Longrightarrow> stable ops structs (depth_of depths)"
proof -
  assume inv: "drain_inv ops structs depths mx []"
  show ?thesis
    unfolding stable_def
  proof (intro allI impI)
    fix ix n assume "depth_of depths ix = Some n"
    with inv have ow: "owes ops structs depths [] ix n" by (simp add: drain_inv_def)
    then obtain fall branch where t: "ix < length ops" "transition (ops ! ix) structs = Some (fall, branch)"
      "\<forall>delta. fall = Some delta \<longrightarrow>
           0 \<le> int n + delta \<and> owed depths [] (ix + 1) (nat (int n + delta))"
      "\<forall>target delta. branch = Some (target, delta) \<longrightarrow>
           0 \<le> int n + delta \<and> owed depths [] target (nat (int n + delta))"
      unfolding owes_def by blast
    have "case fall of None \<Rightarrow> True | Some delta \<Rightarrow> fits (depth_of depths) (ix + 1) n delta"
      using t(3) by (cases fall) (simp_all add: fits_def owed_def)
    moreover have "case branch of None \<Rightarrow> True | Some (target, delta) \<Rightarrow> fits (depth_of depths) target n delta"
      using t(4) by (cases branch) (auto simp: fits_def owed_def)
    ultimately show "stable_at ops structs (depth_of depths) ix n"
      using t(1,2) unfolding stable_at_def by blast
  qed
qed

lemma analyse_correct:
  assumes a: "analyse True ops hs structs = Some (depths, mx, hs')" and mx: "mx < u32_max"
  shows "stable ops structs (depth_of depths)" and "depth_of depths 0 = Some 0"
    and "\<And>ix d. depth_of depths ix = Some d \<Longrightarrow> d \<le> mx"
    and "handlers_placed (depth_of depths) hs'" and "list_all2 same_range hs hs'"
proof -
  let ?hs = "map (\<lambda>h. (h, False)) hs" and ?d0 = "replicate (length ops) None"
  from a obtain hbs where r: "rounds True ops structs ?d0 0 [(0, 0)] ?hs = Some (depths, mx, hbs)"
    "hs' = map fst hbs"
    by (auto simp: analyse_def)
  have "rounds_inv ops structs ?d0 0 [(0, 0)] ?hs"
    by (auto simp: rounds_inv_def drain_inv_def depth_of_def)
  note rc = rounds_correct [OF r(1) mx this]
  then have inv: "drain_inv ops structs depths mx []" by (simp add: rounds_inv_def)
  show "stable ops structs (depth_of depths)" by (rule drain_inv_stable [OF inv])
  show "depth_of depths 0 = Some 0" using rc by simp
  show "\<And>ix d. depth_of depths ix = Some d \<Longrightarrow> d \<le> mx" using inv by (simp add: drain_inv_def)
  show "list_all2 same_range hs hs'"
    using rc r(2) by (simp add: list.rel_map)
  show "handlers_placed (depth_of depths) hs'"
    unfolding handlers_placed_def r(2)
  proof (intro ballI allI impI)
    fix h d assume "h \<in> set (map fst hbs)" and d: "depth_of depths (h_start h) = Some d"
    then obtain b where hb: "(h, b) \<in> set hbs" by auto
    with rc d have b by (cases b) force+
    with rc hb have "seeded_ok depths [] h" by (force simp: rounds_inv_def)
    with d show "h_depth h = cap16 d \<and> depth_of depths (h_target h) = Some (d + 1)"
      by (auto simp: seeded_ok_def owed_def)
  qed
qed

text \<open>Code that has a consistent assignment at all passes every assertion, and the pass finds a
  part of that assignment.\<close>

definition within :: "depths \<Rightarrow> assignment \<Rightarrow> bool" where
  "within depths D \<longleftrightarrow> (\<forall>ix d. depth_of depths ix = Some d \<longrightarrow> D ix = Some d)"

definition bounded :: "assignment \<Rightarrow> nat \<Rightarrow> bool" where
  "bounded D B \<longleftrightarrow> (\<forall>ix d. D ix = Some d \<longrightarrow> d \<le> B)"

lemma apply_delta_fits:
  "fits D target depth delta \<Longrightarrow> bounded D B \<Longrightarrow> B \<le> u32_max \<Longrightarrow>
     apply_delta True depth delta = Some (nat (int depth + delta)) \<and> nat (int depth + delta) \<le> B"
  by (force simp: fits_def apply_delta_def Let_def bounded_def)

lemma visit_op_total:
  assumes st: "stable_at ops structs D ix depth" and B: "bounded D B" "B \<le> u32_max"
    and mx: "mx \<le> B" and work: "\<forall>e \<in> set work. D (fst e) = Some (snd e)"
  shows "\<exists>mx' work'. visit_op True ops structs ix depth (mx, work) = Some (mx', work') \<and> mx' \<le> B \<and>
    (\<forall>e \<in> set work'. D (fst e) = Some (snd e))"
proof -
  from st obtain fall branch where t: "transition (ops ! ix) structs = Some (fall, branch)"
    "case fall of None \<Rightarrow> True | Some delta \<Rightarrow> fits D (ix + 1) depth delta"
    "case branch of None \<Rightarrow> True | Some (target, delta) \<Rightarrow> fits D target depth delta"
    by (auto simp: stable_at_def)
  have "\<exists>mx1 work1. push_branch True branch depth (mx, work) = Some (mx1, work1) \<and> mx1 \<le> B \<and>
      (\<forall>e \<in> set work1. D (fst e) = Some (snd e))"
  proof (cases branch)
    case (Some b)
    obtain target delta where b: "b = (target, delta)" by (cases b)
    with t(3) Some have f: "fits D target depth delta" by simp
    from apply_delta_fits [OF f B] f mx work show ?thesis
      by (auto simp: push_branch_def Some b fits_def)
  qed (use mx work in \<open>simp add: push_branch_def\<close>)
  then obtain mx1 work1 where one: "push_branch True branch depth (mx, work) = Some (mx1, work1)"
    "mx1 \<le> B" "\<forall>e \<in> set work1. D (fst e) = Some (snd e)" by blast
  have "\<exists>mx2 work2. push_fall True fall ix depth (mx1, work1) = Some (mx2, work2) \<and> mx2 \<le> B \<and>
      (\<forall>e \<in> set work2. D (fst e) = Some (snd e))"
  proof (cases fall)
    case (Some delta)
    with t(2) have f: "fits D (ix + 1) depth delta" by simp
    from apply_delta_fits [OF f B] f one(2,3) show ?thesis
      by (auto simp: push_fall_def Some fits_def)
  qed (use one in \<open>simp add: push_fall_def\<close>)
  with t(1) one(1) show ?thesis by (auto simp: visit_op_def)
qed

lemma drain_total:
  assumes st: "stable ops structs D" and B: "bounded D B" "B \<le> u32_max"
  shows "mx \<le> B \<Longrightarrow> length depths = length ops \<Longrightarrow> within depths D \<Longrightarrow>
    (\<forall>e \<in> set work. D (fst e) = Some (snd e)) \<Longrightarrow>
    \<exists>depths' mx'. drain True ops structs depths mx work = Some (depths', mx') \<and> mx' \<le> B \<and>
      length depths' = length ops \<and> within depths' D"
  using st
proof (induction "True" ops structs depths mx work rule: drain.induct)
  case (1 ops structs depths mx)
  then show ?case by (simp add: drain.simps)
next
  case (2 ops structs depths mx ix depth work)
  have here: "stable_at ops structs D ix depth" "D ix = Some depth"
    using "2.prems"(4,5) by (auto simp: stable_def)
  then have bound: "ix < length ops" "ix < length depths"
    using "2.prems"(2) by (auto simp: stable_at_def)
  show ?case
  proof (cases "depths ! ix")
    case (Some existing)
    with bound "2.prems"(3) here(2) have "existing = depth" by (auto simp: within_def depth_of_def)
    with Some bound "2.hyps"(3) [OF _ Some] "2.prems" show ?thesis by (auto simp: drain.simps(2))
  next
    case None
    have "max mx depth \<le> B" using "2.prems"(1) B(1) here(2) by (auto simp: bounded_def)
    from visit_op_total [OF here(1) B this, where work = work] "2.prems"(4) obtain mx1 work1 where
      v: "visit_op True ops structs ix depth (max mx depth, work) = Some (mx1, work1)" "mx1 \<le> B"
        "\<forall>e \<in> set work1. D (fst e) = Some (snd e)" by auto
    have "within (depths[ix := Some depth]) D"
      using "2.prems"(3) here(2) by (auto simp: within_def depth_of_update split: if_splits)
    from "2.hyps"(2) [OF _ None v(1) refl v(2) _ this v(3) "2.prems"(5)] bound "2.prems"(2) v(1) None
    show ?thesis by (auto simp: drain.simps(2))
  qed
qed

lemma seed_total:
  assumes D: "\<And>h. h \<in> fst ` set hs \<Longrightarrow> h_start h < length depths \<and>
      (\<forall>d. D (h_start h) = Some d \<longrightarrow> D (h_target h) = Some (d + 1))"
    and B: "bounded D B" "B \<le> u32_max" and w: "within depths D"
  shows "fst st \<le> B \<Longrightarrow> (\<forall>e \<in> set (snd st). D (fst e) = Some (snd e)) \<Longrightarrow>
    \<exists>hs' p st'. seed True depths hs st = Some (hs', p, st') \<and> fst st' \<le> B \<and>
      (\<forall>e \<in> set (snd st'). D (fst e) = Some (snd e)) \<and> list_all2 same_range (map fst hs) (map fst hs')"
  using D
proof (induction hs arbitrary: st)
  case (Cons hb hs)
  have h: "h_start (fst hb) < length depths"
    "\<And>d. D (h_start (fst hb)) = Some d \<Longrightarrow> D (h_target (fst hb)) = Some (d + 1)"
    using Cons.prems(3) [of "fst hb"] by auto
  have "\<exists>hb' here st1. seed_one True depths hb st = Some (hb', here, st1) \<and> fst st1 \<le> B \<and>
      (\<forall>e \<in> set (snd st1). D (fst e) = Some (snd e)) \<and> same_range (fst hb) (fst hb')"
  proof (cases "snd hb \<or> depths ! h_start (fst hb) = None")
    case True
    with h(1) have "seed_one True depths hb st = Some (hb, False, st)" by (auto simp: seed_one_def)
    with Cons.prems(1,2) show ?thesis by (auto simp: same_range_def)
  next
    case False
    then obtain d where d: "depths ! h_start (fst hb) = Some d" by auto
    with h(1) w have "D (h_start (fst hb)) = Some d" by (simp add: within_def depth_of_def)
    then have t: "D (h_target (fst hb)) = Some (d + 1)" by (rule h(2))
    with B(1) have "d + 1 \<le> B" unfolding bounded_def by blast
    moreover from this B(2) have "(d + 1) mod 2 ^ 32 = d + 1" "d \<noteq> u32_max" by (auto simp: u32_max_def)
    ultimately show ?thesis
      using False d h(1) t Cons.prems(1,2) by (auto simp: seed_one_def same_range_def)
  qed
  then obtain hb' here st1 where one: "seed_one True depths hb st = Some (hb', here, st1)" "fst st1 \<le> B"
    "\<forall>e \<in> set (snd st1). D (fst e) = Some (snd e)" "same_range (fst hb) (fst hb')" by blast
  from Cons.IH [OF one(2,3)] Cons.prems(3) one show ?case by (auto split: option.split) 
qed (auto intro: exI [of _ False])

lemma rounds_total:
  assumes st: "stable ops structs D" and B: "bounded D B" "B \<le> u32_max"
  shows "mx \<le> B \<Longrightarrow> length depths = length ops \<Longrightarrow> within depths D \<Longrightarrow>
    (\<forall>e \<in> set work. D (fst e) = Some (snd e)) \<Longrightarrow>
    (\<And>h. h \<in> fst ` set hs \<Longrightarrow> h_start h < length ops \<and>
      (\<forall>d. D (h_start h) = Some d \<longrightarrow> D (h_target h) = Some (d + 1))) \<Longrightarrow>
    \<exists>depths' mx' hs'. rounds True ops structs depths mx work hs = Some (depths', mx', hs') \<and> mx' \<le> B \<and>
      within depths' D"
  using st
proof (induction "True" ops structs depths mx work hs rule: rounds.induct)
  case (1 ops structs depths mx work hs)
  from drain_total [OF "1.prems"(6) B "1.prems"(1-4)] obtain d1 m1 where
    d: "drain True ops structs depths mx work = Some (d1, m1)" "m1 \<le> B" "length d1 = length ops" "within d1 D"
    by blast
  from seed_total [of hs d1 D B "(m1, [])"] "1.prems"(5) B d obtain hs1 p m2 w2 where
    s: "seed True d1 hs (m1, []) = Some (hs1, p, m2, w2)" "m2 \<le> B"
      "\<forall>e \<in> set w2. D (fst e) = Some (snd e)" "list_all2 same_range (map fst hs) (map fst hs1)"
    by fastforce
  show ?case
  proof (cases p)
    case False
    with d s show ?thesis by (simp add: rounds.simps [of True ops structs depths mx work hs])
  next
    case True
    have "h_start h < length ops \<and> (\<forall>d. D (h_start h) = Some d \<longrightarrow> D (h_target h) = Some (d + 1))"
      if "h \<in> fst ` set hs1" for h
    proof -
      from that obtain i where i: "i < length hs1" "fst (hs1 ! i) = h" by (auto simp: in_set_conv_nth)
      with s(4) have "i < length hs" "same_range (fst (hs ! i)) h" by (auto simp: list_all2_conv_all_nth)
      with "1.prems"(5) [of "fst (hs ! i)"] show ?thesis by (auto simp: same_range_def)
    qed
    from "1.hyps" [OF d(1) refl s(1) refl refl refl _ s(2) d(3,4) s(3) this "1.prems"(6)] True d s
    show ?thesis by (auto simp: rounds.simps [of True ops structs depths mx work hs])
  qed
qed

text \<open>Without assertions the pass computes the same.\<close>

lemma apply_delta_release: "apply_delta True depth delta = Some n \<Longrightarrow> apply_delta b depth delta = Some n"
  by (auto simp: apply_delta_def Let_def split: if_splits)

lemma visit_op_release: "visit_op True ops structs ix depth st = Some st' \<Longrightarrow> visit_op b ops structs ix depth st = Some st'"
  by (auto simp: visit_op_def push_branch_def push_fall_def dest!: apply_delta_release [of _ _ _ b] split: option.splits)

lemma drain_release: "drain True ops structs depths mx work = Some r \<Longrightarrow> drain b ops structs depths mx work = Some r"
proof (induction "True" ops structs depths mx work rule: drain.induct)
  case (2 ops structs depths mx ix depth work)
  from "2.prems" have bound: "ix < length ops" "ix < length depths" by (auto simp: drain.simps(2) split: if_splits)
  show ?case
  proof (cases "depths ! ix")
    case None
    with "2.prems" bound obtain mx1 work1 where v:
      "visit_op True ops structs ix depth (max mx depth, work) = Some (mx1, work1)"
      "drain True ops structs (depths[ix := Some depth]) mx1 work1 = Some r"
      by (auto simp: drain.simps(2) split: option.splits)
    from "2.hyps"(2) [OF _ None v(1) refl v(2)] bound None visit_op_release [OF v(1), of b] show ?thesis
      by (simp add: drain.simps(2))
  next
    case (Some existing)
    with "2.prems" "2.hyps"(3) [OF _ Some] bound show ?thesis by (auto simp: drain.simps(2) split: if_splits)
  qed
qed (simp add: drain.simps)

lemma seed_release: "seed True depths hs st = Some r \<Longrightarrow> seed b depths hs st = Some r"
proof (induction hs arbitrary: st r)
  case (Cons hb hs)
  have one: "seed_one True depths hb st = Some x \<Longrightarrow> seed_one b depths hb st = Some x" for x
    by (auto simp: seed_one_def split: if_splits option.splits)
  from Cons.prems Cons.IH one show ?case by (fastforce split: option.splits)
qed simp

lemma rounds_release:
  "rounds True ops structs depths mx work hs = Some r \<Longrightarrow> rounds b ops structs depths mx work hs = Some r"
proof (induction "True" ops structs depths mx work hs rule: rounds.induct)
  case (1 ops structs depths mx work hs)
  from "1.prems" obtain d1 m1 hs1 p m2 w2 where
    d: "drain True ops structs depths mx work = Some (d1, m1)"
    and s: "seed True d1 hs (m1, []) = Some (hs1, p, m2, w2)"
    and r: "if \<not> p then Some (d1, m2, hs1) = Some r else rounds True ops structs d1 m2 w2 hs1 = Some r"
    by (auto simp: rounds.simps [of True ops structs depths mx work hs] split: option.splits if_splits)
  from "1.hyps" [OF d refl s refl refl refl] r
  show ?case
    using drain_release [OF d, of b] seed_release [OF s, of b]
    by (cases p) (simp_all add: rounds.simps [of b ops structs depths mx work hs])
qed


section \<open>The pass as a contract\<close>

text \<open>The handlers leave the assignment consistent: a protected range that is entered at depth
  \<open>d\<close> has its dispatch sequence entered at \<open>d + 1\<close>, the caught signal being pushed.\<close>

definition dispatch_ok :: "op list \<Rightarrow> assignment \<Rightarrow> handler list \<Rightarrow> bool" where
  "dispatch_ok ops D hs \<longleftrightarrow>
     (\<forall>h \<in> set hs. h_start h < length ops \<and>
        (\<forall>d. D (h_start h) = Some d \<longrightarrow> D (h_target h) = Some (d + 1)))"

lemma analyse_total:
  assumes st: "stable ops structs D" "D 0 = Some 0" "bounded D B" "B \<le> u32_max" "dispatch_ok ops D hs"
  shows "\<exists>depths mx hs'. analyse True ops hs structs = Some (depths, mx, hs') \<and> mx \<le> B \<and> within depths D"
proof -
  have "within (replicate (length ops) None) D"
    by (auto simp: within_def depth_of_def)
  from rounds_total [OF st(1,3,4) _ _ this, of 0 "[(0, 0)]" "map (\<lambda>h. (h, False)) hs"] st(2,5)
  show ?thesis by (force simp: analyse_def dispatch_ok_def)
qed

lemma analyse_release: "analyse True ops hs structs = Some r \<Longrightarrow> analyse debug ops hs structs = Some r"
  by (auto simp: analyse_def intro: rounds_release)


text \<open>C22: the operand-depth pass is complete and its assertions never fire on consistent code.
  If the code has any consistent assignment with the entry at depth zero, the pass succeeds
  with and without assertions and with the same result, needs no more than the largest depth
  of that assignment, and everything it records is part of it.\<close>

theorem finalize_complete:
  assumes "stable ops structs D" and "D 0 = Some 0" and "bounded D B" and "B < 2 ^ 16"
    and "dispatch_ok ops D hs"
  shows "\<exists>depths m hs'. analyse debug ops hs structs = Some (depths, m, hs') \<and>
    finalize debug ops hs structs = Some (hs', Inr m) \<and> m \<le> B \<and> within depths D"
proof -
  have "B \<le> u32_max" using assms(4) by (simp add: u32_max_def)
  from analyse_total [OF assms(1-3) this assms(5)] obtain depths m hs' where
    a: "analyse True ops hs structs = Some (depths, m, hs')" "m \<le> B" "within depths D" by blast
  moreover have "m \<le> u16_max" using a(2) assms(4) by (simp add: u16_max_def)
  ultimately show ?thesis
    using analyse_release [OF a(1), of debug] by (auto simp: finalize_def)
qed

text \<open>A loop with a handler: the protected instruction throws at depth one.\<close>

definition sample_ops :: "op list" where
  "sample_ops = [LoadTrue, JumpIfFalse 5, LoadUnit, Pop, Jump 0, LoadUnit, Ret, Pop, Jump 5]"

definition sample_handlers :: "handler list" where
  "sample_handlers = [\<lparr>h_start = 2, h_end = 4, h_target = 7, h_depth = 9\<rparr>]"

lemma sample_finalize:
  "finalize True sample_ops sample_handlers [] =
     Some ([\<lparr>h_start = 2, h_end = 4, h_target = 7, h_depth = 0\<rparr>], Inr 1)"
  by (simp add: finalize_def analyse_def sample_ops_def sample_handlers_def rounds.simps drain.simps
      visit_op_def transition_def net_effect_def push_branch_def push_fall_def apply_delta_def
      seed_one_def u16_max_def u32_max_def)


definition sample_depths :: "nat \<Rightarrow> nat option" where
  "sample_depths ix = (if ix < 9 then Some (if ix \<in> {1, 3, 6, 7} then 1 else 0) else None)"

lemma sample_stable: "stable sample_ops [] sample_depths"
proof -
  have "stable_at sample_ops [] sample_depths ix d" if "sample_depths ix = Some d" for ix d
  proof -
    from that have "ix < 9" by (simp add: sample_depths_def split: if_splits)
    then have "ix = 0 \<or> ix = 1 \<or> ix = 2 \<or> ix = 3 \<or> ix = 4 \<or> ix = 5 \<or> ix = 6 \<or> ix = 7 \<or> ix = 8"
      by arith
    with that show ?thesis
      by (elim disjE) (simp_all add: stable_at_def sample_ops_def sample_depths_def transition_def
          net_effect_def fits_def)
  qed
  then show ?thesis by (simp add: stable_def)
qed

lemma finalize_complete_witness:
  "\<exists>depths m hs'. analyse False sample_ops sample_handlers [] = Some (depths, m, hs') \<and> m \<le> 1"
proof -
  have "bounded sample_depths 1" by (simp add: bounded_def sample_depths_def)
  moreover have "dispatch_ok sample_ops sample_depths sample_handlers"
    by (simp add: dispatch_ok_def sample_handlers_def sample_depths_def sample_ops_def)
  ultimately show ?thesis
    using finalize_complete [OF sample_stable, of 1 sample_handlers False] by (auto simp: sample_depths_def)
qed

end
