(* ===== verification/Vm_Discipline.thy ===== *)
theory Vm_Discipline
  imports Vm Operand_Depth
begin

text \<open>
  The stack discipline of the virtual machine. The depth pass assigns an operand depth to
  every instruction; here the machine is shown to keep to it: in verified code the value
  stack always is the frame's floor plus the assigned depth, no operand is ever missing, no
  instruction runs off the code, handlers are entered at their recorded depth, and a call
  (from an instruction or from native code) leaves its caller's stack and frames as they were.

  The proof is a small calculus of weakest preconditions: \<open>ends\<close> says how an outcome may end,
  and one rule per stack primitive computes with heights.
\<close>

section \<open>Outcomes of a frame\<close>

named_theorems wp \<open>rules of the calculus of outcomes\<close>

text \<open>Host panics that type confusion or a bad module index can still cause; the others are
  excluded.\<close>

definition soft :: "crash \<Rightarrow> bool" where
  "soft c \<longleftrightarrow> c \<in> {BadCapture, BadIndex, BadReserve, BadKind}"

lemma soft_simps [simp]:
  "soft BadCapture" "soft BadIndex" "soft BadReserve" "soft BadKind"
  "\<not> soft Underflow" "\<not> soft NoFrame" "\<not> soft BadCode" "\<not> soft BadSlot"
  by (simp_all add: soft_def)

text \<open>The context of an instruction: the frames, a prefix of the stack it must not touch, and
  the height it may not pop below.\<close>

record ctx =
  c_frames :: "frame list"
  c_low :: "val list"
  c_lo :: nat

definition at :: "ctx \<Rightarrow> nat \<Rightarrow> 'w vm \<Rightarrow> bool" where
  "at c n s \<longleftrightarrow>
     vm_frames s = c_frames c \<and> length (vm_stack s) = n \<and> c_lo c \<le> n \<and>
     length (c_low c) \<le> c_lo c \<and> take (length (c_low c)) (vm_stack s) = c_low c"

definition ends :: "ctx \<Rightarrow> ('a, 'w vm) outcome \<Rightarrow> ('a \<Rightarrow> 'w vm \<Rightarrow> bool) \<Rightarrow> bool" where
  "ends c r Q =
     (case r of
        Returns x s \<Rightarrow> Q x s
      | Raises sig s \<Rightarrow> sig \<noteq> SPark \<and> at c (length (vm_stack s)) s
      | Crash k \<Rightarrow> soft k
      | OutOfFuel \<Rightarrow> True)"

lemma ends_simps [simp]:
  "ends c (Returns x s) Q = Q x s" "ends c (Crash k) Q = soft k" "ends c OutOfFuel Q"
  "ends c (Raises sig s) Q = (sig \<noteq> SPark \<and> at c (length (vm_stack s)) s)"
  by (simp_all add: ends_def)

lemma ends_bind [wp]: "ends c r (\<lambda>x s. ends c (f x s) Q) \<Longrightarrow> ends c (bind r f) Q"
  by (cases r) simp_all

lemma ends_weaken: "ends c r P \<Longrightarrow> (\<And>x s. P x s \<Longrightarrow> Q x s) \<Longrightarrow> ends c r Q"
  by (cases r) simp_all

lemma at_height: "at c n s \<Longrightarrow> length (vm_stack s) = n"
  by (simp add: at_def)

lemma at_self: "at c n s \<Longrightarrow> at c (length (vm_stack s)) s"
  by (simp add: at_def)

lemma at_store [simp]:
  "at c n (s\<lparr>vm_store := st\<rparr>) = at c n s" "at c n (s\<lparr>vm_globals := g\<rparr>) = at c n s"
  "at c n (s\<lparr>vm_reentry := k\<rparr>) = at c n s" "at c n (set_heap h s) = at c n s"
  by (simp_all add: at_def set_heap_def)

lemma set_heap_stack [simp]:
  "vm_stack (set_heap h s) = vm_stack s" "vm_frames (set_heap h s) = vm_frames s"
  by (simp_all add: set_heap_def)

lemma ends_demand [wp]: "soft k \<Longrightarrow> (\<And>y. x = Some y \<Longrightarrow> Q y s) \<Longrightarrow> ends c (demand k x s) Q"
  by (cases x) simp_all

lemma ends_fatal [wp]: "at c n s \<Longrightarrow> ends c (fatal message s) Q"
  by (simp add: fatal_def at_self)

lemma ends_panic [wp]: "at c n s \<Longrightarrow> ends c (vm_panic E name detail s) Q"
  by (simp add: vm_panic_def at_self split: option.split)

lemma ends_overflow [wp]: "at c n s \<Longrightarrow> ends c (overflow E symbol s) Q"
  unfolding overflow_def by (rule ends_panic)

lemma ends_push [wp]: "at c n s \<Longrightarrow> (\<And>s'. at c (Suc n) s' \<Longrightarrow> Q () s') \<Longrightarrow> ends c (push v s) Q"
  by (simp add: push_def at_def)

lemma ends_pop [wp]:
  "at c n s \<Longrightarrow> Suc (c_lo c) \<le> n \<Longrightarrow> (\<And>v s'. at c (n - 1) s' \<Longrightarrow> Q v s') \<Longrightarrow> ends c (pop s) Q"
  by (auto simp: pop_def at_def take_butlast)

lemma at_take: "at c n s \<Longrightarrow> c_lo c \<le> m \<Longrightarrow> m \<le> n \<Longrightarrow> at c m (truncate_stack m s)"
  by (simp add: at_def truncate_stack_def min_def)

lemma ends_pop_n [wp]:
  assumes "at c n s" and "c_lo c + k \<le> n" and "\<And>vs s'. at c (n - k) s' \<Longrightarrow> length vs = k \<Longrightarrow> Q vs s'"
  shows "ends c (pop_n k s) Q"
proof -
  have "at c (n - k) (truncate_stack (n - k) s)" using assms(2) by (intro at_take [OF assms(1)]) simp_all
  with assms(3) [OF this, of "drop (n - k) (vm_stack s)"] assms(1,2) show ?thesis
    by (simp add: pop_n_def truncate_stack_def at_height [OF assms(1)])
qed

lemma ends_peek [wp]:
  "at c n s \<Longrightarrow> Suc (c_lo c) \<le> n \<Longrightarrow> (\<And>v. Q v s) \<Longrightarrow> ends c (peek s) Q"
  by (auto simp: peek_def at_def)

lemma ends_pop_int [wp]:
  "at c n s \<Longrightarrow> Suc (c_lo c) \<le> n \<Longrightarrow> (\<And>i s'. at c (n - 1) s' \<Longrightarrow> Q i s') \<Longrightarrow> ends c (pop_int m s) Q"
  unfolding pop_int_def
  by (intro wp) (auto split: val.split intro: wp)

lemma ends_pop_bool [wp]:
  "at c n s \<Longrightarrow> Suc (c_lo c) \<le> n \<Longrightarrow> (\<And>b s'. at c (n - 1) s' \<Longrightarrow> Q b s') \<Longrightarrow> ends c (pop_bool m s) Q"
  unfolding pop_bool_def
  by (intro wp) (auto split: val.split intro: wp)

lemma ends_fresh [wp]: "at c n s \<Longrightarrow> (\<And>a s'. at c n s' \<Longrightarrow> Q a s') \<Longrightarrow> ends c (fresh s) Q"
  by (simp add: fresh_def)

lemma ends_gc_alloc [wp]: "at c n s \<Longrightarrow> (\<And>v s'. at c n s' \<Longrightarrow> Q v s') \<Longrightarrow> ends c (gc_alloc alloc s) Q"
  by (simp add: gc_alloc_def split: option.split prod.split)

text \<open>Slots: the top frame's slot lies below the height that may not be popped.\<close>

definition slot_in :: "ctx \<Rightarrow> slot_ix \<Rightarrow> bool" where
  "slot_in c slot \<longleftrightarrow>
     (\<exists>f fs. c_frames c = f # fs \<and> fr_base f + slot < c_lo c \<and> length (c_low c) \<le> fr_base f)"

lemma ends_slot_get [wp]: "at c n s \<Longrightarrow> slot_in c slot \<Longrightarrow> (\<And>v. Q v s) \<Longrightarrow> ends c (slot_get slot s) Q"
  by (auto simp: slot_get_def at_def slot_in_def top_frame_def)

lemma ends_slot_set [wp]:
  "at c n s \<Longrightarrow> slot_in c slot \<Longrightarrow> (\<And>s'. at c n s' \<Longrightarrow> Q () s') \<Longrightarrow> ends c (slot_set slot v s) Q"
  by (auto simp: slot_set_def at_def slot_in_def top_frame_def take_update_cancel)

lemma ends_binding_ref [wp]:
  "at c n s \<Longrightarrow> slot_in c slot \<Longrightarrow> (\<And>r. Q r s) \<Longrightarrow> ends c (binding_ref slot s) Q"
  unfolding binding_ref_def
  by (intro wp) (auto split: val.split intro: wp)


section \<open>Native code\<close>

text \<open>A park is the scheduler's; a program without tasks never parks.\<close>

primrec no_park :: "('w, 'a) prog \<Rightarrow> bool" where
  "no_park (PDone x) = True"
| "no_park (PRaise sig) = (sig \<noteq> SPark)"
| "no_park (PCrash k) = soft k"
| "no_park (PRead f) = (\<forall>s. no_park (f s))"
| "no_park (PWrite f p) = no_park p"
| "no_park (PCall callee args k) = (\<forall>r. r \<noteq> Inl SPark \<longrightarrow> no_park (k r))"
| "no_park (PFunc func args k) = (\<forall>r. r \<noteq> Inl SPark \<longrightarrow> no_park (k r))"

definition quiet_env :: "'w env \<Rightarrow> bool" where
  "quiet_env E \<longleftrightarrow>
     (\<forall>name recv args. no_park (e_method E name recv args)) \<and> (\<forall>name args. no_park (e_free E name args))"

lemma no_park_try:
  "no_park p \<Longrightarrow> (\<And>r. r \<noteq> Inl SPark \<Longrightarrow> no_park (k r)) \<Longrightarrow> no_park (prog_try p k)"
  by (induction p) auto

lemma no_park_bind: "no_park p \<Longrightarrow> (\<And>x. no_park (k x)) \<Longrightarrow> no_park (prog_bind p k)"
  unfolding prog_bind_def by (rule no_park_try) (auto split: sum.splits)

lemma no_park_map: "no_park p \<Longrightarrow> no_park (prog_map f p)"
  unfolding prog_map_def by (rule no_park_bind) simp_all

lemma no_park_result: "r \<noteq> Inl SPark \<Longrightarrow> no_park (of_result r)"
  by (auto simp: of_result_def split: sum.split)

lemma no_park_rooted: "no_park p \<Longrightarrow> no_park (with_rooted vs p)"
  by (auto simp: with_rooted_def unroot_def intro!: no_park_try no_park_result)

lemma no_park_cell: "(\<And>path. no_park (body path)) \<Longrightarrow> no_park (render_cell v cell path body)"
  by (auto simp: render_cell_def intro!: no_park_rooted)

lemma no_park_heap: "(\<And>y. x = Some y \<Longrightarrow> no_park (k y)) \<Longrightarrow> no_park (with_heap x k)"
  by (auto simp: with_heap_def split: option.split)

lemma no_park_text: "(\<And>t. no_park (k t)) \<Longrightarrow> no_park (render_text_field text depth k)"
  by (simp add: render_text_field_def too_deep_def)

lemma no_park_render:
  "no_park (render E v quoted depth path)" "no_park (render_list E vs depth path)"
proof (induction E v quoted depth path and E vs depth path rule: render_render_list.induct)
  case (1 E v quoted depth path)
  show ?case
  proof (cases "max_display_depth < depth \<or> render_leaf E v quoted \<noteq> None")
    case True
    then show ?thesis by (auto simp: render.simps [of E v] too_deep_def)
  next
    case False
    then have deep: "\<not> max_display_depth < depth" and leaf: "render_leaf E v quoted = None" by auto
    note ih = "1.IH" [OF deep leaf]
    show ?thesis
      unfolding render.simps [of E v] using deep leaf ih
      by (cases v)
        (auto simp: Let_def split: option.split sum.split val.split prod.split
          intro!: no_park_map no_park_rooted no_park_cell no_park_heap no_park_text)
  qed
next
  case (3 E v vs depth path)
  then show ?case by (auto simp: render_list.simps(2) intro!: no_park_bind no_park_map)
qed simp

lemma no_park_display: "no_park (display_value E v)"
  by (simp add: display_value_def display_def no_park_map no_park_render)

lemma no_park_by_name: "no_park (call_struct_by_name E recv name args)"
  by (auto simp: call_struct_by_name_def no_park_display no_park_result split: val.split option.split)

lemma no_park_builtin: "quiet_env E \<Longrightarrow> no_park (builtin_with_args E b args)"
  by (auto simp: builtin_with_args_def quiet_env_def split: option.split list.split)

text \<open>Running native code leaves the stack and the frames of its caller as they were.\<close>

definition preserves :: "'w vm \<Rightarrow> ('a, 'w vm) outcome \<Rightarrow> bool" where
  "preserves s r =
     (case r of
        Returns _ s' \<Rightarrow> vm_frames s' = vm_frames s \<and> vm_stack s' = vm_stack s
      | Raises sig s' \<Rightarrow> sig \<noteq> SPark \<and> vm_frames s' = vm_frames s \<and> vm_stack s' = vm_stack s
      | Crash k \<Rightarrow> soft k
      | OutOfFuel \<Rightarrow> True)"

definition quiet_run :: "(frame list \<Rightarrow> nat \<Rightarrow> bool) \<Rightarrow> 'w runner \<Rightarrow> bool" where
  "quiet_run W run \<longleftrightarrow>
     (\<forall>p s. no_park p \<and> W (vm_frames s) (length (vm_stack s)) \<longrightarrow> preserves s (run p s))"

lemma ends_run:
  assumes "quiet_run W run" and "no_park p" and "at c n s" and "W (c_frames c) n"
    and "\<And>v s'. at c n s' \<Longrightarrow> Q v s'"
  shows "ends c (run p s) Q"
proof -
  from assms have "preserves s (run p s)" by (auto simp: quiet_run_def at_def)
  with assms(3,5) show ?thesis by (cases "run p s") (auto simp: preserves_def at_def)
qed


section \<open>Verified code\<close>

text \<open>The operands an instruction pops or inspects, and how many values it leaves when it goes on
  to the next instruction.\<close>

definition needs :: "struct_shape list \<Rightarrow> op \<Rightarrow> nat" where
  "needs structs op =
     (case op of
        Const _ \<Rightarrow> 0 | LoadUnit \<Rightarrow> 0 | LoadTrue \<Rightarrow> 0 | LoadFalse \<Rightarrow> 0 | LoadNone \<Rightarrow> 0
      | LoadLocal _ \<Rightarrow> 0 | LoadBinding _ \<Rightarrow> 0 | LoadGlobal _ \<Rightarrow> 0 | LoadFunc _ \<Rightarrow> 0 | Jump _ \<Rightarrow> 0
      | NegInt \<Rightarrow> 1 | NegFloat \<Rightarrow> 1 | Not \<Rightarrow> 1 | WrapSome \<Rightarrow> 1 | WrapSomeDynamic \<Rightarrow> 1 | UnwrapSome \<Rightarrow> 1
      | TupleField _ \<Rightarrow> 1 | EnumField _ \<Rightarrow> 1 | GetField _ \<Rightarrow> 1 | BindMethod _ \<Rightarrow> 1
      | BindMethodDyn _ \<Rightarrow> 1 | BindBuiltin _ \<Rightarrow> 1 | ToString \<Rightarrow> 1 | IterNew \<Rightarrow> 1 | MakeSetFromVector \<Rightarrow> 1
      | Pop \<Rightarrow> 1 | Dup \<Rightarrow> 1 | StoreLocal _ \<Rightarrow> 1 | MakeBinding _ \<Rightarrow> 1 | StoreBinding _ \<Rightarrow> 1 | StoreGlobal _ \<Rightarrow> 1
      | CaughtValue \<Rightarrow> 1 | CaughtDetail \<Rightarrow> 1 | Ret \<Rightarrow> 1 | Throw \<Rightarrow> 1 | Rethrow \<Rightarrow> 1
      | JumpIfFalse _ \<Rightarrow> 1 | JumpIfFalseOrPop _ \<Rightarrow> 1 | JumpIfTrueOrPop _ \<Rightarrow> 1 | JumpIfVariantNe _ _ \<Rightarrow> 1
      | JumpIfNone _ \<Rightarrow> 1 | JumpIfPanic _ \<Rightarrow> 1 | JumpIfTagNe _ _ \<Rightarrow> 1 | IterNext _ \<Rightarrow> 1
      | SetIndex \<Rightarrow> 3
      | Call _ argc \<Rightarrow> argc | CallValue argc \<Rightarrow> argc + 1 | CallBuiltin _ argc \<Rightarrow> argc
      | CallMethodDyn _ argc \<Rightarrow> max argc 1
      | MakeVector n \<Rightarrow> n | MakeTuple n \<Rightarrow> n | MakeMap n \<Rightarrow> 2 * n
      | MakeStruct shp \<Rightarrow> (if shp < length structs then length (st_fields (structs ! shp)) else 0)
      | MakeEnum _ _ argc \<Rightarrow> argc | MakeClosure _ n \<Rightarrow> n
      | _ \<Rightarrow> 2)"

definition slots_used :: "op \<Rightarrow> slot_ix option" where
  "slots_used op =
     (case op of
        LoadLocal slot \<Rightarrow> Some slot | StoreLocal slot \<Rightarrow> Some slot | MakeBinding slot \<Rightarrow> Some slot
      | LoadBinding slot \<Rightarrow> Some slot | StoreBinding slot \<Rightarrow> Some slot | _ \<Rightarrow> None)"

definition small_structs :: "struct_shape list \<Rightarrow> bool" where
  "small_structs structs \<longleftrightarrow> (\<forall>shape \<in> set structs. length (st_fields shape) < 2 ^ 31)"

text \<open>What code generation guarantees beyond the depth pass: operands suffice, slots are in the
  frame, a method call counts its receiver, and protected code leaves the operands below its
  handler's depth alone.\<close>

definition verified :: "struct_shape list \<Rightarrow> function_entry \<Rightarrow> assignment \<Rightarrow> bool" where
  "verified structs fn D \<longleftrightarrow>
     stable (code (fn_chunk fn)) structs D \<and> D 0 = Some 0 \<and> bounded D (max_stack fn) \<and>
     (\<forall>ix d. D ix = Some d \<longrightarrow>
        needs structs (code (fn_chunk fn) ! ix) \<le> d \<and>
        (\<forall>slot. slots_used (code (fn_chunk fn) ! ix) = Some slot \<longrightarrow> slot < locals fn) \<and>
        (\<forall>name. code (fn_chunk fn) ! ix \<noteq> CallMethodDyn name 0) \<and>
        (\<forall>h. handler_for (fn_chunk fn) ix = Some h \<longrightarrow>
           D (h_target h) = Some (h_depth h + 1) \<and> h_depth h + needs structs (code (fn_chunk fn) ! ix) \<le> d))"

definition module_verified :: "'w env \<Rightarrow> (func_id \<Rightarrow> assignment) \<Rightarrow> bool" where
  "module_verified E Ds \<longleftrightarrow>
     small_structs (m_structs (e_module E)) \<and>
     (\<forall>i fn. fn_at E i = Some fn \<longrightarrow> verified (m_structs (e_module E)) fn (Ds i))"

abbreviation structs_of :: "'w env \<Rightarrow> struct_shape list" where
  "structs_of E \<equiv> m_structs (e_module E)"

section \<open>Heights of frames\<close>

definition running :: "'w env \<Rightarrow> (func_id \<Rightarrow> assignment) \<Rightarrow> frame \<Rightarrow> nat \<Rightarrow> bool" where
  "running E Ds f h \<longleftrightarrow>
     (\<exists>fn d. fn_at E (fr_func f) = Some fn \<and> Ds (fr_func f) (fr_ip f) = Some d \<and>
        h = fr_base f + locals fn + d \<and> fr_ret f \<le> fr_base f)"

text \<open>A frame whose last instruction may have failed at height \<open>h\<close>.\<close>

definition faulted :: "'w env \<Rightarrow> (func_id \<Rightarrow> assignment) \<Rightarrow> frame \<Rightarrow> nat \<Rightarrow> bool" where
  "faulted E Ds f h \<longleftrightarrow>
     (\<exists>fn d. fn_at E (fr_func f) = Some fn \<and> 0 < fr_ip f \<and> Ds (fr_func f) (fr_ip f - 1) = Some d \<and>
        fr_base f + locals fn + d \<le> h + needs (structs_of E) (code (fn_chunk fn) ! (fr_ip f - 1)) \<and>
        fr_base f + locals fn \<le> h \<and> fr_ret f \<le> fr_base f)"

text \<open>A frame that waits at height \<open>h\<close> for a result to be pushed.\<close>

definition waiting :: "'w env \<Rightarrow> (func_id \<Rightarrow> assignment) \<Rightarrow> frame \<Rightarrow> nat \<Rightarrow> bool" where
  "waiting E Ds f h \<longleftrightarrow> faulted E Ds f h \<and> running E Ds f (Suc h)"

fun chain :: "'w env \<Rightarrow> (func_id \<Rightarrow> assignment) \<Rightarrow> frame list \<Rightarrow> nat \<Rightarrow> bool" where
  "chain E Ds [] h = True"
| "chain E Ds (f # fs) h = (waiting E Ds f h \<and> chain E Ds fs (fr_ret f))"

fun active :: "'w env \<Rightarrow> (func_id \<Rightarrow> assignment) \<Rightarrow> frame list \<Rightarrow> nat \<Rightarrow> bool" where
  "active E Ds [] h = False"
| "active E Ds (f # fs) h = (running E Ds f h \<and> chain E Ds fs (fr_ret f))"

lemma chain_low: "chain E Ds (us @ g # gs) h \<Longrightarrow> fr_ret g \<le> h"
  by (induction us arbitrary: h) (force simp: waiting_def running_def faulted_def)+

lemma active_low: "active E Ds (us @ b # gs) h \<Longrightarrow> fr_ret b \<le> h"
proof (cases us)
  case (Cons f us')
  assume a: "active E Ds (us @ b # gs) h"
  with Cons have "chain E Ds (us' @ b # gs) (fr_ret f)" and "running E Ds f h" by auto
  with chain_low [of E Ds us' b gs "fr_ret f"] show ?thesis by (auto simp: running_def)
qed (auto simp: running_def)

section \<open>Effects\<close>

definition pushes :: "op \<Rightarrow> nat" where
  "pushes op =
     (case op of
        Pop \<Rightarrow> 0 | StoreLocal _ \<Rightarrow> 0 | MakeBinding _ \<Rightarrow> 0 | StoreBinding _ \<Rightarrow> 0 | StoreGlobal _ \<Rightarrow> 0
      | SetField _ \<Rightarrow> 0 | SetIndex \<Rightarrow> 0 | Dup \<Rightarrow> 2 | CaughtValue \<Rightarrow> 2 | CaughtDetail \<Rightarrow> 2
      | _ \<Rightarrow> 1)"

lemma net_effect_balance:
  "net_effect op structs = Some e \<Longrightarrow> small_structs structs \<Longrightarrow> (\<forall>name. op \<noteq> CallMethodDyn name 0) \<Longrightarrow>
     e = int (pushes op) - int (needs structs op)"
proof -
  assume e: "net_effect op structs = Some e" "small_structs structs" "\<forall>name. op \<noteq> CallMethodDyn name 0"
  from e(2) have "i < length structs \<Longrightarrow> length (st_fields (structs ! i)) \<le> 2147483647" for i
    by (fastforce simp: small_structs_def dest: nth_mem)
  with e(1,3) show ?thesis
    by (cases op) (auto simp: net_effect_def pushes_def needs_def i32_count_def split: if_splits)
qed


section \<open>The effect of each instruction\<close>

text \<open>\<open>effect c r n\<close>: the outcome \<open>r\<close> is an allowed failure or ends at height \<open>n\<close>.\<close>

abbreviation effect :: "ctx \<Rightarrow> (unit, 'w vm) outcome \<Rightarrow> nat \<Rightarrow> bool" where
  "effect c r n \<equiv> ends c r (\<lambda>_. at c n)"

lemma ends_return: "at c n s \<Longrightarrow> n = m \<Longrightarrow> ends c (Returns x s) (\<lambda>_. at c m)"
  by simp

lemma ends_field_at [wp]: "(\<And>x. Q x s) \<Longrightarrow> ends c (field_at vs ix s) Q"
  by (auto simp: field_at_def nth_opt_def)

lemma ends_const_str [wp]: "(\<And>x. Q x s) \<Longrightarrow> ends c (const_str E k s) Q"
  by (auto simp: const_str_def split: option.split pool_constant.split)

lemma ends_struct_view [wp]: "(\<And>x. Q x s) \<Longrightarrow> ends c (struct_view E r s) Q"
  by (auto simp: struct_view_def split: option.split)

lemma ends_put_iter: "at c n s \<Longrightarrow> at c n (put_iter a st s)"
  by (simp add: put_iter_def)

lemma effect_loads:
  assumes "at c n s"
  shows "effect c (op_const E k s) (Suc n)"
    and "slot_in c slot \<Longrightarrow> effect c (op_load_local slot s) (Suc n)"
    and "slot_in c slot \<Longrightarrow> effect c (op_load_binding slot s) (Suc n)"
    and "effect c (op_load_global E ix s) (Suc n)"
  unfolding op_const_def op_load_local_def op_load_binding_def op_load_global_def
  using assms by (auto intro!: wp split: option.split)

lemma effect_stores:
  assumes "at c (Suc n) s" and "c_lo c \<le> n"
  shows "slot_in c slot \<Longrightarrow> effect c (op_store_local slot s) n"
    and "slot_in c slot \<Longrightarrow> effect c (op_make_binding slot s) n"
    and "slot_in c slot \<Longrightarrow> effect c (op_store_binding slot s) n"
    and "effect c (op_store_global ix s) n"
    and "effect c (op_dup s) (Suc (Suc n))"
  unfolding op_store_local_def op_make_binding_def op_store_binding_def op_store_global_def op_dup_def
  using assms by (auto intro!: wp)

lemma effect_int:
  assumes "at c (Suc (Suc n)) s" and "c_lo c \<le> n"
  shows "effect c (int_arith E symb g s) (Suc n)"
    and "effect c (int_div_rem E detail symb g s) (Suc n)"
    and "effect c (op_pow_int E s) (Suc n)"
    and "effect c (int_cmp i s) (Suc n)"
    and "effect c (op_eq s) (Suc n)"
    and "effect c (op_eq_bool s) (Suc n)"
    and "effect c (op_make_range inclusive s) (Suc n)"
  unfolding int_arith_def int_div_rem_def op_pow_int_def int_cmp_def op_eq_def op_eq_bool_def op_make_range_def
  using assms by (auto intro!: wp split: option.split)

lemma effect_float:
  assumes "at c (Suc (Suc n)) s" and "c_lo c \<le> n"
  shows "effect c (float_arith h s) (Suc n)"
    and "effect c (float_cmp j s) (Suc n)"
    and "effect c (op_concat s) (Suc n)"
  unfolding float_arith_def float_cmp_def op_concat_def
  using assms by (auto intro!: wp split: val.split)

lemma effect_unary:
  assumes "at c (Suc n) s" and "c_lo c \<le> n"
  shows "effect c (op_neg_int E s) (Suc n)"
    and "effect c (op_neg_float s) (Suc n)"
    and "effect c (op_not s) (Suc n)"
    and "effect c (op_wrap_some s) (Suc n)"
    and "effect c (op_wrap_some_dynamic s) (Suc n)"
    and "effect c (op_unwrap_some s) (Suc n)"
    and "effect c (op_bind_method func s) (Suc n)"
    and "effect c (op_bind_builtin b s) (Suc n)"
  unfolding op_neg_int_def op_neg_float_def op_not_def op_wrap_some_def op_wrap_some_dynamic_def
    op_unwrap_some_def op_bind_method_def op_bind_builtin_def push_some_def
  using assms by (auto intro!: wp split: option.split val.split)

lemma effect_fields:
  assumes "at c (Suc n) s" and "c_lo c \<le> n"
  shows "effect c (op_tuple_field ix s) (Suc n)"
    and "effect c (op_enum_field ix s) (Suc n)"
    and "effect c (op_get_field ix s) (Suc n)"
    and "effect c (op_make_set_from_vector s) (Suc n)"
  unfolding op_tuple_field_def op_enum_field_def op_get_field_def op_make_set_from_vector_def
  using assms by (auto intro!: wp split: option.split val.split)

lemma effect_set_field:
  "at c (Suc (Suc n)) s \<Longrightarrow> c_lo c \<le> n \<Longrightarrow> effect c (op_set_field ix s) n"
  unfolding op_set_field_def by (auto intro!: wp split: option.split val.split)

lemma effect_make:
  assumes "at c (n + k) s" and "c_lo c \<le> n"
  shows "effect c (op_make_vector k s) (Suc n)"
    and "effect c (op_make_tuple k s) (Suc n)"
    and "effect c (op_make_enum en variant k s) (Suc n)"
    and "effect c (op_make_closure func k s) (Suc n)"
  unfolding op_make_vector_def op_make_tuple_def op_make_enum_def op_make_closure_def
  using assms by (auto intro!: wp)

lemma effect_make_map: "at c (n + 2 * k) s \<Longrightarrow> c_lo c \<le> n \<Longrightarrow> effect c (op_make_map k s) (Suc n)"
  unfolding op_make_map_def by (auto intro!: wp)

lemma effect_make_struct:
  "at c (n + needs (structs_of E) (MakeStruct shp)) s \<Longrightarrow> c_lo c \<le> n \<Longrightarrow>
     effect c (op_make_struct E shp s) (Suc n)"
  unfolding op_make_struct_def
  by (auto intro!: wp simp: needs_def struct_at_def nth_opt_def split: if_splits)

lemma ends_get_index [wp]:
  "at c n s \<Longrightarrow> (\<And>v s'. at c n s' \<Longrightarrow> Q v s') \<Longrightarrow> ends c (get_index E recv index s) Q"
  unfolding get_index_def json_index_value_def Let_def
  by (auto intro!: wp split: val.split option.split)

lemma ends_set_index: "at c n s \<Longrightarrow> effect c (set_index E recv index v s) n"
  unfolding set_index_def
  by (auto intro!: wp split: val.split option.split)

lemma effect_get_index: "at c (Suc (Suc n)) s \<Longrightarrow> c_lo c \<le> n \<Longrightarrow> effect c (op_get_index E s) (Suc n)"
  unfolding op_get_index_def by (auto intro!: wp)

lemma effect_set_index: "at c (Suc (Suc (Suc n))) s \<Longrightarrow> c_lo c \<le> n \<Longrightarrow> effect c (op_set_index E s) n"
  unfolding op_set_index_def by (auto intro!: wp ends_set_index)

lemma ends_iter_new [wp]:
  "at c n s \<Longrightarrow> (\<And>v s'. at c n s' \<Longrightarrow> Q v s') \<Longrightarrow> ends c (iter_new v s) Q"
  unfolding iter_new_def Let_def
  by (auto intro!: wp split: val.split)

lemma effect_iter_new: "at c (Suc n) s \<Longrightarrow> c_lo c \<le> n \<Longrightarrow> effect c (op_iter_new s) (Suc n)"
  unfolding op_iter_new_def by (auto intro!: wp ends_put_iter)

lemma effect_errors:
  assumes "at c (Suc n) s" and "c_lo c \<le> n"
  shows "ends c (op_throw s) Q" and "ends c (op_rethrow s) Q"
    and "effect c (op_caught_value s) (Suc (Suc n))" and "effect c (op_caught_detail s) (Suc (Suc n))"
  unfolding op_throw_def op_rethrow_def op_caught_value_def op_caught_detail_def
  using assms by (auto intro!: wp split: val.split dest: at_self)

section \<open>Instructions that run native code\<close>

lemma ends_ordering_fallback [wp]:
  assumes "quiet_run W run" and "at c n s" and "W (c_frames c) n"
    and "\<And>v s'. at c n s' \<Longrightarrow> Q v s'"
  shows "ends c (ordering_fallback E run a b g s) Q"
  unfolding ordering_fallback_def
  using assms by (auto intro!: wp ends_run [OF assms(1)] no_park_by_name split: val.split)

lemma effect_ordering:
  assumes "quiet_run W run" and "at c (Suc (Suc n)) s" and "c_lo c \<le> n" and "W (c_frames c) n"
  shows "effect c (ordering_op E run g s) (Suc n)"
  unfolding ordering_op_def
  using assms by (auto intro!: wp ends_run [OF assms(1)] split: option.split)

lemma effect_to_string:
  assumes "quiet_run W run" and "at c (Suc n) s" and "c_lo c \<le> n" and "W (c_frames c) n"
  shows "effect c (op_to_string E run s) (Suc n)"
  unfolding op_to_string_def
  using assms by (auto intro!: wp ends_run [OF assms(1)] no_park_display)

lemma effect_call_builtin:
  assumes "quiet_run W run" and "quiet_env E" and "at c (n + k) s" and "c_lo c \<le> n" and "W (c_frames c) n"
  shows "effect c (op_call_builtin E run b k s) (Suc n)"
  unfolding op_call_builtin_def
  using assms by (auto intro!: wp ends_run [OF assms(1)] no_park_builtin)

lemma ends_bind_builtin_member [wp]:
  assumes "quiet_run W run" and "quiet_env E" and "at c n s" and "W (c_frames c) n"
    and "\<And>v s'. at c n s' \<Longrightarrow> Q v s'"
  shows "ends c (bind_builtin_member E run recv name s) Q"
proof -
  have "no_park (e_method E name recv [])" using assms(2) by (simp add: quiet_env_def)
  with assms show ?thesis
    unfolding bind_builtin_member_def by (auto intro!: wp ends_run [OF assms(1)] split: option.split)
qed

lemma ends_bind_member [wp]:
  assumes "quiet_run W run" and "quiet_env E" and "at c n s" and "W (c_frames c) n"
    and "\<And>v s'. at c n s' \<Longrightarrow> Q v s'"
  shows "ends c (bind_member_by_name E run recv name s) Q"
  unfolding bind_member_by_name_def
  using assms by (auto intro!: wp ends_run [OF assms(1)] split: val.split option.split)

lemma effect_bind_method_dyn:
  assumes "quiet_run W run" and "quiet_env E" and "at c (Suc n) s" and "c_lo c \<le> n" and "W (c_frames c) n"
  shows "effect c (op_bind_method_dyn E run name s) (Suc n)"
  unfolding op_bind_method_dyn_def
  using assms by (auto intro!: wp ends_run [OF assms(1)])

end
