(* ===== verification/Vm_Safety.thy ===== *)
theory Vm_Safety
  imports Vm_Discipline
begin

section \<open>One instruction\<close>

definition simple_op :: "op \<Rightarrow> bool" where
  "simple_op op \<longleftrightarrow>
     (case op of
        Call _ _ \<Rightarrow> False | CallValue _ \<Rightarrow> False | CallMethodDyn _ _ \<Rightarrow> False
      | Jump _ \<Rightarrow> False | JumpIfFalse _ \<Rightarrow> False | JumpIfFalseOrPop _ \<Rightarrow> False | JumpIfTrueOrPop _ \<Rightarrow> False
      | JumpIfVariantNe _ _ \<Rightarrow> False | JumpIfNone _ \<Rightarrow> False | JumpIfPanic _ \<Rightarrow> False
      | JumpIfTagNe _ _ \<Rightarrow> False | IterNext _ \<Rightarrow> False | Ret \<Rightarrow> False | Throw \<Rightarrow> False | Rethrow \<Rightarrow> False
      | _ \<Rightarrow> True)"

lemma ends_push_effect: "at c n s \<Longrightarrow> effect c (push v s) (Suc n)"
  by (auto intro!: wp)

lemma effect_pop: "at c (Suc n) s \<Longrightarrow> c_lo c \<le> n \<Longrightarrow> effect c (bind (pop s) (\<lambda>_ s. Returns () s)) n"
  by (auto intro!: wp)

lemma step_simple:
  assumes "quiet_run W run" and "quiet_env E" and "at c (c_lo c + needs (structs_of E) op) s"
    and "pushes op = 1 \<Longrightarrow> W (c_frames c) (c_lo c)"
    and "\<And>slot. slots_used op = Some slot \<Longrightarrow> slot_in c slot" and "simple_op op"
  shows "effect c (step E run op s) (c_lo c + pushes op)"
  using assms(3-6)
  by (cases op)
    (auto simp: step_def needs_def pushes_def slots_used_def simple_op_def numeral_eq_Suc
      intro: effect_loads effect_stores effect_make_struct [unfolded needs_def, simplified] effect_int effect_float effect_unary effect_fields effect_set_field effect_make
        effect_make_map effect_get_index effect_set_index effect_iter_new
        effect_errors ends_push_effect effect_pop
        effect_ordering [OF assms(1)] effect_to_string [OF assms(1)] effect_call_builtin [OF assms(1,2)]
        effect_bind_method_dyn [OF assms(1,2)])


text \<open>Branches: the context after a jump has the top frame at the target.\<close>

definition moved :: "ctx \<Rightarrow> code_ix \<Rightarrow> ctx" where
  "moved c t = c\<lparr>c_frames := (hd (c_frames c))\<lparr>fr_ip := t\<rparr> # tl (c_frames c)\<rparr>"

abbreviation forks :: "ctx \<Rightarrow> code_ix \<Rightarrow> nat \<Rightarrow> nat \<Rightarrow> (unit, 'w vm) outcome \<Rightarrow> bool" where
  "forks c t a b r \<equiv> ends c r (\<lambda>_ s'. at c a s' \<or> at (moved c t) b s')"

lemma ends_jump [wp]:
  "at c n s \<Longrightarrow> c_frames c \<noteq> [] \<Longrightarrow> (\<And>s'. at (moved c t) n s' \<Longrightarrow> Q () s') \<Longrightarrow> ends c (jump t s) Q"
  by (cases "c_frames c") (simp_all add: jump_def at_def moved_def)

lemma forks_bool:
  assumes "at c (Suc n) s" and "c_lo c \<le> n" and "c_frames c \<noteq> []"
  shows "forks c t n n (op_jump_if_false t s)"
    and "forks c t n (Suc n) (op_jump_or_pop key t s)"
  unfolding op_jump_if_false_def op_jump_or_pop_def
  using assms by (auto intro!: wp split: val.split)

lemma forks_peek:
  assumes "at c (Suc n) s" and "c_lo c \<le> n" and "c_frames c \<noteq> []"
  shows "forks c t (Suc n) (Suc n) (op_jump_if_variant_ne variant t s)"
    and "forks c t (Suc n) (Suc n) (op_jump_if_none t s)"
    and "forks c t (Suc n) (Suc n) (op_jump_if_panic t s)"
    and "forks c t (Suc n) (Suc n) (op_jump_if_tag_ne E tag t s)"
  unfolding op_jump_if_variant_ne_def op_jump_if_none_def op_jump_if_panic_def op_jump_if_tag_ne_def
  using assms by (auto intro!: wp split: val.split)


lemma forks_iter_next:
  fixes s :: "'a vm"
  assumes "at c (Suc n) s" and "c_lo c \<le> n" and "c_frames c \<noteq> []"
  shows "forks c t (Suc (Suc n)) n (op_iter_next t s)"
proof -
  have put: "at c (Suc n) (put_iter a st s)" for a st using ends_put_iter [OF assms(1)] .
  have fall: "ends c (push v (put_iter a st s)) (\<lambda>_ s'. at c (Suc (Suc n)) s' \<or> at (moved c t) n s')" for v a st
    by (rule ends_push [OF put]) simp
  have leave: "ends c (bind (pop (put_iter a st s)) (\<lambda>_. jump t))
      (\<lambda>_ s'. at c (Suc (Suc n)) s' \<or> at (moved c t) n s')" for a st
  proof (rule ends_bind, rule ends_pop [OF put])
    show "Suc (c_lo c) \<le> Suc n" using assms(2) by simp
    fix v and s' :: "'a vm" assume "at c (Suc n - 1) s'"
    then have "at c n s'" by simp
    then show "ends c (jump t s') (\<lambda>_ s'. at c (Suc (Suc n)) s' \<or> at (moved c t) n s')"
      by (rule ends_jump) (use assms(3) in simp_all)
  qed
  show ?thesis
    unfolding op_iter_next_def
    using assms fall leave by (auto intro!: wp split: val.split prod.split option.split)
qed

lemma step_forks:
  assumes "at c (c_lo c + needs (structs_of E) op) s" and "c_frames c \<noteq> []"
    and "transition op (structs_of E) = Some (fall, Some (t, db))" and "\<not> simple_op op"
  shows "ends c (step E run op s) (\<lambda>_ s'.
     (\<exists>df. fall = Some df \<and> at c (nat (int (c_lo c + needs (structs_of E) op) + df)) s') \<or>
     at (moved c t) (nat (int (c_lo c + needs (structs_of E) op) + db)) s')"
proof -
  have n1: "nat (int (Suc k) - 1) = k" "nat (2 + int k) = Suc (Suc k)" "nat (1 + int k) = Suc k" for k by simp_all
  show ?thesis
    using assms
    by (cases op)
      (auto simp: step_def needs_def simple_op_def transition_def net_effect_def n1 ends_jump
        intro: forks_bool forks_peek forks_iter_next)
qed


section \<open>Calls\<close>

text \<open>A frame for \<open>func\<close> has just been pushed, its slots filled and no operand on it.\<close>

definition entered :: "'w env \<Rightarrow> ctx \<Rightarrow> nat \<Rightarrow> 'w vm \<Rightarrow> bool" where
  "entered E c ret s \<longleftrightarrow>
     (\<exists>g fn. vm_frames s = g # c_frames c \<and> fn_at E (fr_func g) = Some fn \<and> fr_ip g = 0 \<and>
        fr_ret g = ret \<and> ret \<le> fr_base g \<and> length (vm_stack s) = fr_base g + locals fn \<and>
        take (length (c_low c)) (vm_stack s) = c_low c \<and> length (c_low c) \<le> ret)"

lemma take_resize: "k \<le> n \<Longrightarrow> k \<le> length xs \<Longrightarrow> take k (resize n x xs) = take k xs"
  by (simp add: resize_def min_def)

lemma length_resize [simp]: "length (resize n x xs) = n"
  by (simp add: resize_def)

lemma ends_enter:
  assumes "at c n s" and "ret \<le> base" and "base \<le> n" and "c_lo c \<le> ret"
  shows "ends c (enter_function E func base ret s) (\<lambda>_. entered E c ret)"
  using assms
  by (auto simp: enter_function_def entered_def at_def take_resize intro!: wp dest: at_self)

lemma ends_write_captures:
  assumes "entered E c ret s"
  shows "ends c (write_captures E func caps s) (\<lambda>_. entered E c ret)"
proof -
  from assms obtain g fn where g: "vm_frames s = g # c_frames c" "fn_at E (fr_func g) = Some fn" "fr_ip g = 0"
    "fr_ret g = ret" "ret \<le> fr_base g" "length (vm_stack s) = fr_base g + locals fn"
    "take (length (c_low c)) (vm_stack s) = c_low c" "length (c_low c) \<le> ret"
    by (auto simp: entered_def)
  show ?thesis
  proof (cases "fn_at E func")
    case (Some fn')
    let ?start = "fr_base g + arity fn'"
    show ?thesis
    proof (cases "caps = []")
      case True
      with Some g assms show ?thesis
        by (simp add: write_captures_def top_frame_def Let_def)
    next
      case False
      show ?thesis
      proof (cases "length (vm_stack s) < ?start + length caps")
        case True
        with Some g False show ?thesis by (simp add: write_captures_def top_frame_def Let_def)
      next
        case fits: False
        let ?st = "take ?start (vm_stack s) @ caps @ drop (?start + length caps) (vm_stack s)"
        have low: "length (c_low c) \<le> ?start" using g(5,8) by simp
        have "take (length (c_low c)) ?st = take (length (c_low c)) (vm_stack s)"
          using low fits by (simp add: min_def)
        moreover have "length ?st = length (vm_stack s)" using fits by simp
        ultimately show ?thesis
          using Some g False fits
          by (auto simp: write_captures_def top_frame_def Let_def entered_def)
      qed
    qed
  qed (use g in \<open>simp add: write_captures_def top_frame_def\<close>)
qed

lemma entered_mono:
  "entered E c ret s \<Longrightarrow> ret = ret' \<Longrightarrow> entered E c ret' s"
  by simp

lemma step_call:
  assumes "at c (c_lo c + argc) s"
  shows "ends c (op_call E func argc s) (\<lambda>_. entered E c (c_lo c))"
  using assms ends_enter [OF assms, of "c_lo c" "c_lo c" E func]
  by (simp add: op_call_def at_height)

lemma at_insert:
  assumes "at c n s" and "c_lo c \<le> k" and "k \<le> n"
  shows "at c (Suc n) (s\<lparr>vm_stack := take k (vm_stack s) @ [v] @ drop k (vm_stack s)\<rparr>)"
  using assms by (simp add: at_def min_def)

lemma ends_method_arity [wp]: "(\<And>k. Q k s) \<Longrightarrow> ends c (method_arity fn s) Q"
  by (simp add: method_arity_def)

lemma step_call_value:
  fixes s :: "'a vm"
  assumes run: "quiet_run W run" and quiet: "quiet_env E" and s: "at c (c_lo c + argc + 1) s"
    and W: "W (c_frames c) (c_lo c)"
  shows "ends c (call_value_op E run argc s) (\<lambda>_ s'. at c (c_lo c + 1) s' \<or> entered E c (c_lo c) s')"
proof -
  let ?Q = "\<lambda>_ s'. at c (c_lo c + 1) s' \<or> entered E c (c_lo c) s'"
  have len: "length (vm_stack s) = c_lo c + argc + 1" using s by (rule at_height)
  then have ix: "length (vm_stack s) - argc - 1 = c_lo c" by simp
  have enter: "ends c (enter_function E func (c_lo c + 1) (c_lo c) s) ?Q" for func
    by (rule ends_weaken [OF ends_enter [OF s]]) simp_all
  have closure: "ends c (bind (enter_function E func (c_lo c + 1) (c_lo c) s)
      (\<lambda>_. write_captures E func caps)) ?Q" for func caps
  proof (rule ends_bind, rule ends_weaken [OF ends_enter [OF s]])
    fix x :: unit and s' assume "entered E c (c_lo c) s'"
    from ends_write_captures [OF this] show "ends c (write_captures E func caps s') ?Q"
      by (rule ends_weaken) simp
  qed simp_all
  have bound: "ends c (enter_function E func (c_lo c + 1) (c_lo c)
      (s\<lparr>vm_stack := take (c_lo c + 1) (vm_stack s) @ [v] @ drop (c_lo c + 1) (vm_stack s)\<rparr>)) ?Q" for func v
    by (rule ends_weaken [OF ends_enter [OF at_insert [OF s]]]) simp_all
  have builtin: "ends c (bind (pop_n argc s) (\<lambda>args s. bind (pop s) (\<lambda>_ s.
      bind (run (builtin_with_args E b (v # args)) s) (\<lambda>v s. push v s)))) ?Q" for b v
  proof (rule ends_bind, rule ends_pop_n [OF s])
    fix args and s' :: "'a vm" assume "at c (c_lo c + argc + 1 - argc) s'"
    then have "at c (Suc (c_lo c)) s'" by simp
    then show "ends c (bind (pop s') (\<lambda>_ s. bind (run (builtin_with_args E b (v # args)) s) (\<lambda>v s. push v s))) ?Q"
      using W by (auto intro!: wp ends_run [OF run] no_park_builtin quiet)
  qed simp
  show ?thesis
    unfolding call_value_op_def Let_def ix
    using len enter closure bound builtin s by (auto intro!: wp split: val.split)
qed


lemma at_update: "at c n s \<Longrightarrow> c_lo c \<le> k \<Longrightarrow> at c n (s\<lparr>vm_stack := (vm_stack s)[k := v]\<rparr>)"
  by (simp add: at_def)

lemma step_call_method_dyn:
  fixes s :: "'a vm"
  assumes run: "quiet_run W run" and quiet: "quiet_env E" and s: "at c (c_lo c + argc) s" and argc: "0 < argc"
    and W: "W (c_frames c) (c_lo c)"
  shows "ends c (op_call_method_dyn E run name argc s) (\<lambda>_ s'. at c (c_lo c + 1) s' \<or> entered E c (c_lo c) s')"
proof -
  define Q :: "unit \<Rightarrow> 'a vm \<Rightarrow> bool" where "Q = (\<lambda>_ s'. at c (c_lo c + 1) s' \<or> entered E c (c_lo c) s')"
  have len: "length (vm_stack s) = c_lo c + argc" using s by (rule at_height)
  then have base: "length (vm_stack s) - argc = c_lo c" by simp
  have meth: "ends c (bind (pop_n argc s) (\<lambda>args s.
      bind (run (e_method E nm (hd args) (tl args)) s) (\<lambda>v s. push v s))) Q" for nm
  proof (rule ends_bind, rule ends_pop_n [OF s])
    fix args and s' :: "'a vm" assume "at c (c_lo c + argc - argc) s'"
    then have "at c (c_lo c) s'" by simp
    then show "ends c (bind (run (e_method E nm (hd args) (tl args)) s') (\<lambda>v s. push v s)) Q"
      using W quiet by (auto intro!: wp ends_run [OF run] simp: quiet_env_def Q_def)
  qed simp
  have enter: "ends c (enter_function E func (c_lo c) (c_lo c) s) Q" for func
    by (rule ends_weaken [OF ends_enter [OF s]]) (simp_all add: Q_def)
  have field: "ends c (call_value_op E run k (s\<lparr>vm_stack := (vm_stack s)[c_lo c := v]\<rparr>)) Q"
    if "k = argc - 1" for k v
    unfolding Q_def
  proof (rule step_call_value [OF run quiet])
    show "at c (c_lo c + k + 1) (s\<lparr>vm_stack := (vm_stack s)[c_lo c := v]\<rparr>)"
      using at_update [OF s, of "c_lo c" v] argc that by simp
  qed (fact W)
  have rendered: "ends c (bind (pop s) (\<lambda>recv s. bind (run (display_value E recv) s) (\<lambda>v s. push v s))) Q"
    if "argc = 1"
  proof (rule ends_bind, rule ends_pop [OF s])
    fix v and s' :: "'a vm" assume "at c (c_lo c + argc - 1) s'"
    then have "at c (c_lo c) s'" using that by simp
    then show "ends c (bind (run (display_value E v) s') (\<lambda>v s. push v s)) Q"
      using W by (auto intro!: wp ends_run [OF run] no_park_display simp: Q_def)
  qed (use that in simp)
  have unknown: "ends c (fatal m (truncate_stack (c_lo c) s)) Q" for m
    by (rule ends_fatal [OF at_take [OF s]]) simp_all
  have on_struct: "ends c (bind (struct_view E r s) (\<lambda>view s.
      case find_method E nm (st_methods (fst view)) of
        None \<Rightarrow> Crash BadIndex
      | Some (Some func) \<Rightarrow> enter_function E func (c_lo c) (c_lo c) s
      | Some None \<Rightarrow>
          (case find_pos (\<lambda>field. field = nm) (st_fields (fst view)) of
             Some ix \<Rightarrow>
               bind (field_at (snd view) ix s) (\<lambda>field s.
                 call_value_op E run (argc - 1) (s\<lparr>vm_stack := (vm_stack s)[c_lo c := field]\<rparr>))
           | None \<Rightarrow>
               if nm = ''toString'' \<and> argc = 1 then
                 bind (pop s) (\<lambda>recv s. bind (run (display_value E recv) s) (\<lambda>v s. push v s))
               else fatal (unknown_member nm) (truncate_stack (c_lo c) s)))) Q" for r nm
    by (intro ends_bind ends_struct_view)
      (auto split: option.split intro!: ends_bind ends_field_at enter field rendered unknown)
  have dyn: "ends c (call_method_dyn E run nm argc s) Q" for nm
    unfolding call_method_dyn_def Let_def base
    using len argc meth on_struct by (auto split: val.split)
  show ?thesis
    unfolding op_call_method_dyn_def Q_def [symmetric] by (intro ends_bind ends_const_str dyn)
qed

section \<open>Every instruction keeps the discipline\<close>

text \<open>The ways an instruction of the frame \<open>f\<close> above \<open>fs\<close> ends normally: in the same frame, in
  a frame it entered, or by returning.\<close>

definition stays :: "'w env \<Rightarrow> (func_id \<Rightarrow> assignment) \<Rightarrow> frame \<Rightarrow> frame list \<Rightarrow> val list \<Rightarrow> 'w vm \<Rightarrow> bool" where
  "stays E Ds f fs st s \<longleftrightarrow>
     (\<exists>us g. vm_frames s = us @ g # fs \<and> fr_base g = fr_base f \<and> fr_ret g = fr_ret f \<and>
        active E Ds (vm_frames s) (length (vm_stack s)) \<and>
        take (fr_base f) (vm_stack s) = take (fr_base f) st)"

definition leaves :: "frame \<Rightarrow> frame list \<Rightarrow> val list \<Rightarrow> 'w vm \<Rightarrow> bool" where
  "leaves f fs st s \<longleftrightarrow> vm_frames s = fs \<and> (\<exists>v. vm_stack s = take (fr_ret f) st @ [v])"

lemma step_ret:
  assumes "at c (Suc n) s" and "c_lo c \<le> n" and "c_frames c = f # fs" and "fr_ret f \<le> length (c_low c)"
  shows "ends c (op_ret s) (\<lambda>_. leaves f fs (vm_stack s))"
proof -
  from assms have len: "length (vm_stack s) = Suc n" "fr_ret f \<le> n" "vm_frames s = f # fs" "vm_stack s \<noteq> []"
    by (auto simp: at_def)
  then have "take (fr_ret f) (butlast (vm_stack s)) = take (fr_ret f) (vm_stack s)"
    by (simp add: take_butlast)
  with len show ?thesis
    by (simp add: op_ret_def pop_def push_def truncate_stack_def leaves_def)
qed


text \<open>The state in which an instruction is executed: \<open>f\<close> is its frame with the index already
  advanced, \<open>d\<close> the assigned depth.\<close>

definition at_op :: "'w env \<Rightarrow> (func_id \<Rightarrow> assignment) \<Rightarrow> frame \<Rightarrow> frame list \<Rightarrow> function_entry \<Rightarrow> nat \<Rightarrow> 'w vm \<Rightarrow> bool" where
  "at_op E Ds f fs fn d s \<longleftrightarrow>
     fn_at E (fr_func f) = Some fn \<and> 0 < fr_ip f \<and> Ds (fr_func f) (fr_ip f - 1) = Some d \<and>
     vm_frames s = f # fs \<and> length (vm_stack s) = fr_base f + locals fn + d \<and>
     fr_ret f \<le> fr_base f \<and> chain E Ds fs (fr_ret f)"

definition op_of :: "function_entry \<Rightarrow> frame \<Rightarrow> op" where
  "op_of fn f = code (fn_chunk fn) ! (fr_ip f - 1)"

definition op_ctx :: "'w env \<Rightarrow> frame \<Rightarrow> frame list \<Rightarrow> function_entry \<Rightarrow> nat \<Rightarrow> 'w vm \<Rightarrow> ctx" where
  "op_ctx E f fs fn d s =
     \<lparr>c_frames = f # fs, c_low = take (fr_base f) (vm_stack s),
      c_lo = fr_base f + locals fn + d - needs (structs_of E) (op_of fn f)\<rparr>"

definition site :: "'w env \<Rightarrow> (func_id \<Rightarrow> assignment) \<Rightarrow> frame \<Rightarrow> frame list \<Rightarrow> function_entry \<Rightarrow> nat \<Rightarrow> 'w vm \<Rightarrow> ctx \<Rightarrow> bool" where
  "site E Ds f fs fn d s c \<longleftrightarrow> module_verified E Ds \<and> at_op E Ds f fs fn d s \<and> c = op_ctx E f fs fn d s"


lemma op_verified: "site E Ds f fs fn d s c \<Longrightarrow> verified (structs_of E) fn (Ds (fr_func f))"
  by (auto simp: site_def module_verified_def at_op_def)

lemma op_needs: "site E Ds f fs fn d s c \<Longrightarrow> needs (structs_of E) (op_of fn f) \<le> d"
  using op_verified [of E Ds f fs fn d s c] by (auto simp: site_def verified_def at_op_def op_of_def)

lemma op_at: "site E Ds f fs fn d s c \<Longrightarrow> at c (c_lo c + needs (structs_of E) (op_of fn f)) s"
  using op_needs [of E Ds f fs fn d s c] by (simp add: site_def op_ctx_def at_def at_op_def)

lemma ctx_simps:
  assumes "site E Ds f fs fn d s c"
  shows "c_frames c = f # fs" and "length (c_low c) = fr_base f"
    and "c_lo c + needs (structs_of E) (op_of fn f) = fr_base f + locals fn + d"
  using op_needs [OF assms] assms by (auto simp: site_def op_ctx_def at_op_def)

lemma op_transition:
  assumes site: "site E Ds f fs fn d s c"
  obtains fall branch where "transition (op_of fn f) (structs_of E) = Some (fall, branch)"
    and "\<And>df. fall = Some df \<Longrightarrow> fits (Ds (fr_func f)) (fr_ip f) d df"
    and "\<And>t db. branch = Some (t, db) \<Longrightarrow> fits (Ds (fr_func f)) t d db"
proof -
  have ix: "fr_ip f - 1 + 1 = fr_ip f" "Ds (fr_func f) (fr_ip f - 1) = Some d"
    using site by (auto simp: site_def at_op_def)
  with op_verified [OF site] have "stable_at (code (fn_chunk fn)) (structs_of E) (Ds (fr_func f)) (fr_ip f - 1) d"
    by (auto simp: verified_def stable_def)
  with that ix show ?thesis
    by (auto simp: stable_at_def op_of_def split: option.splits)
qed

lemma stays_here:
  assumes site: "site E Ds f fs fn d s c" and "at c n s'" and "Ds (fr_func f) (fr_ip f) = Some d'" and "n = fr_base f + locals fn + d'"
  shows "stays E Ds f fs (vm_stack s) s'"
  using assms
  by (auto simp: site_def stays_def at_def op_ctx_def at_op_def running_def intro!: exI [of _ "[]"])

lemma stays_moved:
  assumes site: "site E Ds f fs fn d s c" and "at (moved c t) n s'" and "Ds (fr_func f) t = Some d'" and "n = fr_base f + locals fn + d'"
  shows "stays E Ds f fs (vm_stack s) s'"
  using assms
  by (auto simp: site_def stays_def at_def op_ctx_def at_op_def running_def moved_def intro!: exI [of _ "[]"])

lemma waits_below:
  assumes site: "site E Ds f fs fn d s c" and "Ds (fr_func f) (fr_ip f) = Some d'" and "c_lo c + 1 = fr_base f + locals fn + d'"
  shows "chain E Ds (f # fs) (c_lo c)"
proof -
  have "fr_base f + locals fn \<le> c_lo c" using op_needs [OF site] site by (simp add: site_def op_ctx_def)
  with assms ctx_simps(3) [OF site] show ?thesis
    by (auto simp: site_def waiting_def faulted_def running_def at_op_def op_of_def)
qed

lemma stays_entered:
  assumes site: "site E Ds f fs fn d s c" and "entered E c (c_lo c) s'" and "chain E Ds (f # fs) (c_lo c)"
  shows "stays E Ds f fs (vm_stack s) s'"
proof -
  from assms(2) obtain g gn where g: "vm_frames s' = g # f # fs" "fn_at E (fr_func g) = Some gn" "fr_ip g = 0"
    "fr_ret g = c_lo c" "c_lo c \<le> fr_base g" "length (vm_stack s') = fr_base g + locals gn"
    "take (fr_base f) (vm_stack s') = take (fr_base f) (vm_stack s)"
    using site by (auto simp: entered_def ctx_simps [OF site]) (simp add: site_def op_ctx_def)
  from site g(2) have "Ds (fr_func g) 0 = Some 0" by (auto simp: site_def module_verified_def verified_def)
  with g have "running E Ds g (length (vm_stack s'))" by (auto simp: running_def)
  with g assms(3) show ?thesis
    by (auto simp: stays_def intro!: exI [of _ "[g]"])
qed

lemma op_falls:
  assumes site: "site E Ds f fs fn d s c" and net: "net_effect (op_of fn f) (structs_of E) = Some e"
    and straight: "transition (op_of fn f) (structs_of E) = Some (Some e, None)"
  shows "Ds (fr_func f) (fr_ip f) = Some (d - needs (structs_of E) (op_of fn f) + pushes (op_of fn f))"
    and "c_lo c + pushes (op_of fn f) =
      fr_base f + locals fn + (d - needs (structs_of E) (op_of fn f) + pushes (op_of fn f))"
proof -
  have dyn: "\<forall>name. op_of fn f \<noteq> CallMethodDyn name 0"
    using op_verified [OF site] site by (auto simp: site_def verified_def at_op_def op_of_def)
  have "small_structs (structs_of E)" using site by (simp add: site_def module_verified_def)
  note e = net_effect_balance [OF net this dyn]
  have "fits (Ds (fr_func f)) (fr_ip f) d e"
    by (rule op_transition [OF site]) (use straight in auto)
  with e op_needs [OF site] show "Ds (fr_func f) (fr_ip f) =
      Some (d - needs (structs_of E) (op_of fn f) + pushes (op_of fn f))"
    by (auto simp: fits_def nat_int_add intro!: arg_cong [where f = nat])
  show "c_lo c + pushes (op_of fn f) =
      fr_base f + locals fn + (d - needs (structs_of E) (op_of fn f) + pushes (op_of fn f))"
    using op_needs [OF site] ctx_simps(3) [OF site] by simp
qed

lemma simple_straight:
  "simple_op op \<or> (\<exists>func argc. op = Call func argc) \<or> (\<exists>argc. op = CallValue argc) \<or>
     (\<exists>name argc. op = CallMethodDyn name argc) \<Longrightarrow>
   transition op structs = Some (fall, branch) \<Longrightarrow>
   \<exists>e. net_effect op structs = Some e \<and> fall = Some e \<and> branch = None"
proof -
  assume op: "simple_op op \<or> (\<exists>func argc. op = Call func argc) \<or> (\<exists>argc. op = CallValue argc) \<or>
     (\<exists>name argc. op = CallMethodDyn name argc)" and tr: "transition op structs = Some (fall, branch)"
  have eq: "transition op structs = (case net_effect op structs of None \<Rightarrow> None | Some e \<Rightarrow> Some (Some e, None))"
    using op by (cases op) (simp_all add: simple_op_def transition_def)
  show ?thesis
  proof (cases "net_effect op structs")
    case (Some e)
    with eq tr show ?thesis by simp
  qed (use eq tr in simp)
qed

lemma other_ops:
  "\<not> simple_op op \<Longrightarrow> (\<forall>func argc. op \<noteq> Call func argc) \<Longrightarrow> (\<forall>argc. op \<noteq> CallValue argc) \<Longrightarrow>
     (\<forall>name argc. op \<noteq> CallMethodDyn name argc) \<Longrightarrow> op \<notin> {Ret, Throw, Rethrow} \<Longrightarrow>
     \<exists>fall t db. transition op structs = Some (fall, Some (t, db))"
  by (cases op) (auto simp: simple_op_def transition_def)

lemma step_discipline:
  fixes s :: "'w vm"
  assumes site: "site E Ds f fs fn d s c" and run: "quiet_run (chain E Ds) run" and quiet: "quiet_env E"
  shows "ends c (step E run (op_of fn f) s)
    (\<lambda>_ s'. stays E Ds f fs (vm_stack s) s' \<or> leaves f fs (vm_stack s) s')"
    (is "ends c _ ?Q")
proof -
  let ?op = "op_of fn f" and ?S = "structs_of E"
  note s = op_at [OF site] and ctx = ctx_simps [OF site]
  obtain fall branch where tr: "transition ?op ?S = Some (fall, branch)"
    and falls: "\<And>df. fall = Some df \<Longrightarrow> fits (Ds (fr_func f)) (fr_ip f) d df"
    and branches: "\<And>t db. branch = Some (t, db) \<Longrightarrow> fits (Ds (fr_func f)) t d db"
    by (rule op_transition [OF site]) blast
  have at_slot: "slot_in c slot" if "slots_used ?op = Some slot" for slot
  proof -
    from that op_verified [OF site] site have "slot < locals fn"
      by (auto simp: verified_def op_of_def site_def at_op_def)
    moreover have "fr_base f + locals fn \<le> c_lo c" using op_needs [OF site] site by (simp add: site_def op_ctx_def)
    ultimately show ?thesis using ctx by (auto simp: slot_in_def)
  qed
  have below: "chain E Ds (c_frames c) (c_lo c)" if e: "net_effect ?op ?S = Some e" "fall = Some e" "branch = None"
    and p: "pushes ?op = 1" for e
    unfolding ctx using op_falls [OF site e(1)] tr e(2,3) p by (intro waits_below [OF site]) simp_all
  have entered: "?Q x s'" if "at c (c_lo c + 1) s' \<or> entered E c (c_lo c) s'"
    and e: "net_effect ?op ?S = Some e" "fall = Some e" "branch = None" and p: "pushes ?op = 1" for x s' e
    using that(1)
  proof
    assume "at c (c_lo c + 1) s'"
    from stays_here [OF site this] op_falls [OF site e(1)] tr e(2,3) p show ?thesis by simp
  next
    assume "entered E c (c_lo c) s'"
    from stays_entered [OF site this] below [OF e p] show ?thesis by (simp add: ctx)
  qed
  consider (simple) "simple_op ?op" | (call) func argc where "?op = Call func argc"
    | (call_value) argc where "?op = CallValue argc" | (dyn) name argc where "?op = CallMethodDyn name argc"
    | (ret) "?op = Ret" | (throw) "?op = Throw \<or> ?op = Rethrow"
    | (other) "\<not> simple_op ?op" "\<exists>fall t db. transition ?op ?S = Some (fall, Some (t, db))"
    using other_ops [of ?op ?S] by blast
  then show ?thesis
  proof cases
    case simple
    then obtain e where e: "net_effect ?op ?S = Some e" "fall = Some e" "branch = None"
      using simple_straight [OF _ tr] by blast
    have "effect c (step E run ?op s) (c_lo c + pushes ?op)"
      by (rule step_simple [OF run quiet s _ at_slot simple]) (use below [OF e] in simp_all)
    then show ?thesis
    proof (rule ends_weaken)
      fix x :: unit and s' :: "'w vm" assume "at c (c_lo c + pushes ?op) s'"
      from stays_here [OF site this] op_falls [OF site e(1)] tr e(2,3) show "?Q x s'" by simp
    qed
  next
    case call
    then obtain e where e: "net_effect ?op ?S = Some e" "fall = Some e" "branch = None"
      using simple_straight [OF _ tr] by blast
    have "ends c (op_call E func argc s) (\<lambda>_. entered E c (c_lo c))"
      by (rule step_call) (use s call in \<open>simp add: needs_def\<close>)
    then have "ends c (op_call E func argc s) ?Q"
      by (rule ends_weaken) (rule entered [OF _ e], use call in \<open>simp_all add: pushes_def\<close>)
    with call show ?thesis by (simp add: step_def)
  next
    case call_value
    then obtain e where e: "net_effect ?op ?S = Some e" "fall = Some e" "branch = None"
      using simple_straight [OF _ tr] by blast
    have p: "pushes ?op = 1" using call_value by (simp add: pushes_def)
    have "at c (c_lo c + argc + 1) s" using s call_value by (simp add: needs_def)
    from step_call_value [OF run quiet this below [OF e p]] have "ends c (call_value_op E run argc s) ?Q"
      by (rule ends_weaken) (rule entered [OF _ e p])
    with call_value show ?thesis by (simp add: step_def)
  next
    case dyn
    then obtain e where e: "net_effect ?op ?S = Some e" "fall = Some e" "branch = None"
      using simple_straight [OF _ tr] by blast
    have p: "pushes ?op = 1" using dyn by (simp add: pushes_def)
    have argc: "0 < argc"
      using op_verified [OF site] site dyn by (cases argc) (auto simp: verified_def op_of_def site_def at_op_def)
    then have "needs ?S ?op = argc" using dyn by (simp add: needs_def)
    with s have "at c (c_lo c + argc) s" by simp
    from step_call_method_dyn [OF run quiet this argc below [OF e p]]
    have "ends c (op_call_method_dyn E run name argc s) ?Q"
      by (rule ends_weaken) (rule entered [OF _ e p])
    with dyn show ?thesis by (simp add: step_def)
  next
    case ret
    have "ends c (op_ret s) (\<lambda>_. leaves f fs (vm_stack s))"
      by (rule step_ret [of c "c_lo c"]) (use s ret ctx site in \<open>simp_all add: needs_def site_def at_op_def\<close>)
    then show ?thesis using ret by (auto simp: step_def elim: ends_weaken)
  next
    case throw
    then have "at c (Suc (c_lo c)) s" using s by (auto simp: needs_def)
    with throw show ?thesis by (auto simp: step_def intro: effect_errors(1,2))
  next
    case other
    then obtain t db where b: "branch = Some (t, db)" using tr by auto
    have nonempty: "c_frames c \<noteq> []" by (simp add: ctx)
    have top: "c_lo c + needs ?S ?op = fr_base f + locals fn + d" by (rule ctx(3))
    from tr b have tr': "transition ?op ?S = Some (fall, Some (t, db))" by simp
    from step_forks [OF s nonempty tr' other(1), of run] show ?thesis
    proof (rule ends_weaken)
      fix x :: unit and s' :: "'w vm"
      assume "(\<exists>df. fall = Some df \<and> at c (nat (int (c_lo c + needs ?S ?op) + df)) s') \<or>
        at (moved c t) (nat (int (c_lo c + needs ?S ?op) + db)) s'"
      then show "?Q x s'"
      proof
        assume "\<exists>df. fall = Some df \<and> at c (nat (int (c_lo c + needs ?S ?op) + df)) s'"
        then obtain df where df: "fall = Some df" "at c (nat (int (c_lo c + needs ?S ?op) + df)) s'" by blast
        from falls [OF df(1)] stays_here [OF site df(2)] show ?thesis
          by (simp add: fits_def top nat_add_distrib add.assoc)
      next
        assume "at (moved c t) (nat (int (c_lo c + needs ?S ?op) + db)) s'"
        from branches [OF b] stays_moved [OF site this] show ?thesis
          by (simp add: fits_def top nat_add_distrib add.assoc)
      qed
    qed
  qed
qed

end
