(* ===== verification/Vm_Contract.thy ===== *)
theory Vm_Contract
  imports Vm_Safety
begin

text \<open>
  The dispatch loop keeps the stack discipline: unwinding finds the recorded depths, a bounded
  loop returns exactly one result above its caller's stack or raises with that stack intact,
  and so does every call from native code. The root theorem is about whole runs.
\<close>

section \<open>Bounded loops\<close>

text \<open>The loop of a frame whose callers are \<open>gs\<close> and whose caller's stack is \<open>low\<close>.\<close>

definition bounded_run :: "'w env \<Rightarrow> (func_id \<Rightarrow> assignment) \<Rightarrow> frame list \<Rightarrow> val list \<Rightarrow> 'w vm \<Rightarrow> bool" where
  "bounded_run E Ds gs low s \<longleftrightarrow>
     (\<exists>us b. vm_frames s = us @ b # gs \<and> fr_ret b = length low \<and>
        active E Ds (vm_frames s) (length (vm_stack s)) \<and> take (length low) (vm_stack s) = low)"

definition run_result :: "frame list \<Rightarrow> val list \<Rightarrow> (unit, 'w vm) outcome \<Rightarrow> bool" where
  "run_result gs low r =
     (case r of
        Returns _ s \<Rightarrow> vm_frames s = gs \<and> (\<exists>v. vm_stack s = low @ [v])
      | Raises sig s \<Rightarrow> sig \<noteq> SPark \<and> vm_frames s = gs \<and> vm_stack s = low
      | Crash k \<Rightarrow> soft k
      | OutOfFuel \<Rightarrow> True)"

definition unwind_result ::
    "'w env \<Rightarrow> (func_id \<Rightarrow> assignment) \<Rightarrow> frame list \<Rightarrow> val list \<Rightarrow> signal \<Rightarrow> (unit, 'w vm) outcome \<Rightarrow> bool" where
  "unwind_result E Ds gs low sig r =
     (case r of
        Returns _ s \<Rightarrow> bounded_run E Ds gs low s
      | Raises sig' s \<Rightarrow> sig' = sig \<and> vm_frames s = gs \<and> vm_stack s = low
      | Crash k \<Rightarrow> soft k
      | OutOfFuel \<Rightarrow> True)"

lemma handler_entry:
  assumes m: "module_verified E Ds" and f: "faulted E Ds f (length (vm_stack s))"
    and rest: "chain E Ds fs (fr_ret f)" and fn: "fn_at E (fr_func f) = Some fn"
    and h: "handler_for (fn_chunk fn) (fr_ip f - 1) = Some h" and frames: "f # fs = us @ b # gs"
    and b: "fr_ret b \<le> fr_base f"
  shows "unwind_result E Ds gs (take (fr_ret b) (vm_stack s)) sig (enter_handler f fs (fr_base f + locals fn) h sig s)"
proof (cases "caught_value (st_next (vm_store s)) sig")
  case (Some v)
  let ?floor = "fr_base f + locals fn" and ?D = "Ds (fr_func f)"
  from f fn obtain d where d: "?D (fr_ip f - 1) = Some d" "fr_ret f \<le> fr_base f"
    "?floor + d \<le> length (vm_stack s) + needs (structs_of E) (code (fn_chunk fn) ! (fr_ip f - 1))"
    by (auto simp: faulted_def)
  from m fn have "verified (structs_of E) fn ?D" by (simp add: module_verified_def)
  with d(1) h have target: "?D (h_target h) = Some (h_depth h + 1)"
    "h_depth h + needs (structs_of E) (code (fn_chunk fn) ! (fr_ip f - 1)) \<le> d"
    by (auto simp: verified_def)
  with d(3) have len: "?floor + h_depth h \<le> length (vm_stack s)" by simp
  define f' where "f' = f\<lparr>fr_ip := h_target h\<rparr>"
  define st where "st = take (?floor + h_depth h) (vm_stack s) @ [v]"
  obtain us' b' where b': "f' # fs = us' @ b' # gs" "fr_ret b' = fr_ret b"
  proof (cases us)
    case Nil
    with frames show ?thesis by (intro that [of "[]" f']) (auto simp: f'_def)
  next
    case (Cons u us'')
    with frames show ?thesis by (intro that [of "f' # us''" b]) (auto simp: f'_def)
  qed
  have "active E Ds (f' # fs) (length st)"
    using target(1) fn rest d(2) len by (auto simp: running_def f'_def st_def min_def)
  moreover have "take (fr_ret b) st = take (fr_ret b) (vm_stack s)"
    using b len by (simp add: st_def min_def)
  moreover have "length (take (fr_ret b) (vm_stack s)) = fr_ret b"
    using b len by simp
  ultimately show ?thesis
    using Some b' unfolding unwind_result_def bounded_run_def enter_handler_def
    by (auto simp: fresh_def truncate_stack_def push_def f'_def [symmetric] st_def [symmetric])
qed (auto simp: enter_handler_def fresh_def truncate_stack_def unwind_result_def)

lemma unwind_step:
  assumes "fn_at E (fr_func f) = Some fn" and "0 < fr_ip f" and "min_frames \<le> length (f # fs)"
    and "(if catchable sig then handler_for (fn_chunk fn) (fr_ip f - 1) else None) = found"
  shows "unwind E sig min_frames (f # fs) s =
    (case found of
       Some h \<Rightarrow> enter_handler f fs (fr_base f + locals fn) h sig s
     | None \<Rightarrow> unwind E sig min_frames fs (truncate_stack (fr_ret f) s))"
  using assms by auto

lemma unwind_ok:
  assumes m: "module_verified E Ds"
  shows "faulted E Ds f (length (vm_stack s)) \<Longrightarrow> chain E Ds fs (fr_ret f) \<Longrightarrow> f # fs = us @ b # gs \<Longrightarrow>
    unwind_result E Ds gs (take (fr_ret b) (vm_stack s)) sig (unwind E sig (Suc (length gs)) (f # fs) s)"
proof (induction us arbitrary: f fs s)
  case Nil
  then have eq: "f = b" "fs = gs" by auto
  from Nil.prems(1) obtain fn where fn: "fn_at E (fr_func f) = Some fn" "0 < fr_ip f" "fr_ret f \<le> fr_base f"
    by (auto simp: faulted_def)
  have below: "unwind E sig (Suc (length gs)) gs t = Raises sig (t\<lparr>vm_frames := gs\<rparr>)" for t
    by (cases gs) simp_all
  show ?case
  proof (cases "if catchable sig then handler_for (fn_chunk fn) (fr_ip f - 1) else None")
    case None
    from unwind_step [OF fn(1,2) _ this] eq below show ?thesis
      by (simp add: unwind_result_def truncate_stack_def del: unwind.simps)
  next
    case (Some h)
    then have "handler_for (fn_chunk fn) (fr_ip f - 1) = Some h" by (simp split: if_splits)
    from handler_entry [OF m Nil.prems(1,2) fn(1) this Nil.prems(3)] unwind_step [OF fn(1,2) _ Some] fn(3) eq
    show ?thesis by (simp del: unwind.simps)
  qed
next
  case (Cons u us)
  then have eq: "u = f" "fs = us @ b # gs" by auto
  from Cons.prems(1) obtain fn where fn: "fn_at E (fr_func f) = Some fn" "0 < fr_ip f" "fr_ret f \<le> fr_base f"
    "fr_ret f \<le> length (vm_stack s)"
    by (auto simp: faulted_def)
  have b: "fr_ret b \<le> fr_ret f" using Cons.prems(2) unfolding eq by (rule chain_low)
  show ?case
  proof (cases "if catchable sig then handler_for (fn_chunk fn) (fr_ip f - 1) else None")
    case None
    have "fs \<noteq> []" using eq by simp
    then obtain g gs' where g: "fs = g # gs'" by (cases fs) simp_all
    with Cons.prems(2) have w: "waiting E Ds g (fr_ret f)" "chain E Ds gs' (fr_ret g)" by auto
    let ?t = "truncate_stack (fr_ret f) s"
    have len: "length (vm_stack ?t) = fr_ret f" using fn(4) by (simp add: truncate_stack_def)
    have "faulted E Ds g (length (vm_stack ?t))" using w(1) by (simp add: len waiting_def)
    from Cons.IH [OF this w(2)] eq g
    have "unwind_result E Ds gs (take (fr_ret b) (vm_stack ?t)) sig (unwind E sig (Suc (length gs)) fs ?t)"
      by simp
    moreover have "take (fr_ret b) (vm_stack ?t) = take (fr_ret b) (vm_stack s)"
      using b by (simp add: truncate_stack_def min_def)
    ultimately show ?thesis using unwind_step [OF fn(1,2) _ None] eq by (simp del: unwind.simps)
  next
    case (Some h)
    then have "handler_for (fn_chunk fn) (fr_ip f - 1) = Some h" by (simp split: if_splits)
    from handler_entry [OF m Cons.prems(1,2) fn(1) this Cons.prems(3)] unwind_step [OF fn(1,2) _ Some] b fn(3) eq
    show ?thesis by (simp del: unwind.simps)
  qed
qed


section \<open>Calls from native code\<close>

definition keeps_stack :: "'w env \<Rightarrow> (func_id \<Rightarrow> assignment) \<Rightarrow> ('w vm \<Rightarrow> ('a, 'w vm) outcome) \<Rightarrow> bool" where
  "keeps_stack E Ds F \<longleftrightarrow>
     (\<forall>s. chain E Ds (vm_frames s) (length (vm_stack s)) \<longrightarrow> preserves s (F s))"

definition loop_ok :: "'w env \<Rightarrow> (func_id \<Rightarrow> assignment) \<Rightarrow> (nat \<Rightarrow> 'w vm \<Rightarrow> (unit, 'w vm) outcome) \<Rightarrow> bool" where
  "loop_ok E Ds exec \<longleftrightarrow>
     (\<forall>s gs low. bounded_run E Ds gs low s \<longrightarrow> run_result gs low (exec (Suc (length gs)) s))"

lemma preserves_same:
  "vm_frames s' = vm_frames s \<Longrightarrow> vm_stack s' = vm_stack s \<Longrightarrow> preserves s' r = preserves s r"
  by (cases r) (simp_all add: preserves_def)

lemma preserves_unfold [simp]:
  "preserves s (Returns x s') = (vm_frames s' = vm_frames s \<and> vm_stack s' = vm_stack s)"
  "preserves s (Raises sig s') = (sig \<noteq> SPark \<and> vm_frames s' = vm_frames s \<and> vm_stack s' = vm_stack s)"
  "preserves s (Crash k) = soft k" "preserves s OutOfFuel"
  by (simp_all add: preserves_def)

lemma preserves_store [simp]: "preserves (s\<lparr>vm_store := st\<rparr>) r = preserves s r"
  by (rule preserves_same) simp_all

lemma keeps_stack_store:
  assumes "keeps_stack E Ds F" and "chain E Ds (vm_frames s) (length (vm_stack s))"
  shows "preserves s (F (s\<lparr>vm_store := st\<rparr>))"
proof -
  have "preserves (s\<lparr>vm_store := st\<rparr>) (F (s\<lparr>vm_store := st\<rparr>))"
    using assms unfolding keeps_stack_def by (metis vm.select_convs(2,3) vm.update_convs(5) vm.surjective)
  then show ?thesis by simp
qed

lemma write_captures_returns: "write_captures E func caps s \<noteq> Raises sig s'"
  by (cases "vm_frames s"; cases "fn_at E func") (simp_all add: write_captures_def top_frame_def Let_def)

lemma run_prog_keeps:
  assumes "\<And>callee args. keeps_stack E Ds (cv callee args)" and "\<And>func args. keeps_stack E Ds (cf func args)"
    and "no_park p"
  shows "keeps_stack E Ds (run_prog cv cf p)"
  using assms(3)
proof (induction p)
  case (PCall callee args k)
  show ?case
    unfolding keeps_stack_def
  proof (intro allI impI)
    fix s :: "'a vm" assume c: "chain E Ds (vm_frames s) (length (vm_stack s))"
    then have p: "preserves s (cv callee args s)" using assms(1) by (simp add: keeps_stack_def)
    have go: "preserves s (run_prog cv cf (k r) s')"
      if "r \<noteq> Inl SPark" "vm_frames s' = vm_frames s" "vm_stack s' = vm_stack s" for r s'
    proof -
      have "keeps_stack E Ds (run_prog cv cf (k r))" using PCall.IH PCall.prems that(1) by auto
      then have "preserves s' (run_prog cv cf (k r) s')"
        unfolding keeps_stack_def using c that(2,3) by (metis (no_types))
      then show ?thesis by (simp only: preserves_same [OF that(2,3)])
    qed
    show "preserves s (run_prog cv cf (PCall callee args k) s)"
      using p go by (cases "cv callee args s") (auto simp: preserves_unfold)
  qed
next
  case (PFunc func args k)
  show ?case
    unfolding keeps_stack_def
  proof (intro allI impI)
    fix s :: "'a vm" assume c: "chain E Ds (vm_frames s) (length (vm_stack s))"
    then have p: "preserves s (cf func args s)" using assms(2) by (simp add: keeps_stack_def)
    have go: "preserves s (run_prog cv cf (k r) s')"
      if "r \<noteq> Inl SPark" "vm_frames s' = vm_frames s" "vm_stack s' = vm_stack s" for r s'
    proof -
      have "keeps_stack E Ds (run_prog cv cf (k r))" using PFunc.IH PFunc.prems that(1) by auto
      then have "preserves s' (run_prog cv cf (k r) s')"
        unfolding keeps_stack_def using c that(2,3) by (metis (no_types))
      then show ?thesis by (simp only: preserves_same [OF that(2,3)])
    qed
    show "preserves s (run_prog cv cf (PFunc func args k) s)"
      using p go by (cases "cf func args s") (auto simp: preserves_unfold)
  qed
next
  case (PWrite f p)
  then have "keeps_stack E Ds (run_prog cv cf p)" by simp
  then show ?case
    unfolding keeps_stack_def [of _ _ "run_prog cv cf (PWrite f p)"] by (auto intro: keeps_stack_store)
qed (auto simp: keeps_stack_def)

lemma entered_bounded:
  assumes "module_verified E Ds" and "entered E c (length (c_low c)) s"
    and "chain E Ds (c_frames c) (length (c_low c))"
  shows "bounded_run E Ds (c_frames c) (c_low c) s"
proof -
  from assms(2) obtain g fn where g: "vm_frames s = g # c_frames c" "fn_at E (fr_func g) = Some fn" "fr_ip g = 0"
    "fr_ret g = length (c_low c)" "length (c_low c) \<le> fr_base g" "length (vm_stack s) = fr_base g + locals fn"
    "take (length (c_low c)) (vm_stack s) = c_low c"
    by (auto simp: entered_def)
  from assms(1) g(2) have "Ds (fr_func g) 0 = Some 0" by (auto simp: module_verified_def verified_def)
  with g assms(3) show ?thesis
    by (auto simp: bounded_run_def running_def intro!: exI [of _ "[]"])
qed

lemma call_frames_keeps:
  assumes m: "module_verified E Ds" and exec: "loop_ok E Ds exec"
  shows "keeps_stack E Ds (call_frames E exec func closure args)"
  unfolding keeps_stack_def
proof (intro allI impI)
  fix s :: "'a vm" assume c: "chain E Ds (vm_frames s) (length (vm_stack s))"
  define ctx where "ctx = \<lparr>c_frames = vm_frames s, c_low = vm_stack s, c_lo = length (vm_stack s)\<rparr>"
  let ?s = "s\<lparr>vm_stack := vm_stack s @ args\<rparr>" and ?ret = "length (vm_stack s)"
  have "at ctx (?ret + length args) ?s" by (simp add: at_def ctx_def)
  from ends_enter [OF this, of ?ret ?ret E func]
  have enter: "ends ctx (enter_function E func ?ret ?ret ?s) (\<lambda>_. entered E ctx ?ret)"
    by (simp add: ctx_def)
  have prep: "ends ctx (call_prep E func closure args s) (\<lambda>_. entered E ctx ?ret) \<and>
    (\<forall>sig s'. call_prep E func closure args s = Raises sig s' \<longrightarrow> vm_stack s' = vm_stack s)"
  proof (cases "enter_function E func ?ret ?ret ?s")
    case (Returns x s')
    with enter have e: "entered E ctx ?ret s'" by simp
    with Returns ends_write_captures [OF e, of func] show ?thesis
      by (cases closure) (simp_all add: call_prep_def write_captures_returns)
  next
    case (Raises sig s')
    with enter show ?thesis by (auto simp: call_prep_def truncate_stack_def at_def ctx_def min_def)
  qed (use enter in \<open>simp_all add: call_prep_def\<close>)
  show "preserves s (call_frames E exec func closure args s)"
  proof (cases "call_prep E func closure args s")
    case (Returns x s1)
    with prep have "entered E ctx (length (c_low ctx)) s1" by (simp add: ctx_def)
    from entered_bounded [OF m this] c have b: "bounded_run E Ds (vm_frames s) (vm_stack s) s1"
      by (simp add: ctx_def)
    let ?s2 = "s1\<lparr>vm_reentry := vm_reentry s1 + 1\<rparr>"
    have b2: "bounded_run E Ds (vm_frames s) (vm_stack s) ?s2" using b by (simp add: bounded_run_def)
    from prep Returns have frames: "length (vm_frames s1) = Suc (length (vm_frames s))"
      by (auto simp: entered_def ctx_def)
    from exec b2 have "run_result (vm_frames s) (vm_stack s) (exec (Suc (length (vm_frames s))) ?s2)"
      by (simp add: loop_ok_def)
    with Returns frames show ?thesis
      by (cases "exec (Suc (length (vm_frames s))) ?s2")
        (auto simp: call_frames_def run_result_def preserves_def leave_nested_def pop_def)
  qed (use prep in \<open>auto simp: call_frames_def preserves_def at_def ctx_def\<close>)
qed

lemma preserves_bind_demand:
  "soft k \<Longrightarrow> (\<And>y. x = Some y \<Longrightarrow> preserves s (f y s)) \<Longrightarrow> preserves s (bind (demand k x s) f)"
  by (cases x) (simp_all add: preserves_def)

lemma preserves_fatal: "preserves s (fatal m s)"
  by (simp add: fatal_def preserves_def)

lemma rooted_call_keeps:
  "keeps_stack E Ds F \<Longrightarrow> keeps_stack E Ds (rooted_call vs F)" for F :: "'a vm \<Rightarrow> ('b, 'a vm) outcome"
proof -
  assume F: "keeps_stack E Ds F"
  show ?thesis
    unfolding keeps_stack_def
  proof (intro allI impI)
    fix s :: "'a vm" assume c: "chain E Ds (vm_frames s) (length (vm_stack s))"
    let ?s = "s\<lparr>vm_store := set_roots (\<lambda>rs. rs @ vs) s\<rparr>"
    have "preserves s (F ?s)" by (rule keeps_stack_store [OF F c])
    then show "preserves s (rooted_call vs F s)"
      by (cases "F ?s") (simp_all add: rooted_call_def Let_def)
  qed
qed

lemma call_value_native_keeps:
  assumes m: "module_verified E Ds" and quiet: "quiet_env E" and exec: "loop_ok E Ds exec"
    and run: "\<And>p. no_park p \<Longrightarrow> keeps_stack E Ds (run p)"
  shows "keeps_stack E Ds (call_value_native E exec run callee args)"
  unfolding keeps_stack_def
proof (intro allI impI)
  fix s :: "'a vm" assume c: "chain E Ds (vm_frames s) (length (vm_stack s))"
  have frames: "preserves s (call_frames E exec func closure args' s)" for func closure args'
    using call_frames_keeps [OF m exec] c by (simp add: keeps_stack_def)
  have rooted: "preserves s (rooted_call vs (call_frames E exec func closure args') s)" for vs func closure args'
    using rooted_call_keeps [OF call_frames_keeps [OF m exec]] c by (simp add: keeps_stack_def)
  have builtin: "preserves s (run (builtin_with_args E b args') s)" for b args'
    using run [OF no_park_builtin [OF quiet]] c by (simp add: keeps_stack_def)
  have arity: "preserves s (bind (method_arity fn s) g)" if "\<And>k. preserves s (g k s)" for fn g
    using that by (simp add: method_arity_def preserves_def)
  show "preserves s (call_value_native E exec run callee args s)"
    unfolding call_value_native_def
    by (cases callee) (auto intro!: preserves_bind_demand preserves_fatal frames rooted builtin arity)
qed


section \<open>The dispatch loop\<close>

lemma active_boundary:
  assumes "active E Ds (f # fs) h" and "f # fs = us @ b # gs"
  shows "fr_ret b \<le> fr_base f" and "us \<noteq> [] \<Longrightarrow> fr_ret b \<le> fr_ret f" and "fr_ret f \<le> h"
proof -
  have f: "fr_ret f \<le> fr_base f" "fr_base f \<le> h" using assms(1) by (auto simp: running_def)
  then show "fr_ret f \<le> h" by simp
  show below: "us \<noteq> [] \<Longrightarrow> fr_ret b \<le> fr_ret f"
    using assms by (cases us) (auto dest: chain_low)
  show "fr_ret b \<le> fr_base f"
  proof (cases "us = []")
    case False
    with below f show ?thesis by simp
  qed (use assms f in simp)
qed

lemma stays_bounded:
  assumes "stays E Ds f fs st s'" and "f # fs = us @ b # gs" and "fr_ret b = length low"
    and "fr_ret b \<le> fr_base f" and "take (length low) st = low"
  shows "bounded_run E Ds gs low s'"
proof -
  from assms(1) obtain vs g where g: "vm_frames s' = vs @ g # fs" "fr_ret g = fr_ret f"
    "active E Ds (vm_frames s') (length (vm_stack s'))" "take (fr_base f) (vm_stack s') = take (fr_base f) st"
    by (auto simp: stays_def)
  have "take (length low) (vm_stack s') = take (length low) (take (fr_base f) (vm_stack s'))"
    using assms(3,4) by (simp add: min_def)
  also have "\<dots> = low" using assms(3-5) by (simp add: g(4) min_def)
  finally have low: "take (length low) (vm_stack s') = low" .
  show ?thesis
  proof (cases us)
    case Nil
    with assms(2,3) g low show ?thesis unfolding bounded_run_def by (intro exI [of _ vs] exI [of _ g]) auto
  next
    case (Cons u us')
    with assms(2,3) g low show ?thesis
      unfolding bounded_run_def by (intro exI [of _ "vs @ g # us'"] exI [of _ b]) auto
  qed
qed

lemma leaves_bounded:
  assumes "leaves f fs st s'" and "f # fs = us @ b # gs" and "us \<noteq> []" and "fr_ret b = length low"
    and "fr_ret b \<le> fr_ret f" and "take (length low) st = low" and "fr_ret f \<le> length st"
    and "chain E Ds fs (fr_ret f)"
  shows "bounded_run E Ds gs low s'"
proof -
  from assms(2,3) obtain us' where fs: "fs = us' @ b # gs" by (cases us) auto
  then have "fs \<noteq> []" by simp
  then obtain g gs' where g: "fs = g # gs'" by (cases fs) simp_all
  from assms(1) obtain v where s': "vm_frames s' = fs" "vm_stack s' = take (fr_ret f) st @ [v]"
    by (auto simp: leaves_def)
  with assms(7,8) g have "active E Ds (vm_frames s') (length (vm_stack s'))"
    by (simp add: waiting_def min_def)
  moreover have "take (length low) (vm_stack s') = low"
    using assms(4-7) by (simp add: s' min_def)
  ultimately show ?thesis
    using s'(1) fs assms(4) unfolding bounded_run_def by auto
qed

lemma safepoint_cases:
  assumes "safepoint s = r"
  obtains "r = Crash BadIndex" | h where "r = Returns () (set_heap h s)"
proof (cases "should_collect (vm_heap s)")
  case True
  with assms that show ?thesis by (auto simp: safepoint_def split: option.splits)
next
  case False
  have "s = set_heap (vm_heap s) s" by (simp add: set_heap_def)
  with False assms that(2) [of "vm_heap s"] show ?thesis by (simp add: safepoint_def)
qed

lemma bounded_run_heap [simp]: "bounded_run E Ds gs low (set_heap h s) = bounded_run E Ds gs low s"
  by (simp add: bounded_run_def)

text \<open>The instruction the loop is about to execute.\<close>

lemma loop_fetch:
  fixes s :: "'w vm"
  assumes m: "module_verified E Ds" and b: "bounded_run E Ds gs low s"
  obtains f fs fn d s1 us bf where "fetch E s = Returns (op_of fn f) s1" and "vm_stack s1 = vm_stack s"
    and "site E Ds f fs fn d s1 (op_ctx E f fs fn d s1)" and "f # fs = us @ bf # gs" and "fr_ret bf = length low"
    and "fr_ret bf \<le> fr_base f" and "us \<noteq> [] \<Longrightarrow> fr_ret bf \<le> fr_ret f" and "fr_ret f \<le> length (vm_stack s)"
    and "take (length low) (vm_stack s) = low"
proof -
  from b obtain us bf where frames: "vm_frames s = us @ bf # gs" and low: "fr_ret bf = length low"
    "take (length low) (vm_stack s) = low" and act: "active E Ds (vm_frames s) (length (vm_stack s))"
    by (auto simp: bounded_run_def)
  obtain f fs where f: "vm_frames s = f # fs" using frames by (cases us) auto
  from act f obtain fn d where fn: "fn_at E (fr_func f) = Some fn" "Ds (fr_func f) (fr_ip f) = Some d"
    "length (vm_stack s) = fr_base f + locals fn + d" "fr_ret f \<le> fr_base f" and ch: "chain E Ds fs (fr_ret f)"
    by (auto simp: running_def)
  from m fn(1) have "verified (structs_of E) fn (Ds (fr_func f))" by (simp add: module_verified_def)
  with fn(2) have ix: "fr_ip f < length (code (fn_chunk fn))"
    by (auto simp: verified_def stable_def stable_at_def)
  define f' where "f' = f\<lparr>fr_ip := fr_ip f + 1\<rparr>"
  define s1 where "s1 = s\<lparr>vm_frames := f' # fs\<rparr>"
  show ?thesis
  proof (rule that [of fn f' s1 fs d "if us = [] then [] else f' # tl us" "if us = [] then f' else bf"])
    show "fetch E s = Returns (op_of fn f') s1"
      using f fn(1) ix by (simp add: fetch_def nth_opt_def op_of_def f'_def s1_def)
    show "site E Ds f' fs fn d s1 (op_ctx E f' fs fn d s1)"
      using m fn ch by (simp add: site_def at_op_def s1_def f'_def)
    show "f' # fs = (if us = [] then [] else f' # tl us) @ (if us = [] then f' else bf) # gs"
      using frames f by (cases us) auto
    have act': "active E Ds (f # fs) (length (vm_stack s))" using act f by simp
    note bnd = active_boundary [OF act', of us bf gs]
    show "fr_ret (if us = [] then f' else bf) = length low"
      using frames f low(1) by (auto simp: f'_def)
    show "fr_ret (if us = [] then f' else bf) \<le> fr_base f'"
      using bnd(1) frames f by (auto simp: f'_def)
    show "fr_ret (if us = [] then f' else bf) \<le> fr_ret f'"
      if "(if us = [] then [] else f' # tl us) \<noteq> []"
      using bnd(2) frames f that by (auto simp: f'_def split: if_splits)
    show "fr_ret f' \<le> length (vm_stack s)"
      using bnd(3) frames f by (auto simp: f'_def)
  qed (simp_all add: s1_def low(2))
qed

text \<open>An instruction that fails leaves its frame where a handler can find it.\<close>

lemma raise_faulted:
  fixes s2 :: "'w vm"
  assumes site: "site E Ds f fs fn d s1 (op_ctx E f fs fn d s1)"
    and a: "at (op_ctx E f fs fn d s1) (length (vm_stack s2)) s2"
  shows "vm_frames s2 = f # fs" and "faulted E Ds f (length (vm_stack s2))"
    and "take (fr_base f) (vm_stack s2) = take (fr_base f) (vm_stack s1)"
proof -
  let ?c = "op_ctx E f fs fn d s1"
  from a show "vm_frames s2 = f # fs" by (simp add: at_def op_ctx_def)
  have lo: "c_lo ?c \<le> length (vm_stack s2)" using a by (simp add: at_def)
  have "fr_base f + locals fn \<le> c_lo ?c" using op_needs [OF site] by (simp add: op_ctx_def)
  with lo ctx_simps(3) [OF site] site show "faulted E Ds f (length (vm_stack s2))"
    by (auto simp: faulted_def op_of_def site_def at_op_def)
  from a ctx_simps(2) [OF site] show "take (fr_base f) (vm_stack s2) = take (fr_base f) (vm_stack s1)"
    by (simp add: at_def op_ctx_def)
qed

text \<open>One turn of the loop: it goes on, or it is over with its result, or it fails.\<close>

definition turn_result :: "'w env \<Rightarrow> (func_id \<Rightarrow> assignment) \<Rightarrow> frame list \<Rightarrow> val list \<Rightarrow> (unit, 'w vm) outcome \<Rightarrow> bool" where
  "turn_result E Ds gs low r =
     (case r of
        Returns _ s \<Rightarrow> bounded_run E Ds gs low s \<or> (vm_frames s = gs \<and> (\<exists>v. vm_stack s = low @ [v]))
      | Raises sig s \<Rightarrow> sig \<noteq> SPark \<and> vm_frames s = gs \<and> vm_stack s = low
      | Crash k \<Rightarrow> soft k
      | OutOfFuel \<Rightarrow> True)"

lemma settle_ok:
  fixes s :: "'w vm"
  assumes m: "module_verified E Ds" and quiet: "quiet_env E" and run: "quiet_run (chain E Ds) run"
    and b: "bounded_run E Ds gs low s"
  shows "turn_result E Ds gs low (bind (fetch E s) (\<lambda>op s. settle E (Suc (length gs)) (step E run op s)))"
proof -
  obtain f fs fn d s1 us bf where fetch: "fetch E s = Returns (op_of fn f) s1" "vm_stack s1 = vm_stack s"
    and site: "site E Ds f fs fn d s1 (op_ctx E f fs fn d s1)" and fr: "f # fs = us @ bf # gs" "fr_ret bf = length low"
    and bnd: "fr_ret bf \<le> fr_base f" "us \<noteq> [] \<Longrightarrow> fr_ret bf \<le> fr_ret f" "fr_ret f \<le> length (vm_stack s)"
    and low: "take (length low) (vm_stack s) = low"
    by (rule loop_fetch [OF m b]) blast
  have ch: "chain E Ds fs (fr_ret f)" using site by (simp add: site_def at_op_def)
  note sd = step_discipline [OF site run quiet]
  have "turn_result E Ds gs low (settle E (Suc (length gs)) (step E run (op_of fn f) s1))"
  proof (cases "step E run (op_of fn f) s1")
    case (Returns x s2)
    with sd have "stays E Ds f fs (vm_stack s) s2 \<or> leaves f fs (vm_stack s) s2" by (simp add: fetch(2))
    then have "bounded_run E Ds gs low s2 \<or> (vm_frames s2 = gs \<and> (\<exists>v. vm_stack s2 = low @ [v]))"
    proof
      assume "stays E Ds f fs (vm_stack s) s2"
      from stays_bounded [OF this fr bnd(1) low] show ?thesis by blast
    next
      assume l: "leaves f fs (vm_stack s) s2"
      show ?thesis
      proof (cases "us = []")
        case True
        with l fr low show ?thesis by (auto simp: leaves_def)
      next
        case False
        from leaves_bounded [OF l fr(1) False fr(2) bnd(2) [OF False] low bnd(3) ch] show ?thesis by blast
      qed
    qed
    with Returns show ?thesis by (simp add: settle_def turn_result_def)
  next
    case (Raises sig s2)
    with sd have sig: "sig \<noteq> SPark" and a: "at (op_ctx E f fs fn d s1) (length (vm_stack s2)) s2" by simp_all
    note rf = raise_faulted [OF site a]
    have "take (fr_ret bf) (vm_stack s2) = take (fr_ret bf) (take (fr_base f) (vm_stack s2))"
      using bnd(1) by (simp add: min_def)
    also have "\<dots> = low" using bnd(1) low fr(2) by (simp add: rf(3) fetch(2) min_def)
    finally have "unwind_result E Ds gs low sig (unwind E sig (Suc (length gs)) (vm_frames s2) s2)"
      unfolding rf(1) using unwind_ok [OF m rf(2) ch fr(1), of sig] by simp
    then show ?thesis
      using sig Raises
      by (cases "unwind E sig (Suc (length gs)) (vm_frames s2) s2")
        (auto simp: settle_def unwind_result_def turn_result_def)
  qed (use sd in \<open>auto simp: settle_def turn_result_def\<close>)
  with fetch(1) show ?thesis by simp
qed

lemma one_instruction_ok:
  assumes "module_verified E Ds" and "quiet_env E" and "quiet_run (chain E Ds) run" and "bounded_run E Ds gs low s"
  shows "turn_result E Ds gs low (one_instruction E run (Suc (length gs)) s)"
proof (cases rule: safepoint_cases [OF refl, of s])
  case 1
  then show ?thesis by (simp add: one_instruction_def turn_result_def)
next
  case (2 h)
  with settle_ok [OF assms(1-3), of gs low "set_heap h s"] assms(4) show ?thesis
    by (simp add: one_instruction_def)
qed

lemma exec_step_ok:
  assumes "module_verified E Ds" and "quiet_env E" and "quiet_run (chain E Ds) run"
    and continue: "loop_ok E Ds continue"
    and over: "\<And>k s. length (vm_frames s) < k \<Longrightarrow> continue k s = Returns () s \<or> continue k s = OutOfFuel"
  shows "loop_ok E Ds (exec_step E run continue)"
  unfolding loop_ok_def
proof (intro allI impI)
  fix s :: "'a vm" and gs low assume b: "bounded_run E Ds gs low s"
  let ?k = "Suc (length gs)"
  have k: "\<not> length (vm_frames s) < ?k" using b by (auto simp: bounded_run_def)
  show "run_result gs low (exec_step E run continue ?k s)"
  proof (cases "one_instruction E run ?k s")
    case (Returns x s')
    with one_instruction_ok [OF assms(1-3) b]
    consider "bounded_run E Ds gs low s'" | "vm_frames s' = gs" "\<exists>v. vm_stack s' = low @ [v]"
      by (auto simp: turn_result_def)
    then show ?thesis
    proof cases
      case 1
      with continue k Returns show ?thesis by (simp add: exec_step_def loop_ok_def)
    next
      case 2
      with over [of s' ?k] k Returns show ?thesis by (auto simp: exec_step_def run_result_def)
    qed
  qed (use one_instruction_ok [OF assms(1-3) b] k in \<open>auto simp: exec_step_def turn_result_def run_result_def\<close>)
qed

lemma execute_over: "length (vm_frames s) < k \<Longrightarrow> execute E n k s = Returns () s \<or> execute E n k s = OutOfFuel"
  by (cases n) (simp_all add: exec_step_def)

lemma quiet_run_keeps: "(\<And>p. no_park p \<Longrightarrow> keeps_stack E Ds (run p)) \<Longrightarrow> quiet_run (chain E Ds) run"
  by (simp add: quiet_run_def keeps_stack_def)

lemma machine_ok:
  assumes m: "module_verified E Ds" and quiet: "quiet_env E"
  shows "loop_ok E Ds (execute E n) \<and> (\<forall>callee args. keeps_stack E Ds (call_callable E n callee args))"
proof (induction n)
  case 0
  show ?case by (simp add: loop_ok_def run_result_def keeps_stack_def)
next
  case (Suc n)
  let ?run = "run_prog (call_callable E n) (\<lambda>func. call_frames E (execute E n) func None)"
  have run: "keeps_stack E Ds (?run p)" if "no_park p" for p :: "('a, val) prog"
    using Suc.IH call_frames_keeps [OF m] by (intro run_prog_keeps [OF _ _ that]) auto
  have "loop_ok E Ds (execute E (Suc n))"
    using exec_step_ok [OF m quiet quiet_run_keeps [OF run] _ execute_over] Suc.IH by simp
  moreover have "keeps_stack E Ds (call_callable E (Suc n) callee args)" for callee args
    using call_value_native_keeps [OF m quiet _ run] Suc.IH by simp
  ultimately show ?case by blast
qed

end
