(* ===== verification/Vm_Runs.thy ===== *)
theory Vm_Runs
  imports Vm_Contract
begin

text \<open>
  Whole runs of checked modules. A module is checked by running the depth pass of the code
  generator on every function and testing, at every reachable instruction, what the pass does
  not test itself; the machine keeps the stack discipline in every run of a checked module.
\<close>

section \<open>Checked modules\<close>

definition checked_at :: "struct_shape list \<Rightarrow> function_entry \<Rightarrow> depths \<Rightarrow> code_ix \<Rightarrow> bool" where
  "checked_at structs fn depths ix =
     (case depths ! ix of
        None \<Rightarrow> True
      | Some d \<Rightarrow>
          (let op = code (fn_chunk fn) ! ix
           in needs structs op \<le> d \<and>
              (case slots_used op of Some slot \<Rightarrow> slot < locals fn | None \<Rightarrow> True) \<and>
              (case op of CallMethodDyn name argc \<Rightarrow> 0 < argc | _ \<Rightarrow> True) \<and>
              (case handler_for (fn_chunk fn) ix of
                 Some h \<Rightarrow> depth_of depths (h_target h) = Some (h_depth h + 1) \<and> h_depth h + needs structs op \<le> d
               | None \<Rightarrow> True)))"

definition check_fn :: "struct_shape list \<Rightarrow> function_entry \<Rightarrow> bool" where
  "check_fn structs fn =
     (case analyse True (code (fn_chunk fn)) (handlers (fn_chunk fn)) structs of
        None \<Rightarrow> False
      | Some (depths, mx, hs) \<Rightarrow>
          mx \<le> max_stack fn \<and> max_stack fn \<le> u16_max \<and>
          list_all (checked_at structs fn depths) [0..<length depths])"

definition check_module :: "'w env \<Rightarrow> bool" where
  "check_module E \<longleftrightarrow>
     small_structs (structs_of E) \<and> list_all (check_fn (structs_of E)) (m_functions (e_module E))"

text \<open>The depths of a checked module.\<close>

definition depths_of :: "'w env \<Rightarrow> func_id \<Rightarrow> assignment" where
  "depths_of E f =
     (case fn_at E f of
        None \<Rightarrow> (\<lambda>ix. None)
      | Some fn \<Rightarrow>
          (case analyse True (code (fn_chunk fn)) (handlers (fn_chunk fn)) (structs_of E) of
             None \<Rightarrow> (\<lambda>ix. None)
           | Some (depths, mx, hs) \<Rightarrow> depth_of depths))"

lemma check_fn_verified:
  assumes "check_fn structs fn"
    and "analyse True (code (fn_chunk fn)) (handlers (fn_chunk fn)) structs = Some (depths, mx, hs)"
  shows "verified structs fn (depth_of depths)"
proof -
  from assms have mx: "mx \<le> max_stack fn" "mx < u32_max"
    and at: "\<And>ix. ix < length depths \<Longrightarrow> checked_at structs fn depths ix"
    by (auto simp: check_fn_def list_all_iff u16_max_def u32_max_def)
  note ok = analyse_correct [OF assms(2) mx(2)]
  have "needs structs (code (fn_chunk fn) ! ix) \<le> d \<and>
        (\<forall>slot. slots_used (code (fn_chunk fn) ! ix) = Some slot \<longrightarrow> slot < locals fn) \<and>
        (\<forall>name. code (fn_chunk fn) ! ix \<noteq> CallMethodDyn name 0) \<and>
        (\<forall>h. handler_for (fn_chunk fn) ix = Some h \<longrightarrow>
           depth_of depths (h_target h) = Some (h_depth h + 1) \<and>
           h_depth h + needs structs (code (fn_chunk fn) ! ix) \<le> d)"
    if "depth_of depths ix = Some d" for ix d
    using at [of ix] that by (auto simp: depth_of_def checked_at_def Let_def split: if_splits)
  moreover have "bounded (depth_of depths) (max_stack fn)"
    using ok(3) mx(1) by (force simp: bounded_def)
  ultimately show ?thesis using ok(1,2) by (simp add: verified_def)
qed

lemma check_module_verified: "check_module E \<Longrightarrow> module_verified E (depths_of E)"
proof -
  assume c: "check_module E"
  have "verified (structs_of E) fn (depths_of E i)" if fn: "fn_at E i = Some fn" for i fn
  proof -
    from fn have "fn \<in> set (m_functions (e_module E))" by (auto simp: fn_at_def nth_opt_def split: if_splits)
    with c have check: "check_fn (structs_of E) fn" by (simp add: check_module_def list_all_iff)
    then obtain depths mx hs where
      a: "analyse True (code (fn_chunk fn)) (handlers (fn_chunk fn)) (structs_of E) = Some (depths, mx, hs)"
      by (auto simp: check_fn_def split: option.splits)
    from check_fn_verified [OF check a] show ?thesis by (simp add: depths_of_def fn a)
  qed
  with c show ?thesis by (simp add: module_verified_def check_module_def)
qed

section \<open>Entry points\<close>

definition idle :: "'w vm \<Rightarrow> bool" where
  "idle s \<longleftrightarrow> vm_frames s = [] \<and> vm_stack s = []"

definition idle_result :: "('a, 'w vm) outcome \<Rightarrow> bool" where
  "idle_result r =
     (case r of
        Returns _ s \<Rightarrow> idle s | Raises sig s \<Rightarrow> sig \<noteq> SPark \<and> idle s | Crash k \<Rightarrow> soft k | OutOfFuel \<Rightarrow> True)"

lemma idle_result_simps [simp]:
  "idle_result (Returns x s) = idle s" "idle_result (Raises sig s) = (sig \<noteq> SPark \<and> idle s)"
  "idle_result (Crash k) = soft k" "idle_result OutOfFuel"
  by (simp_all add: idle_result_def)

lemma idle_bind: "idle_result r \<Longrightarrow> (\<And>x s. r = Returns x s \<Longrightarrow> idle s \<Longrightarrow> idle_result (f x s)) \<Longrightarrow> idle_result (bind r f)"
  by (cases r) simp_all

lemma enter_idle:
  assumes "module_verified E Ds" and "idle s"
  shows "case enter_function E func 0 0 s of
      Returns _ s' \<Rightarrow> bounded_run E Ds [] [] s'
    | Raises sig s' \<Rightarrow> sig \<noteq> SPark \<and> idle s' | Crash k \<Rightarrow> soft k | OutOfFuel \<Rightarrow> True"
proof -
  define c where "c = \<lparr>c_frames = [], c_low = [], c_lo = 0\<rparr>"
  have "at c 0 s" using assms(2) by (simp add: at_def c_def idle_def)
  from ends_enter [OF this, of 0 0 E func]
  have e: "ends c (enter_function E func 0 0 s) (\<lambda>_. entered E c 0)" by (simp add: c_def)
  have "bounded_run E Ds [] [] s'" if "entered E c 0 s'" for s' :: "'a vm"
    using entered_bounded [OF assms(1), of c s'] that by (simp add: c_def)
  moreover have "idle s'" if "enter_function E func 0 0 s = Raises sig s'" for sig s'
    using that assms(2) by (auto simp: enter_function_def vm_panic_def demand_def bind_def
        split: if_splits option.splits)
  ultimately show ?thesis using e by (cases "enter_function E func 0 0 s") auto
qed

lemma loop_idle:
  assumes "module_verified E Ds" and "quiet_env E" and "bounded_run E Ds [] [] s"
  shows "run_result [] [] (execute E n 1 s)"
proof -
  have "loop_ok E Ds (execute E n)" using machine_ok [OF assms(1,2)] by blast
  then have "run_result [] [] (execute E n (Suc (length ([] :: frame list))) s)"
    using assms(3) unfolding loop_ok_def by blast
  then show ?thesis by simp
qed

lemma call_entry_idle:
  assumes "module_verified E Ds" and "quiet_env E" and "idle s"
  shows "idle_result (call_entry E n func s)"
proof (cases "enter_function E func 0 0 s")
  case (Returns x s1)
  with enter_idle [OF assms(1,3), of func] have "bounded_run E Ds [] [] s1" by simp
  from loop_idle [OF assms(1,2) this, of n] Returns show ?thesis
    by (cases "execute E n 1 s1") (auto simp: call_entry_def run_result_def idle_def truncate_stack_def)
qed (use enter_idle [OF assms(1,3), of func] in \<open>simp_all add: call_entry_def\<close>)

lemma run_program_idle:
  assumes "module_verified E Ds" and "quiet_env E" and "idle s"
  shows "idle_result (run_program E n s)"
  unfolding run_program_def
proof (rule idle_bind [OF call_entry_idle [OF assms]])
  fix x :: unit and s' :: "'a vm" assume s': "idle s'"
  show "idle_result (case m_entry (e_module E) of
         None \<Rightarrow> Returns () s'
       | Some main \<Rightarrow>
           bind (demand BadIndex (fn_at E main) s') (\<lambda>fn s.
             if arity fn \<noteq> 0 then fatal ''brasa: `main` must take no parameters'' s
             else call_entry E n main s))"
  proof (cases "m_entry (e_module E)")
    case (Some main)
    with s' call_entry_idle [OF assms(1,2) s', of n main] show ?thesis
      by (cases "fn_at E main") (simp_all add: fatal_def)
  qed (simp add: s')
qed

lemma native_idle:
  assumes "module_verified E Ds" and "quiet_env E" and "idle s" and "no_park p"
  shows "idle_result (native E n p s)"
proof -
  have "keeps_stack E Ds (native E n p)"
    unfolding native_def call_function_def
    using machine_ok [OF assms(1,2), of n] call_frames_keeps [OF assms(1)] assms(4)
    by (intro run_prog_keeps) auto
  moreover have "chain E Ds (vm_frames s) (length (vm_stack s))" using assms(3) by (simp add: idle_def)
  ultimately have "preserves s (native E n p s)" by (simp add: keeps_stack_def)
  with assms(3) show ?thesis by (cases "native E n p s") (auto simp: idle_def)
qed

lemma finish_idle:
  assumes "module_verified E Ds" and "quiet_env E" and "idle_result r"
  shows "idle_result (finish E n r) \<and> (\<forall>sig s'. finish E n r \<noteq> Raises sig s')"
proof (cases r)
  case (Raises sig s)
  with assms(3) have idle: "idle s" by simp
  have "idle_result (finish_error E n v s) \<and> (\<forall>sig s'. finish_error E n v s \<noteq> Raises sig s')" for v
    using native_idle [OF assms(1,2) idle, of "display E v" n]
    by (cases "native E n (display E v) s") 
      (auto simp: finish_error_def display_def no_park_render split: option.split)
  with Raises idle show ?thesis by (cases sig) (simp_all add: finish_def)
qed (use assms(3) in \<open>simp_all add: finish_def\<close>)

section \<open>Properties\<close>

text \<open>C9: every run of a checked module keeps the stack discipline. Whatever the fuel, the
  program ends with the value stack and the frame stack empty, its outcome being a value and
  never an escaped signal, or it stops on a host panic that no operand count, instruction
  index or local slot can cause, or the fuel is spent.\<close>

theorem run_keeps_discipline:
  assumes "check_module E" and "quiet_env E" and "idle s"
  shows "case vm_run E n s of
      Returns out s' \<Rightarrow> idle s'
    | Raises sig s' \<Rightarrow> False
    | Crash k \<Rightarrow> k \<notin> {Underflow, NoFrame, BadCode, BadSlot}
    | OutOfFuel \<Rightarrow> True"
proof -
  note m = check_module_verified [OF assms(1)]
  have "idle_result (vm_run E n s) \<and> (\<forall>sig s'. vm_run E n s \<noteq> Raises sig s')"
    unfolding vm_run_def by (intro finish_idle [OF m assms(2)] run_program_idle [OF m assms(2,3)])
  then show ?thesis by (cases "vm_run E n s") (auto simp: soft_def)
qed

text \<open>The states a run of the loop passes through, from one instruction boundary to the next.\<close>

definition runner_at :: "'w env \<Rightarrow> nat \<Rightarrow> 'w runner" where
  "runner_at E n = run_prog (call_callable E n) (call_function E n)"

inductive reaches :: "'w env \<Rightarrow> nat \<Rightarrow> 'w vm \<Rightarrow> 'w vm \<Rightarrow> bool" for E k s0 where
  reaches_start: "reaches E k s0 s0"
| reaches_turn: "reaches E k s0 s \<Longrightarrow> k \<le> length (vm_frames s) \<Longrightarrow>
     one_instruction E (runner_at E n) k s = Returns () s' \<Longrightarrow> reaches E k s0 s'"

lemma runner_quiet:
  assumes "module_verified E Ds" and "quiet_env E"
  shows "quiet_run (chain E Ds) (runner_at E n)"
proof (rule quiet_run_keeps)
  fix p :: "('a, val) prog" assume "no_park p"
  then show "keeps_stack E Ds (runner_at E n p)"
    unfolding runner_at_def call_function_def
    using machine_ok [OF assms, of n] call_frames_keeps [OF assms(1)] by (intro run_prog_keeps) auto
qed

lemma reaches_bounded:
  assumes "module_verified E Ds" and "quiet_env E" and "bounded_run E Ds gs low s0"
  shows "reaches E (Suc (length gs)) s0 s \<Longrightarrow>
    bounded_run E Ds gs low s \<or> (vm_frames s = gs \<and> (\<exists>v. vm_stack s = low @ [v]))"
proof (induction rule: reaches.induct)
  case (reaches_turn s n s')
  then have "bounded_run E Ds gs low s" by auto
  from one_instruction_ok [OF assms(1,2) runner_quiet [OF assms(1,2)] this, of n] reaches_turn(3)
  show ?case by (simp add: turn_result_def)
qed (use assms(3) in simp)

text \<open>C19: at every instruction boundary of a run of a checked module, the value stack of the
  running frame is its slots plus exactly the operands the depth pass computed for the next
  instruction, which fit the reservation made on entry.\<close>

theorem heights_are_assigned:
  assumes "check_module E" and "quiet_env E" and "idle s"
    and "enter_function E func 0 0 s = Returns () s0" and "reaches E 1 s0 s1" and "vm_frames s1 = f # fs"
  shows "\<exists>fn d. fn_at E (fr_func f) = Some fn \<and> depths_of E (fr_func f) (fr_ip f) = Some d \<and>
    length (vm_stack s1) = fr_base f + locals fn + d \<and> d \<le> max_stack fn \<and>
    fr_ip f < length (code (fn_chunk fn))"
proof -
  note m = check_module_verified [OF assms(1)]
  have "bounded_run E (depths_of E) [] [] s0" using enter_idle [OF m assms(3), of func] assms(4) by simp
  from reaches_bounded [OF m assms(2) this, of s1] assms(5,6) have "bounded_run E (depths_of E) [] [] s1"
    by auto
  with assms(6) have "running E (depths_of E) f (length (vm_stack s1))" by (auto simp: bounded_run_def)
  then obtain fn d where r: "fn_at E (fr_func f) = Some fn" "depths_of E (fr_func f) (fr_ip f) = Some d"
    "length (vm_stack s1) = fr_base f + locals fn + d" by (auto simp: running_def)
  with m have "verified (structs_of E) fn (depths_of E (fr_func f))" by (simp add: module_verified_def)
  with r(2) have "d \<le> max_stack fn" "fr_ip f < length (code (fn_chunk fn))"
    by (auto simp: verified_def bounded_def stable_def stable_at_def)
  with r show ?thesis by blast
qed

text \<open>C20: a call from native code is transparent. From an idle machine or from any frame that
  waits for a result, calling any value returns with the caller's stack and frames exactly as
  they were, and so does a call that raises.\<close>

theorem native_calls_are_transparent:
  assumes "check_module E" and "quiet_env E" and "chain E (depths_of E) (vm_frames s) (length (vm_stack s))"
  shows "case call_callable E n callee args s of
      Returns v s' \<Rightarrow> vm_frames s' = vm_frames s \<and> vm_stack s' = vm_stack s
    | Raises sig s' \<Rightarrow> vm_frames s' = vm_frames s \<and> vm_stack s' = vm_stack s
    | Crash k \<Rightarrow> k \<notin> {Underflow, NoFrame, BadCode, BadSlot}
    | OutOfFuel \<Rightarrow> True"
proof -
  have "preserves s (call_callable E n callee args s)"
    using machine_ok [OF check_module_verified [OF assms(1)] assms(2), of n] assms(3)
    by (simp add: keeps_stack_def)
  then show ?thesis
    by (cases "call_callable E n callee args s") (auto simp: soft_def)
qed

section \<open>A program\<close>

text \<open>A program whose \<open>main\<close> calls a function that divides by zero inside a protected range
  and answers the panic's detail.\<close>

definition demo_pool :: const_pool where
  "demo_pool = \<lparr>pool_items = [KInt 7, KInt 0], pool_index = [(KeyInt 0, 1), (KeyInt 7, 0)]\<rparr>"

definition demo_fn :: "string \<Rightarrow> nat \<Rightarrow> nat \<Rightarrow> op list \<Rightarrow> handler list \<Rightarrow> function_entry" where
  "demo_fn name args depth ops hs =
     \<lparr>fn_name = name, arity = args, captures = 0, locals = args, max_stack = depth,
      fn_chunk = \<lparr>code = ops, spans = [], handlers = hs\<rparr>\<rparr>"

definition demo_module :: module_code where
  "demo_module =
     \<lparr>m_constants = demo_pool,
      m_functions =
        [demo_fn ''<toplevel>'' 0 1 [LoadUnit, Ret] [],
         demo_fn ''main'' 0 1 [Const 0, Call 2 1, Pop, LoadUnit, Ret] [],
         demo_fn ''risky'' 1 2 [LoadLocal 0, Const 1, DivInt, Ret, CaughtDetail, Ret]
           [\<lparr>h_start = 0, h_end = 3, h_target = 4, h_depth = 0\<rparr>]],
      m_structs = [], m_enums = [], m_globals = [], m_tests = [], m_entry = Some 1\<rparr>"

definition demo_env :: "unit env" where
  "demo_env =
     \<lparr>e_module = demo_module, e_max_depth = 100, e_registry = [],
      e_method = (\<lambda>name recv args. PRaise (SFatal name)), e_free = (\<lambda>name args. PRaise (SFatal name)),
      e_record_field = (\<lambda>v name. False), e_can_bind = (\<lambda>v name. False),
      e_float_add = (\<lambda>a b. a), e_float_sub = (\<lambda>a b. a), e_float_mul = (\<lambda>a b. a), e_float_div = (\<lambda>a b. a),
      e_float_rem = (\<lambda>a b. a), e_float_pow = (\<lambda>a b. a), e_float_text = (\<lambda>a. []),
      e_json_key = (\<lambda>t k. None), e_json_position = (\<lambda>t i. None), e_json_text = (\<lambda>t. [])\<rparr>"

lemma demo_checked: "check_module demo_env"
  by (simp add: check_module_def demo_env_def demo_module_def demo_fn_def small_structs_def check_fn_def
      analyse_def rounds.simps drain.simps visit_op_def transition_def net_effect_def push_branch_def push_fall_def
      apply_delta_def seed_one_def u16_max_def u32_max_def checked_at_def needs_def slots_used_def
      handler_for_def covers_def depth_of_def Let_def upt_rec)

lemma demo_quiet: "quiet_env demo_env"
  by (simp add: quiet_env_def demo_env_def)

definition demo_start :: "unit vm" where
  "demo_start = vm_new demo_env 40 1024 ()"

lemma demo_idle: "idle demo_start"
  by (simp add: idle_def demo_start_def vm_new_def)

lemma run_keeps_discipline_witness:
  "case vm_run demo_env 50 demo_start of
      Returns out s' \<Rightarrow> idle s' | Raises sig s' \<Rightarrow> False
    | Crash k \<Rightarrow> k \<notin> {Underflow, NoFrame, BadCode, BadSlot} | OutOfFuel \<Rightarrow> True"
  by (rule run_keeps_discipline [OF demo_checked demo_quiet demo_idle])

definition demo_entered :: "unit vm" where
  "demo_entered = demo_start\<lparr>vm_frames := [\<lparr>fr_func = 1, fr_ip = 0, fr_base = 0, fr_ret = 0\<rparr>]\<rparr>"

lemma demo_enter: "enter_function demo_env 1 0 0 demo_start = Returns () demo_entered"
  by (simp add: enter_function_def call_depth_def demo_start_def demo_entered_def vm_new_def demo_env_def
      demo_module_def demo_fn_def fn_at_def nth_opt_def resize_def)

lemma heights_are_assigned_witness:
  "\<exists>fn d. fn_at demo_env 1 = Some fn \<and> depths_of demo_env 1 0 = Some d \<and> d \<le> max_stack fn"
proof -
  have "vm_frames demo_entered = [\<lparr>fr_func = 1, fr_ip = 0, fr_base = 0, fr_ret = 0\<rparr>]"
    by (simp add: demo_entered_def)
  from heights_are_assigned [OF demo_checked demo_quiet demo_idle demo_enter reaches_start this]
  show ?thesis by auto
qed

lemma native_calls_are_transparent_witness:
  "case call_callable demo_env 50 (VFunc 2) [VInt 7] demo_start of
      Returns v s' \<Rightarrow> vm_frames s' = [] \<and> vm_stack s' = []
    | Raises sig s' \<Rightarrow> vm_frames s' = [] \<and> vm_stack s' = []
    | Crash k \<Rightarrow> k \<notin> {Underflow, NoFrame, BadCode, BadSlot}
    | OutOfFuel \<Rightarrow> True"
proof -
  have "chain demo_env (depths_of demo_env) (vm_frames demo_start) (length (vm_stack demo_start))"
    using demo_idle by (simp add: idle_def)
  from native_calls_are_transparent [OF demo_checked demo_quiet this, of 50 "VFunc 2" "[VInt 7]"]
  show ?thesis
    using demo_idle by (cases "call_callable demo_env 50 (VFunc 2) [VInt 7] demo_start") (auto simp: idle_def)
qed

text \<open>The protected division answers the detail of the panic it catches.\<close>

lemma demo_fns:
  "fn_at demo_env 0 = Some (demo_fn ''<toplevel>'' 0 1 [LoadUnit, Ret] [])"
  "fn_at demo_env 1 = Some (demo_fn ''main'' 0 1 [Const 0, Call 2 1, Pop, LoadUnit, Ret] [])"
  "fn_at demo_env 2 = Some (demo_fn ''risky'' 1 2 [LoadLocal 0, Const 1, DivInt, Ret, CaughtDetail, Ret]
           [\<lparr>h_start = 0, h_end = 3, h_target = 4, h_depth = 0\<rparr>])"
  "e_max_depth demo_env = 100" "m_constants (e_module demo_env) = demo_pool"
  by (simp_all add: demo_env_def demo_module_def fn_at_def nth_opt_def)

lemma demo_fn_simps:
  "fn_name (demo_fn n a d ops hs) = n" "arity (demo_fn n a d ops hs) = a"
  "locals (demo_fn n a d ops hs) = a" "max_stack (demo_fn n a d ops hs) = d"
  "code (fn_chunk (demo_fn n a d ops hs)) = ops" "handlers (fn_chunk (demo_fn n a d ops hs)) = hs"
  by (simp_all add: demo_fn_def)

lemma execute_Suc:
  "execute E (Suc n) k s =
     exec_step E (run_prog (call_callable E n) (\<lambda>func. call_frames E (execute E n) func None)) (execute E n) k s"
  by simp

lemma call_callable_Suc:
  "call_callable E (Suc n) v args s =
     call_value_native E (execute E n)
       (run_prog (call_callable E n) (\<lambda>func. call_frames E (execute E n) func None)) v args s"
  by simp

lemma demo_call:
  "\<exists>s. call_callable demo_env (Suc (Suc (Suc (Suc (Suc (Suc (Suc 0))))))) (VFunc 2) [VInt 7] demo_start =
     Returns (VStr ''division by zero'') s"
  by (simp add: call_callable_Suc call_value_native_def call_frames_def call_prep_def enter_function_def
      call_depth_def demo_start_def vm_new_def resize_def demo_fns demo_fn_simps
      execute_Suc exec_step_def one_instruction_def safepoint_def should_collect_def heap_new_def fetch_def
      nth_opt_def settle_def step_def op_load_local_def slot_get_def top_frame_def push_def pop_def op_const_def
      pool_get_def demo_pool_def const_val_def int_div_rem_def pop_int_def vm_panic_def capture_trace_def
      handler_for_def covers_def enter_handler_def catchable_def caught_value_def fresh_def truncate_stack_def
      op_caught_detail_def peek_def op_ret_def leave_nested_def del: execute.simps call_callable.simps)

end
