(* ===== verification/Code_Layout.thy ===== *)
theory Code_Layout
  imports Vm_Runs
begin

text \<open>
  Code under construction, as the code generator leaves it between two instructions: a depth for
  every index emitted so far and for the next one, jumps whose targets are still open, and the
  handlers added so far. \<open>code_wf\<close> says that the depths respect every instruction, and the lemmas
  say how it survives a push, a patch, a new handler and a change of viewpoint. The arguments of
  the predicate: a frame \<open>C\<close> that freezes the code emitted before some point, the slots in use, the
  handlers, the instructions, their depths, the indices of open jumps and facts about positions.
\<close>

section \<open>Facts and frames\<close>

text \<open>A jump that will arrive at a depth, a position of a given depth that a jump may name, a slot of the
  frame, and a condition that holds as long as nothing is reported.\<close>

datatype fact = Site code_ix nat | Label code_ix nat | Live slot_ix | Cond bool

record frozen =
  b_structs :: "struct_shape list"
  b_code :: "op list"
  b_depths :: "nat list"
  b_handlers :: "handler list"
  b_open :: "code_ix set"
  b_live :: "slot_ix set"
  b_floor :: nat
  b_clean :: bool

definition goes :: "handler list \<Rightarrow> nat list \<Rightarrow> code_ix \<Rightarrow> code_ix \<Rightarrow> int \<Rightarrow> bool" where
  "goes hs ds ix t e \<longleftrightarrow>
     t < length ds \<and> int (ds ! t) = e \<and>
     (\<forall>h \<in> set hs. h_start h < t \<and> t < h_end h \<longrightarrow> covers h ix)"

definition flow_at :: "struct_shape list \<Rightarrow> handler list \<Rightarrow> nat list \<Rightarrow> code_ix set \<Rightarrow> code_ix \<Rightarrow> op \<Rightarrow> bool" where
  "flow_at S hs ds U ix op \<longleftrightarrow>
     (\<exists>fall branch. transition op S = Some (fall, branch) \<and>
        (\<forall>x. fall = Some x \<longrightarrow> int (ds ! Suc ix) = int (ds ! ix) + x) \<and>
        (\<forall>t x. branch = Some (t, x) \<longrightarrow>
           0 \<le> int (ds ! ix) + x \<and> (ix \<in> U \<or> goes hs ds ix t (int (ds ! ix) + x))))"

definition op_fine :: "struct_shape list \<Rightarrow> (slot_ix \<Rightarrow> bool) \<Rightarrow> op \<Rightarrow> nat \<Rightarrow> bool" where
  "op_fine S lv op d \<longleftrightarrow>
     needs S op \<le> d \<and> (\<forall>slot. slots_used op = Some slot \<longrightarrow> lv slot) \<and> (\<forall>name. op \<noteq> CallMethodDyn name 0)"

definition handler_at :: "struct_shape list \<Rightarrow> handler list \<Rightarrow> op list \<Rightarrow> nat list \<Rightarrow> handler \<Rightarrow> bool" where
  "handler_at S hs ops ds h \<longleftrightarrow>
     h_start h \<le> h_end h \<and> h_end h < h_target h \<and> h_target h < length ds \<and>
     ds ! h_target h = Suc (ds ! h_start h) \<and>
     (\<forall>ix. covers h ix \<longrightarrow> ds ! h_start h + needs S (ops ! ix) \<le> ds ! ix) \<and>
     (\<forall>h' \<in> set hs. h_start h < h_target h' \<and> h_target h' < h_end h \<longrightarrow> covers h (h_start h'))"

definition site_at :: "struct_shape list \<Rightarrow> op list \<Rightarrow> nat list \<Rightarrow> code_ix \<Rightarrow> nat \<Rightarrow> bool" where
  "site_at S ops ds s e \<longleftrightarrow>
     s < length ops \<and>
     (\<exists>fall t x. transition (ops ! s) S = Some (fall, Some (t, x)) \<and> int e = int (ds ! s) + x)"

definition label_at :: "handler list \<Rightarrow> nat list \<Rightarrow> code_ix \<Rightarrow> nat \<Rightarrow> bool" where
  "label_at hs ds p e \<longleftrightarrow>
     p < length ds \<and> ds ! p = e \<and> (\<forall>h \<in> set hs. \<not> (h_start h < p \<and> p < h_end h))"

definition fact_ok :: "frozen \<Rightarrow> (slot_ix \<Rightarrow> bool) \<Rightarrow> handler list \<Rightarrow> op list \<Rightarrow> nat list \<Rightarrow> fact \<Rightarrow> bool" where
  "fact_ok C lv hs ops ds x =
     (case x of
        Site s e \<Rightarrow> length (b_code C) \<le> s \<and> site_at (b_structs C) ops ds s e
      | Label p e \<Rightarrow> label_at hs ds p e
      | Live slot \<Rightarrow> lv slot
      | Cond b \<Rightarrow> b)"

definition code_wf ::
    "frozen \<Rightarrow> (slot_ix \<Rightarrow> bool) \<Rightarrow> handler list \<Rightarrow> op list \<Rightarrow> nat list \<Rightarrow> code_ix set \<Rightarrow> fact set \<Rightarrow> nat \<Rightarrow> bool"
where
  "code_wf C lv hs ops ds U F d \<longleftrightarrow>
     length ds = Suc (length ops) \<and> ds ! length ops = d \<and> (\<forall>ix < length ds. ds ! ix \<le> ix) \<and>
     length (b_code C) \<le> length ops \<and> take (length (b_code C)) ops = b_code C \<and>
     take (Suc (length (b_code C))) ds = b_depths C \<and>
     (\<forall>ix < length ops. op_fine (b_structs C) lv (ops ! ix) (ds ! ix) \<and>
        flow_at (b_structs C) hs ds (b_open C \<union> U) ix (ops ! ix)) \<and>
     (\<forall>ix < length ops. length (b_code C) \<le> ix \<longrightarrow> b_floor C + needs (b_structs C) (ops ! ix) \<le> ds ! ix) \<and>
     (\<exists>new. hs = b_handlers C @ new \<and> (\<forall>h \<in> set new. length (b_code C) \<le> h_start h)) \<and>
     (\<forall>h \<in> set hs. handler_at (b_structs C) hs ops ds h) \<and>
     (\<forall>x \<in> F. fact_ok C lv hs ops ds x) \<and> (\<forall>slot \<in> b_live C. lv slot)"

section \<open>Instructions\<close>

lemma transition_grows:
  "transition op S = Some (Some x, branch) \<Longrightarrow> x \<le> 1"
  by (cases op) (auto simp: transition_def net_effect_def i32_count_def split: if_splits)

lemma retarget_transition:
  assumes "retarget op t = Some op'"
  shows "\<exists>fall t0 x. transition op S = Some (fall, Some (t0, x)) \<and> transition op' S = Some (fall, Some (t, x))"
    and "needs S op' = needs S op" and "slots_used op' = None" and "op' \<noteq> CallMethodDyn name 0"
    and "retarget op' u \<noteq> None"
  using assms by (cases op; force simp: retarget_def transition_def needs_def slots_used_def)+

lemma site_retarget: "transition op S = Some (fall, Some (t0, x)) \<Longrightarrow> \<exists>op'. retarget op t = Some op'"
  by (cases op) (auto simp: retarget_def transition_def split: option.splits)

section \<open>Weakening\<close>

lemma goes_mono: "goes hs ds ix t e \<Longrightarrow> goes hs (ds @ r) ix t e"
  by (auto simp: goes_def nth_append)

lemma flow_at_mono: "flow_at S hs ds U ix op \<Longrightarrow> U \<subseteq> U' \<Longrightarrow> flow_at S hs ds U' ix op"
  unfolding flow_at_def by blast

lemma flow_at_append:
  "flow_at S hs ds U ix op \<Longrightarrow> Suc ix < length ds \<Longrightarrow> U \<subseteq> U' \<Longrightarrow> flow_at S hs (ds @ r) U' ix op"
  unfolding flow_at_def by (fastforce simp: nth_append intro: goes_mono)

lemma op_fine_mono: "op_fine S lv op d \<Longrightarrow> (\<And>slot. lv slot \<Longrightarrow> lv' slot) \<Longrightarrow> op_fine S lv' op d"
  by (auto simp: op_fine_def)

lemma code_wf_mono:
  assumes "code_wf C lv hs ops ds U F d" and "U \<subseteq> U'" and "\<And>slot. lv slot \<Longrightarrow> lv' slot"
    and "\<And>x. x \<in> F' \<Longrightarrow> x \<in> F \<or> fact_ok C lv' hs ops ds x"
  shows "code_wf C lv' hs ops ds U' F' d"
proof -
  have "fact_ok C lv' hs ops ds x" if "x \<in> F'" for x
    using assms(4) [OF that] assms(1,3) unfolding code_wf_def fact_ok_def by (fastforce split: fact.splits)
  moreover have "op_fine (b_structs C) lv' op n" if "op_fine (b_structs C) lv op n" for op n
    using op_fine_mono [OF that] assms(3) by blast
  moreover have "flow_at S hs ds (b_open C \<union> U') ix op" if "flow_at S hs ds (b_open C \<union> U) ix op" for S ix op
    using flow_at_mono [OF that] assms(2) by blast
  ultimately show ?thesis using assms(1,3) unfolding code_wf_def by (intro conjI) blast+
qed

lemma code_wf_fact: "code_wf C lv hs ops ds U F d \<Longrightarrow> x \<in> F \<Longrightarrow> fact_ok C lv hs ops ds x"
  by (simp add: code_wf_def)

lemma code_wf_here:
  assumes "code_wf C lv hs ops ds U F d"
  shows "fact_ok C lv hs ops ds (Label (length ops) d)"
  using assms by (fastforce simp: code_wf_def fact_ok_def label_at_def handler_at_def)

section \<open>Pushing an instruction\<close>

lemma handler_at_append:
  assumes "handler_at S hs ops ds h" and "length ds = Suc (length ops)"
  shows "handler_at S hs (ops @ [op]) (ds @ [d']) h"
  using assms unfolding handler_at_def covers_def
  by (auto simp: nth_append less_Suc_eq) 

lemma fact_ok_append:
  assumes "fact_ok C lv hs ops ds x" and "length ds = Suc (length ops)"
  shows "fact_ok C lv hs (ops @ [op]) (ds @ [d']) x"
  using assms unfolding fact_ok_def site_at_def label_at_def
  by (auto simp: nth_append less_Suc_eq split: fact.splits)

lemma code_wf_push:
  assumes wf: "code_wf C lv hs ops ds U F d" and op: "op_fine (b_structs C) lv op d"
    and fl: "b_floor C + needs (b_structs C) op \<le> d" and d': "d' \<le> Suc d"
    and tr: "transition op (b_structs C) = Some (fall, branch)" and U: "U \<subseteq> U'"
    and fall: "\<And>x. fall = Some x \<Longrightarrow> int d' = int d + x"
    and branch: "\<And>t x. branch = Some (t, x) \<Longrightarrow> 0 \<le> int d + x \<and>
      (length ops \<in> U' \<or> goes hs ds (length ops) t (int d + x))"
  shows "code_wf C lv hs (ops @ [op]) (ds @ [d']) U' F d'"
proof -
  let ?S = "b_structs C" and ?n = "length ops" and ?U = "b_open C \<union> U'"
  have len: "length ds = Suc ?n" and last: "ds ! ?n = d" and le: "\<And>ix. ix < length ds \<Longrightarrow> ds ! ix \<le> ix"
    using wf by (auto simp: code_wf_def)
  have "flow_at ?S hs (ds @ [d']) ?U ?n op"
    unfolding flow_at_def using tr fall branch len last
    by (fastforce simp: nth_append intro: goes_mono)
  moreover have "flow_at ?S hs (ds @ [d']) ?U ix (ops ! ix)" if "ix < ?n" for ix
  proof (rule flow_at_append)
    show "flow_at ?S hs ds (b_open C \<union> U) ix (ops ! ix)" using wf that by (simp add: code_wf_def)
  qed (use len that U in auto)
  ultimately have flow: "flow_at ?S hs (ds @ [d']) ?U ix ((ops @ [op]) ! ix)" if "ix < Suc ?n" for ix
    using that by (cases "ix = ?n") (auto simp: nth_append)
  have fine: "op_fine ?S lv ((ops @ [op]) ! ix) ((ds @ [d']) ! ix)" if "ix < Suc ?n" for ix
    using that wf op len last by (cases "ix = ?n") (auto simp: nth_append code_wf_def)
  have floor: "b_floor C + needs ?S ((ops @ [op]) ! ix) \<le> (ds @ [d']) ! ix"
    if "ix < Suc ?n" "length (b_code C) \<le> ix" for ix
    using that wf fl len last by (cases "ix = ?n") (auto simp: nth_append code_wf_def)
  have "(ds @ [d']) ! ix \<le> ix" if "ix < Suc (Suc ?n)" for ix
    using that le [of ix] le [of ?n] len last d' by (cases "ix = Suc ?n") (auto simp: nth_append)
  moreover have "\<forall>h \<in> set hs. handler_at ?S hs (ops @ [op]) (ds @ [d']) h"
    using wf len handler_at_append by (auto simp: code_wf_def)
  moreover have "\<forall>x \<in> F. fact_ok C lv hs (ops @ [op]) (ds @ [d']) x"
    using wf len fact_ok_append by (auto simp: code_wf_def)
  moreover have "(ds @ [d']) ! Suc ?n = d'" using len by (simp add: nth_append)
  ultimately show ?thesis
    using wf len flow fine floor by (simp add: code_wf_def)
qed

text \<open>The site of a jump that was just pushed.\<close>

lemma pushed_site:
  assumes "code_wf C lv hs (ops @ [op]) (ds @ [d']) U F d'" and "length (b_code C) \<le> length ops"
    and "transition op (b_structs C) = Some (fall, Some (t, x))" and "int e = int (ds ! length ops) + x"
  shows "fact_ok C lv hs (ops @ [op]) (ds @ [d']) (Site (length ops) e)"
  using assms by (auto simp: code_wf_def fact_ok_def site_at_def nth_append)

section \<open>Patching a jump\<close>

lemma code_wf_patch:
  assumes wf: "code_wf C lv hs ops ds U F d" and s: "Site s d \<in> F" and op': "retarget (ops ! s) (length ops) = Some op'"
  shows "code_wf C lv hs (ops[s := op']) ds (U - {s}) F d"
proof -
  let ?S = "b_structs C" and ?n = "length ops" and ?ops = "ops[s := op']"
  have len: "length ds = Suc ?n" and last: "ds ! ?n = d" using wf by (auto simp: code_wf_def)
  have "fact_ok C lv hs ops ds (Site s d)" using wf s unfolding code_wf_def by blast
  then have site: "length (b_code C) \<le> s" "site_at ?S ops ds s d" by (simp_all add: fact_ok_def)
  from site(2) have sn: "s < ?n" by (simp add: site_at_def)
  note rt = retarget_transition [OF op']
  obtain fall t0 x where t: "transition (ops ! s) ?S = Some (fall, Some (t0, x))"
    "transition op' ?S = Some (fall, Some (?n, x))" using rt(1) by blast
  with site(2) have dx: "int d = int (ds ! s) + x" by (auto simp: site_at_def)
  have nd: "needs ?S (?ops ! ix) = needs ?S (ops ! ix)" for ix
    using rt(2) sn by (cases "ix = s") (auto simp: nth_list_update)
  have tr: "\<exists>fall t0 x. transition (?ops ! ix) ?S = Some (fall, Some (t0, x)) \<and> P fall x"
    if "\<exists>fall t0 x. transition (ops ! ix) ?S = Some (fall, Some (t0, x)) \<and> P fall x" for ix P
    using that t sn by (cases "ix = s") auto
  have "flow_at ?S hs ds (b_open C \<union> (U - {s})) ix (?ops ! ix)" if ix: "ix < ?n" for ix
  proof (cases "ix = s")
    case True
    have "h_end h \<le> ?n" if "h \<in> set hs" for h
      using wf that len by (fastforce simp: code_wf_def handler_at_def)
    then have "goes hs ds s ?n (int d)" using len last by (fastforce simp: goes_def)
    moreover have "flow_at ?S hs ds (b_open C \<union> U) s (ops ! s)" using wf sn by (simp add: code_wf_def)
    ultimately show ?thesis using True t dx sn by (auto simp: flow_at_def)
  next
    case False
    have "flow_at ?S hs ds (b_open C \<union> U) ix (ops ! ix)" using wf ix by (simp add: code_wf_def)
    with False show ?thesis by (simp add: flow_at_def)
  qed
  moreover have "op_fine ?S lv (?ops ! ix) (ds ! ix)" if "ix < ?n" for ix
    using wf that nd [of ix] rt(3,4) sn
    by (cases "ix = s") (auto simp: code_wf_def op_fine_def nth_list_update)
  moreover have "handler_at ?S hs ?ops ds h" if "h \<in> set hs" for h
  proof -
    from wf that have "handler_at ?S hs ops ds h" by (simp add: code_wf_def)
    with nd show ?thesis by (simp add: handler_at_def)
  qed
  moreover have "fact_ok C lv hs ?ops ds y" if "y \<in> F" for y
  proof -
    from wf that have "fact_ok C lv hs ops ds y" by (simp add: code_wf_def)
    then show ?thesis using t sn
      by (auto simp: fact_ok_def site_at_def nth_list_update split: fact.splits if_splits)
  qed
  moreover have "take (length (b_code C)) ?ops = b_code C" using wf site(1) by (simp add: code_wf_def)
  ultimately show ?thesis using wf nd len unfolding code_wf_def by simp
qed

section \<open>Protected code\<close>

text \<open>The frame under which protected code is compiled: what was emitted before is frozen, and
  its operands may not be touched.\<close>

definition freeze :: "frozen \<Rightarrow> (slot_ix \<Rightarrow> bool) \<Rightarrow> handler list \<Rightarrow> op list \<Rightarrow> nat list \<Rightarrow> code_ix set \<Rightarrow> nat \<Rightarrow> frozen" where
  "freeze C lv hs ops ds U d =
     \<lparr>b_structs = b_structs C, b_code = ops, b_depths = ds, b_handlers = hs, b_open = b_open C \<union> U,
      b_live = {slot. lv slot}, b_floor = d, b_clean = True\<rparr>"

lemma code_wf_freeze:
  assumes "code_wf C lv hs ops ds U F d"
  shows "code_wf (freeze C lv hs ops ds U d) lv hs ops ds {} {} d"
  using assms by (simp add: code_wf_def freeze_def)

lemma frozen_part:
  assumes wf: "code_wf C lv hs ops ds U F d" and wf': "code_wf (freeze C lv hs ops ds U d) lv' hs' ops' ds' {} {} d'"
  shows "ix < length ops \<Longrightarrow> ops' ! ix = ops ! ix" and "ix < length ds \<Longrightarrow> ds' ! ix = ds ! ix"
    and "length ops \<le> length ops'" and "length ds \<le> length ds'"
    and "\<exists>new. hs' = hs @ new \<and> (\<forall>h \<in> set new. length ops \<le> h_start h)"
proof -
  have t: "take (length ops) ops' = ops" "take (length ds) ds' = ds" "length ops \<le> length ops'"
    "length ds \<le> length ds'"
    using wf wf' by (auto simp: code_wf_def freeze_def)
  then show "length ops \<le> length ops'" "length ds \<le> length ds'" by simp_all
  show "ops' ! ix = ops ! ix" if "ix < length ops"
    using nth_take [OF that, of ops'] t(1) by simp
  show "ds' ! ix = ds ! ix" if "ix < length ds"
    using nth_take [OF that, of ds'] t(2) by simp
  show "\<exists>new. hs' = hs @ new \<and> (\<forall>h \<in> set new. length ops \<le> h_start h)"
    using wf' by (simp add: code_wf_def freeze_def)
qed

lemma fact_ok_thaw:
  assumes wf: "code_wf C lv hs ops ds U F d" and wf': "code_wf (freeze C lv hs ops ds U d) lv' hs' ops' ds' {} {} d'"
    and x: "x \<in> F"
  shows "fact_ok C lv' hs' ops' ds' x"
proof -
  note fp = frozen_part [OF wf wf']
  have len: "length ds = Suc (length ops)" using wf by (simp add: code_wf_def)
  have ok: "fact_ok C lv hs ops ds x" using wf x by (simp add: code_wf_def)
  obtain new where new: "hs' = hs @ new" "\<forall>h \<in> set new. length ops \<le> h_start h" using fp(5) by blast
  have lv: "lv' slot" if "lv slot" for slot using wf' that by (simp add: code_wf_def freeze_def)
  show ?thesis
  proof (cases x)
    case (Site s e)
    with ok fp(1) [of s] fp(2) [of s] fp(3) len show ?thesis
      by (auto simp: fact_ok_def site_at_def)
  next
    case (Label p e)
    with ok fp(2) [of p] fp(4) len new show ?thesis by (fastforce simp: fact_ok_def label_at_def)
  qed (use ok lv in \<open>simp_all add: fact_ok_def\<close>)
qed

lemma code_wf_thaw:
  assumes wf: "code_wf C lv hs ops ds U F d" and wf': "code_wf (freeze C lv hs ops ds U d) lv' hs' ops' ds' {} {} d'"
    and fl: "b_floor C \<le> d"
  shows "code_wf C lv' hs' ops' ds' U F d'"
proof -
  note fp = frozen_part [OF wf wf']
  have len: "length ds = Suc (length ops)" using wf by (simp add: code_wf_def)
  obtain new where new: "hs' = hs @ new" "\<forall>h \<in> set new. length ops \<le> h_start h" using fp(5) by blast
  obtain old where old: "hs = b_handlers C @ old" "\<forall>h \<in> set old. length (b_code C) \<le> h_start h"
    using wf unfolding code_wf_def by blast
  have bc: "length (b_code C) \<le> length ops" "take (length (b_code C)) ops = b_code C"
    "take (Suc (length (b_code C))) ds = b_depths C"
    using wf by (simp_all add: code_wf_def)
  have t: "take (length ops) ops' = ops" "take (length ds) ds' = ds"
    using wf' len by (simp_all add: code_wf_def freeze_def)
  have "take (length (b_code C)) ops' = b_code C"
    using bc t(1) by (metis min.absorb1 take_take)
  moreover have "take (Suc (length (b_code C))) ds' = b_depths C"
    using bc t(2) len by (metis Suc_le_mono min.absorb1 take_take)
  moreover have "\<exists>n. hs' = b_handlers C @ n \<and> (\<forall>h \<in> set n. length (b_code C) \<le> h_start h)"
    using old new bc(1) by (intro exI [of _ "old @ new"]) auto
  moreover have "b_floor C + needs (b_structs C) (ops' ! ix) \<le> ds' ! ix"
    if "ix < length ops'" "length (b_code C) \<le> ix" for ix
  proof (cases "ix < length ops")
    case True
    with wf that fp(1) [OF True] fp(2) [of ix] len show ?thesis by (simp add: code_wf_def)
  next
    case False
    with wf' that fl show ?thesis by (fastforce simp: code_wf_def freeze_def)
  qed
  moreover have "lv' slot" if "slot \<in> b_live C" for slot
    using wf wf' that by (simp add: code_wf_def freeze_def)
  ultimately show ?thesis
    using wf' bc(1) fp(3) fact_ok_thaw [OF wf wf'] by (auto simp: code_wf_def freeze_def)
qed

text \<open>The handler of code compiled under the frame, whose end is left by a jump.\<close>

lemma code_wf_protect:
  assumes wf: "code_wf C lv hs ops ds U F d" and wf': "code_wf (freeze C lv hs ops ds U d) lv' hs' ops' ds' {} {} (Suc d)"
    and fl: "b_floor C \<le> d"
    and h: "h = \<lparr>h_start = length ops, h_end = length ops', h_target = Suc (length ops'), h_depth = n\<rparr>"
  shows "code_wf C lv' (hs' @ [h]) (ops' @ [Jump t]) (ds' @ [Suc d]) (insert (length ops') U) F (Suc d)"
    and "fact_ok C lv' (hs' @ [h]) (ops' @ [Jump t]) (ds' @ [Suc d]) (Site (length ops') (Suc d))"
proof -
  let ?S = "b_structs C" and ?ops = "ops' @ [Jump t]" and ?ds = "ds' @ [Suc d]" and ?U = "insert (length ops') U"
  note fp = frozen_part [OF wf wf']
  obtain new where new: "hs' = hs @ new" "\<forall>h \<in> set new. length ops \<le> h_start h" using fp(5) by blast
  have len: "length ds = Suc (length ops)" "length ds' = Suc (length ops')" and d: "ds ! length ops = d" "ds' ! length ops' = Suc d"
    using wf wf' by (simp_all add: code_wf_def)
  have push: "code_wf C lv' hs' ?ops ?ds ?U F (Suc d)"
    by (rule code_wf_push [OF code_wf_thaw [OF wf wf' fl], where fall = None and branch = "Some (t, 0)"])
      (use fl in \<open>auto simp: op_fine_def needs_def slots_used_def transition_def\<close>)
  have st: "?ds ! length ops = d" "?ds ! Suc (length ops') = Suc d"
    using fp(2) [of "length ops"] fp(3,4) d len by (auto simp: nth_append)
  have bound: "h_end g < length ops'" "h_target g < length ds'" "h_end g < h_target g" "h_start g \<le> h_end g"
    if "g \<in> set hs'" for g
    using wf' that len by (auto simp: code_wf_def handler_at_def freeze_def)
  have old: "h_target g \<le> length ops" if "g \<in> set hs" for g
    using wf that len by (fastforce simp: code_wf_def handler_at_def)
  have self: "?ds ! h_start h + needs ?S (?ops ! ix) \<le> ?ds ! ix" if "covers h ix" for ix
  proof -
    from that h have ix: "length ops \<le> ix" "ix < length ops'" by (auto simp: covers_def)
    then have "d + needs ?S (ops' ! ix) \<le> ds' ! ix"
      using wf' by (simp add: code_wf_def freeze_def)
    with ix len st h show ?thesis by (simp add: nth_append)
  qed
  have inside: "covers h (h_start g)"
    if "g \<in> set (hs' @ [h])" "h_start h < h_target g" "h_target g < h_end h" for g
  proof -
    from that h have g: "g \<in> set hs'" by auto
    with that(2) h old have "g \<notin> set hs" by fastforce
    with g new have "length ops \<le> h_start g" by auto
    with that(3) bound [OF g] h show ?thesis by (auto simp: covers_def)
  qed
  have flow: "flow_at ?S (hs' @ [h]) ?ds (b_open C \<union> ?U) ix (?ops ! ix)" if ix: "ix < Suc (length ops')" for ix
  proof -
    have f: "flow_at ?S hs' ?ds (b_open C \<union> ?U) ix (?ops ! ix)" using push ix by (simp add: code_wf_def)
    have "h_start h < u \<and> u < h_end h \<Longrightarrow> covers h ix"
      if "transition (?ops ! ix) ?S = Some (fall, Some (u, x))" "ix \<notin> b_open C \<union> ?U" for fall u x
    proof (rule ccontr)
      assume u: "h_start h < u \<and> u < h_end h" "\<not> covers h ix"
      from that(2) ix have "ix < length ops'" by auto
      with u(2) h have lt: "ix < length ops" by (auto simp: covers_def)
      with wf have "flow_at ?S hs ds (b_open C \<union> U) ix (ops ! ix)" by (simp add: code_wf_def)
      moreover have "?ops ! ix = ops ! ix" using lt fp(1,3) by (simp add: nth_append)
      ultimately have "u < length ds" using that by (auto simp: flow_at_def goes_def)
      with u(1) h len show False by simp
    qed
    with f show ?thesis by (fastforce simp: flow_at_def goes_def)
  qed
  have hat: "handler_at ?S (hs' @ [h]) ?ops ?ds g" if "g \<in> set (hs' @ [h])" for g
  proof (cases "g = h")
    case True
    with self inside h st len fp(3) show ?thesis by (auto simp: handler_at_def)
  next
    case False
    with that have g: "g \<in> set hs'" by simp
    with push have "handler_at ?S hs' ?ops ?ds g" by (simp add: code_wf_def)
    moreover have "\<not> h_target h < h_end g" using bound [OF g] h by simp
    ultimately show ?thesis by (auto simp: handler_at_def)
  qed
  have fok: "fact_ok C lv' (hs' @ [h]) ?ops ?ds x" if "fact_ok C lv' hs' ?ops ?ds x"
    "\<And>p e. x = Label p e \<Longrightarrow> p \<le> length ops" for x
    using that h by (fastforce simp: fact_ok_def label_at_def split: fact.splits)
  have "p \<le> length ops" if "Label p e \<in> F" for p e
  proof -
    from wf that have "fact_ok C lv hs ops ds (Label p e)" unfolding code_wf_def by blast
    with len show ?thesis by (simp add: fact_ok_def label_at_def)
  qed
  moreover have "\<forall>x \<in> F. fact_ok C lv' hs' ?ops ?ds x" using push by (simp add: code_wf_def)
  ultimately have facts: "\<forall>x \<in> F. fact_ok C lv' (hs' @ [h]) ?ops ?ds x" using fok by blast
  have bc: "length (b_code C) \<le> length ops" using wf by (simp add: code_wf_def)
  obtain n where "hs' = b_handlers C @ n" "\<forall>h \<in> set n. length (b_code C) \<le> h_start h"
    using push unfolding code_wf_def by blast
  with h bc have "\<exists>n. hs' @ [h] = b_handlers C @ n \<and> (\<forall>h \<in> set n. length (b_code C) \<le> h_start h)"
    by (intro exI [of _ "n @ [h]"]) auto
  with push flow hat facts show "code_wf C lv' (hs' @ [h]) ?ops ?ds ?U F (Suc d)"
    by (simp add: code_wf_def del: take_append)
  show "fact_ok C lv' (hs' @ [h]) ?ops ?ds (Site (length ops') (Suc d))"
    using bc fp(3) d(2) len by (auto simp: fact_ok_def site_at_def transition_def nth_append)
qed

section \<open>Finished code\<close>

definition fresh :: "struct_shape list \<Rightarrow> bool \<Rightarrow> frozen" where
  "fresh S b =
     \<lparr>b_structs = S, b_code = [], b_depths = [0], b_handlers = [], b_open = {}, b_live = {}, b_floor = 0, b_clean = b\<rparr>"

lemma code_wf_fresh: "code_wf (fresh S b) lv [] [] [0] {} {} 0"
  by (simp add: code_wf_def fresh_def)

text \<open>Every edge and every handler of finished code, which ends in a \<open>Ret\<close> at depth \<open>Suc d\<close>.\<close>

definition layout_depth :: "op list \<Rightarrow> nat list \<Rightarrow> assignment" where
  "layout_depth ops ds ix = (if ix < length ops then Some (ds ! ix) else None)"

lemma finished_shape:
  assumes wf: "code_wf (fresh S b) lv hs ops ds {} F (Suc d)"
  shows "length ds = Suc (length ops)" and "ds ! length ops = Suc d" and "ds ! 0 = 0"
  using wf by (auto simp: code_wf_def)

lemma finished_flow:
  assumes wf: "code_wf (fresh S b) lv hs ops ds {} F (Suc d)" and "ix < length ops"
  shows "op_fine S lv (ops ! ix) (ds ! ix)" and "flow_at S hs ds {} ix (ops ! ix)"
  using wf assms by (simp_all add: code_wf_def fresh_def)

lemma finished_stable:
  assumes wf: "code_wf (fresh S b) lv hs ops ds {} F (Suc d)"
  shows "stable (ops @ [Ret]) S (layout_depth (ops @ [Ret]) ds)"
  unfolding stable_def
proof (intro allI impI)
  fix ix n assume a: "layout_depth (ops @ [Ret]) ds ix = Some n"
  then have ix: "ix < Suc (length ops)" "ds ! ix = n" by (simp_all add: layout_depth_def split: if_splits)
  show "stable_at (ops @ [Ret]) S (layout_depth (ops @ [Ret]) ds) ix n"
  proof (cases "ix = length ops")
    case True
    then show ?thesis by (simp add: stable_at_def transition_def)
  next
    case False
    with ix have lt: "ix < length ops" by simp
    obtain fall branch where t: "transition (ops ! ix) S = Some (fall, branch)"
      "\<And>x. fall = Some x \<Longrightarrow> int (ds ! Suc ix) = int n + x"
      "\<And>t x. branch = Some (t, x) \<Longrightarrow> 0 \<le> int n + x \<and> goes hs ds ix t (int n + x)"
      using finished_flow(2) [OF wf lt] ix(2) unfolding flow_at_def by auto
    have "case fall of None \<Rightarrow> True | Some x \<Rightarrow> fits (layout_depth (ops @ [Ret]) ds) (ix + 1) n x"
      using t(2) lt by (cases fall) (simp_all add: fits_def layout_depth_def)
    moreover have "case branch of None \<Rightarrow> True | Some (t, x) \<Rightarrow> fits (layout_depth (ops @ [Ret]) ds) t n x"
      using t(3) finished_shape(1) [OF wf] by (cases branch) (auto simp: fits_def layout_depth_def goes_def)
    ultimately show ?thesis using t(1) lt by (auto simp: stable_at_def nth_append)
  qed
qed

lemma finished_bounded:
  assumes wf: "code_wf (fresh S b) lv hs ops ds {} F (Suc d)"
  shows "length ops < 2 ^ 32 \<Longrightarrow> bounded (layout_depth (ops @ [Ret]) ds) u32_max"
  using wf by (fastforce simp: code_wf_def bounded_def layout_depth_def u32_max_def)

lemma finished_handlers:
  assumes wf: "code_wf (fresh S b) lv hs ops ds {} F (Suc d)" and "h \<in> set hs"
  shows "handler_at S hs ops ds h" and "h_target h < Suc (length ops)"
proof -
  from assms have "handler_at (b_structs (fresh S b)) hs ops ds h" unfolding code_wf_def by blast
  then show "handler_at S hs ops ds h" by (simp add: fresh_def)
  then show "h_target h < Suc (length ops)" using finished_shape(1) [OF wf] by (simp add: handler_at_def)
qed

lemma finished_dispatch:
  assumes wf: "code_wf (fresh S b) lv hs ops ds {} F (Suc d)"
  shows "dispatch_ok (ops @ [Ret]) (layout_depth (ops @ [Ret]) ds) hs"
  using finished_handlers [OF wf] by (fastforce simp: dispatch_ok_def layout_depth_def handler_at_def)

lemma same_range_members:
  assumes "list_all2 same_range hs hs'"
  shows "h \<in> set hs' \<Longrightarrow> \<exists>g \<in> set hs. h_start g = h_start h \<and> h_end g = h_end h \<and> h_target g = h_target h"
    and "h \<in> set hs \<Longrightarrow> \<exists>g \<in> set hs'. h_start g = h_start h \<and> h_end g = h_end h \<and> h_target g = h_target h"
  using assms by (induction rule: list_all2_induct) (auto simp: same_range_def)

text \<open>Protected code is entered through its first instruction, so where the pass does not reach the
  start of a range it reaches nothing in it.\<close>

lemma range_reached:
  assumes wf: "code_wf (fresh S b) lv hs ops ds {} F (Suc d)"
    and a: "analyse True (ops @ [Ret]) hs2 S = Some (depths, mx, hs3)" and mx: "mx < u32_max"
    and r: "list_all2 same_range hs hs2" and w: "within depths (layout_depth (ops @ [Ret]) ds)"
    and h: "h \<in> set hs2" and ix: "covers h ix" "depth_of depths ix = Some n"
  shows "depth_of depths (h_start h) \<noteq> None"
proof
  assume none: "depth_of depths (h_start h) = None"
  let ?D = "depth_of depths" and ?ops = "ops @ [Ret]"
  let ?E = "\<lambda>ix. if covers h ix then None else ?D ix"
  note ok = analyse_correct [OF a mx]
  note fs = finished_shape [OF wf] and flow = finished_flow [OF wf]
  note range = same_range_members(1) [OF r]
  obtain g where g: "g \<in> set hs" "h_start g = h_start h" "h_end g = h_end h" using range [OF h] by blast
  have cov: "covers g = covers h" using g by (auto simp: covers_def)
  have enter: "u = h_start h \<or> h_start h < u \<and> u < h_end h" if "covers h u" for u
    using that by (auto simp: covers_def)
  have st: "stable ?ops S ?E"
    unfolding stable_def
  proof (intro allI impI)
    fix i m assume i: "?E i = Some m"
    then have D: "?D i = Some m" "\<not> covers h i" by (auto split: if_splits)
    with ok(1) have "stable_at ?ops S ?D i m" by (simp add: stable_def)
    then obtain fall branch where t: "i < length ?ops" "transition (?ops ! i) S = Some (fall, branch)"
      "case fall of None \<Rightarrow> True | Some x \<Rightarrow> fits ?D (i + 1) m x"
      "case branch of None \<Rightarrow> True | Some (t, x) \<Rightarrow> fits ?D t m x"
      unfolding stable_at_def by blast
    have stay: "fits ?E u m x" if "fits ?D u m x" "u = h_start h \<or> \<not> covers h u" for u x
      using that none by (auto simp: fits_def)
    have "\<not> covers h (i + 1) \<or> i + 1 = h_start h"
      using D(2) by (auto simp: covers_def)
    with t(3) stay have "case fall of None \<Rightarrow> True | Some x \<Rightarrow> fits ?E (i + 1) m x"
      by (auto split: option.split)
    moreover have "u = h_start h \<or> \<not> covers h u" if b: "branch = Some (u, x)" for u x
    proof (rule ccontr)
      assume u: "\<not> (u = h_start h \<or> \<not> covers h u)"
      then have "h_start g < u \<and> u < h_end g" using enter g by auto
      moreover from t(1,2) b have il: "i < length ops" "transition (ops ! i) S = Some (fall, Some (u, x))"
        by (auto simp: nth_append transition_def split: if_splits)
      with flow(2) [OF il(1)] have "goes hs ds i u (int (ds ! i) + x)" by (auto simp: flow_at_def)
      ultimately have "covers g i" using g(1) by (simp add: goes_def)
      with cov D(2) show False by simp
    qed
    with t(4) stay have "case branch of None \<Rightarrow> True | Some (t, x) \<Rightarrow> fits ?E t m x"
      by (auto split: option.split)
    ultimately show "stable_at ?ops S ?E i m" using t(1,2) by (auto simp: stable_at_def)
  qed
  have "dispatch_ok ?ops ?E hs2"
    unfolding dispatch_ok_def
  proof (intro ballI conjI allI impI)
    fix h' assume h': "h' \<in> set hs2"
    obtain g' where g': "g' \<in> set hs" "h_start g' = h_start h'" "h_target g' = h_target h'" using range [OF h'] by blast
    then show "h_start h' < length ?ops"
      using finished_handlers [OF wf, of g'] by (auto simp: handler_at_def)
    fix m assume "?E (h_start h') = Some m"
    then have m: "?D (h_start h') = Some m" "\<not> covers h (h_start h')" by (auto split: if_splits)
    obtain h'' where "h'' \<in> set hs3" "h_start h'' = h_start h'" "h_target h'' = h_target h'"
      using same_range_members(2) [OF ok(5) h'] by blast
    with ok(4) m(1) have t: "?D (h_target h') = Some (m + 1)" by (auto simp: handlers_placed_def)
    have "\<not> covers h (h_target h')"
    proof
      assume "covers h (h_target h')"
      with none t have "h_start g < h_target g'" "h_target g' < h_end g"
        using enter [of "h_target h'"] g g' by auto
      with finished_handlers(1) [OF wf g(1)] g'(1,2) m(2) cov show False by (fastforce simp: handler_at_def)
    qed
    with t show "?E (h_target h') = Some (m + 1)" by simp
  qed
  moreover have "?E 0 = Some 0" using ok(2) none by (cases "h_start h = 0") (auto simp: covers_def)
  moreover have "bounded ?E mx" using ok(3) by (auto simp: bounded_def)
  ultimately have "within depths ?E"
    using analyse_total [OF st, of mx hs2] a mx by auto
  then have "?E ix = Some n" using ix(2) unfolding within_def by blast
  with ix(1) show False by simp
qed

lemma finished_analyse:
  assumes wf: "code_wf (fresh S b) lv hs ops ds {} F (Suc d)" and len: "length ops < 2 ^ 32"
  shows "\<exists>depths mx hs2. analyse True (ops @ [Ret]) hs S = Some (depths, mx, hs2) \<and>
    within depths (layout_depth (ops @ [Ret]) ds)"
proof -
  have "layout_depth (ops @ [Ret]) ds 0 = Some 0" using finished_shape [OF wf] by (simp add: layout_depth_def)
  from analyse_total [OF finished_stable [OF wf] this finished_bounded [OF wf len] order_refl finished_dispatch [OF wf]]
  show ?thesis by blast
qed

text \<open>Finished code passes the check of the module, with the handlers and the \<open>max_stack\<close> that the
  depth pass gives it.\<close>

lemma finished_checked:
  assumes wf: "code_wf (fresh S b) lv hs ops ds {} F (Suc d)" and len: "length ops < 2 ^ 32"
    and a: "analyse True (ops @ [Ret]) hs S = Some (depths, mx, hs2)" and mx: "mx \<le> u16_max"
    and fn: "code (fn_chunk fn) = ops @ [Ret]" "handlers (fn_chunk fn) = hs2" "max_stack fn = mx"
      "\<And>slot. lv slot \<Longrightarrow> slot < locals fn"
  shows "check_fn S fn"
proof -
  let ?ops = "ops @ [Ret]"
  have lt: "m \<le> mx \<Longrightarrow> m < u32_max" for m using mx by (simp add: u16_max_def u32_max_def)
  note ok = analyse_correct [OF a lt [OF order_refl]]
  from finished_analyse [OF wf len] a have w: "within depths (layout_depth ?ops ds)" by auto
  have "h_start h < length ?ops" if hin: "h \<in> set hs2" for h
  proof -
    obtain g where "g \<in> set hs" "h_start g = h_start h"
      using same_range_members(1) [OF ok(5) hin] by blast
    with finished_handlers [OF wf, of g] show ?thesis by (auto simp: handler_at_def)
  qed
  with ok(4) have "dispatch_ok ?ops (depth_of depths) hs2"
    by (simp add: dispatch_ok_def handlers_placed_def)
  from analyse_total [OF ok(1,2) _ less_imp_le [OF lt [OF order_refl]] this] ok(3)
  obtain depths2 mx2 hs3 where a2: "analyse True ?ops hs2 S = Some (depths2, mx2, hs3)" "mx2 \<le> mx"
    "within depths2 (depth_of depths)" by (auto simp: bounded_def)
  note ok2 = analyse_correct [OF a2(1) lt [OF a2(2)]]
  have w2: "within depths2 (layout_depth ?ops ds)" using w a2(3) by (simp add: within_def)
  have "checked_at S fn depths2 ix" if "ix < length depths2" for ix
  proof (cases "depths2 ! ix")
    case (Some n)
    with that have D: "depth_of depths2 ix = Some n" by (simp add: depth_of_def)
    with w2 have "layout_depth ?ops ds ix = Some n" by (simp add: within_def)
    then have ix: "ix < Suc (length ops)" "n = ds ! ix" by (simp_all add: layout_depth_def split: if_splits)
    have fine: "op_fine S lv (?ops ! ix) n"
      using finished_flow(1) [OF wf, of ix] ix finished_shape(2) [OF wf]
      by (cases "ix = length ops") (auto simp: nth_append op_fine_def needs_def slots_used_def)
    have "depth_of depths2 (h_target h) = Some (h_depth h + 1) \<and> h_depth h + needs S (?ops ! ix) \<le> n"
      if "handler_for (fn_chunk fn) ix = Some h" for h
    proof -
      from handler_for_Some [OF that] fn(2) have h: "h \<in> set hs2" "covers h ix" by auto
      from range_reached [OF wf a2(1) lt [OF a2(2)] ok(5) w2 h D]
      obtain m where m: "depth_of depths2 (h_start h) = Some m" by blast
      then have m1: "depth_of depths (h_start h) = Some m" "layout_depth ?ops ds (h_start h) = Some m"
        using a2(3) w2 by (simp_all add: within_def)
      then have "h_depth h = cap16 m" using ok(4) h(1) by (simp add: handlers_placed_def)
      moreover have "m \<le> u16_max" using ok(3) [OF m1(1)] mx by simp
      ultimately have hd: "h_depth h = m" by (simp add: cap16_def u16_max_def)
      obtain h3 where "h3 \<in> set hs3" "h_start h3 = h_start h" "h_target h3 = h_target h"
        using same_range_members(2) [OF ok2(5) h(1)] by blast
      with ok2(4) m have t: "depth_of depths2 (h_target h) = Some (m + 1)" by (auto simp: handlers_placed_def)
      obtain g where g: "g \<in> set hs" "h_start g = h_start h" "h_end g = h_end h"
        using same_range_members(1) [OF ok(5) h(1)] by blast
      have gh: "handler_at S hs ops ds g" "h_target g < Suc (length ops)"
        using finished_handlers [OF wf g(1)] by simp_all
      from h(2) g have cg: "covers g ix" by (auto simp: covers_def)
      with gh have "ix < length ops" by (auto simp: handler_at_def covers_def)
      with gh(1) cg have "ds ! h_start h + needs S (?ops ! ix) \<le> n"
        using ix(2) g(2) by (simp add: handler_at_def nth_append)
      moreover have "ds ! h_start h = m" using m1(2) by (simp add: layout_depth_def split: if_splits)
      ultimately show ?thesis using hd t by simp
    qed
    with fine Some fn show ?thesis
      by (auto simp: checked_at_def op_fine_def Let_def split: option.split op.split)
  qed (simp add: checked_at_def)
  with a2 mx fn show ?thesis by (simp add: check_fn_def list_all_iff)
qed

end
