(* ===== verification/Type_Terms.thy ===== *)
theory Type_Terms
  imports Brasa_Prelude
begin

text \<open>
  The checker's type representation (\<open>brasa_typeck/src/types.rs\<close>): the type
  \<open>ty\<close> of checker types, structural unification \<open>unify\<close>, and substitution of rigid
  generic parameters. The abstract view is the information order \<open>known_le\<close>: an unknown
  type carries least information, \<open>never\<close> comes next, every other type is ordered
  argument by argument. Unification is shown to compute least upper bounds in it.
\<close>

section \<open>Types of the checker\<close>

type_synonym item_id = nat

datatype def_ref = DefItem item_id | DefMethod item_id nat

datatype ty =
    TInt | TFloat | TBool | TString | TChar | TUnit | TNever | TUnknown | TRange
  | TVector ty
  | TMap ty ty
  | TSet ty
  | TOption ty
  | TTuple "ty list"
  | TFn "ty list" ty
  | TStruct item_id "ty list"
  | TEnum item_id "ty list"
  | TGeneric def_ref nat
  | TProcOutput | THttpResponse | TCliArgs | TWalk | TStat
  | TCommon "ty list"
  | TNativeError | TProcNonZeroExit | TJson | TConcurrentScope
  | TTask ty

definition is_flexible :: "ty \<Rightarrow> bool" where
  "is_flexible t \<longleftrightarrow> t = TUnknown \<or> t = TNever"

definition eq_join :: "ty \<Rightarrow> ty \<Rightarrow> ty option" where
  "eq_join a b = (if a = b then Some a else None)"

fun unify :: "ty \<Rightarrow> ty \<Rightarrow> ty option"
  and unify_all :: "ty list \<Rightarrow> ty list \<Rightarrow> ty list option" where
  "unify a b =
     (if a = TUnknown then Some b else if b = TUnknown then Some a
      else if a = TNever then Some b else if b = TNever then Some a
      else case a of
        TVector x \<Rightarrow> (case b of TVector y \<Rightarrow> map_option TVector (unify x y) | _ \<Rightarrow> eq_join a b)
      | TSet x \<Rightarrow> (case b of TSet y \<Rightarrow> map_option TSet (unify x y) | _ \<Rightarrow> eq_join a b)
      | TTask x \<Rightarrow> (case b of TTask y \<Rightarrow> map_option TTask (unify x y) | _ \<Rightarrow> eq_join a b)
      | TOption x \<Rightarrow> (case b of TOption y \<Rightarrow> map_option TOption (unify x y) | _ \<Rightarrow> eq_join a b)
      | TMap ka va \<Rightarrow> (case b of
            TMap kb vb \<Rightarrow>
              (case unify ka kb of None \<Rightarrow> None
               | Some k \<Rightarrow> map_option (TMap k) (unify va vb))
          | _ \<Rightarrow> eq_join a b)
      | TTuple xs \<Rightarrow> (case b of
            TTuple ys \<Rightarrow>
              if length xs \<noteq> length ys then None else map_option TTuple (unify_all xs ys)
          | _ \<Rightarrow> eq_join a b)
      | TFn pa ra \<Rightarrow> (case b of
            TFn pb rb \<Rightarrow>
              if length pa \<noteq> length pb then None
              else (case unify_all pa pb of None \<Rightarrow> None
                    | Some ps \<Rightarrow> map_option (TFn ps) (unify ra rb))
          | _ \<Rightarrow> eq_join a b)
      | TStruct x xa \<Rightarrow> (case b of
            TStruct y ya \<Rightarrow>
              if x = y \<and> length xa = length ya then map_option (TStruct x) (unify_all xa ya)
              else eq_join a b
          | _ \<Rightarrow> eq_join a b)
      | TEnum x xa \<Rightarrow> (case b of
            TEnum y ya \<Rightarrow>
              if x = y \<and> length xa = length ya then map_option (TEnum x) (unify_all xa ya)
              else eq_join a b
          | _ \<Rightarrow> eq_join a b)
      | _ \<Rightarrow> eq_join a b)"
| "unify_all (x # xs) (y # ys) =
     (case unify x y of None \<Rightarrow> None | Some z \<Rightarrow> map_option ((#) z) (unify_all xs ys))"
| "unify_all _ _ = Some []"

declare unify.simps [simp del]

fun substitute :: "(def_ref \<times> nat \<Rightarrow> ty option) \<Rightarrow> ty \<Rightarrow> ty" where
  "substitute m (TGeneric owner index) =
     (case m (owner, index) of Some t \<Rightarrow> t | None \<Rightarrow> TGeneric owner index)"
| "substitute m (TVector e) = TVector (substitute m e)"
| "substitute m (TSet e) = TSet (substitute m e)"
| "substitute m (TTask e) = TTask (substitute m e)"
| "substitute m (TOption e) = TOption (substitute m e)"
| "substitute m (TMap k v) = TMap (substitute m k) (substitute m v)"
| "substitute m (TTuple es) = TTuple (map (substitute m) es)"
| "substitute m (TFn ps r) = TFn (map (substitute m) ps) (substitute m r)"
| "substitute m (TStruct i as) = TStruct i (map (substitute m) as)"
| "substitute m (TEnum i as) = TEnum i (map (substitute m) as)"
| "substitute m t = t"

section \<open>Shapes: one view of every structural case\<close>

text \<open>\<open>parts\<close> lists the components unification descends into, \<open>shape\<close> blanks them out,
  and \<open>rebuild\<close> puts new ones in.\<close>

fun parts :: "ty \<Rightarrow> ty list" where
  "parts (TVector x) = [x]"
| "parts (TSet x) = [x]"
| "parts (TTask x) = [x]"
| "parts (TOption x) = [x]"
| "parts (TMap k v) = [k, v]"
| "parts (TTuple xs) = xs"
| "parts (TFn ps r) = r # ps"
| "parts (TStruct i xs) = xs"
| "parts (TEnum i xs) = xs"
| "parts _ = []"

fun rebuild :: "ty \<Rightarrow> ty list \<Rightarrow> ty" where
  "rebuild (TVector x) ys = TVector (hd ys)"
| "rebuild (TSet x) ys = TSet (hd ys)"
| "rebuild (TTask x) ys = TTask (hd ys)"
| "rebuild (TOption x) ys = TOption (hd ys)"
| "rebuild (TMap k v) ys = TMap (hd ys) (hd (tl ys))"
| "rebuild (TTuple xs) ys = TTuple ys"
| "rebuild (TFn ps r) ys = TFn (tl ys) (hd ys)"
| "rebuild (TStruct i xs) ys = TStruct i ys"
| "rebuild (TEnum i xs) ys = TEnum i ys"
| "rebuild t _ = t"

definition shape :: "ty \<Rightarrow> ty" where
  "shape t = rebuild t (replicate (length (parts t)) TUnknown)"

lemma rebuild_parts [simp]: "rebuild t (parts t) = t"
  by (cases t) auto

lemma parts_rebuild [simp]: "length ys = length (parts t) \<Longrightarrow> parts (rebuild t ys) = ys"
  by (cases t) (auto simp: length_Suc_conv numeral_2_eq_2)

lemma rebuild_rebuild [simp]: "rebuild (rebuild t ys) zs = rebuild t zs"
  by (cases t) auto

lemma shape_rebuild [simp]: "length ys = length (parts t) \<Longrightarrow> shape (rebuild t ys) = shape t"
  by (simp add: shape_def)

lemma shape_parts_inj: "shape a = shape b \<Longrightarrow> parts a = parts b \<Longrightarrow> a = b"
proof -
  assume s: "shape a = shape b" and p: "parts a = parts b"
  have "a = rebuild (shape a) (parts a)" by (simp add: shape_def)
  also have "\<dots> = rebuild (shape b) (parts b)" by (simp only: s p)
  also have "\<dots> = b" by (simp add: shape_def)
  finally show ?thesis .
qed

lemma shape_length: "shape a = shape b \<Longrightarrow> length (parts a) = length (parts b)"
  by (metis length_replicate parts_rebuild shape_def)

lemma shape_rebuild_other: "shape a = shape b \<Longrightarrow> rebuild a ys = rebuild b ys"
  by (metis rebuild_rebuild shape_def)

lemma size_parts: "x \<in> set (parts t) \<Longrightarrow> size x < size t"
  by (cases t) (auto dest: size_list_estimation' [where f = size, OF _ order_refl])

lemma shape_flexible: "shape a = shape b \<Longrightarrow> is_flexible a \<longleftrightarrow> is_flexible b"
  by (cases a; cases b) (auto simp: shape_def is_flexible_def)

section \<open>Unification through shapes\<close>

lemma length_unify_all: "unify_all xs ys = Some zs \<Longrightarrow> length zs = min (length xs) (length ys)"
proof (induction xs arbitrary: ys zs)
  case (Cons x xs)
  then show ?case by (cases ys) (auto split: option.splits)
qed simp

lemma eq_join_shape:
  "parts a = [] \<Longrightarrow>
     eq_join a b =
       (if shape a = shape b then map_option (rebuild a) (unify_all (parts a) (parts b)) else None)"
  using shape_length [of a b] shape_parts_inj [of a b] rebuild_parts [of a]
  by (auto simp: eq_join_def simp del: rebuild_parts)

lemma rebuild_lists: "rebuild (TTuple xs) = TTuple" "rebuild (TStruct i xs) = TStruct i"
  "rebuild (TEnum i xs) = TEnum i"
  by (rule ext, simp)+

lemmas unify_shape_simps = rebuild_lists
  is_flexible_def shape_def eq_join_def option.map_comp comp_def map_replicate_const

lemma unify_shape:
  assumes "\<not> is_flexible a" and "\<not> is_flexible b"
  shows "unify a b =
     (if shape a = shape b then map_option (rebuild a) (unify_all (parts a) (parts b)) else None)"
proof (cases a)
  case (TVector x)
  with assms show ?thesis
    by (simp only: unify.simps [of "TVector x" b], cases b)
       (auto simp: unify_shape_simps dest: length_unify_all split: option.splits)
next
  case (TSet x)
  with assms show ?thesis
    by (simp only: unify.simps [of "TSet x" b], cases b)
       (auto simp: unify_shape_simps dest: length_unify_all split: option.splits)
next
  case (TTask x)
  with assms show ?thesis
    by (simp only: unify.simps [of "TTask x" b], cases b)
       (auto simp: unify_shape_simps dest: length_unify_all split: option.splits)
next
  case (TOption x)
  with assms show ?thesis
    by (simp only: unify.simps [of "TOption x" b], cases b)
       (auto simp: unify_shape_simps dest: length_unify_all split: option.splits)
next
  case (TMap k v)
  with assms show ?thesis
    by (simp only: unify.simps [of "TMap k v" b], cases b)
       (auto simp: unify_shape_simps dest: length_unify_all split: option.splits)
next
  case (TTuple xs)
  with assms show ?thesis
    by (simp only: unify.simps [of "TTuple xs" b], cases b)
       (auto simp: unify_shape_simps dest: length_unify_all split: option.splits)
next
  case (TFn ps r)
  with assms show ?thesis
    by (simp only: unify.simps [of "TFn ps r" b], cases b)
       (auto simp: unify_shape_simps dest: length_unify_all split: option.splits)
next
  case (TStruct i xs)
  with assms show ?thesis
    by (simp only: unify.simps [of "TStruct i xs" b], cases b)
       (auto simp: unify_shape_simps dest: length_unify_all split: option.splits)
next
  case (TEnum i xs)
  with assms show ?thesis
    by (simp only: unify.simps [of "TEnum i xs" b], cases b)
       (auto simp: unify_shape_simps dest: length_unify_all split: option.splits)
qed (use assms in \<open>subst unify.simps, subst eq_join_shape [symmetric], simp,
  simp add: is_flexible_def\<close>)+

section \<open>The information order\<close>

inductive known_le :: "ty \<Rightarrow> ty \<Rightarrow> bool" where
  kl_unknown: "known_le TUnknown t"
| kl_never: "t \<noteq> TUnknown \<Longrightarrow> known_le TNever t"
| kl_parts: "shape a = shape b \<Longrightarrow> list_all2 known_le (parts a) (parts b) \<Longrightarrow> known_le a b"

inductive_simps known_le_unknown_right: "known_le t TUnknown"

lemma shape_leaf [simp]: "shape TUnknown = TUnknown" "shape TNever = TNever"
  by (simp_all add: shape_def)

lemma shape_TUnknown [simp]: "shape t = TUnknown \<longleftrightarrow> t = TUnknown"
  "TUnknown = shape t \<longleftrightarrow> t = TUnknown"
  by (cases t; auto simp: shape_def)+

lemma shape_TNever [simp]: "shape t = TNever \<longleftrightarrow> t = TNever"
  "TNever = shape t \<longleftrightarrow> t = TNever"
  by (cases t; auto simp: shape_def)+

lemma known_le_partsE:
  assumes "known_le a b" and "\<not> is_flexible a"
  shows "shape a = shape b" and "list_all2 known_le (parts a) (parts b)"
  using assms by (auto simp: is_flexible_def elim: known_le.cases)

lemma known_le_refl [simp, intro]: "known_le t t"
proof (induction t rule: measure_induct_rule [where f = size])
  case (less t)
  have "list_all2 known_le (parts t) (parts t)"
    unfolding list_all2_same by (blast intro: less.IH size_parts)
  then show ?case by (rule kl_parts [OF refl])
qed

lemma known_le_trans: "known_le a b \<Longrightarrow> known_le b c \<Longrightarrow> known_le a c"
proof (induction a b arbitrary: c rule: known_le.induct)
  case (kl_never t)
  then have "c \<noteq> TUnknown"
    by (auto simp: known_le_unknown_right)
  then show ?case by (rule known_le.kl_never)
next
  case (kl_parts a b)
  show ?case
  proof (cases "is_flexible b")
    case True
    with kl_parts.hyps(1) have "a = b"
      by (cases a; cases b) (auto simp: is_flexible_def shape_def)
    with kl_parts.prems show ?thesis by simp
  next
    case False
    note bc = known_le_partsE [OF kl_parts.prems False]
    have "list_all2 known_le (parts a) (parts c)"
      by (rule list_all2_trans [OF _ kl_parts.IH bc(2)]) blast
    with kl_parts.hyps(1) bc(1) show ?thesis
      by (auto intro: known_le.kl_parts)
  qed
qed (rule kl_unknown)

lemma known_le_antisym: "known_le a b \<Longrightarrow> known_le b a \<Longrightarrow> a = b"
proof (induction a b rule: known_le.induct)
  case (kl_unknown t)
  then show ?case by (auto simp: known_le_unknown_right)
next
  case (kl_never t)
  from kl_never.prems show ?case
    using kl_never.hyps by (cases rule: known_le.cases) auto
next
  case (kl_parts a b)
  show ?case
  proof (cases "is_flexible b")
    case True
    with kl_parts.hyps(1) show ?thesis
      by (cases a; cases b) (auto simp: is_flexible_def shape_def)
  next
    case False
    note ba = known_le_partsE [OF kl_parts.prems False]
    have "parts a = parts b"
      by (rule list_all2_antisym [OF _ kl_parts.IH ba(2)]) blast
    with kl_parts.hyps(1) show ?thesis by (rule shape_parts_inj)
  qed
qed

section \<open>Unification is the least upper bound\<close>

lemma unify_flexible:
  "unify TUnknown b = Some b" "unify a TUnknown = Some a"
  "b \<noteq> TUnknown \<Longrightarrow> unify TNever b = Some b" "a \<noteq> TUnknown \<Longrightarrow> unify a TNever = Some a"
  by (simp_all add: unify.simps)

lemma unify_all_upper:
  assumes "\<And>x y z. x \<in> set xs \<Longrightarrow> unify x y = Some z \<Longrightarrow> known_le x z \<and> known_le y z"
    and "length xs = length ys" and "unify_all xs ys = Some zs"
  shows "list_all2 known_le xs zs \<and> list_all2 known_le ys zs"
  using assms
proof (induction xs arbitrary: ys zs)
  case (Cons x xs)
  then obtain y ys' where "ys = y # ys'" by (cases ys) auto
  with Cons.prems Cons.IH [of ys'] show ?case
    by (fastforce split: option.splits)
qed simp

lemma unify_upper: "unify a b = Some c \<Longrightarrow> known_le a c \<and> known_le b c"
proof (induction a arbitrary: b c rule: measure_induct_rule [where f = size])
  case (less a)
  show ?case
  proof (cases "is_flexible a \<or> is_flexible b")
    case True
    with less.prems show ?thesis
      by (auto simp: is_flexible_def unify.simps kl_unknown kl_never split: if_splits)
  next
    case False
    with less.prems obtain ps where
      sh: "shape a = shape b" and ps: "unify_all (parts a) (parts b) = Some ps"
      and c: "c = rebuild a ps"
      by (auto simp: unify_shape split: if_splits)
    have len: "length ps = length (parts a)" "length (parts a) = length (parts b)"
      using length_unify_all [OF ps] shape_length [OF sh] by simp_all
    have "list_all2 known_le (parts a) ps \<and> list_all2 known_le (parts b) ps"
      by (rule unify_all_upper [OF less.IH [OF size_parts] len(2) ps])
    with sh len c show ?thesis
      by (auto intro!: kl_parts)
  qed
qed

lemma unify_all_least:
  assumes "\<And>x y z. x \<in> set xs \<Longrightarrow> known_le x z \<Longrightarrow> known_le y z \<Longrightarrow>
      \<exists>c. unify x y = Some c \<and> known_le c z"
    and "list_all2 known_le xs zs" and "list_all2 known_le ys zs"
  shows "\<exists>cs. unify_all xs ys = Some cs \<and> list_all2 known_le cs zs"
  using assms
proof (induction xs arbitrary: ys zs)
  case (Cons x xs)
  then obtain z zs' y ys' where e: "zs = z # zs'" "ys = y # ys'"
    by (auto simp: list_all2_Cons1 list_all2_Cons2)
  with Cons.prems have "\<exists>c. unify x y = Some c \<and> known_le c z" by simp
  moreover have "\<exists>cs. unify_all xs ys' = Some cs \<and> list_all2 known_le cs zs'"
    using Cons.prems e by (intro Cons.IH) auto
  ultimately show ?case using e by auto
qed auto

lemma unify_least:
  "known_le a d \<Longrightarrow> known_le b d \<Longrightarrow> \<exists>c. unify a b = Some c \<and> known_le c d"
proof (induction a arbitrary: b d rule: measure_induct_rule [where f = size])
  case (less a)
  show ?case
  proof (cases "is_flexible a \<or> is_flexible b")
    case True
    with less.prems show ?thesis
      by (cases "a = TUnknown"; cases "b = TUnknown")
         (auto simp: is_flexible_def unify_flexible)
  next
    case False
    then have f: "\<not> is_flexible a" "\<not> is_flexible b" by auto
    note ad = known_le_partsE [OF less.prems(1) f(1)]
      and bd = known_le_partsE [OF less.prems(2) f(2)]
    have "\<exists>cs. unify_all (parts a) (parts b) = Some cs \<and> list_all2 known_le cs (parts d)"
      by (rule unify_all_least [OF _ ad(2) bd(2)]) (blast intro: less.IH size_parts)
    then obtain cs where cs: "unify_all (parts a) (parts b) = Some cs"
      "list_all2 known_le cs (parts d)" by blast
    have "length cs = length (parts a)"
      using list_all2_lengthD [OF cs(2)] list_all2_lengthD [OF ad(2)] by simp
    with cs ad(1) have "known_le (rebuild a cs) d"
      by (auto intro!: kl_parts)
    with f ad(1) bd(1) cs(1) show ?thesis
      by (simp add: unify_shape)
  qed
qed

lemma unify_lub_iff:
  "unify a b = Some c \<longleftrightarrow>
     known_le a c \<and> known_le b c \<and> (\<forall>d. known_le a d \<and> known_le b d \<longrightarrow> known_le c d)"
  using unify_upper [of a b] unify_least [of a _ b]
  by (metis known_le_antisym option.inject)

lemma option_eqI: "(\<And>m. x = Some m \<longleftrightarrow> y = Some m) \<Longrightarrow> x = y"
  by (cases x; cases y) auto

lemma unify_commutes: "unify a b = unify b a"
  by (rule option_eqI) (auto simp: unify_lub_iff)

lemma unify_idem: "unify a a = Some a"
  by (simp add: unify_lub_iff)

lemma unify_three:
  "Option.bind (unify a b) (\<lambda>x. unify x c) = Some m \<longleftrightarrow>
     known_le a m \<and> known_le b m \<and> known_le c m \<and>
     (\<forall>d. known_le a d \<and> known_le b d \<and> known_le c d \<longrightarrow> known_le m d)"
  (is "?l = Some m \<longleftrightarrow> ?r")
proof
  assume "?l = Some m"
  then obtain x where "unify a b = Some x" "unify x c = Some m"
    by (auto simp: bind_eq_Some_conv)
  then show ?r
    unfolding unify_lub_iff by (blast intro: known_le_trans)
next
  assume r: ?r
  then obtain x where x: "unify a b = Some x" "known_le x m"
    using unify_least by blast
  moreover from x r have "unify x c = Some m"
    unfolding unify_lub_iff by (blast intro: known_le_trans)
  ultimately show "?l = Some m" by simp
qed

section \<open>Substitution\<close>

lemma substitute_parts:
  assumes "\<And>w i. t \<noteq> TGeneric w i"
  shows "parts (substitute m t) = map (substitute m) (parts t)"
    and "shape (substitute m t) = shape t"
    and "length ys = length (parts t) \<Longrightarrow>
      rebuild (substitute m t) (map (substitute m) ys) = substitute m (rebuild t ys)"
  using assms
  by (cases t; auto simp: shape_def length_Suc_conv numeral_2_eq_2)+

lemma shape_generic: "shape t = TGeneric w i \<longleftrightarrow> t = TGeneric w i"
  by (cases t) (auto simp: shape_def)

lemma substitute_flexible:
  assumes "\<And>k t. m k = Some t \<Longrightarrow> t \<noteq> TUnknown"
  shows "substitute m t = TUnknown \<longleftrightarrow> t = TUnknown"
  using assms by (cases t) (auto split: option.splits)

lemma unify_all_substitute:
  assumes "\<And>x y z. x \<in> set xs \<Longrightarrow> unify x y = Some z \<Longrightarrow>
      unify (substitute m x) (substitute m y) = Some (substitute m z)"
    and "unify_all xs ys = Some zs"
  shows "unify_all (map (substitute m) xs) (map (substitute m) ys) = Some (map (substitute m) zs)"
  using assms
proof (induction xs arbitrary: ys zs)
  case (Cons x xs)
  show ?case
  proof (cases ys)
    case (Cons y ys')
    with Cons.prems Cons.IH [of ys'] show ?thesis
      by (auto split: option.splits)
  qed (use Cons.prems in simp)
qed simp

lemma unify_substitute_step:
  assumes "\<not> is_flexible a" "\<not> is_flexible b" "unify a b = Some c"
    and "\<And>x y z. x \<in> set (parts a) \<Longrightarrow> unify x y = Some z \<Longrightarrow>
      unify (substitute m x) (substitute m y) = Some (substitute m z)"
  shows "unify (substitute m a) (substitute m b) = Some (substitute m c)"
proof -
  from assms(1-3) obtain ps where
    sh: "shape a = shape b" and ps: "unify_all (parts a) (parts b) = Some ps"
    and c: "c = rebuild a ps"
    by (auto simp: unify_shape split: if_splits)
  show ?thesis
  proof (cases "\<exists>w i. a = TGeneric w i")
    case True
    then obtain w i where a: "a = TGeneric w i" by blast
    with sh have "b = a" by (metis parts.simps(20) rebuild_parts shape_def shape_generic
        length_0_conv replicate_empty shape_length)
    with a c show ?thesis by (simp add: unify_idem)
  next
    case False
    then have ng: "a \<noteq> TGeneric w i" "b \<noteq> TGeneric w i" for w i
      using sh shape_generic [of a w i] shape_generic [of b w i] by auto
    have fl: "\<not> is_flexible (substitute m a)" "\<not> is_flexible (substitute m b)"
      using assms(1,2) shape_flexible [OF substitute_parts(2) [OF ng(1)]]
        shape_flexible [OF substitute_parts(2) [OF ng(2)]] by auto
    have "length ps = length (parts a)"
      using length_unify_all [OF ps] shape_length [OF sh] by simp
    then show ?thesis
      using unify_all_substitute [OF assms(4) ps] sh c
      by (simp add: unify_shape fl substitute_parts ng)
  qed
qed

lemma unify_substitute_lemma:
  assumes "\<And>k t. m k = Some t \<Longrightarrow> t \<noteq> TUnknown" and "unify a b = Some c"
  shows "unify (substitute m a) (substitute m b) = Some (substitute m c)"
  using assms(2)
proof (induction a arbitrary: b c rule: measure_induct_rule [where f = size])
  case (less a)
  show ?case
  proof (cases "is_flexible a \<or> is_flexible b")
    case True
    note nu = substitute_flexible [OF assms(1)]
    from True less.prems show ?thesis
      by (cases "a = TUnknown"; cases "b = TUnknown"; cases "a = TNever")
         (auto simp: is_flexible_def unify_flexible nu)
  next
    case False
    then show ?thesis
      using less.prems by (auto intro: unify_substitute_step less.IH size_parts)
  qed
qed

section \<open>Properties\<close>

text \<open>C11: When two types unify, the result is their least upper bound in the information order:
  it carries everything both sides know and nothing that some common refinement lacks; and
  conversely the least upper bound is what \<open>unify\<close> returns.\<close>

theorem unify_is_join:
  "unify a b = Some c \<longleftrightarrow>
     known_le a c \<and> known_le b c \<and> (\<forall>d. known_le a d \<and> known_le b d \<longrightarrow> known_le c d)"
  by (rule unify_lub_iff)

theorem unify_is_join_witness:
  "unify (TVector TUnknown) (TVector TBool) = Some (TVector TBool) \<and>
   known_le (TVector TUnknown) (TVector TBool) \<and> known_le TNever (TVector TBool) \<and>
   known_le (TVector TBool) (TVector TBool)"
proof -
  have u: "unify (TVector TUnknown) (TVector TBool) = Some (TVector TBool)"
    "unify TNever (TVector TBool) = Some (TVector TBool)"
    by (simp_all add: unify.simps eq_join_def)
  with unify_is_join [of "TVector TUnknown" "TVector TBool" "TVector TBool"]
    unify_is_join [of TNever "TVector TBool" "TVector TBool"]
  show ?thesis by blast
qed

text \<open>Unification is rejected only when no type refines both sides, so a reported mismatch
  is never caused by the order in which the checker met the constraints.\<close>

theorem unify_None_iff: "unify a b = None \<longleftrightarrow> (\<nexists>d. known_le a d \<and> known_le b d)"
proof (cases "unify a b")
  case None
  then show ?thesis using unify_least [of a _ b] by force
next
  case (Some c)
  then show ?thesis using unify_upper [OF Some] by auto
qed

text \<open>C25: Unification is commutative and associative, failures included: joining the types of
  several branches gives the same answer in whatever order the branches are visited.\<close>

theorem unify_order_independent:
  "unify a b = unify b a \<and>
   Option.bind (unify a b) (\<lambda>x. unify x c) = Option.bind (unify b c) (unify a)"
proof
  show "unify a b = unify b a" by (rule unify_commutes)
  have "unify a = (\<lambda>x. unify x a)" by (rule ext) (rule unify_commutes)
  then have "Option.bind (unify b c) (unify a) = Option.bind (unify b c) (\<lambda>x. unify x a)"
    by (rule arg_cong)
  then show "Option.bind (unify a b) (\<lambda>x. unify x c) = Option.bind (unify b c) (unify a)"
    by (intro option_eqI) (auto simp: unify_three)
qed



end
