(* ===== verification/Match_Cover.thy ===== *)
theory Match_Cover
  imports Type_Terms Decimal_Text
begin

text \<open>
  Exhaustiveness of \<open>match\<close> (\<open>brasa_typeck/src/exhaust.rs\<close>). The arena of the HIR is read as the
  trees it holds, with the entry the resolver's tables have for a node at the node. Values are
  trees of constructors, so that coverage can be stated over them.
\<close>

section \<open>Patterns, types and items of the program\<close>

datatype literal = LInt i64 | LFloat f64 | LBool bool | LChar rust_char | LStr string

datatype ctor_res = ResSome | ResNone | ResSetCtor | ResVariant item_id nat

datatype pattern =
    PtWildcard
  | PtLiteral literal
  | PtBinding string
  | PtCtor string "ctor_res option" "pattern list"
  | PtTuple "pattern list"

datatype builtin_type =
    BInt | BFloat | BBool | BString | BChar | BUnit | BOption | BVector | BMap | BSet | BRange | BJson
  | BComparable | BPrintable | BHashable

datatype type_res = ResItem item_id | ResBuiltin builtin_type | ResGeneric def_ref nat | ResSelf

datatype type_expr =
    TeNamed string "type_res option" "type_expr list"
  | TeTuple "type_expr list"
  | TeFn "type_expr list" type_expr

record variant_def =
  vd_name :: string
  vd_fields :: "type_expr list"

text \<open>The number of generic parameters, and the variants of an enum.\<close>

datatype item = StructItem nat | EnumItem nat "variant_def list" | OtherItem

type_synonym items = "item_id \<Rightarrow> item"

record match_arm =
  arm_pattern :: pattern
  arm_guarded :: bool

section \<open>Types of the columns\<close>

fun conv_quiet :: "items \<Rightarrow> type_expr \<Rightarrow> ty" where
  "conv_quiet cx (TeNamed name res args) =
     (let conv = map (conv_quiet cx) args;
          arg = (\<lambda>i. if i < length conv then conv ! i else TUnknown)
      in case res of
           Some (ResBuiltin b) \<Rightarrow>
             (case b of
                BInt \<Rightarrow> TInt | BFloat \<Rightarrow> TFloat | BBool \<Rightarrow> TBool | BString \<Rightarrow> TString | BChar \<Rightarrow> TChar
              | BUnit \<Rightarrow> TUnit | BRange \<Rightarrow> TRange | BJson \<Rightarrow> TJson
              | BOption \<Rightarrow> TOption (arg 0) | BVector \<Rightarrow> TVector (arg 0) | BSet \<Rightarrow> TSet (arg 0)
              | BMap \<Rightarrow> TMap (arg 0) (arg 1)
              | _ \<Rightarrow> TUnknown)
         | Some (ResItem i) \<Rightarrow>
             (case cx i of
                StructItem generics \<Rightarrow> if generics = length conv then TStruct i conv else TUnknown
              | EnumItem generics vs \<Rightarrow> if generics = length conv then TEnum i conv else TUnknown
              | OtherItem \<Rightarrow> TUnknown)
         | Some (ResGeneric owner ix) \<Rightarrow> TGeneric owner ix
         | _ \<Rightarrow> TUnknown)"
| "conv_quiet cx (TeTuple es) = TTuple (map (conv_quiet cx) es)"
| "conv_quiet cx (TeFn ps r) = TFn (map (conv_quiet cx) ps) (conv_quiet cx r)"

text \<open>The map from the parameters of the enum to its arguments.\<close>

definition enum_args :: "item_id \<Rightarrow> ty list \<Rightarrow> def_ref \<times> nat \<Rightarrow> ty option" where
  "enum_args e args key =
     (case key of (owner, ix) \<Rightarrow>
        if owner = DefItem e \<and> ix < length args then Some (args ! ix) else None)"

definition variant_field_types :: "items \<Rightarrow> item_id \<Rightarrow> nat \<Rightarrow> ty list \<Rightarrow> ty list" where
  "variant_field_types cx e ix args =
     (case cx e of
        EnumItem _ vs \<Rightarrow>
          if ix < length vs
          then map (\<lambda>f. substitute (enum_args e args) (conv_quiet cx f)) (vd_fields (vs ! ix)) else []
      | _ \<Rightarrow> [])"

datatype ctor = CBool bool | COptionSome | COptionNone | CVariant item_id nat | CTuple | COpaqueLit

datatype pat = Wild | PatCtor ctor "pat list"

definition constructor_universe :: "items \<Rightarrow> ty \<Rightarrow> (ctor \<times> ty list) list option" where
  "constructor_universe cx t =
     (case t of
        TBool \<Rightarrow> Some [(CBool True, []), (CBool False, [])]
      | TOption u \<Rightarrow> Some [(COptionSome, [u]), (COptionNone, [])]
      | TEnum e args \<Rightarrow>
          (case cx e of
             EnumItem _ vs \<Rightarrow>
               Some (map (\<lambda>ix. (CVariant e ix, variant_field_types cx e ix args)) [0..<length vs])
           | _ \<Rightarrow> None)
      | TTuple us \<Rightarrow> Some [(CTuple, us)]
      | _ \<Rightarrow> None)"

section \<open>Lowering\<close>

lemma zip_size [termination_simp]:
  "(a, b) \<in> set (zip xs ys) \<Longrightarrow> size a < Suc (size_list size xs)"
  by (drule set_zip_leftD) (simp add: less_Suc_eq_le size_list_estimation')

fun lower :: "items \<Rightarrow> pattern \<Rightarrow> ty \<Rightarrow> pat" where
  "lower cx PtWildcard t = Wild"
| "lower cx (PtBinding name) t = Wild"
| "lower cx (PtLiteral l) t =
     (case (l, t) of
        (LBool b, TBool) \<Rightarrow> PatCtor (CBool b) []
      | (LInt _, TInt) \<Rightarrow> PatCtor COpaqueLit []
      | (LFloat _, TFloat) \<Rightarrow> PatCtor COpaqueLit []
      | (LChar _, TChar) \<Rightarrow> PatCtor COpaqueLit []
      | (LStr _, TString) \<Rightarrow> PatCtor COpaqueLit []
      | _ \<Rightarrow> Wild)"
| "lower cx (PtCtor name res args) t =
     (case res of
        Some ResSome \<Rightarrow>
          (case t of
             TOption u \<Rightarrow> (case args of [a] \<Rightarrow> PatCtor COptionSome [lower cx a u] | _ \<Rightarrow> Wild)
           | _ \<Rightarrow> Wild)
      | Some ResNone \<Rightarrow>
          (case t of TOption _ \<Rightarrow> if args = [] then PatCtor COptionNone [] else Wild | _ \<Rightarrow> Wild)
      | Some (ResVariant e ix) \<Rightarrow>
          (case t of
             TEnum i ty_args \<Rightarrow>
               if i \<noteq> e then Wild
               else let fields = variant_field_types cx e ix ty_args in
                 if length args \<noteq> length fields then Wild
                 else PatCtor (CVariant e ix) (map (\<lambda>(a, u). lower cx a u) (zip args fields))
           | _ \<Rightarrow> Wild)
      | _ \<Rightarrow> Wild)"
| "lower cx (PtTuple es) t =
     (case t of
        TTuple us \<Rightarrow>
          if length us = length es then PatCtor CTuple (map (\<lambda>(e, u). lower cx e u) (zip es us)) else Wild
      | _ \<Rightarrow> Wild)"

section \<open>Usefulness\<close>

definition max_witnesses :: nat where "max_witnesses = 3"

definition specialize :: "pat list list \<Rightarrow> ctor \<Rightarrow> nat \<Rightarrow> pat list list" where
  "specialize matrix c arity =
     concat (map (\<lambda>row.
       case hd row of
         PatCtor h args \<Rightarrow> if h = c then [args @ tl row] else []
       | Wild \<Rightarrow> [replicate arity Wild @ tl row]) matrix)"

definition heads_of :: "pat list list \<Rightarrow> ctor list" where
  "heads_of matrix =
     concat (map (\<lambda>row. case hd row of PatCtor c _ \<Rightarrow> [c] | Wild \<Rightarrow> []) matrix)"

definition default_matrix :: "pat list list \<Rightarrow> pat list list" where
  "default_matrix matrix = map tl (filter (\<lambda>row. hd row = Wild) matrix)"

definition all_matched :: "(ctor \<times> ty list) list option \<Rightarrow> ctor list \<Rightarrow> bool" where
  "all_matched universe heads =
     (case universe of None \<Rightarrow> False | Some cs \<Rightarrow> list_all (\<lambda>cf. fst cf \<in> set heads) cs)"

type_synonym found = "pat list list \<times> nat"

text \<open>One constructor of the complete case: its sub-witnesses are regrouped under it as long as
  there is room for them.\<close>

definition add_witnesses :: "found \<Rightarrow> ctor \<times> ty list \<Rightarrow> found \<Rightarrow> found" where
  "add_witnesses acc cf sub =
     (fst acc @ take (max_witnesses - length (fst acc))
        (map (\<lambda>row. PatCtor (fst cf) (take (length (snd cf)) row) # drop (length (snd cf)) row) (fst sub)),
      sat_add (snd acc) (snd sub))"

definition missing_heads :: "(ctor \<times> ty list) list option \<Rightarrow> ctor list \<Rightarrow> pat list" where
  "missing_heads universe heads =
     (case universe of
        Some cs \<Rightarrow>
          map (\<lambda>cf. PatCtor (fst cf) (replicate (length (snd cf)) Wild))
            (filter (\<lambda>cf. fst cf \<notin> set heads) cs)
      | None \<Rightarrow> [Wild])"

definition prefix_witnesses :: "pat list \<Rightarrow> found \<Rightarrow> found" where
  "prefix_witnesses new_heads sub =
     (take max_witnesses (concat (map (\<lambda>h. map ((#) h) (fst sub)) new_heads)),
      sat_mul (snd sub) (length new_heads))"

text \<open>The size that decreases: constructors of the matrix first, then columns.\<close>

fun pat_size :: "pat \<Rightarrow> nat" where
  "pat_size Wild = 0"
| "pat_size (PatCtor c args) = Suc (sum_list (map pat_size args))"

definition row_size :: "pat list \<Rightarrow> nat" where
  "row_size row = sum_list (map pat_size row)"

definition matrix_size :: "pat list list \<Rightarrow> nat" where
  "matrix_size matrix = sum_list (map row_size matrix)"

text \<open>A row is as long as the list of columns: \<open>row[0]\<close> is there. A shorter row would be the
  panic of the index; \<open>rows_fit\<close> below shows there is none.\<close>

lemma row_size_hd_tl: "row \<noteq> [] \<Longrightarrow> row_size row = pat_size (hd row) + row_size (tl row)"
  by (cases row) (simp_all add: row_size_def)

lemma specialize_Cons:
  "specialize (row # matrix) c n =
     (case hd row of
        PatCtor h args \<Rightarrow> if h = c then [args @ tl row] else []
      | Wild \<Rightarrow> [replicate n Wild @ tl row]) @ specialize matrix c n"
  by (simp add: specialize_def)

lemma heads_of_Cons:
  "heads_of (row # matrix) = (case hd row of PatCtor c _ \<Rightarrow> [c] | Wild \<Rightarrow> []) @ heads_of matrix"
  by (simp add: heads_of_def)

lemma row_size_append [simp]:
  "row_size (a @ b) = row_size a + row_size b" "row_size (replicate n Wild) = 0"
  by (simp_all add: row_size_def sum_list_replicate)

lemma specialize_size:
  assumes "\<forall>row \<in> set matrix. row \<noteq> []"
  shows "matrix_size (specialize matrix c n) + (if c \<in> set (heads_of matrix) then 1 else 0) \<le> matrix_size matrix"
  using assms
proof (induction matrix)
  case Nil
  then show ?case by (simp add: specialize_def heads_of_def matrix_size_def)
next
  case (Cons row matrix)
  then have "row_size row = pat_size (hd row) + row_size (tl row)" by (simp add: row_size_hd_tl)
  with Cons show ?case
    by (cases "hd row") (auto simp: specialize_Cons heads_of_Cons matrix_size_def row_size_def sum_list_replicate)
qed

lemma default_size:
  assumes "\<forall>row \<in> set matrix. row \<noteq> []"
  shows "matrix_size (default_matrix matrix) \<le> matrix_size matrix"
  using assms
proof (induction matrix)
  case (Cons row matrix)
  then have "row_size row = pat_size (hd row) + row_size (tl row)" by (simp add: row_size_hd_tl)
  with Cons show ?case
    by (auto simp: default_matrix_def matrix_size_def)
qed (simp add: default_matrix_def matrix_size_def)

text \<open>A matrix with a row that is too short is not looked at: the index panics.\<close>

function witnesses :: "items \<Rightarrow> pat list list \<Rightarrow> ty list \<Rightarrow> found option" where
  "witnesses cx matrix [] = Some (if matrix = [] then ([[]], 1) else ([], 0))"
| "witnesses cx matrix (t # ts) =
     (if \<not> list_all (\<lambda>row. row \<noteq> []) matrix then None
      else
        let universe = constructor_universe cx t; heads = heads_of matrix
        in if all_matched universe heads then
             (case universe of None \<Rightarrow> None
              | Some cs \<Rightarrow>
                  (case those (map (\<lambda>cf. witnesses cx (specialize matrix (fst cf) (length (snd cf))) (snd cf @ ts)) cs) of
                     None \<Rightarrow> None
                   | Some subs \<Rightarrow> Some (foldl (\<lambda>acc (cf, sub). add_witnesses acc cf sub) ([], 0) (zip cs subs))))
           else map_option (prefix_witnesses (missing_heads universe heads)) (witnesses cx (default_matrix matrix) ts))"
  by pat_completeness auto

termination
proof (relation "measures [\<lambda>(cx, matrix, tys). matrix_size matrix, \<lambda>(cx, matrix, tys). length tys]")
  fix cx matrix and t :: ty and ts universe heads cs cf
  assume rows: "\<not> \<not> list_all (\<lambda>row. row \<noteq> []) (matrix :: pat list list)"
    and heads: "heads = heads_of matrix" and all: "all_matched universe heads"
    and u: "universe = Some cs" and cf: "cf \<in> set cs"
  then have "fst cf \<in> set (heads_of matrix)" by (auto simp: all_matched_def list_all_iff)
  moreover have "\<forall>row \<in> set matrix. row \<noteq> []" using rows by (simp only: list_all_iff not_not)
  ultimately have "matrix_size (specialize matrix (fst cf) (length (snd cf))) < matrix_size matrix"
    using specialize_size [of matrix "fst cf" "length (snd cf)"] by simp
  then show "((cx, specialize matrix (fst cf) (length (snd cf)), snd cf @ ts), cx, matrix, t # ts)
      \<in> measures [\<lambda>(cx, matrix, tys). matrix_size matrix, \<lambda>(cx, matrix, tys). length tys]"
    by simp
next
  fix cx matrix and t :: ty and ts universe heads
  assume "\<not> \<not> list_all (\<lambda>row. row \<noteq> []) (matrix :: pat list list)"
  then have "matrix_size (default_matrix matrix) \<le> matrix_size matrix"
    by (intro default_size) (simp only: list_all_iff not_not)
  then show "((cx, default_matrix matrix, ts), cx, matrix, t # ts)
      \<in> measures [\<lambda>(cx, matrix, tys). matrix_size matrix, \<lambda>(cx, matrix, tys). length tys]"
    by auto
qed simp

declare witnesses.simps [simp del]

section \<open>The check\<close>

fun render_pat :: "items \<Rightarrow> pat \<Rightarrow> string" where
  "render_pat cx Wild = ''_''"
| "render_pat cx (PatCtor c args) =
     (let shown = join '', '' (map (render_pat cx) args) in
      case c of
        CBool b \<Rightarrow> if b then ''true'' else ''false''
      | COptionSome \<Rightarrow> ''Some('' @ shown @ '')''
      | COptionNone \<Rightarrow> ''None''
      | CTuple \<Rightarrow> ''('' @ shown @ '')''
      | CVariant e ix \<Rightarrow>
          (let name = (case cx e of
                         EnumItem _ vs \<Rightarrow> if ix < length vs then vd_name (vs ! ix) else ''<variant>''
                       | _ \<Rightarrow> ''<variant>'')
           in if args = [] then name else name @ ''('' @ shown @ '')'')
      | COpaqueLit \<Rightarrow> ''_'')"

text \<open>The outer \<open>None\<close> is the panic, the inner one a \<open>match\<close> that covers everything.\<close>

definition missing_cases :: "items \<Rightarrow> ty \<Rightarrow> match_arm list \<Rightarrow> (string list \<times> nat) option option" where
  "missing_cases cx t arms =
     (if is_flexible t then Some None
      else
        (case witnesses cx (map (\<lambda>arm. [lower cx (arm_pattern arm) t]) (filter (\<lambda>arm. \<not> arm_guarded arm) arms)) [t] of
           None \<Rightarrow> None
         | Some (ws, n) \<Rightarrow>
             Some (if n = 0 then None else Some (map (\<lambda>row. render_pat cx (hd row)) ws, n))))"

section \<open>Values and coverage\<close>

text \<open>A value of an open type is a literal or some other value that no literal denotes.\<close>

datatype mval = MCtor ctor "mval list" | MLit literal | MOther

fun literal_type :: "literal \<Rightarrow> ty" where
  "literal_type (LInt _) = TInt"
| "literal_type (LFloat _) = TFloat"
| "literal_type (LBool _) = TBool"
| "literal_type (LChar _) = TChar"
| "literal_type (LStr _) = TString"

fun has_type :: "items \<Rightarrow> mval \<Rightarrow> ty \<Rightarrow> bool" where
  "has_type cx (MCtor c vs) t =
     (case constructor_universe cx t of
        None \<Rightarrow> False
      | Some cs \<Rightarrow>
          (case map_of cs c of
             None \<Rightarrow> False
           | Some us \<Rightarrow> length vs = length us \<and> list_all (\<lambda>(v, u). has_type cx v u) (zip vs us)))"
| "has_type cx (MLit l) t \<longleftrightarrow> constructor_universe cx t = None \<and> literal_type l = t"
| "has_type cx MOther t \<longleftrightarrow> constructor_universe cx t = None"

text \<open>What a source pattern matches, by the constructor the resolver gave it.\<close>

fun matches :: "pattern \<Rightarrow> mval \<Rightarrow> bool" where
  "matches PtWildcard v = True"
| "matches (PtBinding name) v = True"
| "matches (PtLiteral l) v =
     (case l of
        LBool b \<Rightarrow> v = MCtor (CBool b) []
      | LFloat a \<Rightarrow> (case v of MLit (LFloat b) \<Rightarrow> f64_eq a b | _ \<Rightarrow> False)
      | _ \<Rightarrow> v = MLit l)"
| "matches (PtCtor name res args) v =
     (case v of
        MCtor c vs \<Rightarrow>
          (case res of
             Some ResSome \<Rightarrow> c = COptionSome
           | Some ResNone \<Rightarrow> c = COptionNone
           | Some (ResVariant e ix) \<Rightarrow> c = CVariant e ix
           | _ \<Rightarrow> False) \<and>
          length args = length vs \<and> list_all (\<lambda>(p, v). matches p v) (zip args vs)
      | _ \<Rightarrow> False)"
| "matches (PtTuple ps) v =
     (case v of
        MCtor c vs \<Rightarrow> c = CTuple \<and> length ps = length vs \<and> list_all (\<lambda>(p, v). matches p v) (zip ps vs)
      | _ \<Rightarrow> False)"

text \<open>The patterns the type checker accepts at a type: a literal of the type, a constructor of the
  type with as many arguments as it has fields.\<close>

fun fits :: "items \<Rightarrow> pattern \<Rightarrow> ty \<Rightarrow> bool" where
  "fits cx PtWildcard t = True"
| "fits cx (PtBinding name) t = True"
| "fits cx (PtLiteral l) t \<longleftrightarrow> literal_type l = t"
| "fits cx (PtCtor name res args) t =
     (case res of
        Some ResSome \<Rightarrow> (case t of TOption u \<Rightarrow> (case args of [a] \<Rightarrow> fits cx a u | _ \<Rightarrow> False) | _ \<Rightarrow> False)
      | Some ResNone \<Rightarrow> (case t of TOption _ \<Rightarrow> args = [] | _ \<Rightarrow> False)
      | Some (ResVariant e ix) \<Rightarrow>
          (case t of
             TEnum i ty_args \<Rightarrow>
               i = e \<and>
               (case cx e of EnumItem _ vs \<Rightarrow> ix < length vs | _ \<Rightarrow> False) \<and>
               length args = length (variant_field_types cx e ix ty_args) \<and>
               list_all (\<lambda>(a, u). fits cx a u) (zip args (variant_field_types cx e ix ty_args))
           | _ \<Rightarrow> False)
      | _ \<Rightarrow> False)"
| "fits cx (PtTuple ps) t =
     (case t of
        TTuple us \<Rightarrow> length ps = length us \<and> list_all (\<lambda>(p, u). fits cx p u) (zip ps us)
      | _ \<Rightarrow> False)"

text \<open>Coverage by a matrix pattern. The literal is gone there, so there are two readings: with
  \<open>lit\<close> false it covers nothing, with \<open>lit\<close> true every literal of its type.\<close>

fun covered :: "bool \<Rightarrow> pat \<Rightarrow> mval \<Rightarrow> bool" where
  "covered lit Wild v = True"
| "covered lit (PatCtor c args) v =
     (case v of
        MCtor h vs \<Rightarrow> c \<noteq> COpaqueLit \<and> h = c \<and> length args = length vs \<and>
          list_all (\<lambda>(p, v). covered lit p v) (zip args vs)
      | MLit l \<Rightarrow> c = COpaqueLit \<and> lit
      | MOther \<Rightarrow> False)"

fun pat_ok :: "items \<Rightarrow> pat \<Rightarrow> ty \<Rightarrow> bool" where
  "pat_ok cx Wild t = True"
| "pat_ok cx (PatCtor c args) t =
     (case constructor_universe cx t of
        None \<Rightarrow> c = COpaqueLit \<and> args = []
      | Some cs \<Rightarrow>
          (case map_of cs c of
             None \<Rightarrow> False
           | Some us \<Rightarrow> length args = length us \<and> list_all (\<lambda>(p, u). pat_ok cx p u) (zip args us)))"

section \<open>Rows\<close>

definition rows_ok :: "items \<Rightarrow> pat list list \<Rightarrow> ty list \<Rightarrow> bool" where
  "rows_ok cx matrix ts \<longleftrightarrow> (\<forall>row \<in> set matrix. list_all2 (pat_ok cx) row ts)"

definition row_covers :: "bool \<Rightarrow> pat list list \<Rightarrow> mval list \<Rightarrow> bool" where
  "row_covers lit matrix vs \<longleftrightarrow> (\<exists>row \<in> set matrix. list_all2 (covered lit) row vs)"

lemma list_all_zip: "length xs = length ys \<Longrightarrow> list_all (\<lambda>(x, y). P x y) (zip xs ys) \<longleftrightarrow> list_all2 P xs ys"
  by (simp add: list_all2_iff list_all_iff)

lemma universe_distinct:
  assumes "constructor_universe cx t = Some cs"
  shows "distinct (map fst cs)" and "COpaqueLit \<notin> fst ` set cs"
  using assms
  by (auto simp: constructor_universe_def comp_def distinct_map inj_on_def split: ty.splits item.splits)

lemma universe_map_of:
  assumes "constructor_universe cx t = Some cs" and "cf \<in> set cs"
  shows "map_of cs (fst cf) = Some (snd cf)"
  using universe_distinct(1) [OF assms(1)] assms(2) by (cases cf) (simp add: map_of_is_SomeI)

lemma row_covers_append: "row_covers lit (a @ b) vs \<longleftrightarrow> row_covers lit a vs \<or> row_covers lit b vs"
  by (auto simp: row_covers_def)

lemma covers_wilds: "length vs = n \<Longrightarrow> list_all2 (covered lit) (replicate n Wild @ r) (vs @ ws) \<longleftrightarrow> list_all2 (covered lit) r ws"
  by (induction n arbitrary: vs) (auto simp: length_Suc_conv)

lemma list_all2_append_len:
  "length xs = length us \<Longrightarrow> list_all2 P (xs @ ys) (us @ ws) \<longleftrightarrow> list_all2 P xs us \<and> list_all2 P ys ws"
  by (rule list_all2_append) 

text \<open>Specialising: a value with a head is covered iff its parts are covered by the
  specialised rows.\<close>

lemma specialize_covers:
  assumes "rows_ok cx matrix (t # ts)" and "constructor_universe cx t = Some cs" and "map_of cs c = Some us"
    and "length vs = length us"
  shows "row_covers lit (specialize matrix c (length us)) (vs @ ws) \<longleftrightarrow> row_covers lit matrix (MCtor c vs # ws)"
    and "rows_ok cx (specialize matrix c (length us)) (us @ ts)"
  using assms(1)
proof (induction matrix)
  case Nil
  { case 1 then show ?case by (simp add: specialize_def row_covers_def) }
  { case 2 then show ?case by (simp add: specialize_def rows_ok_def) }
next
  case (Cons row matrix)
  have opaque: "c \<noteq> COpaqueLit" using universe_distinct(2) [OF assms(2)] assms(3) by (force dest: map_of_SomeD)
  have rest: "rows_ok cx matrix (t # ts)" "list_all2 (pat_ok cx) row (t # ts)" if "rows_ok cx (row # matrix) (t # ts)"
    using that by (simp_all add: rows_ok_def)
  { case 1
    then obtain p r where row: "row = p # r" "pat_ok cx p t" "list_all2 (pat_ok cx) r ts"
      using rest(2) by (auto simp: list_all2_Cons2)
    have IH: "row_covers lit (specialize matrix c (length us)) (vs @ ws) \<longleftrightarrow> row_covers lit matrix (MCtor c vs # ws)"
      by (rule Cons.IH(1) [OF rest(1) [OF 1]])
    show ?case
    proof (cases p)
      case Wild
      then show ?thesis
        using IH row covers_wilds [OF assms(4)] by (auto simp: specialize_Cons row_covers_append) (auto simp: row_covers_def)
    next
      case (PatCtor h args)
      then have args: "h = c \<Longrightarrow> length args = length us" using row(2) assms(2,3) by simp
      show ?thesis
      proof (cases "h = c")
        case True
        have "list_all2 (covered lit) (args @ r) (vs @ ws) \<longleftrightarrow> list_all2 (covered lit) args vs \<and> list_all2 (covered lit) r ws"
          using args [OF True] assms(4) by (intro list_all2_append_len) simp
        moreover have "covered lit p (MCtor c vs) \<longleftrightarrow> list_all2 (covered lit) args vs"
          using PatCtor True opaque args [OF True] assms(4) by (simp add: list_all_zip)
        ultimately show ?thesis
          using IH row(1) PatCtor True by (auto simp: specialize_Cons row_covers_append) (auto simp: row_covers_def)
      next
        case False
        with PatCtor have "\<not> covered lit p (MCtor c vs)" by auto
        then show ?thesis
          using IH row(1) PatCtor False by (auto simp: specialize_Cons) (auto simp: row_covers_def)
      qed
    qed }
  { case 2
    then obtain p r where row: "row = p # r" "pat_ok cx p t" "list_all2 (pat_ok cx) r ts"
      using rest(2) by (auto simp: list_all2_Cons2)
    have IH: "rows_ok cx (specialize matrix c (length us)) (us @ ts)"
      by (rule Cons.IH(2) [OF rest(1) [OF 2]])
    have "list_all2 (pat_ok cx) (replicate (length us) Wild) us"
      by (simp add: list_all2_conv_all_nth)
    then show ?case
      using IH row assms(2,3)
      by (cases p) (auto simp: specialize_Cons rows_ok_def list_all_zip intro!: list_all2_appendI) }
qed

text \<open>The default rows: what they cover is covered whatever the first value is, and a first value
  that no head matches is covered by no other row.\<close>

lemma default_covers:
  assumes "rows_ok cx matrix (t # ts)"
  shows "row_covers lit (default_matrix matrix) vs \<Longrightarrow> row_covers lit matrix (v # vs)"
    and "rows_ok cx (default_matrix matrix) ts"
    and "(\<And>h args. h \<in> set (heads_of matrix) \<Longrightarrow> \<not> covered lit (PatCtor h args) v) \<Longrightarrow>
      row_covers lit matrix (v # vs) \<Longrightarrow> row_covers lit (default_matrix matrix) vs"
proof -
  have row: "\<exists>p r. row = p # r \<and> pat_ok cx p t \<and> list_all2 (pat_ok cx) r ts" if "row \<in> set matrix" for row
    using assms that by (auto simp: rows_ok_def list_all2_Cons2)
  show "row_covers lit matrix (v # vs)" if "row_covers lit (default_matrix matrix) vs"
  proof -
    from that obtain r0 where r0: "r0 \<in> set matrix" "hd r0 = Wild" "list_all2 (covered lit) (tl r0) vs"
      by (auto simp: row_covers_def default_matrix_def)
    with row [OF r0(1)] have "list_all2 (covered lit) r0 (v # vs)" by auto
    with r0(1) show ?thesis by (auto simp: row_covers_def)
  qed
  show "rows_ok cx (default_matrix matrix) ts"
    using row by (fastforce simp: rows_ok_def default_matrix_def)
  assume heads: "\<And>h args. h \<in> set (heads_of matrix) \<Longrightarrow> \<not> covered lit (PatCtor h args) v"
    and "row_covers lit matrix (v # vs)"
  then obtain p r where r: "p # r \<in> set matrix" "covered lit p v" "list_all2 (covered lit) r vs"
    by (auto simp: row_covers_def list_all2_Cons2)
  have "p = Wild"
  proof (cases p)
    case (PatCtor h args)
    with r(1) have "h \<in> set (heads_of matrix)" by (force simp: heads_of_def)
    with heads r(2) PatCtor show ?thesis by blast
  qed
  with r show "row_covers lit (default_matrix matrix) vs"
    by (force simp: row_covers_def default_matrix_def)
qed

lemma fold_found:
  "length cs = length subs \<Longrightarrow>
     snd (foldl (\<lambda>acc (cf, sub). add_witnesses acc cf sub) acc (zip cs subs)) = 0 \<longleftrightarrow>
       snd acc = 0 \<and> (\<forall>sub \<in> set subs. snd sub = 0)"
  "length cs = length subs \<Longrightarrow>
     fst (foldl (\<lambda>acc (cf, sub). add_witnesses acc cf sub) acc (zip cs subs)) = [] \<longleftrightarrow>
       fst acc = [] \<and> (\<forall>sub \<in> set subs. fst sub = [])"
  by (induction cs subs arbitrary: acc rule: list_induct2)
     (auto simp: add_witnesses_def max_witnesses_def)

lemma missing_not_empty:
  "\<not> all_matched universe heads \<Longrightarrow> missing_heads universe heads \<noteq> []"
  by (auto simp: all_matched_def missing_heads_def list_all_iff filter_empty_conv split: option.splits)

lemma prefix_found:
  assumes "\<not> all_matched universe heads"
  shows "snd (prefix_witnesses (missing_heads universe heads) sub) = 0 \<longleftrightarrow> snd sub = 0"
    and "fst (prefix_witnesses (missing_heads universe heads) sub) = [] \<longleftrightarrow> fst sub = []"
  using missing_not_empty [OF assms] by (auto simp: prefix_witnesses_def max_witnesses_def)

lemma those_map:
  assumes "\<And>x. x \<in> set xs \<Longrightarrow> \<exists>y. f x = Some y"
  shows "\<exists>ys. those (map f xs) = Some ys \<and> list_all2 (\<lambda>x y. f x = Some y) xs ys"
  using assms by (induction xs) (fastforce)+

definition inhabited :: "items \<Rightarrow> bool" where
  "inhabited cx \<longleftrightarrow> (\<forall>t. \<exists>v. has_type cx v t)"

text \<open>What a result says about the matrix.\<close>

definition result_ok :: "items \<Rightarrow> pat list list \<Rightarrow> ty list \<Rightarrow> found \<Rightarrow> bool" where
  "result_ok cx matrix ts r \<longleftrightarrow>
     (fst r = [] \<longleftrightarrow> snd r = 0) \<and>
     (snd r = 0 \<longrightarrow> (\<forall>vs. list_all2 (has_type cx) vs ts \<longrightarrow> row_covers False matrix vs)) \<and>
     (inhabited cx \<longrightarrow> snd r \<noteq> 0 \<longrightarrow> (\<exists>vs. list_all2 (has_type cx) vs ts \<and> \<not> row_covers True matrix vs))"

lemma complete_ok:
  assumes rows: "rows_ok cx matrix (t # ts)" and u: "constructor_universe cx t = Some cs"
    and subs: "list_all2 (\<lambda>cf sub. result_ok cx (specialize matrix (fst cf) (length (snd cf))) (snd cf @ ts) sub) cs subs"
  shows "result_ok cx matrix (t # ts) (foldl (\<lambda>acc (cf, sub). add_witnesses acc cf sub) ([], 0) (zip cs subs))"
proof -
  let ?r = "foldl (\<lambda>acc (cf, sub). add_witnesses acc cf sub) ([], 0) (zip cs subs)"
  have len: "length cs = length subs" using subs by (rule list_all2_lengthD)
  have sub_of: "\<exists>sub \<in> set subs. result_ok cx (specialize matrix (fst cf) (length (snd cf))) (snd cf @ ts) sub"
    if "cf \<in> set cs" for cf
    using subs that by (auto simp: list_all2_conv_all_nth in_set_conv_nth intro!: bexI [OF _ nth_mem])
  have cf_of: "\<exists>cf \<in> set cs. result_ok cx (specialize matrix (fst cf) (length (snd cf))) (snd cf @ ts) sub"
    if "sub \<in> set subs" for sub
    using subs that by (auto simp: list_all2_conv_all_nth in_set_conv_nth intro!: bexI [OF _ nth_mem])
  note found = fold_found [OF len, of "([], 0)", simplified]
  show ?thesis unfolding result_ok_def
  proof (intro conjI impI allI)
    show "fst ?r = [] \<longleftrightarrow> snd ?r = 0"
      unfolding found using cf_of by (auto simp: result_ok_def)
  next
    fix vs assume none: "snd ?r = 0" and typed: "list_all2 (has_type cx) vs (t # ts)"
    then obtain v ws where vs: "vs = v # ws" "has_type cx v t" "list_all2 (has_type cx) ws ts"
      by (auto simp: list_all2_Cons2)
    then obtain c args us where v: "v = MCtor c args" "map_of cs c = Some us" "list_all2 (has_type cx) args us"
      using u by (cases v) (auto simp: list_all_zip split: option.splits)
    from sub_of [OF map_of_SomeD [OF v(2)]]
    obtain sub where sub: "sub \<in> set subs" "result_ok cx (specialize matrix c (length us)) (us @ ts) sub"
      by (auto simp del: result_ok_def)
    then have "row_covers False (specialize matrix c (length us)) (args @ ws)"
      using none vs(3) v(3) unfolding found by (auto simp: result_ok_def intro: list_all2_appendI)
    then show "row_covers False matrix vs"
      using specialize_covers(1) [OF rows u v(2)] v(1) vs(1) list_all2_lengthD [OF v(3)] by simp
  next
    assume inh: "inhabited cx" and "snd ?r \<noteq> 0"
    then obtain sub where "sub \<in> set subs" "snd sub \<noteq> 0" unfolding found by auto
    with cf_of obtain c us where cf: "(c, us) \<in> set cs" "result_ok cx (specialize matrix c (length us)) (us @ ts) sub"
      by fastforce
    with inh \<open>snd sub \<noteq> 0\<close> obtain xs where xs: "list_all2 (has_type cx) xs (us @ ts)"
      "\<not> row_covers True (specialize matrix c (length us)) xs" by (auto simp: result_ok_def)
    then obtain args ws where split: "xs = args @ ws" "list_all2 (has_type cx) args us" "list_all2 (has_type cx) ws ts"
      by (auto simp: list_all2_append2)
    have c: "map_of cs c = Some us" using universe_map_of [OF u cf(1)] by simp
    with split u have "list_all2 (has_type cx) (MCtor c args # ws) (t # ts)"
      using list_all2_lengthD [OF split(2)] by (auto simp: list_all_zip)
    moreover have "\<not> row_covers True matrix (MCtor c args # ws)"
      using specialize_covers(1) [OF rows u c] xs(2) split by (auto dest: list_all2_lengthD)
    ultimately show "\<exists>vs. list_all2 (has_type cx) vs (t # ts) \<and> \<not> row_covers True matrix vs" by blast
  qed
qed

lemma incomplete_ok:
  assumes rows: "rows_ok cx matrix (t # ts)"
    and not_all: "\<not> all_matched (constructor_universe cx t) (heads_of matrix)"
    and sub: "result_ok cx (default_matrix matrix) ts sub"
  shows "result_ok cx matrix (t # ts)
    (prefix_witnesses (missing_heads (constructor_universe cx t) (heads_of matrix)) sub)"
  unfolding result_ok_def prefix_found [OF not_all]
proof (intro conjI impI allI)
  show "fst sub = [] \<longleftrightarrow> snd sub = 0" using sub by (simp add: result_ok_def)
next
  fix vs assume "snd sub = 0" and "list_all2 (has_type cx) vs (t # ts)"
  then show "row_covers False matrix vs"
    using sub default_covers(1) [OF rows] by (auto simp: result_ok_def list_all2_Cons2)
next
  assume inh: "inhabited cx" and "snd sub \<noteq> 0"
  with sub obtain ws where ws: "list_all2 (has_type cx) ws ts" "\<not> row_covers True (default_matrix matrix) ws"
    by (auto simp: result_ok_def)
  have "\<exists>v. has_type cx v t \<and> (\<forall>h args. h \<in> set (heads_of matrix) \<longrightarrow> \<not> covered True (PatCtor h args) v)"
  proof (cases "constructor_universe cx t")
    case None
    then show ?thesis by (intro exI [of _ MOther]) simp
  next
    case (Some cs)
    with not_all obtain c us where c: "(c, us) \<in> set cs" "c \<notin> set (heads_of matrix)"
      by (auto simp: all_matched_def list_all_iff)
    from inh have "\<forall>u. \<exists>v. has_type cx v u" by (simp add: inhabited_def)
    then obtain f where f: "\<And>u. has_type cx (f u) u" by metis
    have "map_of cs c = Some us" using universe_map_of [OF Some c(1)] by simp
    then have "has_type cx (MCtor c (map f us)) t"
      using Some f by (simp add: list_all_zip list_all2_conv_all_nth)
    with c(2) show ?thesis by (intro exI [of _ "MCtor c (map f us)"]) auto
  qed
  then obtain v where v: "has_type cx v t"
    "\<And>h args. h \<in> set (heads_of matrix) \<Longrightarrow> \<not> covered True (PatCtor h args) v" by blast
  with ws default_covers(3) [OF rows, of True v ws]
  show "\<exists>vs. list_all2 (has_type cx) vs (t # ts) \<and> \<not> row_covers True matrix vs"
    by (intro exI [of _ "v # ws"]) auto
qed

lemma rows_not_empty: "rows_ok cx matrix (t # ts) \<Longrightarrow> list_all (\<lambda>row. row \<noteq> []) matrix"
  by (auto simp: rows_ok_def list_all_iff)

lemma witnesses_ok: "rows_ok cx matrix ts \<Longrightarrow> \<exists>r. witnesses cx matrix ts = Some r \<and> result_ok cx matrix ts r"
proof (induction cx matrix ts rule: witnesses.induct)
  case (1 cx matrix)
  then show ?case
    by (cases matrix) (auto simp: witnesses.simps result_ok_def row_covers_def rows_ok_def)
next
  case (2 cx matrix t ts)
  note rows = 2(3)
  have row: "\<not> \<not> list_all (\<lambda>row. row \<noteq> []) matrix" using rows_not_empty [OF rows] by simp
  show ?case
  proof (cases "all_matched (constructor_universe cx t) (heads_of matrix)")
    case True
    then obtain cs where u: "constructor_universe cx t = Some cs"
      by (auto simp: all_matched_def split: option.splits)
    let ?sub = "\<lambda>cf. witnesses cx (specialize matrix (fst cf) (length (snd cf))) (snd cf @ ts)"
    have each: "\<exists>r. ?sub cf = Some r \<and> result_ok cx (specialize matrix (fst cf) (length (snd cf))) (snd cf @ ts) r"
      if cf: "cf \<in> set cs" for cf
    proof (rule 2(1) [OF row refl refl True u cf])
      show "rows_ok cx (specialize matrix (fst cf) (length (snd cf))) (snd cf @ ts)"
        by (rule specialize_covers(2) [OF rows u universe_map_of [OF u cf], of "map (\<lambda>_. MOther) (snd cf)"]) simp
    qed
    then obtain subs where subs: "those (map ?sub cs) = Some subs" "list_all2 (\<lambda>cf r. ?sub cf = Some r) cs subs"
      using those_map [of cs ?sub] by blast
    have "list_all2 (\<lambda>cf r. result_ok cx (specialize matrix (fst cf) (length (snd cf))) (snd cf @ ts) r) cs subs"
      using subs(2) by (rule list.rel_mono_strong) (use each in fastforce)
    from complete_ok [OF rows u this] subs(1) row True u show ?thesis
      by (simp add: witnesses.simps(2))
  next
    case False
    from 2(2) [OF row refl refl False default_covers(2) [OF rows]]
    obtain r where "witnesses cx (default_matrix matrix) ts = Some r" "result_ok cx (default_matrix matrix) ts r"
      by blast
    with incomplete_ok [OF rows False] row False show ?thesis
      by (simp add: witnesses.simps(2) Let_def)
  qed
qed

section \<open>Source patterns\<close>

lemma list_all2_zip_map:
  "length xs = length us \<Longrightarrow> list_all2 P (map (\<lambda>(x, u). f x u) (zip xs us)) us \<longleftrightarrow> list_all2 (\<lambda>x u. P (f x u) u) xs us"
  by (auto simp: list_all2_conv_all_nth)

text \<open>Every lowered pattern suits its column, whether it fits or was turned into a wildcard.\<close>

lemma lower_variant_field:
  "i = e \<Longrightarrow> (case cx e of EnumItem _ vs \<Rightarrow> ix < length vs | _ \<Rightarrow> False) \<Longrightarrow>
     \<exists>cs. constructor_universe cx (TEnum i args) = Some cs \<and>
       map_of cs (CVariant e ix) = Some (variant_field_types cx e ix args)"
proof -
  assume "i = e" and "case cx e of EnumItem _ vs \<Rightarrow> ix < length vs | _ \<Rightarrow> False"
  then obtain n vs where vs: "cx e = EnumItem n vs" "ix < length vs" by (auto split: item.splits)
  let ?cs = "map (\<lambda>ix. (CVariant e ix, variant_field_types cx e ix args)) [0..<length vs]"
  have u: "constructor_universe cx (TEnum i args) = Some ?cs"
    using vs \<open>i = e\<close> by (simp add: constructor_universe_def)
  have "(CVariant e ix, variant_field_types cx e ix args) \<in> set ?cs" using vs by simp
  from universe_map_of [OF u this] u show ?thesis by simp
qed

lemma lower_ok: "fits cx p t \<Longrightarrow> pat_ok cx (lower cx p t) t"
proof (induction cx p t rule: lower.induct)
  case (3 cx l t)
  then show ?case by (cases l; cases t) (auto simp: constructor_universe_def)
next
  case (4 cx name res args t)
  then show ?case
  proof (cases res)
    case (Some r)
    show ?thesis
    proof (cases r)
      case (ResVariant e ix)
      with 4(3) Some obtain ty_args where t: "t = TEnum e ty_args"
        and ix: "case cx e of EnumItem _ vs \<Rightarrow> ix < length vs | _ \<Rightarrow> False"
        and len: "length args = length (variant_field_types cx e ix ty_args)"
        and sub: "list_all2 (fits cx) args (variant_field_types cx e ix ty_args)"
        by (auto simp: list_all_zip split: ty.splits)
      have "list_all2 (\<lambda>a u. pat_ok cx (lower cx a u) u) args (variant_field_types cx e ix ty_args)"
        using sub 4(2) [OF Some ResVariant t] len by (auto simp: list_all2_iff)
      moreover have "\<exists>cs. constructor_universe cx (TEnum e ty_args) = Some cs \<and>
          map_of cs (CVariant e ix) = Some (variant_field_types cx e ix ty_args)"
        by (rule lower_variant_field [OF refl]) (rule ix)
      ultimately show ?thesis
        using Some ResVariant t len
        by (auto simp: list_all_zip list_all2_zip_map)
    qed (use 4 Some in \<open>auto simp: constructor_universe_def split: ty.splits list.splits\<close>)
  qed simp
next
  case (5 cx es t)
  then obtain us where t: "t = TTuple us" and len: "length es = length us" and sub: "list_all2 (fits cx) es us"
    by (auto simp: list_all_zip split: ty.splits)
  have "list_all2 (\<lambda>a u. pat_ok cx (lower cx a u) u) es us"
    using sub 5(1) [OF t] len by (auto simp: list_all2_iff)
  with t len show ?case by (auto simp: list_all_zip list_all2_zip_map constructor_universe_def)
qed simp_all

text \<open>The two readings of a literal bound what the source pattern matches.\<close>

definition bounds :: "items \<Rightarrow> pattern \<Rightarrow> ty \<Rightarrow> mval \<Rightarrow> bool" where
  "bounds cx p t v \<longleftrightarrow>
     (covered False (lower cx p t) v \<longrightarrow> matches p v) \<and> (matches p v \<longrightarrow> covered True (lower cx p t) v)"

lemma bounds_list:
  assumes "list_all2 (\<lambda>p u. \<forall>v. has_type cx v u \<longrightarrow> bounds cx p u v) ps us" and "list_all2 (has_type cx) vs us"
  shows "list_all2 (covered False) (map (\<lambda>(p, u). lower cx p u) (zip ps us)) vs \<Longrightarrow> list_all2 matches ps vs"
    and "list_all2 matches ps vs \<Longrightarrow> list_all2 (covered True) (map (\<lambda>(p, u). lower cx p u) (zip ps us)) vs"
  using assms by (auto simp: list_all2_conv_all_nth bounds_def)

lemma bounds_ctor:
  assumes "list_all2 (\<lambda>p u. \<forall>v. has_type cx v u \<longrightarrow> bounds cx p u v) ps us"
    and "constructor_universe cx t = Some cs" and "map_of cs c = Some us" and "has_type cx v t"
    and "lower cx p t = PatCtor c (map (\<lambda>(p, u). lower cx p u) (zip ps us))"
    and "\<And>vs. length ps = length vs \<Longrightarrow> matches p (MCtor c vs) \<longleftrightarrow> list_all2 matches ps vs"
    and "\<And>h vs. h \<noteq> c \<Longrightarrow> \<not> matches p (MCtor h vs)"
  shows "bounds cx p t v"
proof -
  obtain h vs where v: "v = MCtor h vs" using assms(2,4) by (cases v) auto
  have opaque: "c \<noteq> COpaqueLit" using universe_distinct(2) [OF assms(2)] assms(3) by (force dest: map_of_SomeD)
  show ?thesis
  proof (cases "h = c")
    case True
    have len: "length ps = length us" by (rule list_all2_lengthD [OF assms(1)])
    have vs: "length vs = length us" using assms(2,3,4) v True by auto
    then have "list_all2 (has_type cx) vs us" using assms(2,3,4) v True by (auto simp: list_all_zip)
    from bounds_list [OF assms(1) this] show ?thesis
      unfolding bounds_def v True assms(5)
      using opaque len vs assms(6) [of vs] by (simp add: list_all_zip)
  next
    case False
    with assms(7) v show ?thesis by (simp add: bounds_def assms(5))
  qed
qed

lemma matches_bounds: "fits cx p t \<Longrightarrow> has_type cx v t \<Longrightarrow> bounds cx p t v"
proof (induction cx p t arbitrary: v rule: lower.induct)
  case (3 cx l t)
  then show ?case
    by (cases l; cases v) (auto simp: bounds_def constructor_universe_def split: literal.splits if_splits)
next
  case (4 cx name res args t)
  from 4(3) obtain r where r: "res = Some r" by (cases res) auto
  show ?case
  proof (cases r)
    case ResSome
    with 4(3) r obtain u a where t: "t = TOption u" "args = [a]" "fits cx a u"
      by (auto split: ty.splits list.splits)
    have "\<forall>v. has_type cx v u \<longrightarrow> bounds cx a u v" using 4(1) [OF r ResSome t(1,2)] t(3) by blast
    then show ?thesis
      using 4(4) r ResSome t
      by (intro bounds_ctor [where c = COptionSome and us = "[u]" and ps = args])
         (auto simp: constructor_universe_def list_all_zip)
  next
    case ResNone
    with 4(3) r obtain u where t: "t = TOption u" "args = []" by (auto split: ty.splits)
    then show ?thesis
      using 4(4) r ResNone
      by (intro bounds_ctor [where c = COptionNone and us = "[]" and ps = args
            and cs = "[(COptionSome, [u]), (COptionNone, [])]"])
         (auto simp: constructor_universe_def)
  next
    case (ResVariant e ix)
    with 4(3) r obtain ty_args where t: "t = TEnum e ty_args"
      and ix: "case cx e of EnumItem _ vs \<Rightarrow> ix < length vs | _ \<Rightarrow> False"
      and len: "length args = length (variant_field_types cx e ix ty_args)"
      and sub: "list_all2 (fits cx) args (variant_field_types cx e ix ty_args)"
      by (auto simp: list_all_zip split: ty.splits)
    have "list_all2 (\<lambda>a u. \<forall>v. has_type cx v u \<longrightarrow> bounds cx a u v) args (variant_field_types cx e ix ty_args)"
      using sub 4(2) [OF r ResVariant t] len by (auto simp: list_all2_iff)
    moreover have "\<exists>cs. constructor_universe cx (TEnum e ty_args) = Some cs \<and>
        map_of cs (CVariant e ix) = Some (variant_field_types cx e ix ty_args)"
      by (rule lower_variant_field [OF refl]) (rule ix)
    then obtain cs where "constructor_universe cx (TEnum e ty_args) = Some cs"
      "map_of cs (CVariant e ix) = Some (variant_field_types cx e ix ty_args)" by blast
    ultimately show ?thesis
      using 4(4) r ResVariant t len unfolding t
      by (intro bounds_ctor [where c = "CVariant e ix" and us = "variant_field_types cx e ix ty_args" and ps = args])
         (auto simp: list_all_zip)
  qed (use 4 r in simp)
next
  case (5 cx es t)
  then obtain us where t: "t = TTuple us" and len: "length es = length us" and sub: "list_all2 (fits cx) es us"
    by (auto simp: list_all_zip split: ty.splits)
  have "list_all2 (\<lambda>a u. \<forall>v. has_type cx v u \<longrightarrow> bounds cx a u v) es us"
    using sub 5(1) [OF t] len by (auto simp: list_all2_iff)
  then show ?case
    using 5(3) t len
    by (intro bounds_ctor [where c = CTuple and us = us and ps = es])
       (auto simp: list_all_zip constructor_universe_def)
qed (simp_all add: bounds_def)

text \<open>C12: the exhaustiveness check is sound and complete. On a scrutinee whose type is known and on
  arms the type checker accepts, it never panics, and it reports nothing exactly when every value
  of the type is matched by an arm without a guard. When it reports, it has a witness to show.\<close>

theorem match_check_exact:
  assumes "\<not> is_flexible t" and "\<And>arm. arm \<in> set arms \<Longrightarrow> fits cx (arm_pattern arm) t" and "inhabited cx"
  shows "\<exists>r. missing_cases cx t arms = Some r \<and>
    (r = None \<longleftrightarrow> (\<forall>v. has_type cx v t \<longrightarrow>
        (\<exists>arm \<in> set arms. \<not> arm_guarded arm \<and> matches (arm_pattern arm) v))) \<and>
    (\<forall>shown n. r = Some (shown, n) \<longrightarrow> shown \<noteq> [] \<and> 0 < n)"
proof -
  let ?arms = "filter (\<lambda>arm. \<not> arm_guarded arm) arms"
  let ?m = "map (\<lambda>arm. [lower cx (arm_pattern arm) t]) ?arms"
  have "rows_ok cx ?m [t]" using assms(2) lower_ok by (auto simp: rows_ok_def)
  then obtain ws n where w: "witnesses cx ?m [t] = Some (ws, n)" and ok: "result_ok cx ?m [t] (ws, n)"
    using witnesses_ok by fastforce
  have cover: "row_covers lit ?m [v] \<longleftrightarrow> (\<exists>arm \<in> set ?arms. covered lit (lower cx (arm_pattern arm) t) v)" for lit v
    by (auto simp: row_covers_def)
  have bound: "bounds cx (arm_pattern arm) t v" if "arm \<in> set ?arms" "has_type cx v t" for arm v
    using matches_bounds [OF assms(2) that(2)] that(1) by simp
  have "n = 0 \<longleftrightarrow> (\<forall>v. has_type cx v t \<longrightarrow> (\<exists>arm \<in> set ?arms. matches (arm_pattern arm) v))" (is "_ \<longleftrightarrow> ?all")
  proof
    assume "n = 0"
    show ?all
    proof (intro allI impI)
      fix v assume v: "has_type cx v t"
      with ok \<open>n = 0\<close> have "row_covers False ?m [v]" by (auto simp: result_ok_def list_all2_Cons2)
      then obtain arm where "arm \<in> set ?arms" "covered False (lower cx (arm_pattern arm) t) v" using cover by blast
      with bound [OF _ v] show "\<exists>arm \<in> set ?arms. matches (arm_pattern arm) v" by (auto simp: bounds_def)
    qed
  next
    assume all: ?all
    show "n = 0"
    proof (rule ccontr)
      assume "n \<noteq> 0"
      with ok assms(3) obtain v where v: "has_type cx v t" "\<not> row_covers True ?m [v]"
        by (auto simp: result_ok_def list_all2_Cons2)
      with all obtain arm where "arm \<in> set ?arms" "matches (arm_pattern arm) v" by blast
      with bound [OF _ v(1)] cover v(2) show False by (auto simp: bounds_def)
    qed
  qed
  with w ok assms(1) show ?thesis by (auto simp: missing_cases_def result_ok_def)
qed

text \<open>An enum with a plain variant and one with a field.\<close>

definition demo_items :: items where
  "demo_items i =
     (if i = 0
      then EnumItem 0 [\<lparr>vd_name = ''Off'', vd_fields = []\<rparr>,
                       \<lparr>vd_name = ''On'', vd_fields = [TeNamed ''bool'' (Some (ResBuiltin BBool)) []]\<rparr>]
      else OtherItem)"

definition demo_arms :: "match_arm list" where
  "demo_arms =
     [\<lparr>arm_pattern = PtTuple [PtLiteral (LBool True), PtBinding ''x''], arm_guarded = False\<rparr>,
      \<lparr>arm_pattern = PtTuple [PtWildcard, PtCtor ''Off'' (Some (ResVariant 0 0)) []], arm_guarded = False\<rparr>,
      \<lparr>arm_pattern = PtWildcard, arm_guarded = True\<rparr>]"

lemma demo_inhabited: "inhabited demo_items"
proof -
  have "\<exists>v. has_type demo_items v t" for t
  proof (induction t)
    case TBool
    show ?case by (rule exI [of _ "MCtor (CBool True) []"]) (simp add: constructor_universe_def)
  next
    case (TOption u)
    show ?case by (rule exI [of _ "MCtor COptionNone []"]) (simp add: constructor_universe_def)
  next
    case (TTuple us)
    then obtain f where f: "\<And>u. u \<in> set us \<Longrightarrow> has_type demo_items (f u) u" by metis
    then have "list_all2 (has_type demo_items) (map f us) us" by (simp add: list_all2_conv_all_nth)
    then show ?case
      by (intro exI [of _ "MCtor CTuple (map f us)"]) (simp add: constructor_universe_def list_all_zip)
  next
    case (TEnum e args)
    have "constructor_universe demo_items (TEnum 0 args) =
        Some [(CVariant 0 0, []), (CVariant 0 1, [TBool])]"
      by (simp add: constructor_universe_def demo_items_def variant_field_types_def upt_rec)
    then have "has_type demo_items (MCtor (CVariant 0 0) []) (TEnum 0 args)" by simp
    then have some: "\<exists>v. has_type demo_items v (TEnum 0 args)" ..
    have other: "\<exists>v. has_type demo_items v (TEnum e args)" if "e \<noteq> 0"
      by (rule exI [of _ MOther]) (use that in \<open>simp add: constructor_universe_def demo_items_def\<close>)
    show ?case
    proof (cases "e = 0")
      case True
      with some show ?thesis by (simp only:)
    qed (rule other)
  qed (rule exI [of _ MOther], simp add: constructor_universe_def)+
  then show ?thesis by (simp add: inhabited_def)
qed

lemma match_check_exact_witness:
  "\<exists>shown n. missing_cases demo_items (TTuple [TBool, TEnum 0 []]) demo_arms = Some (Some (shown, n)) \<and> shown \<noteq> []"
proof -
  let ?t = "TTuple [TBool, TEnum 0 []]"
  let ?v = "MCtor CTuple [MCtor (CBool False) [], MCtor (CVariant 0 1) [MCtor (CBool True) []]]"
  have fields: "variant_field_types demo_items 0 0 [] = []" "variant_field_types demo_items 0 1 [] = [TBool]"
    by (simp_all add: variant_field_types_def demo_items_def)
  have fits: "fits demo_items (arm_pattern arm) ?t" if "arm \<in> set demo_arms" for arm
    using that fields by (auto simp: demo_arms_def demo_items_def)
  have typed: "has_type demo_items ?v ?t"
    using fields by (simp add: constructor_universe_def demo_items_def upt_rec)
  have unmatched: "\<not> (\<exists>arm \<in> set demo_arms. \<not> arm_guarded arm \<and> matches (arm_pattern arm) ?v)"
    by (simp add: demo_arms_def)
  have "\<not> is_flexible ?t" by (simp add: is_flexible_def)
  then have "\<exists>r. missing_cases demo_items ?t demo_arms = Some r \<and>
    (r = None \<longleftrightarrow> (\<forall>v. has_type demo_items v ?t \<longrightarrow>
        (\<exists>arm \<in> set demo_arms. \<not> arm_guarded arm \<and> matches (arm_pattern arm) v))) \<and>
    (\<forall>shown n. r = Some (shown, n) \<longrightarrow> shown \<noteq> [] \<and> 0 < n)"
    by (rule match_check_exact) (rule fits demo_inhabited, assumption?)+
  then obtain r where r: "missing_cases demo_items ?t demo_arms = Some r"
      "r = None \<longleftrightarrow> (\<forall>v. has_type demo_items v ?t \<longrightarrow>
        (\<exists>arm \<in> set demo_arms. \<not> arm_guarded arm \<and> matches (arm_pattern arm) v))"
      "\<forall>shown n. r = Some (shown, n) \<longrightarrow> shown \<noteq> [] \<and> 0 < n" by (elim exE conjE)
  have "r \<noteq> None"
  proof
    assume "r = None"
    with r(2) typed have "\<exists>arm \<in> set demo_arms. \<not> arm_guarded arm \<and> matches (arm_pattern arm) ?v" by (simp only: simp_thms)
    with unmatched show False by (rule notE)
  qed
  with r(1,3) show ?thesis by (cases r) auto
qed

end
