(* ===== verification/Builtin_Registry.thy ===== *)
theory Builtin_Registry
  imports Runtime_Values
begin

text \<open>
  The registry of native builtins (\<open>brasa_bytecode/src/builtin.rs\<close>) that the code generator and the
  machine share: an id is a position in the table.
\<close>

definition free_name :: "string \<Rightarrow> string \<times> bool" where "free_name name = (name, False)"

definition method_name :: "string \<Rightarrow> string \<times> bool" where "method_name name = (name, True)"

definition builtins :: "(string \<times> bool) list" where
  "builtins = [
    free_name ''puts'', free_name ''print'', free_name ''math.sqrt'', free_name ''math.floor'', free_name ''math.ceil'',
    free_name ''math.round'', free_name ''math.pow'', free_name ''math.abs'', free_name ''math.min'',
    free_name ''math.max'', free_name ''<fatal>'', free_name ''<assert-failed>'', method_name ''toString'',
    method_name ''len'', method_name ''count'', method_name ''trim'', method_name ''toUpper'', method_name ''toLower'',
    method_name ''contains?'', method_name ''startsWith?'', method_name ''endsWith?'', method_name ''split'',
    method_name ''lines'', method_name ''chars'', method_name ''slice'', method_name ''repeat'', method_name ''replace'',
    method_name ''find'', method_name ''toInt'', method_name ''toFloat'', method_name ''push'', method_name ''pop'',
    method_name ''first'', method_name ''last'', method_name ''reverse'', method_name ''join'', method_name ''map'',
    method_name ''filter'', method_name ''each'', method_name ''sortBy'', method_name ''keys'', method_name ''values'',
    method_name ''insert'', method_name ''remove'', method_name ''get'', method_name ''has?'', method_name ''add'',
    method_name ''bytes'', method_name ''trimStart'', method_name ''trimEnd'', method_name ''padStart'',
    method_name ''padEnd'', method_name ''match?'', method_name ''captures'', method_name ''replaceRe'',
    method_name ''scan'', free_name ''proc.run'', free_name ''proc.tryRun'', free_name ''proc.shell'',
    free_name ''proc.tryRunAll'', free_name ''http.get'', free_name ''http.post'', method_name ''status'',
    method_name ''body'', method_name ''header'', free_name ''cli.parse'', free_name ''cli.help'', method_name ''flag'',
    method_name ''option'', method_name ''rest'', free_name ''env.get'', free_name ''env.set'', free_name ''env.vars'',
    free_name ''env.args'', method_name ''stdout'', method_name ''stderr'', method_name ''code'', free_name ''fs.read'',
    free_name ''fs.write'', free_name ''fs.append'', free_name ''fs.exists?'', free_name ''fs.isFile?'',
    free_name ''fs.isDir?'', free_name ''fs.ls'', free_name ''fs.glob'', free_name ''fs.walk'', free_name ''fs.mkdir'',
    free_name ''fs.mkdirAll'', free_name ''fs.rm'', free_name ''fs.rmAll'', free_name ''fs.cp'', free_name ''fs.mv'',
    free_name ''fs.join'', free_name ''fs.base'', free_name ''fs.dir'', free_name ''fs.ext'', free_name ''fs.abs'',
    free_name ''env.cwd'', free_name ''env.cd'', free_name ''json.parse'', free_name ''json.stringify'',
    free_name ''io.puts'', free_name ''io.print'', free_name ''io.eprint'', free_name ''io.readLine'',
    free_name ''io.readAll'', method_name ''asString'', method_name ''asInt'', method_name ''asFloat'',
    method_name ''asBool'', method_name ''asArray'', method_name ''asObject'', method_name ''null?'',
    method_name ''reduce'', method_name ''any?'', method_name ''all?'', method_name ''sort'', method_name ''zip'',
    method_name ''flatten'', method_name ''uniq'', method_name ''entries'', method_name ''merge'', method_name ''union'',
    method_name ''intersect'', method_name ''diff'', free_name ''math.pi'', free_name ''math.e'', free_name ''time.now'',
    free_name ''time.nowMillis'', free_name ''time.sleep'', free_name ''time.iso'', free_name ''rand.seed'',
    free_name ''rand.int'', free_name ''rand.float'', free_name ''rand.choice'', free_name ''rand.shuffle'',
    method_name ''toFixed'', free_name ''env.exit'', free_name ''fs.resolve'', free_name ''fs.isSymlink?'',
    method_name ''paths'', method_name ''unreadable'', free_name ''fs.tryWalk'', method_name ''removePrefix'',
    free_name ''concurrent'', method_name ''spawn'', method_name ''value'', free_name ''http.getWith'',
    free_name ''http.postWith'', method_name ''message'', free_name ''json.of'', free_name ''fs.stat'',
    method_name ''size'', method_name ''modifiedMillis'', method_name ''isFile?'', method_name ''isDir?'',
    method_name ''isSymlink?'', free_name ''time.parseIso'', method_name ''output'',
    free_name ''time.localOffsetMillis'', free_name ''<json-decode-failed>'']"

text \<open>Every id fits its 16 bits.\<close>

definition builtin_id :: "string \<Rightarrow> builtin_id option" where
  "builtin_id name = map_option (\<lambda>ix. ix mod 2 ^ 16) (find_pos (\<lambda>def. fst def = name) builtins)"

definition builtin_def :: "builtin_id \<Rightarrow> (string \<times> bool) option" where
  "builtin_def b = (if b < length builtins then Some (builtins ! b) else None)"

end
