(* ===== verification/Hir_Tree.thy ===== *)
theory Hir_Tree
  imports Match_Cover Bytecode Builtin_Registry
begin

text \<open>
  The checked program that the error-set pass and the code generator read: the nodes of the HIR (\<open>brasa_hir\<close>) and the tables the
  resolver and the checker keyed by node (\<open>brasa_resolver/src/tables.rs\<close>, \<open>brasa_typeck/src/lib.rs\<close>).
  An arena is read as the trees it holds: a node carries its id and its span, and a child
  stands where the source has the child's id. Parts of a node that none of the modelled phases
  reads (type expressions, generics, most name spans) are left out.
\<close>

type_synonym expr_id = nat
type_synonym stmt_id = nat
type_synonym pattern_id = nat
type_synonym local_id = nat

section \<open>Nodes\<close>

datatype unary_op = UNeg | UNot

datatype binary_op =
    BAdd | BSub | BMul | BDiv | BRem | BPow | BEq | BNotEq | BLt | BLtEq | BGt | BGtEq | BAnd | BOr

datatype catch_type = CtNamed string span | CtWildcard span

datatype (plugins only: size) hpat = HPat pattern_id span hpat_node
  and hpat_node = HWildcard | HLiteral literal | HBinding | HTuple "hpat list" | HCtor "hpat list"

text \<open>The body of an arm or of a lambda is an expression or a block. The branches of an \<open>if\<close> are its
  conditions with their blocks, a match arm has its pattern, guard and body, and a catch arm its
  types, guard and body.\<close>

datatype (plugins only: size) expr = Expr expr_id span expr_node
  and expr_node =
    EInt i64 | EFloat f64 | EBool bool | EChar rust_char | EUnit | EStr string
  | EIdent string | ESelf
  | ECall expr "expr list"
  | EField expr string
  | EIndex expr expr
  | EUnary unary_op expr
  | EBinary binary_op expr expr
  | EOptionWrap expr
  | EToString expr
  | ELambda arm_body
  | EIf "(expr \<times> stmt list) list" "stmt list option"
  | EMatch expr "(hpat \<times> expr option \<times> arm_body) list"
  | EVector "expr list"
  | EMap "(expr \<times> expr) list"
  | ETuple "expr list"
  | EStruct "(string \<times> expr) list"
  | ERange expr expr bool
  | ECatch expr bool "(catch_type list \<times> expr option \<times> arm_body) list"
  | EEnum string "expr list"
  and arm_body = AExpr expr | ABlock "stmt list"
  and stmt = Stmt stmt_id span stmt_node
  and stmt_node =
    SLet expr
  | SAssign expr expr
  | SReturn "expr option"
  | SBreak
  | SContinue
  | SThrow expr
  | SIf "(expr \<times> stmt list) list" "stmt list option"
  | SWhile expr "stmt list"
  | SFor hpat expr "stmt list"
  | SExpr expr

text \<open>The children of a node are smaller: what recursion over the trees uses.\<close>

named_theorems hir_size \<open>sizes of the children of nodes\<close>

lemma list_child [hir_size]:
  fixes e :: expr and s :: stmt
  shows "e \<in> set es \<Longrightarrow> size e \<le> size_list size es" and "s \<in> set ss \<Longrightarrow> size s \<le> size_list size ss"
  by (rule size_list_estimation' [OF _ order_refl], assumption)+

lemma branch_children [hir_size]:
  fixes c :: expr and b :: "stmt list"
  assumes "(c, b) \<in> set xs"
  shows "size c \<le> size_list (size_prod size (size_list size)) xs \<and>
    size_list size b \<le> size_list (size_prod size (size_list size)) xs"
  using size_list_estimation' [OF assms, of "size c" "size_prod size (size_list size)"]
    size_list_estimation' [OF assms, of "size_list size b" "size_prod size (size_list size)"] by simp

lemma arm_children [hir_size]:
  fixes g :: "expr option" and b :: arm_body
  assumes "(p, g, b) \<in> set xs"
  shows "size b \<le> size_list (size_prod (\<lambda>x. 0) (size_prod (size_option size) size)) xs \<and>
    size_option size g \<le> size_list (size_prod (\<lambda>x. 0) (size_prod (size_option size) size)) xs"
  using size_list_estimation' [OF assms, of "size b" "size_prod (\<lambda>x. 0) (size_prod (size_option size) size)"]
    size_list_estimation' [OF assms, of "size_option size g" "size_prod (\<lambda>x. 0) (size_prod (size_option size) size)"]
  by simp

lemma entry_children [hir_size]:
  fixes k v :: expr
  assumes "(k, v) \<in> set xs"
  shows "size k \<le> size_list (size_prod size size) xs \<and> size v \<le> size_list (size_prod size size) xs"
  using size_list_estimation' [OF assms, of "size k" "size_prod size size"]
    size_list_estimation' [OF assms, of "size v" "size_prod size size"] by simp

lemma field_children [hir_size]:
  fixes x :: string and v :: expr
  assumes "(x, v) \<in> set xs"
  shows "size v \<le> size_list (size_prod (\<lambda>x. 0) size) xs"
  using size_list_estimation' [OF assms, of "size v" "size_prod (\<lambda>x. 0) size"] by simp

definition expr_id :: "expr \<Rightarrow> expr_id" where "expr_id e = (case e of Expr i _ _ \<Rightarrow> i)"
definition expr_node :: "expr \<Rightarrow> expr_node" where "expr_node e = (case e of Expr _ _ n \<Rightarrow> n)"

section \<open>Items\<close>

datatype import_path = IpPath "string list" | IpFile string

datatype throws = ThrowsNever | ThrowsTypes "(string \<times> span) list"

record func_def =
  fd_name :: string
  fd_span :: span
  fd_returns :: bool
  fd_throws :: "throws option"
  fd_body :: "stmt list"

record hir_struct =
  sd_name :: string
  sd_fields :: "string list"
  sd_methods :: "func_def list"

record hir_enum =
  ed_name :: string
  ed_variants :: "(string \<times> nat) list"

record iface_member =
  im_name :: string
  im_throws :: "throws option"

record hir_interface =
  id_name :: string
  id_methods :: "iface_member list"

datatype hir_item =
    IImport import_path
  | IFunc func_def
  | IStruct hir_struct
  | IEnum hir_enum
  | IInterface hir_interface
  | ITopLet string expr
  | ITest string span "stmt list"
  | IStmt "stmt list"

text \<open>The std module an import names.\<close>

definition std_module :: "import_path \<Rightarrow> string option" where
  "std_module p =
     (case p of
        IpPath [root, name] \<Rightarrow> if root = ''std'' then Some name else None
      | _ \<Rightarrow> None)"

section \<open>Tables of the earlier phases\<close>

datatype builtin_value = BvPuts | BvPrint | BvAssert | BvAssertEq | BvConcurrent

definition builtin_value_name :: "builtin_value \<Rightarrow> string" where
  "builtin_value_name b =
     (case b of
        BvPuts \<Rightarrow> ''puts'' | BvPrint \<Rightarrow> ''print'' | BvAssert \<Rightarrow> ''assert'' | BvAssertEq \<Rightarrow> ''assertEq''
      | BvConcurrent \<Rightarrow> ''concurrent'')"

datatype res = RLocal local_id | RItem item_id | RModule item_id | RBuiltin builtin_value | RSelf

datatype wrap_decision = Wrap | NoOp

type_synonym catch_key = "expr_id \<times> nat \<times> nat"

record resolutions =
  expr_res :: "expr_id \<Rightarrow> res option"
  ctor_expr_res :: "expr_id \<Rightarrow> ctor_res option"
  ctor_pattern_res :: "pattern_id \<Rightarrow> ctor_res option"
  pattern_locals :: "pattern_id \<Rightarrow> local_id option"
  stmt_locals :: "stmt_id \<Rightarrow> local_id option"
  lambda_params :: "expr_id \<Rightarrow> local_id list option"
  catch_bindings :: "expr_id \<Rightarrow> local_id option"
  catch_arm_types :: "catch_key \<Rightarrow> type_res option"
  catch_arm_panics :: "catch_key \<Rightarrow> string option"
  catch_arm_native_errors :: "catch_key \<Rightarrow> string option"
  iface_member_throws :: "item_id \<times> nat \<Rightarrow> type_res option list option"
  iface_member_throws_natives :: "item_id \<times> nat \<times> nat \<Rightarrow> string option"
  throws_types :: "def_ref \<Rightarrow> type_res option list option"
  throws_native_errors :: "def_ref \<times> nat \<Rightarrow> string option"
  func_params :: "def_ref \<Rightarrow> local_id option list option"
  constraint_res :: "def_ref \<times> nat \<Rightarrow> type_res option"
  struct_lit_res :: "expr_id \<Rightarrow> type_res option"

record type_tables =
  expr_types :: "expr_id \<Rightarrow> ty option"
  iface_uses :: "(item_id \<times> item_id \<times> span) list"
  wrap_decisions :: "expr_id \<Rightarrow> wrap_decision option"
  decode_fields :: "item_id \<Rightarrow> ty list option"

text \<open>The arenas of the HIR that are also scanned as a whole.\<close>

record hir =
  h_item :: "item_id \<Rightarrow> hir_item"
  h_item_span :: "item_id \<Rightarrow> span"
  h_exprs :: "expr list"
  h_stmts :: "stmt list"

text \<open>Tables with no entry, and nodes without identity: what small programs are written with.\<close>

definition span_default :: span where "span_default = \<lparr>span_start = 0, span_end = 0, span_file = 0\<rparr>"

definition no_resolutions :: resolutions where
  "no_resolutions =
     \<lparr>expr_res = (\<lambda>_. None), ctor_expr_res = (\<lambda>_. None), ctor_pattern_res = (\<lambda>_. None),
      pattern_locals = (\<lambda>_. None), stmt_locals = (\<lambda>_. None), lambda_params = (\<lambda>_. None),
      catch_bindings = (\<lambda>_. None), catch_arm_types = (\<lambda>_. None), catch_arm_panics = (\<lambda>_. None),
      catch_arm_native_errors = (\<lambda>_. None), iface_member_throws = (\<lambda>_. None),
      iface_member_throws_natives = (\<lambda>_. None), throws_types = (\<lambda>_. None),
      throws_native_errors = (\<lambda>_. None), func_params = (\<lambda>_. None), constraint_res = (\<lambda>_. None),
      struct_lit_res = (\<lambda>_. None)\<rparr>"

definition no_types :: type_tables where
  "no_types =
     \<lparr>expr_types = (\<lambda>_. None), iface_uses = [], wrap_decisions = (\<lambda>_. None), decode_fields = (\<lambda>_. None)\<rparr>"

abbreviation plain_expr :: "expr_node \<Rightarrow> expr" where "plain_expr n \<equiv> Expr 0 span_default n"
abbreviation plain_stmt :: "stmt_node \<Rightarrow> stmt" where "plain_stmt n \<equiv> Stmt 0 span_default n"

end
