(* ===== verification/Codegen_State.thy ===== *)
theory Codegen_State
  imports Hir_Tree Operand_Depth
begin

text \<open>
  The state of the code generator and its emit helpers (\<open>brasa_codegen/src/context.rs\<close>, \<open>func.rs\<close>,
  \<open>limits.rs\<close>). A step of the generator is a \<open>gen\<close>: it panics or yields a result and the
  state of the function under construction, which holds the state of the module. What the pass
  over the items fixes before any body is lowered is the record \<open>cg\<close>.
\<close>

section \<open>State\<close>

text \<open>Panics: an index that does not fit 32 bits, a missing entry of a table, a patch of something
  that is not a jump, a failed assertion of the operand-depth pass, a function defined twice, and a
  loop stack that is empty.\<close>

datatype cg_panic = TooMany | MissingEntry | BadPatch | DepthAssert | DefinedTwice | NoLoop

record diag =
  d_code :: string
  d_message :: string
  d_label :: string
  d_span :: span

record cx =
  cx_pool :: const_pool
  cx_diags :: "diag list"
  cx_functions :: "function_entry option list"
  cx_decoder_of :: "item_id \<Rightarrow> func_id option"
  cx_tests :: "test_entry list"

text \<open>\<open>KFunc\<close> says whether the function declares a return type.\<close>

datatype fn_kind = KToplevel | KFunc bool | KLambda

record loop_cx =
  lp_head :: code_ix
  lp_breaks :: "code_ix list"
  lp_pops :: bool

text \<open>The innermost loop is the head of \<open>f_loops\<close>.\<close>

record fcx =
  f_cx :: cx
  f_kind :: fn_kind
  f_chunk :: chunk
  f_handlers :: "handler list"
  f_slots :: "local_id \<Rightarrow> slot_ix option"
  f_next :: nat
  f_exhausted :: bool
  f_self :: "slot_ix option"
  f_loops :: "loop_cx list"

text \<open>\<open>g_debug\<close> says whether the build checks assertions.\<close>

record cg =
  g_debug :: bool
  g_hir :: hir
  g_res :: resolutions
  g_types :: type_tables
  g_shared :: "local_id set"
  g_func_of_item :: "item_id \<Rightarrow> func_id option"
  g_func_of_method :: "item_id \<times> nat \<Rightarrow> func_id option"
  g_struct_of_item :: "item_id \<Rightarrow> struct_id option"
  g_enum_of_item :: "item_id \<Rightarrow> enum_id option"
  g_global_of_item :: "item_id \<Rightarrow> global_ix option"
  g_structs :: "struct_shape list"

definition fcx_new :: "cx \<Rightarrow> fn_kind \<Rightarrow> fcx" where
  "fcx_new c kind =
     \<lparr>f_cx = c, f_kind = kind, f_chunk = chunk_new, f_handlers = [], f_slots = (\<lambda>_. None), f_next = 0,
      f_exhausted = False, f_self = None, f_loops = []\<rparr>"

abbreviation f_code :: "fcx \<Rightarrow> op list" where "f_code f \<equiv> code (f_chunk f)"
abbreviation f_diags :: "fcx \<Rightarrow> diag list" where "f_diags f \<equiv> cx_diags (f_cx f)"

section \<open>Steps\<close>

type_synonym ('a, 's) step = "'s \<Rightarrow> cg_panic + 'a \<times> 's"
type_synonym 'a gen = "('a, fcx) step"
type_synonym code_gen = "unit gen"

definition gret :: "'a \<Rightarrow> ('a, 's) step" where "gret x = (\<lambda>f. Inr (x, f))"
definition gpanic :: "cg_panic \<Rightarrow> ('a, 's) step" where "gpanic p = (\<lambda>f. Inl p)"
definition gets :: "('s \<Rightarrow> 'a) \<Rightarrow> ('a, 's) step" where "gets sel = (\<lambda>f. Inr (sel f, f))"

definition gbind :: "('a, 's) step \<Rightarrow> ('a \<Rightarrow> ('b, 's) step) \<Rightarrow> ('b, 's) step" where
  "gbind g k = (\<lambda>f. case g f of Inl p \<Rightarrow> Inl p | Inr (x, f') \<Rightarrow> k x f')"

definition gexpect :: "cg_panic \<Rightarrow> 'a option \<Rightarrow> ('a, 's) step" where
  "gexpect p x = (case x of Some y \<Rightarrow> gret y | None \<Rightarrow> gpanic p)"

definition gmodify :: "('s \<Rightarrow> 's) \<Rightarrow> (unit, 's) step" where "gmodify h = (\<lambda>f. Inr ((), h f))"

text \<open>Steps one after the other.\<close>

primrec cg_seq :: "(unit, 's) step list \<Rightarrow> (unit, 's) step" where
  "cg_seq [] = gret ()"
| "cg_seq (g # gs) = gbind g (\<lambda>_. cg_seq gs)"

text \<open>A step of the module, from inside a function.\<close>

definition on_cx :: "('a, cx) step \<Rightarrow> 'a gen" where
  "on_cx g = (\<lambda>f. case g (f_cx f) of Inl p \<Rightarrow> Inl p | Inr (x, c) \<Rightarrow> Inr (x, f\<lparr>f_cx := c\<rparr>))"

section \<open>Limits and reports\<close>

definition max_args :: nat where "max_args = 255"
definition max_params :: nat where "max_params = 255"
definition max_elements :: nat where "max_elements = 65535"
definition max_members :: nat where "max_members = 65535"
definition max_bindings :: nat where "max_bindings = 65535"
definition max_operand_stack :: nat where "max_operand_stack = 65535"

definition report :: "string \<Rightarrow> string \<Rightarrow> string \<Rightarrow> span \<Rightarrow> (unit, cx) step" where
  "report kind message label sp =
     gmodify (\<lambda>c. c\<lparr>cx_diags := cx_diags c @
       [\<lparr>d_code = kind, d_message = message, d_label = label, d_span = sp\<rparr>]\<rparr>)"

text \<open>A count that is narrowed to an operand of the given largest value.\<close>

definition narrow :: "nat \<Rightarrow> nat \<Rightarrow> (unit, cx) step \<Rightarrow> (nat, cx) step" where
  "narrow limit count complain =
     (if count \<le> limit then gret count else gbind complain (\<lambda>_. gret limit))"

definition cx_argc :: "nat \<Rightarrow> span \<Rightarrow> (nat, cx) step" where
  "cx_argc count sp =
     narrow max_args count
       (report ''C001'' (''call takes '' @ dec_nat count @ '' arguments, but the limit is '' @ dec_nat max_args)
         ''too many arguments'' sp)"

definition cx_arity :: "string \<Rightarrow> nat \<Rightarrow> span \<Rightarrow> (nat, cx) step" where
  "cx_arity what count sp =
     narrow max_params count
       (report ''C002'' (what @ '' takes '' @ dec_nat count @ '' parameters, but the limit is '' @ dec_nat max_params)
         ''too many parameters'' sp)"

definition cx_capture_count :: "nat \<Rightarrow> span \<Rightarrow> (nat, cx) step" where
  "cx_capture_count count sp =
     narrow max_bindings count
       (report ''C005'' (''closure captures '' @ dec_nat count @ '' values, but the limit is '' @ dec_nat max_bindings)
         ''too many captured values'' sp)"

definition element_count :: "string \<Rightarrow> string \<Rightarrow> nat \<Rightarrow> span \<Rightarrow> nat gen" where
  "element_count what unit_name count sp =
     on_cx (narrow max_elements count
       (report ''C003'' (what @ '' has '' @ dec_nat count @ '' '' @ unit_name @ '', but the limit is '' @ dec_nat max_elements)
         (''too many '' @ unit_name) sp))"

text \<open>An index that lowering clamps because the declaration has been reported before.\<close>

definition clamp16 :: "nat \<Rightarrow> nat" where "clamp16 n = (if n \<le> 65535 then n else 65535)"

section \<open>Tables\<close>

definition reserve_function :: "(func_id, cx) step" where
  "reserve_function =
     (\<lambda>c. if length (cx_functions c) < 2 ^ 32
          then Inr (length (cx_functions c), c\<lparr>cx_functions := cx_functions c @ [None]\<rparr>) else Inl TooMany)"

definition define_function :: "cg \<Rightarrow> func_id \<Rightarrow> function_entry \<Rightarrow> (unit, cx) step" where
  "define_function G i fn =
     (\<lambda>c. if \<not> i < length (cx_functions c) then Inl MissingEntry
          else if g_debug G \<and> cx_functions c ! i \<noteq> None then Inl DefinedTwice
          else Inr ((), c\<lparr>cx_functions := (cx_functions c)[i := Some fn]\<rparr>))"

definition pool_const :: "pool_constant \<Rightarrow> (const_id, cx) step" where
  "pool_const k =
     (\<lambda>c. case pool_insert k (cx_pool c) of
            None \<Rightarrow> Inl TooMany | Some (i, p) \<Rightarrow> Inr (i, c\<lparr>cx_pool := p\<rparr>))"

definition const_string :: "string \<Rightarrow> const_id gen" where
  "const_string text = on_cx (pool_const (KStr text))"

section \<open>Emitting\<close>

definition placeholder :: code_ix where "placeholder = 2 ^ 32 - 1"

definition emit :: "op \<Rightarrow> span \<Rightarrow> code_ix gen" where
  "emit op sp =
     (\<lambda>f. case chunk_push op sp (f_chunk f) of
            None \<Rightarrow> Inl TooMany | Some (ix, c) \<Rightarrow> Inr (ix, f\<lparr>f_chunk := c\<rparr>))"

definition emit_op :: "op \<Rightarrow> span \<Rightarrow> code_gen" where
  "emit_op op sp = gbind (emit op sp) (\<lambda>_. gret ())"

definition patch :: "code_ix \<Rightarrow> code_ix \<Rightarrow> code_gen" where
  "patch site target =
     (\<lambda>f. case patch_jump site target (f_chunk f) of
            None \<Rightarrow> Inl BadPatch | Some c \<Rightarrow> Inr ((), f\<lparr>f_chunk := c\<rparr>))"

definition here :: "code_ix gen" where
  "here = (\<lambda>f. if length (f_code f) < 2 ^ 32 then Inr (length (f_code f), f) else Inl TooMany)"

text \<open>Every patch of the generator follows \<open>let target = f.here()\<close>.\<close>

definition patch_here :: "code_ix list \<Rightarrow> code_gen" where
  "patch_here sites = gbind here (\<lambda>target. cg_seq (map (\<lambda>site. patch site target) sites))"

definition emit_const :: "pool_constant \<Rightarrow> span \<Rightarrow> code_gen" where
  "emit_const k sp = gbind (on_cx (pool_const k)) (\<lambda>i. emit_op (Const i) sp)"

definition call_builtin :: "string \<Rightarrow> nat \<Rightarrow> span \<Rightarrow> code_gen" where
  "call_builtin name argc sp =
     gbind (gexpect MissingEntry (builtin_id name)) (\<lambda>b. emit_op (CallBuiltin b argc) sp)"

definition emit_raise :: "string \<Rightarrow> string \<Rightarrow> span \<Rightarrow> code_gen" where
  "emit_raise name message sp =
     gbind (gexpect MissingEntry (builtin_id name)) (\<lambda>b.
       cg_seq [emit_const (KStr message) sp, emit_op (CallBuiltin b 1) sp])"

definition emit_fatal :: "string \<Rightarrow> span \<Rightarrow> code_gen" where
  "emit_fatal message sp = emit_raise ''<fatal>'' message sp"

definition emit_assert_failed :: "string \<Rightarrow> span \<Rightarrow> code_gen" where
  "emit_assert_failed detail sp = emit_raise ''<assert-failed>'' detail sp"

section \<open>Slots\<close>

definition sat_inc16 :: "nat \<Rightarrow> nat" where "sat_inc16 n = (if n < 65535 then n + 1 else 65535)"

definition assign_slot :: "local_id \<Rightarrow> slot_ix \<Rightarrow> code_gen" where
  "assign_slot l slot =
     gmodify (\<lambda>f. f\<lparr>f_slots := (f_slots f)(l \<mapsto> slot), f_next := max (f_next f) (sat_inc16 slot)\<rparr>)"

definition reserve_slot_floor :: "nat \<Rightarrow> code_gen" where
  "reserve_slot_floor floor = gmodify (\<lambda>f. f\<lparr>f_next := max (f_next f) floor\<rparr>)"

definition alloc_slot :: "slot_ix gen" where
  "alloc_slot =
     (\<lambda>f. Inr (f_next f, if f_next f + 1 < 2 ^ 16 then f\<lparr>f_next := f_next f + 1\<rparr> else f\<lparr>f_exhausted := True\<rparr>))"

definition slot_of :: "local_id \<Rightarrow> slot_ix gen" where
  "slot_of l =
     (\<lambda>f. case f_slots f l of
            Some slot \<Rightarrow> Inr (slot, f)
          | None \<Rightarrow> gbind alloc_slot (\<lambda>slot. gbind (gmodify (\<lambda>f. f\<lparr>f_slots := (f_slots f)(l \<mapsto> slot)\<rparr>))
              (\<lambda>_. gret slot)) f)"

definition bind_local :: "cg \<Rightarrow> local_id \<Rightarrow> span \<Rightarrow> code_gen" where
  "bind_local G l sp =
     gbind (slot_of l) (\<lambda>slot. emit_op (if l \<in> g_shared G then MakeBinding slot else StoreLocal slot) sp)"

definition load_local :: "cg \<Rightarrow> local_id \<Rightarrow> span \<Rightarrow> code_gen" where
  "load_local G l sp =
     gbind (slot_of l) (\<lambda>slot. emit_op (if l \<in> g_shared G then LoadBinding slot else LoadLocal slot) sp)"

definition store_local :: "cg \<Rightarrow> local_id \<Rightarrow> span \<Rightarrow> code_gen" where
  "store_local G l sp =
     gbind (slot_of l) (\<lambda>slot. emit_op (if l \<in> g_shared G then StoreBinding slot else StoreLocal slot) sp)"

definition capture_local :: "local_id \<Rightarrow> span \<Rightarrow> code_gen" where
  "capture_local l sp = gbind (slot_of l) (\<lambda>slot. emit_op (LoadLocal slot) sp)"

definition bind_shared_params :: "cg \<Rightarrow> local_id list \<Rightarrow> span \<Rightarrow> code_gen" where
  "bind_shared_params G params sp =
     cg_seq (map (\<lambda>l.
       if l \<notin> g_shared G then gret ()
       else gbind (slot_of l) (\<lambda>slot. cg_seq [emit_op (LoadLocal slot) sp, emit_op (MakeBinding slot) sp])) params)"

definition load_self :: "span \<Rightarrow> code_gen" where
  "load_self sp =
     gbind (gets f_self) (\<lambda>slot.
       case slot of
         Some s \<Rightarrow> emit_op (LoadLocal s) sp
       | None \<Rightarrow> emit_fatal ''brasa: `self` outside a method'' sp)"

section \<open>Finishing a function\<close>

definition report_exhausted :: "string \<Rightarrow> span \<Rightarrow> bool \<Rightarrow> (unit, cx) step" where
  "report_exhausted name sp exhausted =
     (if exhausted then
        report ''C005'' (''`'' @ name @ ''` needs more than '' @ dec_nat max_bindings @ '' local slots'')
          ''too many local bindings'' sp
      else gret ())"

text \<open>The handlers as the depth pass leaves them, and \<open>max_stack\<close>.\<close>

definition fix_depths ::
    "cg \<Rightarrow> string \<Rightarrow> span \<Rightarrow> op list \<Rightarrow> handler list \<Rightarrow> (handler list \<times> nat, cx) step" where
  "fix_depths G name sp ops hs =
     (\<lambda>c. if cx_diags c \<noteq> [] then Inr ((hs, 0), c)
          else case finalize (g_debug G) ops hs (g_structs G) of
                 None \<Rightarrow> Inl DepthAssert
               | Some (hs', Inr mx) \<Rightarrow> Inr ((hs', mx), c)
               | Some (hs', Inl needed) \<Rightarrow>
                   gbind (report ''C006'' (''`'' @ name @ ''` needs '' @ dec_nat needed @
                       '' operand-stack slots, but the limit is '' @ dec_nat max_operand_stack)
                     ''expression too complex'' sp) (\<lambda>_. gret (hs', u16_max)) c)"

definition finish_fn :: "cg \<Rightarrow> string \<Rightarrow> nat \<Rightarrow> nat \<Rightarrow> span \<Rightarrow> fcx \<Rightarrow> cg_panic + function_entry \<times> cx" where
  "finish_fn G name arity_n capture_n sp f =
     gbind (report_exhausted name sp (f_exhausted f)) (\<lambda>_.
     gbind (fix_depths G name sp (f_code f) (f_handlers f)) (\<lambda>(hs, mx).
       gret \<lparr>fn_name = name, arity = arity_n, captures = capture_n, locals = f_next f, max_stack = mx,
             fn_chunk = foldl (\<lambda>c h. push_handler h c) (f_chunk f) hs\<rparr>)) (f_cx f)"

text \<open>A function compiled on its own: the body, then \<open>finish\<close>.\<close>

definition build_fn ::
    "cg \<Rightarrow> fn_kind \<Rightarrow> string \<Rightarrow> nat \<Rightarrow> nat \<Rightarrow> span \<Rightarrow> code_gen \<Rightarrow> (function_entry, cx) step" where
  "build_fn G kind name arity_n capture_n sp body =
     (\<lambda>c. case body (fcx_new c kind) of
            Inl p \<Rightarrow> Inl p | Inr (_, f) \<Rightarrow> finish_fn G name arity_n capture_n sp f)"

end
