(* ===== verification/Lambda_Captures.thy ===== *)
theory Lambda_Captures
  imports Hir_Tree
begin

text \<open>
  What a lambda captures and which bindings live in heap cells (\<open>brasa_codegen/src/captures.rs\<close>,
  \<open>bindings.rs\<close>). The walker's two sets and its flag are passed along.
\<close>

section \<open>The walker\<close>

record walker =
  w_referenced :: "local_id set"
  w_bound :: "local_id set"
  w_self :: bool

definition bind_opt :: "local_id option \<Rightarrow> walker \<Rightarrow> walker" where
  "bind_opt l w = (case l of Some x \<Rightarrow> w\<lparr>w_bound := insert x (w_bound w)\<rparr> | None \<Rightarrow> w)"

definition bind_params :: "local_id list option \<Rightarrow> walker \<Rightarrow> walker" where
  "bind_params ps w = (case ps of Some ls \<Rightarrow> w\<lparr>w_bound := set ls \<union> w_bound w\<rparr> | None \<Rightarrow> w)"

definition reference :: "res option \<Rightarrow> walker \<Rightarrow> walker" where
  "reference r w =
     (case r of
        Some (RLocal l) \<Rightarrow> w\<lparr>w_referenced := insert l (w_referenced w)\<rparr>
      | Some RSelf \<Rightarrow> w\<lparr>w_self := True\<rparr>
      | _ \<Rightarrow> w)"

fun walk_pattern :: "resolutions \<Rightarrow> hpat \<Rightarrow> walker \<Rightarrow> walker" where
  "walk_pattern R (HPat i sp HWildcard) w = w"
| "walk_pattern R (HPat i sp (HLiteral l)) w = w"
| "walk_pattern R (HPat i sp HBinding) w = bind_opt (pattern_locals R i) w"
| "walk_pattern R (HPat i sp (HCtor args)) w = fold (walk_pattern R) args w"
| "walk_pattern R (HPat i sp (HTuple es)) w = fold (walk_pattern R) es w"

function (sequential) walk_expr :: "resolutions \<Rightarrow> expr \<Rightarrow> walker \<Rightarrow> walker"
  and walk_stmt :: "resolutions \<Rightarrow> stmt \<Rightarrow> walker \<Rightarrow> walker"
  and walk_body :: "resolutions \<Rightarrow> arm_body \<Rightarrow> walker \<Rightarrow> walker" where
  "walk_expr R (Expr i sp (EIdent x)) w = reference (expr_res R i) w"
| "walk_expr R (Expr i sp ESelf) w = w\<lparr>w_self := True\<rparr>"
| "walk_expr R (Expr i sp (ECall callee args)) w = fold (walk_expr R) args (walk_expr R callee w)"
| "walk_expr R (Expr i sp (EField recv x)) w = walk_expr R recv w"
| "walk_expr R (Expr i sp (EIndex recv ix)) w = walk_expr R ix (walk_expr R recv w)"
| "walk_expr R (Expr i sp (EUnary u e)) w = walk_expr R e w"
| "walk_expr R (Expr i sp (EBinary b x y)) w = walk_expr R y (walk_expr R x w)"
| "walk_expr R (Expr i sp (EOptionWrap e)) w = walk_expr R e w"
| "walk_expr R (Expr i sp (EToString e)) w = walk_expr R e w"
| "walk_expr R (Expr i sp (ELambda body)) w = walk_body R body (bind_params (lambda_params R i) w)"
| "walk_expr R (Expr i sp (EIf branches els)) w =
     (let w = fold (\<lambda>(c, b) w. fold (walk_stmt R) b (walk_expr R c w)) branches w
      in case els of None \<Rightarrow> w | Some b \<Rightarrow> fold (walk_stmt R) b w)"
| "walk_expr R (Expr i sp (EMatch scrutinee arms)) w =
     fold (\<lambda>(p, g, b) w.
         walk_body R b ((case g of None \<Rightarrow> id | Some e \<Rightarrow> walk_expr R e) (walk_pattern R p w)))
       arms (walk_expr R scrutinee w)"
| "walk_expr R (Expr i sp (EVector es)) w = fold (walk_expr R) es w"
| "walk_expr R (Expr i sp (EMap ps)) w = fold (\<lambda>(k, v) w. walk_expr R v (walk_expr R k w)) ps w"
| "walk_expr R (Expr i sp (ETuple es)) w = fold (walk_expr R) es w"
| "walk_expr R (Expr i sp (EStruct fs)) w = fold (\<lambda>(x, v) w. walk_expr R v w) fs w"
| "walk_expr R (Expr i sp (ERange lo hi incl)) w = walk_expr R hi (walk_expr R lo w)"
| "walk_expr R (Expr i sp (ECatch subject exhaustive arms)) w =
     fold (\<lambda>(ts, g, b) w. walk_body R b ((case g of None \<Rightarrow> id | Some e \<Rightarrow> walk_expr R e) w))
       arms (walk_expr R subject (bind_opt (catch_bindings R i) w))"
| "walk_expr R (Expr i sp (EEnum x args)) w = fold (walk_expr R) args w"
| "walk_expr R (Expr i sp (EInt v)) w = w"
| "walk_expr R (Expr i sp (EFloat x)) w = w"
| "walk_expr R (Expr i sp (EBool b)) w = w"
| "walk_expr R (Expr i sp (EChar c)) w = w"
| "walk_expr R (Expr i sp EUnit) w = w"
| "walk_expr R (Expr i sp (EStr s)) w = w"
| "walk_stmt R (Stmt i sp (SLet e)) w = walk_expr R e (bind_opt (stmt_locals R i) w)"
| "walk_stmt R (Stmt i sp (SAssign t e)) w = walk_expr R e (walk_expr R t w)"
| "walk_stmt R (Stmt i sp (SReturn v)) w = (case v of None \<Rightarrow> id | Some e \<Rightarrow> walk_expr R e) w"
| "walk_stmt R (Stmt i sp SBreak) w = w"
| "walk_stmt R (Stmt i sp SContinue) w = w"
| "walk_stmt R (Stmt i sp (SThrow e)) w = walk_expr R e w"
| "walk_stmt R (Stmt i sp (SIf branches els)) w =
     (let w = fold (\<lambda>(c, b) w. fold (walk_stmt R) b (walk_expr R c w)) branches w
      in case els of None \<Rightarrow> w | Some b \<Rightarrow> fold (walk_stmt R) b w)"
| "walk_stmt R (Stmt i sp (SWhile c b)) w = fold (walk_stmt R) b (walk_expr R c w)"
| "walk_stmt R (Stmt i sp (SFor p e b)) w = fold (walk_stmt R) b (walk_expr R e (walk_pattern R p w))"
| "walk_stmt R (Stmt i sp (SExpr e)) w = walk_expr R e w"
| "walk_body R (AExpr e) w = walk_expr R e w"
| "walk_body R (ABlock b) w = fold (walk_stmt R) b w"
  by pat_completeness auto
termination
  by (relation "measure (\<lambda>x. case x of Inl (_, e, _) \<Rightarrow> size e | Inr (Inl (_, s, _)) \<Rightarrow> size s | Inr (Inr (_, b, _)) \<Rightarrow> size b)")
     (auto dest!: hir_size)

section \<open>Captures and shared bindings\<close>

record captures =
  uses_self :: bool
  cap_locals :: "local_id list"

definition lambda_captures :: "resolutions \<Rightarrow> expr \<Rightarrow> captures" where
  "lambda_captures R e =
     (case e of
        Expr i sp (ELambda body) \<Rightarrow>
          (let w = walk_body R body
                 (bind_params (lambda_params R i) \<lparr>w_referenced = {}, w_bound = {}, w_self = False\<rparr>)
           in \<lparr>uses_self = w_self w, cap_locals = sorted_list_of_set (w_referenced w - w_bound w)\<rparr>)
      | _ \<Rightarrow> \<lparr>uses_self = False, cap_locals = []\<rparr>)"

definition rebound :: "resolutions \<Rightarrow> stmt list \<Rightarrow> local_id set" where
  "rebound R ss =
     {l. \<exists>s \<in> set ss. case s of
           Stmt _ _ (SAssign t _) \<Rightarrow> expr_res R (expr_id t) = Some (RLocal l) | _ \<Rightarrow> False}"

definition is_lambda :: "expr \<Rightarrow> bool" where
  "is_lambda e = (case expr_node e of ELambda _ \<Rightarrow> True | _ \<Rightarrow> False)"

definition shared_bindings :: "resolutions \<Rightarrow> hir \<Rightarrow> local_id set" where
  "shared_bindings R H =
     (if rebound R (h_stmts H) = {} then {}
      else (\<Union>e \<in> set (filter is_lambda (h_exprs H)).
              set (filter (\<lambda>l. l \<in> rebound R (h_stmts H)) (cap_locals (lambda_captures R e)))))"

end
