(* ===== verification/Codegen_Nodes.thy ===== *)
theory Codegen_Nodes
  imports Codegen_State Lambda_Captures
begin

text \<open>
  Lowering of the nodes of a function body (\<open>brasa_codegen/src/pattern.rs\<close>, \<open>catch.rs\<close>, \<open>stmt.rs\<close>,
  \<open>expr.rs\<close>, \<open>json_decode.rs\<close>). A helper of the source takes the ids of its operands and compiles them
  where it needs them; here it takes the steps that compile them (\<open>c_recv\<close>, \<open>c_args\<close>, \<dots>), and
  the recursion over the tree is tied in \<open>Codegen\<close>.
\<close>

definition type_of :: "cg \<Rightarrow> expr \<Rightarrow> ty option" where
  "type_of G e = expr_types (g_types G) (expr_id e)"

definition item_of :: "cg \<Rightarrow> item_id \<Rightarrow> hir_item" where
  "item_of G i = h_item (g_hir G) i"

text \<open>Argument lists whose values nothing uses.\<close>

definition discard :: "code_gen list \<Rightarrow> span \<Rightarrow> code_gen" where
  "discard c_args sp = cg_seq (map (\<lambda>c. cg_seq [c, emit_op Pop sp]) c_args)"

definition arg_at :: "code_gen list \<Rightarrow> nat \<Rightarrow> code_gen" where
  "arg_at cs i = (if i < length cs then cs ! i else gpanic MissingEntry)"

section \<open>Patterns\<close>

text \<open>A test returns the sites it pushes on \<open>fails\<close>.\<close>

type_synonym test = "code_ix list gen"

definition no_fails :: "code_gen \<Rightarrow> test" where "no_fails g = gbind g (\<lambda>_. gret [])"

definition emit_fail :: "op \<Rightarrow> span \<Rightarrow> test" where
  "emit_fail op sp = gbind (emit op sp) (\<lambda>site. gret [site])"

definition cleanup :: "code_ix list \<Rightarrow> span \<Rightarrow> test" where
  "cleanup dirty sp =
     (if dirty = [] then gret []
      else gbind (emit (Jump placeholder) sp) (\<lambda>matched.
           gbind (cg_seq [patch_here dirty, emit_op Pop sp]) (\<lambda>_.
           gbind (emit_fail (Jump placeholder) sp) (\<lambda>fails.
           gbind (patch_here [matched]) (\<lambda>_. gret fails)))))"

primrec init_tests :: "(nat \<Rightarrow> op) \<Rightarrow> span \<Rightarrow> nat \<Rightarrow> test list \<Rightarrow> test" where
  "init_tests project sp ix [] = gret []"
| "init_tests project sp ix (t # ts) =
     gbind (cg_seq [emit_op Dup sp, emit_op (project (clamp16 ix)) sp]) (\<lambda>_.
     gbind t (\<lambda>fs. gbind (init_tests project sp (ix + 1) ts) (\<lambda>gs. gret (fs @ gs))))"

definition compound_test :: "test list \<Rightarrow> (nat \<Rightarrow> op) \<Rightarrow> code_ix list \<Rightarrow> span \<Rightarrow> test" where
  "compound_test tests project dirty sp =
     (if tests = [] then gbind (emit_op Pop sp) (\<lambda>_. cleanup dirty sp)
      else gbind (init_tests project sp 0 (butlast tests)) (\<lambda>more.
           gbind (emit_op (project (clamp16 (length tests - 1))) sp) (\<lambda>_.
           gbind (last tests) (\<lambda>fails.
           gbind (cleanup (dirty @ more) sp) (\<lambda>cleaned. gret (fails @ cleaned))))))"

definition literal_test :: "literal \<Rightarrow> span \<Rightarrow> test" where
  "literal_test l sp =
     gbind (case l of
         LInt v \<Rightarrow> cg_seq [emit_const (KInt v) sp, emit_op EqInt sp]
       | LFloat v \<Rightarrow> cg_seq [emit_const (KFloat v) sp, emit_op EqFloat sp]
       | LBool v \<Rightarrow> cg_seq [emit_op (if v then LoadTrue else LoadFalse) sp, emit_op EqBool sp]
       | LChar v \<Rightarrow> cg_seq [emit_const (KChar v) sp, emit_op Eq sp]
       | LStr v \<Rightarrow> cg_seq [emit_const (KStr v) sp, emit_op Eq sp])
     (\<lambda>_. emit_fail (JumpIfFalse placeholder) sp)"

definition some_test :: "test list \<Rightarrow> span \<Rightarrow> test" where
  "some_test tests sp =
     gbind (emit (JumpIfNone placeholder) sp) (\<lambda>none.
     gbind (emit_op UnwrapSome sp) (\<lambda>_.
     gbind (case tests of
         [payload] \<Rightarrow> payload
       | [] \<Rightarrow> no_fails (emit_op Pop sp)
       | _ \<Rightarrow> gbind (emit_op Pop sp) (\<lambda>_. emit_fail (Jump placeholder) sp)) (\<lambda>fails.
     gbind (cleanup [none] sp) (\<lambda>cleaned. gret (fails @ cleaned)))))"

definition none_test :: "span \<Rightarrow> test" where
  "none_test sp =
     gbind (emit (JumpIfNone placeholder) sp) (\<lambda>is_none.
     gbind (emit_op Pop sp) (\<lambda>_.
     gbind (emit_fail (Jump placeholder) sp) (\<lambda>fails.
     gbind (cg_seq [patch_here [is_none], emit_op Pop sp]) (\<lambda>_. gret fails))))"

definition ctor_test :: "ctor_res option \<Rightarrow> test list \<Rightarrow> span \<Rightarrow> test" where
  "ctor_test res tests sp =
     (case res of
        Some ResSome \<Rightarrow> some_test tests sp
      | Some ResNone \<Rightarrow> none_test sp
      | Some (ResVariant e ix) \<Rightarrow>
          gbind (emit (JumpIfVariantNe (clamp16 ix) placeholder) sp) (\<lambda>wrong.
            compound_test tests EnumField [wrong] sp)
      | _ \<Rightarrow> no_fails (cg_seq [emit_op Pop sp, emit_fatal ''brasa: unresolved constructor pattern'' sp,
               emit_op Pop sp]))"

fun pattern_test :: "cg \<Rightarrow> hpat \<Rightarrow> test" where
  "pattern_test G (HPat i sp HWildcard) = no_fails (emit_op Pop sp)"
| "pattern_test G (HPat i sp HBinding) =
     no_fails (case pattern_locals (g_res G) i of Some l \<Rightarrow> bind_local G l sp | None \<Rightarrow> emit_op Pop sp)"
| "pattern_test G (HPat i sp (HLiteral l)) = literal_test l sp"
| "pattern_test G (HPat i sp (HTuple es)) = compound_test (map (pattern_test G) es) TupleField [] sp"
| "pattern_test G (HPat i sp (HCtor args)) =
     ctor_test (ctor_pattern_res (g_res G) i) (map (pattern_test G) args) sp"

definition for_binding :: "cg \<Rightarrow> hpat \<Rightarrow> span \<Rightarrow> code_gen" where
  "for_binding G p sp =
     gbind (pattern_test G p) (\<lambda>fails.
       if fails = [] then gret ()
       else gbind (emit (Jump placeholder) sp) (\<lambda>matched.
         cg_seq [patch_here fails, emit_assert_failed ''`for` pattern did not match the element'' sp,
           emit_op Pop sp, patch_here [matched]]))"

section \<open>Matches\<close>

definition guard_jump :: "code_gen option \<Rightarrow> span \<Rightarrow> test" where
  "guard_jump c_guard sp =
     (case c_guard of
        None \<Rightarrow> gret []
      | Some c \<Rightarrow> gbind c (\<lambda>_. emit_fail (JumpIfFalse placeholder) sp))"

text \<open>The jumps to the next arm and to the end, after the arms.\<close>

primrec match_arms ::
    "span \<Rightarrow> (test \<times> code_gen option \<times> code_gen) list \<Rightarrow> code_ix list \<Rightarrow> code_ix list \<Rightarrow>
     (code_ix list \<times> code_ix list) gen" where
  "match_arms sp [] nexts ends = gret (nexts, ends)"
| "match_arms sp (arm # arms) nexts ends =
     (case arm of (t, c_guard, c_body) \<Rightarrow>
        gbind (cg_seq [patch_here nexts, emit_op Dup sp]) (\<lambda>_.
        gbind t (\<lambda>fails.
        gbind (guard_jump c_guard sp) (\<lambda>unguarded.
        gbind (cg_seq [emit_op Pop sp, c_body]) (\<lambda>_.
        gbind (emit (Jump placeholder) sp) (\<lambda>leave.
          match_arms sp arms (fails @ unguarded) (ends @ [leave])))))))"

definition cg_match :: "code_gen \<Rightarrow> (test \<times> code_gen option \<times> code_gen) list \<Rightarrow> span \<Rightarrow> code_gen" where
  "cg_match c_scrutinee arms sp =
     gbind c_scrutinee (\<lambda>_.
     gbind (match_arms sp arms [] []) (\<lambda>(nexts, ends).
       cg_seq [patch_here nexts, emit_op Pop sp, emit_assert_failed ''no match arm matched the value'' sp,
         patch_here ends]))"

section \<open>Catches\<close>

definition nominal_name :: "cg \<Rightarrow> item_id \<Rightarrow> string option" where
  "nominal_name G i =
     (case item_of G i of
        IStruct d \<Rightarrow> Some (sd_name d) | IEnum d \<Rightarrow> Some (ed_name d) | _ \<Rightarrow> None)"

text \<open>The nominal tag of the type an arm resolved to.\<close>

definition arm_tag :: "cg \<Rightarrow> catch_key \<Rightarrow> string option" where
  "arm_tag G key =
     (case catch_arm_types (g_res G) key of Some (ResItem i) \<Rightarrow> nominal_name G i | _ \<Rightarrow> None)"

definition arm_dotted :: "cg \<Rightarrow> catch_key \<Rightarrow> string \<Rightarrow> bool" where
  "arm_dotted G key name \<longleftrightarrow>
     arm_tag G key = None \<and>
     (catch_arm_panics (g_res G) key \<noteq> None \<or> catch_arm_native_errors (g_res G) key \<noteq> None \<or>
      CHR ''.'' \<in> set name)"

definition catch_test :: "cg \<Rightarrow> catch_key \<Rightarrow> catch_type \<Rightarrow> span \<Rightarrow> (code_ix \<times> op) gen" where
  "catch_test G key t sp =
     (case t of
        CtWildcard _ \<Rightarrow> gbind (emit (JumpIfPanic placeholder) sp) (\<lambda>fail. gret (fail, CaughtValue))
      | CtNamed name _ \<Rightarrow>
          gbind (const_string (case arm_tag G key of Some nominal \<Rightarrow> nominal | None \<Rightarrow> name)) (\<lambda>tag.
          gbind (emit (JumpIfTagNe tag placeholder) sp) (\<lambda>fail.
            gret (fail, if arm_dotted G key name then CaughtDetail else CaughtValue))))"

definition emit_binding :: "cg \<Rightarrow> op \<Rightarrow> local_id option \<Rightarrow> span \<Rightarrow> code_gen" where
  "emit_binding G bind_op binding sp =
     cg_seq [emit_op bind_op sp,
       (case binding of Some l \<Rightarrow> bind_local G l sp | None \<Rightarrow> emit_op Pop sp)]"

text \<open>The alternatives of one arm: the last failing jump and the jumps of those that matched.\<close>

primrec catch_tests ::
    "cg \<Rightarrow> expr_id \<Rightarrow> nat \<Rightarrow> local_id option \<Rightarrow> span \<Rightarrow> catch_type list \<Rightarrow> nat \<Rightarrow> code_ix list \<Rightarrow>
     code_ix list \<Rightarrow> (code_ix list \<times> code_ix list) gen" where
  "catch_tests G i arm_ix binding sp [] ty_ix fail_prev matched = gret (fail_prev, matched)"
| "catch_tests G i arm_ix binding sp (t # ts) ty_ix fail_prev matched =
     gbind (if fail_prev = [] then gret () else patch_here fail_prev) (\<lambda>_.
     gbind (catch_test G (i, arm_ix, ty_ix) t sp) (\<lambda>(fail, bind_op).
     gbind (emit_binding G bind_op binding sp) (\<lambda>_.
     gbind (if ts = [] then gret [] else emit_fail (Jump placeholder) sp) (\<lambda>more.
       catch_tests G i arm_ix binding sp ts (ty_ix + 1) [fail] (matched @ more)))))"

primrec catch_arms ::
    "cg \<Rightarrow> expr_id \<Rightarrow> local_id option \<Rightarrow> span \<Rightarrow> (catch_type list \<times> code_gen option \<times> code_gen) list \<Rightarrow> nat \<Rightarrow>
     code_ix list \<Rightarrow> code_ix list \<Rightarrow> (code_ix list \<times> code_ix list) gen" where
  "catch_arms G i binding sp [] arm_ix nexts ends = gret (nexts, ends)"
| "catch_arms G i binding sp (arm # arms) arm_ix nexts ends =
     (case arm of (types, c_guard, c_body) \<Rightarrow>
        gbind (patch_here nexts) (\<lambda>_.
        gbind (catch_tests G i arm_ix binding sp types 0 [] []) (\<lambda>(fail, matched).
        gbind (patch_here matched) (\<lambda>_.
        gbind (guard_jump c_guard sp) (\<lambda>unguarded.
        gbind (cg_seq [emit_op Pop sp, c_body]) (\<lambda>_.
        gbind (emit (Jump placeholder) sp) (\<lambda>leave.
          catch_arms G i binding sp arms (arm_ix + 1) (fail @ unguarded) (ends @ [leave]))))))))"

definition add_handler :: "code_ix \<Rightarrow> code_ix \<Rightarrow> code_ix \<Rightarrow> code_gen" where
  "add_handler start stop target =
     gmodify (\<lambda>f. f\<lparr>f_handlers := f_handlers f @
       [\<lparr>h_start = start, h_end = stop, h_target = target, h_depth = 0\<rparr>]\<rparr>)"

definition cg_catch ::
    "cg \<Rightarrow> expr_id \<Rightarrow> code_gen \<Rightarrow> (catch_type list \<times> code_gen option \<times> code_gen) list \<Rightarrow> span \<Rightarrow> code_gen" where
  "cg_catch G i c_subject arms sp =
     gbind here (\<lambda>start.
     gbind c_subject (\<lambda>_.
     gbind here (\<lambda>stop.
     gbind (emit (Jump placeholder) sp) (\<lambda>leave.
     gbind here (\<lambda>target.
     gbind (add_handler start stop target) (\<lambda>_.
     gbind (catch_arms G i (catch_bindings (g_res G) i) sp arms 0 [] [leave]) (\<lambda>(nexts, ends).
       cg_seq [patch_here nexts, emit_op Rethrow sp, patch_here ends])))))))"

section \<open>Statements\<close>

definition cg_let :: "cg \<Rightarrow> stmt_id \<Rightarrow> code_gen \<Rightarrow> span \<Rightarrow> code_gen" where
  "cg_let G i c_value sp =
     cg_seq [c_value,
       (case stmt_locals (g_res G) i of Some l \<Rightarrow> bind_local G l sp | None \<Rightarrow> emit_op Pop sp)]"

definition cg_break :: "span \<Rightarrow> code_gen" where
  "cg_break sp =
     gbind (gets f_loops) (\<lambda>loops.
       case loops of
         [] \<Rightarrow> cg_seq [emit_fatal ''brasa: `break` outside a loop'' sp, emit_op Pop sp]
       | l # _ \<Rightarrow>
           gbind (if lp_pops l then emit_op Pop sp else gret ()) (\<lambda>_.
           gbind (emit (Jump placeholder) sp) (\<lambda>site.
             gmodify (\<lambda>f. f\<lparr>f_loops :=
               (case f_loops f of [] \<Rightarrow> [] | l # ls \<Rightarrow> l\<lparr>lp_breaks := lp_breaks l @ [site]\<rparr> # ls)\<rparr>))))"

definition cg_continue :: "span \<Rightarrow> code_gen" where
  "cg_continue sp =
     gbind (gets f_loops) (\<lambda>loops.
       case loops of
         l # _ \<Rightarrow> emit_op (Jump (lp_head l)) sp
       | [] \<Rightarrow> cg_seq [emit_fatal ''brasa: `continue` outside a loop'' sp, emit_op Pop sp])"

definition push_loop :: "code_ix \<Rightarrow> bool \<Rightarrow> code_gen" where
  "push_loop head pops =
     gmodify (\<lambda>f. f\<lparr>f_loops := \<lparr>lp_head = head, lp_breaks = [], lp_pops = pops\<rparr> # f_loops f\<rparr>)"

definition pop_loop :: "loop_cx gen" where
  "pop_loop =
     (\<lambda>f. case f_loops f of [] \<Rightarrow> Inl NoLoop | l # ls \<Rightarrow> Inr (l, f\<lparr>f_loops := ls\<rparr>))"

definition cg_while :: "code_gen \<Rightarrow> code_gen \<Rightarrow> span \<Rightarrow> code_gen" where
  "cg_while c_cond c_body sp =
     gbind here (\<lambda>head.
     gbind c_cond (\<lambda>_.
     gbind (emit (JumpIfFalse placeholder) sp) (\<lambda>exit_jump.
     gbind (cg_seq [push_loop head False, c_body, emit_op (Jump head) sp]) (\<lambda>_.
     gbind pop_loop (\<lambda>l. patch_here (exit_jump # lp_breaks l))))))"

definition cg_for :: "cg \<Rightarrow> hpat \<Rightarrow> code_gen \<Rightarrow> code_gen \<Rightarrow> span \<Rightarrow> code_gen" where
  "cg_for G p c_iterable c_body sp =
     gbind (cg_seq [c_iterable, emit_op IterNew sp]) (\<lambda>_.
     gbind (emit (IterNext placeholder) sp) (\<lambda>head.
     gbind (cg_seq [push_loop head True, for_binding G p sp, c_body, emit_op (Jump head) sp]) (\<lambda>_.
     gbind pop_loop (\<lambda>l. patch_here (head # lp_breaks l)))))"

definition cg_return :: "code_gen option \<Rightarrow> span \<Rightarrow> code_gen" where
  "cg_return c_value sp =
     gbind (gets f_kind) (\<lambda>kind.
       let dropped = (case c_value of Some c \<Rightarrow> cg_seq [c, emit_op Pop sp] | None \<Rightarrow> gret ())
       in if kind = KLambda \<or> kind = KFunc True then
            cg_seq [(case c_value of Some c \<Rightarrow> c | None \<Rightarrow> emit_op LoadUnit sp), emit_op Ret sp]
          else if kind = KFunc False then cg_seq [dropped, emit_op LoadUnit sp, emit_op Ret sp]
          else cg_seq [dropped, emit_fatal ''brasa: control-flow signal escaped to the top level'' sp,
                 emit_op Pop sp])"

text \<open>The branches of an \<open>if\<close>; the result is the jumps to its end.\<close>

primrec if_branches :: "span \<Rightarrow> (code_gen \<times> code_gen) list \<Rightarrow> code_ix list \<Rightarrow> code_ix list gen" where
  "if_branches sp [] ends = gret ends"
| "if_branches sp (branch # branches) ends =
     (case branch of (c_cond, c_block) \<Rightarrow>
        gbind c_cond (\<lambda>_.
        gbind (emit (JumpIfFalse placeholder) sp) (\<lambda>next_branch.
        gbind c_block (\<lambda>_.
        gbind (emit (Jump placeholder) sp) (\<lambda>leave.
        gbind (patch_here [next_branch]) (\<lambda>_. if_branches sp branches (ends @ [leave])))))))"

definition cg_if_stmt :: "(code_gen \<times> code_gen) list \<Rightarrow> code_gen option \<Rightarrow> span \<Rightarrow> code_gen" where
  "cg_if_stmt branches c_else sp =
     gbind (if_branches sp branches []) (\<lambda>ends.
       cg_seq [(case c_else of Some c \<Rightarrow> c | None \<Rightarrow> gret ()), patch_here ends])"

definition cg_if_value :: "(code_gen \<times> code_gen) list \<Rightarrow> code_gen option \<Rightarrow> span \<Rightarrow> code_gen" where
  "cg_if_value branches c_else sp =
     gbind (if_branches sp branches []) (\<lambda>ends.
       cg_seq [(case c_else of Some c \<Rightarrow> c | None \<Rightarrow> emit_op LoadUnit sp), patch_here ends])"

end
