(* ===== verification/Codegen_Exprs.thy ===== *)
theory Codegen_Exprs
  imports Codegen_Nodes
begin

text \<open>
  Lowering of calls, members, operators, literals, lambdas and decoders (\<open>brasa_codegen/src/expr.rs\<close>,
  the assignments of \<open>stmt.rs\<close>, \<open>json_decode.rs\<close>).
\<close>

section \<open>Decoders\<close>

text \<open>\<open>dec\<close> answers the decoder of a struct.\<close>

type_synonym decoders = "item_id \<Rightarrow> (func_id option, cx) step"

definition node_slot :: slot_ix where "node_slot = 0"
definition path_slot :: slot_ix where "path_slot = 1"
definition param_count :: nat where "param_count = 2"

definition raise_decode :: "slot_ix \<Rightarrow> string \<Rightarrow> slot_ix \<Rightarrow> span \<Rightarrow> code_gen" where
  "raise_decode path expected found sp =
     cg_seq [emit_op (LoadLocal path) sp, emit_const (KStr expected) sp, emit_op (LoadLocal found) sp,
       call_builtin ''<json-decode-failed>'' 3 sp]"

definition unwrap_or_raise :: "slot_ix \<Rightarrow> string \<Rightarrow> string \<Rightarrow> slot_ix \<Rightarrow> span \<Rightarrow> code_gen" where
  "unwrap_or_raise slot accessor expected path sp =
     gbind (cg_seq [emit_op (LoadLocal slot) sp, call_builtin accessor 1 sp]) (\<lambda>_.
     gbind (emit (JumpIfNone placeholder) sp) (\<lambda>wrong.
     gbind (emit_op UnwrapSome sp) (\<lambda>_.
     gbind (emit (Jump placeholder) sp) (\<lambda>leave.
       cg_seq [patch_here [wrong], emit_op Pop sp, raise_decode path expected slot sp, patch_here [leave]]))))"

definition index_path :: "slot_ix \<Rightarrow> slot_ix \<Rightarrow> slot_ix \<Rightarrow> span \<Rightarrow> code_gen" where
  "index_path path index out sp =
     cg_seq [emit_op (LoadLocal path) sp, emit_const (KStr ''['') sp, emit_op Concat sp,
       emit_op (LoadLocal index) sp, emit_op ToString sp, emit_op Concat sp,
       emit_const (KStr '']'') sp, emit_op Concat sp, emit_op (StoreLocal out) sp]"

definition decode_optional :: "code_gen \<Rightarrow> slot_ix \<Rightarrow> span \<Rightarrow> code_gen" where
  "decode_optional c_inner slot sp =
     gbind (emit_op (LoadLocal slot) sp) (\<lambda>_.
     gbind (emit (JumpIfNone placeholder) sp) (\<lambda>absent.
     gbind (cg_seq [emit_op Pop sp, emit_op (LoadLocal slot) sp, call_builtin ''null?'' 1 sp]) (\<lambda>_.
     gbind (emit (JumpIfFalse placeholder) sp) (\<lambda>present.
     gbind (emit (Jump placeholder) sp) (\<lambda>null.
     gbind (cg_seq [patch_here [present], c_inner, emit_op WrapSome sp]) (\<lambda>_.
     gbind (emit (Jump placeholder) sp) (\<lambda>leave.
       cg_seq [patch_here [absent], emit_op Pop sp, patch_here [null], emit_op LoadNone sp,
         patch_here [leave]])))))))"

text \<open>\<open>c_elem\<close> decodes the element in a slot, given the slot of its path.\<close>

definition decode_vector :: "(slot_ix \<Rightarrow> slot_ix \<Rightarrow> code_gen) \<Rightarrow> slot_ix \<Rightarrow> slot_ix \<Rightarrow> span \<Rightarrow> code_gen" where
  "decode_vector c_elem slot path sp =
     gbind alloc_slot (\<lambda>items. gbind alloc_slot (\<lambda>decoded. gbind alloc_slot (\<lambda>index.
     gbind alloc_slot (\<lambda>count. gbind alloc_slot (\<lambda>entry. gbind alloc_slot (\<lambda>entry_path.
     gbind (cg_seq [unwrap_or_raise slot ''asArray'' ''array'' path sp, emit_op (StoreLocal items) sp,
         emit_op (MakeVector 0) sp, emit_op (StoreLocal decoded) sp,
         emit_const (KInt 0) sp, emit_op (StoreLocal index) sp,
         emit_op (LoadLocal items) sp, call_builtin ''len'' 1 sp, emit_op (StoreLocal count) sp]) (\<lambda>_.
     gbind here (\<lambda>head.
     gbind (cg_seq [emit_op (LoadLocal index) sp, emit_op (LoadLocal count) sp, emit_op LtInt sp]) (\<lambda>_.
     gbind (emit (JumpIfFalse placeholder) sp) (\<lambda>exit_jump.
       cg_seq [emit_op (LoadLocal items) sp, emit_op (LoadLocal index) sp, emit_op GetIndex sp,
         emit_op (StoreLocal entry) sp, index_path path index entry_path sp,
         emit_op (LoadLocal decoded) sp, c_elem entry entry_path, call_builtin ''push'' 2 sp, emit_op Pop sp,
         emit_op (LoadLocal index) sp, emit_const (KInt 1) sp, emit_op AddInt sp, emit_op (StoreLocal index) sp,
         emit_op (Jump head) sp, patch_here [exit_jump], emit_op (LoadLocal decoded) sp]))))))))))"

fun emit_decode :: "decoders \<Rightarrow> ty \<Rightarrow> slot_ix \<Rightarrow> slot_ix \<Rightarrow> span \<Rightarrow> code_gen" where
  "emit_decode dec t slot path sp =
     (case t of
        TInt \<Rightarrow> unwrap_or_raise slot ''asInt'' ''int'' path sp
      | TFloat \<Rightarrow> unwrap_or_raise slot ''asFloat'' ''float'' path sp
      | TBool \<Rightarrow> unwrap_or_raise slot ''asBool'' ''bool'' path sp
      | TString \<Rightarrow> unwrap_or_raise slot ''asString'' ''string'' path sp
      | TOption u \<Rightarrow> decode_optional (emit_decode dec u slot path sp) slot sp
      | TVector u \<Rightarrow>
          decode_vector (\<lambda>entry entry_path. emit_decode dec u entry entry_path sp) slot path sp
      | TStruct i args \<Rightarrow>
          gbind (on_cx (dec i)) (\<lambda>d.
            case d of
              Some func \<Rightarrow> cg_seq [emit_op (LoadLocal slot) sp, emit_op (LoadLocal path) sp, emit_op (Call func 2) sp]
            | None \<Rightarrow> emit_fatal ''brasa: `json.decode` field struct has no decoder'' sp)
      | _ \<Rightarrow> emit_fatal ''brasa: `json.decode` reached an undecodable field'' sp)"

declare emit_decode.simps [simp del]

record decode_plan =
  dp_name :: string
  dp_struct :: struct_id
  dp_fields :: "(string \<times> ty) list"

definition plan_of :: "cg \<Rightarrow> item_id \<Rightarrow> decode_plan option" where
  "plan_of G i =
     (case (g_struct_of_item G i, decode_fields (g_types G) i) of
        (Some s, Some types) \<Rightarrow>
          if s < length (g_structs G) \<and> length (st_fields (g_structs G ! s)) = length types
          then Some \<lparr>dp_name = st_name (g_structs G ! s), dp_struct = s,
                     dp_fields = zip (st_fields (g_structs G ! s)) types\<rparr>
          else None
      | _ \<Rightarrow> None)"

definition emit_prefix :: "slot_ix \<Rightarrow> span \<Rightarrow> code_gen" where
  "emit_prefix prefix sp =
     gbind (cg_seq [emit_op (LoadLocal path_slot) sp, call_builtin ''len'' 1 sp, emit_const (KInt 0) sp,
         emit_op EqInt sp]) (\<lambda>_.
     gbind (emit (JumpIfFalse placeholder) sp) (\<lambda>nested.
     gbind (cg_seq [emit_const (KStr []) sp, emit_op (StoreLocal prefix) sp]) (\<lambda>_.
     gbind (emit (Jump placeholder) sp) (\<lambda>leave.
       cg_seq [patch_here [nested], emit_op (LoadLocal path_slot) sp, emit_const (KStr ''.'') sp,
         emit_op Concat sp, emit_op (StoreLocal prefix) sp, patch_here [leave]]))))"

definition decode_field :: "decoders \<Rightarrow> slot_ix \<Rightarrow> slot_ix \<Rightarrow> slot_ix \<Rightarrow> slot_ix \<Rightarrow> span \<Rightarrow> string \<times> ty \<Rightarrow> code_gen" where
  "decode_field dec object prefix field_path member sp field =
     cg_seq [emit_op (LoadLocal prefix) sp, emit_const (KStr (fst field)) sp, emit_op Concat sp,
       emit_op (StoreLocal field_path) sp,
       emit_op (LoadLocal object) sp, emit_const (KStr (fst field)) sp, emit_op GetIndex sp,
       emit_op (StoreLocal member) sp,
       emit_decode dec (snd field) member field_path sp]"

definition decoder_body :: "decoders \<Rightarrow> decode_plan \<Rightarrow> span \<Rightarrow> code_gen" where
  "decoder_body dec plan sp =
     gbind (reserve_slot_floor param_count) (\<lambda>_.
     gbind alloc_slot (\<lambda>object. gbind alloc_slot (\<lambda>prefix. gbind alloc_slot (\<lambda>field_path.
     gbind alloc_slot (\<lambda>member.
       cg_seq ([unwrap_or_raise node_slot ''asObject'' ''object'' path_slot sp, emit_op (StoreLocal object) sp,
           emit_prefix prefix sp] @
         map (decode_field dec object prefix field_path member sp) (dp_fields plan) @
         [emit_op (MakeStruct (dp_struct plan)) sp, emit_op Ret sp]))))))"

text \<open>A decoder is entered in the cache before its body is emitted, so every nested demand finds one
  more struct there. The first argument bounds the nesting.\<close>

primrec decoder_of :: "cg \<Rightarrow> span \<Rightarrow> nat \<Rightarrow> decoders" where
  "decoder_of G sp 0 i = gpanic TooMany"
| "decoder_of G sp (Suc n) i =
     gbind (gets (\<lambda>c. cx_decoder_of c i)) (\<lambda>cached.
       case cached of
         Some func \<Rightarrow> gret (Some func)
       | None \<Rightarrow>
           (case plan_of G i of
              None \<Rightarrow> gret None
            | Some plan \<Rightarrow>
                gbind reserve_function (\<lambda>func.
                gbind (gmodify (\<lambda>c. c\<lparr>cx_decoder_of := (cx_decoder_of c)(i \<mapsto> func)\<rparr>)) (\<lambda>_.
                gbind (build_fn G (KFunc True) (''<json-decode:'' @ dp_name plan @ ''>'') 2 0 sp
                  (decoder_body (decoder_of G sp n) plan sp)) (\<lambda>fn.
                gbind (define_function G func fn) (\<lambda>_. gret (Some func)))))))"

definition cg_json_decode :: "cg \<Rightarrow> expr_id \<Rightarrow> code_gen list \<Rightarrow> span \<Rightarrow> code_gen" where
  "cg_json_decode G i c_args sp =
     (case c_args of
        [c_text] \<Rightarrow>
          (case expr_types (g_types G) i of
             Some (TStruct it args) \<Rightarrow>
               gbind (on_cx (decoder_of G sp (length (g_structs G) + 1) it)) (\<lambda>d.
                 case d of
                   Some func \<Rightarrow>
                     cg_seq [c_text, call_builtin ''json.parse'' 1 sp, emit_const (KStr []) sp,
                       emit_op (Call func 2) sp]
                 | None \<Rightarrow> cg_seq [discard c_args sp,
                     emit_fatal ''brasa: `json.decode` target has no decoder'' sp])
           | _ \<Rightarrow> cg_seq [discard c_args sp, emit_fatal ''brasa: `json.decode` has no target type'' sp])
      | _ \<Rightarrow> cg_seq [discard c_args sp, emit_fatal ''brasa: `json.decode` takes exactly 1 argument'' sp])"

section \<open>Operators\<close>

definition ordering_op :: "binary_op \<Rightarrow> op" where
  "ordering_op b = (case b of BLt \<Rightarrow> Lt | BLtEq \<Rightarrow> Le | BGt \<Rightarrow> Gt | _ \<Rightarrow> Ge)"

definition equality_op :: "ty option \<Rightarrow> op" where
  "equality_op t =
     (case t of Some TInt \<Rightarrow> EqInt | Some TFloat \<Rightarrow> EqFloat | Some TBool \<Rightarrow> EqBool | _ \<Rightarrow> Eq)"

definition typed_ordering_op :: "ty option \<Rightarrow> binary_op \<Rightarrow> op" where
  "typed_ordering_op t b =
     (case t of
        Some TInt \<Rightarrow> (case b of BLt \<Rightarrow> LtInt | BLtEq \<Rightarrow> LeInt | BGt \<Rightarrow> GtInt | _ \<Rightarrow> GeInt)
      | Some TFloat \<Rightarrow> (case b of BLt \<Rightarrow> LtFloat | BLtEq \<Rightarrow> LeFloat | BGt \<Rightarrow> GtFloat | _ \<Rightarrow> GeFloat)
      | _ \<Rightarrow> ordering_op b)"

definition struct_method :: "cg \<Rightarrow> item_id \<Rightarrow> string \<Rightarrow> func_id option" where
  "struct_method G i name =
     (case item_of G i of
        IStruct d \<Rightarrow>
          (case find_pos (\<lambda>m. fd_name m = name) (sd_methods d) of
             Some ix \<Rightarrow> g_func_of_method G (i, ix) | None \<Rightarrow> None)
      | _ \<Rightarrow> None)"

definition struct_field_index :: "cg \<Rightarrow> item_id \<Rightarrow> string \<Rightarrow> nat option" where
  "struct_field_index G i name =
     (case item_of G i of
        IStruct d \<Rightarrow> map_option clamp16 (find_pos (\<lambda>field. field = name) (sd_fields d))
      | _ \<Rightarrow> None)"

definition cg_ordering :: "cg \<Rightarrow> binary_op \<Rightarrow> ty option \<Rightarrow> span \<Rightarrow> code_gen" where
  "cg_ordering G b lhs_ty sp =
     (case lhs_ty of
        Some (TStruct i args) \<Rightarrow>
          (case struct_method G i ''cmp'' of
             Some func \<Rightarrow> cg_seq [emit_op (Call func 2) sp, emit_const (KInt 0) sp, emit_op (ordering_op b) sp]
           | None \<Rightarrow> cg_seq [emit_op Pop sp, emit_op Pop sp, emit_fatal ''brasa: unknown member `cmp`'' sp])
      | _ \<Rightarrow> emit_op (typed_ordering_op lhs_ty b) sp)"

definition arithmetic_op :: "ty \<Rightarrow> binary_op \<Rightarrow> op" where
  "arithmetic_op t b =
     (if t = TString \<and> b = BAdd then Concat
      else if t = TFloat then
        (case b of BAdd \<Rightarrow> AddFloat | BSub \<Rightarrow> SubFloat | BMul \<Rightarrow> MulFloat | BDiv \<Rightarrow> DivFloat
                 | BRem \<Rightarrow> RemFloat | _ \<Rightarrow> PowFloat)
      else
        (case b of BAdd \<Rightarrow> AddInt | BSub \<Rightarrow> SubInt | BMul \<Rightarrow> MulInt | BDiv \<Rightarrow> DivInt | BRem \<Rightarrow> RemInt
                 | _ \<Rightarrow> PowInt))"

definition arithmetic_ty :: "ty option \<Rightarrow> ty option \<Rightarrow> ty" where
  "arithmetic_ty result lhs =
     (case result of
        Some t \<Rightarrow> if \<not> is_flexible t then t else (case lhs of Some u \<Rightarrow> u | None \<Rightarrow> TUnknown)
      | None \<Rightarrow> (case lhs of Some u \<Rightarrow> u | None \<Rightarrow> TUnknown))"

definition short_circuit :: "(code_ix \<Rightarrow> op) \<Rightarrow> code_gen \<Rightarrow> code_gen \<Rightarrow> span \<Rightarrow> code_gen" where
  "short_circuit jump_op c_lhs c_rhs sp =
     gbind c_lhs (\<lambda>_. gbind (emit (jump_op placeholder) sp) (\<lambda>site. cg_seq [c_rhs, patch_here [site]]))"

definition cg_binary ::
    "cg \<Rightarrow> ty option \<Rightarrow> binary_op \<Rightarrow> ty option \<Rightarrow> code_gen \<Rightarrow> code_gen \<Rightarrow> span \<Rightarrow> code_gen" where
  "cg_binary G result_ty b lhs_ty c_lhs c_rhs sp =
     (case b of
        BAnd \<Rightarrow> short_circuit JumpIfFalseOrPop c_lhs c_rhs sp
      | BOr \<Rightarrow> short_circuit JumpIfTrueOrPop c_lhs c_rhs sp
      | BEq \<Rightarrow> cg_seq [c_lhs, c_rhs, emit_op (equality_op lhs_ty) sp]
      | BNotEq \<Rightarrow> cg_seq [c_lhs, c_rhs, emit_op (equality_op lhs_ty) sp, emit_op Not sp]
      | _ \<Rightarrow>
          if b \<in> {BLt, BLtEq, BGt, BGtEq} then cg_seq [c_lhs, c_rhs, cg_ordering G b lhs_ty sp]
          else cg_seq [c_lhs, c_rhs, emit_op (arithmetic_op (arithmetic_ty result_ty lhs_ty) b) sp])"

section \<open>Names\<close>

text \<open>An item read as a value.\<close>

definition load_item :: "cg \<Rightarrow> item_id \<Rightarrow> string \<Rightarrow> span \<Rightarrow> code_gen" where
  "load_item G i name sp =
     (case item_of G i of
        IFunc _ \<Rightarrow> gbind (gexpect MissingEntry (g_func_of_item G i)) (\<lambda>func. emit_op (LoadFunc func) sp)
      | ITopLet _ _ \<Rightarrow> gbind (gexpect MissingEntry (g_global_of_item G i)) (\<lambda>g. emit_op (LoadGlobal g) sp)
      | _ \<Rightarrow> emit_fatal (''brasa: `'' @ name @ ''` is not a value'') sp)"

definition cg_ident :: "cg \<Rightarrow> expr_id \<Rightarrow> string \<Rightarrow> span \<Rightarrow> code_gen" where
  "cg_ident G i name sp =
     (case expr_res (g_res G) i of
        Some (RLocal l) \<Rightarrow> load_local G l sp
      | Some (RItem it) \<Rightarrow> load_item G it name sp
      | Some RSelf \<Rightarrow> load_self sp
      | Some (RModule _) \<Rightarrow>
          emit_fatal (''brasa: module `'' @ name @ ''` is not a value; access members as `'' @ name @ ''.member`'') sp
      | Some (RBuiltin _) \<Rightarrow> emit_fatal (''brasa: `'' @ name @ ''` is not a value'') sp
      | None \<Rightarrow> emit_fatal (''brasa: unresolved name `'' @ name @ ''`'') sp)"

section \<open>Calls and members\<close>

definition dynamic_receiver :: "ty option \<Rightarrow> bool" where
  "dynamic_receiver t \<longleftrightarrow>
     (case t of
        Some (TGeneric _ _) \<Rightarrow> True | Some (TCommon _) \<Rightarrow> True | Some TUnknown \<Rightarrow> True | None \<Rightarrow> True
      | _ \<Rightarrow> False)"

text \<open>The count of operands, narrowed, then the instruction.\<close>

definition emit_counted :: "nat \<Rightarrow> (nat \<Rightarrow> op) \<Rightarrow> span \<Rightarrow> code_gen" where
  "emit_counted count op sp = gbind (on_cx (cx_argc count sp)) (\<lambda>n. emit_op (op n) sp)"

text \<open>The id of a builtin that takes a receiver.\<close>

definition receiver_builtin :: "string \<Rightarrow> builtin_id option" where
  "receiver_builtin name =
     (case builtin_id name of
        Some b \<Rightarrow> (case builtin_def b of Some def \<Rightarrow> if snd def then Some b else None | None \<Rightarrow> None)
      | None \<Rightarrow> None)"

text \<open>\<open>Path::file_stem\<close>: the last component without its extension.\<close>

fun path_parts :: "string \<Rightarrow> string list" where
  "path_parts [] = [[]]"
| "path_parts (c # cs) =
     (if c = CHR ''/'' then [] # path_parts cs
      else case path_parts cs of p # ps \<Rightarrow> (c # p) # ps | [] \<Rightarrow> [[c]])"

definition file_stem :: "string \<Rightarrow> string option" where
  "file_stem path =
     (case rev (filter (\<lambda>p. p \<noteq> [] \<and> p \<noteq> ''.'') (path_parts path)) of
        [] \<Rightarrow> None
      | name # _ \<Rightarrow>
          if name = ''..'' then None
          else let ext = takeWhile (\<lambda>c. c \<noteq> CHR ''.'') (rev name);
                   stem = take (length name - length ext - 1) name
               in if CHR ''.'' \<notin> set name \<or> stem = [] then Some name else Some stem)"

definition import_name :: "import_path \<Rightarrow> string" where
  "import_name p =
     (case std_module p of
        Some m \<Rightarrow> m
      | None \<Rightarrow>
          (case p of
             IpPath segments \<Rightarrow> if segments = [] then [] else last segments
           | IpFile path \<Rightarrow> (case file_stem path of Some stem \<Rightarrow> stem | None \<Rightarrow> path)))"

definition unknown_module_member :: "string \<Rightarrow> string \<Rightarrow> code_gen list \<Rightarrow> span \<Rightarrow> code_gen" where
  "unknown_module_member name module c_args sp =
     cg_seq [discard c_args sp,
       emit_fatal (''brasa: unknown member `'' @ name @ ''` on module `'' @ module @ ''`'') sp]"

definition cg_module_call :: "cg \<Rightarrow> expr_id \<Rightarrow> item_id \<Rightarrow> string \<Rightarrow> code_gen list \<Rightarrow> span \<Rightarrow> code_gen" where
  "cg_module_call G i it name c_args sp =
     (case item_of G it of
        IImport p \<Rightarrow>
          (if std_module p \<noteq> None then
             if import_name p = ''json'' \<and> name = ''decode'' then cg_json_decode G i c_args sp
             else (case builtin_id (import_name p @ ''.'' @ name) of
                     Some b \<Rightarrow> cg_seq [cg_seq c_args, emit_counted (length c_args) (CallBuiltin b) sp]
                   | None \<Rightarrow> unknown_module_member name (import_name p) c_args sp)
           else unknown_module_member name (import_name p) c_args sp)
      | _ \<Rightarrow> emit_fatal ''brasa: module handle is not an import'' sp)"

definition assertion :: "builtin_value \<Rightarrow> code_gen list \<Rightarrow> span \<Rightarrow> code_gen" where
  "assertion b c_args sp =
     gbind (if b = BvAssert then arg_at c_args 0
            else cg_seq [arg_at c_args 0, arg_at c_args 1, emit_op Eq sp]) (\<lambda>_.
     gbind (emit (JumpIfFalse placeholder) sp) (\<lambda>held.
     gbind (emit (Jump placeholder) sp) (\<lambda>pass.
       cg_seq [patch_here [held],
         emit_assert_failed (if b = BvAssert then ''assert'' else ''assertEq'') sp,
         emit_op Pop sp, patch_here [pass], emit_op LoadUnit sp])))"

definition cg_method_call ::
    "cg \<Rightarrow> expr_id \<Rightarrow> expr \<Rightarrow> string \<Rightarrow> code_gen \<Rightarrow> code_gen list \<Rightarrow> span \<Rightarrow> code_gen" where
  "cg_method_call G i recv name c_recv c_args sp =
     (let method_args = cg_seq [c_recv, cg_seq c_args]; n = length c_args in
      case (expr_node recv, expr_res (g_res G) (expr_id recv)) of
        (EIdent _, Some (RModule it)) \<Rightarrow> cg_module_call G i it name c_args sp
      | _ \<Rightarrow>
          (case type_of G recv of
             Some (TStruct it args) \<Rightarrow>
               (case struct_method G it name of
                  Some func \<Rightarrow> cg_seq [method_args, emit_counted (n + 1) (Call func) sp]
                | None \<Rightarrow>
                    (case struct_field_index G it name of
                       Some ix \<Rightarrow> cg_seq [c_recv, emit_op (GetField ix) sp, cg_seq c_args,
                         emit_counted n CallValue sp]
                     | None \<Rightarrow>
                         if name = ''toString'' \<and> n = 0 then cg_seq [c_recv, emit_op ToString sp]
                         else emit_fatal (''brasa: unknown member `'' @ name @ ''`'') sp))
           | ty \<Rightarrow>
               if name = ''toString'' \<and> n = 0 then cg_seq [c_recv, emit_op ToString sp]
               else if dynamic_receiver ty then
                 gbind method_args (\<lambda>_. gbind (const_string name) (\<lambda>k.
                   emit_counted (n + 1) (CallMethodDyn k) sp))
               else (case receiver_builtin name of
                       Some b \<Rightarrow> cg_seq [method_args, emit_counted (n + 1) (CallBuiltin b) sp]
                     | None \<Rightarrow> emit_fatal (''brasa: unknown builtin method `'' @ name @ ''`'') sp)))"

definition call_item :: "cg \<Rightarrow> item_id \<Rightarrow> code_gen \<Rightarrow> code_gen list \<Rightarrow> span \<Rightarrow> code_gen" where
  "call_item G it c_callee c_args sp =
     (case item_of G it of
        IFunc _ \<Rightarrow>
          gbind (cg_seq c_args) (\<lambda>_. gbind (gexpect MissingEntry (g_func_of_item G it)) (\<lambda>func.
            emit_counted (length c_args) (Call func) sp))
      | _ \<Rightarrow> cg_seq [c_callee, cg_seq c_args, emit_counted (length c_args) CallValue sp])"

definition cg_call ::
    "cg \<Rightarrow> expr_id \<Rightarrow> expr \<Rightarrow> code_gen \<Rightarrow> code_gen \<Rightarrow> code_gen list \<Rightarrow> span \<Rightarrow> code_gen" where
  "cg_call G i callee c_callee c_recv c_args sp =
     (case (expr_node callee, expr_res (g_res G) (expr_id callee)) of
        (EIdent _, Some (RBuiltin b)) \<Rightarrow>
          if b = BvAssert \<or> b = BvAssertEq then assertion b c_args sp
          else if length c_args \<noteq> 1
          then cg_seq [discard c_args sp, emit_fatal ''brasa: `puts`/`print` take exactly 1 argument'' sp]
          else cg_seq [arg_at c_args 0, call_builtin (builtin_value_name b) 1 sp]
      | (EIdent _, Some (RItem it)) \<Rightarrow> call_item G it c_callee c_args sp
      | (EField recv name, Some (RItem it)) \<Rightarrow> call_item G it c_callee c_args sp
      | (EField recv name, _) \<Rightarrow> cg_method_call G i recv name c_recv c_args sp
      | _ \<Rightarrow> cg_seq [c_callee, cg_seq c_args, emit_counted (length c_args) CallValue sp])"

definition native_field :: "ty option \<Rightarrow> string \<Rightarrow> bool" where
  "native_field t name \<longleftrightarrow>
     (case t of
        Some TProcOutput \<Rightarrow> name \<in> {''stdout'', ''stderr'', ''code''}
      | Some TWalk \<Rightarrow> name \<in> {''paths'', ''unreadable''}
      | Some TStat \<Rightarrow> name \<in> {''size'', ''modifiedMillis'', ''isFile?'', ''isDir?'', ''isSymlink?''}
      | Some THttpResponse \<Rightarrow> name \<in> {''status'', ''body''}
      | Some TCliArgs \<Rightarrow> name = ''rest''
      | Some TNativeError \<Rightarrow> name = ''message''
      | Some TProcNonZeroExit \<Rightarrow> name \<in> {''message'', ''output''}
      | _ \<Rightarrow> False)"

definition cg_member :: "cg \<Rightarrow> expr \<Rightarrow> string \<Rightarrow> code_gen \<Rightarrow> span \<Rightarrow> code_gen" where
  "cg_member G recv name c_recv sp =
     (case type_of G recv of
        Some (TStruct it args) \<Rightarrow>
          (case struct_field_index G it name of
             Some ix \<Rightarrow> cg_seq [c_recv, emit_op (GetField ix) sp]
           | None \<Rightarrow>
               (case struct_method G it name of
                  Some func \<Rightarrow> cg_seq [c_recv, emit_op (BindMethod func) sp]
                | None \<Rightarrow>
                    if name = ''toString'' then
                      gbind c_recv (\<lambda>_. gbind (gexpect MissingEntry (builtin_id ''toString'')) (\<lambda>b.
                        emit_op (BindBuiltin b) sp))
                    else emit_fatal (''brasa: unknown member `'' @ name @ ''`'') sp))
      | ty \<Rightarrow>
          if native_field ty name then
            gbind (gexpect MissingEntry (builtin_id name)) (\<lambda>b. cg_seq [c_recv, emit_op (CallBuiltin b 1) sp])
          else if dynamic_receiver ty then
            gbind c_recv (\<lambda>_. gbind (const_string name) (\<lambda>k. emit_op (BindMethodDyn k) sp))
          else (case receiver_builtin name of
                  Some b \<Rightarrow> cg_seq [c_recv, emit_op (BindBuiltin b) sp]
                | None \<Rightarrow> emit_fatal (''brasa: unknown builtin method `'' @ name @ ''`'') sp))"

definition cg_field :: "cg \<Rightarrow> expr_id \<Rightarrow> expr \<Rightarrow> string \<Rightarrow> code_gen \<Rightarrow> span \<Rightarrow> code_gen" where
  "cg_field G i recv name c_recv sp =
     (case expr_res (g_res G) i of
        Some (RItem it) \<Rightarrow> load_item G it name sp
      | _ \<Rightarrow>
          (case (expr_node recv, expr_res (g_res G) (expr_id recv)) of
             (EIdent _, Some (RModule it)) \<Rightarrow> cg_module_call G i it name [] sp
           | _ \<Rightarrow> cg_member G recv name c_recv sp))"

section \<open>Assignments\<close>

text \<open>\<open>c_recv\<close> and \<open>c_index\<close> compile the operands of the target.\<close>

definition cg_assign :: "cg \<Rightarrow> expr \<Rightarrow> code_gen \<Rightarrow> code_gen \<Rightarrow> code_gen \<Rightarrow> span \<Rightarrow> code_gen" where
  "cg_assign G target c_recv c_index c_value sp =
     (let store_global = (\<lambda>it. cg_seq [c_value,
            gbind (gexpect MissingEntry (g_global_of_item G it)) (\<lambda>g. emit_op (StoreGlobal g) sp)]);
          global = (case expr_res (g_res G) (expr_id target) of
            Some (RItem it) \<Rightarrow> if g_global_of_item G it \<noteq> None then Some it else None | _ \<Rightarrow> None)
      in case expr_node target of
        EIdent name \<Rightarrow>
          (case expr_res (g_res G) (expr_id target) of
             Some (RLocal l) \<Rightarrow> cg_seq [c_value, store_local G l sp]
           | _ \<Rightarrow>
               (case global of
                  Some it \<Rightarrow> store_global it
                | None \<Rightarrow> cg_seq [c_value, emit_op Pop sp,
                    emit_fatal (''brasa: cannot assign to `'' @ name @ ''`'') sp, emit_op Pop sp]))
      | EField recv name \<Rightarrow>
          (case global of
             Some it \<Rightarrow> store_global it
           | None \<Rightarrow>
               cg_seq [c_recv, c_value,
                 (case (case type_of G recv of
                          Some (TStruct it args) \<Rightarrow> struct_field_index G it name | _ \<Rightarrow> None) of
                    Some ix \<Rightarrow> emit_op (SetField ix) sp
                  | None \<Rightarrow> cg_seq [emit_op Pop sp, emit_op Pop sp,
                      emit_fatal (''brasa: cannot assign to field `'' @ name @ ''`'') sp, emit_op Pop sp])])
      | EIndex recv index \<Rightarrow> cg_seq [c_recv, c_index, c_value, emit_op SetIndex sp]
      | _ \<Rightarrow> cg_seq [emit_fatal ''brasa: invalid assignment target'' sp, emit_op Pop sp])"

section \<open>Literals, lambdas and constructors\<close>

text \<open>A literal with a counted instruction: its elements, the count narrowed, the instruction.\<close>

definition cg_elements :: "string \<Rightarrow> string \<Rightarrow> nat \<Rightarrow> (nat \<Rightarrow> op) \<Rightarrow> code_gen list \<Rightarrow> span \<Rightarrow> code_gen" where
  "cg_elements what unit_name count op cs sp =
     gbind (cg_seq cs) (\<lambda>_. gbind (element_count what unit_name count sp) (\<lambda>n. emit_op (op n) sp))"

definition lambda_frame :: "cg \<Rightarrow> local_id list \<Rightarrow> captures \<Rightarrow> span \<Rightarrow> code_gen" where
  "lambda_frame G params caps sp =
     cg_seq (map (\<lambda>(position, l). assign_slot l (clamp16 position)) (enumerate 0 params) @
       [if uses_self caps then gbind alloc_slot (\<lambda>slot. gmodify (\<lambda>f. f\<lparr>f_self := Some slot\<rparr>)) else gret ()] @
       map (\<lambda>l. gbind (slot_of l) (\<lambda>_. gret ())) (cap_locals caps) @
       [bind_shared_params G params sp])"

text \<open>\<open>e\<close> is the lambda and \<open>c_body\<close> compiles its body.\<close>

definition cg_lambda :: "cg \<Rightarrow> expr \<Rightarrow> code_gen \<Rightarrow> span \<Rightarrow> code_gen" where
  "cg_lambda G e c_body sp =
     (let caps = lambda_captures (g_res G) e;
          params = (case lambda_params (g_res G) (expr_id e) of Some ls \<Rightarrow> ls | None \<Rightarrow> [])
      in gbind (on_cx reserve_function) (\<lambda>func.
         gbind (on_cx (cx_arity ''lambda'' (length params) sp)) (\<lambda>arity_n.
         gbind (on_cx (cx_capture_count (length (cap_locals caps) + (if uses_self caps then 1 else 0)) sp)) (\<lambda>capture_n.
         gbind (on_cx (build_fn G KLambda ''<lambda>'' arity_n capture_n sp
           (cg_seq [lambda_frame G params caps sp, c_body, emit_op Ret sp]))) (\<lambda>fn.
         gbind (on_cx (define_function G func fn)) (\<lambda>_.
           cg_seq ([if uses_self caps then load_self sp else gret ()] @
             map (\<lambda>l. capture_local l sp) (cap_locals caps) @
             [emit_op (MakeClosure func capture_n) sp])))))))"

text \<open>The initializers in written order, each stored in a scratch slot.\<close>

primrec store_fields :: "span \<Rightarrow> (string \<times> code_gen) list \<Rightarrow> (string \<times> slot_ix) list gen" where
  "store_fields sp [] = gret []"
| "store_fields sp (field # inits) =
     gbind (snd field) (\<lambda>_. gbind alloc_slot (\<lambda>slot. gbind (emit_op (StoreLocal slot) sp) (\<lambda>_.
     gbind (store_fields sp inits) (\<lambda>rest. gret ((fst field, slot) # rest)))))"

definition cg_struct :: "cg \<Rightarrow> expr_id \<Rightarrow> (string \<times> code_gen) list \<Rightarrow> span \<Rightarrow> code_gen" where
  "cg_struct G i inits sp =
     (case struct_lit_res (g_res G) i of
        Some (ResItem it) \<Rightarrow>
          (case g_struct_of_item G it of
             None \<Rightarrow> emit_fatal ''brasa: struct literal of a non-struct type'' sp
           | Some s \<Rightarrow>
               if \<not> s < length (g_structs G) then gpanic MissingEntry
               else let declared = st_fields (g_structs G ! s) in
                 if declared = map fst inits
                 then cg_seq [cg_seq (map snd inits), emit_op (MakeStruct s) sp]
                 else gbind (store_fields sp inits) (\<lambda>scratch.
                   cg_seq [cg_seq (map (\<lambda>name.
                     case map_of scratch name of
                       Some slot \<Rightarrow> emit_op (LoadLocal slot) sp
                     | None \<Rightarrow> emit_fatal (''brasa: missing field `'' @ name @ ''`'') sp) declared),
                     emit_op (MakeStruct s) sp]))
      | _ \<Rightarrow> emit_fatal ''brasa: unresolved struct literal'' sp)"

definition cg_enum :: "cg \<Rightarrow> expr_id \<Rightarrow> string \<Rightarrow> code_gen list \<Rightarrow> span \<Rightarrow> code_gen" where
  "cg_enum G i name c_args sp =
     (case ctor_expr_res (g_res G) i of
        Some ResSome \<Rightarrow>
          (case c_args of
             [c] \<Rightarrow> cg_seq [c, emit_op WrapSome sp]
           | _ \<Rightarrow> cg_seq [discard c_args sp, emit_fatal ''brasa: `Some` takes exactly 1 argument'' sp])
      | Some ResNone \<Rightarrow> cg_seq [discard c_args sp, emit_op LoadNone sp]
      | Some ResSetCtor \<Rightarrow>
          (case c_args of
             [c] \<Rightarrow> cg_seq [c, emit_op MakeSetFromVector sp]
           | _ \<Rightarrow> cg_seq [discard c_args sp, emit_fatal ''brasa: `Set` takes exactly 1 Vector argument'' sp])
      | Some (ResVariant it ix) \<Rightarrow>
          gbind (cg_seq c_args) (\<lambda>_. gbind (gexpect MissingEntry (g_enum_of_item G it)) (\<lambda>en.
            emit_counted (length c_args) (MakeEnum en (clamp16 ix)) sp))
      | None \<Rightarrow> cg_seq [discard c_args sp,
          emit_fatal (''brasa: unresolved constructor `'' @ name @ ''`'') sp])"

end
