(* ===== verification/Codegen.thy ===== *)
theory Codegen
  imports Codegen_Exprs
begin

text \<open>
  The recursion of the code generator over the tree (\<open>compile_expr\<close>, \<open>compile_stmt\<close>,
  \<open>block_value\<close>), its items (\<open>item.rs\<close>), the pass that assigns the indices (\<open>context.rs\<close>), and the
  compilation of a program (\<open>lib.rs\<close>).
\<close>

section \<open>Bodies\<close>

definition cg_unary :: "cg \<Rightarrow> unary_op \<Rightarrow> expr \<Rightarrow> code_gen \<Rightarrow> span \<Rightarrow> code_gen" where
  "cg_unary G u operand c_operand sp =
     cg_seq [c_operand,
       emit_op (case u of
           UNeg \<Rightarrow> if type_of G operand = Some TFloat then NegFloat else NegInt
         | UNot \<Rightarrow> Not) sp]"

definition cg_option_wrap :: "cg \<Rightarrow> expr_id \<Rightarrow> code_gen \<Rightarrow> span \<Rightarrow> code_gen" where
  "cg_option_wrap G i c_inner sp =
     cg_seq [c_inner,
       (case wrap_decisions (g_types G) i of
          Some Wrap \<Rightarrow> emit_op WrapSome sp
        | Some NoOp \<Rightarrow> gret ()
        | None \<Rightarrow> emit_op WrapSomeDynamic sp)]"

function (sequential) compile_expr :: "cg \<Rightarrow> expr \<Rightarrow> code_gen"
  and compile_stmt :: "cg \<Rightarrow> stmt \<Rightarrow> code_gen"
  and block_value :: "cg \<Rightarrow> span \<Rightarrow> stmt list \<Rightarrow> code_gen"
  and compile_body :: "cg \<Rightarrow> span \<Rightarrow> arm_body \<Rightarrow> code_gen" where
  "compile_expr G (Expr i sp (EInt v)) = emit_const (KInt v) sp"
| "compile_expr G (Expr i sp (EFloat v)) = emit_const (KFloat v) sp"
| "compile_expr G (Expr i sp (EBool v)) = emit_op (if v then LoadTrue else LoadFalse) sp"
| "compile_expr G (Expr i sp (EChar v)) = emit_const (KChar v) sp"
| "compile_expr G (Expr i sp EUnit) = emit_op LoadUnit sp"
| "compile_expr G (Expr i sp (EStr v)) = emit_const (KStr v) sp"
| "compile_expr G (Expr i sp (EIdent name)) = cg_ident G i name sp"
| "compile_expr G (Expr i sp ESelf) = load_self sp"
| "compile_expr G (Expr i sp (ECall callee args)) =
     cg_call G i callee (compile_expr G callee)
       (case callee of Expr j sp' (EField recv name) \<Rightarrow> compile_expr G recv | _ \<Rightarrow> gpanic MissingEntry)
       (map (compile_expr G) args) sp"
| "compile_expr G (Expr i sp (EField recv name)) = cg_field G i recv name (compile_expr G recv) sp"
| "compile_expr G (Expr i sp (EIndex recv ix)) =
     cg_seq [compile_expr G recv, compile_expr G ix, emit_op GetIndex sp]"
| "compile_expr G (Expr i sp (EUnary u e)) = cg_unary G u e (compile_expr G e) sp"
| "compile_expr G (Expr i sp (EBinary b x y)) =
     cg_binary G (expr_types (g_types G) i) b (type_of G x) (compile_expr G x) (compile_expr G y) sp"
| "compile_expr G (Expr i sp (EOptionWrap e)) = cg_option_wrap G i (compile_expr G e) sp"
| "compile_expr G (Expr i sp (EToString e)) = cg_seq [compile_expr G e, emit_op ToString sp]"
| "compile_expr G (Expr i sp (ELambda body)) =
     cg_lambda G (Expr i sp (ELambda body)) (compile_body G sp body) sp"
| "compile_expr G (Expr i sp (EIf branches els)) =
     cg_if_value (map (\<lambda>(c, b). (compile_expr G c, block_value G sp b)) branches)
       (case els of None \<Rightarrow> None | Some b \<Rightarrow> Some (block_value G sp b)) sp"
| "compile_expr G (Expr i sp (EMatch scrutinee arms)) =
     cg_match (compile_expr G scrutinee)
       (map (\<lambda>(p, g, b). (pattern_test G p,
           (case g of None \<Rightarrow> None | Some e \<Rightarrow> Some (compile_expr G e)), compile_body G sp b)) arms) sp"
| "compile_expr G (Expr i sp (EVector es)) =
     cg_elements ''vector literal'' ''elements'' (length es) MakeVector (map (compile_expr G) es) sp"
| "compile_expr G (Expr i sp (EMap ps)) =
     cg_elements ''map literal'' ''entries'' (length ps) MakeMap
       (map (\<lambda>(k, v). cg_seq [compile_expr G k, compile_expr G v]) ps) sp"
| "compile_expr G (Expr i sp (ETuple es)) =
     cg_elements ''tuple'' ''elements'' (length es) MakeTuple (map (compile_expr G) es) sp"
| "compile_expr G (Expr i sp (EStruct fs)) = cg_struct G i (map (\<lambda>(x, v). (x, compile_expr G v)) fs) sp"
| "compile_expr G (Expr i sp (ERange lo hi incl)) =
     cg_seq [compile_expr G lo, compile_expr G hi, emit_op (MakeRange incl) sp]"
| "compile_expr G (Expr i sp (ECatch subject exhaustive arms)) =
     cg_catch G i (compile_expr G subject)
       (map (\<lambda>(ts, g, b). (ts,
           (case g of None \<Rightarrow> None | Some e \<Rightarrow> Some (compile_expr G e)), compile_body G sp b)) arms) sp"
| "compile_expr G (Expr i sp (EEnum name args)) = cg_enum G i name (map (compile_expr G) args) sp"
| "compile_stmt G (Stmt i sp (SLet e)) = cg_let G i (compile_expr G e) sp"
| "compile_stmt G (Stmt i sp (SAssign target e)) =
     cg_assign G target
       (case target of
          Expr j sp' (EField recv name) \<Rightarrow> compile_expr G recv
        | Expr j sp' (EIndex recv ix) \<Rightarrow> compile_expr G recv
        | _ \<Rightarrow> gpanic MissingEntry)
       (case target of Expr j sp' (EIndex recv ix) \<Rightarrow> compile_expr G ix | _ \<Rightarrow> gpanic MissingEntry)
       (compile_expr G e) sp"
| "compile_stmt G (Stmt i sp (SReturn v)) =
     cg_return (case v of None \<Rightarrow> None | Some e \<Rightarrow> Some (compile_expr G e)) sp"
| "compile_stmt G (Stmt i sp SBreak) = cg_break sp"
| "compile_stmt G (Stmt i sp SContinue) = cg_continue sp"
| "compile_stmt G (Stmt i sp (SThrow e)) = cg_seq [compile_expr G e, emit_op Throw sp]"
| "compile_stmt G (Stmt i sp (SIf branches els)) =
     cg_if_stmt (map (\<lambda>(c, b). (compile_expr G c, cg_seq (map (compile_stmt G) b))) branches)
       (case els of None \<Rightarrow> None | Some b \<Rightarrow> Some (cg_seq (map (compile_stmt G) b))) sp"
| "compile_stmt G (Stmt i sp (SWhile c b)) =
     cg_while (compile_expr G c) (cg_seq (map (compile_stmt G) b)) sp"
| "compile_stmt G (Stmt i sp (SFor p e b)) =
     cg_for G p (compile_expr G e) (cg_seq (map (compile_stmt G) b)) sp"
| "compile_stmt G (Stmt i sp (SExpr e)) = cg_seq [compile_expr G e, emit_op Pop sp]"
| "block_value G sp [] = emit_op LoadUnit sp"
| "block_value G sp (s # ss) =
     (if ss \<noteq> [] then cg_seq [compile_stmt G s, block_value G sp ss]
      else case s of
        Stmt i sp' (SExpr e) \<Rightarrow> compile_expr G e
      | Stmt i sp' (SIf branches els) \<Rightarrow>
          cg_if_value (map (\<lambda>(c, b). (compile_expr G c, block_value G sp' b)) branches)
            (case els of None \<Rightarrow> None | Some b \<Rightarrow> Some (block_value G sp' b)) sp'
      | _ \<Rightarrow> cg_seq [compile_stmt G s, emit_op LoadUnit sp])"
| "compile_body G sp (AExpr e) = compile_expr G e"
| "compile_body G sp (ABlock b) = block_value G sp b"
  by pat_completeness auto
termination
  by (relation "measure (\<lambda>x. case x of
        Inl (Inl (_, e)) \<Rightarrow> size e | Inl (Inr (_, s)) \<Rightarrow> size s
      | Inr (Inl (_, _, b)) \<Rightarrow> size_list size b | Inr (Inr (_, _, b)) \<Rightarrow> size b)")
     (auto dest!: hir_size)

abbreviation block_stmts :: "cg \<Rightarrow> stmt list \<Rightarrow> code_gen" where
  "block_stmts G b \<equiv> cg_seq (map (compile_stmt G) b)"

section \<open>Indices\<close>

text \<open>What the pass over the items fixes: the function slots, the shapes and the globals.\<close>

record layout =
  ly_cx :: cx
  ly_func_of_item :: "item_id \<Rightarrow> func_id option"
  ly_func_of_method :: "item_id \<times> nat \<Rightarrow> func_id option"
  ly_struct_of_item :: "item_id \<Rightarrow> struct_id option"
  ly_enum_of_item :: "item_id \<Rightarrow> enum_id option"
  ly_global_of_item :: "item_id \<Rightarrow> global_ix option"
  ly_structs :: "struct_shape list"
  ly_enums :: "enum_shape list"
  ly_globals :: "string list"
  ly_func_of_test :: "(item_id \<times> func_id) list"

definition layout_new :: layout where
  "layout_new =
     \<lparr>ly_cx = \<lparr>cx_pool = const_pool_new, cx_diags = [], cx_functions = [], cx_decoder_of = (\<lambda>_. None), cx_tests = []\<rparr>,
      ly_func_of_item = (\<lambda>_. None), ly_func_of_method = (\<lambda>_. None), ly_struct_of_item = (\<lambda>_. None),
      ly_enum_of_item = (\<lambda>_. None), ly_global_of_item = (\<lambda>_. None), ly_structs = [], ly_enums = [],
      ly_globals = [], ly_func_of_test = []\<rparr>"

type_synonym 'a pass = "('a, layout) step"

definition on_layout :: "('a, cx) step \<Rightarrow> 'a pass" where
  "on_layout g = (\<lambda>s. case g (ly_cx s) of Inl p \<Rightarrow> Inl p | Inr (x, c) \<Rightarrow> Inr (x, s\<lparr>ly_cx := c\<rparr>))"

definition report_members :: "string \<Rightarrow> string \<Rightarrow> string \<Rightarrow> nat \<Rightarrow> span \<Rightarrow> unit pass" where
  "report_members what name unit_name count sp =
     (if count \<le> max_members then gret ()
      else on_layout (report ''C004''
        (what @ '' `'' @ name @ ''` has '' @ dec_nat count @ '' '' @ unit_name @ '', but the limit is '' @ dec_nat max_members)
        (''too many '' @ unit_name) sp))"

primrec collect_methods :: "item_id \<Rightarrow> nat \<Rightarrow> func_def list \<Rightarrow> func_id list pass" where
  "collect_methods it ix [] = gret []"
| "collect_methods it ix (m # ms) =
     gbind (on_layout reserve_function) (\<lambda>func.
     gbind (gmodify (\<lambda>s. s\<lparr>ly_func_of_method := (ly_func_of_method s)((it, ix) \<mapsto> func)\<rparr>)) (\<lambda>_.
     gbind (collect_methods it (ix + 1) ms) (\<lambda>rest. gret (func # rest))))"

text \<open>The last method named \<open>toString\<close>.\<close>

definition to_string_of :: "func_def list \<Rightarrow> func_id list \<Rightarrow> func_id option" where
  "to_string_of ms funcs =
     foldl (\<lambda>found (m, func). if fd_name m = ''toString'' then Some func else found) None (zip ms funcs)"

definition collect_struct :: "hir \<Rightarrow> item_id \<Rightarrow> hir_struct \<Rightarrow> unit pass" where
  "collect_struct H it d =
     gbind (gets (\<lambda>s. length (ly_structs s))) (\<lambda>n.
     if 2 ^ 32 \<le> n then gpanic TooMany else
     gbind (gmodify (\<lambda>s. s\<lparr>ly_struct_of_item := (ly_struct_of_item s)(it \<mapsto> n)\<rparr>)) (\<lambda>_.
     gbind (report_members ''struct'' (sd_name d) ''fields'' (length (sd_fields d)) (h_item_span H it)) (\<lambda>_.
     gbind (collect_methods it 0 (sd_methods d)) (\<lambda>methods.
       gmodify (\<lambda>s. s\<lparr>ly_structs := ly_structs s @
         [\<lparr>st_name = sd_name d, st_fields = sd_fields d, st_methods = methods,
           st_to_string = to_string_of (sd_methods d) methods\<rparr>]\<rparr>)))))"

primrec collect_variants :: "span \<Rightarrow> (string \<times> nat) list \<Rightarrow> variant_shape list pass" where
  "collect_variants sp [] = gret []"
| "collect_variants sp (v # vs) =
     gbind (on_layout (cx_arity (''variant `'' @ fst v @ ''`'') (snd v) sp)) (\<lambda>n.
     gbind (collect_variants sp vs) (\<lambda>rest. gret (\<lparr>va_name = fst v, va_arity = n\<rparr> # rest)))"

definition collect_enum :: "hir \<Rightarrow> item_id \<Rightarrow> hir_enum \<Rightarrow> unit pass" where
  "collect_enum H it d =
     gbind (gets (\<lambda>s. length (ly_enums s))) (\<lambda>n.
     if 2 ^ 32 \<le> n then gpanic TooMany else
     gbind (gmodify (\<lambda>s. s\<lparr>ly_enum_of_item := (ly_enum_of_item s)(it \<mapsto> n)\<rparr>)) (\<lambda>_.
     gbind (report_members ''enum'' (ed_name d) ''variants'' (length (ed_variants d)) (h_item_span H it)) (\<lambda>_.
     gbind (collect_variants (h_item_span H it) (ed_variants d)) (\<lambda>variants.
       gmodify (\<lambda>s. s\<lparr>ly_enums := ly_enums s @ [\<lparr>en_name = ed_name d, en_variants = variants\<rparr>]\<rparr>)))))"

definition collect_global :: "hir \<Rightarrow> item_id \<Rightarrow> string \<Rightarrow> unit pass" where
  "collect_global H it name =
     gbind (gets (\<lambda>s. length (ly_globals s))) (\<lambda>n.
     gbind (if n = max_bindings + 1
            then on_layout (report ''C005'' (''the module defines more than '' @ dec_nat max_bindings @ '' globals'')
              ''too many globals'' (h_item_span H it))
            else gret ()) (\<lambda>_.
       gmodify (\<lambda>s. s\<lparr>ly_global_of_item := (ly_global_of_item s)(it \<mapsto> clamp16 n),
         ly_globals := ly_globals s @ [name]\<rparr>)))"

definition collect_item :: "hir \<Rightarrow> item_id \<Rightarrow> unit pass" where
  "collect_item H it =
     (case h_item H it of
        IFunc d \<Rightarrow>
          gbind (on_layout reserve_function) (\<lambda>func.
            gmodify (\<lambda>s. s\<lparr>ly_func_of_item := (ly_func_of_item s)(it \<mapsto> func)\<rparr>))
      | IStruct d \<Rightarrow> collect_struct H it d
      | IEnum d \<Rightarrow> collect_enum H it d
      | ITopLet name e \<Rightarrow> collect_global H it name
      | _ \<Rightarrow> gret ())"

definition cx_collect :: "hir \<Rightarrow> item_id list \<Rightarrow> unit pass" where
  "cx_collect H roots = gbind (on_layout reserve_function) (\<lambda>_. cg_seq (map (collect_item H) roots))"

definition collect_tests :: "hir \<Rightarrow> item_id list \<Rightarrow> unit pass" where
  "collect_tests H entry_roots =
     cg_seq (map (\<lambda>it.
       case h_item H it of
         ITest _ _ _ \<Rightarrow>
           gbind (on_layout reserve_function) (\<lambda>func.
             gmodify (\<lambda>s. s\<lparr>ly_func_of_test := ly_func_of_test s @ [(it, func)]\<rparr>))
       | _ \<Rightarrow> gret ()) entry_roots)"

definition cg_of :: "bool \<Rightarrow> hir \<Rightarrow> resolutions \<Rightarrow> type_tables \<Rightarrow> layout \<Rightarrow> cg" where
  "cg_of debug H R T s =
     \<lparr>g_debug = debug, g_hir = H, g_res = R, g_types = T, g_shared = shared_bindings R H,
      g_func_of_item = ly_func_of_item s, g_func_of_method = ly_func_of_method s,
      g_struct_of_item = ly_struct_of_item s, g_enum_of_item = ly_enum_of_item s,
      g_global_of_item = ly_global_of_item s, g_structs = ly_structs s\<rparr>"

section \<open>Items\<close>

definition toplevel_item :: "cg \<Rightarrow> item_id \<Rightarrow> code_gen" where
  "toplevel_item G it =
     (case item_of G it of
        IStmt b \<Rightarrow> block_stmts G b
      | ITopLet name e \<Rightarrow>
          gbind (compile_expr G e) (\<lambda>_. gbind (gexpect MissingEntry (g_global_of_item G it)) (\<lambda>g.
            emit_op (StoreGlobal g) (h_item_span (g_hir G) it)))
      | _ \<Rightarrow> gret ())"

definition compile_toplevel :: "cg \<Rightarrow> item_id list \<Rightarrow> (unit, cx) step" where
  "compile_toplevel G roots =
     gbind (build_fn G KToplevel ''<toplevel>'' 0 0 span_default
       (cg_seq [cg_seq (map (toplevel_item G) roots), emit_op LoadUnit span_default, emit_op Ret span_default]))
     (define_function G 0)"

definition param_slot :: "cg \<Rightarrow> nat \<times> local_id option \<Rightarrow> code_gen" where
  "param_slot G p =
     (case snd p of
        Some l \<Rightarrow> assign_slot l (clamp16 (fst p))
      | None \<Rightarrow>
          gbind (gmodify (\<lambda>f. f\<lparr>f_self := Some (clamp16 (fst p))\<rparr>)) (\<lambda>_.
            if clamp16 (fst p) < 65535 then reserve_slot_floor (clamp16 (fst p) + 1)
            else if g_debug G then gpanic TooMany else gret ()))"

definition function_body :: "cg \<Rightarrow> local_id option list \<Rightarrow> func_def \<Rightarrow> code_gen" where
  "function_body G params d =
     cg_seq (map (param_slot G) (enumerate 0 params) @
       [bind_shared_params G (List.map_filter id params) (fd_span d),
        if fd_returns d then block_value G (fd_span d) (fd_body d)
        else cg_seq [block_stmts G (fd_body d), emit_op LoadUnit (fd_span d)],
        emit_op Ret (fd_span d)])"

definition compile_function :: "cg \<Rightarrow> def_ref \<Rightarrow> func_def \<Rightarrow> func_id \<Rightarrow> (unit, cx) step" where
  "compile_function G ref d func =
     (let params = (case func_params (g_res G) ref of Some ps \<Rightarrow> ps | None \<Rightarrow> [])
      in gbind (cx_arity (''`'' @ fd_name d @ ''`'') (length params) (fd_span d)) (\<lambda>arity_n.
         gbind (build_fn G (KFunc (fd_returns d)) (fd_name d) arity_n 0 (fd_span d) (function_body G params d))
           (define_function G func)))"

definition compile_methods :: "cg \<Rightarrow> item_id \<Rightarrow> hir_struct \<Rightarrow> (unit, cx) step" where
  "compile_methods G it d =
     cg_seq (map (\<lambda>(ix, m).
       gbind (gexpect MissingEntry (g_func_of_method G (it, ix))) (compile_function G (DefMethod it ix) m))
       (enumerate 0 (sd_methods d)))"

definition compile_item :: "cg \<Rightarrow> item_id \<Rightarrow> (unit, cx) step" where
  "compile_item G it =
     (case item_of G it of
        IFunc d \<Rightarrow> gbind (gexpect MissingEntry (g_func_of_item G it)) (compile_function G (DefItem it) d)
      | IStruct d \<Rightarrow> compile_methods G it d
      | _ \<Rightarrow> gret ())"

definition compile_test :: "cg \<Rightarrow> item_id \<times> func_id \<Rightarrow> (unit, cx) step" where
  "compile_test G t =
     (case item_of G (fst t) of
        ITest name sp b \<Rightarrow>
          gbind (build_fn G (KFunc False) (''<test '' @ name @ ''>'') 0 0 sp
            (cg_seq [block_stmts G b, emit_op LoadUnit sp, emit_op Ret sp])) (\<lambda>fn.
          gbind (define_function G (snd t) fn) (\<lambda>_.
            gmodify (\<lambda>c. c\<lparr>cx_tests := cx_tests c @ [\<lparr>test_name = name, test_func = snd t\<rparr>]\<rparr>)))
      | _ \<Rightarrow> gpanic MissingEntry)"

definition is_main :: "cg \<Rightarrow> item_id \<Rightarrow> bool" where
  "is_main G it = (case item_of G it of IFunc d \<Rightarrow> fd_name d = ''main'' | _ \<Rightarrow> False)"

definition find_entry :: "cg \<Rightarrow> item_id list \<Rightarrow> (func_id option, cx) step" where
  "find_entry G entry_roots =
     (case find (is_main G) entry_roots of
        None \<Rightarrow> gret None
      | Some it \<Rightarrow> gbind (gexpect MissingEntry (g_func_of_item G it)) (\<lambda>func. gret (Some func)))"

section \<open>Programs\<close>

definition empty_module :: module_code where
  "empty_module =
     \<lparr>m_constants = const_pool_new, m_functions = [], m_structs = [], m_enums = [], m_globals = [],
      m_tests = [], m_entry = None\<rparr>"

definition cx_finish :: "layout \<Rightarrow> func_id option \<Rightarrow> cx \<Rightarrow> cg_panic + module_code \<times> diag list" where
  "cx_finish s entry c =
     (if cx_diags c \<noteq> [] then Inr (empty_module, cx_diags c)
      else if None \<in> set (cx_functions c) then Inl MissingEntry
      else Inr (\<lparr>m_constants = cx_pool c, m_functions = map the (cx_functions c), m_structs = ly_structs s,
                 m_enums = ly_enums s, m_globals = ly_globals s, m_tests = cx_tests c, m_entry = entry\<rparr>, []))"

definition compile_bodies :: "cg \<Rightarrow> item_id list \<Rightarrow> item_id list \<Rightarrow> (item_id \<times> func_id) list \<Rightarrow>
    (func_id option, cx) step" where
  "compile_bodies G roots entry_roots tests =
     gbind (cg_seq [compile_toplevel G roots, cg_seq (map (compile_item G) roots),
       cg_seq (map (compile_test G) tests)]) (\<lambda>_. find_entry G entry_roots)"

definition compile_inner ::
    "bool \<Rightarrow> hir \<Rightarrow> item_id list \<Rightarrow> item_id list \<Rightarrow> resolutions \<Rightarrow> type_tables \<Rightarrow> bool \<Rightarrow>
     cg_panic + module_code \<times> diag list" where
  "compile_inner debug H roots entry_roots R T with_tests =
     (case gbind (cx_collect H roots) (\<lambda>_. if with_tests then collect_tests H entry_roots else gret ()) layout_new of
        Inl p \<Rightarrow> Inl p
      | Inr (_, s) \<Rightarrow>
          if cx_diags (ly_cx s) \<noteq> [] then cx_finish s None (ly_cx s)
          else case compile_bodies (cg_of debug H R T s) roots entry_roots (ly_func_of_test s) (ly_cx s) of
                 Inl p \<Rightarrow> Inl p
               | Inr (entry, c) \<Rightarrow> cx_finish s entry c)"

definition compile_program ::
    "bool \<Rightarrow> hir \<Rightarrow> item_id list \<Rightarrow> item_id list \<Rightarrow> resolutions \<Rightarrow> type_tables \<Rightarrow>
     cg_panic + module_code \<times> diag list" where
  "compile_program debug H roots entry_roots R T = compile_inner debug H roots entry_roots R T False"

end
