(* ===== verification/Codegen_Flow.thy ===== *)
theory Codegen_Flow
  imports Code_Layout Codegen
begin

text \<open>
  Assertions on the state of the code generator and rules for its steps. \<open>pt C L U F d\<close> holds of
  a state whose code is laid out well (\<open>Code_Layout\<close>), with the operand stack at depth \<open>d\<close>, the loops
  \<open>L\<close> around the point, the open jumps \<open>U\<close> and the facts \<open>F\<close>; once something was reported it only
  says that patches hit jumps. \<open>spec P g Q\<close>: from \<open>P\<close>, the step \<open>g\<close> does not fail an assertion of the
  generator, and its result and the state after it satisfy \<open>Q\<close>.
\<close>

section \<open>Steps\<close>

definition benign :: "cg_panic \<Rightarrow> bool" where
  "benign p \<longleftrightarrow> p \<notin> {BadPatch, DepthAssert, NoLoop}"

definition spec :: "('s \<Rightarrow> bool) \<Rightarrow> ('a, 's) step \<Rightarrow> ('a \<Rightarrow> 's \<Rightarrow> bool) \<Rightarrow> bool" where
  "spec P g Q \<longleftrightarrow> (\<forall>s. P s \<longrightarrow> (case g s of Inl p \<Rightarrow> benign p | Inr (x, s') \<Rightarrow> Q x s'))"

lemma benign_simps [simp]: "benign TooMany" "benign MissingEntry" "benign DefinedTwice"
  "\<not> benign BadPatch" "\<not> benign DepthAssert" "\<not> benign NoLoop"
  by (simp_all add: benign_def)

lemma spec_bind:
  "spec P g R \<Longrightarrow> (\<And>x. spec (R x) (k x) Q) \<Longrightarrow> spec P (gbind g k) Q"
  unfolding spec_def gbind_def by (auto split: sum.split) (fastforce split: sum.splits)+

lemma spec_ret: "(\<And>s. P s \<Longrightarrow> Q x s) \<Longrightarrow> spec P (gret x) Q"
  by (simp add: spec_def gret_def)

lemma spec_panic [simp]: "benign p \<Longrightarrow> spec P (gpanic p) Q"
  by (simp add: spec_def gpanic_def)

lemma spec_expect: "(\<And>y. x = Some y \<Longrightarrow> spec P (gret y) Q) \<Longrightarrow> benign p \<Longrightarrow> spec P (gexpect p x) Q"
  by (cases x) (simp_all add: gexpect_def)

lemma spec_conseq:
  "spec P g Q \<Longrightarrow> (\<And>s. P' s \<Longrightarrow> P s) \<Longrightarrow> (\<And>x s. Q x s \<Longrightarrow> Q' x s) \<Longrightarrow> spec P' g Q'"
  unfolding spec_def by (fastforce split: sum.splits)

lemma spec_pre: "spec P g Q \<Longrightarrow> (\<And>s. P' s \<Longrightarrow> P s) \<Longrightarrow> spec P' g Q"
  by (rule spec_conseq)

lemma spec_seq_Nil: "(\<And>s. P s \<Longrightarrow> Q () s) \<Longrightarrow> spec P (cg_seq []) Q"
  by (simp add: spec_ret)

lemma spec_seq_Cons: "spec P g (\<lambda>_. R) \<Longrightarrow> spec R (cg_seq gs) Q \<Longrightarrow> spec P (cg_seq (g # gs)) Q"
  by (simp add: spec_bind)

lemma spec_seq_append: "spec P (cg_seq gs) (\<lambda>_. R) \<Longrightarrow> spec R (cg_seq hs) Q \<Longrightarrow> spec P (cg_seq (gs @ hs)) Q"
proof (induction gs arbitrary: P)
  case Nil
  then have "\<And>s. P s \<Longrightarrow> R s" by (simp add: spec_def gret_def)
  with Nil show ?case by (auto intro: spec_pre)
next
  case (Cons g gs)
  from Cons.prems(1) have "spec P g (\<lambda>_ s. spec (\<lambda>t. t = s) (cg_seq gs) (\<lambda>_. R))"
    by (auto simp: spec_def gbind_def split: sum.splits)
  moreover have "spec (\<lambda>s. spec (\<lambda>t. t = s) (cg_seq gs) (\<lambda>_. R)) (cg_seq gs) (\<lambda>_. R)"
    by (simp add: spec_def)
  ultimately show ?case using Cons.IH Cons.prems(2) by (auto intro: spec_bind)
qed

section \<open>The state of the module\<close>

text \<open>As long as nothing is reported, every function that has been defined passes the check.\<close>

definition cx_good :: "struct_shape list \<Rightarrow> bool \<Rightarrow> cx \<Rightarrow> bool" where
  "cx_good S b c \<longleftrightarrow>
     (cx_diags c = [] \<longrightarrow> b \<and> (\<forall>fn. Some fn \<in> set (cx_functions c) \<longrightarrow> check_fn S fn))"

definition cx_step :: "struct_shape list \<Rightarrow> ('a, cx) step \<Rightarrow> ('a \<Rightarrow> bool) \<Rightarrow> bool" where
  "cx_step S g R \<longleftrightarrow> (\<forall>b. spec (cx_good S b) g (\<lambda>x. cx_good S (b \<and> R x)))"

lemma cx_good_mono: "cx_good S b c \<Longrightarrow> (b \<Longrightarrow> b') \<Longrightarrow> cx_good S b' c"
  by (simp add: cx_good_def)

lemma cx_step_bind:
  assumes "cx_step S g R" and "\<And>x. cx_step S (k x) (R' x)" and "\<And>x y. R x \<Longrightarrow> R' x y \<Longrightarrow> T y"
  shows "cx_step S (gbind g k) T"
  unfolding cx_step_def
proof (intro allI spec_bind)
  fix b show "spec (cx_good S b) g (\<lambda>x. cx_good S (b \<and> R x))" using assms(1) by (simp add: cx_step_def)
  fix x
  from assms(2) have "spec (cx_good S (b \<and> R x)) (k x) (\<lambda>y. cx_good S ((b \<and> R x) \<and> R' x y))"
    unfolding cx_step_def by blast
  then show "spec (cx_good S (b \<and> R x)) (k x) (\<lambda>y. cx_good S (b \<and> T y))"
    by (rule spec_conseq) (auto intro: assms(3) elim: cx_good_mono)
qed

lemma cx_step_ret: "R x \<Longrightarrow> cx_step S (gret x) R"
  by (auto simp: cx_step_def intro: spec_ret elim: cx_good_mono)

lemma cx_step_seq: "(\<And>g. g \<in> set gs \<Longrightarrow> cx_step S g (\<lambda>_. True)) \<Longrightarrow> cx_step S (cg_seq gs) (\<lambda>_. True)"
  by (induction gs) (auto intro: cx_step_ret cx_step_bind [where R = "\<lambda>_. True" and R' = "\<lambda>_ _. True"])

lemma cx_step_expect: "(\<And>y. x = Some y \<Longrightarrow> R y) \<Longrightarrow> cx_step S (gexpect MissingEntry x) R"
  by (cases x) (auto simp: gexpect_def cx_step_def intro: spec_ret elim: cx_good_mono)

lemma cx_step_report: "cx_step S (report k m l sp) R"
  by (auto simp: cx_step_def spec_def report_def gmodify_def cx_good_def)

lemma cx_step_narrow: "(\<And>R. cx_step S complain R) \<Longrightarrow> cx_step S (narrow limit n complain) (\<lambda>m. m = n \<and> n \<le> limit)"
  by (auto simp: narrow_def intro!: cx_step_ret cx_step_bind [where R = "\<lambda>_. False" and R' = "\<lambda>_ _. True"])

lemma cx_steps:
  "cx_step S (cx_argc n sp) (\<lambda>m. m = n \<and> n \<le> max_args)"
  "cx_step S (cx_arity what n sp) (\<lambda>m. m = n \<and> n \<le> max_params)"
  "cx_step S (cx_capture_count n sp) (\<lambda>m. m = n \<and> n \<le> max_bindings)"
  by (auto simp: cx_argc_def cx_arity_def cx_capture_count_def intro: cx_step_narrow cx_step_report)

lemma cx_step_reserve: "cx_step S reserve_function (\<lambda>_. True)"
  by (auto simp: cx_step_def spec_def reserve_function_def cx_good_def)

lemma cx_step_const: "cx_step S (pool_const k) (\<lambda>_. True)"
  by (auto simp: cx_step_def spec_def pool_const_def cx_good_def split: option.split)

lemma cx_step_define: "(fn_ok \<Longrightarrow> check_fn S fn) \<Longrightarrow> cx_good S (b \<and> fn_ok) c \<Longrightarrow>
    case define_function G i fn c of Inl p \<Rightarrow> benign p | Inr (_, c') \<Rightarrow> cx_good S b c'"
  unfolding define_function_def cx_good_def by (fastforce dest: set_update_subset_insert [THEN subsetD])

section \<open>Assertions\<close>

text \<open>\<open>L\<close> lists, innermost first, the depth of each loop head and whether leaving the loop pops its
  iterator; \<open>outer\<close> are the loops that are out of reach.\<close>

type_synonym loop_ctx = "(nat \<times> bool) list \<times> loop_cx list"

definition exit_depth :: "nat \<times> bool \<Rightarrow> nat" where
  "exit_depth hp = (if snd hp then fst hp - 1 else fst hp)"

definition loop_facts :: "loop_ctx \<Rightarrow> fcx \<Rightarrow> fact set" where
  "loop_facts L f =
     (\<Union>(l, hp) \<in> set (zip (f_loops f) (fst L)).
        insert (Label (lp_head l) (fst hp)) ((\<lambda>s. Site s (exit_depth hp)) ` set (lp_breaks l)))"

definition loop_open :: "loop_ctx \<Rightarrow> fcx \<Rightarrow> code_ix set" where
  "loop_open L f = (\<Union>l \<in> set (take (length (fst L)) (f_loops f)). set (lp_breaks l))"

definition aligned :: "loop_ctx \<Rightarrow> fcx \<Rightarrow> bool" where
  "aligned L f \<longleftrightarrow>
     length (fst L) \<le> length (f_loops f) \<and> drop (length (fst L)) (f_loops f) = snd L \<and>
     (\<forall>(l, hp) \<in> set (zip (f_loops f) (fst L)). lp_pops l = snd hp)"

definition live :: "fcx \<Rightarrow> slot_ix \<Rightarrow> bool" where
  "live f slot \<longleftrightarrow> slot < f_next f \<or> f_exhausted f"

definition slots_ok :: "fcx \<Rightarrow> bool" where
  "slots_ok f \<longleftrightarrow>
     (\<forall>l slot. f_slots f l = Some slot \<longrightarrow> live f slot) \<and> (\<forall>slot. f_self f = Some slot \<longrightarrow> live f slot)"

definition sites_ok :: "frozen \<Rightarrow> op list \<Rightarrow> fact set \<Rightarrow> bool" where
  "sites_ok C ops F \<longleftrightarrow>
     (\<forall>s e. Site s e \<in> F \<longrightarrow> length (b_code C) \<le> s \<and> s < length ops \<and> retarget (ops ! s) 0 \<noteq> None)"

definition pt :: "frozen \<Rightarrow> loop_ctx \<Rightarrow> code_ix set \<Rightarrow> fact set \<Rightarrow> nat \<Rightarrow> fcx \<Rightarrow> bool" where
  "pt C L U F d f \<longleftrightarrow>
     small_structs (b_structs C) \<and> handlers (f_chunk f) = [] \<and> length (b_code C) \<le> length (f_code f) \<and> take (length (b_code C)) (f_code f) = b_code C \<and>
     aligned L f \<and> sites_ok C (f_code f) (F \<union> loop_facts L f) \<and>
     (f_diags f = [] \<longrightarrow>
        b_clean C \<and> slots_ok f \<and> cx_good (b_structs C) True (f_cx f) \<and>
        (\<exists>ds. code_wf C (live f) (f_handlers f) (f_code f) ds (U \<union> loop_open L f) (F \<union> loop_facts L f) d))"

text \<open>A step that leaves the loops, the open jumps and the facts as they are.\<close>

definition moves :: "frozen \<Rightarrow> loop_ctx \<Rightarrow> nat \<Rightarrow> code_gen \<Rightarrow> nat \<Rightarrow> bool" where
  "moves C L d g d' \<longleftrightarrow> (\<forall>U F. spec (pt C L U F d) g (\<lambda>_. pt C L U F d'))"

lemma pt_weaken:
  assumes "pt C L U F d f" and "U \<subseteq> U'" and "F' \<subseteq> F"
  shows "pt C L U' F' d f"
proof -
  have "code_wf C (live f) (f_handlers f) (f_code f) ds (U' \<union> loop_open L f) (F' \<union> loop_facts L f) d"
    if "code_wf C (live f) (f_handlers f) (f_code f) ds (U \<union> loop_open L f) (F \<union> loop_facts L f) d" for ds
    using code_wf_mono [OF that, of "U' \<union> loop_open L f" "live f" "F' \<union> loop_facts L f"] assms(2,3) by blast
  moreover have "sites_ok C (f_code f) (F' \<union> loop_facts L f)"
    using assms unfolding pt_def sites_ok_def by blast
  ultimately show ?thesis using assms(1) unfolding pt_def by blast
qed

text \<open>A condition of the facts may be used wherever only depths matter.\<close>

definition holds :: "fact set \<Rightarrow> bool" where
  "holds F \<longleftrightarrow> (\<forall>b. Cond b \<in> F \<longrightarrow> b)"

lemma code_wf_holds: "code_wf C lv hs ops ds U F d \<Longrightarrow> F' \<subseteq> F \<Longrightarrow> holds F'"
  unfolding code_wf_def holds_def by (force simp: fact_ok_def)

text \<open>Steps that only touch the code.\<close>

lemma pt_frame_simps [simp]:
  "loop_facts L (f\<lparr>f_chunk := c\<rparr>) = loop_facts L f" "loop_open L (f\<lparr>f_chunk := c\<rparr>) = loop_open L f"
  "aligned L (f\<lparr>f_chunk := c\<rparr>) = aligned L f" "live (f\<lparr>f_chunk := c\<rparr>) = live f"
  "slots_ok (f\<lparr>f_chunk := c\<rparr>) = slots_ok f"
  "loop_facts L (f\<lparr>f_cx := x\<rparr>) = loop_facts L f" "loop_open L (f\<lparr>f_cx := x\<rparr>) = loop_open L f"
  "aligned L (f\<lparr>f_cx := x\<rparr>) = aligned L f" "live (f\<lparr>f_cx := x\<rparr>) = live f" "slots_ok (f\<lparr>f_cx := x\<rparr>) = slots_ok f"
  by (simp_all add: loop_facts_def loop_open_def aligned_def live_def [abs_def] slots_ok_def)

section \<open>Emitting\<close>

text \<open>What an instruction at index \<open>ix\<close> asks of the point it is emitted at.\<close>

definition issues :: "frozen \<Rightarrow> fact set \<Rightarrow> code_ix set \<Rightarrow> code_ix \<Rightarrow> op \<Rightarrow> nat \<Rightarrow> nat \<Rightarrow> bool" where
  "issues C F U ix op d d' \<longleftrightarrow>
     b_floor C + needs (b_structs C) op \<le> d \<and> (\<forall>slot. slots_used op = Some slot \<longrightarrow> Live slot \<in> F) \<and>
     (\<forall>name. op \<noteq> CallMethodDyn name 0) \<and> d' \<le> Suc d \<and>
     (\<exists>fall branch. transition op (b_structs C) = Some (fall, branch) \<and>
        (\<forall>x. fall = Some x \<longrightarrow> int d' = int d + x) \<and>
        (\<forall>t x. branch = Some (t, x) \<longrightarrow> 0 \<le> int d + x \<and> (ix \<in> U \<or> Label t (nat (int d + x)) \<in> F)))"

lemma emit_shape:
  "emit op sp f = Inr (ix, f') \<Longrightarrow> ix = length (f_code f) \<and> length (f_code f) < 2 ^ 32 \<and>
     f_code f' = f_code f @ [op] \<and> (\<exists>c. f' = f\<lparr>f_chunk := c\<rparr> \<and> handlers c = handlers (f_chunk f))"
  by (auto simp: emit_def chunk_push_def split: if_splits option.splits)

lemma code_wf_issues:
  assumes wf: "code_wf C lv hs ops ds U F d" and i: "issues C F' U' (length ops) op d d'" and U: "U \<subseteq> U''" "U' \<subseteq> U''" and F: "F' \<subseteq> F"
  shows "code_wf C lv hs (ops @ [op]) (ds @ [d']) U'' F d'"
proof -
  obtain fall branch where t: "transition op (b_structs C) = Some (fall, branch)"
    "\<And>x. fall = Some x \<Longrightarrow> int d' = int d + x"
    "\<And>t x. branch = Some (t, x) \<Longrightarrow> 0 \<le> int d + x \<and> (length ops \<in> U' \<or> Label t (nat (int d + x)) \<in> F')"
    using i unfolding issues_def by blast
  have fact: "fact_ok C lv hs ops ds x" if "x \<in> F'" for x using wf that F by (auto simp: code_wf_def)
  have "goes hs ds (length ops) t (int d + x)" if "Label t (nat (int d + x)) \<in> F'" "0 \<le> int d + x" for t x
    using fact [OF that(1)] that(2) by (auto simp: fact_ok_def label_at_def goes_def)
  with t(3) U have "branch = Some (t, x) \<Longrightarrow> 0 \<le> int d + x \<and> (length ops \<in> U'' \<or> goes hs ds (length ops) t (int d + x))" for t x
    by blast
  moreover have "op_fine (b_structs C) lv op d"
    using i fact by (fastforce simp: issues_def op_fine_def fact_ok_def)
  ultimately show ?thesis
    using code_wf_push [OF wf _ _ _ t(1) U(1)] i t(2) unfolding issues_def by blast
qed

lemma sites_ok_append: "sites_ok C ops F \<Longrightarrow> sites_ok C (ops @ [op]) F"
  unfolding sites_ok_def by (metis length_append_singleton less_SucI nth_append)

lemma pt_emit:
  assumes p: "pt C L U F d f" and e: "emit op sp f = Inr (ix, f')"
    and i: "holds F \<Longrightarrow> issues C F (insert ix U) ix op d d'"
  shows "(\<forall>t x fall. transition op (b_structs C) = Some (fall, Some (t, x)) \<longrightarrow> Label t (nat (int d + x)) \<in> F) \<Longrightarrow>
      pt C L U F d' f'"
    and "retarget op 0 \<noteq> None \<Longrightarrow> int e = int d + x \<Longrightarrow> transition op (b_structs C) = Some (fall, Some (t, x)) \<Longrightarrow>
      pt C L (insert ix U) (insert (Site ix e) F) d' f'"
proof -
  let ?F = "F \<union> loop_facts L f" and ?U = "U \<union> loop_open L f"
  from emit_shape [OF e] obtain c where f': "f' = f\<lparr>f_chunk := c\<rparr>" "f_code f' = f_code f @ [op]"
    "handlers c = handlers (f_chunk f)"
    and ix: "ix = length (f_code f)" by blast
  have sites: "sites_ok C (f_code f') ?F"
    using p f'(2) by (simp add: pt_def sites_ok_append)
  have bc: "length (b_code C) \<le> length (f_code f)" using p by (simp add: pt_def)
  have frame: "length (b_code C) \<le> length (f_code f')" "take (length (b_code C)) (f_code f') = b_code C"
    "aligned L f'" "small_structs (b_structs C)" "handlers (f_chunk f') = []" "loop_facts L f' = loop_facts L f" "loop_open L f' = loop_open L f"
    "f_diags f' = f_diags f" "live f' = live f" "slots_ok f' = slots_ok f" "f_cx f' = f_cx f" "f_handlers f' = f_handlers f"
    using p f' unfolding pt_def by simp_all
  have inv: "\<exists>ds. code_wf C (live f) (f_handlers f) (f_code f @ [op]) (ds @ [d']) (insert ix ?U) ?F d' \<and>
      code_wf C (live f) (f_handlers f) (f_code f) ds ?U ?F d \<and>
      b_clean C \<and> slots_ok f \<and> cx_good (b_structs C) True (f_cx f) \<and> issues C F (insert ix U) ix op d d'"
    if "f_diags f = []"
  proof -
    from p that obtain ds where ds: "code_wf C (live f) (f_handlers f) (f_code f) ds ?U ?F d"
      "b_clean C" "slots_ok f" "cx_good (b_structs C) True (f_cx f)" unfolding pt_def by blast
    then have "issues C F (insert ix U) ix op d d'" using i code_wf_holds [of _ _ _ _ _ _ ?F _ F] by blast
    with code_wf_issues [OF ds(1) this [unfolded ix], of "insert ix ?U"] ds ix show ?thesis by blast
  qed
  show "pt C L U F d' f'"
    if lab: "\<forall>t x fall. transition op (b_structs C) = Some (fall, Some (t, x)) \<longrightarrow> Label t (nat (int d + x)) \<in> F"
  proof -
    have "\<exists>ds. code_wf C (live f) (f_handlers f) (f_code f @ [op]) (ds @ [d']) ?U ?F d'"
      if ds: "code_wf C (live f) (f_handlers f) (f_code f) ds ?U ?F d" and "issues C F (insert ix U) ix op d d'" for ds
    proof -
      from that(2) lab have "issues C F U ix op d d'" by (fastforce simp: issues_def)
      from code_wf_issues [OF ds this [unfolded ix], of ?U] show ?thesis by blast
    qed
    with frame sites inv f'(2) show ?thesis unfolding pt_def by metis
  qed
  show "pt C L (insert ix U) (insert (Site ix e) F) d' f'"
    if rt: "retarget op 0 \<noteq> None" "int e = int d + x" "transition op (b_structs C) = Some (fall, Some (t, x))"
  proof -
    have "sites_ok C (f_code f') (insert (Site ix e) F \<union> loop_facts L f)"
      using sites rt(1) f'(2) ix bc by (auto simp: sites_ok_def)
    moreover have "\<exists>ds. code_wf C (live f) (f_handlers f) (f_code f @ [op]) ds (insert ix U \<union> loop_open L f) (insert (Site ix e) F \<union> loop_facts L f) d'"
      if wf: "code_wf C (live f) (f_handlers f) (f_code f) ds ?U ?F d"
        "code_wf C (live f) (f_handlers f) (f_code f @ [op]) (ds @ [d']) (insert ix ?U) ?F d'" for ds
    proof -
      from wf(1) rt(2) have "int e = int (ds ! length (f_code f)) + x" by (simp add: code_wf_def)
      from pushed_site [OF wf(2) bc rt(3) this]
      have "code_wf C (live f) (f_handlers f) (f_code f @ [op]) (ds @ [d']) (insert ix U \<union> loop_open L f) (insert (Site ix e) F \<union> loop_facts L f) d'"
        using code_wf_mono [OF wf(2), of "insert ix U \<union> loop_open L f" "live f" "insert (Site ix e) F \<union> loop_facts L f"] ix by auto
      then show ?thesis by blast
    qed
    ultimately show ?thesis using frame inv f'(2) unfolding pt_def by metis
  qed
qed

end
