(* ===== verification/Codegen_Rules.thy ===== *)
theory Codegen_Rules
  imports Codegen_Flow
begin

text \<open>
  Rules for the steps of the code generator, one for each of its primitives: what it emits, where
  its jumps arrive, which slots it hands out. A proof about a helper applies them from the first step
  to the last, the depth following by simplification.
\<close>

declare cg_seq.simps [simp del]

section \<open>Straight-line code\<close>

definition fine :: "frozen \<Rightarrow> fact set \<Rightarrow> op \<Rightarrow> nat \<Rightarrow> bool" where
  "fine C F op d \<longleftrightarrow>
     b_floor C + needs (b_structs C) op \<le> d \<and> (\<forall>slot. slots_used op = Some slot \<longrightarrow> Live slot \<in> F) \<and>
     (\<forall>name. op \<noteq> CallMethodDyn name 0) \<and> (\<exists>x. transition op (b_structs C) = Some (Some x, None))"

definition after :: "frozen \<Rightarrow> op \<Rightarrow> nat \<Rightarrow> nat" where
  "after C op d = d - needs (b_structs C) op + pushes op"

definition ending :: "op \<Rightarrow> bool" where
  "ending op \<longleftrightarrow> op \<in> {Ret, Throw, Rethrow}"

lemma spec_emit_op:
  assumes "\<And>ix. holds F \<Longrightarrow> issues C F (insert ix U) ix op d d'"
    and "\<And>t x fall. transition op (b_structs C) = Some (fall, Some (t, x)) \<Longrightarrow> Label t (nat (int d + x)) \<in> F"
  shows "spec (pt C L U F d) (emit_op op sp) (\<lambda>_. pt C L U F d')"
  unfolding spec_def
proof (intro allI impI)
  fix f assume p: "pt C L U F d f"
  show "case emit_op op sp f of Inl p \<Rightarrow> benign p | Inr (x, s') \<Rightarrow> pt C L U F d' s'"
  proof (cases "emit op sp f")
    case (Inl p)
    then show ?thesis by (auto simp: emit_op_def gbind_def emit_def split: option.splits)
  next
    case (Inr r)
    with pt_emit(1) [OF p _ assms(1)] assms(2) show ?thesis
      by (cases r) (auto simp: emit_op_def gbind_def gret_def)
  qed
qed

lemma net_effect_of: "transition op S = Some (Some x, None) \<Longrightarrow> net_effect op S = Some x"
  by (cases op) (simp_all add: transition_def split: option.splits)

lemma fine_issues:
  assumes "fine C F op d" and S: "small_structs (b_structs C)" and "d' = after C op d"
  shows "issues C F U ix op d d'"
proof -
  from assms(1) obtain x where x: "transition op (b_structs C) = Some (Some x, None)" unfolding fine_def by blast
  from net_effect_balance [OF net_effect_of [OF x] S] assms(1)
  have "x = int (pushes op) - int (needs (b_structs C) op)" by (simp add: fine_def)
  with x transition_grows [OF x] assms show ?thesis by (auto simp: issues_def fine_def after_def)
qed

lemma spec_emit:
  assumes "holds F \<Longrightarrow> fine C F op d \<and> d' = after C op d"
    and "\<exists>x. transition op (b_structs C) = Some (x, None) \<or> transition op (b_structs C) = None"
  shows "spec (pt C L U F d) (emit_op op sp) (\<lambda>_. pt C L U F d')"
proof (cases "small_structs (b_structs C)")
  case True
  show ?thesis
    by (rule spec_emit_op) (use assms fine_issues [OF _ True] in auto)
qed (simp add: spec_def pt_def)

lemma spec_emit_ending:
  assumes "ending op" and "b_floor C + 1 \<le> d" and "d' \<le> Suc d"
  shows "spec (pt C L U F d) (emit_op op sp) (\<lambda>_. pt C L U F d')"
  by (rule spec_emit_op) (use assms in \<open>auto simp: ending_def issues_def needs_def slots_used_def transition_def\<close>)

lemma spec_emit_back:
  assumes "Label t d \<in> F" and "b_floor C \<le> d" and "d' \<le> Suc d"
  shows "spec (pt C L U F d) (emit_op (Jump t) sp) (\<lambda>_. pt C L U F d')"
  by (rule spec_emit_op) (use assms in \<open>auto simp: issues_def needs_def slots_used_def transition_def\<close>)

text \<open>The evaluation of concrete instructions.\<close>

named_theorems op_eval \<open>operands, slots and successors of instructions\<close>

lemmas [op_eval] = fine_def after_def ending_def needs_def pushes_def slots_used_def transition_def net_effect_def

section \<open>Sequences\<close>

lemma seq_emit:
  assumes "holds F \<Longrightarrow> fine C F op d" and "\<exists>x. transition op (b_structs C) = Some (x, None) \<or> transition op (b_structs C) = None"
    and "d' = after C op d" and "spec (pt C L U F d') (cg_seq gs) Q"
  shows "spec (pt C L U F d) (cg_seq (emit_op op sp # gs)) Q"
  using spec_seq_Cons [OF spec_emit] assms by blast

lemma seq_ending:
  assumes "ending op" and "b_floor C + 1 \<le> d" and "d' \<le> Suc d" and "spec (pt C L U F d') (cg_seq gs) Q"
  shows "spec (pt C L U F d) (cg_seq (emit_op op sp # gs)) Q"
  using spec_seq_Cons [OF spec_emit_ending] assms by blast

lemma moves_spec: "moves C L d g d' \<Longrightarrow> spec (pt C L U F d) g (\<lambda>_. pt C L U F d')"
  by (simp add: moves_def)

lemma seq_moves:
  "moves C L d g d' \<Longrightarrow> spec (pt C L U F d') (cg_seq gs) Q \<Longrightarrow> spec (pt C L U F d) (cg_seq (g # gs)) Q"
  by (rule spec_seq_Cons) (rule moves_spec)

lemma bind_moves:
  "moves C L d g d' \<Longrightarrow> (\<And>x. spec (pt C L U F d') (k x) Q) \<Longrightarrow> spec (pt C L U F d) (gbind g k) Q"
  by (rule spec_bind) (rule moves_spec)

lemma seq_done: "U \<subseteq> U' \<Longrightarrow> F' \<subseteq> F \<Longrightarrow> spec (pt C L U F d) (cg_seq []) (\<lambda>_. pt C L U' F' d)"
  by (rule spec_seq_Nil) (rule pt_weaken)

lemma ret_done: "U \<subseteq> U' \<Longrightarrow> F' \<subseteq> F \<Longrightarrow> spec (pt C L U F d) (gret x) (\<lambda>_. pt C L U' F' d)"
  by (rule spec_ret) (rule pt_weaken)

lemma spec_weaken:
  "spec (pt C L U F d) g (\<lambda>_. pt C L U F d') \<Longrightarrow> U \<subseteq> U' \<Longrightarrow> F' \<subseteq> F \<Longrightarrow>
     spec (pt C L U F d) g (\<lambda>_. pt C L U' F' d')"
  by (erule spec_conseq) (auto elim: pt_weaken)

lemma movesI: "(\<And>U F. spec (pt C L U F d) g (\<lambda>_. pt C L U F d')) \<Longrightarrow> moves C L d g d'"
  by (simp add: moves_def)

lemma moves_seq_Nil: "moves C L d (cg_seq []) d"
  by (rule movesI, rule seq_done) simp_all

lemma moves_seq: "moves C L d g d' \<Longrightarrow> moves C L d' (cg_seq gs) d'' \<Longrightarrow> moves C L d (cg_seq (g # gs)) d''"
  by (auto intro: movesI seq_moves moves_spec)

text \<open>Steps that each leave the depth alone, and steps that each push as many values.\<close>

lemma moves_each:
  "(\<And>g. g \<in> set gs \<Longrightarrow> moves C L d g d) \<Longrightarrow> moves C L d (cg_seq gs) d"
  by (induction gs) (auto intro: moves_seq moves_seq_Nil)

lemma moves_pushing:
  "(\<And>g n. g \<in> set gs \<Longrightarrow> d \<le> n \<Longrightarrow> moves C L n g (n + k)) \<Longrightarrow> moves C L d (cg_seq gs) (d + length gs * k)"
proof (induction gs arbitrary: d)
  case (Cons g gs)
  have "moves C L (d + k) (cg_seq gs) (d + k + length gs * k)"
    by (rule Cons.IH) (rule Cons.prems, auto)
  moreover have "moves C L d g (d + k)" by (rule Cons.prems) simp_all
  ultimately show ?case by (simp add: moves_seq add.assoc)
qed (simp add: moves_seq_Nil)

section \<open>Jumps\<close>

lemma spec_jump:
  assumes "retarget op 0 \<noteq> None" and "transition op (b_structs C) = Some (fall, Some (t, x))"
    and "b_floor C + needs (b_structs C) op \<le> d" and "int e = int d + x" and "d' \<le> Suc d"
    and "\<And>y. fall = Some y \<Longrightarrow> int d' = int d + y"
  shows "spec (pt C L U F d) (emit op sp) (\<lambda>site. pt C L (insert site U) (insert (Site site e) F) d')"
  unfolding spec_def
proof (intro allI impI)
  fix f assume p: "pt C L U F d f"
  have no_slot: "slots_used op = None" "\<forall>name. op \<noteq> CallMethodDyn name 0"
    using assms(1) by (cases op; simp add: retarget_def slots_used_def)+
  show "case emit op sp f of Inl p \<Rightarrow> benign p
      | Inr (ix, s') \<Rightarrow> pt C L (insert ix U) (insert (Site ix e) F) d' s'"
  proof (cases "emit op sp f")
    case (Inl p)
    then show ?thesis by (auto simp: emit_def split: option.splits)
  next
    case (Inr r)
    obtain ix f' where r: "r = (ix, f')" by (cases r)
    have "issues C F (insert ix U) ix op d d'"
      using assms no_slot by (auto simp: issues_def)
    from pt_emit(2) [OF p Inr [unfolded r] this assms(1,4,2)] Inr r show ?thesis by simp
  qed
qed

lemma bind_jump:
  assumes "b_floor C \<le> d" and "d' \<le> Suc d"
    and "\<And>site. spec (pt C L (insert site U) (insert (Site site d) F) d') (k site) Q"
  shows "spec (pt C L U F d) (gbind (emit (Jump t) sp) k) Q"
  by (rule spec_bind [OF spec_jump [where e = d and d' = d'] assms(3)])
    (use assms in \<open>auto simp: retarget_def transition_def needs_def\<close>)

lemma bind_jump_if_false:
  assumes "b_floor C \<le> d" and "\<And>site. spec (pt C L (insert site U) (insert (Site site d) F) d) (k site) Q"
  shows "spec (pt C L U F (Suc d)) (gbind (emit (JumpIfFalse t) sp) k) Q"
  by (rule spec_bind [OF spec_jump [where e = d and d' = d] assms(2)])
    (use assms in \<open>auto simp: retarget_def transition_def needs_def\<close>)

lemma bind_jump_or_pop:
  assumes "op \<in> {JumpIfFalseOrPop t, JumpIfTrueOrPop t}" and "b_floor C \<le> d"
    and "\<And>site. spec (pt C L (insert site U) (insert (Site site (Suc d)) F) d) (k site) Q"
  shows "spec (pt C L U F (Suc d)) (gbind (emit op sp) k) Q"
  by (rule spec_bind [OF spec_jump [where e = "Suc d" and d' = d] assms(3)])
    (use assms in \<open>auto simp: retarget_def transition_def needs_def\<close>)

lemma bind_jump_test:
  assumes "op \<in> {JumpIfVariantNe n t, JumpIfNone t, JumpIfPanic t, JumpIfTagNe k' t}" and "b_floor C \<le> d"
    and "\<And>site. spec (pt C L (insert site U) (insert (Site site (Suc d)) F) (Suc d)) (k site) Q"
  shows "spec (pt C L U F (Suc d)) (gbind (emit op sp) k) Q"
  by (rule spec_bind [OF spec_jump [where e = "Suc d" and d' = "Suc d"] assms(3)])
    (use assms in \<open>auto simp: retarget_def transition_def needs_def\<close>)

section \<open>Positions and patches\<close>

lemma bind_here:
  assumes "\<And>p. spec (pt C L U (insert (Label p d) F) d) (k p) Q"
  shows "spec (pt C L U F d) (gbind here k) Q"
proof (rule spec_bind [OF _ assms])
  show "spec (pt C L U F d) here (\<lambda>p. pt C L U (insert (Label p d) F) d)"
    unfolding spec_def
  proof (intro allI impI)
    fix f assume p: "pt C L U F d f"
    have "code_wf C (live f) (f_handlers f) (f_code f) ds (U \<union> loop_open L f)
        (insert (Label (length (f_code f)) d) F \<union> loop_facts L f) d"
      if "code_wf C (live f) (f_handlers f) (f_code f) ds (U \<union> loop_open L f) (F \<union> loop_facts L f) d" for ds
      using code_wf_mono [OF that order_refl, of "live f" "insert (Label (length (f_code f)) d) F \<union> loop_facts L f"]
        code_wf_here [OF that] by auto
    with p have "pt C L U (insert (Label (length (f_code f)) d) F) d f"
      unfolding pt_def sites_ok_def by blast
    then show "case here f of Inl p \<Rightarrow> benign p | Inr (p, s') \<Rightarrow> pt C L U (insert (Label p d) F) d s'"
      by (simp add: here_def)
  qed
qed

lemma retarget_any: "retarget op 0 \<noteq> None \<Longrightarrow> \<exists>op'. retarget op t = Some op'"
  by (cases op) (simp_all add: retarget_def)

lemma retarget_jump: "retarget op t = Some op' \<Longrightarrow> retarget op' 0 \<noteq> None"
  by (cases op) (auto simp: retarget_def)

lemma sites_ok_update: "sites_ok C ops F \<Longrightarrow> retarget op 0 \<noteq> None \<Longrightarrow> sites_ok C (ops[s := op]) F"
  unfolding sites_ok_def by (metis length_list_update nth_list_update_eq nth_list_update_neq)

lemma patch_pt:
  assumes p: "pt C L U F d f" and s: "Site s d \<in> F" and t: "t = length (f_code f)"
  shows "\<exists>f'. patch s t f = Inr ((), f') \<and> pt C L (U - {s}) F d f' \<and> length (f_code f') = length (f_code f)"
proof -
  let ?F = "F \<union> loop_facts L f"
  have site: "length (b_code C) \<le> s" "s < length (f_code f)" "retarget (f_code f ! s) 0 \<noteq> None"
    using p s unfolding pt_def sites_ok_def by blast+
  then obtain op' where op': "retarget (f_code f ! s) t = Some op'" using retarget_any by blast
  let ?f = "f\<lparr>f_chunk := (f_chunk f)\<lparr>code := (f_code f)[s := op']\<rparr>\<rparr>"
  have e: "patch s t f = Inr ((), ?f)" using op' site by (simp add: patch_def patch_jump_def)
  have "sites_ok C ((f_code f)[s := op']) ?F"
    using p retarget_jump [OF op'] by (simp add: pt_def sites_ok_update)
  moreover have "code_wf C (live f) (f_handlers f) ((f_code f)[s := op']) ds (U - {s} \<union> loop_open L f) ?F d"
    if "code_wf C (live f) (f_handlers f) (f_code f) ds (U \<union> loop_open L f) ?F d" for ds
  proof -
    from code_wf_patch [OF that _ op' [unfolded t]] s
    have "code_wf C (live f) (f_handlers f) ((f_code f)[s := op']) ds ((U \<union> loop_open L f) - {s}) ?F d" by blast
    from code_wf_mono [OF this, of "U - {s} \<union> loop_open L f" "live f" ?F] show ?thesis by blast
  qed
  ultimately have "pt C L (U - {s}) F d ?f"
    using p site(1) unfolding pt_def by auto
  with e show ?thesis by auto
qed

lemma patch_all:
  "\<forall>s \<in> set sites. Site s d \<in> F \<Longrightarrow>
     spec (\<lambda>f. pt C L U F d f \<and> length (f_code f) = t) (cg_seq (map (\<lambda>s. patch s t) sites))
       (\<lambda>_. pt C L (U - set sites) F d)"
proof (induction sites arbitrary: U)
  case (Cons s sites)
  have "spec (\<lambda>f. pt C L U F d f \<and> length (f_code f) = t) (patch s t)
      (\<lambda>_ f. pt C L (U - {s}) F d f \<and> length (f_code f) = t)"
    using patch_pt [of C L U F d _ s t] Cons.prems by (fastforce simp: spec_def)
  from spec_seq_Cons [OF this Cons.IH [of "U - {s}"]] Cons.prems
  have "spec (\<lambda>f. pt C L U F d f \<and> length (f_code f) = t) (cg_seq (map (\<lambda>s. patch s t) (s # sites)))
      (\<lambda>_. pt C L (U - {s} - set sites) F d)" by simp
  moreover have "U - {s} - set sites = U - set (s # sites)" by auto
  ultimately show ?case by simp
qed (simp add: spec_def gret_def cg_seq.simps)

lemma spec_patch_here:
  assumes "\<forall>s \<in> set sites. Site s d \<in> F"
  shows "spec (pt C L U F d) (patch_here sites) (\<lambda>_. pt C L (U - set sites) F d)"
  unfolding patch_here_def
proof (rule spec_bind)
  show "spec (pt C L U F d) here (\<lambda>t f. pt C L U F d f \<and> length (f_code f) = t)"
    by (auto simp: spec_def here_def)
qed (rule patch_all [OF assms])

lemma seq_patch:
  "\<forall>s \<in> set sites. Site s d \<in> F \<Longrightarrow> spec (pt C L (U - set sites) F d) (cg_seq gs) Q \<Longrightarrow>
     spec (pt C L U F d) (cg_seq (patch_here sites # gs)) Q"
  by (rule spec_seq_Cons) (rule spec_patch_here)

lemma bind_patch:
  "\<forall>s \<in> set sites. Site s d \<in> F \<Longrightarrow> (\<And>x. spec (pt C L (U - set sites) F d) (k x) Q) \<Longrightarrow>
     spec (pt C L U F d) (gbind (patch_here sites) k) Q"
  by (rule spec_bind) (rule spec_patch_here)

section \<open>Slots\<close>

definition known :: "fact set \<Rightarrow> fcx \<Rightarrow> bool" where
  "known F f \<longleftrightarrow> holds F \<and> (\<forall>slot. Live slot \<in> F \<longrightarrow> live f slot) \<and> slots_ok f"

lemma pt_live:
  assumes p: "pt C L U F d f"
    and same: "f_cx f' = f_cx f" "f_chunk f' = f_chunk f" "f_handlers f' = f_handlers f" "f_loops f' = f_loops f"
    and lv: "\<And>slot. live f slot \<Longrightarrow> live f' slot"
    and ok: "known F f \<Longrightarrow> slots_ok f' \<and> (\<forall>slot \<in> X. live f' slot)"
  shows "pt C L U (Live ` X \<union> F) d f'"
proof -
  let ?F = "Live ` X \<union> F \<union> loop_facts L f"
  have loops: "loop_facts L f' = loop_facts L f" "loop_open L f' = loop_open L f" "aligned L f' = aligned L f"
    using same by (simp_all add: loop_facts_def loop_open_def aligned_def)
  have "sites_ok C (f_code f) ?F"
    using p unfolding pt_def sites_ok_def by blast
  moreover have "(\<exists>ds. code_wf C (live f') (f_handlers f) (f_code f) ds (U \<union> loop_open L f) ?F d) \<and> slots_ok f'"
    if a: "f_diags f = []"
  proof -
    from a p obtain ds where ds: "code_wf C (live f) (f_handlers f) (f_code f) ds (U \<union> loop_open L f) (F \<union> loop_facts L f) d"
      "slots_ok f" unfolding pt_def by blast
    have "live f slot" if "Live slot \<in> F" for slot
      using code_wf_fact [OF ds(1), of "Live slot"] that by (simp add: fact_ok_def)
    moreover have "holds F" by (rule code_wf_holds [OF ds(1)]) simp
    ultimately have "known F f" using ds(2) by (simp add: known_def)
    note k = ok [OF this]
    have "code_wf C (live f') (f_handlers f) (f_code f) ds (U \<union> loop_open L f) ?F d"
    proof (rule code_wf_mono [OF ds(1) order_refl lv])
      fix x assume "x \<in> ?F"
      then show "x \<in> F \<union> loop_facts L f \<or> fact_ok C (live f') (f_handlers f) (f_code f) ds x"
        using k by (auto simp: fact_ok_def)
    qed
    with k show ?thesis by blast
  qed
  ultimately show ?thesis using p unfolding pt_def same loops by simp
qed

lemma spec_live:
  assumes "\<And>f. \<exists>x f'. g f = Inr (x, f') \<and> f_cx f' = f_cx f \<and> f_chunk f' = f_chunk f \<and>
      f_handlers f' = f_handlers f \<and> f_loops f' = f_loops f \<and> (\<forall>slot. live f slot \<longrightarrow> live f' slot) \<and>
      (known F f \<longrightarrow> slots_ok f' \<and> (\<forall>slot \<in> X x. live f' slot))"
  shows "spec (pt C L U F d) g (\<lambda>x. pt C L U (Live ` X x \<union> F) d)"
  unfolding spec_def
proof (intro allI impI)
  fix f assume p: "pt C L U F d f"
  from assms [of f] obtain x f' where s: "g f = Inr (x, f')" "f_cx f' = f_cx f" "f_chunk f' = f_chunk f"
      "f_handlers f' = f_handlers f" "f_loops f' = f_loops f" "\<And>slot. live f slot \<Longrightarrow> live f' slot"
      "known F f \<Longrightarrow> slots_ok f' \<and> (\<forall>slot \<in> X x. live f' slot)" by blast
  from pt_live [OF p s(2-7)] s(1)
  show "case g f of Inl p \<Rightarrow> benign p | Inr (x, s') \<Rightarrow> pt C L U (Live ` X x \<union> F) d s'" by simp
qed

lemma slots_ok_mono:
  "slots_ok f \<Longrightarrow> (\<forall>slot. live f slot \<longrightarrow> live f' slot) \<Longrightarrow> f_slots f' = f_slots f \<Longrightarrow> f_self f' = f_self f \<Longrightarrow> slots_ok f'"
  by (simp add: slots_ok_def)

lemma alloc_slot_keeps:
  "\<exists>slot f'. alloc_slot f = Inr (slot, f') \<and> f_cx f' = f_cx f \<and> f_chunk f' = f_chunk f \<and>
      f_handlers f' = f_handlers f \<and> f_loops f' = f_loops f \<and> f_slots f' = f_slots f \<and> f_self f' = f_self f \<and>
      (\<forall>slot. live f slot \<longrightarrow> live f' slot) \<and> live f' slot"
  by (auto simp: alloc_slot_def live_def)

lemma spec_alloc: "spec (pt C L U F d) alloc_slot (\<lambda>slot. pt C L U (insert (Live slot) F) d)"
proof -
  have "spec (pt C L U F d) alloc_slot (\<lambda>slot. pt C L U (Live ` {slot} \<union> F) d)"
  proof (rule spec_live)
    fix f
    from alloc_slot_keeps [of f] show "\<exists>x f'. alloc_slot f = Inr (x, f') \<and> f_cx f' = f_cx f \<and> f_chunk f' = f_chunk f \<and>
      f_handlers f' = f_handlers f \<and> f_loops f' = f_loops f \<and> (\<forall>slot. live f slot \<longrightarrow> live f' slot) \<and>
      (known F f \<longrightarrow> slots_ok f' \<and> (\<forall>slot \<in> {x}. live f' slot))"
      unfolding known_def by (metis singletonD slots_ok_mono)
  qed
  then show ?thesis by simp
qed

lemmas bind_alloc = spec_bind [OF spec_alloc]

lemma slots_ok_bind: "slots_ok f \<Longrightarrow> live f slot \<Longrightarrow> slots_ok (f\<lparr>f_slots := (f_slots f)(l \<mapsto> slot)\<rparr>)"
  by (auto simp: slots_ok_def live_def)

lemma spec_slot_of: "spec (pt C L U F d) (slot_of l) (\<lambda>slot. pt C L U (insert (Live slot) F) d)"
proof -
  have "spec (pt C L U F d) (slot_of l) (\<lambda>slot. pt C L U (Live ` {slot} \<union> F) d)"
  proof (rule spec_live)
    fix f
    show "\<exists>x f'. slot_of l f = Inr (x, f') \<and> f_cx f' = f_cx f \<and> f_chunk f' = f_chunk f \<and>
      f_handlers f' = f_handlers f \<and> f_loops f' = f_loops f \<and> (\<forall>slot. live f slot \<longrightarrow> live f' slot) \<and>
      (known F f \<longrightarrow> slots_ok f' \<and> (\<forall>slot \<in> {x}. live f' slot))"
    proof (cases "f_slots f l")
      case (Some slot)
      then show ?thesis by (auto simp: slot_of_def known_def slots_ok_def)
    next
      case None
      from alloc_slot_keeps [of f] obtain slot g where g: "alloc_slot f = Inr (slot, g)" "f_cx g = f_cx f"
        "f_chunk g = f_chunk f" "f_handlers g = f_handlers f" "f_loops g = f_loops f" "f_slots g = f_slots f"
        "f_self g = f_self f" "\<forall>slot. live f slot \<longrightarrow> live g slot" "live g slot" by blast
      let ?g = "g\<lparr>f_slots := (f_slots g)(l \<mapsto> slot)\<rparr>"
      have "slot_of l f = Inr (slot, ?g)" using None g(1) by (simp add: slot_of_def gbind_def gmodify_def gret_def)
      moreover have "slots_ok ?g" if "known F f"
        using that g slots_ok_mono [of f g] by (intro slots_ok_bind) (auto simp: known_def)
      moreover have "live ?g = live g" by (simp add: live_def [abs_def])
      ultimately show ?thesis using g by auto
    qed
  qed
  then show ?thesis by simp
qed

lemmas bind_slot_of = spec_bind [OF spec_slot_of]

lemma spec_assign:
  assumes "holds F \<Longrightarrow> slot < 65535"
  shows "spec (pt C L U F d) (assign_slot l slot) (\<lambda>_. pt C L U F d)"
proof -
  have "spec (pt C L U F d) (assign_slot l slot) (\<lambda>_. pt C L U (Live ` {} \<union> F) d)"
  proof (rule spec_live)
    fix f :: fcx
    let ?g = "f\<lparr>f_next := max (f_next f) (sat_inc16 slot)\<rparr>"
    have g: "f\<lparr>f_slots := (f_slots f)(l \<mapsto> slot), f_next := max (f_next f) (sat_inc16 slot)\<rparr> = ?g\<lparr>f_slots := (f_slots ?g)(l \<mapsto> slot)\<rparr>"
      by simp
    have m: "\<forall>slot. live f slot \<longrightarrow> live ?g slot" by (auto simp: live_def)
    have "slots_ok (?g\<lparr>f_slots := (f_slots ?g)(l \<mapsto> slot)\<rparr>)" if "known F f"
    proof (rule slots_ok_bind)
      show "slots_ok ?g" using that m by (auto simp: known_def intro: slots_ok_mono)
      show "live ?g slot" using that assms by (auto simp: known_def live_def sat_inc16_def)
    qed
    with m show "\<exists>x f'. assign_slot l slot f = Inr (x, f') \<and> f_cx f' = f_cx f \<and> f_chunk f' = f_chunk f \<and>
      f_handlers f' = f_handlers f \<and> f_loops f' = f_loops f \<and> (\<forall>slot. live f slot \<longrightarrow> live f' slot) \<and>
      (known F f \<longrightarrow> slots_ok f' \<and> (\<forall>slot \<in> {}. live f' slot))"
      unfolding assign_slot_def gmodify_def g by (auto simp: live_def)
  qed
  then show ?thesis by simp
qed

lemma spec_floor: "spec (pt C L U F d) (reserve_slot_floor n) (\<lambda>_. pt C L U (Live ` {..<n} \<union> F) d)"
proof (rule spec_live)
  fix f
  have "slots_ok (f\<lparr>f_next := max (f_next f) n\<rparr>)" if "slots_ok f"
    by (rule slots_ok_mono [OF that]) (auto simp: live_def)
  then show "\<exists>x f'. reserve_slot_floor n f = Inr (x, f') \<and> f_cx f' = f_cx f \<and> f_chunk f' = f_chunk f \<and>
      f_handlers f' = f_handlers f \<and> f_loops f' = f_loops f \<and> (\<forall>slot. live f slot \<longrightarrow> live f' slot) \<and>
      (known F f \<longrightarrow> slots_ok f' \<and> (\<forall>slot \<in> {..<n}. live f' slot))"
    by (auto simp: reserve_slot_floor_def gmodify_def live_def known_def)
qed

lemma spec_self:
  assumes "Live slot \<in> F"
  shows "spec (pt C L U F d) (gmodify (\<lambda>f. f\<lparr>f_self := Some slot\<rparr>)) (\<lambda>_. pt C L U F d)"
proof -
  have "spec (pt C L U F d) (gmodify (\<lambda>f. f\<lparr>f_self := Some slot\<rparr>)) (\<lambda>_. pt C L U (Live ` {} \<union> F) d)"
    by (rule spec_live) (use assms in \<open>auto simp: gmodify_def live_def known_def slots_ok_def\<close>)
  then show ?thesis by simp
qed

lemma bind_self_slot:
  assumes "\<And>slot. spec (pt C L U (insert (Live slot) F) d) (k (Some slot)) Q" and "spec (pt C L U F d) (k None) Q"
  shows "spec (pt C L U F d) (gbind (gets f_self) k) Q"
proof (rule spec_bind)
  show "spec (pt C L U F d) (gets f_self) (\<lambda>x. pt C L U (Live ` {slot. x = Some slot} \<union> F) d)"
    by (rule spec_live) (auto simp: gets_def known_def slots_ok_def)
  fix x show "spec (pt C L U (Live ` {slot. x = Some slot} \<union> F) d) (k x) Q"
    using assms by (cases x) simp_all
qed

section \<open>Steps of the module\<close>

lemma bind_on_cx_if:
  assumes g: "\<And>b. spec (cx_good (b_structs C) (b \<and> holds F)) g (\<lambda>x. cx_good (b_structs C) (b \<and> R x))"
    and k: "\<And>x. spec (pt C L U (insert (Cond (R x)) F) d) (k x) Q"
  shows "spec (pt C L U F d) (gbind (on_cx g) k) Q"
proof (rule spec_bind [OF _ k])
  show "spec (pt C L U F d) (on_cx g) (\<lambda>x. pt C L U (insert (Cond (R x)) F) d)"
    unfolding spec_def
  proof (intro allI impI)
    fix f assume p: "pt C L U F d f"
    then have c: "cx_good (b_structs C) (f_diags f = [] \<and> holds F) (f_cx f)"
      by (auto simp: pt_def cx_good_def intro: code_wf_holds)
    show "case on_cx g f of Inl p \<Rightarrow> benign p | Inr (x, s') \<Rightarrow> pt C L U (insert (Cond (R x)) F) d s'"
    proof (cases "g (f_cx f)")
      case (Inl p)
      with g [of "f_diags f = []"] c show ?thesis by (auto simp: spec_def on_cx_def)
    next
      case (Inr r)
      obtain x c' where r: "r = (x, c')" by (cases r)
      with g [of "f_diags f = []"] c Inr have c': "cx_good (b_structs C) (f_diags f = [] \<and> R x) c'"
        by (auto simp: spec_def)
      let ?f = "f\<lparr>f_cx := c'\<rparr>"
      have "\<exists>ds. code_wf C (live f) (f_handlers f) (f_code f) ds (U \<union> loop_open L f) (insert (Cond (R x)) F \<union> loop_facts L f) d"
        if "cx_diags c' = []"
      proof -
        from c' that have "f_diags f = []" "R x" by (simp_all add: cx_good_def)
        with p obtain ds where "code_wf C (live f) (f_handlers f) (f_code f) ds (U \<union> loop_open L f) (F \<union> loop_facts L f) d"
          unfolding pt_def by blast
        then have "code_wf C (live f) (f_handlers f) (f_code f) ds (U \<union> loop_open L f) (insert (Cond (R x)) F \<union> loop_facts L f) d"
          by (rule code_wf_mono) (use \<open>R x\<close> in \<open>auto simp: fact_ok_def\<close>)
        then show ?thesis by blast
      qed
      moreover have "sites_ok C (f_code f) (insert (Cond (R x)) F \<union> loop_facts L f)"
        using p unfolding pt_def sites_ok_def by blast
      ultimately have "pt C L U (insert (Cond (R x)) F) d ?f"
        using p c' by (auto simp: pt_def cx_good_def)
      with Inr r show ?thesis by (simp add: on_cx_def)
    qed
  qed
qed

lemma bind_on_cx:
  assumes g: "cx_step (b_structs C) g R" and k: "\<And>x. spec (pt C L U (insert (Cond (R x)) F) d) (k x) Q"
  shows "spec (pt C L U F d) (gbind (on_cx g) k) Q"
proof (rule bind_on_cx_if [OF _ k])
  fix b
  from g have "spec (cx_good (b_structs C) (b \<and> holds F)) g (\<lambda>x. cx_good (b_structs C) ((b \<and> holds F) \<and> R x))"
    unfolding cx_step_def by blast
  then show "spec (cx_good (b_structs C) (b \<and> holds F)) g (\<lambda>x. cx_good (b_structs C) (b \<and> R x))"
    by (rule spec_conseq) (auto elim: cx_good_mono)
qed

lemma seq_on_cx:
  assumes "cx_step (b_structs C) g (\<lambda>_. True)" and "spec (pt C L U F d) (cg_seq gs) Q"
  shows "spec (pt C L U F d) (cg_seq (on_cx g # gs)) Q"
  unfolding cg_seq.simps
  by (rule bind_on_cx [OF assms(1)]) (rule spec_pre [OF assms(2)], erule pt_weaken, auto)

section \<open>Loops\<close>

text \<open>Changes of the loop stack.\<close>

lemma pt_loops:
  assumes p: "pt C L U F d f" and f': "f' = f\<lparr>f_loops := loops\<rparr>" and al: "aligned L' f'"
    and facts: "F' \<union> loop_facts L' f' \<subseteq> F \<union> loop_facts L f" and opens: "U \<union> loop_open L f \<subseteq> U' \<union> loop_open L' f'"
  shows "pt C L' U' F' d f'"
proof -
  have same: "f_cx f' = f_cx f" "f_chunk f' = f_chunk f" "f_handlers f' = f_handlers f" "live f' = live f"
    "slots_ok f' = slots_ok f" using f' by (simp_all add: live_def [abs_def] slots_ok_def)
  have "sites_ok C (f_code f) (F' \<union> loop_facts L' f')"
    using p facts unfolding pt_def sites_ok_def by blast
  moreover have "code_wf C (live f) (f_handlers f) (f_code f) ds (U' \<union> loop_open L' f') (F' \<union> loop_facts L' f') d"
    if "code_wf C (live f) (f_handlers f) (f_code f) ds (U \<union> loop_open L f) (F \<union> loop_facts L f) d" for ds
    by (rule code_wf_mono [OF that opens]) (use facts in blast)+
  ultimately show ?thesis using p al unfolding pt_def same by blast
qed

lemma spec_push_loop:
  assumes "Label head h \<in> F"
  shows "spec (pt C (ls, os) U F d) (push_loop head pops) (\<lambda>_. pt C ((h, pops) # ls, os) U F d)"
  unfolding spec_def push_loop_def gmodify_def
proof (intro allI impI, simp)
  fix f assume p: "pt C (ls, os) U F d f"
  show "pt C ((h, pops) # ls, os) U F d (f\<lparr>f_loops := \<lparr>lp_head = head, lp_breaks = [], lp_pops = pops\<rparr> # f_loops f\<rparr>)"
    by (rule pt_loops [OF p refl])
      (use p assms in \<open>auto simp: pt_def aligned_def loop_facts_def loop_open_def\<close>)
qed

lemma spec_pop_loop:
  "spec (pt C (hp # ls, os) U F d) pop_loop
     (\<lambda>l. pt C (ls, os) (set (lp_breaks l) \<union> U) ((\<lambda>s. Site s (exit_depth hp)) ` set (lp_breaks l) \<union> F) d)"
  unfolding spec_def
proof (intro allI impI)
  fix f assume p: "pt C (hp # ls, os) U F d f"
  then obtain l rest where l: "f_loops f = l # rest" by (cases "f_loops f") (auto simp: pt_def aligned_def)
  have "pt C (ls, os) (set (lp_breaks l) \<union> U) ((\<lambda>s. Site s (exit_depth hp)) ` set (lp_breaks l) \<union> F) d (f\<lparr>f_loops := rest\<rparr>)"
    by (rule pt_loops [OF p refl]) (use p l in \<open>auto simp: pt_def aligned_def loop_facts_def loop_open_def\<close>)
  with l show "case pop_loop f of Inl p \<Rightarrow> benign p
      | Inr (l, s') \<Rightarrow> pt C (ls, os) (set (lp_breaks l) \<union> U) ((\<lambda>s. Site s (exit_depth hp)) ` set (lp_breaks l) \<union> F) d s'"
    by (simp add: pop_loop_def)
qed

lemma bind_loops:
  assumes "\<And>l ls'. lp_pops l = snd hp \<Longrightarrow>
      spec (pt C (hp # ls, os) U (insert (Label (lp_head l) (fst hp)) F) d) (k (l # ls')) Q"
  shows "spec (pt C (hp # ls, os) U F d) (gbind (gets f_loops) k) Q"
  unfolding spec_def
proof (intro allI impI)
  fix f assume p: "pt C (hp # ls, os) U F d f"
  then obtain l rest where l: "f_loops f = l # rest" "lp_pops l = snd hp"
    by (cases "f_loops f") (auto simp: pt_def aligned_def)
  have "Label (lp_head l) (fst hp) \<in> loop_facts (hp # ls, os) f" by (simp add: loop_facts_def l)
  then have "pt C (hp # ls, os) U (insert (Label (lp_head l) (fst hp)) F) d f"
    by (intro pt_loops [OF p, where loops = "f_loops f"]) (use p in \<open>auto simp: pt_def\<close>)
  with assms [OF l(2)] l(1) show "case gbind (gets f_loops) k f of Inl p \<Rightarrow> benign p | Inr (x, s') \<Rightarrow> Q x s'"
    by (simp add: gbind_def gets_def spec_def)
qed

lemma bind_no_loops:
  assumes "spec (pt C ([], []) U F d) (k []) Q"
  shows "spec (pt C ([], []) U F d) (gbind (gets f_loops) k) Q"
  using assms by (auto simp: spec_def gbind_def gets_def pt_def aligned_def)

lemma spec_add_break:
  assumes "Site s (exit_depth hp) \<in> F"
  shows "spec (pt C (hp # ls, os) (insert s U) F d)
      (gmodify (\<lambda>f. f\<lparr>f_loops := (case f_loops f of [] \<Rightarrow> [] | l # ls \<Rightarrow> l\<lparr>lp_breaks := lp_breaks l @ [s]\<rparr> # ls)\<rparr>))
      (\<lambda>_. pt C (hp # ls, os) U F d)"
  unfolding spec_def gmodify_def
proof (intro allI impI, simp)
  fix f assume p: "pt C (hp # ls, os) (insert s U) F d f"
  then obtain l rest where l: "f_loops f = l # rest" by (cases "f_loops f") (auto simp: pt_def aligned_def)
  show "pt C (hp # ls, os) U F d
      (f\<lparr>f_loops := (case f_loops f of [] \<Rightarrow> [] | l # ls \<Rightarrow> l\<lparr>lp_breaks := lp_breaks l @ [s]\<rparr> # ls)\<rparr>)"
    by (rule pt_loops [OF p refl])
      (use p l assms in \<open>auto simp: pt_def aligned_def loop_facts_def loop_open_def\<close>)
qed

section \<open>Protected code\<close>

lemma no_loops: "loop_facts ([], os) f = {}" "loop_open ([], os) f = {}" "aligned ([], os) f \<longleftrightarrow> f_loops f = os"
  by (simp_all add: loop_facts_def loop_open_def aligned_def)

text \<open>The loops around protected code are out of reach, and it may be compiled in any frame whose floor is
  the depth it starts at.\<close>

lemma pt_freeze:
  assumes p: "pt C L U F d f"
  shows "\<exists>C'. b_structs C' = b_structs C \<and> b_floor C' = d \<and> pt C' ([], f_loops f) {} {} d f \<and>
    (\<forall>f' d'. b_floor C \<le> d \<longrightarrow> pt C' ([], f_loops f) {} {} d' f' \<longrightarrow>
       length (f_code f) \<le> length (f_code f') \<and> take (length (f_code f)) (f_code f') = f_code f \<and>
       f_loops f' = f_loops f \<and> handlers (f_chunk f') = [] \<and>
       (f_diags f' = [] \<longrightarrow> f_diags f = [] \<and> b_clean C \<and> slots_ok f' \<and> cx_good (b_structs C) True (f_cx f') \<and>
          (\<exists>ds ds'. code_wf C (live f) (f_handlers f) (f_code f) ds (U \<union> loop_open L f) (F \<union> loop_facts L f) d \<and>
             code_wf (freeze C (live f) (f_handlers f) (f_code f) ds (U \<union> loop_open L f) d) (live f')
               (f_handlers f') (f_code f') ds' {} {} d')))"
proof -
  define ds where "ds = (SOME ds. code_wf C (live f) (f_handlers f) (f_code f) ds (U \<union> loop_open L f) (F \<union> loop_facts L f) d)"
  define C' where "C' = (freeze C (live f) (f_handlers f) (f_code f) ds (U \<union> loop_open L f) d)\<lparr>b_clean := f_diags f = []\<rparr>"
  have wf: "code_wf C (live f) (f_handlers f) (f_code f) ds (U \<union> loop_open L f) (F \<union> loop_facts L f) d"
    if "f_diags f = []"
    using p that unfolding pt_def ds_def by (auto intro: someI_ex)
  have clean: "code_wf (C\<lparr>b_clean := x\<rparr>) = code_wf C" for x and C :: frozen
    by (intro ext) (simp add: code_wf_def fact_ok_def cong: fact.case_cong)
  have s: "b_structs C' = b_structs C" "b_floor C' = d" "b_code C' = f_code f" "b_clean C' \<longleftrightarrow> f_diags f = []"
    by (simp_all add: C'_def freeze_def)
  have start: "pt C' ([], f_loops f) {} {} d f"
    using p s code_wf_freeze [OF wf] unfolding pt_def
    by (auto simp: no_loops sites_ok_def C'_def clean)
  have "code_wf (freeze C (live f) (f_handlers f) (f_code f) ds (U \<union> loop_open L f) d) (live f')
      (f_handlers f') (f_code f') ds' {} {} d'"
    if "code_wf C' (live f') (f_handlers f') (f_code f') ds' {} {} d'" for f' ds' d'
    using that by (simp add: C'_def clean)
  note thaw = this
  have "length (f_code f) \<le> length (f_code f') \<and> take (length (f_code f)) (f_code f') = f_code f \<and>
       f_loops f' = f_loops f \<and> handlers (f_chunk f') = [] \<and>
       (f_diags f' = [] \<longrightarrow> f_diags f = [] \<and> b_clean C \<and> slots_ok f' \<and> cx_good (b_structs C) True (f_cx f') \<and>
          (\<exists>ds ds'. code_wf C (live f) (f_handlers f) (f_code f) ds (U \<union> loop_open L f) (F \<union> loop_facts L f) d \<and>
             code_wf (freeze C (live f) (f_handlers f) (f_code f) ds (U \<union> loop_open L f) d) (live f')
               (f_handlers f') (f_code f') ds' {} {} d'))" if f': "pt C' ([], f_loops f) {} {} d' f'" for f' d'
  proof -
    have "length (f_code f) \<le> length (f_code f')" "take (length (f_code f)) (f_code f') = f_code f"
      "f_loops f' = f_loops f" "handlers (f_chunk f') = []"
      using f' s by (simp_all add: pt_def no_loops)
    moreover have "f_diags f = []" "b_clean C" "slots_ok f'" "cx_good (b_structs C) True (f_cx f')"
      if "f_diags f' = []"
      using f' s p that by (auto simp: pt_def no_loops)
    moreover have "\<exists>ds'. code_wf C' (live f') (f_handlers f') (f_code f') ds' {} {} d'" if "f_diags f' = []"
      using f' that by (auto simp: pt_def no_loops)
    ultimately show ?thesis using wf thaw by blast
  qed
  with start s show ?thesis by (intro exI [of _ C']) blast
qed

lemma pt_protect:
  assumes p: "pt C L U F d f" and fl: "b_floor C \<le> d"
    and f1: "length (f_code f) \<le> length (f_code f1)" "take (length (f_code f)) (f_code f1) = f_code f" "f_loops f1 = f_loops f"
    and ok: "f_diags f1 = [] \<Longrightarrow> f_diags f = [] \<and> b_clean C \<and> slots_ok f1 \<and> cx_good (b_structs C) True (f_cx f1) \<and>
      (\<exists>ds ds'. code_wf C (live f) (f_handlers f) (f_code f) ds (U \<union> loop_open L f) (F \<union> loop_facts L f) d \<and>
         code_wf (freeze C (live f) (f_handlers f) (f_code f) ds (U \<union> loop_open L f) d) (live f1)
           (f_handlers f1) (f_code f1) ds' {} {} (Suc d))"
    and h: "h = \<lparr>h_start = length (f_code f), h_end = length (f_code f1), h_target = Suc (length (f_code f1)), h_depth = 0\<rparr>"
    and f2: "f2 = f1\<lparr>f_chunk := c, f_handlers := f_handlers f1 @ [h]\<rparr>" "code c = f_code f1 @ [Jump t]"
      "handlers c = []"
  shows "pt C L (insert (length (f_code f1)) U) (insert (Site (length (f_code f1)) (Suc d)) F) (Suc d) f2"
proof -
  let ?n = "length (f_code f1)" and ?F = "insert (Site (length (f_code f1)) (Suc d)) F"
  have same: "f_cx f2 = f_cx f1" "handlers (f_chunk f2) = []" "f_code f2 = f_code f1 @ [Jump t]" "f_handlers f2 = f_handlers f1 @ [h]"
    "live f2 = live f1" "slots_ok f2 = slots_ok f1" "loop_facts L f2 = loop_facts L f"
    "loop_open L f2 = loop_open L f" "aligned L f2 = aligned L f"
    using f2 f1(3) by (simp_all add: live_def [abs_def] slots_ok_def loop_facts_def loop_open_def aligned_def)
  have bc: "length (b_code C) \<le> length (f_code f)" "take (length (b_code C)) (f_code f) = b_code C"
    using p by (simp_all add: pt_def)
  then have "take (length (b_code C)) (f_code f1) = b_code C"
    using f1(2) by (metis min.absorb1 take_take)
  with bc f1(1) have "take (length (b_code C)) (f_code f1 @ [Jump t]) = b_code C" by simp
  moreover have "f_code f1 ! s = f_code f ! s" if "s < length (f_code f)" for s
    using nth_take [OF that, of "f_code f1"] f1(2) by simp
  with p f1(1) bc(1) have "sites_ok C (f_code f1 @ [Jump t]) (?F \<union> loop_facts L f)"
    unfolding pt_def sites_ok_def by (fastforce simp: nth_append retarget_def)
  moreover have "\<exists>ds. code_wf C (live f1) (f_handlers f1 @ [h]) (f_code f1 @ [Jump t]) ds
      (insert ?n U \<union> loop_open L f) (?F \<union> loop_facts L f) (Suc d)" if "f_diags f1 = []"
  proof -
    from ok [OF that] obtain ds ds' where
      wf: "code_wf C (live f) (f_handlers f) (f_code f) ds (U \<union> loop_open L f) (F \<union> loop_facts L f) d"
        "code_wf (freeze C (live f) (f_handlers f) (f_code f) ds (U \<union> loop_open L f) d) (live f1)
           (f_handlers f1) (f_code f1) ds' {} {} (Suc d)" by blast
    note pr = code_wf_protect [OF wf fl h, of t]
    have "code_wf C (live f1) (f_handlers f1 @ [h]) (f_code f1 @ [Jump t]) (ds' @ [Suc d])
        (insert ?n U \<union> loop_open L f) (?F \<union> loop_facts L f) (Suc d)"
      by (rule code_wf_mono [OF pr(1)]) (use pr(2) in auto)
    then show ?thesis by blast
  qed
  ultimately show ?thesis using p ok f1(1) bc(1) unfolding pt_def same by auto
qed

lemma bind_protect:
  assumes c: "\<And>C' os. b_structs C' = b_structs C \<Longrightarrow> b_floor C' = d \<Longrightarrow> moves C' ([], os) d c (Suc d)"
    and fl: "b_floor C \<le> d"
    and k: "\<And>leave. spec (pt C L (insert leave U) (insert (Site leave (Suc d)) F) (Suc d)) (k leave) Q"
  shows "spec (pt C L U F d) (gbind here (\<lambda>start. gbind c (\<lambda>_. gbind here (\<lambda>stop.
      gbind (emit (Jump t) sp) (\<lambda>leave. gbind here (\<lambda>target.
      gbind (add_handler start stop target) (\<lambda>_. k leave))))))) Q"
  unfolding spec_def
proof (intro allI impI)
  fix f assume p: "pt C L U F d f"
  from pt_freeze [OF p] obtain C' where C': "b_structs C' = b_structs C" "b_floor C' = d"
    "pt C' ([], f_loops f) {} {} d f"
    "\<And>f1 d'. pt C' ([], f_loops f) {} {} d' f1 \<Longrightarrow>
       length (f_code f) \<le> length (f_code f1) \<and> take (length (f_code f)) (f_code f1) = f_code f \<and>
       f_loops f1 = f_loops f \<and> handlers (f_chunk f1) = [] \<and>
       (f_diags f1 = [] \<longrightarrow> f_diags f = [] \<and> b_clean C \<and> slots_ok f1 \<and> cx_good (b_structs C) True (f_cx f1) \<and>
          (\<exists>ds ds'. code_wf C (live f) (f_handlers f) (f_code f) ds (U \<union> loop_open L f) (F \<union> loop_facts L f) d \<and>
             code_wf (freeze C (live f) (f_handlers f) (f_code f) ds (U \<union> loop_open L f) d) (live f1)
               (f_handlers f1) (f_code f1) ds' {} {} d'))"
    using fl by blast
  let ?g = "gbind here (\<lambda>start. gbind c (\<lambda>_. gbind here (\<lambda>stop.
      gbind (emit (Jump t) sp) (\<lambda>leave. gbind here (\<lambda>target.
      gbind (add_handler start stop target) (\<lambda>_. k leave))))))"
  from c [OF C'(1,2)] have "spec (pt C' ([], f_loops f) {} {} d) c (\<lambda>_. pt C' ([], f_loops f) {} {} (Suc d))"
    by (rule moves_spec)
  with C'(3) have cf: "case c f of Inl p \<Rightarrow> benign p | Inr (x, f1) \<Rightarrow> pt C' ([], f_loops f) {} {} (Suc d) f1"
    unfolding spec_def by blast
  show "case ?g f of Inl p \<Rightarrow> benign p | Inr (x, s') \<Rightarrow> Q x s'"
  proof (cases "length (f_code f) < 2 ^ 32")
    case short: True
    show ?thesis
    proof (cases "c f")
      case (Inl q)
      with cf short show ?thesis by (simp add: gbind_def here_def)
    next
      case (Inr r)
      obtain u f1 where r: "r = (u, f1)" by (cases r)
      with cf Inr have p1: "pt C' ([], f_loops f) {} {} (Suc d) f1" by simp
      note t1 = C'(4) [OF p1]
      show ?thesis
      proof (cases "Suc (length (f_code f1)) < 2 ^ 32")
        case False
        with short Inr r show ?thesis
          by (auto simp: gbind_def here_def emit_def chunk_push_def split: option.splits)
      next
        case True
        let ?h = "\<lparr>h_start = length (f_code f), h_end = length (f_code f1), h_target = Suc (length (f_code f1)), h_depth = 0\<rparr>"
        let ?c = "(f_chunk f1)\<lparr>code := f_code f1 @ [Jump t], spans := spans (f_chunk f1) @ [sp]\<rparr>"
        let ?f2 = "f1\<lparr>f_chunk := ?c, f_handlers := f_handlers f1 @ [?h]\<rparr>"
        have e: "?g f = k (length (f_code f1)) ?f2"
          using short Inr r True
          by (simp add: gbind_def here_def emit_def chunk_push_def add_handler_def gmodify_def)
        have "pt C L (insert (length (f_code f1)) U) (insert (Site (length (f_code f1)) (Suc d)) F) (Suc d) ?f2"
          by (rule pt_protect [OF p fl _ _ _ _ refl refl]) (use t1 in auto)
        with k e show ?thesis by (simp add: spec_def)
      qed
    qed
  qed (simp add: gbind_def here_def)
qed

section \<open>The rules together\<close>

lemmas cg_rules =
  seq_moves bind_moves seq_emit seq_patch bind_patch bind_jump_if_false bind_jump_or_pop bind_jump_test
  bind_alloc bind_slot_of bind_here seq_done ret_done

end
