(* ===== verification/Codegen_Sound.thy ===== *)
theory Codegen_Sound
  imports Codegen_Rules
begin

text \<open>
  What each helper of the code generator does to the operand stack: an expression pushes one value, a
  statement none, a pattern test consumes the value it tests on both outcomes.
\<close>

section \<open>Normal form of steps\<close>

lemma gbind_assoc: "gbind (gbind g k) h = gbind g (\<lambda>x. gbind (k x) h)"
  by (rule ext) (simp add: gbind_def split: sum.split)

lemma gret_bind: "gbind (gret x) k = k x"
  by (rule ext) (simp add: gbind_def gret_def)

lemmas steps = cg_seq.simps gbind_assoc gret_bind

lemma bind_emit:
  assumes "holds F \<Longrightarrow> fine C F op d" and "\<exists>x. transition op (b_structs C) = Some (x, None) \<or> transition op (b_structs C) = None"
    and "d' = after C op d" and "\<And>x. spec (pt C L U F d') (k x) Q"
  shows "spec (pt C L U F d) (gbind (emit_op op sp) k) Q"
  using spec_bind [OF spec_emit] assms by blast

lemma bind_ending:
  assumes "ending op" and "b_floor C + 1 \<le> d" and "d' \<le> Suc d" and "\<And>x. spec (pt C L U F d') (k x) Q"
  shows "spec (pt C L U F d) (gbind (emit_op op sp) k) Q"
  using spec_bind [OF spec_emit_ending] assms by blast

lemma emit_done:
  assumes "holds F \<Longrightarrow> fine C F op d" and "\<exists>x. transition op (b_structs C) = Some (x, None) \<or> transition op (b_structs C) = None"
    and "d' = after C op d" and "U \<subseteq> U'" and "F' \<subseteq> F"
  shows "spec (pt C L U F d) (emit_op op sp) (\<lambda>_. pt C L U' F' d')"
  by (rule spec_weaken [OF spec_emit assms(4,5)]) (use assms(1-3) in auto)

lemma patch_done:
  assumes "\<forall>s \<in> set sites. Site s d \<in> F" and "U - set sites \<subseteq> U'" and "F' \<subseteq> F"
  shows "spec (pt C L U F d) (patch_here sites) (\<lambda>_. pt C L U' F' d)"
  by (rule spec_conseq [OF spec_patch_here [OF assms(1)]]) (use assms(2,3) in \<open>auto elim: pt_weaken\<close>)

lemma bind_expect: "(\<And>y. x = Some y \<Longrightarrow> spec P (k y) Q) \<Longrightarrow> spec P (gbind (gexpect MissingEntry x) k) Q"
  by (cases x) (auto simp: spec_def gbind_def gexpect_def gpanic_def gret_def)

lemma moves_done: "moves C L d g d' \<Longrightarrow> U \<subseteq> U' \<Longrightarrow> F' \<subseteq> F \<Longrightarrow> spec (pt C L U F d) g (\<lambda>_. pt C L U' F' d')"
  by (rule spec_weaken) (rule moves_spec)

named_theorems moving \<open>steps that leave loops, open jumps and facts alone\<close>

lemmas bind_rules =
  bind_emit bind_patch bind_jump_if_false bind_jump_or_pop bind_jump_test bind_alloc bind_slot_of bind_here
  bind_expect bind_moves ret_done emit_done patch_done moves_done

section \<open>Constants, calls and slots\<close>

lemma moves_emit [moving]:
  assumes "fine C {} op d" and "d' = after C op d"
  shows "moves C L d (emit_op op sp) d'"
  by (rule movesI, rule emit_done) (use assms in \<open>auto simp: fine_def\<close>)

lemma moves_emit_const [moving]: "b_floor C \<le> d \<Longrightarrow> moves C L d (emit_const k sp) (Suc d)"
  unfolding emit_const_def
  by (rule movesI) (rule bind_on_cx [OF cx_step_const], rule emit_done, auto simp: op_eval)

lemma moves_call_builtin [moving]:
  "b_floor C + n \<le> d \<Longrightarrow> d' = Suc (d - n) \<Longrightarrow> moves C L d (call_builtin name n sp) d'"
  unfolding call_builtin_def
  by (rule movesI) (rule bind_expect, rule emit_done, auto simp: op_eval)

lemma moves_emit_raise [moving]: "b_floor C \<le> d \<Longrightarrow> moves C L d (emit_raise name message sp) (Suc d)"
  unfolding emit_raise_def steps
  by (rule movesI) (rule moves_emit_const bind_rules | (simp add: op_eval; fail))+

lemma moves_emit_fatal [moving]: "b_floor C \<le> d \<Longrightarrow> moves C L d (emit_fatal message sp) (Suc d)"
  unfolding emit_fatal_def by (rule moving)

lemma moves_assert_failed [moving]: "b_floor C \<le> d \<Longrightarrow> moves C L d (emit_assert_failed message sp) (Suc d)"
  unfolding emit_assert_failed_def by (rule moving)

lemma moves_load_bool: "b_floor C \<le> d \<Longrightarrow> moves C L d (emit_op (if v then LoadTrue else LoadFalse) sp) (Suc d)"
  by (cases v) (simp_all add: moves_emit op_eval)

lemma moves_discard [moving]:
  assumes "\<And>c. c \<in> set cs \<Longrightarrow> moves C L d c (Suc d)" and fl: "b_floor C \<le> d"
  shows "moves C L d (discard cs sp) d"
  unfolding discard_def
proof (rule moves_each)
  fix g assume "g \<in> set (map (\<lambda>c. cg_seq [c, emit_op Pop sp]) cs)"
  then obtain c where c: "moves C L d c (Suc d)" and g: "g = cg_seq [c, emit_op Pop sp]" using assms(1) by auto
  show "moves C L d g d"
    unfolding g steps by (rule movesI) (rule c bind_rules | (simp add: op_eval fl; fail))+
qed

lemma moves_bind_local [moving]: "b_floor C \<le> d \<Longrightarrow> moves C L (Suc d) (bind_local G l sp) d"
  unfolding bind_local_def by (rule movesI, rule bind_slot_of, rule emit_done) (auto simp: op_eval)

lemma moves_load_local [moving]: "b_floor C \<le> d \<Longrightarrow> moves C L d (load_local G l sp) (Suc d)"
  unfolding load_local_def by (rule movesI, rule bind_slot_of, rule emit_done) (auto simp: op_eval)

lemma moves_store_local [moving]: "b_floor C \<le> d \<Longrightarrow> moves C L (Suc d) (store_local G l sp) d"
  unfolding store_local_def by (rule movesI, rule bind_slot_of, rule emit_done) (auto simp: op_eval)

lemma moves_capture_local [moving]: "b_floor C \<le> d \<Longrightarrow> moves C L d (capture_local l sp) (Suc d)"
  unfolding capture_local_def by (rule movesI, rule bind_slot_of, rule emit_done) (auto simp: op_eval)

lemma moves_load_self [moving]:
  assumes fl: "b_floor C \<le> d"
  shows "moves C L d (load_self sp) (Suc d)"
  unfolding load_self_def
proof (rule movesI, rule bind_self_slot)
  fix U F slot
  show "spec (pt C L U (insert (Live slot) F) d)
      (case Some slot of None \<Rightarrow> emit_fatal ''brasa: `self` outside a method'' sp | Some s \<Rightarrow> emit_op (LoadLocal s) sp)
      (\<lambda>_. pt C L U F (Suc d))"
    by (simp, rule emit_done) (auto simp: op_eval fl)
qed (use fl in \<open>simp add: moves_spec moves_emit_fatal\<close>)

section \<open>Pattern tests\<close>

text \<open>A test consumes the value on top; where it fails, its open jumps arrive with the value consumed.\<close>

definition sites_at :: "code_ix list \<Rightarrow> nat \<Rightarrow> fact set" where
  "sites_at xs e = (\<lambda>s. Site s e) ` set xs"

lemma sites_at_simps [simp]:
  "sites_at [] e = {}" "sites_at (x # xs) e = insert (Site x e) (sites_at xs e)"
  "sites_at (xs @ ys) e = sites_at xs e \<union> sites_at ys e"
  by (auto simp: sites_at_def)

definition tests :: "frozen \<Rightarrow> loop_ctx \<Rightarrow> nat \<Rightarrow> test \<Rightarrow> bool" where
  "tests C L d t \<longleftrightarrow>
     (\<forall>U F. spec (pt C L U F (Suc d)) t (\<lambda>fails. pt C L (set fails \<union> U) (sites_at fails d \<union> F) d))"

lemma bind_tests:
  "tests C L d t \<Longrightarrow> (\<And>fails. spec (pt C L (set fails \<union> U) (sites_at fails d \<union> F) d) (k fails) Q) \<Longrightarrow>
     spec (pt C L U F (Suc d)) (gbind t k) Q"
  by (rule spec_bind) (auto simp: tests_def)

lemma ret_sites:
  "set xs \<union> U0 \<supseteq> U \<Longrightarrow> sites_at xs d0 \<union> F0 \<subseteq> F \<Longrightarrow>
     spec (pt C L U F d) (gret xs) (\<lambda>fails. pt C L (set fails \<union> U0) (sites_at fails d0 \<union> F0) d)"
  by (rule spec_ret) (auto elim: pt_weaken)

lemma spec_cleanup:
  assumes fl: "b_floor C \<le> d" and dirty: "sites_at dirty (Suc d) \<subseteq> F"
  shows "spec (pt C L U F d) (cleanup dirty sp)
    (\<lambda>fails. pt C L (set fails \<union> (U - set dirty)) (sites_at fails d \<union> F) d)"
proof (cases "dirty = []")
  case True
  then show ?thesis by (auto simp: cleanup_def intro!: ret_sites)
next
  case False
  have d: "\<forall>s \<in> set dirty. Site s (Suc d) \<in> F" using dirty by (auto simp: sites_at_def)
  show ?thesis
    unfolding cleanup_def if_not_P [OF False] emit_fail_def steps
    apply (rule bind_jump [where d' = "Suc d"], simp add: fl, simp)
    apply (rule bind_patch, simp add: d)
    apply (rule bind_emit, simp add: op_eval fl, simp add: op_eval, simp add: op_eval)
    apply (rule bind_jump [where d' = d], simp add: fl, simp)
    apply (rule bind_patch, simp)
    apply (rule ret_sites)
     apply auto
    done
qed

lemma sites_done:
  "spec P g (\<lambda>fails. pt C L (set fails \<union> A) (sites_at fails e \<union> B) d) \<Longrightarrow> A \<subseteq> A' \<Longrightarrow> B' \<subseteq> B \<Longrightarrow>
     spec P g (\<lambda>fails. pt C L (set fails \<union> A') (sites_at fails e \<union> B') d)"
  by (erule spec_conseq) (auto elim: pt_weaken)

lemma testsI:
  "(\<And>U F. spec (pt C L U F (Suc d)) t (\<lambda>fails. pt C L (set fails \<union> U) (sites_at fails d \<union> F) d)) \<Longrightarrow> tests C L d t"
  by (simp add: tests_def)

lemma tests_no_fails: "moves C L (Suc d) g d \<Longrightarrow> tests C L d (no_fails g)"
  unfolding no_fails_def by (rule testsI) (rule bind_moves, assumption, rule ret_sites, auto)

lemma spec_init_tests:
  assumes fl: "b_floor C \<le> d" and project: "project \<in> {TupleField, EnumField}"
  shows "(\<And>t. t \<in> set ts \<Longrightarrow> tests C L (Suc d) t) \<Longrightarrow>
    spec (pt C L U F (Suc d)) (init_tests project sp ix ts)
      (\<lambda>fs. pt C L (set fs \<union> U) (sites_at fs (Suc d) \<union> F) (Suc d))"
proof (induction ts arbitrary: ix U F)
  case Nil
  then show ?case by (auto intro!: ret_sites)
next
  case (Cons t ts)
  have t: "tests C L (Suc d) t" by (rule Cons.prems) simp
  have ih: "spec (pt C L U F (Suc d)) (init_tests project sp ix ts)
      (\<lambda>fs. pt C L (set fs \<union> U) (sites_at fs (Suc d) \<union> F) (Suc d))" for U F ix
    by (rule Cons.IH) (rule Cons.prems, simp)
  show ?case
    unfolding init_tests.simps steps
    apply (rule bind_emit, simp add: op_eval fl, simp add: op_eval, simp add: op_eval)
    apply (rule bind_emit [where d' = "Suc (Suc d)"])
       apply (use project fl in \<open>auto simp: op_eval\<close>) [3]
    apply (rule bind_tests [OF t])
    apply (rule spec_bind [OF ih])
    apply (rule ret_sites)
     apply auto
    done
qed

lemma spec_compound_test:
  assumes fl: "b_floor C \<le> d" and project: "project \<in> {TupleField, EnumField}"
    and ts: "\<And>t e. t \<in> set ts \<Longrightarrow> b_floor C \<le> e \<Longrightarrow> tests C L e t"
    and dirty: "sites_at dirty (Suc d) \<subseteq> F"
  shows "spec (pt C L U F (Suc d)) (compound_test ts project dirty sp)
    (\<lambda>fails. pt C L (set fails \<union> (U - set dirty)) (sites_at fails d \<union> F) d)"
proof (cases "ts = []")
  case True
  then show ?thesis
    unfolding compound_test_def if_P [OF True]
    by (intro bind_emit [where d' = d] spec_cleanup fl dirty) (simp_all add: op_eval fl)
next
  case False
  have init: "tests C L (Suc d) t" if "t \<in> set (butlast ts)" for t
    using ts [of t "Suc d"] that fl by (simp add: in_set_butlastD)
  have last: "tests C L d (last ts)" using ts fl False by simp
  show ?thesis
    unfolding compound_test_def if_not_P [OF False]
    apply (rule spec_bind [OF spec_init_tests [OF fl project init]], assumption)
    apply (rule bind_emit [where d' = "Suc d"])
       apply (use project fl in \<open>auto simp: op_eval\<close>) [3]
    apply (rule bind_tests [OF last])
    apply (rule spec_bind [OF spec_cleanup [OF fl]])
     apply (use dirty in \<open>auto simp: sites_at_def\<close>) [1]
    apply (rule ret_sites)
     apply auto
    done
qed

lemma tests_literal:
  assumes fl: "b_floor C \<le> d"
  shows "tests C L d (literal_test l sp)"
proof -
  have "moves C L (Suc d) (case l of
         LInt v \<Rightarrow> cg_seq [emit_const (KInt v) sp, emit_op EqInt sp]
       | LFloat v \<Rightarrow> cg_seq [emit_const (KFloat v) sp, emit_op EqFloat sp]
       | LBool v \<Rightarrow> cg_seq [emit_op (if v then LoadTrue else LoadFalse) sp, emit_op EqBool sp]
       | LChar v \<Rightarrow> cg_seq [emit_const (KChar v) sp, emit_op Eq sp]
       | LStr v \<Rightarrow> cg_seq [emit_const (KStr v) sp, emit_op Eq sp]) (Suc d)"
    by (rule movesI, cases l; simp only: literal.case steps;
      (rule moves_load_bool moves_emit_const bind_moves bind_emit ret_done | (simp add: op_eval fl le_SucI; fail))+)
  then show ?thesis
    unfolding literal_test_def emit_fail_def
    by (intro testsI) (rule bind_moves, assumption, rule bind_jump_if_false, rule fl, rule ret_sites, auto)
qed

lemma tests_some:
  assumes fl: "b_floor C \<le> d" and ts: "\<And>t. t \<in> set ts \<Longrightarrow> tests C L d t"
  shows "tests C L d (some_test ts sp)"
proof -
  let ?g = "case ts of
         [payload] \<Rightarrow> payload
       | [] \<Rightarrow> no_fails (emit_op Pop sp)
       | _ \<Rightarrow> gbind (emit_op Pop sp) (\<lambda>_. emit_fail (Jump placeholder) sp)"
  have g: "tests C L d ?g"
  proof (cases ts)
    case Nil
    then show ?thesis by (simp add: tests_no_fails moves_emit op_eval fl)
  next
    case (Cons t us)
    show ?thesis
    proof (cases us)
      case Nil
      with ts Cons show ?thesis by simp
    next
      case (Cons u vs)
      have "tests C L d (gbind (emit_op Pop sp) (\<lambda>_. emit_fail (Jump placeholder) sp))"
        unfolding emit_fail_def
        by (rule testsI) (rule bind_emit, (simp add: op_eval fl)+, rule bind_jump [where d' = d],
          simp_all add: fl, rule ret_sites, auto)
      with Cons \<open>ts = t # us\<close> show ?thesis by simp
    qed
  qed
  show ?thesis
    unfolding some_test_def
    apply (rule testsI)
    apply (rule bind_jump_test [where t = placeholder], simp, rule fl)
    apply (rule bind_emit, simp add: op_eval fl, simp add: op_eval, simp add: op_eval)
    apply (rule bind_tests [OF g])
    apply (rule spec_bind [OF spec_cleanup [OF fl]])
     apply simp
    apply (rule ret_sites)
     apply auto
    done
qed

lemma tests_none:
  assumes fl: "b_floor C \<le> d"
  shows "tests C L d (none_test sp)"
  unfolding none_test_def emit_fail_def steps
  apply (rule testsI)
  apply (rule bind_jump_test [where t = placeholder], simp, rule fl)
  apply (rule bind_emit, simp add: op_eval fl, simp add: op_eval, simp add: op_eval)
  apply (rule bind_jump [where d' = "Suc d"], simp add: fl, simp)
  apply (rule bind_patch, simp)
  apply (rule bind_emit, simp add: op_eval fl, simp add: op_eval, simp add: op_eval)
  apply (rule ret_sites)
   apply auto
  done

lemma tests_ctor:
  assumes fl: "b_floor C \<le> d" and ts: "\<And>t e. t \<in> set ts \<Longrightarrow> b_floor C \<le> e \<Longrightarrow> tests C L e t"
  shows "tests C L d (ctor_test r ts sp)"
proof -
  have no: "tests C L d (no_fails (cg_seq [emit_op Pop sp, emit_fatal ''brasa: unresolved constructor pattern'' sp,
      emit_op Pop sp]))"
    unfolding steps
    by (rule tests_no_fails, rule movesI) (rule moves_emit_fatal bind_rules | (simp add: op_eval fl; fail))+
  have var: "tests C L d (gbind (emit (JumpIfVariantNe n placeholder) sp) (\<lambda>wrong.
      compound_test ts EnumField [wrong] sp))" for n
    apply (rule testsI)
    apply (rule bind_jump_test [where t = placeholder and n = n], simp, rule fl)
    apply (rule sites_done [OF spec_compound_test [OF fl _ ts]])
         apply auto
    done
  show ?thesis
    unfolding ctor_test_def
    by (cases r) (auto split: ctor_res.split intro: no var tests_some [OF fl] tests_none [OF fl] ts fl)
qed

lemma tests_pattern: "b_floor C \<le> d \<Longrightarrow> tests C L d (pattern_test G p)"
proof (induction G p arbitrary: d rule: pattern_test.induct)
  case (1 G i sp)
  then show ?case by (simp add: tests_no_fails moves_emit op_eval)
next
  case (2 G i sp)
  then show ?case
    by (cases "pattern_locals (g_res G) i") (simp_all add: tests_no_fails moves_emit moves_bind_local op_eval)
next
  case (3 G i sp l)
  then show ?case by (simp add: tests_literal)
next
  case (4 G i sp es)
  show ?case
    unfolding pattern_test.simps
    by (rule testsI, rule sites_done [OF spec_compound_test]) (use 4 in auto)
next
  case (5 G i sp args)
  then show ?case
    unfolding pattern_test.simps by (intro tests_ctor) auto
qed

lemma moves_for_binding:
  assumes fl: "b_floor C \<le> d"
  shows "moves C L (Suc d) (for_binding G p sp) d"
  unfolding for_binding_def
proof (rule movesI, rule bind_tests [OF tests_pattern [OF fl]])
  fix U F and fails :: "code_ix list"
  show "spec (pt C L (set fails \<union> U) (sites_at fails d \<union> F) d)
     (if fails = [] then gret ()
      else gbind (emit (Jump placeholder) sp) (\<lambda>matched.
        cg_seq [patch_here fails, emit_assert_failed ''`for` pattern did not match the element'' sp,
          emit_op Pop sp, patch_here [matched]])) (\<lambda>_. pt C L U F d)"
  proof (cases "fails = []")
    case True
    then show ?thesis by (simp add: ret_done)
  next
    case False
    have s: "\<forall>s \<in> set fails. Site s d \<in> insert (Site m d) (sites_at fails d \<union> F)" for m
      by (simp add: sites_at_def)
    show ?thesis
      unfolding if_not_P [OF False] steps
      apply (rule bind_jump [where d' = d], simp add: fl, simp)
      apply (rule bind_patch, rule s)
      apply (rule bind_moves [OF moves_assert_failed], rule fl)
      apply (rule bind_emit, simp add: op_eval fl, simp add: op_eval, simp add: op_eval)
      apply (rule bind_patch, simp)
      apply (rule ret_done)
       apply auto
      done
  qed
qed

section \<open>Matches\<close>

lemma spec_guard_jump:
  assumes fl: "b_floor C \<le> d" and g: "\<And>c. c_guard = Some c \<Longrightarrow> moves C L d c (Suc d)"
  shows "spec (pt C L U F d) (guard_jump c_guard sp) (\<lambda>u. pt C L (set u \<union> U) (sites_at u d \<union> F) d)"
proof (cases c_guard)
  case None
  then show ?thesis by (simp add: guard_jump_def ret_sites)
next
  case (Some c)
  show ?thesis
    unfolding guard_jump_def Some option.case emit_fail_def
    by (rule bind_moves [OF g [OF Some]], rule bind_jump_if_false, rule fl, rule ret_sites, auto)
qed

text \<open>Arms of a match and of a catch: the value is consumed and replaced by the value of the body.\<close>

definition arm_moves :: "frozen \<Rightarrow> loop_ctx \<Rightarrow> nat \<Rightarrow> code_gen option \<Rightarrow> code_gen \<Rightarrow> bool" where
  "arm_moves C L d c_guard c_body \<longleftrightarrow>
     (\<forall>c. c_guard = Some c \<longrightarrow> moves C L (Suc d) c (Suc (Suc d))) \<and> moves C L d c_body (Suc d)"

lemma spec_arm_body:
  assumes fl: "b_floor C \<le> d" and arm: "arm_moves C L d c_guard c_body"
    and k: "\<And>unguarded leave. spec (pt C L (insert leave (set unguarded \<union> U)) (insert (Site leave (Suc d)) (sites_at unguarded (Suc d) \<union> F)) (Suc d))
      (k unguarded leave) Q"
  shows "spec (pt C L U F (Suc d)) (gbind (guard_jump c_guard sp) (\<lambda>unguarded.
      gbind (cg_seq [emit_op Pop sp, c_body]) (\<lambda>_. gbind (emit (Jump t) sp) (k unguarded)))) Q"
proof -
  have b: "moves C L d c_body (Suc d)" and g: "c_guard = Some c \<Longrightarrow> moves C L (Suc d) c (Suc (Suc d))" for c
    using arm by (simp_all add: arm_moves_def)
  show ?thesis
    unfolding steps
    apply (rule spec_bind [OF spec_guard_jump [OF _ g]], simp add: fl le_SucI, assumption)
    apply (rule bind_emit, simp add: op_eval fl, simp add: op_eval, simp add: op_eval)
    apply (rule bind_moves [OF b])
    apply (rule bind_jump [where d' = "Suc d"], simp add: fl le_SucI, simp)
    apply (rule k)
    done
qed

lemma spec_match_arms:
  assumes fl: "b_floor C \<le> d"
  shows "(\<And>t g b. (t, g, b) \<in> set arms \<Longrightarrow> tests C L (Suc d) t \<and> arm_moves C L d g b) \<Longrightarrow>
    spec (pt C L (set nexts \<union> set outs \<union> U) (sites_at nexts (Suc d) \<union> sites_at outs (Suc d) \<union> F) (Suc d))
      (match_arms sp arms nexts outs)
      (\<lambda>(nexts, outs). pt C L (set nexts \<union> set outs \<union> U) (sites_at nexts (Suc d) \<union> sites_at outs (Suc d) \<union> F) (Suc d))"
proof (induction arms arbitrary: nexts outs F)
  case Nil
  then show ?case by (auto intro: spec_ret)
next
  case (Cons arm arms)
  obtain t g b where arm: "arm = (t, g, b)" by (cases arm)
  have t: "tests C L (Suc d) t" and gb: "arm_moves C L d g b" using Cons.prems [of t g b] arm by simp_all
  have ih: "spec (pt C L (set nexts \<union> set outs \<union> U) (sites_at nexts (Suc d) \<union> sites_at outs (Suc d) \<union> F) (Suc d))
      (match_arms sp arms nexts outs)
      (\<lambda>(nexts, outs). pt C L (set nexts \<union> set outs \<union> U) (sites_at nexts (Suc d) \<union> sites_at outs (Suc d) \<union> F) (Suc d))" for nexts outs F
    by (rule Cons.IH) (rule Cons.prems, simp)
  have s: "\<forall>x \<in> set nexts. Site x (Suc d) \<in> sites_at nexts (Suc d) \<union> A \<union> B" for A B by (simp add: sites_at_def)
  show ?case
    unfolding match_arms.simps arm prod.case
    apply (subst cg_seq.simps, subst cg_seq.simps, subst cg_seq.simps)
    apply (simp only: gbind_assoc gret_bind)
    apply (rule bind_patch, rule s)
    apply (rule bind_emit, simp add: op_eval fl le_SucI, simp add: op_eval, simp add: op_eval)
    apply (rule bind_tests [OF t])
    apply (rule spec_arm_body [OF fl gb])
    apply (rule spec_pre [OF ih [where F = F]])
    apply (erule pt_weaken)
     apply auto
    done
qed

lemma moves_match [moving]:
  assumes fl: "b_floor C \<le> d" and c: "moves C L d c_scrutinee (Suc d)"
    and arms: "\<And>t g b. (t, g, b) \<in> set arms \<Longrightarrow> tests C L (Suc d) t \<and> arm_moves C L d g b"
  shows "moves C L d (cg_match c_scrutinee arms sp) (Suc d)"
  unfolding cg_match_def
proof (rule movesI, rule bind_moves [OF c])
  fix U F
  have s: "\<forall>x \<in> set xs. Site x (Suc d) \<in> sites_at ys (Suc d) \<union> sites_at zs (Suc d) \<union> F"
    if "xs = ys \<or> xs = zs" for xs ys zs using that by (auto simp: sites_at_def)
  have leave: "spec (pt C L (set nexts \<union> set outs \<union> U) (sites_at nexts (Suc d) \<union> sites_at outs (Suc d) \<union> F) (Suc d))
      (cg_seq [patch_here nexts, emit_op Pop sp, emit_assert_failed ''no match arm matched the value'' sp, patch_here outs])
      (\<lambda>_. pt C L U F (Suc d))" for nexts outs
    unfolding steps
    apply (rule bind_patch, rule s, simp)
    apply (rule bind_emit, simp add: op_eval fl, simp add: op_eval, simp add: op_eval)
    apply (rule bind_moves [OF moves_assert_failed], rule fl)
    apply (rule bind_patch, rule s, simp)
    apply (rule ret_done)
     apply auto
    done
  show "spec (pt C L U F (Suc d)) (gbind (match_arms sp arms [] []) (\<lambda>(nexts, outs).
       cg_seq [patch_here nexts, emit_op Pop sp, emit_assert_failed ''no match arm matched the value'' sp,
         patch_here outs])) (\<lambda>_. pt C L U F (Suc d))"
  proof (rule spec_bind)
    have "spec (pt C L (set [] \<union> set [] \<union> U) (sites_at [] (Suc d) \<union> sites_at [] (Suc d) \<union> F) (Suc d))
        (match_arms sp arms [] []) (\<lambda>(nexts, outs).
        pt C L (set nexts \<union> set outs \<union> U) (sites_at nexts (Suc d) \<union> sites_at outs (Suc d) \<union> F) (Suc d))"
      by (rule spec_match_arms [OF fl]) (rule arms)
    then show "spec (pt C L U F (Suc d)) (match_arms sp arms [] []) (\<lambda>(nexts, outs).
        pt C L (set nexts \<union> set outs \<union> U) (sites_at nexts (Suc d) \<union> sites_at outs (Suc d) \<union> F) (Suc d))"
      by simp
  qed (auto split: prod.split intro: leave)
qed

section \<open>Catches\<close>

lemma bind_catch_test:
  assumes fl: "b_floor C \<le> d"
    and k: "\<And>fail F'. F \<subseteq> F' \<Longrightarrow> Site fail (Suc d) \<in> F' \<Longrightarrow> spec (pt C L (insert fail U) F' (Suc d)) (k fail) Q"
  shows "spec (pt C L U F (Suc d)) (gbind (catch_test G key t sp) (\<lambda>(fail, bind_op).
      gbind (emit_binding G bind_op binding sp) (\<lambda>_. k fail))) Q"
proof -
  have b: "moves C L (Suc d) (emit_binding G bind_op binding sp) (Suc d)" if "bind_op \<in> {CaughtValue, CaughtDetail}" for bind_op
  proof -
    have e: "moves C L (Suc d) (emit_op bind_op sp) (Suc (Suc d))"
      using that fl by (auto intro!: moves_emit simp: op_eval)
    have p: "moves C L (Suc (Suc d)) (emit_op Pop sp) (Suc d)" by (rule moves_emit) (auto simp: op_eval fl le_SucI)
    have "moves C L (Suc (Suc d)) (case binding of Some l \<Rightarrow> bind_local G l sp | None \<Rightarrow> emit_op Pop sp) (Suc d)"
      using p fl by (cases binding) (auto intro: moves_bind_local le_SucI)
    then show ?thesis
      unfolding emit_binding_def by (rule moves_seq [OF e moves_seq [OF _ moves_seq_Nil]])
  qed
  show ?thesis
  proof (cases t)
    case (CtWildcard w)
    show ?thesis
      unfolding CtWildcard catch_test_def catch_type.case steps prod.case
      by (rule bind_jump_test [where t = placeholder], simp, rule fl, rule bind_moves [OF b], simp, rule k, auto)
  next
    case (CtNamed name w)
    show ?thesis
      unfolding CtNamed catch_test_def catch_type.case steps prod.case const_string_def
      by (rule bind_on_cx [OF cx_step_const], rule bind_jump_test [where t = placeholder], simp, rule fl,
          rule bind_moves [OF b], simp, rule k, auto)
  qed
qed

lemma spec_patch_if:
  assumes "sites_at xs d \<subseteq> F"
  shows "spec (pt C L U F d) (if xs = [] then gret () else patch_here xs) (\<lambda>_. pt C L (U - set xs) F d)"
  using assms by (auto simp: sites_at_def intro: ret_done spec_patch_here)

lemma spec_more:
  assumes fl: "b_floor C \<le> d"
  shows "spec (pt C L U F d) (if b then gret [] else emit_fail (Jump t) sp) (\<lambda>more. pt C L (set more \<union> U) (sites_at more d \<union> F) d)"
proof (cases b)
  case False
  then show ?thesis
    unfolding emit_fail_def if_not_P [OF False]
    by (intro bind_jump [where d' = d] fl ret_sites) auto
qed (simp add: ret_sites)

lemma spec_catch_tests:
  assumes fl: "b_floor C \<le> d"
  shows "spec (pt C L (set prev \<union> set matched \<union> U) (sites_at prev (Suc d) \<union> sites_at matched (Suc d) \<union> F) (Suc d))
      (catch_tests G i arm_ix binding sp ts ty_ix prev matched)
      (\<lambda>(prev, matched). pt C L (set prev \<union> set matched \<union> U) (sites_at prev (Suc d) \<union> sites_at matched (Suc d) \<union> F) (Suc d))"
proof (induction ts arbitrary: prev matched ty_ix)
  case Nil
  then show ?case by (auto intro: spec_ret)
next
  case (Cons t ts)
  show ?case
    unfolding catch_tests.simps
    apply (rule spec_bind [OF spec_patch_if], blast)
    apply (rule bind_catch_test [OF fl])
    apply (rule spec_bind [OF spec_more], simp add: fl le_SucI)
    apply (rule spec_pre [OF Cons.IH])
    apply (erule pt_weaken)
     apply auto
    done
qed

lemma spec_catch_arms:
  assumes fl: "b_floor C \<le> d"
  shows "(\<And>ts g b. (ts, g, b) \<in> set arms \<Longrightarrow> arm_moves C L d g b) \<Longrightarrow>
    spec (pt C L (set nexts \<union> set outs \<union> U) (sites_at nexts (Suc d) \<union> sites_at outs (Suc d) \<union> F) (Suc d))
      (catch_arms G i binding sp arms arm_ix nexts outs)
      (\<lambda>(nexts, outs). pt C L (set nexts \<union> set outs \<union> U) (sites_at nexts (Suc d) \<union> sites_at outs (Suc d) \<union> F) (Suc d))"
proof (induction arms arbitrary: nexts outs arm_ix)
  case Nil
  then show ?case by (auto intro: spec_ret)
next
  case (Cons arm arms)
  obtain ts g b where arm: "arm = (ts, g, b)" by (cases arm)
  have gb: "arm_moves C L d g b" using Cons.prems [of ts g b] arm by simp
  have ih: "spec (pt C L (set nexts \<union> set outs \<union> U) (sites_at nexts (Suc d) \<union> sites_at outs (Suc d) \<union> F) (Suc d))
      (catch_arms G i binding sp arms arm_ix nexts outs)
      (\<lambda>(nexts, outs). pt C L (set nexts \<union> set outs \<union> U) (sites_at nexts (Suc d) \<union> sites_at outs (Suc d) \<union> F) (Suc d))" for nexts outs arm_ix
    by (rule Cons.IH, rule Cons.prems, rule list.set_intros(2))
  have s: "\<forall>x \<in> set nexts. Site x (Suc d) \<in> sites_at nexts (Suc d) \<union> A \<union> B" for A B by (simp add: sites_at_def)
  let ?F = "sites_at nexts (Suc d) \<union> sites_at outs (Suc d) \<union> F" and ?U = "set nexts \<union> set outs \<union> U - set nexts"
  have tests: "spec (pt C L ?U ?F (Suc d)) (catch_tests G i arm_ix binding sp ts 0 [] [])
      (\<lambda>(prev, matched). pt C L (set prev \<union> set matched \<union> ?U) (sites_at prev (Suc d) \<union> sites_at matched (Suc d) \<union> ?F) (Suc d))"
    using spec_catch_tests [OF fl, of L "[]" "[]" ?U ?F G i arm_ix binding sp ts 0] by simp
  have rest: "spec (pt C L (set fail \<union> set matched \<union> ?U) (sites_at fail (Suc d) \<union> sites_at matched (Suc d) \<union> ?F) (Suc d))
      (gbind (patch_here matched) (\<lambda>_. gbind (guard_jump g sp) (\<lambda>unguarded.
        gbind (cg_seq [emit_op Pop sp, b]) (\<lambda>_. gbind (emit (Jump placeholder) sp) (\<lambda>leave.
          catch_arms G i binding sp arms (arm_ix + 1) (fail @ unguarded) (outs @ [leave]))))))
      (\<lambda>(nexts, outs). pt C L (set nexts \<union> set outs \<union> U) (sites_at nexts (Suc d) \<union> sites_at outs (Suc d) \<union> F) (Suc d))" for fail matched
    apply (rule bind_patch, simp add: sites_at_def)
    apply (rule spec_arm_body [OF fl gb])
    apply (rule spec_pre [OF ih])
    apply (erule pt_weaken)
     apply auto
    done
  show ?case
    unfolding catch_arms.simps arm prod.case
    apply (rule bind_patch, rule s)
    apply (rule spec_bind [OF tests])
    subgoal for x y by (cases y) (simp only: prod.case, rule rest)
    done
qed

lemma moves_catch [moving]:
  assumes fl: "b_floor C \<le> d"
    and c: "\<And>C' os. b_structs C' = b_structs C \<Longrightarrow> b_floor C' = d \<Longrightarrow> moves C' ([], os) d c_subject (Suc d)"
    and arms: "\<And>ts g b. (ts, g, b) \<in> set arms \<Longrightarrow> arm_moves C L d g b"
  shows "moves C L d (cg_catch G i c_subject arms sp) (Suc d)"
  unfolding cg_catch_def
proof (rule movesI, rule bind_protect [OF c fl])
  fix U F leave
  have s: "\<forall>x \<in> set xs. Site x (Suc d) \<in> sites_at ys (Suc d) \<union> sites_at zs (Suc d) \<union> F"
    if "xs = ys \<or> xs = zs" for xs ys zs using that by (auto simp: sites_at_def)
  have over: "spec (pt C L (set nexts \<union> set outs \<union> U) (sites_at nexts (Suc d) \<union> sites_at outs (Suc d) \<union> F) (Suc d))
      (cg_seq [patch_here nexts, emit_op Rethrow sp, patch_here outs]) (\<lambda>_. pt C L U F (Suc d))" for nexts outs
    unfolding steps
    apply (rule bind_patch, rule s, simp)
    apply (rule bind_ending [where d' = "Suc d"], simp add: op_eval, simp add: fl, simp)
    apply (rule bind_patch, rule s, simp)
    apply (rule ret_done)
     apply auto
    done
  show "spec (pt C L (insert leave U) (insert (Site leave (Suc d)) F) (Suc d))
      (gbind (catch_arms G i (catch_bindings (g_res G) i) sp arms 0 [] [leave]) (\<lambda>(nexts, outs).
        cg_seq [patch_here nexts, emit_op Rethrow sp, patch_here outs])) (\<lambda>_. pt C L U F (Suc d))"
  proof (rule spec_bind)
    have "spec (pt C L (set [] \<union> set [leave] \<union> U) (sites_at [] (Suc d) \<union> sites_at [leave] (Suc d) \<union> F) (Suc d))
        (catch_arms G i (catch_bindings (g_res G) i) sp arms 0 [] [leave]) (\<lambda>(nexts, outs).
        pt C L (set nexts \<union> set outs \<union> U) (sites_at nexts (Suc d) \<union> sites_at outs (Suc d) \<union> F) (Suc d))"
      by (rule spec_catch_arms [OF fl]) (rule arms)
    then show "spec (pt C L (insert leave U) (insert (Site leave (Suc d)) F) (Suc d))
        (catch_arms G i (catch_bindings (g_res G) i) sp arms 0 [] [leave]) (\<lambda>(nexts, outs).
        pt C L (set nexts \<union> set outs \<union> U) (sites_at nexts (Suc d) \<union> sites_at outs (Suc d) \<union> F) (Suc d))"
      by simp
  qed (auto split: prod.split intro: over)
qed assumption+

section \<open>Statements\<close>

text \<open>Where a jump out of the loop is possible: at the depth of the loop head, or outside any loop.\<close>

definition loop_ready :: "frozen \<Rightarrow> loop_ctx \<Rightarrow> nat \<Rightarrow> bool" where
  "loop_ready C L d \<longleftrightarrow>
     (case fst L of
        [] \<Rightarrow> snd L = []
      | hp # _ \<Rightarrow> fst hp = d \<and> (snd hp \<longrightarrow> b_floor C < d))"

lemma moves_let [moving]:
  assumes fl: "b_floor C \<le> d" and c: "moves C L d c_value (Suc d)"
  shows "moves C L d (cg_let G i c_value sp) d"
proof -
  have "moves C L (Suc d) (case stmt_locals (g_res G) i of Some l \<Rightarrow> bind_local G l sp | None \<Rightarrow> emit_op Pop sp) d"
    using fl by (auto intro: moves_bind_local moves_emit simp: op_eval split: option.split)
  then show ?thesis unfolding cg_let_def by (rule moves_seq [OF c moves_seq [OF _ moves_seq_Nil]])
qed

lemma moves_fatal_pop:
  assumes fl: "b_floor C \<le> d"
  shows "moves C L d (cg_seq [emit_fatal m sp, emit_op Pop sp]) d"
  unfolding steps by (rule movesI) (rule moves_emit_fatal bind_rules | (simp add: op_eval fl; fail))+

lemma moves_break [moving]:
  assumes fl: "b_floor C \<le> d" and r: "loop_ready C L d"
  shows "moves C L d (cg_break sp) d"
proof -
  obtain ls os where L: "L = (ls, os)" by (cases L)
  show ?thesis
  proof (cases ls)
    case Nil
    with r L show ?thesis
      unfolding cg_break_def
      by (intro movesI) (simp add: loop_ready_def, rule bind_no_loops, simp add: moves_spec moves_fatal_pop fl)
  next
    case (Cons hp ls')
    with r L have h: "fst hp = d" "snd hp \<Longrightarrow> b_floor C < d" by (auto simp: loop_ready_def)
    have pop: "moves C (hp # ls', os) d (if snd hp then emit_op Pop sp else gret ()) (exit_depth hp)"
    proof (cases "snd hp")
      case True
      with h show ?thesis by (auto intro!: moves_emit simp: exit_depth_def op_eval)
    next
      case False
      with h show ?thesis by (auto intro: movesI ret_done simp: exit_depth_def)
    qed
    have e: "b_floor C \<le> exit_depth hp" "d \<le> Suc (exit_depth hp)" using h fl by (auto simp: exit_depth_def)
    show ?thesis
      unfolding cg_break_def L Cons
      apply (rule movesI)
      apply (rule bind_loops)
      apply (simp only: list.case)
      apply (rule bind_moves [OF pop])
      apply (rule bind_jump [where d' = d], rule e, rule e)
      apply (rule spec_conseq [OF spec_add_break])
        prefer 2 apply assumption
       apply simp
      apply (erule pt_weaken)
       apply auto
      done
  qed
qed

lemma moves_continue [moving]:
  assumes fl: "b_floor C \<le> d" and r: "loop_ready C L d"
  shows "moves C L d (cg_continue sp) d"
proof -
  obtain ls os where L: "L = (ls, os)" by (cases L)
  show ?thesis
  proof (cases ls)
    case Nil
    with r L show ?thesis
      unfolding cg_continue_def
      by (intro movesI) (simp add: loop_ready_def, rule bind_no_loops, simp add: moves_spec moves_fatal_pop fl)
  next
    case (Cons hp ls')
    with r L have h: "fst hp = d" by (auto simp: loop_ready_def)
    show ?thesis
      unfolding cg_continue_def L Cons
      apply (rule movesI)
      apply (rule bind_loops)
      apply (simp only: list.case)
      apply (rule spec_weaken [OF spec_emit_back])
          apply (simp_all add: h fl)
      apply auto
      done
  qed
qed

lemma bind_gets: "(\<And>x. spec P (k x) Q) \<Longrightarrow> spec P (gbind (gets sel) k) Q"
  by (simp add: spec_def gbind_def gets_def)

lemma bind_back:
  assumes "Label t d \<in> F" and "b_floor C \<le> d" and "d' \<le> Suc d" and "\<And>x. spec (pt C L U F d') (k x) Q"
  shows "spec (pt C L U F d) (gbind (emit_op (Jump t) sp) k) Q"
  by (rule spec_bind [OF spec_emit_back]) (use assms in auto)

lemma bind_push_loop:
  assumes "Label head h \<in> F" and "\<And>x. spec (pt C ((h, pops) # ls, os) U F d) (k x) Q"
  shows "spec (pt C (ls, os) U F d) (gbind (push_loop head pops) k) Q"
  by (rule spec_bind [OF spec_push_loop]) (use assms in auto)

text \<open>The end of a loop: its breaks and its exit arrive at the exit.\<close>

lemma spec_loop_exit:
  assumes e: "e = exit_depth hp" and x: "Site out e \<in> F" and F': "F' \<subseteq> F"
  shows "spec (pt C (hp # ls, os) (insert out U) F e) (gbind pop_loop (\<lambda>l. patch_here (out # lp_breaks l)))
    (\<lambda>_. pt C (ls, os) U F' e)"
  by (rule spec_bind [OF spec_pop_loop], rule patch_done) (use e x F' in auto)

lemma moves_while [moving]:
  assumes fl: "b_floor C \<le> d" and c: "moves C (ls, os) d c_cond (Suc d)"
    and b: "moves C ((d, False) # ls, os) d c_body d"
  shows "moves C (ls, os) d (cg_while c_cond c_body sp) d"
  unfolding cg_while_def steps
  apply (rule movesI)
  apply (rule bind_here)
  apply (rule bind_moves [OF c])
  apply (rule bind_jump_if_false, rule fl)
  apply (rule bind_push_loop [where h = d], simp)
  apply (rule bind_moves [OF b])
  apply (rule bind_back [where d' = d], simp, rule fl, simp)
  apply (rule spec_loop_exit)
    apply (auto simp: exit_depth_def)
  done

lemma bind_iter_next:
  assumes fl: "b_floor C \<le> d"
    and k: "\<And>head. spec (pt C L (insert head U) (insert (Site head d) (insert (Label head (Suc d)) F)) (Suc (Suc d))) (k head) Q"
  shows "spec (pt C L U F (Suc d)) (gbind (emit (IterNext t) sp) k) Q"
  unfolding spec_def
proof (intro allI impI)
  fix f assume p: "pt C L U F (Suc d) f"
  let ?n = "length (f_code f)"
  have "spec (pt C L U F (Suc d)) (gbind here (\<lambda>p. gret p)) (\<lambda>p. pt C L U (insert (Label p (Suc d)) F) (Suc d))"
    by (rule bind_here) (rule spec_ret)
  with p have l: "?n < 2 ^ 32 \<Longrightarrow> pt C L U (insert (Label ?n (Suc d)) F) (Suc d) f"
    by (auto simp: spec_def gbind_def here_def gret_def)
  show "case gbind (emit (IterNext t) sp) k f of Inl p \<Rightarrow> benign p | Inr (x, s') \<Rightarrow> Q x s'"
  proof (cases "emit (IterNext t) sp f")
    case (Inl q)
    then show ?thesis by (auto simp: gbind_def emit_def split: option.splits)
  next
    case (Inr r)
    obtain ix f' where r: "r = (ix, f')" by (cases r)
    from emit_shape [OF Inr [unfolded r]] have ix: "ix = ?n" "?n < 2 ^ 32" by simp_all
    have "spec (pt C L U (insert (Label ?n (Suc d)) F) (Suc d)) (emit (IterNext t) sp)
        (\<lambda>site. pt C L (insert site U) (insert (Site site d) (insert (Label ?n (Suc d)) F)) (Suc (Suc d)))"
      by (rule spec_jump) (use fl in \<open>auto simp: retarget_def transition_def needs_def\<close>)
    with l [OF ix(2)] Inr r ix(1)
    have "pt C L (insert ix U) (insert (Site ix d) (insert (Label ix (Suc d)) F)) (Suc (Suc d)) f'"
      by (fastforce simp: spec_def)
    with k [of ix] Inr r show ?thesis by (simp add: spec_def gbind_def)
  qed
qed

lemma moves_for [moving]:
  assumes fl: "b_floor C \<le> d" and c: "moves C (ls, os) d c_iterable (Suc d)"
    and b: "moves C ((Suc d, True) # ls, os) (Suc d) c_body (Suc d)"
  shows "moves C (ls, os) d (cg_for G p c_iterable c_body sp) d"
  unfolding cg_for_def steps
  apply (rule movesI)
  apply (rule bind_moves [OF c])
  apply (rule bind_emit, simp add: op_eval fl, simp add: op_eval, simp add: op_eval)
  apply (rule bind_iter_next, rule fl)
  apply (rule bind_push_loop [where h = "Suc d"], simp)
  apply (rule bind_moves [OF moves_for_binding], simp add: fl le_SucI)
  apply (rule bind_moves [OF b])
  apply (rule bind_back [where d' = d], simp, simp add: fl le_SucI, simp)
  apply (rule spec_loop_exit)
    apply (auto simp: exit_depth_def)
  done

lemma moves_return [moving]:
  assumes fl: "b_floor C \<le> d" and c: "\<And>c. c_value = Some c \<Longrightarrow> moves C L d c (Suc d)"
  shows "moves C L d (cg_return c_value sp) d"
proof -
  have v: "moves C L d (case c_value of Some c \<Rightarrow> c | None \<Rightarrow> emit_op LoadUnit sp) (Suc d)"
    using c fl by (cases c_value) (auto intro!: moves_emit simp: op_eval)
  have p: "moves C L d (cg_seq [c, emit_op Pop sp]) d" if "moves C L d c (Suc d)" for c
    unfolding steps by (rule movesI) (rule that bind_rules | (simp add: op_eval fl; fail))+
  have dr: "moves C L d (case c_value of Some c \<Rightarrow> cg_seq [c, emit_op Pop sp] | None \<Rightarrow> gret ()) d"
    using c p by (cases c_value) (auto intro: movesI ret_done)
  have ret: "moves C L (Suc d) (emit_op Ret sp) d"
    by (rule movesI, rule spec_emit_ending) (use fl in \<open>auto simp: op_eval\<close>)
  have one: "moves C L d (cg_seq [g, emit_op Ret sp]) d" if "moves C L d g (Suc d)" for g
    by (rule moves_seq [OF that moves_seq [OF ret moves_seq_Nil]])
  have unit: "moves C L d (emit_op LoadUnit sp) (Suc d)" using fl by (auto intro!: moves_emit simp: op_eval)
  have two: "moves C L d (cg_seq [g, emit_op LoadUnit sp, emit_op Ret sp]) d" if "moves C L d g d" for g
    by (rule moves_seq [OF that moves_seq [OF unit moves_seq [OF ret moves_seq_Nil]]])
  have pop: "moves C L (Suc d) (emit_op Pop sp) d" using fl by (auto intro!: moves_emit simp: op_eval)
  have three: "moves C L d (cg_seq [g, emit_fatal m sp, emit_op Pop sp]) d" if "moves C L d g d" for g m
    by (rule moves_seq [OF that moves_seq [OF moves_emit_fatal [OF fl] moves_seq [OF pop moves_seq_Nil]]])
  show ?thesis
    unfolding cg_return_def
    by (rule movesI, rule bind_gets) (auto simp: Let_def intro!: moves_spec one two three v dr)
qed

lemma spec_if_branches:
  assumes fl: "b_floor C \<le> d" and e: "e = d \<or> e = Suc d"
  shows "(\<And>c b. (c, b) \<in> set branches \<Longrightarrow> moves C L d c (Suc d) \<and> moves C L d b e) \<Longrightarrow>
    spec (pt C L (set outs \<union> U) (sites_at outs e \<union> F) d) (if_branches sp branches outs)
      (\<lambda>outs. pt C L (set outs \<union> U) (sites_at outs e \<union> F) d)"
proof (induction branches arbitrary: outs)
  case Nil
  then show ?case by (auto intro: spec_ret)
next
  case (Cons branch branches)
  obtain c b where branch: "branch = (c, b)" by (cases branch)
  have cb: "moves C L d c (Suc d)" "moves C L d b e" using Cons.prems [of c b] branch by simp_all
  have ih: "spec (pt C L (set outs \<union> U) (sites_at outs e \<union> F) d) (if_branches sp branches outs)
      (\<lambda>outs. pt C L (set outs \<union> U) (sites_at outs e \<union> F) d)" for outs
    by (rule Cons.IH, rule Cons.prems, rule list.set_intros(2))
  show ?case
    unfolding if_branches.simps branch prod.case
    apply (rule bind_moves [OF cb(1)])
    apply (rule bind_jump_if_false, rule fl)
    apply (rule bind_moves [OF cb(2)])
    apply (rule bind_jump [where d' = d])
      apply (use e fl in auto) [2]
    apply (rule bind_patch, simp)
    apply (rule spec_pre [OF ih])
    apply (erule pt_weaken)
     apply auto
    done
qed

lemma moves_if_tail:
  assumes fl: "b_floor C \<le> d" and e: "e = d \<or> e = Suc d"
    and br: "\<And>c b. (c, b) \<in> set branches \<Longrightarrow> moves C L d c (Suc d) \<and> moves C L d b e"
    and last: "moves C L d g e"
  shows "moves C L d (gbind (if_branches sp branches []) (\<lambda>outs. cg_seq [g, patch_here outs])) e"
proof (rule movesI, rule spec_bind)
  fix U F
  have "spec (pt C L (set [] \<union> U) (sites_at [] e \<union> F) d) (if_branches sp branches [])
      (\<lambda>outs. pt C L (set outs \<union> U) (sites_at outs e \<union> F) d)"
    by (rule spec_if_branches [OF fl e]) (rule br)
  then show "spec (pt C L U F d) (if_branches sp branches [])
      (\<lambda>outs. pt C L (set outs \<union> U) (sites_at outs e \<union> F) d)" by simp
  fix outs
  have "\<forall>s \<in> set outs. Site s e \<in> sites_at outs e \<union> F" by (simp add: sites_at_def)
  then show "spec (pt C L (set outs \<union> U) (sites_at outs e \<union> F) d) (cg_seq [g, patch_here outs]) (\<lambda>_. pt C L U F e)"
    unfolding steps by (intro bind_moves [OF last] bind_patch ret_done) auto
qed

lemma moves_if_stmt [moving]:
  assumes fl: "b_floor C \<le> d" and br: "\<And>c b. (c, b) \<in> set branches \<Longrightarrow> moves C L d c (Suc d) \<and> moves C L d b d"
    and els: "\<And>c. c_else = Some c \<Longrightarrow> moves C L d c d"
  shows "moves C L d (cg_if_stmt branches c_else sp) d"
  unfolding cg_if_stmt_def
  by (rule moves_if_tail [OF fl _ br]) (use els in \<open>auto split: option.split intro: movesI ret_done\<close>)

lemma moves_if_value [moving]:
  assumes fl: "b_floor C \<le> d" and br: "\<And>c b. (c, b) \<in> set branches \<Longrightarrow> moves C L d c (Suc d) \<and> moves C L d b (Suc d)"
    and els: "\<And>c. c_else = Some c \<Longrightarrow> moves C L d c (Suc d)"
  shows "moves C L d (cg_if_value branches c_else sp) (Suc d)"
  unfolding cg_if_value_def
  by (rule moves_if_tail [OF fl _ br]) (use els fl in \<open>auto split: option.split intro!: moves_emit simp: op_eval\<close>)

end
