(* ===== verification/Codegen_Values.thy ===== *)
theory Codegen_Values
  imports Codegen_Sound
begin

text \<open>
  Functions compiled on their own, decoders, and the helpers that lower counted literals and
  operators.
\<close>

section \<open>Finished functions\<close>

definition finished :: "struct_shape list \<Rightarrow> bool \<Rightarrow> fcx \<Rightarrow> bool" where
  "finished S b f \<longleftrightarrow>
     (\<exists>f0 d sp. pt (fresh S b) ([], []) {} {} (Suc d) f0 \<and> emit_op Ret sp f0 = Inr ((), f))"

lemma spec_finish: "spec (pt (fresh S b) ([], []) {} F (Suc d)) (emit_op Ret sp) (\<lambda>_. finished S b)"
  unfolding spec_def
proof (intro allI impI)
  fix f assume p: "pt (fresh S b) ([], []) {} F (Suc d) f"
  then have "pt (fresh S b) ([], []) {} {} (Suc d) f" by (rule pt_weaken) simp_all
  note p0 = this
  show "case emit_op Ret sp f of Inl p \<Rightarrow> benign p | Inr (x, f') \<Rightarrow> finished S b f'"
  proof (cases "emit_op Ret sp f")
    case (Inl q)
    then show ?thesis by (auto simp: emit_op_def gbind_def emit_def gret_def split: option.splits)
  next
    case (Inr r)
    then have "emit_op Ret sp f = Inr ((), snd r)" by (cases r) simp
    with p0 have "finished S b (snd r)" unfolding finished_def by blast
    with Inr show ?thesis by (cases r) simp
  qed
qed

lemma fresh_pt:
  assumes "small_structs S" and "cx_good S b c"
  shows "pt (fresh S b) ([], []) {} {} 0 (fcx_new c kind)"
proof -
  have "\<exists>ds. code_wf (fresh S b) lv [] [] ds {} {} 0" for lv using code_wf_fresh by blast
  moreover have "b_structs (fresh S b) = S" "b_code (fresh S b) = []" "b_clean (fresh S b) = b"
    by (simp_all add: fresh_def)
  ultimately show ?thesis
    using assms by (auto simp: pt_def no_loops sites_ok_def slots_ok_def cx_good_def fcx_new_def chunk_new_def)
qed

lemma finish_checked:
  assumes fin: "finished S b f" and G: "g_structs G = S"
  shows "case finish_fn G name a n sp f of Inl p \<Rightarrow> benign p | Inr (fn, c) \<Rightarrow> cx_good S (b \<and> check_fn S fn) c"
proof -
  obtain f0 d sp' where p: "pt (fresh S b) ([], []) {} {} (Suc d) f0" and e: "emit_op Ret sp' f0 = Inr ((), f)"
    using fin unfolding finished_def by blast
  from e obtain ix where e': "emit Ret sp' f0 = Inr (ix, f)"
    by (auto simp: emit_op_def gbind_def gret_def split: sum.splits prod.splits)
  from emit_shape [OF e'] obtain ch where f: "f = f0\<lparr>f_chunk := ch\<rparr>" "f_code f = f_code f0 @ [Ret]"
    "handlers ch = handlers (f_chunk f0)" and len: "length (f_code f0) < 2 ^ 32" by blast
  have hs: "handlers (f_chunk f) = []" using p f by (simp add: pt_def)
  have nodiag: "case finish_fn G name a n sp f of Inl p \<Rightarrow> benign p | Inr (fn, c) \<Rightarrow> cx_good S (b \<and> check_fn S fn) c"
    if "f_diags f \<noteq> [] \<or> f_exhausted f"
    using that
    by (auto simp: finish_fn_def report_exhausted_def report_def gmodify_def gret_def gbind_def fix_depths_def cx_good_def)
  show ?thesis
  proof (cases "f_diags f \<noteq> [] \<or> f_exhausted f")
    case False
    then have nd: "f_diags f0 = []" "f_exhausted f0 = False" using f(1) by simp_all
    from p nd obtain ds where b: b and cg: "cx_good S True (f_cx f0)"
      and wf: "code_wf (fresh S b) (live f0) (f_handlers f0) (f_code f0) ds {} {} (Suc d)"
      by (auto simp: pt_def no_loops fresh_def)
    from finished_analyse [OF wf len] obtain depths mx hs2 where
      an: "analyse True (f_code f0 @ [Ret]) (f_handlers f0) S = Some (depths, mx, hs2)" by blast
    have an': "analyse (g_debug G) (f_code f0 @ [Ret]) (f_handlers f0) S = Some (depths, mx, hs2)"
      by (rule analyse_release [OF an])
    let ?fn = "\<lparr>fn_name = name, arity = a, captures = n, locals = f_next f, max_stack = mx,
        fn_chunk = foldl (\<lambda>c h. push_handler h c) (f_chunk f) hs2\<rparr>"
    have ph: "handlers (foldl (\<lambda>c h. push_handler h c) c hs) = handlers c @ hs"
      "code (foldl (\<lambda>c h. push_handler h c) c hs) = code c" for c hs
      by (induction hs arbitrary: c) (simp_all add: push_handler_def)
    have "check_fn S ?fn" if "mx \<le> u16_max"
      by (rule finished_checked [OF wf len an that]) (use f hs nd(2) in \<open>simp_all add: ph live_def\<close>)
    with False f(1,2) an' b cg G show ?thesis
      by (auto simp: finish_fn_def report_exhausted_def report_def gmodify_def gret_def gbind_def fix_depths_def
          cx_good_def finalize_def)
  qed (rule nodiag)
qed

lemma cx_build_if:
  assumes S: "small_structs S" and G: "g_structs G = S"
    and body: "\<And>b. (b \<Longrightarrow> R) \<Longrightarrow> spec (pt (fresh S b) ([], []) {} {} 0) body (\<lambda>_. finished S b)"
  shows "spec (cx_good S (b \<and> R)) (build_fn G kind name a n sp body) (\<lambda>fn. cx_good S ((b \<and> R) \<and> check_fn S fn))"
  unfolding spec_def
proof (intro allI impI)
  fix c assume "cx_good S (b \<and> R) c"
  from fresh_pt [OF S this, of kind] body [of "b \<and> R"]
  have r: "case body (fcx_new c kind) of Inl p \<Rightarrow> benign p | Inr (x, f) \<Rightarrow> finished S (b \<and> R) f"
    unfolding spec_def by blast
  show "case build_fn G kind name a n sp body c of Inl p \<Rightarrow> benign p
      | Inr (fn, c') \<Rightarrow> cx_good S ((b \<and> R) \<and> check_fn S fn) c'"
  proof (cases "body (fcx_new c kind)")
    case (Inl p)
    with r show ?thesis by (simp add: build_fn_def)
  next
    case (Inr q)
    with r finish_checked [OF _ G] show ?thesis by (cases q) (simp add: build_fn_def)
  qed
qed

lemma cx_step_define_if:
  assumes "R \<Longrightarrow> check_fn S fn"
  shows "spec (cx_good S (b \<and> R)) (define_function G func fn) (\<lambda>_. cx_good S b)"
  using cx_step_define [OF assms] by (simp add: spec_def)

lemma cx_build_define:
  assumes S: "small_structs S" and G: "g_structs G = S"
    and body: "\<And>b. (b \<Longrightarrow> R) \<Longrightarrow> spec (pt (fresh S b) ([], []) {} {} 0) body (\<lambda>_. finished S b)"
  shows "spec (cx_good S (b \<and> R)) (gbind (build_fn G kind name a n sp body) (define_function G func)) (\<lambda>_. cx_good S (b \<and> R))"
  by (rule spec_bind [OF cx_build_if [OF S G body]], assumption, rule cx_step_define_if)

text \<open>What a function on its own may assume of the report that preceded it.\<close>

lemma spec_clean:
  assumes "spec (pt C L U (insert (Cond (b_clean C)) F) d) g Q"
  shows "spec (pt C L U F d) g Q"
proof (rule spec_pre [OF assms])
  fix f assume p: "pt C L U F d f"
  have "code_wf C (live f) (f_handlers f) (f_code f) ds (U \<union> loop_open L f) (insert (Cond (b_clean C)) F \<union> loop_facts L f) d"
    if "code_wf C (live f) (f_handlers f) (f_code f) ds (U \<union> loop_open L f) (F \<union> loop_facts L f) d" "b_clean C" for ds
    by (rule code_wf_mono [OF that(1)]) (use that(2) in \<open>auto simp: fact_ok_def\<close>)
  moreover have "sites_ok C (f_code f) (insert (Cond (b_clean C)) F \<union> loop_facts L f)"
    using p unfolding pt_def sites_ok_def by blast
  ultimately show "pt C L U (insert (Cond (b_clean C)) F) d f" using p unfolding pt_def by blast
qed

section \<open>Counted instructions\<close>

text \<open>A step that pushes one value wherever the operands of its context are left alone.\<close>

definition pusher :: "frozen \<Rightarrow> loop_ctx \<Rightarrow> code_gen \<Rightarrow> bool" where
  "pusher C L c \<longleftrightarrow> (\<forall>n. b_floor C \<le> n \<longrightarrow> moves C L n c (Suc n))"

lemma pusherD: "pusher C L c \<Longrightarrow> b_floor C \<le> d \<Longrightarrow> moves C L d c (Suc d)"
  by (simp add: pusher_def)

lemma moves_pushers:
  assumes "\<And>c. c \<in> set cs \<Longrightarrow> pusher C L c" and "b_floor C \<le> d"
  shows "moves C L d (cg_seq cs) (d + length cs)"
  using moves_pushing [of cs d C L 1] assms by (auto simp: pusher_def)

lemma emit_narrowed:
  assumes "holds F \<Longrightarrow> fine C F op d \<and> d' = after C op d"
    and "\<exists>x. transition op (b_structs C) = Some (x, None) \<or> transition op (b_structs C) = None"
    and "U \<subseteq> U'" and "F' \<subseteq> F"
  shows "spec (pt C L U F d) (emit_op op sp) (\<lambda>_. pt C L U' F' d')"
  by (rule spec_weaken [OF spec_emit assms(3,4)]) (use assms(1,2) in auto)

lemma holds_insert: "holds (insert (Cond b) F) \<longleftrightarrow> b \<and> holds F"
  by (auto simp: holds_def)

lemma moves_counted:
  assumes "\<And>m. \<exists>x. transition (op m) (b_structs C) = Some (x, None) \<or> transition (op m) (b_structs C) = None"
    and "fine C {} (op n) d" and "d' = after C (op n) d"
  shows "moves C L d (emit_counted n op sp) d'"
  unfolding emit_counted_def
  by (rule movesI, rule bind_on_cx [OF cx_steps(1)], rule emit_narrowed)
    (use assms in \<open>auto simp: holds_insert fine_def\<close>)

lemma moves_elements:
  assumes "\<And>m. \<exists>x. transition (op m) (b_structs C) = Some (x, None) \<or> transition (op m) (b_structs C) = None"
    and "moves C L d (cg_seq cs) e" and "fine C {} (op n) e" and "d' = after C (op n) e"
  shows "moves C L d (cg_elements what u n op cs sp) d'"
proof -
  have "cx_step (b_structs C) (narrow max_elements n (report k m l sp)) (\<lambda>x. x = n \<and> n \<le> max_elements)" for k m l
    by (rule cx_step_narrow) (rule cx_step_report)
  note n = this
  show ?thesis
    unfolding cg_elements_def element_count_def
    by (rule movesI, rule bind_moves [OF assms(2)], rule bind_on_cx [OF n], rule emit_narrowed)
      (use assms in \<open>auto simp: holds_insert fine_def\<close>)
qed

section \<open>Decoders\<close>

lemma spec_raise_decode:
  assumes fl: "b_floor C \<le> d" and s: "Live path \<in> F" "Live found \<in> F"
  shows "spec (pt C L U F d) (raise_decode path expected found sp) (\<lambda>_. pt C L U F (Suc d))"
  unfolding raise_decode_def steps
  by (rule moves_emit_const moves_call_builtin bind_rules | (simp add: op_eval fl s le_SucI; fail))+

lemma spec_unwrap_or_raise:
  assumes fl: "b_floor C \<le> d" and s: "Live slot \<in> F" "Live path \<in> F"
  shows "spec (pt C L U F d) (unwrap_or_raise slot accessor expected path sp) (\<lambda>_. pt C L U F (Suc d))"
  unfolding unwrap_or_raise_def steps
  apply (rule bind_emit, simp add: op_eval fl s, simp add: op_eval, simp add: op_eval)
  apply (rule bind_moves [OF moves_call_builtin [where d' = "Suc d"]], simp add: fl, simp)
  apply (rule bind_jump_test [where t = placeholder], simp, rule fl)
  apply (rule bind_emit, simp add: op_eval fl, simp add: op_eval, simp add: op_eval)
  apply (rule bind_jump [where d' = "Suc d"], simp add: fl le_SucI, simp)
  apply (rule bind_patch, simp)
  apply (rule bind_emit, simp add: op_eval fl, simp add: op_eval, simp add: op_eval)
  apply (rule spec_bind [OF spec_raise_decode], rule fl, simp add: s, simp add: s)
  apply (rule bind_patch, simp)
  apply (rule ret_done)
   apply auto
  done

lemma spec_index_path:
  assumes fl: "b_floor C \<le> d" and s: "Live path \<in> F" "Live index \<in> F" "Live out \<in> F"
  shows "spec (pt C L U F d) (index_path path index out sp) (\<lambda>_. pt C L U F d)"
  unfolding index_path_def steps
  by (rule moves_emit_const bind_rules | (simp add: op_eval fl s le_SucI; fail))+

lemma spec_decode_optional:
  assumes fl: "b_floor C \<le> d" and s: "Live slot \<in> F"
    and inner: "\<And>U F'. F \<subseteq> F' \<Longrightarrow> spec (pt C L U F' d) c_inner (\<lambda>_. pt C L U F' (Suc d))"
  shows "spec (pt C L U F d) (decode_optional c_inner slot sp) (\<lambda>_. pt C L U F (Suc d))"
  unfolding decode_optional_def steps
  apply (rule bind_emit, simp add: op_eval fl s, simp add: op_eval, simp add: op_eval)
  apply (rule bind_jump_test [where t = placeholder], simp, rule fl)
  apply (rule bind_emit, simp add: op_eval fl, simp add: op_eval, simp add: op_eval)
  apply (rule bind_emit, simp add: op_eval fl s, simp add: op_eval, simp add: op_eval)
  apply (rule bind_moves [OF moves_call_builtin [where d' = "Suc d"]], simp add: fl, simp)
  apply (rule bind_jump_if_false, rule fl)
  apply (rule bind_jump [where d' = d], rule fl, simp)
  apply (rule bind_patch, simp)
  apply (rule spec_bind [OF inner], blast)
  apply (rule bind_emit, simp add: op_eval fl, simp add: op_eval, simp add: op_eval)
  apply (rule bind_jump [where d' = "Suc d"], simp add: fl le_SucI, simp)
  apply (rule bind_patch, simp)
  apply (rule bind_emit, simp add: op_eval fl, simp add: op_eval, simp add: op_eval)
  apply (rule bind_patch, simp)
  apply (rule bind_emit, simp add: op_eval fl, simp add: op_eval, simp add: op_eval)
  apply (rule bind_patch, simp)
  apply (rule ret_done)
   apply auto
  done

lemma spec_decode_vector:
  assumes fl: "b_floor C \<le> d" and s: "Live slot \<in> F" "Live path \<in> F"
    and elem: "\<And>entry entry_path n U F'. b_floor C \<le> n \<Longrightarrow> Live entry \<in> F' \<Longrightarrow> Live entry_path \<in> F' \<Longrightarrow>
      spec (pt C L U F' n) (c_elem entry entry_path) (\<lambda>_. pt C L U F' (Suc n))"
  shows "spec (pt C L U F d) (decode_vector c_elem slot path sp) (\<lambda>_. pt C L U F (Suc d))"
  unfolding decode_vector_def steps
  apply (rule bind_alloc)+
  apply (rule spec_bind [OF spec_unwrap_or_raise], rule fl, simp add: s, simp add: s)
  apply (rule bind_emit, simp add: op_eval fl, simp add: op_eval, simp add: op_eval)+
  apply (rule bind_moves [OF moves_emit_const], rule fl)
  apply (rule bind_emit, simp add: op_eval fl, simp add: op_eval, simp add: op_eval)+
  apply (rule bind_moves [OF moves_call_builtin [where d' = "Suc d"]], simp add: fl, simp)
  apply (rule bind_emit, simp add: op_eval fl, simp add: op_eval, simp add: op_eval)+
  apply (rule bind_here)
  apply (rule bind_emit, simp add: op_eval fl le_SucI, simp add: op_eval, simp add: op_eval)+
  apply (rule bind_jump_if_false, rule fl)
  apply (rule bind_emit, simp add: op_eval fl le_SucI, simp add: op_eval, simp add: op_eval)+
  apply (rule spec_bind [OF spec_index_path], rule fl, simp add: s, simp, simp)
  apply (rule bind_emit, simp add: op_eval fl le_SucI, simp add: op_eval, simp add: op_eval)+
  apply (rule spec_bind [OF elem], simp add: fl le_SucI, simp, simp)
  apply (rule bind_moves [OF moves_call_builtin [where d' = "Suc d"]], simp add: fl, simp)
  apply (rule bind_emit, simp add: op_eval fl le_SucI, simp add: op_eval, simp add: op_eval)+
  apply (rule bind_moves [OF moves_emit_const], simp add: fl le_SucI)
  apply (rule bind_emit, simp add: op_eval fl le_SucI, simp add: op_eval, simp add: op_eval)+
  apply (rule bind_back [where d' = d], simp, rule fl, simp)
  apply (rule bind_patch, simp)
  apply (rule bind_emit, simp add: op_eval fl le_SucI, simp add: op_eval, simp add: op_eval)+
  apply (rule ret_done)
   apply auto
  done

lemma spec_emit_decode:
  assumes dec: "\<And>i. cx_step (b_structs C) (dec i) (\<lambda>_. True)"
  shows "b_floor C \<le> d \<Longrightarrow> Live slot \<in> F \<Longrightarrow> Live path \<in> F \<Longrightarrow>
    spec (pt C L U F d) (emit_decode dec t slot path sp) (\<lambda>_. pt C L U F (Suc d))"
proof (induction t arbitrary: slot path d U F)
  case (TOption u)
  show ?case
    unfolding emit_decode.simps [of dec "TOption u"] ty.case
    by (rule spec_decode_optional, rule TOption.prems(1), rule TOption.prems(2), rule TOption.IH)
      (use TOption.prems in auto)
next
  case (TVector u)
  show ?case
    unfolding emit_decode.simps [of dec "TVector u"] ty.case
    by (rule spec_decode_vector) (use TVector in auto)
next
  case (TStruct i args)
  note fl = TStruct.prems
  show ?case
    unfolding emit_decode.simps [of dec "TStruct i args"] ty.case
  proof (rule bind_on_cx [OF dec])
    fix r
    show "spec (pt C L U (insert (Cond True) F) d)
        (case r of Some func \<Rightarrow> cg_seq [emit_op (LoadLocal slot) sp, emit_op (LoadLocal path) sp, emit_op (Call func 2) sp]
          | None \<Rightarrow> emit_fatal ''brasa: `json.decode` field struct has no decoder'' sp) (\<lambda>_. pt C L U F (Suc d))"
    proof (cases r)
      case None
      then show ?thesis using fl by (auto intro: moves_done moves_emit_fatal)
    next
      case (Some func)
      show ?thesis
        unfolding Some option.case steps
        by (rule bind_rules | (auto simp: op_eval fl le_SucI; fail))+
    qed
  qed
qed (simp_all add: emit_decode.simps spec_unwrap_or_raise moves_spec [OF moves_emit_fatal])

lemma spec_emit_prefix:
  assumes fl: "b_floor C \<le> d" and s: "Live prefix \<in> F" "Live path_slot \<in> F"
  shows "spec (pt C L U F d) (emit_prefix prefix sp) (\<lambda>_. pt C L U F d)"
  unfolding emit_prefix_def steps
  apply (rule bind_emit, simp add: op_eval fl s, simp add: op_eval, simp add: op_eval)
  apply (rule bind_moves [OF moves_call_builtin [where d' = "Suc d"]], simp add: fl, simp)
  apply (rule bind_moves [OF moves_emit_const], simp add: fl le_SucI)
  apply (rule bind_emit, simp add: op_eval fl, simp add: op_eval, simp add: op_eval)
  apply (rule bind_jump_if_false, rule fl)
  apply (rule bind_moves [OF moves_emit_const], rule fl)
  apply (rule bind_emit, simp add: op_eval fl s, simp add: op_eval, simp add: op_eval)
  apply (rule bind_jump [where d' = d], rule fl, simp)
  apply (rule bind_patch, simp)
  apply (rule bind_emit, simp add: op_eval fl s, simp add: op_eval, simp add: op_eval)
  apply (rule bind_moves [OF moves_emit_const], simp add: fl le_SucI)
  apply (rule bind_emit, simp add: op_eval fl s, simp add: op_eval, simp add: op_eval)+
  apply (rule bind_patch, simp)
  apply (rule ret_done)
   apply auto
  done

lemma spec_decode_field:
  assumes dec: "\<And>i. cx_step (b_structs C) (dec i) (\<lambda>_. True)" and fl: "b_floor C \<le> d"
    and s: "Live object \<in> F" "Live prefix \<in> F" "Live field_path \<in> F" "Live member \<in> F"
  shows "spec (pt C L U F d) (decode_field dec object prefix field_path member sp field) (\<lambda>_. pt C L U F (Suc d))"
  unfolding decode_field_def steps
  apply (rule bind_emit, simp add: op_eval fl s, simp add: op_eval, simp add: op_eval)
  apply (rule bind_moves [OF moves_emit_const], simp add: fl le_SucI)
  apply (rule bind_emit, simp add: op_eval fl s, simp add: op_eval, simp add: op_eval)+
  apply (rule bind_moves [OF moves_emit_const], simp add: fl le_SucI)
  apply (rule bind_emit, simp add: op_eval fl s, simp add: op_eval, simp add: op_eval)+
  apply (rule spec_bind [OF spec_emit_decode [OF dec fl]], simp add: s, simp add: s)
  apply (rule ret_done)
   apply auto
  done

text \<open>Steps that each push one value, with the facts they rely on.\<close>

lemma spec_pushing:
  "(\<And>g n. g \<in> set gs \<Longrightarrow> d \<le> n \<Longrightarrow> spec (pt C L U F n) g (\<lambda>_. pt C L U F (Suc n))) \<Longrightarrow>
     spec (pt C L U F d) (cg_seq gs) (\<lambda>_. pt C L U F (d + length gs))"
proof (induction gs arbitrary: d)
  case (Cons g gs)
  have "spec (pt C L U F (Suc d)) (cg_seq gs) (\<lambda>_. pt C L U F (Suc d + length gs))"
    by (rule Cons.IH) (rule Cons.prems, auto)
  moreover have "spec (pt C L U F d) g (\<lambda>_. pt C L U F (Suc d))" by (rule Cons.prems) simp_all
  ultimately show ?case by (auto intro: spec_seq_Cons)
qed (auto intro: spec_seq_Nil)

lemma make_struct_fine:
  "s < length S \<Longrightarrow> n = length (st_fields (S ! s)) \<Longrightarrow> b_structs C = S \<Longrightarrow> b_floor C \<le> d \<Longrightarrow>
     fine C F (MakeStruct s) (d + n) \<and> after C (MakeStruct s) (d + n) = Suc d"
  by (simp add: op_eval)

lemma make_struct_flow:
  "\<exists>x. transition (MakeStruct s) S = Some (x, None) \<or> transition (MakeStruct s) S = None"
  by (simp add: op_eval)

lemma spec_decoder_body:
  assumes dec: "\<And>i. cx_step S (dec i) (\<lambda>_. True)"
    and plan: "dp_struct plan < length S" "length (st_fields (S ! dp_struct plan)) = length (dp_fields plan)"
  shows "spec (pt (fresh S b) ([], []) {} {} 0) (decoder_body dec plan sp) (\<lambda>_. finished S b)"
proof -
  let ?C = "fresh S b"
  have C: "b_structs ?C = S" "b_floor ?C = 0" by (simp_all add: fresh_def)
  have two: "Live path_slot \<in> Live ` {..<param_count} \<union> F" "Live node_slot \<in> Live ` {..<param_count} \<union> F" for F
    by (simp_all add: path_slot_def node_slot_def param_count_def)
  show ?thesis
    unfolding decoder_body_def
    apply (rule spec_bind [OF spec_floor])
    apply (rule bind_alloc)+
    subgoal for u object prefix field_path member
    proof -
      let ?F = "insert (Live member) (insert (Live field_path) (insert (Live prefix) (insert (Live object)
          (Live ` {..<param_count} \<union> {}))))"
      have start: "spec (pt ?C ([], []) {} ?F 0)
          (cg_seq [unwrap_or_raise node_slot ''asObject'' ''object'' path_slot sp, emit_op (StoreLocal object) sp,
           emit_prefix prefix sp]) (\<lambda>_. pt ?C ([], []) {} ?F 0)"
        unfolding steps
        apply (rule spec_bind [OF spec_unwrap_or_raise], simp add: C, use two in blast, use two in blast)
        apply (rule bind_emit, simp add: op_eval C, simp add: op_eval, simp add: op_eval)
        apply (rule spec_bind [OF spec_emit_prefix], simp add: C, simp, use two in blast)
        apply (rule ret_done)
         apply auto
        done
      have each: "spec (pt ?C ([], []) {} ?F n) (decode_field dec object prefix field_path member sp field)
          (\<lambda>_. pt ?C ([], []) {} ?F (Suc n))" for field n
        by (rule spec_decode_field) (auto simp: C dec)
      have "spec (pt ?C ([], []) {} ?F 0) (cg_seq (map (decode_field dec object prefix field_path member sp) (dp_fields plan)))
          (\<lambda>_. pt ?C ([], []) {} ?F (0 + length (map (decode_field dec object prefix field_path member sp) (dp_fields plan))))"
      proof (rule spec_pushing)
        fix g n assume "g \<in> set (map (decode_field dec object prefix field_path member sp) (dp_fields plan))"
        then obtain field where "g = decode_field dec object prefix field_path member sp field" by auto
        then show "spec (pt ?C ([], []) {} ?F n) g (\<lambda>_. pt ?C ([], []) {} ?F (Suc n))" by (simp only: each)
      qed
      then have mid: "spec (pt ?C ([], []) {} ?F 0) (cg_seq (map (decode_field dec object prefix field_path member sp) (dp_fields plan)))
          (\<lambda>_. pt ?C ([], []) {} ?F (0 + length (dp_fields plan)))" by simp
      have last: "spec (pt ?C ([], []) {} ?F (0 + length (dp_fields plan)))
          (cg_seq [emit_op (MakeStruct (dp_struct plan)) sp, emit_op Ret sp]) (\<lambda>_. finished S b)"
        using make_struct_fine [OF plan(1) plan(2) [symmetric] C(1), of 0 ?F] C(2)
        by (intro spec_seq_Cons [OF spec_emit [where d' = "Suc 0"]] spec_seq_Cons [OF spec_finish] spec_seq_Nil make_struct_flow) auto
      show ?thesis
        by (rule spec_seq_append [OF start]) (rule spec_seq_append [OF mid last])
    qed
    done
qed

lemma plan_of_fits:
  "plan_of G i = Some plan \<Longrightarrow> dp_struct plan < length (g_structs G) \<and>
     length (st_fields (g_structs G ! dp_struct plan)) = length (dp_fields plan)"
  by (auto simp: plan_of_def split: option.splits if_splits)

lemma cx_step_decoder_of:
  assumes S: "small_structs S" and G: "g_structs G = S"
  shows "cx_step S (decoder_of G sp n i) (\<lambda>_. True)"
proof (induction n arbitrary: i)
  case 0
  show ?case by (simp add: cx_step_def)
next
  case (Suc n)
  have make: "cx_step S (gbind reserve_function (\<lambda>func.
                gbind (gmodify (\<lambda>c. c\<lparr>cx_decoder_of := (cx_decoder_of c)(i \<mapsto> func)\<rparr>)) (\<lambda>_.
                gbind (build_fn G (KFunc True) (''<json-decode:'' @ dp_name plan @ ''>'') 2 0 sp
                  (decoder_body (decoder_of G sp n) plan sp)) (\<lambda>fn.
                gbind (define_function G func fn) (\<lambda>_. gret (Some func)))))) (\<lambda>_. True)"
    if p: "plan_of G i = Some plan" for plan
    unfolding cx_step_def
  proof (rule allI, rule spec_bind)
    fix b
    show "spec (cx_good S b) reserve_function (\<lambda>_. cx_good S (b \<and> True))"
      using cx_step_reserve [of S] unfolding cx_step_def by blast
    fix func
    let ?put = "gmodify (\<lambda>c. c\<lparr>cx_decoder_of := (cx_decoder_of c)(i \<mapsto> func)\<rparr>)"
    let ?body = "decoder_body (decoder_of G sp n) plan sp"
    have put: "spec (cx_good S (b \<and> True)) ?put (\<lambda>_. cx_good S (b \<and> True))"
      by (simp add: spec_def gmodify_def cx_good_def)
    have body: "spec (pt (fresh S b) ([], []) {} {} 0) ?body (\<lambda>_. finished S b)" for b
      using plan_of_fits [OF p] G by (intro spec_decoder_body Suc.IH) auto
    have "spec (cx_good S (b \<and> True)) (gbind (gbind (build_fn G (KFunc True) (''<json-decode:'' @ dp_name plan @ ''>'') 2 0 sp ?body)
        (define_function G func)) (\<lambda>_. gret (Some func))) (\<lambda>_. cx_good S (b \<and> True))"
      by (rule spec_bind [OF cx_build_define [OF S G body]]) (rule spec_ret)
    then show "spec (cx_good S (b \<and> True)) (gbind ?put (\<lambda>_.
        gbind (build_fn G (KFunc True) (''<json-decode:'' @ dp_name plan @ ''>'') 2 0 sp ?body) (\<lambda>fn.
        gbind (define_function G func fn) (\<lambda>_. gret (Some func))))) (\<lambda>_. cx_good S (b \<and> True))"
      unfolding gbind_assoc by (intro spec_bind [OF put])
  qed
  have "cx_step S (case plan_of G i of None \<Rightarrow> gret None | Some plan \<Rightarrow>
                gbind reserve_function (\<lambda>func.
                gbind (gmodify (\<lambda>c. c\<lparr>cx_decoder_of := (cx_decoder_of c)(i \<mapsto> func)\<rparr>)) (\<lambda>_.
                gbind (build_fn G (KFunc True) (''<json-decode:'' @ dp_name plan @ ''>'') 2 0 sp
                  (decoder_body (decoder_of G sp n) plan sp)) (\<lambda>fn.
                gbind (define_function G func fn) (\<lambda>_. gret (Some func)))))) (\<lambda>_. True)"
  proof (cases "plan_of G i")
    case None
    show ?thesis unfolding None option.case by (rule cx_step_ret) simp
  next
    case (Some plan)
    show ?thesis unfolding Some option.case by (rule make [OF Some])
  qed
  note rest = this
  show ?case
    unfolding decoder_of.simps cx_step_def
  proof (intro allI bind_gets)
    fix b cached
    show "spec (cx_good S b) (case cached of Some func \<Rightarrow> gret (Some func)
       | None \<Rightarrow> (case plan_of G i of
              None \<Rightarrow> gret None
            | Some plan \<Rightarrow>
                gbind reserve_function (\<lambda>func.
                gbind (gmodify (\<lambda>c. c\<lparr>cx_decoder_of := (cx_decoder_of c)(i \<mapsto> func)\<rparr>)) (\<lambda>_.
                gbind (build_fn G (KFunc True) (''<json-decode:'' @ dp_name plan @ ''>'') 2 0 sp
                  (decoder_body (decoder_of G sp n) plan sp)) (\<lambda>fn.
                gbind (define_function G func fn) (\<lambda>_. gret (Some func)))))))
      (\<lambda>x. cx_good S (b \<and> True))"
    proof (cases cached)
      case None
      show ?thesis unfolding None option.case using rest unfolding cx_step_def by blast
    next
      case (Some func)
      show ?thesis unfolding Some option.case by (rule spec_ret) simp
    qed
  qed
qed

section \<open>Operators\<close>

definition binary_like :: "op \<Rightarrow> bool" where
  "binary_like op \<longleftrightarrow>
     (\<forall>S. needs S op = 2 \<and> transition op S = Some (Some (-1), None)) \<and> pushes op = 1 \<and> slots_used op = None \<and>
     (\<forall>name. op \<noteq> CallMethodDyn name 0)"

lemma moves_binary_like: "binary_like op \<Longrightarrow> b_floor C \<le> d \<Longrightarrow> moves C L (Suc (Suc d)) (emit_op op sp) (Suc d)"
  by (rule moves_emit) (auto simp: binary_like_def fine_def after_def)

lemma binary_like_simps [simp]:
  "binary_like Eq" "binary_like Lt" "binary_like Le" "binary_like Gt" "binary_like Ge"
  "binary_like EqInt" "binary_like EqFloat" "binary_like EqBool"
  "binary_like LtInt" "binary_like LeInt" "binary_like GtInt" "binary_like GeInt"
  "binary_like LtFloat" "binary_like LeFloat" "binary_like GtFloat" "binary_like GeFloat"
  "binary_like AddInt" "binary_like SubInt" "binary_like MulInt" "binary_like DivInt" "binary_like RemInt"
  "binary_like PowInt" "binary_like AddFloat" "binary_like SubFloat" "binary_like MulFloat"
  "binary_like DivFloat" "binary_like RemFloat" "binary_like PowFloat" "binary_like Concat"
  by (simp_all add: binary_like_def needs_def pushes_def slots_used_def transition_def net_effect_def)

lemma binary_like_ops:
  "binary_like (ordering_op b)" "binary_like (equality_op t)" "binary_like (typed_ordering_op t b)"
  "binary_like (arithmetic_op u b)"
proof -
  show o: "binary_like (ordering_op b)" for b by (cases b) (simp_all add: ordering_op_def)
  show "binary_like (equality_op t)" by (simp add: equality_op_def split: option.split ty.split)
  show "binary_like (typed_ordering_op t b)"
    by (cases b) (simp_all add: typed_ordering_op_def o split: option.split ty.split)
  show "binary_like (arithmetic_op u b)" by (cases b) (simp_all add: arithmetic_op_def)
qed

lemma moves_ret: "moves C L d (gret ()) d"
  by (rule movesI, rule ret_done) simp_all

lemma moves_short_circuit:
  assumes fl: "b_floor C \<le> d" and l: "moves C L d c_lhs (Suc d)" and r: "moves C L d c_rhs (Suc d)"
    and j: "jump_op = JumpIfFalseOrPop \<or> jump_op = JumpIfTrueOrPop"
  shows "moves C L d (short_circuit jump_op c_lhs c_rhs sp) (Suc d)"
proof -
  from j have j': "jump_op placeholder \<in> {JumpIfFalseOrPop placeholder, JumpIfTrueOrPop placeholder}" by auto
  show ?thesis
    unfolding short_circuit_def steps
    apply (rule movesI)
    apply (rule bind_moves [OF l])
    apply (rule bind_jump_or_pop [OF j' fl])
    apply (rule bind_moves [OF r])
    apply (rule bind_patch, simp)
    apply (rule ret_done)
     apply auto
    done
qed

lemma moves_ordering:
  assumes fl: "b_floor C \<le> d"
  shows "moves C L (Suc (Suc d)) (cg_ordering G b t sp) (Suc d)"
proof -
  have some: "moves C L (Suc (Suc d)) (cg_seq [emit_op (Call func 2) sp, emit_const (KInt 0) sp, emit_op (ordering_op b) sp]) (Suc d)" for func
    unfolding steps
    apply (rule movesI)
    apply (rule bind_emit [where d' = "Suc d"], simp add: op_eval fl, simp add: op_eval, simp add: op_eval)
    apply (rule bind_moves [OF moves_emit_const], simp add: fl le_SucI)
    apply (rule bind_moves [OF moves_binary_like], rule binary_like_ops, rule fl)
    apply (rule ret_done)
     apply auto
    done
  have none: "moves C L (Suc (Suc d)) (cg_seq [emit_op Pop sp, emit_op Pop sp, emit_fatal m sp]) (Suc d)" for m
    unfolding steps by (rule movesI) (rule moves_emit_fatal bind_rules | (simp add: op_eval fl le_SucI; fail))+
  have typed: "moves C L (Suc (Suc d)) (emit_op (typed_ordering_op t b) sp) (Suc d)" for t
    by (rule moves_binary_like [OF binary_like_ops(3) fl])
  show ?thesis
    unfolding cg_ordering_def
    by (auto split: option.split ty.split intro: some none typed)
qed

lemma moves_binary [moving]:
  assumes fl: "b_floor C \<le> d" and l: "moves C L d c_lhs (Suc d)" and r: "pusher C L c_rhs"
  shows "moves C L d (cg_binary G result_ty b lhs_ty c_lhs c_rhs sp) (Suc d)"
proof -
  have r0: "moves C L d c_rhs (Suc d)" and r1: "moves C L (Suc d) c_rhs (Suc (Suc d))"
    using pusherD [OF r] fl by simp_all
  have not1: "moves C L (Suc d) (emit_op Not sp) (Suc d)" by (rule moves_emit) (simp_all add: op_eval fl)
  have tail: "moves C L d (cg_seq (c_lhs # c_rhs # gs)) (Suc d)" if "moves C L (Suc (Suc d)) (cg_seq gs) (Suc d)" for gs
    by (rule moves_seq [OF l moves_seq [OF r1 that]])
  have one: "moves C L (Suc (Suc d)) (cg_seq [g]) (Suc d)" if "moves C L (Suc (Suc d)) g (Suc d)" for g
    by (rule moves_seq [OF that moves_seq_Nil])
  note like = moves_binary_like [OF _ fl]
  show ?thesis
    unfolding cg_binary_def
    by (auto split: binary_op.split intro!: moves_short_circuit [OF fl l r0] tail one moves_ordering [OF fl] like
        binary_like_ops moves_seq [OF like moves_seq [OF not1 moves_seq_Nil]])
qed

lemma moves_unary [moving]:
  assumes fl: "b_floor C \<le> d" and c: "moves C L d c_operand (Suc d)"
  shows "moves C L d (cg_unary G u operand c_operand sp) (Suc d)"
  unfolding cg_unary_def
  by (rule moves_seq [OF c moves_seq [OF moves_emit moves_seq_Nil]])
    (auto simp: op_eval fl split: unary_op.split)

lemma moves_option_wrap [moving]:
  assumes fl: "b_floor C \<le> d" and c: "moves C L d c_inner (Suc d)"
  shows "moves C L d (cg_option_wrap G i c_inner sp) (Suc d)"
proof -
  have "moves C L (Suc d) (case wrap_decisions (g_types G) i of
      Some Wrap \<Rightarrow> emit_op WrapSome sp | Some NoOp \<Rightarrow> gret () | None \<Rightarrow> emit_op WrapSomeDynamic sp) (Suc d)"
    by (auto split: option.split wrap_decision.split intro!: moves_emit moves_ret simp: op_eval fl)
  then show ?thesis
    unfolding cg_option_wrap_def by (rule moves_seq [OF c moves_seq [OF _ moves_seq_Nil]])
qed

end
