(* ===== verification/Codegen_Calls.thy ===== *)
theory Codegen_Calls
  imports Codegen_Values
begin

text \<open>
  The helpers that lower names, calls, members, assignments, lambdas and constructors, each with the
  depth it leaves the operand stack at.
\<close>

section \<open>Names, calls and members\<close>

lemma moves_expect:
  assumes "\<And>y. x = Some y \<Longrightarrow> moves C L d (k y) d'"
  shows "moves C L d (gbind (gexpect MissingEntry x) k) d'"
  by (rule movesI, rule bind_expect, rule moves_spec, rule assms)

lemma moves_load_item [moving]: "b_floor C \<le> d \<Longrightarrow> moves C L d (load_item G i name sp) (Suc d)"
  unfolding load_item_def
  by (auto split: hir_item.split intro!: moves_expect moves_emit moves_emit_fatal simp: op_eval)

lemma moves_ident [moving]: "b_floor C \<le> d \<Longrightarrow> moves C L d (cg_ident G i name sp) (Suc d)"
  unfolding cg_ident_def
  by (auto split: option.split res.split
      intro: moves_load_local moves_load_item moves_load_self moves_emit_fatal)

lemma moves_bind:
  "moves C L d g e \<Longrightarrow> (\<And>x. moves C L e (k x) d') \<Longrightarrow> moves C L d (gbind g k) d'"
  by (rule movesI, rule bind_moves, assumption, rule moves_spec)

text \<open>Case distinctions of the generator.\<close>

lemma moves_option:
  "(x = None \<Longrightarrow> moves C L d g d') \<Longrightarrow> (\<And>y. x = Some y \<Longrightarrow> moves C L d (h y) d') \<Longrightarrow>
   moves C L d (case x of None \<Rightarrow> g | Some y \<Rightarrow> h y) d'"
  by (cases x) simp_all

lemma moves_if:
  "(b \<Longrightarrow> moves C L d g d') \<Longrightarrow> (\<not> b \<Longrightarrow> moves C L d h d') \<Longrightarrow> moves C L d (if b then g else h) d'"
  by simp

lemma moves_const_string:
  assumes "\<And>k. moves C L d (g k) d'"
  shows "moves C L d (gbind (const_string text) g) d'"
  unfolding const_string_def
  by (rule movesI, rule bind_on_cx [OF cx_step_const]) (rule spec_pre [OF moves_spec [OF assms]], erule pt_weaken, auto)

text \<open>The instructions of calls.\<close>

lemma calls:
  assumes fl: "b_floor C \<le> d"
  shows "moves C L (d + n) (emit_counted n (Call func) sp) (Suc d)"
    and "moves C L (d + n) (emit_counted n (CallBuiltin b) sp) (Suc d)"
    and "moves C L (Suc (d + n)) (emit_counted (Suc n) (Call func) sp) (Suc d)"
    and "moves C L (Suc (d + n)) (emit_counted (Suc n) (CallBuiltin b) sp) (Suc d)"
    and "moves C L (Suc (d + n)) (emit_counted (Suc n) (CallMethodDyn k) sp) (Suc d)"
    and "moves C L (Suc (d + n)) (emit_counted n CallValue sp) (Suc d)"
    and "moves C L (d + n) (emit_counted n (MakeEnum en ix) sp) (Suc d)"
  by (rule moves_counted; simp add: op_eval fl)+

lemma moves_two: "moves C L d g e \<Longrightarrow> moves C L e h d' \<Longrightarrow> moves C L d (cg_seq [g, h]) d'"
  by (rule moves_seq [OF _ moves_seq [OF _ moves_seq_Nil]])

lemma moves_three:
  "moves C L d g e \<Longrightarrow> moves C L e h e' \<Longrightarrow> moves C L e' k d' \<Longrightarrow> moves C L d (cg_seq [g, h, k]) d'"
  by (rule moves_seq [OF _ moves_two])

definition all_push :: "frozen \<Rightarrow> loop_ctx \<Rightarrow> code_gen list \<Rightarrow> bool" where
  "all_push C L cs \<longleftrightarrow> (\<forall>c \<in> set cs. pusher C L c)"

lemma args_pushed: "all_push C L cs \<Longrightarrow> b_floor C \<le> d \<Longrightarrow> moves C L d (cg_seq cs) (d + length cs)"
  by (rule moves_pushers) (simp_all add: all_push_def)

lemma args_over: "all_push C L cs \<Longrightarrow> b_floor C \<le> d \<Longrightarrow> moves C L (Suc d) (cg_seq cs) (Suc (d + length cs))"
  using args_pushed [of C L cs "Suc d"] by simp

lemma moves_discarded:
  assumes "all_push C L cs" and fl: "b_floor C \<le> d" and "moves C L d g d'"
  shows "moves C L d (cg_seq [discard cs sp, g]) d'"
  by (rule moves_two [OF moves_discard]) (use assms in \<open>auto simp: all_push_def intro: pusherD\<close>)

lemma moves_discard_fatal:
  "all_push C L cs \<Longrightarrow> b_floor C \<le> d \<Longrightarrow> moves C L d (cg_seq [discard cs sp, emit_fatal m sp]) (Suc d)"
  by (rule moves_discarded) (auto intro: moves_emit_fatal)

text \<open>The hypotheses every step of a body relies on.\<close>

definition settled :: "cg \<Rightarrow> frozen \<Rightarrow> bool" where
  "settled G C \<longleftrightarrow> b_structs C = g_structs G \<and> small_structs (g_structs G)"

lemma moves_json_decode:
  assumes st: "settled G C" and fl: "b_floor C \<le> d" and cs: "all_push C L cs"
  shows "moves C L d (cg_json_decode G i cs sp) (Suc d)"
proof -
  note fatal = moves_discard_fatal [OF cs fl]
  have dec: "moves C L d (gbind (on_cx (decoder_of G sp n it)) (\<lambda>d. case d of
       Some func \<Rightarrow> cg_seq [c, call_builtin ''json.parse'' 1 sp, emit_const (KStr []) sp, emit_op (Call func 2) sp]
     | None \<Rightarrow> cg_seq [discard cs sp, emit_fatal ''brasa: `json.decode` target has no decoder'' sp])) (Suc d)"
    if c: "cs = [c]" for c n it
  proof (rule movesI, rule bind_on_cx)
    show "cx_step (b_structs C) (decoder_of G sp n it) (\<lambda>_. True)"
      using st by (intro cx_step_decoder_of) (auto simp: settled_def)
    fix U F r
    have c1: "moves C L d c (Suc d)" using cs c fl by (simp add: all_push_def pusherD)
    have "moves C L d (cg_seq [c, call_builtin ''json.parse'' 1 sp, emit_const (KStr []) sp, emit_op (Call func 2) sp]) (Suc d)" for func
      by (rule moves_seq [OF c1 moves_three [OF moves_call_builtin [where d' = "Suc d"] moves_emit_const moves_emit]])
        (auto simp: op_eval fl le_SucI)
    with fatal have "moves C L d (case r of
       Some func \<Rightarrow> cg_seq [c, call_builtin ''json.parse'' 1 sp, emit_const (KStr []) sp, emit_op (Call func 2) sp]
     | None \<Rightarrow> cg_seq [discard cs sp, emit_fatal ''brasa: `json.decode` target has no decoder'' sp]) (Suc d)"
      by (simp split: option.split)
    then show "spec (pt C L U (insert (Cond True) F) d) (case r of
       Some func \<Rightarrow> cg_seq [c, call_builtin ''json.parse'' 1 sp, emit_const (KStr []) sp, emit_op (Call func 2) sp]
     | None \<Rightarrow> cg_seq [discard cs sp, emit_fatal ''brasa: `json.decode` target has no decoder'' sp]) (\<lambda>_. pt C L U F (Suc d))"
      by (rule moves_done) auto
  qed
  have pick: "moves C L d (case cs of
       [c] \<Rightarrow> (case t of Some (TStruct it args) \<Rightarrow> A c it | _ \<Rightarrow> B) | _ \<Rightarrow> B') (Suc d)"
    if "\<And>c it. cs = [c] \<Longrightarrow> moves C L d (A c it) (Suc d)" "moves C L d B (Suc d)" "moves C L d B' (Suc d)"
    for t A B B'
    using that by (auto split: list.split option.split ty.split)
  show ?thesis unfolding cg_json_decode_def by (rule pick [OF dec fatal fatal])
qed

lemma moves_module_call [moving]:
  assumes st: "settled G C" and fl: "b_floor C \<le> d" and cs: "all_push C L cs"
  shows "moves C L d (cg_module_call G i it name cs sp) (Suc d)"
proof -
  have call: "moves C L d (cg_seq [cg_seq cs, emit_counted (length cs) (CallBuiltin b) sp]) (Suc d)" for b
    by (rule moves_two [OF args_pushed [OF cs fl] calls(2) [OF fl]])
  have unknown: "moves C L d (unknown_module_member name m cs sp) (Suc d)" for m
    unfolding unknown_module_member_def by (rule moves_discard_fatal [OF cs fl])
  show ?thesis
    unfolding cg_module_call_def
    by (cases "item_of G it"; simp only: hir_item.case)
      (rule moves_if moves_option moves_emit_fatal [OF fl] call unknown moves_json_decode [OF st fl cs])+
qed

lemma moves_arg_at: "all_push C L cs \<Longrightarrow> b_floor C \<le> d \<Longrightarrow> moves C L d (arg_at cs i) (Suc d)"
  by (auto simp: arg_at_def all_push_def moves_def [of _ _ _ "gpanic _"] intro: pusherD)

lemma moves_assertion:
  assumes fl: "b_floor C \<le> d" and cs: "all_push C L cs"
  shows "moves C L d (assertion b cs sp) (Suc d)"
proof -
  have a1: "moves C L (Suc d) (arg_at cs i) (Suc (Suc d))" for i
    using moves_arg_at [OF cs, of "Suc d"] fl by simp
  have "moves C L d (if b = BvAssert then arg_at cs 0 else cg_seq [arg_at cs 0, arg_at cs 1, emit_op Eq sp]) (Suc d)"
    using moves_three [OF moves_arg_at [OF cs fl] a1 moves_binary_like [OF _ fl]] moves_arg_at [OF cs fl] by auto
  note test = this
  show ?thesis
    unfolding assertion_def steps
    apply (rule movesI)
    apply (rule bind_moves [OF test [unfolded steps]])
    apply (rule bind_jump_if_false, rule fl)
    apply (rule bind_jump [where d' = d], rule fl, simp)
    apply (rule bind_patch, simp)
    apply (rule bind_moves [OF moves_assert_failed], rule fl)
    apply (rule bind_emit, simp add: op_eval fl, simp add: op_eval, simp add: op_eval)
    apply (rule bind_patch, simp)
    apply (rule bind_emit, simp add: op_eval fl, simp add: op_eval, simp add: op_eval)
    apply (rule ret_done)
     apply auto
    done
qed

lemma moves_method_call:
  assumes st: "settled G C" and fl: "b_floor C \<le> d" and r: "moves C L d c_recv (Suc d)" and cs: "all_push C L cs"
  shows "moves C L d (cg_method_call G i recv name c_recv cs sp) (Suc d)"
proof -
  let ?n = "length cs"
  note over = args_over [OF cs fl] and fatal = moves_emit_fatal [OF fl]
  have args: "moves C L d (cg_seq [c_recv, cg_seq cs]) (Suc (d + ?n))" by (rule moves_two [OF r over])
  have show_text: "moves C L d (cg_seq [c_recv, emit_op ToString sp]) (Suc d)"
    by (rule moves_two [OF r moves_emit]) (simp_all add: op_eval fl)
  have field: "moves C L d (cg_seq [c_recv, emit_op (GetField ix) sp, cg_seq cs, emit_counted ?n CallValue sp]) (Suc d)" for ix
    by (rule moves_seq [OF r moves_three [OF moves_emit over calls(6) [OF fl]]]) (simp_all add: op_eval fl)
  have call: "moves C L d (cg_seq [cg_seq [c_recv, cg_seq cs], emit_counted (Suc ?n) (Call func) sp]) (Suc d)"
    "moves C L d (cg_seq [cg_seq [c_recv, cg_seq cs], emit_counted (Suc ?n) (CallBuiltin b) sp]) (Suc d)" for func b
    using moves_two [OF args calls(3) [OF fl]] moves_two [OF args calls(4) [OF fl]] by simp_all
  have dyn: "moves C L d (gbind (cg_seq [c_recv, cg_seq cs]) (\<lambda>_. gbind (const_string name) (\<lambda>k.
      emit_counted (Suc ?n) (CallMethodDyn k) sp))) (Suc d)"
    by (rule moves_bind [OF args moves_const_string [OF calls(5) [OF fl]]])
  have struct: "moves C L d (case struct_method G it name of
       Some func \<Rightarrow> cg_seq [cg_seq [c_recv, cg_seq cs], emit_counted (?n + 1) (Call func) sp]
     | None \<Rightarrow>
         (case struct_field_index G it name of
            Some ix \<Rightarrow> cg_seq [c_recv, emit_op (GetField ix) sp, cg_seq cs, emit_counted ?n CallValue sp]
          | None \<Rightarrow>
              if name = ''toString'' \<and> ?n = 0 then cg_seq [c_recv, emit_op ToString sp]
              else emit_fatal (''brasa: unknown member `'' @ name @ ''`'') sp)) (Suc d)" for it
    unfolding Suc_eq_plus1 [symmetric] by (rule moves_option moves_if call show_text field fatal)+
  have other: "moves C L d (if name = ''toString'' \<and> ?n = 0 then cg_seq [c_recv, emit_op ToString sp]
     else if dynamic_receiver ty then
       gbind (cg_seq [c_recv, cg_seq cs]) (\<lambda>_. gbind (const_string name) (\<lambda>k. emit_counted (?n + 1) (CallMethodDyn k) sp))
     else (case receiver_builtin name of
             Some b \<Rightarrow> cg_seq [cg_seq [c_recv, cg_seq cs], emit_counted (?n + 1) (CallBuiltin b) sp]
           | None \<Rightarrow> emit_fatal (''brasa: unknown builtin method `'' @ name @ ''`'') sp)) (Suc d)" for ty
    unfolding Suc_eq_plus1 [symmetric] by (rule moves_option moves_if call show_text dyn fatal)+
  have typed: "moves C L d (case type_of G recv of
       Some (TStruct it args) \<Rightarrow> A it
     | ty \<Rightarrow> B ty) (Suc d)" if "\<And>it. moves C L d (A it) (Suc d)" "\<And>ty. moves C L d (B ty) (Suc d)" for A B
    using that by (auto split: option.split ty.split)
  have pick: "moves C L d (case (n, r) of (EIdent _, Some (RModule it)) \<Rightarrow> A it | _ \<Rightarrow> B) (Suc d)"
    if "\<And>it. moves C L d (A it) (Suc d)" "moves C L d B (Suc d)" for n r A B
    using that by (auto split: option.split expr_node.split res.split)
  note module_call = moves_module_call [OF st fl cs] and typed = typed [OF struct other]
  show ?thesis
    unfolding cg_method_call_def Let_def
    by (rule pick [OF module_call typed])
qed

lemma moves_call_item:
  assumes fl: "b_floor C \<le> d" and c: "moves C L d c_callee (Suc d)" and cs: "all_push C L cs"
  shows "moves C L d (call_item G it c_callee cs sp) (Suc d)"
proof -
  have v: "moves C L d (cg_seq [c_callee, cg_seq cs, emit_counted (length cs) CallValue sp]) (Suc d)"
    by (rule moves_three [OF c args_over [OF cs fl] calls(6) [OF fl]])
  have f: "moves C L d (gbind (cg_seq cs) (\<lambda>_. gbind (gexpect MissingEntry x) (\<lambda>func.
      emit_counted (length cs) (Call func) sp))) (Suc d)" for x
    by (rule moves_bind [OF args_pushed [OF cs fl]], rule moves_expect, rule calls(1) [OF fl])
  show ?thesis unfolding call_item_def by (simp split: hir_item.split add: v f)
qed

lemma moves_call [moving]:
  assumes st: "settled G C" and fl: "b_floor C \<le> d" and c: "moves C L d c_callee (Suc d)"
    and r: "\<And>recv name. expr_node callee = EField recv name \<Longrightarrow> moves C L d c_recv (Suc d)" and cs: "all_push C L cs"
  shows "moves C L d (cg_call G i callee c_callee c_recv cs sp) (Suc d)"
proof -
  have v: "moves C L d (cg_seq [c_callee, cg_seq cs, emit_counted (length cs) CallValue sp]) (Suc d)"
    by (rule moves_three [OF c args_over [OF cs fl] calls(6) [OF fl]])
  have b: "moves C L d (cg_seq [arg_at cs 0, call_builtin x 1 sp]) (Suc d)" for x
    by (rule moves_two [OF moves_arg_at [OF cs fl] moves_call_builtin [where d' = "Suc d"]]) (simp_all add: fl)
  note item = moves_call_item [OF fl c cs] and meth = moves_method_call [OF st fl r cs]
    and a = moves_assertion [OF fl cs] and f = moves_discard_fatal [OF cs fl]
  show ?thesis
    unfolding cg_call_def
    by (cases "expr_node callee") (simp_all split: option.split res.split add: v b item meth a f del: One_nat_def)
qed

lemma moves_member [moving]:
  assumes fl: "b_floor C \<le> d" and r: "moves C L d c_recv (Suc d)"
  shows "moves C L d (cg_member G recv name c_recv sp) (Suc d)"
proof -
  have one: "moves C L d (cg_seq [c_recv, emit_op op sp]) (Suc d)"
    if "op = GetField x \<or> op = BindMethod y \<or> op = BindBuiltin z \<or> op = CallBuiltin z 1" for op x y z
    by (rule moves_two [OF r moves_emit]) (use that in \<open>auto simp: op_eval fl\<close>)
  have exp: "moves C L d (gbind c_recv (\<lambda>_. gbind (gexpect MissingEntry x) (\<lambda>b. emit_op (BindBuiltin b) sp))) (Suc d)" for x
    by (rule moves_bind [OF r], rule moves_expect, rule moves_emit) (simp_all add: op_eval fl)
  have nat: "moves C L d (gbind (gexpect MissingEntry x) (\<lambda>b. cg_seq [c_recv, emit_op (CallBuiltin b 1) sp])) (Suc d)" for x
    by (rule moves_expect, rule one) simp
  have dyn: "moves C L d (gbind c_recv (\<lambda>_. gbind (const_string name) (\<lambda>k. emit_op (BindMethodDyn k) sp))) (Suc d)"
    by (rule moves_bind [OF r], rule moves_const_string, rule moves_emit) (simp_all add: op_eval fl)
  have struct: "moves C L d (case struct_field_index G it name of
       Some ix \<Rightarrow> cg_seq [c_recv, emit_op (GetField ix) sp]
     | None \<Rightarrow>
         (case struct_method G it name of
            Some func \<Rightarrow> cg_seq [c_recv, emit_op (BindMethod func) sp]
          | None \<Rightarrow>
              if name = ''toString'' then
                gbind c_recv (\<lambda>_. gbind (gexpect MissingEntry (builtin_id ''toString'')) (\<lambda>b.
                  emit_op (BindBuiltin b) sp))
              else emit_fatal (''brasa: unknown member `'' @ name @ ''`'') sp)) (Suc d)" for it
    by (rule moves_option moves_if exp moves_emit_fatal [OF fl] | (rule one, simp))+
  have other: "moves C L d (if native_field t name then
       gbind (gexpect MissingEntry (builtin_id name)) (\<lambda>b. cg_seq [c_recv, emit_op (CallBuiltin b 1) sp])
     else if dynamic_receiver t then
       gbind c_recv (\<lambda>_. gbind (const_string name) (\<lambda>k. emit_op (BindMethodDyn k) sp))
     else (case receiver_builtin name of
             Some b \<Rightarrow> cg_seq [c_recv, emit_op (BindBuiltin b) sp]
           | None \<Rightarrow> emit_fatal (''brasa: unknown builtin method `'' @ name @ ''`'') sp)) (Suc d)" for t
    by (rule moves_option moves_if nat dyn moves_emit_fatal [OF fl] | (rule one, simp))+
  show ?thesis
  proof (cases "type_of G recv")
    case None
    show ?thesis unfolding cg_member_def None option.case by (rule other)
  next
    case (Some t)
    show ?thesis
      unfolding cg_member_def Some option.case by (cases t; simp only: ty.case) (rule struct other)+
  qed
qed

lemma moves_field [moving]:
  assumes st: "settled G C" and fl: "b_floor C \<le> d" and r: "moves C L d c_recv (Suc d)"
  shows "moves C L d (cg_field G i recv name c_recv sp) (Suc d)"
proof -
  have m: "moves C L d (cg_module_call G i it name [] sp) (Suc d)" for it
    by (rule moves_module_call [OF st fl]) (simp add: all_push_def)
  show ?thesis
    unfolding cg_field_def
    by (simp split: option.split res.split expr_node.split add: moves_load_item [OF fl] moves_member [OF fl r] m)
qed

end
