(* ===== verification/Codegen_Closures.thy ===== *)
theory Codegen_Closures
  imports Codegen_Calls
begin

text \<open>
  Assignments, constructors and lambdas: a lambda's body is a function of its own, compiled while the
  one around it is.
\<close>

section \<open>Assignments\<close>

lemma moves_pop: "b_floor C \<le> d \<Longrightarrow> moves C L (Suc d) (emit_op Pop sp) d"
  by (rule moves_emit) (simp_all add: op_eval)

lemma moves_assign [moving]:
  assumes fl: "b_floor C \<le> d" and v: "moves C L d c_value (Suc d)"
    and recv: "\<And>recv name. expr_node target = EField recv name \<Longrightarrow> moves C L d c_recv (Suc d) \<and> pusher C L c_value"
    and index: "\<And>recv ix. expr_node target = EIndex recv ix \<Longrightarrow>
      moves C L d c_recv (Suc d) \<and> pusher C L c_index \<and> pusher C L c_value"
  shows "moves C L d (cg_assign G target c_recv c_index c_value sp) d"
proof -
  note pop = moves_pop [OF fl] and fatal = moves_emit_fatal [OF fl]
  have pops: "moves C L (Suc (Suc d)) (emit_op Pop sp) (Suc d)" by (rule moves_pop) (rule le_SucI [OF fl])
  have store: "moves C L d (cg_seq [c_value,
      gbind (gexpect MissingEntry x) (\<lambda>g. emit_op (StoreGlobal g) sp)]) d" for x
    by (rule moves_two [OF v moves_expect], rule moves_emit) (simp_all add: op_eval fl)
  have give_up: "moves C L d (cg_seq [c_value, emit_op Pop sp, emit_fatal m sp, emit_op Pop sp]) d" for m
    by (rule moves_seq [OF v moves_three [OF pop fatal pop]])
  have local: "moves C L d (cg_seq [c_value, store_local G l sp]) d" for l
    by (rule moves_two [OF v moves_store_local [OF fl]])
  have bad: "moves C L d (cg_seq [emit_fatal m sp, emit_op Pop sp]) d" for m
    by (rule moves_two [OF fatal pop])
  have set_field: "moves C L d (cg_seq [c_recv, c_value,
      (case x of Some ix \<Rightarrow> emit_op (SetField ix) sp
       | None \<Rightarrow> cg_seq [emit_op Pop sp, emit_op Pop sp, emit_fatal m sp, emit_op Pop sp])]) d"
    if "expr_node target = EField recv name" for recv name x m
  proof (rule moves_three)
    show "moves C L d c_recv (Suc d)" "moves C L (Suc d) c_value (Suc (Suc d))"
      using recv [OF that] fl by (auto intro: pusherD)
    have "moves C L (Suc (Suc d)) (emit_op (SetField ix) sp) d" for ix
      by (rule moves_emit) (simp_all add: op_eval fl)
    then show "moves C L (Suc (Suc d)) (case x of Some ix \<Rightarrow> emit_op (SetField ix) sp
       | None \<Rightarrow> cg_seq [emit_op Pop sp, emit_op Pop sp, emit_fatal m sp, emit_op Pop sp]) d"
      by (intro moves_option moves_seq [OF pops] moves_three [OF pop fatal pop])
  qed
  have set_index: "moves C L d (cg_seq [c_recv, c_index, c_value, emit_op SetIndex sp]) d"
    if "expr_node target = EIndex recv ix" for recv ix
  proof -
    from index [OF that] have c: "moves C L d c_recv (Suc d)" "pusher C L c_index" "pusher C L c_value" by blast+
    have "moves C L (Suc (Suc (Suc d))) (emit_op SetIndex sp) d" by (rule moves_emit) (simp_all add: op_eval fl)
    moreover have "moves C L (Suc d) c_index (Suc (Suc d))" by (rule pusherD [OF c(2)]) (simp add: fl le_SucI)
    moreover have "moves C L (Suc (Suc d)) c_value (Suc (Suc (Suc d)))" by (rule pusherD [OF c(3)]) (simp add: fl le_SucI)
    ultimately show ?thesis by (intro moves_seq [OF c(1)] moves_three)
  qed
  show ?thesis
  proof (cases "expr_node target")
    case (EIdent name)
    show ?thesis
      unfolding cg_assign_def Let_def EIdent expr_node.case
      by (cases "expr_res (g_res G) (expr_id target)"; simp only: option.case)
        (rule moves_option give_up store
          | (rename_tac r, case_tac r; simp only: res.case; rule local moves_option; rule give_up store))+
  next
    case (EField recv name)
    show ?thesis
      unfolding cg_assign_def Let_def EField expr_node.case
      by (rule moves_option set_field [OF EField] store)+
  next
    case (EIndex recv ix)
    show ?thesis unfolding cg_assign_def Let_def EIndex expr_node.case by (rule set_index [OF EIndex])
  qed (unfold cg_assign_def Let_def, simp_all only: expr_node.case bad)
qed

section \<open>Constructors\<close>

lemma spec_store_fields:
  assumes fl: "b_floor C \<le> d" and cs: "\<And>p. p \<in> set inits \<Longrightarrow> moves C L d (snd p) (Suc d)"
  shows "spec (pt C L U F d) (store_fields sp inits) (\<lambda>scratch. pt C L U (Live ` snd ` set scratch \<union> F) d)"
  using cs
proof (induction inits arbitrary: F)
  case Nil
  show ?case unfolding store_fields.simps by (rule spec_ret, erule pt_weaken) auto
next
  case (Cons field inits)
  have c: "moves C L d (snd field) (Suc d)" by (rule Cons.prems) simp
  show ?case
    unfolding store_fields.simps
    apply (rule bind_moves [OF c])
    apply (rule bind_alloc)
    apply (rule bind_emit [where d' = d], simp add: op_eval fl, simp add: op_eval, simp add: op_eval)
    apply (rule spec_bind [OF Cons.IH])
     apply (rule Cons.prems, simp)
    apply (rule spec_ret, erule pt_weaken)
     apply auto
    done
qed

lemma moves_struct [moving]:
  assumes st: "settled G C" and fl: "b_floor C \<le> d" and cs: "all_push C L (map snd inits)"
  shows "moves C L d (cg_struct G i inits sp) (Suc d)"
proof -
  note fatal = moves_emit_fatal [OF fl]
  have S: "b_structs C = g_structs G" using st by (simp add: settled_def)
  have flow: "\<exists>x. transition (MakeStruct s) (b_structs C) = Some (x, None) \<or> transition (MakeStruct s) (b_structs C) = None" for s
    by (rule make_struct_flow)
  have build: "spec (pt C L U F (d + length (st_fields (g_structs G ! s)))) (emit_op (MakeStruct s) sp)
      (\<lambda>_. pt C L U F (Suc d))" if "s < length (g_structs G)" for s U F
    by (rule spec_emit [OF _ flow]) (use make_struct_fine [OF that refl S fl] in auto)
  have direct: "moves C L d (cg_seq [cg_seq (map snd inits), emit_op (MakeStruct s) sp]) (Suc d)"
    if s: "s < length (g_structs G)" and n: "st_fields (g_structs G ! s) = map fst inits" for s
  proof (rule moves_two)
    show "moves C L d (cg_seq (map snd inits)) (d + length inits)" using args_pushed [OF cs fl] by simp
    show "moves C L (d + length inits) (emit_op (MakeStruct s) sp) (Suc d)"
      by (rule movesI) (use build [OF s] n in simp)
  qed
  have stored: "moves C L d (gbind (store_fields sp inits) (\<lambda>scratch.
      cg_seq [cg_seq (map (\<lambda>name.
        case map_of scratch name of
          Some slot \<Rightarrow> emit_op (LoadLocal slot) sp
        | None \<Rightarrow> emit_fatal (''brasa: missing field `'' @ name @ ''`'') sp) (st_fields (g_structs G ! s))),
        emit_op (MakeStruct s) sp])) (Suc d)"
    if s: "s < length (g_structs G)" for s
  proof (rule movesI, rule spec_bind, rule spec_store_fields [OF fl])
    fix p assume "p \<in> set inits"
    with cs have "pusher C L (snd p)" by (simp add: all_push_def)
    then show "moves C L d (snd p) (Suc d)" by (rule pusherD [OF _ fl])
  next
    fix U F and scratch :: "(string \<times> slot_ix) list"
    let ?F = "Live ` snd ` set scratch \<union> F"
    let ?load = "\<lambda>name. case map_of scratch name of
          Some slot \<Rightarrow> emit_op (LoadLocal slot) sp
        | None \<Rightarrow> emit_fatal (''brasa: missing field `'' @ name @ ''`'') sp"
    let ?gs = "map ?load (st_fields (g_structs G ! s))"
    have load: "spec (pt C L U ?F n) (?load name) (\<lambda>_. pt C L U ?F (Suc n))" if "d \<le> n" for name n
    proof (cases "map_of scratch name")
      case None
      then show ?thesis using fl that by (simp add: moves_spec moves_emit_fatal)
    next
      case (Some slot)
      then have "Live slot \<in> ?F" using map_of_SomeD [OF Some] by force
      then show ?thesis
        unfolding Some option.case using fl that by (intro spec_emit) (auto simp: op_eval)
    qed
    have "spec (pt C L U ?F d) (cg_seq ?gs) (\<lambda>_. pt C L U ?F (d + length ?gs))"
    proof (rule spec_pushing)
      fix g n assume "g \<in> set ?gs" and n: "d \<le> n"
      then obtain name where "g = ?load name" by auto
      then show "spec (pt C L U ?F n) g (\<lambda>_. pt C L U ?F (Suc n))" using load [OF n] by (simp only:)
    qed
    then have loads: "spec (pt C L U ?F d) (cg_seq ?gs) (\<lambda>_. pt C L U ?F (d + length (st_fields (g_structs G ! s))))"
      by simp
    show "spec (pt C L U ?F d) (cg_seq [cg_seq ?gs, emit_op (MakeStruct s) sp]) (\<lambda>_. pt C L U F (Suc d))"
      by (rule spec_seq_Cons [OF loads spec_seq_Cons [OF build [OF s] spec_seq_Nil]]) (erule pt_weaken, auto)
  qed
  have of_struct: "moves C L d (case g_struct_of_item G it of
             None \<Rightarrow> emit_fatal ''brasa: struct literal of a non-struct type'' sp
           | Some s \<Rightarrow>
               if \<not> s < length (g_structs G) then gpanic MissingEntry
               else let declared = st_fields (g_structs G ! s) in
                 if declared = map fst inits
                 then cg_seq [cg_seq (map snd inits), emit_op (MakeStruct s) sp]
                 else gbind (store_fields sp inits) (\<lambda>scratch.
                   cg_seq [cg_seq (map (\<lambda>name.
                     case map_of scratch name of
                       Some slot \<Rightarrow> emit_op (LoadLocal slot) sp
                     | None \<Rightarrow> emit_fatal (''brasa: missing field `'' @ name @ ''`'') sp) declared),
                     emit_op (MakeStruct s) sp])) (Suc d)" for it
    unfolding Let_def
    by (rule moves_option moves_if fatal direct stored | (simp add: moves_def; fail))+
  show ?thesis
    unfolding cg_struct_def
    by (cases "struct_lit_res (g_res G) i"; simp only: option.case)
      (rule fatal | (rename_tac r, case_tac r; simp only: type_res.case; rule fatal of_struct))+
qed

lemma moves_enum [moving]:
  assumes fl: "b_floor C \<le> d" and cs: "all_push C L cs"
  shows "moves C L d (cg_enum G i name cs sp) (Suc d)"
proof -
  note fatal = moves_discard_fatal [OF cs fl]
  have single: "moves C L d (case cs of [c] \<Rightarrow> cg_seq [c, emit_op op sp] | _ \<Rightarrow> cg_seq [discard cs sp, emit_fatal m sp]) (Suc d)"
    if "op = WrapSome \<or> op = MakeSetFromVector" for op m
  proof -
    have "moves C L d (cg_seq [c, emit_op op sp]) (Suc d)" if c: "cs = [c]" for c
      using cs fl \<open>op = _ \<or> _\<close> c by (intro moves_two [OF pusherD moves_emit]) (auto simp: all_push_def op_eval)
    with fatal show ?thesis by (auto split: list.split)
  qed
  have none: "moves C L d (cg_seq [discard cs sp, emit_op LoadNone sp]) (Suc d)"
    by (rule moves_discarded [OF cs fl], rule moves_emit) (simp_all add: op_eval fl)
  have variant: "moves C L d (gbind (cg_seq cs) (\<lambda>_. gbind (gexpect MissingEntry x) (\<lambda>en.
      emit_counted (length cs) (MakeEnum en v) sp))) (Suc d)" for x v
    by (rule moves_bind [OF args_pushed [OF cs fl]], rule moves_expect, rule calls(7) [OF fl])
  show ?thesis
    unfolding cg_enum_def
    by (cases "ctor_expr_res (g_res G) i"; simp only: option.case)
      (rule fatal | (rename_tac r, case_tac r; simp only: ctor_res.case; (rule none variant | (rule single, simp))))+
qed

section \<open>Lambdas\<close>

lemma spec_each:
  assumes "\<And>g. g \<in> set gs \<Longrightarrow> spec (pt C L U F d) g (\<lambda>_. pt C L U F d)"
  shows "spec (pt C L U F d) (cg_seq gs) (\<lambda>_. pt C L U F d)"
  using assms
proof (induction gs)
  case Nil
  show ?case by (rule spec_seq_Nil)
next
  case (Cons g gs)
  show ?case by (rule spec_seq_Cons [OF Cons.prems Cons.IH]) (simp, rule Cons.prems, simp)
qed

lemma spec_bind_shared:
  assumes fl: "b_floor C \<le> d"
  shows "spec (pt C L U F d) (bind_shared_params G params sp) (\<lambda>_. pt C L U F d)"
  unfolding bind_shared_params_def
proof (rule spec_each)
  fix g assume "g \<in> set (map (\<lambda>l. if l \<notin> g_shared G then gret ()
       else gbind (slot_of l) (\<lambda>slot. cg_seq [emit_op (LoadLocal slot) sp, emit_op (MakeBinding slot) sp])) params)"
  then obtain l where g: "g = (if l \<notin> g_shared G then gret ()
       else gbind (slot_of l) (\<lambda>slot. cg_seq [emit_op (LoadLocal slot) sp, emit_op (MakeBinding slot) sp]))"
    unfolding set_map by blast
  have "moves C L d (gbind (slot_of l) (\<lambda>slot. cg_seq [emit_op (LoadLocal slot) sp, emit_op (MakeBinding slot) sp])) d"
    unfolding steps
    apply (rule movesI)
    apply (rule bind_slot_of)
    apply (rule bind_emit, simp add: op_eval fl, simp add: op_eval, simp add: op_eval)+
    apply (rule ret_done)
     apply auto
    done
  then show "spec (pt C L U F d) g (\<lambda>_. pt C L U F d)"
    unfolding g by (intro moves_spec moves_if moves_ret)
qed

lemma spec_assign_params:
  assumes n: "holds F \<Longrightarrow> length params < 65536"
  shows "spec (pt C L U F d) (cg_seq (map (\<lambda>(position, l). assign_slot l (clamp16 position)) (enumerate 0 params)))
    (\<lambda>_. pt C L U F d)"
proof (rule spec_each)
  fix g assume "g \<in> set (map (\<lambda>(position, l). assign_slot l (clamp16 position)) (enumerate 0 params))"
  then obtain position l where g: "g = assign_slot l (clamp16 position)" and p: "position < length params"
    by (auto simp: in_set_enumerate_eq)
  show "spec (pt C L U F d) g (\<lambda>_. pt C L U F d)"
    unfolding g by (rule spec_assign) (use n p in \<open>auto simp: clamp16_def\<close>)
qed

lemma spec_self_slot: "spec (pt C L U F d) (gbind alloc_slot (\<lambda>slot. gmodify (\<lambda>f. f\<lparr>f_self := Some slot\<rparr>))) (\<lambda>_. pt C L U F d)"
proof (rule bind_alloc)
  fix slot
  have "spec (pt C L U (insert (Live slot) F) d) (gmodify (\<lambda>f. f\<lparr>f_self := Some slot\<rparr>)) (\<lambda>_. pt C L U (insert (Live slot) F) d)"
    by (rule spec_self) simp
  then show "spec (pt C L U (insert (Live slot) F) d) (gmodify (\<lambda>f. f\<lparr>f_self := Some slot\<rparr>)) (\<lambda>_. pt C L U F d)"
    by (rule spec_weaken) auto
qed

lemma spec_lambda_frame:
  assumes n: "holds F \<Longrightarrow> length params < 65536" and fl: "b_floor C \<le> d"
  shows "spec (pt C L U F d) (lambda_frame G params caps sp) (\<lambda>_. pt C L U F d)"
proof -
  have self: "spec (pt C L U F d) (if uses_self caps then gbind alloc_slot (\<lambda>slot. gmodify (\<lambda>f. f\<lparr>f_self := Some slot\<rparr>)) else gret ())
      (\<lambda>_. pt C L U F d)"
    by (simp add: spec_self_slot spec_ret)
  have caps: "spec (pt C L U F d) (cg_seq (map (\<lambda>l. gbind (slot_of l) (\<lambda>_. gret ())) (cap_locals caps))) (\<lambda>_. pt C L U F d)"
  proof (rule spec_each)
    fix g assume "g \<in> set (map (\<lambda>l. gbind (slot_of l) (\<lambda>_. gret ())) (cap_locals caps))"
    then obtain l where "g = gbind (slot_of l) (\<lambda>_. gret ())" by auto
    then show "spec (pt C L U F d) g (\<lambda>_. pt C L U F d)" by (auto intro!: bind_slot_of ret_done)
  qed
  show ?thesis
    unfolding lambda_frame_def
    by (rule spec_seq_append [OF spec_assign_params [OF n]], assumption,
        rule spec_seq_append [OF spec_seq_Cons [OF self spec_seq_Nil]], assumption,
        rule spec_seq_append [OF caps], rule spec_seq_Cons [OF spec_bind_shared [OF fl] spec_seq_Nil])
qed

lemma define_after:
  "(R \<Longrightarrow> check_fn S fn) \<Longrightarrow>
     spec (cx_good S (b \<and> R)) (define_function G func fn) (\<lambda>_. cx_good S (b \<and> True))"
  using cx_step_define_if [of R S fn b G func] by simp

text \<open>A body that pushes its value, in a function of its own.\<close>

lemma spec_lambda_body:
  assumes body: "\<And>b. moves (fresh S b) ([], []) 0 c_body (Suc 0)" and n: "b \<Longrightarrow> length params < 65536"
  shows "spec (pt (fresh S b) ([], []) {} {} 0) (cg_seq [lambda_frame G params caps sp, c_body, emit_op Ret sp])
    (\<lambda>_. finished S b)"
proof (rule spec_clean)
  let ?C = "fresh S b"
  have C: "b_floor ?C \<le> 0" "b_clean ?C = b" by (simp_all add: fresh_def)
  let ?F = "insert (Cond (b_clean ?C)) {}"
  have frame: "spec (pt ?C ([], []) {} ?F 0) (lambda_frame G params caps sp) (\<lambda>_. pt ?C ([], []) {} ?F 0)"
    by (rule spec_lambda_frame) (use n C in \<open>simp_all add: holds_def\<close>)
  show "spec (pt ?C ([], []) {} ?F 0) (cg_seq [lambda_frame G params caps sp, c_body, emit_op Ret sp]) (\<lambda>_. finished S b)"
    by (intro spec_seq_Cons [OF frame] spec_seq_Cons [OF moves_spec [OF body]] spec_seq_Cons [OF spec_finish] spec_seq_Nil)
qed

lemma moves_load_captures:
  assumes fl: "b_floor C \<le> d"
  shows "moves C L d (cg_seq ([if self then load_self sp else gret ()] @ map (\<lambda>l. capture_local l sp) ls))
    (d + (length ls + (if self then 1 else 0)))"
proof -
  have caps: "moves C L e (cg_seq (map (\<lambda>l. capture_local l sp) ls)) (e + length ls)" if "d \<le> e" for e
  proof -
    have "moves C L e (cg_seq (map (\<lambda>l. capture_local l sp) ls)) (e + length (map (\<lambda>l. capture_local l sp) ls) * 1)"
    proof (rule moves_pushing)
      fix g n assume "g \<in> set (map (\<lambda>l. capture_local l sp) ls)" and n: "e \<le> n"
      then obtain l where g: "g = capture_local l sp" by auto
      show "moves C L n g (n + 1)"
        unfolding g using moves_capture_local [of C n L l sp] n that fl by simp
    qed
    then show ?thesis by simp
  qed
  show ?thesis
  proof (cases self)
    case True
    with moves_seq [OF moves_load_self [OF fl] caps [of "Suc d"]] show ?thesis by simp
  next
    case False
    with moves_seq [OF moves_ret caps [of d]] show ?thesis by simp
  qed
qed

lemma moves_lambda [moving]:
  assumes st: "settled G C" and fl: "b_floor C \<le> d"
    and body: "\<And>b. moves (fresh (g_structs G) b) ([], []) 0 c_body (Suc 0)"
  shows "moves C L d (cg_lambda G e c_body sp) (Suc d)"
proof -
  let ?caps = "lambda_captures (g_res G) e"
  let ?params = "case lambda_params (g_res G) (expr_id e) of Some ls \<Rightarrow> ls | None \<Rightarrow> []"
  let ?n = "length (cap_locals ?caps) + (if uses_self ?caps then 1 else 0)"
  have S: "b_structs C = g_structs G" "small_structs (b_structs C)" using st by (simp_all add: settled_def)
  have flow: "\<exists>x. transition (MakeClosure func n) S' = Some (x, None) \<or> transition (MakeClosure func n) S' = None" for func n S'
    by (simp add: op_eval)
  have close: "spec (pt C L U F' d) (cg_seq ([if uses_self ?caps then load_self sp else gret ()] @
      map (\<lambda>l. capture_local l sp) (cap_locals ?caps) @ [emit_op (MakeClosure func m) sp])) (\<lambda>_. pt C L U F (Suc d))"
    if "F \<subseteq> F'" "holds F' \<Longrightarrow> m = ?n" for U F F' func m
  proof -
    have "spec (pt C L U F' (d + ?n)) (emit_op (MakeClosure func m) sp) (\<lambda>_. pt C L U F (Suc d))"
      by (rule emit_narrowed) (use that fl in \<open>auto simp: op_eval\<close>)
    then have tail: "spec (pt C L U F' (d + ?n)) (cg_seq [emit_op (MakeClosure func m) sp]) (\<lambda>_. pt C L U F (Suc d))"
      by (rule spec_seq_Cons) (rule spec_seq_Nil)
    have "spec (pt C L U F' d) (cg_seq ([if uses_self ?caps then load_self sp else gret ()] @
      map (\<lambda>l. capture_local l sp) (cap_locals ?caps))) (\<lambda>_. pt C L U F' (d + ?n))"
      by (rule moves_spec [OF moves_load_captures [OF fl]])
    from spec_seq_append [OF this tail] show ?thesis by simp
  qed
  show ?thesis
    unfolding cg_lambda_def Let_def
  proof (rule movesI, rule bind_on_cx [OF cx_step_reserve], rule bind_on_cx [OF cx_steps(2)], rule bind_on_cx [OF cx_steps(3)])
    fix U F func arity_n capture_n
    let ?F = "insert (Cond (capture_n = ?n \<and> ?n \<le> max_bindings))
      (insert (Cond (arity_n = length ?params \<and> length ?params \<le> max_params)) (insert (Cond True) F))"
    let ?fn = "cg_seq [lambda_frame G ?params ?caps sp, c_body, emit_op Ret sp]"
    show "spec (pt C L U ?F d)
      (gbind (on_cx (build_fn G KLambda ''<lambda>'' arity_n capture_n sp ?fn)) (\<lambda>fn.
       gbind (on_cx (define_function G func fn)) (\<lambda>_. cg_seq ([if uses_self ?caps then load_self sp else gret ()] @
        map (\<lambda>l. capture_local l sp) (cap_locals ?caps) @ [emit_op (MakeClosure func capture_n) sp]))))
      (\<lambda>_. pt C L U F (Suc d))"
    proof (rule bind_on_cx_if)
      fix b
      show "spec (cx_good (b_structs C) (b \<and> holds ?F)) (build_fn G KLambda ''<lambda>'' arity_n capture_n sp ?fn)
        (\<lambda>fn. cx_good (b_structs C) (b \<and> (holds ?F \<and> check_fn (b_structs C) fn)))"
      proof (rule spec_conseq [OF cx_build_if [where S = "b_structs C" and R = "holds ?F" and b = b and body = ?fn]])
        fix b assume "b \<Longrightarrow> holds ?F"
        then have "b \<Longrightarrow> length ?params < 65536" by (auto simp: holds_insert max_params_def)
        then show "spec (pt (fresh (b_structs C) b) ([], []) {} {} 0) ?fn (\<lambda>_. finished (b_structs C) b)"
          using body S by (intro spec_lambda_body) simp_all
      qed (use S in \<open>auto elim: cx_good_mono\<close>)
    next
      fix fn
      let ?F' = "insert (Cond (holds ?F \<and> check_fn (b_structs C) fn)) ?F"
      show "spec (pt C L U ?F' d) (gbind (on_cx (define_function G func fn)) (\<lambda>_.
          cg_seq ([if uses_self ?caps then load_self sp else gret ()] @
            map (\<lambda>l. capture_local l sp) (cap_locals ?caps) @ [emit_op (MakeClosure func capture_n) sp])))
        (\<lambda>_. pt C L U F (Suc d))"
      proof (rule bind_on_cx_if [where R = "\<lambda>_. True"])
        fix b
        show "spec (cx_good (b_structs C) (b \<and> holds ?F')) (define_function G func fn)
            (\<lambda>x. cx_good (b_structs C) (b \<and> True))"
          by (rule define_after) (simp add: holds_insert)
      next
        fix x
        show "spec (pt C L U (insert (Cond True) ?F') d)
          (cg_seq ([if uses_self ?caps then load_self sp else gret ()] @
            map (\<lambda>l. capture_local l sp) (cap_locals ?caps) @ [emit_op (MakeClosure func capture_n) sp]))
          (\<lambda>_. pt C L U F (Suc d))"
          by (rule close) (auto simp: holds_insert)
      qed
    qed
  qed
qed

end
