(* ===== verification/Codegen_Checked.thy ===== *)
theory Codegen_Checked
  imports Codegen_Closures
begin

text \<open>
  What the generator emits for a tree leaves the operand stack where it should, by induction over the
  tree, and what follows for functions and programs. The condition on the tree is that a \<open>break\<close> or a
  \<open>continue\<close> stands where no operand of its loop is pending.
\<close>

section \<open>Trees that leave a loop with its operands settled\<close>

text \<open>\<open>k\<close> says whether the operands pushed since the loop around the tree was entered are all gone.\<close>

function (sequential) exits_expr :: "bool \<Rightarrow> expr \<Rightarrow> bool"
  and exits_stmt :: "bool \<Rightarrow> stmt \<Rightarrow> bool"
  and exits_body :: "bool \<Rightarrow> arm_body \<Rightarrow> bool" where
  "exits_expr k (Expr i sp (ECall callee args)) \<longleftrightarrow> exits_expr k callee \<and> list_all (exits_expr False) args"
| "exits_expr k (Expr i sp (EField recv name)) \<longleftrightarrow> exits_expr k recv"
| "exits_expr k (Expr i sp (EIndex recv ix)) \<longleftrightarrow> exits_expr k recv \<and> exits_expr False ix"
| "exits_expr k (Expr i sp (EUnary u e)) \<longleftrightarrow> exits_expr k e"
| "exits_expr k (Expr i sp (EBinary b x y)) \<longleftrightarrow> exits_expr k x \<and> exits_expr False y"
| "exits_expr k (Expr i sp (EOptionWrap e)) \<longleftrightarrow> exits_expr k e"
| "exits_expr k (Expr i sp (EToString e)) \<longleftrightarrow> exits_expr k e"
| "exits_expr k (Expr i sp (ELambda body)) \<longleftrightarrow> exits_body True body"
| "exits_expr k (Expr i sp (EIf branches els)) \<longleftrightarrow>
     list_all (\<lambda>(c, b). exits_expr k c \<and> list_all (exits_stmt k) b) branches \<and>
     (case els of None \<Rightarrow> True | Some b \<Rightarrow> list_all (exits_stmt k) b)"
| "exits_expr k (Expr i sp (EMatch scrutinee arms)) \<longleftrightarrow>
     exits_expr k scrutinee \<and>
     list_all (\<lambda>(p, g, b). (case g of None \<Rightarrow> True | Some e \<Rightarrow> exits_expr False e) \<and> exits_body k b) arms"
| "exits_expr k (Expr i sp (EVector es)) \<longleftrightarrow> list_all (exits_expr False) es"
| "exits_expr k (Expr i sp (EMap ps)) \<longleftrightarrow> list_all (\<lambda>(x, y). exits_expr False x \<and> exits_expr False y) ps"
| "exits_expr k (Expr i sp (ETuple es)) \<longleftrightarrow> list_all (exits_expr False) es"
| "exits_expr k (Expr i sp (EStruct fs)) \<longleftrightarrow> list_all (\<lambda>(x, e). exits_expr False e) fs"
| "exits_expr k (Expr i sp (ERange lo hi incl)) \<longleftrightarrow> exits_expr k lo \<and> exits_expr False hi"
| "exits_expr k (Expr i sp (ECatch subject exhaustive arms)) \<longleftrightarrow>
     exits_expr False subject \<and>
     list_all (\<lambda>(ts, g, b). (case g of None \<Rightarrow> True | Some e \<Rightarrow> exits_expr False e) \<and> exits_body k b) arms"
| "exits_expr k (Expr i sp (EEnum name args)) \<longleftrightarrow> list_all (exits_expr False) args"
| "exits_expr k (Expr i sp n) \<longleftrightarrow> True"
| "exits_stmt k (Stmt i sp (SLet e)) \<longleftrightarrow> exits_expr k e"
| "exits_stmt k (Stmt i sp (SAssign target e)) \<longleftrightarrow>
     (case target of
        Expr j sp' (EField recv name) \<Rightarrow> exits_expr k recv \<and> exits_expr False e
      | Expr j sp' (EIndex recv ix) \<Rightarrow> exits_expr k recv \<and> exits_expr False ix \<and> exits_expr False e
      | _ \<Rightarrow> exits_expr k e)"
| "exits_stmt k (Stmt i sp (SReturn v)) \<longleftrightarrow> (case v of None \<Rightarrow> True | Some e \<Rightarrow> exits_expr k e)"
| "exits_stmt k (Stmt i sp SBreak) \<longleftrightarrow> k"
| "exits_stmt k (Stmt i sp SContinue) \<longleftrightarrow> k"
| "exits_stmt k (Stmt i sp (SThrow e)) \<longleftrightarrow> exits_expr k e"
| "exits_stmt k (Stmt i sp (SIf branches els)) \<longleftrightarrow>
     list_all (\<lambda>(c, b). exits_expr k c \<and> list_all (exits_stmt k) b) branches \<and>
     (case els of None \<Rightarrow> True | Some b \<Rightarrow> list_all (exits_stmt k) b)"
| "exits_stmt k (Stmt i sp (SWhile c b)) \<longleftrightarrow> exits_expr k c \<and> list_all (exits_stmt True) b"
| "exits_stmt k (Stmt i sp (SFor p e b)) \<longleftrightarrow> exits_expr k e \<and> list_all (exits_stmt True) b"
| "exits_stmt k (Stmt i sp (SExpr e)) \<longleftrightarrow> exits_expr k e"
| "exits_body k (AExpr e) \<longleftrightarrow> exits_expr k e"
| "exits_body k (ABlock b) \<longleftrightarrow> list_all (exits_stmt k) b"
  by pat_completeness auto
termination
  by (relation "measure (\<lambda>x. case x of Inl (_, e) \<Rightarrow> size e | Inr (Inl (_, s)) \<Rightarrow> size s | Inr (Inr (_, b)) \<Rightarrow> size b)")
     (auto dest!: hir_size)

section \<open>Steps of trees\<close>

definition ready :: "bool \<Rightarrow> frozen \<Rightarrow> loop_ctx \<Rightarrow> nat \<Rightarrow> bool" where
  "ready k C L d \<longleftrightarrow> b_floor C \<le> d \<and> (k \<longrightarrow> loop_ready C L d)"

text \<open>A step that changes the depth by \<open>n\<close> wherever a tree that satisfies \<open>ok k\<close> may stand.\<close>

definition obeys :: "cg \<Rightarrow> (bool \<Rightarrow> bool) \<Rightarrow> nat \<Rightarrow> code_gen \<Rightarrow> bool" where
  "obeys G ok n g \<longleftrightarrow>
     (\<forall>k C L d. ok k \<longrightarrow> settled G C \<longrightarrow> ready k C L d \<longrightarrow> moves C L d g (n + d))"

lemma obeysI:
  "(\<And>k C L d. ok k \<Longrightarrow> settled G C \<Longrightarrow> b_floor C \<le> d \<Longrightarrow> ready k C L d \<Longrightarrow> moves C L d g (n + d)) \<Longrightarrow> obeys G ok n g"
  by (simp add: obeys_def ready_def)

lemma obeysD: "obeys G ok n g \<Longrightarrow> ok k \<Longrightarrow> settled G C \<Longrightarrow> ready k C L d \<Longrightarrow> moves C L d g (n + d)"
  unfolding obeys_def by blast

lemma obeys_value: "obeys G ok (Suc 0) g \<Longrightarrow> ok k \<Longrightarrow> settled G C \<Longrightarrow> ready k C L d \<Longrightarrow> moves C L d g (Suc d)"
  by (drule obeysD) simp_all

lemma obeys_stmt: "obeys G ok 0 g \<Longrightarrow> ok k \<Longrightarrow> settled G C \<Longrightarrow> ready k C L d \<Longrightarrow> moves C L d g d"
  by (drule obeysD) simp_all

lemma ready_pending: "b_floor C \<le> d \<Longrightarrow> ready False C L d"
  by (simp add: ready_def)

lemma obeys_pusher: "obeys G ok (Suc 0) g \<Longrightarrow> ok False \<Longrightarrow> settled G C \<Longrightarrow> pusher C L g"
  unfolding pusher_def by (auto intro: obeys_value ready_pending)

lemma obeys_pushed: "obeys G ok (Suc 0) g \<Longrightarrow> ok False \<Longrightarrow> settled G C \<Longrightarrow> b_floor C \<le> d \<Longrightarrow> moves C L d g (Suc d)"
  by (rule pusherD [OF obeys_pusher])

lemma obeys_block:
  "(\<And>s. s \<in> set ss \<Longrightarrow> obeys G (\<lambda>k. exits_stmt k s) 0 (compile_stmt G s)) \<Longrightarrow> list_all (exits_stmt k) ss \<Longrightarrow>
     settled G C \<Longrightarrow> ready k C L d \<Longrightarrow> moves C L d (block_stmts G ss) d"
  by (rule moves_each) (auto simp: list_all_iff intro: obeys_stmt)

text \<open>The bodies of functions and of loops.\<close>

lemma settled_fresh: "small_structs (g_structs G) \<Longrightarrow> settled G (fresh (g_structs G) b)"
  by (simp add: settled_def fresh_def)

lemma ready_fresh: "ready k (fresh (g_structs G) b) ([], []) 0"
  by (simp add: ready_def fresh_def loop_ready_def)

lemma settled_small: "settled G C \<Longrightarrow> small_structs (g_structs G)"
  by (simp add: settled_def)

lemma ready_while: "b_floor C \<le> d \<Longrightarrow> ready True C ((d, False) # ls, os) d"
  by (simp add: ready_def loop_ready_def)

lemma ready_for: "b_floor C \<le> d \<Longrightarrow> ready True C ((Suc d, True) # ls, os) (Suc d)"
  by (simp add: ready_def loop_ready_def)

lemma all_pushI:
  assumes "\<And>e. e \<in> set es \<Longrightarrow> obeys G (\<lambda>k. exits_expr k e) (Suc 0) (compile_expr G e)"
    and "list_all (exits_expr False) es" and "settled G C"
  shows "all_push C L (map (compile_expr G) es)"
  unfolding all_push_def using assms by (auto simp: list_all_iff intro: obeys_pusher)

section \<open>The induction over the tree\<close>

abbreviation expr_sound :: "cg \<Rightarrow> expr \<Rightarrow> bool" where
  "expr_sound G e \<equiv> obeys G (\<lambda>k. exits_expr k e) (Suc 0) (compile_expr G e)"

abbreviation stmt_sound :: "cg \<Rightarrow> stmt \<Rightarrow> bool" where
  "stmt_sound G s \<equiv> obeys G (\<lambda>k. exits_stmt k s) 0 (compile_stmt G s)"

abbreviation block_sound :: "cg \<Rightarrow> span \<Rightarrow> stmt list \<Rightarrow> bool" where
  "block_sound G sp ss \<equiv> obeys G (\<lambda>k. list_all (exits_stmt k) ss) (Suc 0) (block_value G sp ss)"

abbreviation body_sound :: "cg \<Rightarrow> span \<Rightarrow> arm_body \<Rightarrow> bool" where
  "body_sound G sp b \<equiv> obeys G (\<lambda>k. exits_body k b) (Suc 0) (compile_body G sp b)"

lemma if_value_sound:
  assumes cond: "\<And>c b. (c, b) \<in> set branches \<Longrightarrow> expr_sound G c"
    and block: "\<And>c b. (c, b) \<in> set branches \<Longrightarrow> block_sound G sp b"
    and els: "\<And>b. els = Some b \<Longrightarrow> block_sound G sp b"
  shows "obeys G (\<lambda>k. list_all (\<lambda>(c, b). exits_expr k c \<and> list_all (exits_stmt k) b) branches \<and>
       (case els of None \<Rightarrow> True | Some b \<Rightarrow> list_all (exits_stmt k) b)) (Suc 0)
     (cg_if_value (map (\<lambda>(c, b). (compile_expr G c, block_value G sp b)) branches)
       (case els of None \<Rightarrow> None | Some b \<Rightarrow> Some (block_value G sp b)) sp')"
proof (rule obeysI, unfold add_Suc add_0)
  fix k C L d
  assume ok: "list_all (\<lambda>(c, b). exits_expr k c \<and> list_all (exits_stmt k) b) branches \<and>
       (case els of None \<Rightarrow> True | Some b \<Rightarrow> list_all (exits_stmt k) b)"
    and st: "settled G C" and fl: "b_floor C \<le> d" and r: "ready k C L d"
  show "moves C L d (cg_if_value (map (\<lambda>(c, b). (compile_expr G c, block_value G sp b)) branches)
       (case els of None \<Rightarrow> None | Some b \<Rightarrow> Some (block_value G sp b)) sp') (Suc d)"
  proof (rule moves_if_value [OF fl])
    fix c b assume "(c, b) \<in> set (map (\<lambda>(c, b). (compile_expr G c, block_value G sp b)) branches)"
    then obtain x y where m: "(x, y) \<in> set branches" "c = compile_expr G x" "b = block_value G sp y" by auto
    with ok have x: "exits_expr k x" and y: "list_all (exits_stmt k) y" by (auto simp: list_all_iff)
    have "moves C L d (compile_expr G x) (Suc d)" using cond [OF m(1)] x st r by (rule obeys_value)
    moreover have "moves C L d (block_value G sp y) (Suc d)" using block [OF m(1)] y st r by (rule obeys_value)
    ultimately show "moves C L d c (Suc d) \<and> moves C L d b (Suc d)" using m by simp
  next
    fix c assume "(case els of None \<Rightarrow> None | Some b \<Rightarrow> Some (block_value G sp b)) = Some c"
    then obtain b where b: "els = Some b" "c = block_value G sp b" by (auto split: option.splits)
    with ok have y: "list_all (exits_stmt k) b" by simp
    show "moves C L d c (Suc d)" unfolding b(2) using els [OF b(1)] y st r by (rule obeys_value)
  qed
qed

lemma if_stmt_sound:
  assumes cond: "\<And>c b. (c, b) \<in> set branches \<Longrightarrow> expr_sound G c"
    and block: "\<And>c b s. (c, b) \<in> set branches \<Longrightarrow> s \<in> set b \<Longrightarrow> stmt_sound G s"
    and els: "\<And>b s. els = Some b \<Longrightarrow> s \<in> set b \<Longrightarrow> stmt_sound G s"
  shows "obeys G (\<lambda>k. list_all (\<lambda>(c, b). exits_expr k c \<and> list_all (exits_stmt k) b) branches \<and>
       (case els of None \<Rightarrow> True | Some b \<Rightarrow> list_all (exits_stmt k) b)) 0
     (cg_if_stmt (map (\<lambda>(c, b). (compile_expr G c, block_stmts G b)) branches)
       (case els of None \<Rightarrow> None | Some b \<Rightarrow> Some (block_stmts G b)) sp')"
proof (rule obeysI, unfold add_0)
  fix k C L d
  assume ok: "list_all (\<lambda>(c, b). exits_expr k c \<and> list_all (exits_stmt k) b) branches \<and>
       (case els of None \<Rightarrow> True | Some b \<Rightarrow> list_all (exits_stmt k) b)"
    and st: "settled G C" and fl: "b_floor C \<le> d" and r: "ready k C L d"
  show "moves C L d (cg_if_stmt (map (\<lambda>(c, b). (compile_expr G c, block_stmts G b)) branches)
       (case els of None \<Rightarrow> None | Some b \<Rightarrow> Some (block_stmts G b)) sp') d"
  proof (rule moves_if_stmt [OF fl])
    fix c b assume "(c, b) \<in> set (map (\<lambda>(c, b). (compile_expr G c, block_stmts G b)) branches)"
    then obtain x y where m: "(x, y) \<in> set branches" "c = compile_expr G x" "b = block_stmts G y" by auto
    with ok have x: "exits_expr k x" and y: "list_all (exits_stmt k) y" by (auto simp: list_all_iff)
    have "moves C L d (compile_expr G x) (Suc d)" using cond [OF m(1)] x st r by (rule obeys_value)
    moreover have "moves C L d (block_stmts G y) d" by (rule obeys_block [OF block [OF m(1)] y st r])
    ultimately show "moves C L d c (Suc d) \<and> moves C L d b d" using m by simp
  next
    fix c assume "(case els of None \<Rightarrow> None | Some b \<Rightarrow> Some (block_stmts G b)) = Some c"
    then obtain b where b: "els = Some b" "c = block_stmts G b" by (auto split: option.splits)
    with ok have y: "list_all (exits_stmt k) b" by simp
    show "moves C L d c d" unfolding b(2) by (rule obeys_block [OF els [OF b(1)] y st r])
  qed
qed

lemma arms_move:
  assumes guard: "\<And>p g b e. (p, g, b) \<in> set arms \<Longrightarrow> g = Some e \<Longrightarrow> expr_sound G e"
    and body: "\<And>p g b. (p, g, b) \<in> set arms \<Longrightarrow> body_sound G sp b"
    and ok: "list_all (\<lambda>(p, g, b). (case g of None \<Rightarrow> True | Some e \<Rightarrow> exits_expr False e) \<and> exits_body k b) arms"
    and st: "settled G C" and fl: "b_floor C \<le> d" and r: "ready k C L d" and m: "(p, g, b) \<in> set arms"
  shows "arm_moves C L d (case g of None \<Rightarrow> None | Some e \<Rightarrow> Some (compile_expr G e)) (compile_body G sp b)"
proof -
  from ok m have g: "case g of None \<Rightarrow> True | Some e \<Rightarrow> exits_expr False e" and b: "exits_body k b"
    by (auto simp: list_all_iff)
  have "moves C L (Suc d) (compile_expr G e) (Suc (Suc d))" if e: "g = Some e" for e
    using guard [OF m e] g e st fl by (auto intro!: obeys_pushed)
  moreover have "moves C L d (compile_body G sp b) (Suc d)" using body [OF m] b st r by (rule obeys_value)
  ultimately show ?thesis by (auto simp: arm_moves_def split: option.splits)
qed

text \<open>Steps over one operand, over two, and over a list of operands.\<close>

lemma obeys_one:
  assumes "obeys G ok n g"
    and "\<And>C L d. settled G C \<Longrightarrow> b_floor C \<le> d \<Longrightarrow> moves C L d g (n + d) \<Longrightarrow> moves C L d h (m + d)"
  shows "obeys G ok m h"
  by (rule obeysI, rule assms(2), assumption, assumption) (rule obeysD [OF assms(1)])

lemma obeys_two:
  assumes g: "obeys G ok (Suc 0) g" and h: "obeys G ok' (Suc 0) h"
    and "\<And>C L d. settled G C \<Longrightarrow> b_floor C \<le> d \<Longrightarrow> moves C L d g (Suc d) \<Longrightarrow> pusher C L h \<Longrightarrow> moves C L d f (m + d)"
  shows "obeys G (\<lambda>k. ok k \<and> ok' False) m f"
  by (rule obeysI, elim conjE, rule assms(3), assumption, assumption)
    (rule obeys_value [OF g], assumption+, rule obeys_pusher [OF h])

lemma obeys_args:
  assumes "\<And>e. e \<in> set es \<Longrightarrow> expr_sound G e"
    and "\<And>C L d. settled G C \<Longrightarrow> b_floor C \<le> d \<Longrightarrow> all_push C L (map (compile_expr G) es) \<Longrightarrow> moves C L d f (m + d)"
  shows "obeys G (\<lambda>k. list_all (exits_expr False) es) m f"
  by (rule obeysI, rule assms(2), assumption, assumption) (rule all_pushI [OF assms(1)])

lemma obeys_plain:
  "(\<And>C L d. b_floor C \<le> d \<Longrightarrow> moves C L d f (m + d)) \<Longrightarrow> obeys G (\<lambda>k. ok k) m f"
  by (rule obeysI)

lemmas unfolded = compile_expr.simps compile_stmt.simps compile_body.simps exits_expr.simps exits_stmt.simps
  exits_body.simps

text \<open>The constructs, one lemma each.\<close>

lemma sound_literals:
  "expr_sound G (Expr i sp (EInt n))" "expr_sound G (Expr i sp (EFloat x))" "expr_sound G (Expr i sp (EBool b))"
  "expr_sound G (Expr i sp (EChar c))" "expr_sound G (Expr i sp EUnit)" "expr_sound G (Expr i sp (EStr t))"
  "expr_sound G (Expr i sp (EIdent name))" "expr_sound G (Expr i sp ESelf)"
  by (rule obeys_plain; simp add: moves_emit_const moves_ident moves_load_self moves_load_bool;
      rule moves_emit; simp add: op_eval)+

lemma sound_unary: "expr_sound G e \<Longrightarrow> expr_sound G (Expr i sp (EUnary u e))"
  unfolding unfolded by (erule obeys_one) (simp add: moves_unary)

lemma sound_wrap: "expr_sound G e \<Longrightarrow> expr_sound G (Expr i sp (EOptionWrap e))"
  unfolding unfolded by (erule obeys_one) (simp add: moves_option_wrap)

lemma sound_to_string: "expr_sound G e \<Longrightarrow> expr_sound G (Expr i sp (EToString e))"
  unfolding unfolded by (erule obeys_one) (auto intro!: moves_two moves_emit simp: op_eval)

lemma sound_field: "expr_sound G e \<Longrightarrow> expr_sound G (Expr i sp (EField e name))"
  unfolding unfolded by (erule obeys_one) (simp add: moves_field)

lemma sound_binary: "expr_sound G x \<Longrightarrow> expr_sound G y \<Longrightarrow> expr_sound G (Expr i sp (EBinary b x y))"
  unfolding unfolded by (erule obeys_two, assumption) (simp add: moves_binary)

lemma moves_pair_op:
  assumes "moves C L d g (Suc d)" and "pusher C L h" and fl: "b_floor C \<le> d" and op: "binary_like op"
  shows "moves C L d (cg_seq [g, h, emit_op op sp]) (Suc d)"
  by (rule moves_three [OF assms(1) pusherD [OF assms(2)] moves_binary_like [OF op fl]]) (simp add: fl le_SucI)

lemma sound_index: "expr_sound G x \<Longrightarrow> expr_sound G y \<Longrightarrow> expr_sound G (Expr i sp (EIndex x y))"
  unfolding unfolded
  by (erule obeys_two, assumption)
    (simp add: moves_pair_op binary_like_def needs_def pushes_def slots_used_def transition_def net_effect_def)

lemma sound_range: "expr_sound G x \<Longrightarrow> expr_sound G y \<Longrightarrow> expr_sound G (Expr i sp (ERange x y incl))"
  unfolding unfolded
  by (erule obeys_two, assumption)
    (simp add: moves_pair_op binary_like_def needs_def pushes_def slots_used_def transition_def net_effect_def)

lemma sound_call:
  assumes callee: "expr_sound G callee" and args: "\<And>e. e \<in> set args \<Longrightarrow> expr_sound G e"
    and recv: "\<And>j sp' n recv name. callee = Expr j sp' n \<Longrightarrow> n = EField recv name \<Longrightarrow> expr_sound G recv"
  shows "expr_sound G (Expr i sp (ECall callee args))"
  unfolding unfolded
proof (rule obeysI, unfold add_Suc add_0, elim conjE, rule moves_call)
  fix k C L d
  assume st: "settled G C" and fl: "b_floor C \<le> d" and r: "ready k C L d"
    and ok: "exits_expr k callee" "list_all (exits_expr False) args"
  show "settled G C" "b_floor C \<le> d" by (rule st, rule fl)
  show "moves C L d (compile_expr G callee) (Suc d)" using callee ok(1) st r by (rule obeys_value)
  show "all_push C L (map (compile_expr G) args)" by (rule all_pushI [OF args ok(2) st])
  fix e name assume f: "expr_node callee = EField e name"
  then obtain j sp' where c: "callee = Expr j sp' (EField e name)" by (cases callee) (simp add: expr_node_def)
  with ok(1) have e: "exits_expr k e" by simp
  have "moves C L d (compile_expr G e) (Suc d)" using recv [OF c refl] e st r by (rule obeys_value)
  then show "moves C L d (case callee of Expr j sp' (EField recv name) \<Rightarrow> compile_expr G recv | _ \<Rightarrow> gpanic MissingEntry) (Suc d)"
    by (simp add: c)
qed

lemma sound_lambda: "body_sound G sp b \<Longrightarrow> expr_sound G (Expr i sp (ELambda b))"
proof (unfold unfolded, rule obeysI, unfold add_Suc add_0, rule moves_lambda)
  fix b' k C and L :: loop_ctx and d
  assume b: "body_sound G sp b" and ok: "exits_body True b" and st: "settled G C"
  show "moves (fresh (g_structs G) b') ([], []) 0 (compile_body G sp b) (Suc 0)"
    using b ok settled_fresh [OF settled_small [OF st]] ready_fresh by (rule obeys_value)
qed

lemma sound_if:
  "(\<And>c b. (c, b) \<in> set branches \<Longrightarrow> expr_sound G c) \<Longrightarrow> (\<And>c b. (c, b) \<in> set branches \<Longrightarrow> block_sound G sp b) \<Longrightarrow>
   (\<And>b. els = Some b \<Longrightarrow> block_sound G sp b) \<Longrightarrow> expr_sound G (Expr i sp (EIf branches els))"
  unfolding unfolded by (rule if_value_sound)

lemma sound_match:
  assumes s: "expr_sound G scrutinee" and guard: "\<And>p g b e. (p, g, b) \<in> set arms \<Longrightarrow> g = Some e \<Longrightarrow> expr_sound G e"
    and body: "\<And>p g b. (p, g, b) \<in> set arms \<Longrightarrow> body_sound G sp b"
  shows "expr_sound G (Expr i sp (EMatch scrutinee arms))"
  unfolding unfolded
proof (rule obeysI, unfold add_Suc add_0, elim conjE, rule moves_match)
  fix k C L d
  assume st: "settled G C" and fl: "b_floor C \<le> d" and r: "ready k C L d" and ok: "exits_expr k scrutinee"
    "list_all (\<lambda>(p, g, b). (case g of None \<Rightarrow> True | Some e \<Rightarrow> exits_expr False e) \<and> exits_body k b) arms"
  show "b_floor C \<le> d" by (rule fl)
  show "moves C L d (compile_expr G scrutinee) (Suc d)" using s ok(1) st r by (rule obeys_value)
  fix t g b
  assume "(t, g, b) \<in> set (map (\<lambda>(p, g, b). (pattern_test G p,
      (case g of None \<Rightarrow> None | Some e \<Rightarrow> Some (compile_expr G e)), compile_body G sp b)) arms)"
  then obtain p g' b' where m: "(p, g', b') \<in> set arms" "t = pattern_test G p"
    "g = (case g' of None \<Rightarrow> None | Some e \<Rightarrow> Some (compile_expr G e))" "b = compile_body G sp b'" by auto
  have "arm_moves C L d g b" unfolding m(3,4) by (rule arms_move [OF guard body ok(2) st fl r m(1)])
  moreover have "tests C L (Suc d) t" unfolding m(2) by (rule tests_pattern) (rule le_SucI [OF fl])
  ultimately show "tests C L (Suc d) t \<and> arm_moves C L d g b" by blast
qed

lemma sound_catch:
  assumes s: "expr_sound G subject" and guard: "\<And>p g b e. (p, g, b) \<in> set arms \<Longrightarrow> g = Some e \<Longrightarrow> expr_sound G e"
    and body: "\<And>p g b. (p, g, b) \<in> set arms \<Longrightarrow> body_sound G sp b"
  shows "expr_sound G (Expr i sp (ECatch subject exhaustive arms))"
  unfolding unfolded
proof (rule obeysI, unfold add_Suc add_0, elim conjE, rule moves_catch)
  fix k C L d
  assume st: "settled G C" and fl: "b_floor C \<le> d" and r: "ready k C L d" and ok: "exits_expr False subject"
    "list_all (\<lambda>(ts, g, b). (case g of None \<Rightarrow> True | Some e \<Rightarrow> exits_expr False e) \<and> exits_body k b) arms"
  show "b_floor C \<le> d" by (rule fl)
  show "moves C' ([], os) d (compile_expr G subject) (Suc d)" if "b_structs C' = b_structs C" "b_floor C' = d" for C' os
  proof -
    have "settled G C'" "b_floor C' \<le> d" using st that by (simp_all add: settled_def)
    with s ok(1) show ?thesis by (rule obeys_pushed)
  qed
  fix ts g b
  assume "(ts, g, b) \<in> set (map (\<lambda>(ts, g, b). (ts,
      (case g of None \<Rightarrow> None | Some e \<Rightarrow> Some (compile_expr G e)), compile_body G sp b)) arms)"
  then obtain g' b' where m: "(ts, g', b') \<in> set arms"
    "g = (case g' of None \<Rightarrow> None | Some e \<Rightarrow> Some (compile_expr G e))" "b = compile_body G sp b'" by auto
  show "arm_moves C L d g b" unfolding m(2,3) by (rule arms_move [OF guard body ok(2) st fl r m(1)])
qed

lemma sound_vector:
  "(\<And>e. e \<in> set es \<Longrightarrow> expr_sound G e) \<Longrightarrow> expr_sound G (Expr i sp (EVector es))"
  unfolding unfolded
proof (rule obeys_args, assumption, unfold add_Suc add_0)
  fix C L d assume fl: "b_floor C \<le> d" and cs: "all_push C L (map (compile_expr G) es)"
  show "moves C L d (cg_elements ''vector literal'' ''elements'' (length es) MakeVector (map (compile_expr G) es) sp) (Suc d)"
    using args_pushed [OF cs fl] by (rule moves_elements [rotated]) (simp_all add: op_eval fl)
qed

lemma sound_tuple:
  "(\<And>e. e \<in> set es \<Longrightarrow> expr_sound G e) \<Longrightarrow> expr_sound G (Expr i sp (ETuple es))"
  unfolding unfolded
proof (rule obeys_args, assumption, unfold add_Suc add_0)
  fix C L d assume fl: "b_floor C \<le> d" and cs: "all_push C L (map (compile_expr G) es)"
  show "moves C L d (cg_elements ''tuple'' ''elements'' (length es) MakeTuple (map (compile_expr G) es) sp) (Suc d)"
    using args_pushed [OF cs fl] by (rule moves_elements [rotated]) (simp_all add: op_eval fl)
qed

lemma sound_enum:
  "(\<And>e. e \<in> set es \<Longrightarrow> expr_sound G e) \<Longrightarrow> expr_sound G (Expr i sp (EEnum name es))"
  unfolding unfolded by (rule obeys_args, assumption, unfold add_Suc add_0) (rule moves_enum)

lemma sound_map:
  assumes k: "\<And>x y. (x, y) \<in> set ps \<Longrightarrow> expr_sound G x" and v: "\<And>x y. (x, y) \<in> set ps \<Longrightarrow> expr_sound G y"
  shows "expr_sound G (Expr i sp (EMap ps))"
  unfolding unfolded
proof (rule obeysI, unfold add_Suc add_0)
  fix C L d
  assume st: "settled G C" and fl: "b_floor C \<le> d"
    and ok: "list_all (\<lambda>(x, y). exits_expr False x \<and> exits_expr False y) ps"
  let ?gs = "map (\<lambda>(k, v). cg_seq [compile_expr G k, compile_expr G v]) ps"
  have "moves C L d (cg_seq ?gs) (d + length ?gs * 2)"
  proof (rule moves_pushing)
    fix g n assume "g \<in> set ?gs" and n: "d \<le> n"
    then obtain x y where m: "(x, y) \<in> set ps" and g: "g = cg_seq [compile_expr G x, compile_expr G y]" by auto
    from m ok have e: "exits_expr False x" "exits_expr False y" by (auto simp: list_all_iff)
    have "moves C L n (compile_expr G x) (Suc n)" using k [OF m] e(1) st le_trans [OF fl n] by (rule obeys_pushed)
    moreover have "moves C L (Suc n) (compile_expr G y) (Suc (Suc n))"
      using v [OF m] e(2) st le_SucI [OF le_trans [OF fl n]] by (rule obeys_pushed)
    ultimately have "moves C L n g (Suc (Suc n))" unfolding g by (rule moves_two)
    then show "moves C L n g (n + 2)" by simp
  qed
  then have "moves C L d (cg_seq ?gs) (d + length ps * 2)" by simp
  then show "moves C L d (cg_elements ''map literal'' ''entries'' (length ps) MakeMap ?gs sp) (Suc d)"
    by (rule moves_elements [rotated]) (simp_all add: op_eval fl)
qed

lemma sound_struct:
  assumes v: "\<And>x e. (x, e) \<in> set fs \<Longrightarrow> expr_sound G e"
  shows "expr_sound G (Expr i sp (EStruct fs))"
  unfolding unfolded
proof (rule obeysI, unfold add_Suc add_0, rule moves_struct)
  fix C L
  assume st: "settled G C" and ok: "list_all (\<lambda>(x, e). exits_expr False e) fs"
  have "pusher C L (compile_expr G e)" if m: "(x, e) \<in> set fs" for x e
  proof -
    from m ok have "exits_expr False e" by (auto simp: list_all_iff)
    with v [OF m] show ?thesis using st by (rule obeys_pusher)
  qed
  then show "all_push C L (map snd (map (\<lambda>(x, v). (x, compile_expr G v)) fs))"
    by (auto simp: all_push_def)
qed

text \<open>Statements and blocks.\<close>

lemma sound_let: "expr_sound G e \<Longrightarrow> stmt_sound G (Stmt i sp (SLet e))"
  unfolding unfolded by (erule obeys_one) (simp add: moves_let)

lemma sound_expr_stmt: "expr_sound G e \<Longrightarrow> stmt_sound G (Stmt i sp (SExpr e))"
  unfolding unfolded by (erule obeys_one) (auto intro: moves_two moves_pop)

lemma moves_throw: "b_floor C \<le> d \<Longrightarrow> moves C L (Suc d) (emit_op Throw sp) d"
  by (rule movesI, rule spec_emit_ending) (simp_all add: op_eval)

lemma sound_throw: "expr_sound G e \<Longrightarrow> stmt_sound G (Stmt i sp (SThrow e))"
  unfolding unfolded by (erule obeys_one) (auto intro: moves_two moves_throw)

lemma sound_exits: "stmt_sound G (Stmt i sp SBreak)" "stmt_sound G (Stmt i sp SContinue)"
  unfolding unfolded by (auto intro!: obeysI moves_break moves_continue simp: ready_def)

lemma sound_return: "(\<And>e. v = Some e \<Longrightarrow> expr_sound G e) \<Longrightarrow> stmt_sound G (Stmt i sp (SReturn v))"
proof (unfold unfolded, rule obeysI, unfold add_0, rule moves_return)
  fix k C L d c
  assume e: "\<And>e. v = Some e \<Longrightarrow> expr_sound G e" and ok: "case v of None \<Rightarrow> True | Some e \<Rightarrow> exits_expr k e"
    and st: "settled G C" and r: "ready k C L d" and c: "(case v of None \<Rightarrow> None | Some e \<Rightarrow> Some (compile_expr G e)) = Some c"
  from c obtain x where x: "v = Some x" "c = compile_expr G x" by (auto split: option.splits)
  with ok have ok': "exits_expr k x" by simp
  show "moves C L d c (Suc d)" unfolding x(2) using e [OF x(1)] ok' st r by (rule obeys_value)
qed

lemma sound_if_stmt:
  "(\<And>c b. (c, b) \<in> set branches \<Longrightarrow> expr_sound G c) \<Longrightarrow>
   (\<And>c b s. (c, b) \<in> set branches \<Longrightarrow> s \<in> set b \<Longrightarrow> stmt_sound G s) \<Longrightarrow>
   (\<And>b s. els = Some b \<Longrightarrow> s \<in> set b \<Longrightarrow> stmt_sound G s) \<Longrightarrow> stmt_sound G (Stmt i sp (SIf branches els))"
  unfolding unfolded by (rule if_stmt_sound)

lemma sound_while:
  assumes c: "expr_sound G c" and b: "\<And>s. s \<in> set b \<Longrightarrow> stmt_sound G s"
  shows "stmt_sound G (Stmt i sp (SWhile c b))"
  unfolding unfolded
proof (rule obeysI, unfold add_0, elim conjE)
  fix k C and L :: loop_ctx and d
  assume st: "settled G C" and fl: "b_floor C \<le> d" and r: "ready k C L d"
    and ok: "exits_expr k c" "list_all (exits_stmt True) b"
  obtain ls os where L: "L = (ls, os)" by (cases L)
  have "moves C (ls, os) d (compile_expr G c) (Suc d)" using c ok(1) st r [unfolded L] by (rule obeys_value)
  moreover have "moves C ((d, False) # ls, os) d (block_stmts G b) d"
    by (rule obeys_block [OF b ok(2) st ready_while [OF fl]])
  ultimately show "moves C L d (cg_while (compile_expr G c) (block_stmts G b) sp) d"
    unfolding L by (rule moves_while [OF fl])
qed

lemma sound_for:
  assumes e: "expr_sound G e" and b: "\<And>s. s \<in> set b \<Longrightarrow> stmt_sound G s"
  shows "stmt_sound G (Stmt i sp (SFor p e b))"
  unfolding unfolded
proof (rule obeysI, unfold add_0, elim conjE)
  fix k C and L :: loop_ctx and d
  assume st: "settled G C" and fl: "b_floor C \<le> d" and r: "ready k C L d"
    and ok: "exits_expr k e" "list_all (exits_stmt True) b"
  obtain ls os where L: "L = (ls, os)" by (cases L)
  have "moves C (ls, os) d (compile_expr G e) (Suc d)" using e ok(1) st r [unfolded L] by (rule obeys_value)
  moreover have "moves C ((Suc d, True) # ls, os) (Suc d) (block_stmts G b) (Suc d)"
    by (rule obeys_block [OF b ok(2) st ready_for [OF fl]])
  ultimately show "moves C L d (cg_for G p (compile_expr G e) (block_stmts G b) sp) d"
    unfolding L by (rule moves_for [OF fl])
qed

lemma sound_assign:
  assumes e: "expr_sound G e"
    and field: "\<And>j sp' n recv name. target = Expr j sp' n \<Longrightarrow> n = EField recv name \<Longrightarrow> expr_sound G recv"
    and ix: "\<And>j sp' n recv ix. target = Expr j sp' n \<Longrightarrow> n = EIndex recv ix \<Longrightarrow> expr_sound G recv"
      "\<And>j sp' n recv ix. target = Expr j sp' n \<Longrightarrow> n = EIndex recv ix \<Longrightarrow> expr_sound G ix"
  shows "stmt_sound G (Stmt i sp (SAssign target e))"
  unfolding unfolded
proof (rule obeysI, unfold add_0)
  fix k C L d
  assume st: "settled G C" and fl: "b_floor C \<le> d" and r: "ready k C L d"
    and ok: "case target of
        Expr j sp' (EField recv name) \<Rightarrow> exits_expr k recv \<and> exits_expr False e
      | Expr j sp' (EIndex recv ix) \<Rightarrow> exits_expr k recv \<and> exits_expr False ix \<and> exits_expr False e
      | _ \<Rightarrow> exits_expr k e"
  have "exits_expr k e \<or> exits_expr False e" using ok by (auto split: expr.splits expr_node.splits)
  then have value_moves: "moves C L d (compile_expr G e) (Suc d)"
  proof
    assume "exits_expr k e"
    with e show ?thesis using st r by (rule obeys_value)
  next
    assume "exits_expr False e"
    with e show ?thesis using st fl by (rule obeys_pushed)
  qed
  show "moves C L d (cg_assign G target
       (case target of
          Expr j sp' (EField recv name) \<Rightarrow> compile_expr G recv
        | Expr j sp' (EIndex recv ix) \<Rightarrow> compile_expr G recv
        | _ \<Rightarrow> gpanic MissingEntry)
       (case target of Expr j sp' (EIndex recv ix) \<Rightarrow> compile_expr G ix | _ \<Rightarrow> gpanic MissingEntry)
       (compile_expr G e) sp) d"
  proof (rule moves_assign [OF fl value_moves])
    fix recv name assume f: "expr_node target = EField recv name"
    then obtain j sp' where t: "target = Expr j sp' (EField recv name)" by (cases target) (simp add: expr_node_def)
    with ok have k: "exits_expr k recv" and v: "exits_expr False e" by simp_all
    have "moves C L d (compile_expr G recv) (Suc d)" using field [OF t refl] k st r by (rule obeys_value)
    moreover have "pusher C L (compile_expr G e)" using e v st by (rule obeys_pusher)
    ultimately show "moves C L d (case target of
          Expr j sp' (EField recv name) \<Rightarrow> compile_expr G recv
        | Expr j sp' (EIndex recv ix) \<Rightarrow> compile_expr G recv
        | _ \<Rightarrow> gpanic MissingEntry) (Suc d) \<and> pusher C L (compile_expr G e)" by (simp add: t)
  next
    fix recv x assume f: "expr_node target = EIndex recv x"
    then obtain j sp' where t: "target = Expr j sp' (EIndex recv x)" by (cases target) (simp add: expr_node_def)
    with ok have k: "exits_expr k recv" and x: "exits_expr False x" and v: "exits_expr False e" by simp_all
    have "moves C L d (compile_expr G recv) (Suc d)" using ix(1) [OF t refl] k st r by (rule obeys_value)
    moreover have "pusher C L (compile_expr G x)" using ix(2) [OF t refl] x st by (rule obeys_pusher)
    moreover have "pusher C L (compile_expr G e)" using e v st by (rule obeys_pusher)
    ultimately show "moves C L d (case target of
          Expr j sp' (EField recv name) \<Rightarrow> compile_expr G recv
        | Expr j sp' (EIndex recv ix) \<Rightarrow> compile_expr G recv
        | _ \<Rightarrow> gpanic MissingEntry) (Suc d) \<and>
      pusher C L (case target of Expr j sp' (EIndex recv ix) \<Rightarrow> compile_expr G ix | _ \<Rightarrow> gpanic MissingEntry) \<and>
      pusher C L (compile_expr G e)" by (simp add: t)
  qed
qed

lemma sound_block_Nil: "block_sound G sp []"
  unfolding block_value.simps by (rule obeys_plain) (simp, rule moves_emit, simp_all add: op_eval)

lemma moves_then_unit:
  "b_floor C \<le> d \<Longrightarrow> moves C L d g d \<Longrightarrow> moves C L d (cg_seq [g, emit_op LoadUnit sp]) (Suc d)"
  by (rule moves_two, assumption, rule moves_emit) (simp_all add: op_eval)

lemma sound_block_Cons:
  assumes more: "ss \<noteq> [] \<Longrightarrow> stmt_sound G s" "ss \<noteq> [] \<Longrightarrow> block_sound G sp ss"
    and last_expr: "\<And>i sp' e. ss = [] \<Longrightarrow> s = Stmt i sp' (SExpr e) \<Longrightarrow> expr_sound G e"
    and last_if: "\<And>i sp' branches els c b. ss = [] \<Longrightarrow> s = Stmt i sp' (SIf branches els) \<Longrightarrow> (c, b) \<in> set branches \<Longrightarrow>
        expr_sound G c \<and> block_sound G sp' b"
      "\<And>i sp' branches els b. ss = [] \<Longrightarrow> s = Stmt i sp' (SIf branches els) \<Longrightarrow> els = Some b \<Longrightarrow> block_sound G sp' b"
    and last_other: "\<And>i sp' n. ss = [] \<Longrightarrow> s = Stmt i sp' n \<Longrightarrow> (\<forall>e. n \<noteq> SExpr e) \<Longrightarrow> (\<forall>bs els. n \<noteq> SIf bs els) \<Longrightarrow>
        stmt_sound G s"
  shows "block_sound G sp (s # ss)"
proof (cases "ss = []")
  case False
  show ?thesis
  proof (rule obeysI, unfold add_Suc add_0)
    fix k C L d
    assume ok: "list_all (exits_stmt k) (s # ss)" and st: "settled G C" and r: "ready k C L d"
    from ok have s: "exits_stmt k s" and ss: "list_all (exits_stmt k) ss" by simp_all
    have "moves C L d (compile_stmt G s) d" using more(1) [OF False] s st r by (rule obeys_stmt)
    moreover have "moves C L d (block_value G sp ss) (Suc d)" using more(2) [OF False] ss st r by (rule obeys_value)
    ultimately show "moves C L d (block_value G sp (s # ss)) (Suc d)"
      using False by (simp del: cg_seq.simps add: moves_two)
  qed
next
  case True
  obtain i sp' n where s: "s = Stmt i sp' n" by (cases s)
  show ?thesis
  proof (cases "(\<exists>e. n = SExpr e) \<or> (\<exists>bs els. n = SIf bs els)")
    case False
    then have st: "stmt_sound G s" by (intro last_other [OF True s]) auto
    have bv: "block_value G sp [s] = cg_seq [compile_stmt G s, emit_op LoadUnit sp]"
      using False by (auto simp: s split: stmt_node.split)
    have "obeys G (\<lambda>k. exits_stmt k s) (Suc 0) (cg_seq [compile_stmt G s, emit_op LoadUnit sp])"
      using st by (rule obeys_one) (simp add: moves_then_unit)
    then show ?thesis unfolding True bv by simp
  next
    case n: True
    then show ?thesis
    proof (elim disjE exE)
      fix e assume "n = SExpr e"
      with s have s: "s = Stmt i sp' (SExpr e)" by simp
      show ?thesis using last_expr [OF True s] by (simp add: True s)
    next
      fix bs els assume "n = SIf bs els"
      with s have s: "s = Stmt i sp' (SIf bs els)" by simp
      from if_value_sound [of bs G sp' els sp'] last_if [OF True s]
      show ?thesis by (simp add: True s)
    qed
  qed
qed

lemma compile_sound:
  "expr_sound G e" "stmt_sound G s" "block_sound G sp ss" "body_sound G sp b"
proof (induction G e and G s and G sp ss and G sp b rule: compile_expr_compile_stmt_block_value_compile_body.induct)
  case (9 G i sp callee args)
  show ?case by (rule sound_call [OF 9(1) 9(3) 9(2)])
next
  case (16 G i sp body)
  then show ?case by (rule sound_lambda)
next
  case (17 G i sp branches els)
  show ?case
    by (rule sound_if) (erule 17(1) [OF _ refl], erule 17(2) [OF _ refl], erule 17(3))
next
  case (18 G i sp scrutinee arms)
  show ?case
    by (rule sound_match [OF 18(1)]) (erule 18(2) [OF _ refl refl], assumption, erule 18(3) [OF _ refl refl])
next
  case (20 G i sp ps)
  show ?case by (rule sound_map) (erule 20(1) [OF _ refl], erule 20(2) [OF _ refl])
next
  case (22 G i sp fs)
  show ?case by (rule sound_struct) (erule 22(1) [OF _ refl])
next
  case (24 G i sp subject arms)
  show ?case
    by (rule sound_catch [OF 24(1)]) (erule 24(2) [OF _ refl refl], assumption, erule 24(3) [OF _ refl refl])
next
  case (27 G i sp target e)
  show ?case by (rule sound_assign [OF 27(4) 27(1,2,3)])
next
  case (32 G i sp branches els)
  show ?case
    by (rule sound_if_stmt) (erule 32(1) [OF _ refl], erule 32(2) [OF _ refl], assumption, erule 32(3), assumption)
next
  case (37 G sp s ss)
  show ?case
  proof (rule sound_block_Cons)
    show "stmt_sound G s" "block_sound G sp ss" if "ss \<noteq> []" using that by (rule 37(1), rule 37(2))
  next
    fix i sp' e assume "ss = []" "s = Stmt i sp' (SExpr e)"
    then show "expr_sound G e" by (intro 37(14)) auto
  next
    fix i sp' branches els c b assume "ss = []" "s = Stmt i sp' (SIf branches els)" "(c, b) \<in> set branches"
    then show "expr_sound G c \<and> block_sound G sp' b" by (intro conjI 37(9,10)) auto
  next
    fix i sp' branches els b assume "ss = []" "s = Stmt i sp' (SIf branches els)" "els = Some b"
    then show "block_sound G sp' b" by (intro 37(11)) auto
  next
    fix i sp' n assume a: "ss = []" "s = Stmt i sp' n" "\<forall>e. n \<noteq> SExpr e" "\<forall>bs els. n \<noteq> SIf bs els"
    show "stmt_sound G s"
    proof (cases n)
      case (SLet e)
      with a show ?thesis by (intro 37(3)) auto
    next
      case (SAssign t e)
      with a show ?thesis by (intro 37(4)) auto
    next
      case (SReturn v)
      with a show ?thesis by (intro 37(5)) auto
    next
      case SBreak
      with a show ?thesis by (intro 37(6)) auto
    next
      case SContinue
      with a show ?thesis by (intro 37(7)) auto
    next
      case (SThrow e)
      with a show ?thesis by (intro 37(8)) auto
    next
      case (SWhile c b)
      with a show ?thesis by (intro 37(12)) auto
    next
      case (SFor p e b)
      with a show ?thesis by (intro 37(13)) auto
    qed (use a in simp_all)
  qed
qed (rule sound_literals sound_field sound_index sound_unary sound_binary sound_wrap sound_to_string sound_vector
    sound_tuple sound_range sound_enum sound_let sound_return sound_exits sound_throw sound_while sound_for
    sound_expr_stmt sound_block_Nil | assumption | (unfold unfolded, assumption))+

end
