(* ===== verification/Vm_Fuel.thy ===== *)
theory Vm_Fuel
  imports Vm_Runs
begin

text \<open>
  Fuel only decides whether a run is over. More fuel never changes a result, so a program has
  at most one outcome; \<open>below\<close> is the order in which a spent run is below every outcome.
\<close>

section \<open>Approximation\<close>

definition below :: "('a, 's) outcome \<Rightarrow> ('a, 's) outcome \<Rightarrow> bool" where
  "below r r' \<longleftrightarrow> r = OutOfFuel \<or> r = r'"

lemma below_done [simp]:
  "below (Returns x s) r \<longleftrightarrow> r = Returns x s"
  "below (Raises sig s) r \<longleftrightarrow> r = Raises sig s"
  "below (Crash c) r \<longleftrightarrow> r = Crash c"
  "below OutOfFuel r"
  by (auto simp: below_def)

named_theorems mono_rules \<open>monotonicity of the machine in its recursive calls\<close>

lemma below_refl [simp]: "below r r"
  by (simp add: below_def)

lemma below_bind [mono_rules]:
  assumes "below r r'" and "\<And>x s. below (f x s) (f' x s)"
  shows "below (bind r f) (bind r' f')"
proof (cases r)
  case (Returns x s)
  with assms(1) have "r' = Returns x s" by (simp add: below_def)
  with Returns assms(2) [of x s] show ?thesis by simp
qed (use assms(1) in \<open>auto simp: below_def\<close>)

lemma below_run_prog:
  assumes "\<And>callee args s. below (cv callee args s) (cv' callee args s)"
    and "\<And>func args s. below (cf func args s) (cf' func args s)"
  shows "below (run_prog cv cf p s) (run_prog cv' cf' p s)"
proof (induction p arbitrary: s)
  case (PCall callee args k)
  have IH: "below (run_prog cv cf (k r) t) (run_prog cv' cf' (k r) t)" for r t
    by (rule PCall.IH) simp
  from assms(1) [of callee args s] show ?case
    by (cases "cv callee args s") (auto simp: IH)
next
  case (PFunc func args k)
  have IH: "below (run_prog cv cf (k r) t) (run_prog cv' cf' (k r) t)" for r t
    by (rule PFunc.IH) simp
  from assms(2) [of func args s] show ?case
    by (cases "cf func args s") (auto simp: IH)
qed simp_all

definition run_below :: "'w runner \<Rightarrow> 'w runner \<Rightarrow> bool" where
  "run_below run run' \<longleftrightarrow> (\<forall>p s. below (run p s) (run' p s))"

lemma run_belowD: "run_below run run' \<Longrightarrow> below (run p s) (run' p s)"
  by (simp add: run_below_def)

section \<open>Instructions\<close>

lemma below_ordering_fallback:
  assumes "run_below run run'"
  shows "below (ordering_fallback E run a b f s) (ordering_fallback E run' a b f s)"
proof -
  have "below (bind (run (call_struct_by_name E a ''cmp'' [b]) s) g)
      (bind (run' (call_struct_by_name E a ''cmp'' [b]) s) g)" for g :: "val \<Rightarrow> 'a vm \<Rightarrow> (bool, 'a vm) outcome"
    by (rule below_bind [OF run_belowD [OF assms] below_refl])
  then show ?thesis by (simp add: ordering_fallback_def)
qed

lemma below_ordering [mono_rules]:
  assumes "run_below run run'"
  shows "below (ordering_op E run f s) (ordering_op E run' f s)"
proof -
  have "below (case val_cmp a b of Some r \<Rightarrow> Returns (f r) s | None \<Rightarrow> ordering_fallback E run a b f s)
      (case val_cmp a b of Some r \<Rightarrow> Returns (f r) s | None \<Rightarrow> ordering_fallback E run' a b f s)" for a b s
    using below_ordering_fallback [OF assms] by (cases "val_cmp a b") simp_all
  then show ?thesis
    unfolding ordering_op_def by (intro mono_rules below_refl)
qed

lemma below_call_value [mono_rules]:
  assumes "run_below run run'"
  shows "below (call_value_op E run argc s) (call_value_op E run' argc s)"
  unfolding call_value_op_def Let_def
  by (auto intro!: mono_rules run_belowD [OF assms] assms split: val.split)

lemma below_call_builtin [mono_rules]:
  assumes "run_below run run'"
  shows "below (op_call_builtin E run b argc s) (op_call_builtin E run' b argc s)"
  unfolding op_call_builtin_def by (intro mono_rules run_belowD [OF assms] assms below_refl)

lemma below_call_method_dyn [mono_rules]:
  assumes "run_below run run'"
  shows "below (op_call_method_dyn E run name argc s) (op_call_method_dyn E run' name argc s)"
  unfolding op_call_method_dyn_def call_method_dyn_def Let_def
  by (intro mono_rules run_belowD [OF assms] assms below_refl) (auto intro!: mono_rules run_belowD [OF assms] assms split: val.split option.split)

lemma below_bind_builtin_member [mono_rules]:
  assumes "run_below run run'"
  shows "below (bind_builtin_member E run recv name s) (bind_builtin_member E run' recv name s)"
  unfolding bind_builtin_member_def by (auto intro!: mono_rules run_belowD [OF assms] assms split: option.split)

lemma below_bind_member [mono_rules]:
  assumes "run_below run run'"
  shows "below (bind_member_by_name E run recv name s) (bind_member_by_name E run' recv name s)"
  unfolding bind_member_by_name_def by (auto intro!: mono_rules run_belowD [OF assms] assms split: val.split option.split)

lemma below_bind_method_dyn [mono_rules]:
  assumes "run_below run run'"
  shows "below (op_bind_method_dyn E run name s) (op_bind_method_dyn E run' name s)"
  unfolding op_bind_method_dyn_def by (intro mono_rules run_belowD [OF assms] assms below_refl)

lemma below_to_string [mono_rules]:
  assumes "run_below run run'"
  shows "below (op_to_string E run s) (op_to_string E run' s)"
  unfolding op_to_string_def by (intro mono_rules run_belowD [OF assms] assms below_refl)

lemma below_step: "run_below run run' \<Longrightarrow> below (step E run op s) (step E run' op s)"
  by (cases op) (simp_all add: step_def mono_rules)

lemma below_settle: "below r r' \<Longrightarrow> below (settle E k r) (settle E k r')"
  by (auto simp: below_def settle_def)

lemma below_one_instruction:
  "run_below run run' \<Longrightarrow> below (one_instruction E run k s) (one_instruction E run' k s)"
  unfolding one_instruction_def by (intro mono_rules below_refl below_settle below_step)

section \<open>The loop\<close>

definition exec_below ::
    "(nat \<Rightarrow> 'w vm \<Rightarrow> (unit, 'w vm) outcome) \<Rightarrow> (nat \<Rightarrow> 'w vm \<Rightarrow> (unit, 'w vm) outcome) \<Rightarrow> bool" where
  "exec_below exec exec' \<longleftrightarrow> (\<forall>k s. below (exec k s) (exec' k s))"

lemma below_exec_step:
  "run_below run run' \<Longrightarrow> exec_below exec exec' \<Longrightarrow> below (exec_step E run exec k s) (exec_step E run' exec' k s)"
  unfolding exec_step_def by (auto intro!: mono_rules below_one_instruction simp: exec_below_def)

lemma below_call_frames:
  assumes "exec_below exec exec'"
  shows "below (call_frames E exec func closure args s) (call_frames E exec' func closure args s)"
  unfolding call_frames_def
proof (intro mono_rules below_refl)
  fix x :: unit and t :: "'a vm"
  have "below (exec (length (vm_frames t)) (t\<lparr>vm_reentry := vm_reentry t + 1\<rparr>))
      (exec' (length (vm_frames t)) (t\<lparr>vm_reentry := vm_reentry t + 1\<rparr>))"
    using assms by (simp add: exec_below_def)
  then show "below
     (case exec (length (vm_frames t)) (t\<lparr>vm_reentry := vm_reentry t + 1\<rparr>) of
         Returns _ s' \<Rightarrow> pop (leave_nested s')
       | Raises sig s' \<Rightarrow> Raises sig (leave_nested s')
       | Crash c \<Rightarrow> Crash c
       | OutOfFuel \<Rightarrow> OutOfFuel)
     (case exec' (length (vm_frames t)) (t\<lparr>vm_reentry := vm_reentry t + 1\<rparr>) of
         Returns _ s' \<Rightarrow> pop (leave_nested s')
       | Raises sig s' \<Rightarrow> Raises sig (leave_nested s')
       | Crash c \<Rightarrow> Crash c
       | OutOfFuel \<Rightarrow> OutOfFuel)"
    by (auto simp: below_def)
qed

lemma below_rooted_call: "(\<And>s. below (F s) (F' s)) \<Longrightarrow> below (rooted_call vs F s) (rooted_call vs F' s)"
proof -
  assume "\<And>s. below (F s) (F' s)"
  then have "below (F (s\<lparr>vm_store := set_roots (\<lambda>rs. rs @ vs) s\<rparr>)) (F' (s\<lparr>vm_store := set_roots (\<lambda>rs. rs @ vs) s\<rparr>))" .
  then show ?thesis by (auto simp: below_def rooted_call_def)
qed

lemma below_call_value_native:
  assumes "exec_below exec exec'" and "run_below run run'"
  shows "below (call_value_native E exec run callee args s) (call_value_native E exec' run' callee args s)"
  unfolding call_value_native_def
  using assms
  by (cases callee) (auto intro!: mono_rules run_belowD [OF assms(2)] below_call_frames below_rooted_call)

lemma fuel_step:
  "exec_below (execute E n) (execute E (Suc n)) \<and>
     (\<forall>callee args s. below (call_callable E n callee args s) (call_callable E (Suc n) callee args s))"
proof (induction n)
  case 0
  show ?case by (simp add: exec_below_def below_def)
next
  case (Suc n)
  let ?run = "\<lambda>n. run_prog (call_callable E n) (\<lambda>func. call_frames E (execute E n) func None)"
  have run: "run_below (?run n) (?run (Suc n))"
    unfolding run_below_def using Suc.IH by (auto intro!: below_run_prog below_call_frames)
  have "exec_below (execute E (Suc n)) (execute E (Suc (Suc n)))"
    unfolding exec_below_def execute_Suc using run Suc.IH by (auto intro: below_exec_step)
  moreover have "below (call_callable E (Suc n) callee args s) (call_callable E (Suc (Suc n)) callee args s)"
    for callee args s
    unfolding call_callable_Suc using run Suc.IH by (auto intro: below_call_value_native)
  ultimately show ?case by blast
qed

section \<open>One outcome\<close>

lemma fuel_below:
  "below (execute E n k s) (execute E (n + j) k s)"
  "below (call_callable E n callee args s) (call_callable E (n + j) callee args s)"
proof -
  have trans: "below a c" if "below a b" and "below b c" for a b c :: "('c, 'd) outcome"
    using that by (auto simp: below_def)
  show "below (execute E n k s) (execute E (n + j) k s)"
  proof (induction j)
    case (Suc j)
    then show ?case
      using trans fuel_step [of E "n + j"] unfolding exec_below_def add_Suc_right by blast
  qed simp
  show "below (call_callable E n callee args s) (call_callable E (n + j) callee args s)"
  proof (induction j)
    case (Suc j)
    then show ?case
      using trans fuel_step [of E "n + j"] unfolding add_Suc_right by blast
  qed simp
qed

lemma below_native: "below (native E n p s) (native E (n + j) p s)"
  unfolding native_def call_function_def
  by (intro below_run_prog fuel_below below_call_frames) (simp add: exec_below_def fuel_below)

lemma below_call_entry: "below (call_entry E n func s) (call_entry E (n + j) func s)"
  unfolding call_entry_def by (intro mono_rules below_refl fuel_below)

lemma below_run_program: "below (run_program E n s) (run_program E (n + j) s)"
  unfolding run_program_def
  by (intro mono_rules below_call_entry) (auto intro!: mono_rules below_call_entry split: option.split)

lemma below_finish_error: "below (finish_error E n v s) (finish_error E (n + j) v s)"
proof (cases "nominal_tag E (vm_heap s) v")
  case (Some tag)
  then show ?thesis
    using below_native [of E n "display E v" s j] unfolding finish_error_def
    by (cases "native E n (display E v) s") auto
qed (simp add: finish_error_def)

lemma below_finish: "below r r' \<Longrightarrow> below (finish E n r) (finish E (n + j) r')"
proof (cases r)
  case (Raises sig s)
  moreover assume "below r r'"
  ultimately show ?thesis
    using below_finish_error [of E n _ s j] by (cases sig) (auto simp: finish_def)
qed (auto simp: finish_def)


lemmas demo_eval =
  call_callable_Suc call_value_native_def call_frames_def call_prep_def enter_function_def
  call_depth_def demo_start_def vm_new_def resize_def demo_fns demo_fn_simps
  execute_Suc exec_step_def one_instruction_def safepoint_def should_collect_def heap_new_def fetch_def
  nth_opt_def settle_def step_def op_load_local_def slot_get_def top_frame_def push_def pop_def op_const_def
  pool_get_def demo_pool_def const_val_def int_div_rem_def pop_int_def vm_panic_def capture_trace_def
  handler_for_def covers_def enter_handler_def catchable_def caught_value_def fresh_def truncate_stack_def
  op_caught_detail_def peek_def op_ret_def leave_nested_def

lemma demo_entry: "m_entry (e_module demo_env) = Some 1"
  by (simp add: demo_env_def demo_module_def)

lemma demo_run:
  "\<exists>s. vm_run demo_env (Suc (Suc (Suc (Suc (Suc (Suc (Suc (Suc (Suc (Suc (Suc (Suc (Suc (Suc j))))))))))))))
     demo_start = Returns OSuccess s"
  by (simp add: demo_eval demo_entry vm_run_def run_program_def call_entry_def finish_def op_call_def
      del: execute.simps call_callable.simps One_nat_def)


end
