(* ===== verification/Codegen_Programs.thy ===== *)
theory Codegen_Programs
  imports Codegen_Checked Vm_Fuel
begin

text \<open>
  Functions, items and programs: what \<open>compile_inner\<close> returns for a program whose loops are left with
  their operands settled, and how such a module runs.
\<close>

section \<open>Function frames\<close>

lemma spec_absurd:
  assumes "\<not> holds F"
  shows "spec (pt C L U F d) (gmodify (\<lambda>f. f\<lparr>f_self := x\<rparr>)) (\<lambda>_. pt C L U F d)"
  unfolding spec_def gmodify_def
proof (intro allI impI, unfold sum.case prod.case)
  fix f assume p: "pt C L U F d f"
  have "f_diags f \<noteq> []"
  proof
    assume "f_diags f = []"
    with p obtain ds where "code_wf C (live f) (f_handlers f) (f_code f) ds (U \<union> loop_open L f) (F \<union> loop_facts L f) d"
      unfolding pt_def by blast
    from code_wf_holds [OF this, of F] assms show False by blast
  qed
  with p show "pt C L U F d (f\<lparr>f_self := x\<rparr>)"
    by (simp add: pt_def loop_facts_def aligned_def)
qed

lemma self_then_floor:
  "gbind (gmodify (\<lambda>f. f\<lparr>f_self := x\<rparr>)) (\<lambda>_. reserve_slot_floor n) =
   gbind (reserve_slot_floor n) (\<lambda>_. gmodify (\<lambda>f. f\<lparr>f_self := x\<rparr>))"
proof
  fix f :: fcx
  show "gbind (gmodify (\<lambda>f. f\<lparr>f_self := x\<rparr>)) (\<lambda>_. reserve_slot_floor n) f =
      gbind (reserve_slot_floor n) (\<lambda>_. gmodify (\<lambda>f. f\<lparr>f_self := x\<rparr>)) f"
    by (cases f) (simp add: gbind_def gmodify_def reserve_slot_floor_def)
qed

lemma spec_param_slot:
  assumes n: "holds F \<Longrightarrow> position < 65535"
  shows "spec (pt C L U F d) (param_slot G (position, l)) (\<lambda>_. pt C L U F d)"
proof (cases l)
  case (Some x)
  then show ?thesis
    unfolding param_slot_def prod.sel Some option.case by (rule_tac spec_assign) (use n in \<open>auto simp: clamp16_def\<close>)
next
  case None
  show ?thesis
  proof (cases "clamp16 position < 65535")
    case True
    have "spec (pt C L U F d) (gbind (reserve_slot_floor (clamp16 position + 1))
        (\<lambda>_. gmodify (\<lambda>f. f\<lparr>f_self := Some (clamp16 position)\<rparr>))) (\<lambda>_. pt C L U F d)"
    proof (rule spec_bind [OF spec_floor])
      let ?F = "Live ` {..<clamp16 position + 1} \<union> F"
      have "spec (pt C L U ?F d) (gmodify (\<lambda>f. f\<lparr>f_self := Some (clamp16 position)\<rparr>)) (\<lambda>_. pt C L U ?F d)"
        by (rule spec_self) auto
      then show "spec (pt C L U ?F d) (gmodify (\<lambda>f. f\<lparr>f_self := Some (clamp16 position)\<rparr>)) (\<lambda>_. pt C L U F d)"
        by (rule spec_weaken) auto
    qed
    with True show ?thesis
      unfolding param_slot_def prod.sel None option.case self_then_floor [symmetric] by simp
  next
    case False
    with n have "\<not> holds F" by (auto simp: clamp16_def split: if_splits)
    note absurd = spec_absurd [OF this]
    have rest: "spec (pt C L U F d) (if g_debug G then gpanic TooMany else gret ()) (\<lambda>_. pt C L U F d)"
      by (simp add: spec_ret)
    from spec_bind [OF absurd rest] False show ?thesis
      unfolding param_slot_def prod.sel None option.case by simp
  qed
qed

section \<open>Items\<close>

definition exits_item :: "hir_item \<Rightarrow> bool" where
  "exits_item x \<longleftrightarrow>
     (case x of
        IFunc d \<Rightarrow> list_all (exits_stmt True) (fd_body d)
      | IStruct d \<Rightarrow> list_all (\<lambda>m. list_all (exits_stmt True) (fd_body m)) (sd_methods d)
      | ITopLet name e \<Rightarrow> exits_expr True e
      | ITest name sp b \<Rightarrow> list_all (exits_stmt True) b
      | IStmt b \<Rightarrow> list_all (exits_stmt True) b
      | _ \<Rightarrow> True)"

text \<open>Bodies in a frame of their own.\<close>

lemma own_block:
  assumes S: "small_structs (g_structs G)" and ok: "list_all (exits_stmt True) b"
  shows "moves (fresh (g_structs G) c) ([], []) 0 (block_stmts G b) 0"
  by (rule obeys_block [OF compile_sound(2) ok settled_fresh [OF S] ready_fresh])

lemma own_value:
  assumes S: "small_structs (g_structs G)" and ok: "list_all (exits_stmt True) b"
  shows "moves (fresh (g_structs G) c) ([], []) 0 (block_value G sp b) (Suc 0)"
  using compile_sound(3) ok settled_fresh [OF S] ready_fresh by (rule obeys_value)

lemma fresh_floor: "b_floor (fresh S b) \<le> d"
  by (simp add: fresh_def)

lemma spec_function_body:
  assumes S: "small_structs (g_structs G)" and ok: "list_all (exits_stmt True) (fd_body d)"
    and n: "b \<Longrightarrow> length params < 65535"
  shows "spec (pt (fresh (g_structs G) b) ([], []) {} {} 0) (function_body G params d) (\<lambda>_. finished (g_structs G) b)"
proof (rule spec_clean)
  let ?C = "fresh (g_structs G) b" let ?F = "insert (Cond (b_clean ?C)) {}"
  have h: "holds ?F \<Longrightarrow> length params < 65535" using n by (simp add: holds_def fresh_def)
  have slots: "spec (pt ?C ([], []) {} ?F 0) (cg_seq (map (param_slot G) (enumerate 0 params))) (\<lambda>_. pt ?C ([], []) {} ?F 0)"
  proof (rule spec_each)
    fix g assume "g \<in> set (map (param_slot G) (enumerate 0 params))"
    then obtain position l where g: "g = param_slot G (position, l)" and p: "position < length params"
      by (auto simp: in_set_enumerate_eq)
    show "spec (pt ?C ([], []) {} ?F 0) g (\<lambda>_. pt ?C ([], []) {} ?F 0)"
      unfolding g by (rule spec_param_slot) (use h p in auto)
  qed
  have unit: "moves ?C ([], []) 0 (emit_op LoadUnit sp) (Suc 0)" for sp
    by (rule moves_emit) (simp_all add: op_eval fresh_def)
  have body: "moves ?C ([], []) 0 (if fd_returns d then block_value G (fd_span d) (fd_body d)
        else cg_seq [block_stmts G (fd_body d), emit_op LoadUnit (fd_span d)]) (Suc 0)"
    by (rule moves_if) (rule own_value [OF S ok], rule moves_two [OF own_block [OF S ok] unit])
  show "spec (pt ?C ([], []) {} ?F 0) (function_body G params d) (\<lambda>_. finished (g_structs G) b)"
    unfolding function_body_def
    by (rule spec_seq_append [OF slots], rule spec_seq_Cons [OF spec_bind_shared [OF fresh_floor]],
        rule spec_seq_Cons [OF moves_spec [OF body]], rule spec_seq_Cons [OF spec_finish], rule spec_seq_Nil)
qed

lemma cx_step_conseq:
  assumes "\<And>b. spec (cx_good S b) g (\<lambda>_. cx_good S b)"
  shows "cx_step S g (\<lambda>_. True)"
  using assms by (simp add: cx_step_def)

lemma cx_step_function:
  assumes S: "small_structs (g_structs G)" and ok: "list_all (exits_stmt True) (fd_body d)"
  shows "cx_step (g_structs G) (compile_function G ref d func) (\<lambda>_. True)"
  unfolding compile_function_def Let_def
proof (rule cx_step_conseq, rule spec_bind)
  fix b arity_n
  let ?params = "case func_params (g_res G) ref of Some ps \<Rightarrow> ps | None \<Rightarrow> []"
  let ?R = "arity_n = length ?params \<and> length ?params \<le> max_params"
  show "spec (cx_good (g_structs G) b) (cx_arity (''`'' @ fd_name d @ ''`'') (length ?params) (fd_span d))
      (\<lambda>m. cx_good (g_structs G) (b \<and> (m = length ?params \<and> length ?params \<le> max_params)))"
    using cx_steps(2) unfolding cx_step_def by blast
  have "spec (cx_good (g_structs G) (b \<and> ?R))
      (gbind (build_fn G (KFunc (fd_returns d)) (fd_name d) arity_n 0 (fd_span d) (function_body G ?params d))
         (define_function G func)) (\<lambda>_. cx_good (g_structs G) (b \<and> ?R))"
    by (rule cx_build_define [OF S refl], rule spec_function_body [OF S ok]) (auto simp: max_params_def)
  then show "spec (cx_good (g_structs G) (b \<and> ?R))
      (gbind (build_fn G (KFunc (fd_returns d)) (fd_name d) arity_n 0 (fd_span d) (function_body G ?params d))
         (define_function G func)) (\<lambda>_. cx_good (g_structs G) b)"
    by (rule spec_conseq) (auto elim: cx_good_mono)
qed

lemma cx_step_expected:
  assumes "\<And>y. cx_step S (k y) (\<lambda>_. True)"
  shows "cx_step S (gbind (gexpect MissingEntry x) k) (\<lambda>_. True)"
  by (rule cx_step_bind [where R = "\<lambda>_. True" and R' = "\<lambda>_ _. True"])
    (auto intro: cx_step_expect assms)

lemma cx_step_item:
  assumes S: "small_structs (g_structs G)" and ok: "exits_item (item_of G it)"
  shows "cx_step (g_structs G) (compile_item G it) (\<lambda>_. True)"
proof -
  have skip: "cx_step (g_structs G) (gret ()) (\<lambda>_. True)" by (rule cx_step_ret) simp
  show ?thesis
  proof (cases "item_of G it")
    case (IFunc d)
    with ok have "list_all (exits_stmt True) (fd_body d)" by (simp add: exits_item_def)
    then show ?thesis
      unfolding compile_item_def IFunc hir_item.case by (intro cx_step_expected cx_step_function [OF S])
  next
    case (IStruct d)
    have each: "cx_step (g_structs G) (gbind (gexpect MissingEntry (g_func_of_method G (it, ix)))
        (compile_function G (DefMethod it ix) m)) (\<lambda>_. True)" if "m \<in> set (sd_methods d)" for ix m
      by (rule cx_step_expected, rule cx_step_function [OF S]) (use ok IStruct that in \<open>simp add: exits_item_def list_all_iff\<close>)
    show ?thesis
      unfolding compile_item_def IStruct hir_item.case compile_methods_def
      by (rule cx_step_seq) (auto simp: in_set_enumerate_eq intro!: each)
  qed (simp_all add: compile_item_def skip)
qed

lemma finished_toplevel:
  assumes S: "small_structs (g_structs G)" and ok: "\<And>it. it \<in> set roots \<Longrightarrow> exits_item (item_of G it)"
  shows "spec (pt (fresh (g_structs G) b) ([], []) {} {} 0)
    (cg_seq [cg_seq (map (toplevel_item G) roots), emit_op LoadUnit sp, emit_op Ret sp]) (\<lambda>_. finished (g_structs G) b)"
proof -
  let ?C = "fresh (g_structs G) b"
  have item: "moves ?C ([], []) 0 (toplevel_item G it) 0" if "it \<in> set roots" for it
  proof (cases "item_of G it")
    case (ITopLet name e)
    have "exits_expr True e" using ok [OF that] by (simp add: ITopLet exits_item_def)
    with compile_sound(1) have e: "moves ?C ([], []) 0 (compile_expr G e) (Suc 0)"
      using settled_fresh [OF S] ready_fresh by (rule obeys_value)
    show ?thesis
      unfolding toplevel_item_def ITopLet hir_item.case
      by (rule moves_bind [OF e], rule moves_expect, rule moves_emit) (simp_all add: op_eval fresh_def)
  next
    case (IStmt b')
    with ok [OF that] have "list_all (exits_stmt True) b'" by (simp add: exits_item_def)
    from own_block [OF S this] show ?thesis unfolding toplevel_item_def IStmt hir_item.case .
  qed (simp_all add: toplevel_item_def moves_ret)
  have items: "moves ?C ([], []) 0 (cg_seq (map (toplevel_item G) roots)) 0"
    by (rule moves_each) (auto intro: item)
  have unit: "moves ?C ([], []) 0 (emit_op LoadUnit sp) (Suc 0)"
    by (rule moves_emit) (simp_all add: op_eval fresh_def)
  show ?thesis
    by (intro spec_seq_Cons [OF moves_spec [OF items]] spec_seq_Cons [OF moves_spec [OF unit]]
        spec_seq_Cons [OF spec_finish] spec_seq_Nil)
qed

lemma cx_step_toplevel:
  assumes S: "small_structs (g_structs G)" and ok: "\<And>it. it \<in> set roots \<Longrightarrow> exits_item (item_of G it)"
  shows "cx_step (g_structs G) (compile_toplevel G roots) (\<lambda>_. True)"
proof (rule cx_step_conseq)
  fix b
  have "spec (cx_good (g_structs G) (b \<and> True)) (compile_toplevel G roots) (\<lambda>_. cx_good (g_structs G) (b \<and> True))"
    unfolding compile_toplevel_def by (rule cx_build_define [OF S refl finished_toplevel [OF S ok]])
  then show "spec (cx_good (g_structs G) b) (compile_toplevel G roots) (\<lambda>_. cx_good (g_structs G) b)" by simp
qed

lemma cx_step_test:
  assumes S: "small_structs (g_structs G)" and ok: "exits_item (item_of G (fst t))"
  shows "cx_step (g_structs G) (compile_test G t) (\<lambda>_. True)"
proof -
  have skip: "cx_step (g_structs G) (gpanic MissingEntry) (\<lambda>_. True)" by (simp add: cx_step_def)
  show ?thesis
  proof (cases "item_of G (fst t)")
    case (ITest name sp b')
    with ok have b': "list_all (exits_stmt True) b'" by (simp add: exits_item_def)
    let ?body = "cg_seq [block_stmts G b', emit_op LoadUnit sp, emit_op Ret sp]"
    have body: "spec (pt (fresh (g_structs G) b) ([], []) {} {} 0) ?body (\<lambda>_. finished (g_structs G) b)" for b
      by (intro spec_seq_Cons [OF moves_spec [OF own_block [OF S b']]] spec_seq_Cons [OF spec_finish] spec_seq_Nil
          spec_seq_Cons [OF moves_spec [OF moves_emit [where d' = "Suc 0"]]])
        (simp_all add: op_eval fresh_def)
    have "spec (cx_good (g_structs G) (b \<and> True))
       (gbind (gbind (build_fn G (KFunc False) (''<test '' @ name @ ''>'') 0 0 sp ?body) (define_function G (snd t)))
         (\<lambda>_. gmodify (\<lambda>c. c\<lparr>cx_tests := cx_tests c @ [\<lparr>test_name = name, test_func = snd t\<rparr>]\<rparr>)))
       (\<lambda>_. cx_good (g_structs G) (b \<and> True))" for b
      by (rule spec_bind [OF cx_build_define [OF S refl body]]) (simp add: spec_def gmodify_def cx_good_def)
    then show ?thesis
      unfolding compile_test_def ITest hir_item.case
      by (intro cx_step_conseq) (simp add: gbind_assoc)
  qed (simp_all add: compile_test_def skip)
qed

section \<open>The pass over the items\<close>

text \<open>The tests recorded are among \<open>T\<close>, and as long as nothing is reported the shapes are small and no
  function is defined.\<close>

definition laid_out :: "item_id set \<Rightarrow> bool \<Rightarrow> layout \<Rightarrow> bool" where
  "laid_out T b s \<longleftrightarrow>
     fst ` set (ly_func_of_test s) \<subseteq> T \<and>
     (cx_diags (ly_cx s) = [] \<longrightarrow>
        b \<and> small_structs (ly_structs s) \<and> (\<forall>x \<in> set (cx_functions (ly_cx s)). x = None))"

definition passes :: "item_id set \<Rightarrow> 'a pass \<Rightarrow> bool" where
  "passes T g \<longleftrightarrow> (\<forall>b. spec (laid_out T b) g (\<lambda>_. laid_out T b))"

lemma passes_bind: "passes T g \<Longrightarrow> (\<And>x. passes T (k x)) \<Longrightarrow> passes T (gbind g k)"
  unfolding passes_def by (blast intro: spec_bind)

lemma passes_ret: "passes T (gret x)"
  by (auto simp: passes_def intro: spec_ret)

lemma passes_seq: "(\<And>g. g \<in> set gs \<Longrightarrow> passes T g) \<Longrightarrow> passes T (cg_seq gs)"
  by (induction gs) (auto simp: cg_seq.simps intro!: passes_ret passes_bind)

lemma passes_gets: "(\<And>x. passes T (k x)) \<Longrightarrow> passes T (gbind (gets sel) k)"
  unfolding passes_def by (blast intro: bind_gets)

lemma passes_modify:
  "(\<And>s. ly_cx (h s) = ly_cx s \<and> ly_structs (h s) = ly_structs s \<and> ly_func_of_test (h s) = ly_func_of_test s) \<Longrightarrow> passes T (gmodify h)"
  by (simp add: passes_def spec_def gmodify_def laid_out_def)

lemma passes_reserve: "passes T (on_layout reserve_function)"
  by (auto simp: passes_def spec_def on_layout_def reserve_function_def laid_out_def)

lemma passes_report: "passes T (on_layout (report k m l sp))"
  by (simp add: passes_def spec_def on_layout_def report_def gmodify_def laid_out_def)

lemma passes_arity: "passes T (on_layout (cx_arity what n sp))"
  by (simp add: passes_def spec_def on_layout_def cx_arity_def narrow_def report_def gmodify_def gret_def gbind_def
      laid_out_def)

lemmas passing = passes_bind passes_ret passes_gets passes_modify passes_reserve passes_report passes_arity

lemma passes_methods: "passes T (collect_methods it ix ms)"
  by (induction ms arbitrary: ix) (auto intro!: passing)

lemma passes_variants: "passes T (collect_variants sp vs)"
  by (induction vs) (auto intro!: passing)

lemma report_members_limit:
  "spec (laid_out T b) (report_members what name u n sp) (\<lambda>_. laid_out T (b \<and> n \<le> max_members))"
  by (simp add: report_members_def spec_def on_layout_def report_def gmodify_def gret_def laid_out_def)

lemma passes_members: "passes T (report_members what name u n sp)"
  unfolding passes_def by (auto simp: laid_out_def intro: spec_conseq [OF report_members_limit])

lemma passes_struct: "passes T (collect_struct H it d)"
  unfolding collect_struct_def
proof (rule passes_gets)
  fix n
  let ?n = "length (sd_fields d)"
  let ?put = "\<lambda>methods s. s\<lparr>ly_structs := ly_structs s @
         [\<lparr>st_name = sd_name d, st_fields = sd_fields d, st_methods = methods,
           st_to_string = to_string_of (sd_methods d) methods\<rparr>]\<rparr>"
  have put: "spec (laid_out T (b \<and> ?n \<le> max_members)) (gmodify (?put methods)) (\<lambda>_. laid_out T b)" for b methods
    by (auto simp: spec_def gmodify_def laid_out_def small_structs_def max_members_def)
  have rest: "passes T (gbind (report_members ''struct'' (sd_name d) ''fields'' ?n (h_item_span H it)) (\<lambda>_.
      gbind (collect_methods it 0 (sd_methods d)) (\<lambda>methods. gmodify (?put methods))))"
    unfolding passes_def
  proof (intro allI spec_bind [OF report_members_limit] spec_bind [OF _ put])
    fix b
    show "spec (laid_out T (b \<and> ?n \<le> max_members)) (collect_methods it 0 (sd_methods d))
        (\<lambda>_. laid_out T (b \<and> ?n \<le> max_members))"
      using passes_methods unfolding passes_def by blast
  qed
  have panic: "passes T (gpanic TooMany :: unit pass)" by (simp add: passes_def)
  show "passes T (if 2 ^ 32 \<le> n then gpanic TooMany else
     gbind (gmodify (\<lambda>s. s\<lparr>ly_struct_of_item := (ly_struct_of_item s)(it \<mapsto> n)\<rparr>)) (\<lambda>_.
     gbind (report_members ''struct'' (sd_name d) ''fields'' ?n (h_item_span H it)) (\<lambda>_.
     gbind (collect_methods it 0 (sd_methods d)) (\<lambda>methods. gmodify (?put methods)))))"
    using panic passes_bind [OF passes_modify rest] by simp
qed

lemma passes_enum: "passes T (collect_enum H it d)"
proof -
  have panic: "passes T (gpanic TooMany :: unit pass)" by (simp add: passes_def)
  have if_rule: "passes T (if c then g else h)" if "passes T g" "passes T h" for c and g h :: "'a pass"
    using that by simp
  show ?thesis
    unfolding collect_enum_def
    by (intro passing if_rule panic passes_members passes_variants) simp_all
qed

lemma passes_item: "passes T (collect_item H it)"
proof -
  have global: "passes T (collect_global H it name)" for name
    unfolding collect_global_def by (auto intro!: passing)
  show ?thesis
    unfolding collect_item_def
    by (auto split: hir_item.split intro!: passing passes_struct passes_enum global)
qed

lemma passes_collect: "passes T (cx_collect H roots)"
  unfolding cx_collect_def by (auto intro!: passing passes_seq passes_item)

lemma passes_tests:
  assumes T: "set entry_roots \<subseteq> T"
  shows "passes T (collect_tests H entry_roots)"
proof -
  have put: "passes T (gmodify (\<lambda>s. s\<lparr>ly_func_of_test := ly_func_of_test s @ [(it, func)]\<rparr>))" if "it \<in> T" for it func
    using that by (auto simp: passes_def spec_def gmodify_def laid_out_def)
  then show ?thesis
    using T unfolding collect_tests_def
    by (intro passes_seq) (auto split: hir_item.split intro!: passing put)
qed

section \<open>Programs\<close>

text \<open>Every function and every block of the program leaves its loops with their operands settled.\<close>

definition exits_program :: "hir \<Rightarrow> item_id list \<Rightarrow> bool" where
  "exits_program H items \<longleftrightarrow> list_all (\<lambda>it. exits_item (h_item H it)) items"

lemma layout_passes:
  assumes T: "set entry_roots \<subseteq> T"
  shows "spec (laid_out T True) (gbind (cx_collect H roots) (\<lambda>_. if t then collect_tests H entry_roots else gret ())) (\<lambda>_. laid_out T True)"
proof -
  have "passes T (gbind (cx_collect H roots) (\<lambda>_. if t then collect_tests H entry_roots else gret ()))"
    by (rule passes_bind [OF passes_collect]) (simp add: passes_tests [OF T] passes_ret)
  then show ?thesis unfolding passes_def by blast
qed

lemma laid_out_new: "laid_out T True layout_new"
  by (simp add: laid_out_def layout_new_def small_structs_def)

lemma cx_step_bodies:
  assumes S: "small_structs (g_structs G)" and G: "g_hir G = H"
    and ok: "exits_program H roots" and tests: "\<And>t. t \<in> set ts \<Longrightarrow> exits_item (h_item H (fst t))"
  shows "cx_step (g_structs G) (compile_bodies G roots entry_roots ts) (\<lambda>_. True)"
proof -
  have items: "exits_item (item_of G it)" if "it \<in> set roots" for it
    using ok that G by (simp add: exits_program_def list_all_iff item_of_def)
  have test: "cx_step (g_structs G) (compile_test G t) (\<lambda>_. True)" if "t \<in> set ts" for t
    by (rule cx_step_test [OF S]) (simp add: item_of_def G tests [OF that])
  have bodies: "cx_step (g_structs G) (cg_seq [compile_toplevel G roots, cg_seq (map (compile_item G) roots),
       cg_seq (map (compile_test G) ts)]) (\<lambda>_. True)"
    by (rule cx_step_seq) (auto intro!: cx_step_seq cx_step_toplevel [OF S] cx_step_item [OF S] test items)
  have entry: "cx_step (g_structs G) (find_entry G entry_roots) (\<lambda>_. True)"
    unfolding find_entry_def
    by (auto split: option.split intro!: cx_step_ret cx_step_expected)
  show ?thesis
    unfolding compile_bodies_def by (rule cx_step_bind [OF bodies entry]) simp
qed

lemma cx_finish_checked:
  assumes "cx_good (ly_structs s) True c" and "small_structs (ly_structs s)"
  shows "case cx_finish s entry c of Inl p \<Rightarrow> benign p
    | Inr (m, ds) \<Rightarrow> ds = [] \<longrightarrow> small_structs (m_structs m) \<and> list_all (check_fn (m_structs m)) (m_functions m)"
proof -
  have "check_fn (ly_structs s) (the x)" if "x \<in> set (cx_functions c)" "None \<notin> set (cx_functions c)" "cx_diags c = []" for x
    using assms(1) that by (cases x) (auto simp: cx_good_def)
  with assms(2) show ?thesis by (simp add: cx_finish_def list_all_iff)
qed

lemma compile_inner_checked:
  assumes ok: "exits_program H (roots @ entry_roots)"
  shows "case compile_inner debug H roots entry_roots R T t of Inl p \<Rightarrow> benign p
    | Inr (m, ds) \<Rightarrow> ds = [] \<longrightarrow> small_structs (m_structs m) \<and> list_all (check_fn (m_structs m)) (m_functions m)"
proof -
  let ?pass = "gbind (cx_collect H roots) (\<lambda>_. if t then collect_tests H entry_roots else gret ())"
  have pass: "case ?pass layout_new of Inl p \<Rightarrow> benign p | Inr (_, s) \<Rightarrow> laid_out (set entry_roots) True s"
    using layout_passes [OF order_refl, of entry_roots H roots t] laid_out_new unfolding spec_def by blast
  show ?thesis
  proof (cases "?pass layout_new")
    case (Inl p)
    with pass show ?thesis by (simp add: compile_inner_def)
  next
    case (Inr r)
    obtain s where r: "r = ((), s)" by (cases r) simp
    with Inr pass have s: "laid_out (set entry_roots) True s" by simp
    show ?thesis
    proof (cases "cx_diags (ly_cx s) = []")
      case False
      with Inr r show ?thesis by (simp add: compile_inner_def cx_finish_def)
    next
      case True
      let ?G = "cg_of debug H R T s"
      have G: "g_structs ?G = ly_structs s" "g_hir ?G = H" by (simp_all add: cg_of_def)
      from s True have S: "small_structs (g_structs ?G)" and none: "\<And>x. x \<in> set (cx_functions (ly_cx s)) \<Longrightarrow> x = None"
        and ts: "fst ` set (ly_func_of_test s) \<subseteq> set entry_roots" by (auto simp: laid_out_def G)
      have start: "cx_good (ly_structs s) True (ly_cx s)" by (auto simp: cx_good_def dest: none)
      have roots: "exits_program H roots" using ok by (simp add: exits_program_def)
      have tests: "exits_item (h_item H (fst t))" if "t \<in> set (ly_func_of_test s)" for t
        using ok ts that by (auto simp: exits_program_def list_all_iff)
      from cx_step_bodies [OF S G(2) roots tests, of "ly_func_of_test s" entry_roots]
      have "spec (cx_good (ly_structs s) True) (compile_bodies ?G roots entry_roots (ly_func_of_test s))
          (\<lambda>_. cx_good (ly_structs s) True)"
        unfolding cx_step_def G by auto
      with start have bodies: "case compile_bodies ?G roots entry_roots (ly_func_of_test s) (ly_cx s) of
          Inl p \<Rightarrow> benign p | Inr (_, c) \<Rightarrow> cx_good (ly_structs s) True c"
        unfolding spec_def by blast
      show ?thesis
      proof (cases "compile_bodies ?G roots entry_roots (ly_func_of_test s) (ly_cx s)")
        case (Inl p)
        with bodies Inr r True show ?thesis by (simp add: compile_inner_def)
      next
        case b: (Inr q)
        obtain entry c where q: "q = (entry, c)" by (cases q)
        with b bodies have "cx_good (ly_structs s) True c" by simp
        from cx_finish_checked [OF this S [unfolded G]] Inr r True b q show ?thesis by (simp add: compile_inner_def)
      qed
    qed
  qed
qed

lemma compiled_checked:
  assumes "exits_program H (roots @ entry_roots)"
    and "compile_inner debug H roots entry_roots R T with_tests = Inr (e_module E, [])"
  shows "check_module E"
  using compile_inner_checked [OF assms(1), of debug R T with_tests] assms(2)
  by (simp add: check_module_def)




section \<open>Two loops\<close>

text \<open>Evaluation of the generator, step by step.\<close>

lemma step_eval:
  "gbind g k s = (case g s of Inl p \<Rightarrow> Inl p | Inr r \<Rightarrow> k (fst r) (snd r))"
  "gret x s = Inr (x, s)" "gpanic p s = Inl p" "gets sel f = Inr (sel f, f)" "gmodify h f = Inr ((), h f)"
  "on_cx gc f = (case gc (f_cx f) of Inl p \<Rightarrow> Inl p | Inr r \<Rightarrow> Inr (fst r, f\<lparr>f_cx := snd r\<rparr>))"
  "on_layout gl ly = (case gl (ly_cx ly) of Inl p \<Rightarrow> Inl p | Inr r \<Rightarrow> Inr (fst r, ly\<lparr>ly_cx := snd r\<rparr>))"
  "reserve_function c = (if length (cx_functions c) < 2 ^ 32
          then Inr (length (cx_functions c), c\<lparr>cx_functions := cx_functions c @ [None]\<rparr>) else Inl TooMany)"
  "define_function G i fn c = (if \<not> i < length (cx_functions c) then Inl MissingEntry
          else if g_debug G \<and> cx_functions c ! i \<noteq> None then Inl DefinedTwice
          else Inr ((), c\<lparr>cx_functions := (cx_functions c)[i := Some fn]\<rparr>))"
  "pool_const kc c = (case pool_insert kc (cx_pool c) of
            None \<Rightarrow> Inl TooMany | Some r \<Rightarrow> Inr (fst r, c\<lparr>cx_pool := snd r\<rparr>))"
  "emit op sp f = (case chunk_push op sp (f_chunk f) of
            None \<Rightarrow> Inl TooMany | Some r \<Rightarrow> Inr (fst r, f\<lparr>f_chunk := snd r\<rparr>))"
  "patch ix target f = (case patch_jump ix target (f_chunk f) of
            None \<Rightarrow> Inl BadPatch | Some c \<Rightarrow> Inr ((), f\<lparr>f_chunk := c\<rparr>))"
  "here f = (if length (f_code f) < 2 ^ 32 then Inr (length (f_code f), f) else Inl TooMany)"
  "pop_loop f = (case f_loops f of [] \<Rightarrow> Inl NoLoop | l # ls \<Rightarrow> Inr (l, f\<lparr>f_loops := ls\<rparr>))"
  "build_fn G kind name a n sp body c = (case body (fcx_new c kind) of
            Inl p \<Rightarrow> Inl p | Inr r \<Rightarrow> finish_fn G name a n sp (snd r))"
  by (simp_all add: gbind_def gret_def gpanic_def gets_def gmodify_def on_cx_def on_layout_def reserve_function_def
      define_function_def pool_const_def emit_def patch_def here_def pop_loop_def build_fn_def split: sum.split option.split list.split)

lemma fix_depths_eval: "fix_depths G name sp ops hs c = (if cx_diags c \<noteq> [] then Inr ((hs, 0), c)
          else case finalize (g_debug G) ops hs (g_structs G) of
                 None \<Rightarrow> Inl DepthAssert
               | Some r \<Rightarrow> (case snd r of Inr mx \<Rightarrow> Inr ((fst r, mx), c)
               | Inl needed \<Rightarrow>
                   gbind (report ''C006'' (''`'' @ name @ ''` needs '' @ dec_nat needed @
                       '' operand-stack slots, but the limit is '' @ dec_nat max_operand_stack)
                     ''expression too complex'' sp) (\<lambda>_. gret (fst r, u16_max)) c))"
  by (auto simp: fix_depths_def split: option.split sum.split)

lemmas gen_eval = compile_program_def compile_inner_def cx_collect_def collect_item_def compile_bodies_def compile_toplevel_def
  compile_item_def toplevel_item_def item_of_def find_entry_def is_main_def cx_finish_def cg_of_def layout_new_def
  fcx_new_def finish_fn_def report_exhausted_def fix_depths_eval
  gexpect_def cg_seq.simps emit_op_def emit_const_def step_eval
  pool_insert_def const_pool_new_def chunk_push_def chunk_new_def patch_here_def patch_jump_def retarget_def placeholder_def
  cg_while_def cg_if_value_def cg_if_stmt_def cg_break_def cg_continue_def push_loop_def cg_binary_def type_of_def expr_id_def
  arithmetic_op_def arithmetic_ty_def

lemmas depth_eval = finalize_def analyse_def rounds.simps drain.simps visit_op_def transition_def net_effect_def push_branch_def push_fall_def apply_delta_def seed_one_def seed.simps u16_max_def u32_max_def depth_of_def Let_def

lemmas lazy_eval = sum.case_cong_weak prod.case_cong_weak option.case_cong_weak if_weak_cong list.case_cong_weak

text \<open>A loop left by a statement, and a loop continued from the right operand of an addition.\<close>

definition settled_loop :: stmt where
  "settled_loop =
     plain_stmt (SWhile (plain_expr (EBool True))
       [plain_stmt (SIf [(plain_expr (EBool True), [plain_stmt SBreak])] None),
        plain_stmt (SExpr (plain_expr (EBinary BAdd (plain_expr (EInt 1)) (plain_expr (EInt 2)))))])"

definition pending_loop :: stmt where
  "pending_loop =
     plain_stmt (SWhile (plain_expr (EBool True))
       [plain_stmt (SExpr (plain_expr (EBinary BAdd (plain_expr (EInt 1))
          (plain_expr (EIf [(plain_expr (EBool True), [plain_stmt SContinue])]
            (Some [plain_stmt (SExpr (plain_expr (EInt 2)))]))))))])"

definition script :: "stmt \<Rightarrow> hir" where
  "script s =
     \<lparr>h_item = (\<lambda>_. IStmt [s]), h_item_span = (\<lambda>_. span_default), h_exprs = [], h_stmts = [s]\<rparr>"

definition script_module :: "string \<Rightarrow> op list \<Rightarrow> module_code" where
  "script_module name ops =
     \<lparr>m_constants = \<lparr>pool_items = [KInt 1, KInt 2], pool_index = [(KeyInt 2, 1), (KeyInt 1, 0)]\<rparr>,
      m_functions = [\<lparr>fn_name = name, arity = 0, captures = 0, locals = 0, max_stack = 2,
        fn_chunk = \<lparr>code = ops, spans = replicate (length ops) span_default, handlers = []\<rparr>\<rparr>],
      m_structs = [], m_enums = [], m_globals = [], m_tests = [], m_entry = None\<rparr>"

definition settled_code :: "op list" where
  "settled_code =
     [LoadTrue, JumpIfFalse 11, LoadTrue, JumpIfFalse 6, Jump 11, Jump 6, Const 0, Const 1, AddInt, Pop, Jump 0,
      LoadUnit, Ret]"

definition pending_code :: "op list" where
  "pending_code =
     [LoadTrue, JumpIfFalse 12, Const 0, LoadTrue, JumpIfFalse 8, Jump 0, LoadUnit, Jump 9, Const 1, AddInt, Pop, Jump 0,
      LoadUnit, Ret]"

definition settled_env :: "unit env" where
  "settled_env = demo_env\<lparr>e_module := script_module ''<toplevel>'' settled_code\<rparr>"

definition settled_start :: "unit vm" where
  "settled_start = vm_new settled_env 40 1024 ()"

lemma settled_compiles:
  "compile_inner True (script settled_loop) [0] [0] no_resolutions no_types False = Inr (e_module settled_env, [])"
  by (simp add: gen_eval depth_eval settled_loop_def script_def no_resolutions_def no_types_def cong: lazy_eval)
    (simp add: settled_env_def script_module_def settled_code_def numeral_eq_Suc)

lemma settled_exits: "exits_program (script settled_loop) ([0] @ [0])"
  by (simp add: exits_program_def exits_item_def script_def settled_loop_def)

lemma settled_quiet: "quiet_env settled_env"
  by (simp add: quiet_env_def settled_env_def demo_env_def)

lemma settled_idle: "idle settled_start"
  by (simp add: idle_def settled_start_def vm_new_def)




text \<open>C39: A \<open>continue\<close> inside an operand is not lowered: with the left operand of \<open>+\<close> pending, the jump back arrives
  at the loop head one value too high. A debug build stops on the assertion of the depth pass; a release build
  emits the code, which no assignment of depths fits: every turn of the loop leaves a value behind.\<close>

theorem pending_operand_is_left_behind:
  "compile_program True (script pending_loop) [0] [0] no_resolutions no_types = Inl DepthAssert \<and>
   compile_program False (script pending_loop) [0] [0] no_resolutions no_types =
     Inr (script_module ''<toplevel>'' pending_code, []) \<and>
   (\<nexists>D. stable pending_code [] D \<and> D 0 = Some 0)"
proof (intro conjI)
  show "compile_program True (script pending_loop) [0] [0] no_resolutions no_types = Inl DepthAssert"
    by (simp add: gen_eval depth_eval pending_loop_def script_def no_resolutions_def no_types_def cong: lazy_eval)
  show "compile_program False (script pending_loop) [0] [0] no_resolutions no_types =
     Inr (script_module ''<toplevel>'' pending_code, [])"
    by (simp add: gen_eval depth_eval pending_loop_def script_def no_resolutions_def no_types_def cong: lazy_eval)
      (simp add: script_module_def pending_code_def numeral_eq_Suc)
  show "\<nexists>D. stable pending_code [] D \<and> D 0 = Some 0"
  proof
    assume "\<exists>D. stable pending_code [] D \<and> D 0 = Some 0"
    then obtain D where s: "stable pending_code [] D" and d0: "D 0 = Some 0" by blast
    have at: "stable_at pending_code [] D ix d" if "D ix = Some d" for ix d
      using s that by (simp add: stable_def)
    note flow = stable_at_def pending_code_def transition_def net_effect_def fits_def
    have "D 1 = Some 1" using at [OF d0] by (simp add: flow)
    from at [OF this] have "D 2 = Some 0" by (simp add: flow numeral_2_eq_2)
    from at [OF this] have "D 3 = Some 1" by (simp add: flow numeral_eq_Suc)
    from at [OF this] have "D 4 = Some 2" by (simp add: flow numeral_eq_Suc)
    from at [OF this] have "D 5 = Some 1" by (simp add: flow numeral_eq_Suc)
    from at [OF this] d0 show False by (simp add: flow numeral_eq_Suc)
  qed
qed

end
