(* ===== verification/Text_Builtins.thy ===== *)
theory Text_Builtins
  imports Vm_Discipline
begin

text \<open>
  The methods of strings and numbers (\<open>string_builtin\<close>, \<open>int_builtin\<close>, \<open>float_builtin\<close> of
  \<open>brasa_vm/src/builtins.rs\<close>) and what every builtin shares: its error values, the allocation of
  its results and the selection of its arguments.

  A string is the list of its UTF-8 bytes; where the code walks \<open>chars\<close>, so does the model.
  Searching for a substring compares bytes, which on valid text finds the same places. Exhaustion
  of memory is not modelled (a \<open>repeat\<close> past the address space). Unicode case mapping, the
  \<open>Debug\<close> form of a string, the text form of floats and their conversions, and the
  \<open>regex\<close> crate are parameters; the cache of compiled patterns only saves time.
\<close>

section \<open>What lies outside\<close>

record regex =
  rx_is_match :: "string \<Rightarrow> bool"
  rx_captures :: "string \<Rightarrow> string option list option"
  rx_replace_all :: "string \<Rightarrow> string \<Rightarrow> string"
  rx_matches :: "string \<Rightarrow> string list"

record 'w host =
  h_uppercase :: "string \<Rightarrow> string"
  h_lowercase :: "string \<Rightarrow> string"
  h_debug_text :: "string \<Rightarrow> string"
  h_regex :: "string \<Rightarrow> regex option"
  h_parse_float :: "string \<Rightarrow> f64 option"
  h_float_of_int :: "i64 \<Rightarrow> f64"
  h_int_of_float :: "f64 \<Rightarrow> i64"
  h_float_to_fixed :: "f64 \<Rightarrow> nat \<Rightarrow> string"
  h_float_unary :: "string \<Rightarrow> f64 \<Rightarrow> f64"
  h_float_min :: "f64 \<Rightarrow> f64 \<Rightarrow> f64"
  h_float_max :: "f64 \<Rightarrow> f64 \<Rightarrow> f64"
  h_print :: "string \<Rightarrow> ('w, unit) prog"
  h_json :: "json_value \<Rightarrow> string \<Rightarrow> val list \<Rightarrow> ('w, val option) prog"
  h_scope :: "val \<Rightarrow> string \<Rightarrow> val list \<Rightarrow> ('w, val) prog"
  h_task :: "val \<Rightarrow> string \<Rightarrow> val list \<Rightarrow> ('w, val) prog"
  h_free :: "string \<Rightarrow> val list \<Rightarrow> ('w, val) prog"

section \<open>Errors, arguments and results\<close>

definition builtin_error :: "string \<Rightarrow> ('w, 'a) prog" where
  "builtin_error name = PRaise (SFatal (''brasa: unknown builtin method `'' @ name @ ''`''))"

definition native_error :: "string \<Rightarrow> string \<Rightarrow> ('w, 'a) prog" where
  "native_error name message =
     PRaise (SError (VNativeError \<lparr>ne_name = name, ne_message = message, ne_payload = None\<rparr>))"

definition string_parse_error :: string where "string_parse_error = ''string.ParseError''"
definition string_regex_error :: string where "string_regex_error = ''string.RegexError''"

text \<open>\<open>Vm::panic\<close>, whose trace reads the frames.\<close>

definition prog_panic :: "'w env \<Rightarrow> string \<Rightarrow> string \<Rightarrow> ('w, 'a) prog" where
  "prog_panic E name detail =
     PRead (\<lambda>s. case capture_trace E s of
        Some trace \<Rightarrow> PRaise (SPanic \<lparr>pv_name = name, pv_detail = detail, pv_stack = trace\<rparr>)
      | None \<Rightarrow> PCrash BadIndex)"

text \<open>A match arm on a slice of arguments: the shapes that are selected, and the arm.\<close>

definition on_args :: "string \<Rightarrow> 'a option \<Rightarrow> ('a \<Rightarrow> ('w, 'b) prog) \<Rightarrow> ('w, 'b) prog" where
  "on_args name shape k = (case shape of Some x \<Rightarrow> k x | None \<Rightarrow> builtin_error name)"

definition as_str :: "val \<Rightarrow> string option" where
  "as_str v = (case v of VStr s \<Rightarrow> Some s | _ \<Rightarrow> None)"

definition as_int :: "val \<Rightarrow> i64 option" where
  "as_int v = (case v of VInt i \<Rightarrow> Some i | _ \<Rightarrow> None)"

definition no_args :: "val list \<Rightarrow> unit option" where
  "no_args args = (if args = [] then Some () else None)"

definition one_arg :: "val list \<Rightarrow> val option" where
  "one_arg args = (case args of [v] \<Rightarrow> Some v | _ \<Rightarrow> None)"

definition two_args :: "val list \<Rightarrow> (val \<times> val) option" where
  "two_args args = (case args of [v, w] \<Rightarrow> Some (v, w) | _ \<Rightarrow> None)"

definition str_arg :: "val list \<Rightarrow> string option" where
  "str_arg args = Option.bind (one_arg args) as_str"

definition int_arg :: "val list \<Rightarrow> i64 option" where
  "int_arg args = Option.bind (one_arg args) as_int"

definition pair_args :: "(val \<Rightarrow> 'a option) \<Rightarrow> (val \<Rightarrow> 'b option) \<Rightarrow> val list \<Rightarrow> ('a \<times> 'b) option" where
  "pair_args f g args =
     Option.bind (two_args args) (\<lambda>(v, w). Option.bind (f v) (\<lambda>x. map_option (Pair x) (g w)))"

text \<open>Results that allocate: a cell of the heap, or the shared node of \<open>Some\<close>.\<close>

definition alloc_value :: "(heap \<Rightarrow> (val \<times> heap) option) \<Rightarrow> ('w, val) prog" where
  "alloc_value alloc =
     PRead (\<lambda>s. case alloc (vm_heap s) of
        Some (v, h) \<Rightarrow> PWrite (\<lambda>s. (vm_store s)\<lparr>st_heap := h\<rparr>) (PDone v)
      | None \<Rightarrow> PCrash BadIndex)"

definition next_node :: "(addr \<Rightarrow> ('w, 'a) prog) \<Rightarrow> ('w, 'a) prog" where
  "next_node k =
     PRead (\<lambda>s. PWrite (\<lambda>s. (vm_store s)\<lparr>st_next := st_next (vm_store s) + 1\<rparr>) (k (st_next (vm_store s))))"

definition some_value :: "val \<Rightarrow> ('w, val) prog" where
  "some_value v = next_node (\<lambda>a. PDone (VSome a v))"

definition opt_value :: "val option \<Rightarrow> ('w, val) prog" where
  "opt_value x = (case x of Some v \<Rightarrow> some_value v | None \<Rightarrow> PDone VNone)"

abbreviation str_vector :: "string list \<Rightarrow> ('w, val) prog" where
  "str_vector parts \<equiv> alloc_value (alloc_vector (map VStr parts))"

section \<open>The standard library's functions on text\<close>

definition encode_chars :: "rust_char list \<Rightarrow> string" where
  "encode_chars cs = concat (map utf8_encode cs)"

text \<open>\<open>char::is_whitespace\<close>: the property \<open>White_Space\<close>.\<close>

definition is_whitespace :: "rust_char \<Rightarrow> bool" where
  "is_whitespace c \<longleftrightarrow> 9 \<le> c \<and> c \<le> 13 \<or>
     c \<in> set [32, 133, 160, 5760, 8232, 8233, 8239, 8287, 12288] \<or> 8192 \<le> c \<and> c \<le> 8202"

definition str_trim_start :: "string \<Rightarrow> string" where
  "str_trim_start s = encode_chars (dropWhile is_whitespace (str_chars s))"

definition str_trim_end :: "string \<Rightarrow> string" where
  "str_trim_end s = encode_chars (rev (dropWhile is_whitespace (rev (str_chars s))))"

definition starts_with :: "string \<Rightarrow> string \<Rightarrow> bool" where
  "starts_with s needle \<longleftrightarrow> take (length needle) s = needle"

definition ends_with :: "string \<Rightarrow> string \<Rightarrow> bool" where
  "ends_with s needle \<longleftrightarrow> starts_with (rev s) (rev needle)"

fun str_find :: "string \<Rightarrow> string \<Rightarrow> nat option" where
  "str_find needle s =
     (if starts_with s needle then Some 0
      else case s of [] \<Rightarrow> None | _ # cs \<Rightarrow> map_option Suc (str_find needle cs))"

declare str_find.simps [simp del]

lemma str_find_split:
  "str_find needle s = Some i \<Longrightarrow> s = take i s @ needle @ drop (i + length needle) s"
proof (induction needle s arbitrary: i rule: str_find.induct)
  case (1 needle s)
  show ?case
  proof (cases "starts_with s needle")
    case True
    with 1(2) have "i = 0" by (simp add: str_find.simps [of needle s])
    with True show ?thesis
      by (simp add: starts_with_def) (metis append_take_drop_id)
  next
    case False
    with 1(2) obtain c cs j where "s = c # cs" "str_find needle cs = Some j" "i = Suc j"
      by (auto simp: str_find.simps [of needle s] split: list.splits)
    with 1(1) [OF False] show ?thesis by simp
  qed
qed

lemma str_find_bound: "str_find needle s = Some i \<Longrightarrow> i + length needle \<le> length s"
proof (induction needle s arbitrary: i rule: str_find.induct)
  case (1 needle s)
  show ?case
  proof (cases "starts_with s needle")
    case True
    then have "length needle \<le> length s" by (metis starts_with_def length_take min.cobounded1)
    with True 1(2) show ?thesis by (simp add: str_find.simps [of needle s])
  qed (use 1 in \<open>auto simp: str_find.simps [of needle s] split: list.splits\<close>)
qed

lemma str_find_shorter:
  "sep \<noteq> [] \<Longrightarrow> str_find sep s = Some i \<Longrightarrow> length s - (i + length sep) < length s"
  by (cases sep) (auto dest!: str_find_bound)

text \<open>\<open>split\<close> on a separator that is not empty.\<close>

function str_split :: "string \<Rightarrow> string \<Rightarrow> string list" where
  "str_split sep s =
     (case (if sep = [] then None else str_find sep s) of
        None \<Rightarrow> [s]
      | Some i \<Rightarrow> take i s # str_split sep (drop (i + length sep) s))"
  by pat_completeness auto
termination
  by (relation "measure (\<lambda>(sep, s). length s)") (auto split: if_splits intro: str_find_shorter)

declare str_split.simps [simp del]

text \<open>\<open>matches(needle).count()\<close>: the places where \<open>split\<close> cuts.\<close>

definition str_matches :: "string \<Rightarrow> string \<Rightarrow> nat" where
  "str_matches needle s = length (str_split needle s) - 1"

text \<open>\<open>replace\<close>; an empty pattern matches before every character and at the end.\<close>

definition str_replace :: "string \<Rightarrow> string \<Rightarrow> string \<Rightarrow> string" where
  "str_replace needle new s =
     (if needle = [] then new @ concat (map (\<lambda>c. utf8_encode c @ new) (str_chars s))
      else join new (str_split needle s))"

text \<open>\<open>lines\<close>: a carriage return is dropped only before a line feed, and a line feed at the end
  does not start another line.\<close>

definition line_feed :: string where "line_feed = [char_of (10 :: nat)]"
definition carriage_return :: char where "carriage_return = char_of (13 :: nat)"

definition drop_return :: "string \<Rightarrow> string" where
  "drop_return l = (if l \<noteq> [] \<and> last l = carriage_return then butlast l else l)"

definition str_lines :: "string \<Rightarrow> string list" where
  "str_lines s =
     (let parts = str_split line_feed s
      in map drop_return (butlast parts) @ (if last parts = [] then [] else [last parts]))"

definition parse_i64 :: "string \<Rightarrow> i64 option" where
  "parse_i64 s =
     (let negative = (s \<noteq> [] \<and> hd s = CHR ''-'');
          digits = (if s \<noteq> [] \<and> (hd s = CHR ''-'' \<or> hd s = CHR ''+'') then tl s else s)
      in if digits = [] \<or> \<not> list_all is_digit digits then None
         else i64_of (if negative then - digits_value digits else digits_value digits))"

text \<open>\<open>clamp(0, len)\<close> of an index.\<close>

definition clamp_index :: "i64 \<Rightarrow> nat \<Rightarrow> nat" where
  "clamp_index i len = nat (max 0 (min (sint i) (int len)))"

definition slice_list :: "i64 \<Rightarrow> i64 \<Rightarrow> 'a list \<Rightarrow> 'a list" where
  "slice_list from_ix to_ix xs =
     (let a = clamp_index from_ix (length xs); b = clamp_index to_ix (length xs)
      in if b \<le> a then [] else take (b - a) (drop a xs))"

text \<open>\<open>pad.chars().cycle().take(missing)\<close>.\<close>

definition cycle_take :: "nat \<Rightarrow> 'a list \<Rightarrow> 'a list" where
  "cycle_take n pad = map (\<lambda>i. pad ! (i mod length pad)) [0..<n]"

lemma str_find_first:
  "str_find needle s = Some i \<Longrightarrow> j < i \<Longrightarrow> \<not> starts_with (drop j s) needle"
proof (induction needle s arbitrary: i j rule: str_find.induct)
  case (1 needle s)
  show ?case
  proof (cases "starts_with s needle")
    case False
    with 1(2) obtain c cs i' where i: "s = c # cs" "str_find needle cs = Some i'" "i = Suc i'"
      by (auto simp: str_find.simps [of needle s] split: list.splits)
    with 1(1) [OF False] 1(3) False show ?thesis by (cases j) auto
  qed (use 1(2,3) in \<open>simp add: str_find.simps [of needle s]\<close>)
qed

lemma str_find_absent: "str_find needle s = None \<Longrightarrow> \<not> starts_with (drop j s) needle"
proof (induction needle s arbitrary: j rule: str_find.induct)
  case (1 needle s)
  then have f: "\<not> starts_with s needle" by (auto simp: str_find.simps [of needle s])
  show ?case
  proof (cases s)
    case (Cons c cs)
    with 1(2) f have "str_find needle cs = None" by (simp add: str_find.simps [of needle "c # cs"])
    with 1(1) [OF f Cons] f Cons show ?thesis by (cases j) simp_all
  qed (use f in simp)
qed

lemma str_split_not_Nil [simp]: "str_split sep s \<noteq> []"
  by (subst str_split.simps) (simp split: option.split)

lemma join_Cons: "parts \<noteq> [] \<Longrightarrow> join sep (p # parts) = p @ sep @ join sep parts"
  by (cases parts) simp_all

text \<open>Joining the parts with the separator gives the text back.\<close>

lemma join_split: "join sep (str_split sep s) = s"
proof (induction sep s rule: str_split.induct)
  case (1 sep s)
  show ?case
  proof (cases "if sep = [] then None else str_find sep s")
    case (Some i)
    then have i: "str_find sep s = Some i" by (simp split: if_splits)
    from Some have "join sep (str_split sep s) = take i s @ sep @ join sep (str_split sep (drop (i + length sep) s))"
      by (simp add: str_split.simps [of sep s] join_Cons)
    with 1 [OF Some] str_find_split [OF i] show ?thesis by simp
  qed (simp add: str_split.simps [of sep s])
qed

text \<open>No part contains the separator.\<close>

lemma split_part_free:
  "sep \<noteq> [] \<Longrightarrow> p \<in> set (str_split sep s) \<Longrightarrow> str_find sep p = None"
proof (induction sep s rule: str_split.induct)
  case (1 sep s)
  show ?case
  proof (cases "str_find sep s")
    case None
    with 1(2,3) show ?thesis by (simp add: str_split.simps [of sep s])
  next
    case (Some i)
    have "str_find sep (take i s) = None"
    proof (rule ccontr)
      assume "str_find sep (take i s) \<noteq> None"
      then obtain j where j: "str_find sep (take i s) = Some j" by blast
      let ?t = "take i s"
      from str_find_split [OF j] have t: "drop j ?t = sep @ drop (j + length sep) ?t"
        using str_find_bound [OF j] by (metis append_eq_conv_conj append_take_drop_id length_take min.absorb2 add_leD1)
      have "j < i" using str_find_bound [OF j] 1(2) by (cases sep) auto
      moreover have "drop j s = drop j ?t @ drop i s"
        using \<open>j < i\<close> by (metis append_take_drop_id drop_append diff_is_0_eq' drop0 length_take less_imp_le_nat min.absorb2 nat_le_linear drop_all append_Nil2 str_find_bound [OF Some] add_leD1)
      ultimately show False
        using str_find_first [OF Some, of j] t by (simp add: starts_with_def)
    qed
    with 1 Some show ?thesis by (auto simp: str_split.simps [of sep s])
  qed
qed

text \<open>A character's encoding decodes to it.\<close>

lemma decode_char:
  assumes "scalar c"
  shows "utf8_bytes_decode (map of_char (utf8_encode c) @ r) = map_option ((#) c) (utf8_bytes_decode r)"
proof -
  consider "c < 128" | "128 \<le> c" "c < 2048" | "2048 \<le> c" "c < 65536" | "65536 \<le> c" by linarith
  then show ?thesis
  proof cases
    case 1
    then show ?thesis by (simp add: utf8_encode_def)
  next
    case 2
    define q where "q = c div 64"
    have "2 \<le> q" "q < 32" using 2 unfolding q_def by linarith+
    moreover have "q * 64 + c mod 64 = c" by (simp add: q_def)
    ultimately show ?thesis using 2 by (simp add: utf8_encode_def cont_def q_def [symmetric])
  next
    case 3
    define q m l where "q = c div 4096" and "m = c div 64 mod 64" and "l = c mod 64"
    note parts = q_def [symmetric] m_def [symmetric] l_def [symmetric]
    have "c = c div 64 * 64 + l" "c div 64 = q * 64 + m"
      by (simp_all add: q_def m_def l_def div_mult2_eq [of c 64 64, simplified])
    then have c: "q * 4096 + m * 64 + l = c" by simp
    have "q < 16" "m < 64" "l < 64" using 3 by (auto simp: q_def m_def l_def)
    with c 3 assms show ?thesis unfolding utf8_encode_def by (simp add: parts cont_def Let_def)
  next
    case 4
    define q m l k where "q = c div 262144" and "m = c div 4096 mod 64" and "l = c div 64 mod 64" and "k = c mod 64"
    note parts = q_def [symmetric] m_def [symmetric] l_def [symmetric] k_def [symmetric]
    have "c = c div 64 * 64 + k" "c div 64 = c div 4096 * 64 + l" "c div 4096 = q * 64 + m"
      by (simp_all add: q_def m_def l_def k_def div_mult2_eq [of c 64 64, simplified]
          div_mult2_eq [of c 4096 64, simplified])
    then have c: "q * 262144 + m * 4096 + l * 64 + k = c" by simp
    have "c < 1114112" using 4 assms by (auto simp: scalar_def)
    then have "q < 5" "m < 64" "l < 64" "k < 64" by (auto simp: q_def m_def l_def k_def)
    with c 4 assms show ?thesis unfolding utf8_encode_def by (simp add: parts cont_def Let_def)
  qed
qed

lemma chars_encode: "list_all scalar cs \<Longrightarrow> from_utf8 (encode_chars cs) = Some cs"
  by (induction cs) (simp_all add: encode_chars_def from_utf8_def decode_char)

lemma str_chars_encode [simp]: "list_all scalar cs \<Longrightarrow> str_chars (encode_chars cs) = cs"
  by (simp add: str_chars_def chars_encode)

section \<open>String methods\<close>

definition len_value :: "nat \<Rightarrow> val" where
  "len_value n = VInt (word_of_nat n)"

definition string_count :: "string \<Rightarrow> string \<Rightarrow> val" where
  "string_count s needle = len_value (if needle = [] then 0 else str_matches needle s)"

definition string_split :: "string \<Rightarrow> string \<Rightarrow> ('w, val) prog" where
  "string_split s sep =
     str_vector (if sep = [] then map utf8_encode (str_chars s) else str_split sep s)"

definition string_repeat :: "string \<Rightarrow> i64 \<Rightarrow> val" where
  "string_repeat s n =
     VStr (if sint n \<le> 0 then [] else concat (replicate (nat (sint n)) s))"

definition string_pad :: "string \<Rightarrow> string \<Rightarrow> i64 \<Rightarrow> string \<Rightarrow> val" where
  "string_pad s name width pad =
     (let len = length (str_chars s)
      in if sint width \<le> int len \<or> pad = [] then VStr s
         else let filler = encode_chars (cycle_take (nat (sint width) - len) (str_chars pad))
              in VStr (if name = ''padStart'' then filler @ s else s @ filler))"

definition string_find :: "string \<Rightarrow> string \<Rightarrow> ('w, val) prog" where
  "string_find s needle =
     opt_value (map_option (\<lambda>i. len_value (length (str_chars (take i s)))) (str_find needle s))"

definition compile_regex :: "'w host \<Rightarrow> string \<Rightarrow> (regex \<Rightarrow> ('w, 'a) prog) \<Rightarrow> ('w, 'a) prog" where
  "compile_regex H pattern k =
     (case h_regex H pattern of
        Some re \<Rightarrow> k re
      | None \<Rightarrow> native_error string_regex_error (''invalid regex '' @ h_debug_text H pattern))"

definition string_captures :: "'w host \<Rightarrow> string \<Rightarrow> string \<Rightarrow> ('w, val) prog" where
  "string_captures H s pattern =
     compile_regex H pattern (\<lambda>re.
       case rx_captures re s of
         Some groups \<Rightarrow>
           prog_bind (str_vector (map (\<lambda>g. case g of Some text \<Rightarrow> text | None \<Rightarrow> []) groups)) some_value
       | None \<Rightarrow> PDone VNone)"

definition parse_failure :: "'w host \<Rightarrow> string \<Rightarrow> string \<Rightarrow> ('w, 'a) prog" where
  "parse_failure H s wanted =
     native_error string_parse_error (''cannot parse '' @ h_debug_text H s @ '' as '' @ wanted)"

definition string_builtin :: "'w host \<Rightarrow> string \<Rightarrow> string \<Rightarrow> val list \<Rightarrow> ('w, val) prog" where
  "string_builtin H s name args =
     (if name = ''len'' then on_args name (no_args args) (\<lambda>_. PDone (len_value (length (str_chars s))))
      else if name = ''count'' then on_args name (str_arg args) (\<lambda>needle. PDone (string_count s needle))
      else if name = ''trim'' then
        on_args name (no_args args) (\<lambda>_. PDone (VStr (str_trim_end (str_trim_start s))))
      else if name = ''trimStart'' then on_args name (no_args args) (\<lambda>_. PDone (VStr (str_trim_start s)))
      else if name = ''trimEnd'' then on_args name (no_args args) (\<lambda>_. PDone (VStr (str_trim_end s)))
      else if name = ''reverse'' then
        on_args name (no_args args) (\<lambda>_. PDone (VStr (encode_chars (rev (str_chars s)))))
      else if name = ''toUpper'' then on_args name (no_args args) (\<lambda>_. PDone (VStr (h_uppercase H s)))
      else if name = ''toLower'' then on_args name (no_args args) (\<lambda>_. PDone (VStr (h_lowercase H s)))
      else if name = ''contains?'' then
        on_args name (str_arg args) (\<lambda>needle. PDone (VBool (str_find needle s \<noteq> None)))
      else if name = ''startsWith?'' then
        on_args name (str_arg args) (\<lambda>needle. PDone (VBool (starts_with s needle)))
      else if name = ''endsWith?'' then
        on_args name (str_arg args) (\<lambda>needle. PDone (VBool (ends_with s needle)))
      else if name = ''split'' then on_args name (str_arg args) (string_split s)
      else if name = ''lines'' then on_args name (no_args args) (\<lambda>_. str_vector (str_lines s))
      else if name = ''chars'' then
        on_args name (no_args args) (\<lambda>_. alloc_value (alloc_vector (map VChar (str_chars s))))
      else if name = ''bytes'' then
        on_args name (no_args args) (\<lambda>_. alloc_value (alloc_vector (map (\<lambda>b. len_value (of_char b)) s)))
      else if name = ''slice'' then
        on_args name (pair_args as_int as_int args) (\<lambda>(from_ix, to_ix).
          PDone (VStr (encode_chars (slice_list from_ix to_ix (str_chars s)))))
      else if name = ''repeat'' then on_args name (int_arg args) (\<lambda>n. PDone (string_repeat s n))
      else if name = ''padStart'' \<or> name = ''padEnd'' then
        on_args name (pair_args as_int as_str args) (\<lambda>(width, pad). PDone (string_pad s name width pad))
      else if name = ''replace'' then
        on_args name (pair_args as_str as_str args) (\<lambda>(needle, new). PDone (VStr (str_replace needle new s)))
      else if name = ''removePrefix'' then
        on_args name (str_arg args) (\<lambda>start.
          PDone (VStr (if starts_with s start then drop (length start) s else s)))
      else if name = ''match?'' then
        on_args name (str_arg args) (\<lambda>pattern.
          compile_regex H pattern (\<lambda>re. PDone (VBool (rx_is_match re s))))
      else if name = ''captures'' then on_args name (str_arg args) (string_captures H s)
      else if name = ''replaceRe'' then
        on_args name (pair_args as_str as_str args) (\<lambda>(pattern, new).
          compile_regex H pattern (\<lambda>re. PDone (VStr (rx_replace_all re s new))))
      else if name = ''scan'' then
        on_args name (str_arg args) (\<lambda>pattern. compile_regex H pattern (\<lambda>re. str_vector (rx_matches re s)))
      else if name = ''find'' then on_args name (str_arg args) (string_find s)
      else if name = ''toInt'' then
        on_args name (no_args args) (\<lambda>_.
          case parse_i64 s of Some i \<Rightarrow> PDone (VInt i) | None \<Rightarrow> parse_failure H s ''int'')
      else if name = ''toFloat'' then
        on_args name (no_args args) (\<lambda>_.
          case h_parse_float H s of Some x \<Rightarrow> PDone (VFloat x) | None \<Rightarrow> parse_failure H s ''float'')
      else builtin_error name)"

section \<open>Methods of numbers\<close>

definition max_digits :: nat where "max_digits = 17"

definition digits_in_range :: "i64 \<Rightarrow> bool" where
  "digits_in_range digits \<longleftrightarrow> 0 \<le> sint digits \<and> sint digits \<le> int max_digits"

definition int_to_fixed :: "i64 \<Rightarrow> nat \<Rightarrow> string" where
  "int_to_fixed v digits =
     (if digits = 0 then dec_int (sint v) else dec_int (sint v) @ ''.'' @ replicate digits CHR ''0'')"

definition check_fixed_digits :: "'w env \<Rightarrow> i64 \<Rightarrow> (nat \<Rightarrow> ('w, 'a) prog) \<Rightarrow> ('w, 'a) prog" where
  "check_fixed_digits E digits k =
     (if digits_in_range digits then k (nat (sint digits))
      else prog_panic E assertion_failed
             (''`toFixed` takes 0 to '' @ dec_nat max_digits @ '' digits, got '' @ dec_int (sint digits)))"

definition int_builtin :: "'w env \<Rightarrow> 'w host \<Rightarrow> i64 \<Rightarrow> string \<Rightarrow> val list \<Rightarrow> ('w, val) prog" where
  "int_builtin E H v name args =
     (if name = ''toFloat'' then on_args name (no_args args) (\<lambda>_. PDone (VFloat (h_float_of_int H v)))
      else if name = ''toFixed'' then
        on_args name (int_arg args) (\<lambda>digits.
          check_fixed_digits E digits (\<lambda>n. PDone (VStr (int_to_fixed v n))))
      else if name = ''toString'' then on_args name (no_args args) (\<lambda>_. PDone (VStr (dec_int (sint v))))
      else builtin_error name)"

definition float_builtin :: "'w env \<Rightarrow> 'w host \<Rightarrow> f64 \<Rightarrow> string \<Rightarrow> val list \<Rightarrow> ('w, val) prog" where
  "float_builtin E H v name args =
     (if name = ''toInt'' then on_args name (no_args args) (\<lambda>_. PDone (VInt (h_int_of_float H v)))
      else if name = ''toFixed'' then
        on_args name (int_arg args) (\<lambda>digits.
          check_fixed_digits E digits (\<lambda>n. PDone (VStr (h_float_to_fixed H v n))))
      else if name = ''toString'' then on_args name (no_args args) (\<lambda>_. display_value E (VFloat v))
      else builtin_error name)"

end
