(* ===== verification/Collection_Builtins.thy ===== *)
theory Collection_Builtins
  imports Text_Builtins
begin

text \<open>
  The methods of vectors, maps and sets (\<open>vector_builtin\<close>, \<open>sort_natural\<close>, \<open>sort_by\<close>,
  \<open>map_builtin\<close>, \<open>set_builtin\<close> of \<open>brasa_vm/src/builtins.rs\<close>). A method that calls back
  into compiled code does so on a snapshot of its receiver, through the rooted traversals of
  \<open>Native_Code\<close>.

  While \<open>edit_map\<close> and \<open>edit_set\<close> compare keys they hold the table borrowed; keys are ints,
  strings, chars, bools and tuples of those, whose comparison reads no table. \<open>slice::sort_by\<close>
  is a stable sort by an insertion; its result is unspecified for a comparison that is not a
  total preorder, which elements of one orderable kind without NaN exclude.
\<close>

section \<open>Reading, editing and calling\<close>

definition vector_items :: "gc_ref \<Rightarrow> (val list \<Rightarrow> ('w, 'a) prog) \<Rightarrow> ('w, 'a) prog" where
  "vector_items r k = PRead (\<lambda>s. with_heap (heap_vector (vm_heap s) r) k)"

definition map_table :: "gc_ref \<Rightarrow> (heap \<Rightarrow> val omap \<Rightarrow> ('w, 'a) prog) \<Rightarrow> ('w, 'a) prog" where
  "map_table r k = PRead (\<lambda>s. with_heap (heap_map (vm_heap s) r) (k (vm_heap s)))"

definition set_table :: "gc_ref \<Rightarrow> (heap \<Rightarrow> val oset \<Rightarrow> ('w, 'a) prog) \<Rightarrow> ('w, 'a) prog" where
  "set_table r k = PRead (\<lambda>s. with_heap (heap_set (vm_heap s) r) (k (vm_heap s)))"

definition edit_value :: "(heap \<Rightarrow> ('r \<times> heap) option) \<Rightarrow> ('r \<Rightarrow> ('w, 'a) prog) \<Rightarrow> ('w, 'a) prog" where
  "edit_value edit k =
     PRead (\<lambda>s. case edit (vm_heap s) of
        Some (r, h) \<Rightarrow> PWrite (\<lambda>s. (vm_store s)\<lparr>st_heap := h\<rparr>) (k r)
      | None \<Rightarrow> PCrash BadKind)"

definition call_back :: "val \<Rightarrow> val list \<Rightarrow> ('w, val) prog" where
  "call_back f args = PCall f args of_result"

definition predicate :: "string \<Rightarrow> val \<Rightarrow> val \<Rightarrow> (bool \<Rightarrow> 'a) \<Rightarrow> ('w, 'a) prog" where
  "predicate name f item k =
     prog_bind (call_back f [item]) (\<lambda>v.
       case v of
         VBool b \<Rightarrow> PDone (k b)
       | _ \<Rightarrow> PRaise (SFatal (''brasa: `'' @ name @ ''` predicate must return a bool'')))"

section \<open>Sorting\<close>

primrec insert_sorted :: "('a \<Rightarrow> 'a \<Rightarrow> ordering) \<Rightarrow> 'a \<Rightarrow> 'a list \<Rightarrow> 'a list" where
  "insert_sorted f x [] = [x]"
| "insert_sorted f x (y # ys) = (if f x y = Greater then y # insert_sorted f x ys else x # y # ys)"

definition stable_sort :: "('a \<Rightarrow> 'a \<Rightarrow> ordering) \<Rightarrow> 'a list \<Rightarrow> 'a list" where
  "stable_sort f xs = foldr (insert_sorted f) xs []"

text \<open>\<open>value_cmp(a, b).unwrap_or(Ordering::Equal)\<close>.\<close>

definition cmp_or_equal :: "val \<Rightarrow> val \<Rightarrow> ordering" where
  "cmp_or_equal a b = (case val_cmp a b of Some r \<Rightarrow> r | None \<Rightarrow> Equal)"

definition orderable :: "'w env \<Rightarrow> string \<Rightarrow> string \<Rightarrow> val \<Rightarrow> ('w, 'a) prog \<Rightarrow> ('w, 'a) prog" where
  "orderable E nan_text kind_text v p =
     (case v of
        VFloat x \<Rightarrow> if f64_is_nan x then prog_panic E assertion_failed nan_text else p
      | VInt _ \<Rightarrow> p | VStr _ \<Rightarrow> p | VChar _ \<Rightarrow> p
      | _ \<Rightarrow> PRaise (SFatal kind_text))"

definition sort_nan :: string where
  "sort_nan = ''cannot sort a NaN element (floats with NaN do not order)''"
definition sort_kinds :: string where
  "sort_kinds = ''brasa: `sort` elements must be ints, floats, strings, or chars''"
definition sort_by_nan :: string where
  "sort_by_nan = ''cannot sort by a NaN key (floats with NaN do not order)''"
definition sort_by_kinds :: string where
  "sort_by_kinds = ''brasa: `sortBy` key must be an int, float, string, or char''"

primrec all_orderable :: "'w env \<Rightarrow> val list \<Rightarrow> ('w, 'a) prog \<Rightarrow> ('w, 'a) prog" where
  "all_orderable E [] p = p"
| "all_orderable E (v # vs) p = orderable E sort_nan sort_kinds v (all_orderable E vs p)"

definition sort_natural :: "'w env \<Rightarrow> val list \<Rightarrow> ('w, val) prog" where
  "sort_natural E items =
     all_orderable E items (alloc_value (alloc_vector (stable_sort cmp_or_equal items)))"

definition sort_by :: "'w env \<Rightarrow> val \<Rightarrow> val list \<Rightarrow> val \<Rightarrow> ('w, val) prog" where
  "sort_by E recv items f =
     prog_bind
       (key_rooted recv items (\<lambda>item.
          prog_bind (call_back f [item]) (\<lambda>key. orderable E sort_by_nan sort_by_kinds key (PDone key))))
       (\<lambda>keyed. alloc_value (alloc_vector (map snd (stable_sort (\<lambda>a b. cmp_or_equal (fst a) (fst b)) keyed))))"

section \<open>Vectors\<close>

definition vector_push :: "gc_ref \<Rightarrow> val \<Rightarrow> ('w, val) prog" where
  "vector_push r v = edit_value (edit_vector r (\<lambda>xs. ((), xs @ [v]))) (\<lambda>_. PDone VUnit)"

definition pop_last :: "val list \<Rightarrow> val option \<times> val list" where
  "pop_last xs = (if xs = [] then (None, []) else (Some (last xs), butlast xs))"

text \<open>\<open>join\<close> keeps no value: its traversal pushes the texts on a list outside the heap.\<close>

primrec join_each :: "'w env \<Rightarrow> nat \<Rightarrow> nat list \<Rightarrow> string list \<Rightarrow> ('w, string list) prog" where
  "join_each E mark [] parts = unroot mark (PDone parts)"
| "join_each E mark (ix # ixs) parts =
     root_at ix (\<lambda>item. or_unroot mark (display E item) (\<lambda>text. join_each E mark ixs (parts @ [text])))"

definition vector_join :: "'w env \<Rightarrow> val \<Rightarrow> val list \<Rightarrow> string \<Rightarrow> ('w, val) prog" where
  "vector_join E recv snapshot sep =
     prog_map (\<lambda>parts. VStr (join sep parts))
       (rooted_region [recv] snapshot (\<lambda>mark base end_ix. join_each E mark [base..<end_ix] []))"

definition vector_map :: "val \<Rightarrow> val list \<Rightarrow> val \<Rightarrow> ('w, val) prog" where
  "vector_map recv snapshot f =
     prog_bind (collect_rooted recv snapshot (\<lambda>item. prog_map Some (call_back f [item])))
       (\<lambda>mapped. alloc_value (alloc_vector mapped))"

definition vector_filter :: "val \<Rightarrow> val list \<Rightarrow> val \<Rightarrow> ('w, val) prog" where
  "vector_filter recv snapshot f =
     prog_bind (collect_rooted recv snapshot (\<lambda>item.
         predicate ''filter'' f item (\<lambda>b. if b then Some item else None)))
       (\<lambda>kept. alloc_value (alloc_vector kept))"

definition vector_each :: "val \<Rightarrow> val list \<Rightarrow> val \<Rightarrow> ('w, val) prog" where
  "vector_each recv snapshot f =
     prog_map (\<lambda>_. VUnit)
       (collect_rooted recv snapshot (\<lambda>item. prog_map (\<lambda>_. None) (call_back f [item])))"

definition vector_reduce :: "val \<Rightarrow> val list \<Rightarrow> val \<Rightarrow> val \<Rightarrow> ('w, val) prog" where
  "vector_reduce recv snapshot init f =
     fold_rooted recv snapshot init (\<lambda>carried item. call_back f [carried, item])"

text \<open>The element is wrapped when the search stops at it.\<close>

definition vector_find :: "val \<Rightarrow> val list \<Rightarrow> val \<Rightarrow> ('w, val) prog" where
  "vector_find recv snapshot f =
     prog_map (\<lambda>found. case found of Some v \<Rightarrow> v | None \<Rightarrow> VNone)
       (find_rooted recv snapshot (\<lambda>item.
          prog_bind (predicate ''find'' f item id) (\<lambda>b.
            if b then prog_map Some (some_value item) else PDone None)))"

definition vector_decide :: "string \<Rightarrow> val \<Rightarrow> val list \<Rightarrow> val \<Rightarrow> ('w, val) prog" where
  "vector_decide name recv snapshot f =
     (let deciding = (name = ''any?'')
      in prog_map (\<lambda>found. case found of Some v \<Rightarrow> v | None \<Rightarrow> VBool (\<not> deciding))
           (find_rooted recv snapshot (\<lambda>item.
              predicate name f item (\<lambda>b. if b = deciding then Some (VBool deciding) else None))))"

primrec tuple_nodes :: "val list list \<Rightarrow> (val list \<Rightarrow> ('w, 'a) prog) \<Rightarrow> ('w, 'a) prog" where
  "tuple_nodes [] k = k []"
| "tuple_nodes (xs # xss) k = next_node (\<lambda>a. tuple_nodes xss (\<lambda>ts. k (VTuple a xs # ts)))"

definition vector_zip :: "val list \<Rightarrow> val list \<Rightarrow> ('w, val) prog" where
  "vector_zip left right =
     tuple_nodes (map (\<lambda>(a, b). [a, b]) (zip left right)) (\<lambda>pairs. alloc_value (alloc_vector pairs))"

definition flatten_nested :: string where
  "flatten_nested = ''brasa: `flatten` requires a `Vector<Vector<...>>`''"

primrec flatten_items :: "val list \<Rightarrow> val list \<Rightarrow> (val list \<Rightarrow> ('w, 'a) prog) \<Rightarrow> ('w, 'a) prog" where
  "flatten_items [] flat k = k flat"
| "flatten_items (v # vs) flat k =
     (case v of
        VVector r \<Rightarrow> vector_items r (\<lambda>xs. flatten_items vs (flat @ xs) k)
      | _ \<Rightarrow> PRaise (SFatal flatten_nested))"

definition uniq_items :: "heap \<Rightarrow> val list \<Rightarrow> val list" where
  "uniq_items h xs = foldl (\<lambda>unique x. if list_ex (\<lambda>y. value_eq h y x) unique then unique else unique @ [x]) [] xs"

definition vector_builtin :: "'w env \<Rightarrow> gc_ref \<Rightarrow> string \<Rightarrow> val list \<Rightarrow> ('w, val) prog" where
  "vector_builtin E r name args =
     (if name = ''len'' then
        on_args name (no_args args) (\<lambda>_. vector_items r (\<lambda>xs. PDone (len_value (length xs))))
      else if name = ''push'' then on_args name (one_arg args) (vector_push r)
      else if name = ''pop'' then on_args name (no_args args) (\<lambda>_. edit_value (edit_vector r pop_last) opt_value)
      else if name = ''first'' then
        on_args name (no_args args) (\<lambda>_. vector_items r (\<lambda>xs.
          opt_value (if xs = [] then None else Some (hd xs))))
      else if name = ''last'' then
        on_args name (no_args args) (\<lambda>_. vector_items r (\<lambda>xs.
          opt_value (if xs = [] then None else Some (last xs))))
      else if name = ''reverse'' then
        on_args name (no_args args) (\<lambda>_. vector_items r (\<lambda>xs. alloc_value (alloc_vector (rev xs))))
      else if name = ''contains?'' then
        on_args name (one_arg args) (\<lambda>v. PRead (\<lambda>s. vector_items r (\<lambda>xs.
          PDone (VBool (list_ex (\<lambda>x. value_eq (vm_heap s) x v) xs)))))
      else if name = ''slice'' then
        on_args name (pair_args as_int as_int args) (\<lambda>(from_ix, to_ix). vector_items r (\<lambda>xs.
          alloc_value (alloc_vector (slice_list from_ix to_ix xs))))
      else if name = ''join'' then
        on_args name (str_arg args) (\<lambda>sep. vector_items r (\<lambda>xs. vector_join E (VVector r) xs sep))
      else if name = ''map'' then
        on_args name (one_arg args) (\<lambda>f. vector_items r (\<lambda>xs. vector_map (VVector r) xs f))
      else if name = ''filter'' then
        on_args name (one_arg args) (\<lambda>f. vector_items r (\<lambda>xs. vector_filter (VVector r) xs f))
      else if name = ''each'' then
        on_args name (one_arg args) (\<lambda>f. vector_items r (\<lambda>xs. vector_each (VVector r) xs f))
      else if name = ''sortBy'' then
        on_args name (one_arg args) (\<lambda>f. vector_items r (\<lambda>xs. sort_by E (VVector r) xs f))
      else if name = ''reduce'' then
        on_args name (two_args args) (\<lambda>(init, f). vector_items r (\<lambda>xs. vector_reduce (VVector r) xs init f))
      else if name = ''find'' then
        on_args name (one_arg args) (\<lambda>f. vector_items r (\<lambda>xs. vector_find (VVector r) xs f))
      else if name = ''any?'' \<or> name = ''all?'' then
        on_args name (one_arg args) (\<lambda>f. vector_items r (\<lambda>xs. vector_decide name (VVector r) xs f))
      else if name = ''sort'' then
        on_args name (no_args args) (\<lambda>_. vector_items r (sort_natural E))
      else if name = ''zip'' then
        on_args name (Option.bind (one_arg args) (\<lambda>v. case v of VVector q \<Rightarrow> Some q | _ \<Rightarrow> None)) (\<lambda>q.
          vector_items r (\<lambda>left. vector_items q (\<lambda>right. vector_zip left right)))
      else if name = ''flatten'' then
        on_args name (no_args args) (\<lambda>_. vector_items r (\<lambda>xs.
          flatten_items xs [] (\<lambda>flat. alloc_value (alloc_vector flat))))
      else if name = ''uniq'' then
        on_args name (no_args args) (\<lambda>_. PRead (\<lambda>s. vector_items r (\<lambda>xs.
          alloc_value (alloc_vector (uniq_items (vm_heap s) xs)))))
      else builtin_error name)"

section \<open>Maps and sets\<close>

definition insert_all :: "heap \<Rightarrow> val omap \<Rightarrow> (val \<times> val) list \<Rightarrow> val omap" where
  "insert_all h m additions = foldl (\<lambda>m (k, v). om_insert val_hash_key m k v (value_eq h)) m additions"

definition map_builtin :: "gc_ref \<Rightarrow> string \<Rightarrow> val list \<Rightarrow> ('w, val) prog" where
  "map_builtin r name args =
     (if name = ''len'' then
        on_args name (no_args args) (\<lambda>_. map_table r (\<lambda>h m. PDone (len_value (om_len m))))
      else if name = ''keys'' then
        on_args name (no_args args) (\<lambda>_. map_table r (\<lambda>h m. alloc_value (alloc_vector (map fst (map_entries m)))))
      else if name = ''values'' then
        on_args name (no_args args) (\<lambda>_. map_table r (\<lambda>h m. alloc_value (alloc_vector (map snd (map_entries m)))))
      else if name = ''insert'' then
        on_args name (two_args args) (\<lambda>(key, v). PRead (\<lambda>s.
          edit_value (edit_map r (\<lambda>m. ((), om_insert val_hash_key m key v (value_eq (vm_heap s))))) (\<lambda>_. PDone VUnit)))
      else if name = ''remove'' then
        on_args name (one_arg args) (\<lambda>key. PRead (\<lambda>s.
          edit_value (edit_map r (\<lambda>m. om_remove val_hash_key m key (value_eq (vm_heap s)))) opt_value))
      else if name = ''has?'' then
        on_args name (one_arg args) (\<lambda>key. map_table r (\<lambda>h m.
          PDone (VBool (om_contains_key val_hash_key m key (value_eq h)))))
      else if name = ''get'' then
        on_args name (one_arg args) (\<lambda>key. map_table r (\<lambda>h m.
          opt_value (om_get val_hash_key m key (value_eq h))))
      else if name = ''entries'' then
        on_args name (no_args args) (\<lambda>_. map_table r (\<lambda>h m.
          tuple_nodes (map (\<lambda>(k, v). [k, v]) (map_entries m)) (\<lambda>pairs. alloc_value (alloc_vector pairs))))
      else if name = ''merge'' then
        on_args name (Option.bind (one_arg args) (\<lambda>v. case v of VMap q \<Rightarrow> Some q | _ \<Rightarrow> None)) (\<lambda>q.
          map_table r (\<lambda>h m. map_table q (\<lambda>_ other.
            alloc_value (alloc_map (insert_all h m (map_entries other))))))
      else if name = ''each'' then
        on_args name (one_arg args) (\<lambda>f. map_table r (\<lambda>h m.
          prog_map (\<lambda>_. VUnit) (each_pair_rooted (VMap r) (map_entries m) (\<lambda>key v.
            prog_map (\<lambda>_. ()) (call_back f [key, v])))))
      else builtin_error name)"

definition add_all :: "heap \<Rightarrow> val oset \<Rightarrow> val list \<Rightarrow> val oset" where
  "add_all h st additions = foldl (\<lambda>st v. os_add val_hash_key st v (value_eq h)) st additions"

definition keep_present :: "heap \<Rightarrow> bool \<Rightarrow> val oset \<Rightarrow> val list \<Rightarrow> val oset" where
  "keep_present h present other items =
     os_from_distinct_items val_hash_key
       (filter (\<lambda>v. os_contains val_hash_key other v (value_eq h) = present) items)"

definition set_arg :: "val list \<Rightarrow> gc_ref option" where
  "set_arg args = Option.bind (one_arg args) (\<lambda>v. case v of VSet q \<Rightarrow> Some q | _ \<Rightarrow> None)"

definition set_builtin :: "gc_ref \<Rightarrow> string \<Rightarrow> val list \<Rightarrow> ('w, val) prog" where
  "set_builtin r name args =
     (if name = ''len'' then
        on_args name (no_args args) (\<lambda>_. set_table r (\<lambda>h st. PDone (len_value (os_len st))))
      else if name = ''add'' then
        on_args name (one_arg args) (\<lambda>v. PRead (\<lambda>s.
          edit_value (edit_set r (\<lambda>st. ((), os_add val_hash_key st v (value_eq (vm_heap s))))) (\<lambda>_. PDone VUnit)))
      else if name = ''remove'' then
        on_args name (one_arg args) (\<lambda>v. PRead (\<lambda>s.
          edit_value (edit_set r (\<lambda>st. os_remove val_hash_key st v (value_eq (vm_heap s)))) (\<lambda>b. PDone (VBool b))))
      else if name = ''has?'' then
        on_args name (one_arg args) (\<lambda>v. set_table r (\<lambda>h st.
          PDone (VBool (os_contains val_hash_key st v (value_eq h)))))
      else if name = ''union'' then
        on_args name (set_arg args) (\<lambda>q. set_table r (\<lambda>h st. set_table q (\<lambda>_ other.
          alloc_value (alloc_set (add_all h st (set_items other))))))
      else if name = ''intersect'' \<or> name = ''diff'' then
        on_args name (set_arg args) (\<lambda>q. set_table r (\<lambda>h st. set_table q (\<lambda>_ other.
          alloc_value (alloc_set (keep_present h (name = ''intersect'') other (set_items st))))))
      else builtin_error name)"

end
