(* ===== verification/Stdlib_Tables.thy ===== *)
theory Stdlib_Tables
  imports Brasa_Prelude
begin

text \<open>
  The declarations of the standard library (\<open>brasa_stdlib\<close>): the type language of the tables, the three
  kinds of rows, and the tables of every module, receiver and record. The checker derives signatures
  from them, the error-set pass what a member throws, and the machine the members of its records. A
  table macro expands to the list of its rows, and a member enum is the position of its row.
\<close>

section \<open>Rows\<close>

datatype (plugins only: code size) ty_desc =
    DInt | DFloat | DString | DBool | DUnit | DRange | DUnknown | DChar
  | DElem | DKey | DValue
  | DWalk | DStat | DJson | DProcOutput | DHttpResponse | DCliArgs
  | DVector ty_desc
  | DOption ty_desc
  | DMap ty_desc ty_desc
  | DSet ty_desc
  | DTuple "ty_desc list"
  | DFn "ty_desc list" ty_desc

datatype (plugins only: code size) ret_desc = RetTy ty_desc | VectorOfFnRet | TaskOfFnRet | RetCustom

record method_decl =
  md_name :: string
  md_params :: "ty_desc list"
  md_ret :: ret_desc
  md_throws :: "string list"

text \<open>What type names the rows of a receiver may mention.\<close>

datatype recv_shape = ShPlain | ShElem | ShKeyValue

definition shape_provides :: "recv_shape \<Rightarrow> ty_desc \<Rightarrow> bool" where
  "shape_provides shape desc =
     (case desc of
        DElem \<Rightarrow> shape = ShElem
      | DKey \<Rightarrow> shape = ShKeyValue
      | DValue \<Rightarrow> shape = ShKeyValue
      | _ \<Rightarrow> True)"

datatype (plugins only: code size) param_desc = PTy ty_desc | PCommand

datatype (plugins only: code size) module_kind =
    KCall "param_desc list" "param_desc list" ty_desc
  | KConstant ty_desc
  | KCustom string

record module_decl =
  dd_name :: string
  dd_kind :: module_kind
  dd_throws :: "string list"

datatype (plugins only: code size) record_kind = FieldMember | MethodMember "ty_desc list"

record record_decl =
  rd_name :: string
  rd_kind :: record_kind
  rd_ret :: ty_desc

definition mrow :: "string \<Rightarrow> ty_desc list \<Rightarrow> ret_desc \<Rightarrow> string list \<Rightarrow> method_decl" where
  "mrow name params ret throws = \<lparr>md_name = name, md_params = params, md_ret = ret, md_throws = throws\<rparr>"

definition drow :: "string \<Rightarrow> module_kind \<Rightarrow> string list \<Rightarrow> module_decl" where
  "drow name kind throws = \<lparr>dd_name = name, dd_kind = kind, dd_throws = throws\<rparr>"

definition rrow :: "string \<Rightarrow> record_kind \<Rightarrow> ty_desc \<Rightarrow> record_decl" where
  "rrow name kind ret = \<lparr>rd_name = name, rd_kind = kind, rd_ret = ret\<rparr>"

text \<open>\<open>iter().find\<close>.\<close>

fun find_row :: "('a \<Rightarrow> bool) \<Rightarrow> 'a list \<Rightarrow> 'a option" where
  "find_row p [] = None"
| "find_row p (x # xs) = (if p x then Some x else find_row p xs)"

lemma find_row_Some: "find_row p xs = Some x \<Longrightarrow> x \<in> set xs \<and> p x"
  by (induction xs) (auto split: if_splits)

lemma find_row_None_iff: "find_row p xs = None \<longleftrightarrow> (\<forall>x \<in> set xs. \<not> p x)"
  by (induction xs) auto

section \<open>Tables\<close>

definition fs_not_found :: string where "fs_not_found = ''fs.NotFound''"

definition fs_denied :: string where "fs_denied = ''fs.Denied''"

definition fs_io_error :: string where "fs_io_error = ''fs.IoError''"

definition fs_all_errors :: "string list" where "fs_all_errors = [fs_not_found, fs_denied, fs_io_error]"

definition fs_cwd_errors :: "string list" where "fs_cwd_errors = [fs_io_error]"

definition fs_members :: "module_decl list" where
  "fs_members = [
    drow ''read'' (KCall [PTy DString] [] DString) fs_all_errors,
    drow ''write'' (KCall [PTy DString, PTy DString] [] DUnit) fs_all_errors,
    drow ''append'' (KCall [PTy DString, PTy DString] [] DUnit) fs_all_errors,
    drow ''exists?'' (KCall [PTy DString] [] DBool) [],
    drow ''isFile?'' (KCall [PTy DString] [] DBool) [],
    drow ''isDir?'' (KCall [PTy DString] [] DBool) [],
    drow ''isSymlink?'' (KCall [PTy DString] [] DBool) [],
    drow ''stat'' (KCall [PTy DString] [] DStat) fs_all_errors,
    drow ''ls'' (KCall [PTy DString] [] (DVector DString)) fs_all_errors,
    drow ''glob'' (KCall [PTy DString] [] (DVector DString)) fs_all_errors,
    drow ''walk'' (KCall [PTy DString] [PTy (DVector DString)] (DVector DString)) fs_all_errors,
    drow ''tryWalk'' (KCall [PTy DString] [PTy (DVector DString)] DWalk) fs_all_errors,
    drow ''mkdir'' (KCall [PTy DString] [] DUnit) fs_all_errors,
    drow ''mkdirAll'' (KCall [PTy DString] [] DUnit) fs_all_errors,
    drow ''rm'' (KCall [PTy DString] [] DUnit) fs_all_errors,
    drow ''rmAll'' (KCall [PTy DString] [] DUnit) fs_all_errors,
    drow ''cp'' (KCall [PTy DString, PTy DString] [] DUnit) fs_all_errors,
    drow ''mv'' (KCall [PTy DString, PTy DString] [] DUnit) fs_all_errors,
    drow ''join'' (KCall [PTy DString, PTy DString] [] DString) [],
    drow ''base'' (KCall [PTy DString] [] DString) [],
    drow ''dir'' (KCall [PTy DString] [] DString) [],
    drow ''ext'' (KCall [PTy DString] [] DString) [],
    drow ''abs'' (KCall [PTy DString] [] DString) fs_cwd_errors,
    drow ''resolve'' (KCall [PTy DString] [] DString) fs_all_errors]"

definition walk_members :: "record_decl list" where
  "walk_members = [
    rrow ''paths'' FieldMember (DVector DString),
    rrow ''unreadable'' FieldMember (DVector DString)]"

definition stat_members :: "record_decl list" where
  "stat_members = [
    rrow ''size'' FieldMember DInt,
    rrow ''modifiedMillis'' FieldMember DInt,
    rrow ''isFile?'' FieldMember DBool,
    rrow ''isDir?'' FieldMember DBool,
    rrow ''isSymlink?'' FieldMember DBool]"

definition json_parse_error :: string where "json_parse_error = ''json.ParseError''"

definition json_value_error :: string where "json_value_error = ''json.ValueError''"

definition json_decode_error :: string where "json_decode_error = ''json.DecodeError''"

definition json_parse_errors :: "string list" where "json_parse_errors = [json_parse_error]"

definition json_value_errors :: "string list" where "json_value_errors = [json_value_error]"

definition json_decode_errors :: "string list" where "json_decode_errors = [json_parse_error, json_decode_error]"

definition json_members :: "module_decl list" where
  "json_members = [
    drow ''parse'' (KCall [PTy DString] [] DJson) json_parse_errors,
    drow ''of'' (KCall [PTy DUnknown] [] DJson) json_value_errors,
    drow ''stringify'' (KCall [PTy DUnknown] [] DString) json_value_errors,
    drow ''decode'' (KCustom ''answers the type the call site expects, which no signature can name'') json_decode_errors]"

definition json_accessors :: "method_decl list" where
  "json_accessors = [
    mrow ''asString'' [] (RetTy (DOption DString)) [],
    mrow ''asInt'' [] (RetTy (DOption DInt)) [],
    mrow ''asFloat'' [] (RetTy (DOption DFloat)) [],
    mrow ''asBool'' [] (RetTy (DOption DBool)) [],
    mrow ''asArray'' [] (RetTy (DOption (DVector DJson))) [],
    mrow ''asObject'' [] (RetTy (DOption (DMap DString DJson))) [],
    mrow ''null?'' [] (RetTy DBool) []]"

definition io_members :: "module_decl list" where
  "io_members = [
    drow ''puts'' (KCall [PTy DUnknown] [] DUnit) [],
    drow ''print'' (KCall [PTy DUnknown] [] DUnit) [],
    drow ''eprint'' (KCall [PTy DUnknown] [] DUnit) [],
    drow ''readLine'' (KCall [] [] (DOption DString)) [],
    drow ''readAll'' (KCall [] [] DString) []]"

definition env_members :: "module_decl list" where
  "env_members = [
    drow ''get'' (KCall [PTy DString] [] (DOption DString)) [],
    drow ''set'' (KCall [PTy DString, PTy DString] [] DUnit) [],
    drow ''vars'' (KCall [] [] (DMap DString DString)) [],
    drow ''args'' (KCall [] [] (DVector DString)) [],
    drow ''cwd'' (KCall [] [] DString) fs_cwd_errors,
    drow ''cd'' (KCall [PTy DString] [] DUnit) fs_all_errors,
    drow ''exit'' (KCall [PTy DInt] [] DUnit) []]"

definition proc_non_zero_exit :: string where "proc_non_zero_exit = ''proc.NonZeroExit''"

definition proc_spawn_error :: string where "proc_spawn_error = ''proc.SpawnError''"

definition proc_strict_errors :: "string list" where "proc_strict_errors = [proc_non_zero_exit, proc_spawn_error]"

definition proc_tolerant_errors :: "string list" where "proc_tolerant_errors = [proc_spawn_error]"

definition proc_members :: "module_decl list" where
  "proc_members = [
    drow ''run'' (KCall [PCommand] [PTy DString] DProcOutput) proc_strict_errors,
    drow ''tryRun'' (KCall [PCommand] [PTy DString] DProcOutput) proc_tolerant_errors,
    drow ''shell'' (KCall [PTy DString] [PTy DString] DProcOutput) proc_strict_errors,
    drow ''tryRunAll'' (KCall [PTy (DVector (DVector DString))] [PTy DInt] (DVector DProcOutput)) proc_tolerant_errors]"

definition output_members :: "record_decl list" where
  "output_members = [
    rrow ''stdout'' FieldMember DString,
    rrow ''stderr'' FieldMember DString,
    rrow ''code'' FieldMember DInt]"

definition non_zero_exit_members :: "record_decl list" where
  "non_zero_exit_members = [
    rrow ''message'' FieldMember DString,
    rrow ''output'' FieldMember DProcOutput]"

definition http_request_error :: string where "http_request_error = ''http.RequestError''"

definition http_all_errors :: "string list" where "http_all_errors = [http_request_error]"

definition http_members :: "module_decl list" where
  "http_members = [
    drow ''get'' (KCall [PTy DString] [PTy DInt] DHttpResponse) http_all_errors,
    drow ''post'' (KCall [PTy DString, PTy DString] [PTy DInt] DHttpResponse) http_all_errors,
    drow ''getWith'' (KCall [PTy DString, PTy (DMap DString DString)] [PTy DInt] DHttpResponse) http_all_errors,
    drow ''postWith'' (KCall [PTy DString, PTy DString, PTy (DMap DString DString)] [PTy DInt] DHttpResponse) http_all_errors]"

definition response_members :: "record_decl list" where
  "response_members = [
    rrow ''status'' FieldMember DInt,
    rrow ''body'' FieldMember DString,
    rrow ''header'' (MethodMember [DString]) (DOption DString)]"

definition cli_usage_error :: string where "cli_usage_error = ''cli.UsageError''"

definition cli_parse_errors :: "string list" where "cli_parse_errors = [cli_usage_error]"

definition cli_members :: "module_decl list" where
  "cli_members = [
    drow ''parse'' (KCall [PTy (DVector DString), PTy (DVector (DVector DString))] [] DCliArgs) cli_parse_errors,
    drow ''help'' (KCall [PTy DString, PTy (DVector (DVector DString))] [] DString) []]"

definition args_members :: "record_decl list" where
  "args_members = [
    rrow ''rest'' FieldMember (DVector DString),
    rrow ''flag'' (MethodMember [DString]) DBool,
    rrow ''option'' (MethodMember [DString]) (DOption DString)]"

definition math_members :: "module_decl list" where
  "math_members = [
    drow ''sqrt'' (KCall [PTy DFloat] [] DFloat) [],
    drow ''floor'' (KCall [PTy DFloat] [] DFloat) [],
    drow ''ceil'' (KCall [PTy DFloat] [] DFloat) [],
    drow ''round'' (KCall [PTy DFloat] [] DFloat) [],
    drow ''pow'' (KCall [PTy DFloat, PTy DFloat] [] DFloat) [],
    drow ''abs'' (KCustom ''polymorphic over int and float, and answers in the kind it was given'') [],
    drow ''min'' (KCustom ''polymorphic over int and float, and answers in the kind it was given'') [],
    drow ''max'' (KCustom ''polymorphic over int and float, and answers in the kind it was given'') [],
    drow ''pi'' (KConstant DFloat) [],
    drow ''e'' (KConstant DFloat) []]"

definition time_parse_error :: string where "time_parse_error = ''time.ParseError''"

definition time_parse_errors :: "string list" where "time_parse_errors = [time_parse_error]"

definition time_members :: "module_decl list" where
  "time_members = [
    drow ''now'' (KCall [] [] DFloat) [],
    drow ''nowMillis'' (KCall [] [] DInt) [],
    drow ''sleep'' (KCall [PTy DInt] [] DUnit) [],
    drow ''iso'' (KCall [PTy DInt] [] DString) [],
    drow ''parseIso'' (KCall [PTy DString] [] DInt) time_parse_errors,
    drow ''localOffsetMillis'' (KCall [PTy DInt] [] DInt) []]"

definition rand_members :: "module_decl list" where
  "rand_members = [
    drow ''seed'' (KCall [PTy DInt] [] DUnit) [],
    drow ''int'' (KCall [PTy DRange] [] DInt) [],
    drow ''float'' (KCall [] [] DFloat) [],
    drow ''choice'' (KCustom ''generic over the element of the vector argument, which a free module cannot name'') [],
    drow ''shuffle'' (KCustom ''generic over the element of the vector argument, which a free module cannot name'') []]"

definition str_parse_error :: string where "str_parse_error = ''string.ParseError''"

definition str_regex_error :: string where "str_regex_error = ''string.RegexError''"

definition str_parse_errors :: "string list" where "str_parse_errors = [str_parse_error]"

definition str_regex_errors :: "string list" where "str_regex_errors = [str_regex_error]"

definition string_methods :: "method_decl list" where
  "string_methods = [
    mrow ''len'' [] (RetTy DInt) [],
    mrow ''count'' [DString] (RetTy DInt) [],
    mrow ''trim'' [] (RetTy DString) [],
    mrow ''trimStart'' [] (RetTy DString) [],
    mrow ''trimEnd'' [] (RetTy DString) [],
    mrow ''toUpper'' [] (RetTy DString) [],
    mrow ''toLower'' [] (RetTy DString) [],
    mrow ''reverse'' [] (RetTy DString) [],
    mrow ''contains?'' [DString] (RetTy DBool) [],
    mrow ''startsWith?'' [DString] (RetTy DBool) [],
    mrow ''endsWith?'' [DString] (RetTy DBool) [],
    mrow ''split'' [DString] (RetTy (DVector DString)) [],
    mrow ''lines'' [] (RetTy (DVector DString)) [],
    mrow ''chars'' [] (RetTy (DVector DChar)) [],
    mrow ''bytes'' [] (RetTy (DVector DInt)) [],
    mrow ''slice'' [DInt, DInt] (RetTy DString) [],
    mrow ''repeat'' [DInt] (RetTy DString) [],
    mrow ''padStart'' [DInt, DString] (RetTy DString) [],
    mrow ''padEnd'' [DInt, DString] (RetTy DString) [],
    mrow ''replace'' [DString, DString] (RetTy DString) [],
    mrow ''removePrefix'' [DString] (RetTy DString) [],
    mrow ''find'' [DString] (RetTy (DOption DInt)) [],
    mrow ''toInt'' [] (RetTy DInt) str_parse_errors,
    mrow ''toFloat'' [] (RetTy DFloat) str_parse_errors,
    mrow ''match?'' [DString] (RetTy DBool) str_regex_errors,
    mrow ''captures'' [DString] (RetTy (DOption (DVector DString))) str_regex_errors,
    mrow ''replaceRe'' [DString, DString] (RetTy DString) str_regex_errors,
    mrow ''scan'' [DString] (RetTy (DVector DString)) str_regex_errors]"

definition int_methods :: "method_decl list" where
  "int_methods = [
    mrow ''toFloat'' [] (RetTy DFloat) [],
    mrow ''toFixed'' [DInt] (RetTy DString) [],
    mrow ''toString'' [] (RetTy DString) []]"

definition float_methods :: "method_decl list" where
  "float_methods = [
    mrow ''toInt'' [] (RetTy DInt) [],
    mrow ''toFixed'' [DInt] (RetTy DString) [],
    mrow ''toString'' [] (RetTy DString) []]"

definition vector_methods :: "method_decl list" where
  "vector_methods = [
    mrow ''len'' [] (RetTy DInt) [],
    mrow ''push'' [DElem] (RetTy DUnit) [],
    mrow ''pop'' [] (RetTy (DOption DElem)) [],
    mrow ''first'' [] (RetTy (DOption DElem)) [],
    mrow ''last'' [] (RetTy (DOption DElem)) [],
    mrow ''reverse'' [] (RetTy (DVector DElem)) [],
    mrow ''contains?'' [DElem] (RetTy DBool) [],
    mrow ''slice'' [DInt, DInt] (RetTy (DVector DElem)) [],
    mrow ''join'' [DString] (RetTy DString) [],
    mrow ''map'' [DFn [DElem] DUnknown] VectorOfFnRet [],
    mrow ''filter'' [DFn [DElem] DBool] (RetTy (DVector DElem)) [],
    mrow ''each'' [DFn [DElem] DUnit] (RetTy DUnit) [],
    mrow ''sortBy'' [DFn [DElem] DUnknown] (RetTy (DVector DElem)) [],
    mrow ''reduce'' [DUnknown, DFn [DUnknown, DElem] DUnknown] (RetTy DUnknown) [],
    mrow ''find'' [DFn [DElem] DBool] (RetTy (DOption DElem)) [],
    mrow ''any?'' [DFn [DElem] DBool] (RetTy DBool) [],
    mrow ''all?'' [DFn [DElem] DBool] (RetTy DBool) [],
    mrow ''sort'' [] RetCustom [],
    mrow ''zip'' [DVector DUnknown] (RetTy (DVector (DTuple [DElem, DUnknown]))) [],
    mrow ''flatten'' [] RetCustom [],
    mrow ''uniq'' [] (RetTy (DVector DElem)) []]"

definition map_methods :: "method_decl list" where
  "map_methods = [
    mrow ''len'' [] (RetTy DInt) [],
    mrow ''keys'' [] (RetTy (DVector DKey)) [],
    mrow ''values'' [] (RetTy (DVector DValue)) [],
    mrow ''insert'' [DKey, DValue] (RetTy DUnit) [],
    mrow ''remove'' [DKey] (RetTy (DOption DValue)) [],
    mrow ''get'' [DKey] (RetTy (DOption DValue)) [],
    mrow ''has?'' [DKey] (RetTy DBool) [],
    mrow ''entries'' [] (RetTy (DVector (DTuple [DKey, DValue]))) [],
    mrow ''merge'' [DMap DKey DValue] (RetTy (DMap DKey DValue)) [],
    mrow ''each'' [DFn [DKey, DValue] DUnit] (RetTy DUnit) []]"

definition set_methods :: "method_decl list" where
  "set_methods = [
    mrow ''len'' [] (RetTy DInt) [],
    mrow ''add'' [DElem] (RetTy DUnit) [],
    mrow ''remove'' [DElem] (RetTy DBool) [],
    mrow ''has?'' [DElem] (RetTy DBool) [],
    mrow ''union'' [DSet DElem] (RetTy (DSet DElem)) [],
    mrow ''intersect'' [DSet DElem] (RetTy (DSet DElem)) [],
    mrow ''diff'' [DSet DElem] (RetTy (DSet DElem)) []]"

definition concurrent_scope_exited :: string where "concurrent_scope_exited = ''concurrent.ScopeExited''"

definition concurrent_cancelled :: string where "concurrent_cancelled = ''concurrent.Cancelled''"

definition concurrent_spawn_errors :: "string list" where "concurrent_spawn_errors = [concurrent_scope_exited]"

definition scope_methods :: "method_decl list" where
  "scope_methods = [
    mrow ''spawn'' [DFn [] DUnknown] TaskOfFnRet concurrent_spawn_errors]"

definition task_methods :: "method_decl list" where
  "task_methods = [
    mrow ''value'' [] (RetTy DElem) []]"

definition error_members :: "record_decl list" where
  "error_members = [
    rrow ''message'' FieldMember DString]"

section \<open>All tables\<close>

definition free_modules :: "(string \<times> module_decl list) list" where
  "free_modules = [
    (''fs'', fs_members), (''json'', json_members), (''io'', io_members), (''env'', env_members),
    (''proc'', proc_members), (''http'', http_members), (''cli'', cli_members), (''math'', math_members),
    (''time'', time_members), (''rand'', rand_members)]"

definition free_member :: "string \<Rightarrow> string \<Rightarrow> module_decl option" where
  "free_member module name =
     Option.bind (find_row (\<lambda>(m, _). m = module) free_modules)
       (\<lambda>(_, members). find_row (\<lambda>decl. dd_name decl = name) members)"

definition is_free_module :: "string \<Rightarrow> bool" where
  "is_free_module module \<longleftrightarrow> list_ex (\<lambda>(m, _). m = module) free_modules"

definition receivers :: "(string \<times> recv_shape \<times> method_decl list) list" where
  "receivers = [
    (''string'', ShPlain, string_methods), (''int'', ShPlain, int_methods), (''float'', ShPlain, float_methods),
    (''Vector'', ShElem, vector_methods), (''Map'', ShKeyValue, map_methods), (''Set'', ShElem, set_methods),
    (''Json'', ShPlain, json_accessors), (''Scope'', ShPlain, scope_methods), (''Task'', ShElem, task_methods)]"

definition record_tables :: "(string \<times> record_decl list) list" where
  "record_tables = [
    (''Output'', output_members), (''Response'', response_members), (''Args'', args_members),
    (''Walk'', walk_members), (''NativeError'', error_members), (''Stat'', stat_members),
    (''NonZeroExit'', non_zero_exit_members)]"

lemmas stdlib_tables =
  free_modules_def receivers_def record_tables_def
  fs_members_def json_members_def io_members_def env_members_def proc_members_def http_members_def
  cli_members_def math_members_def time_members_def rand_members_def string_methods_def int_methods_def
  float_methods_def vector_methods_def map_methods_def set_methods_def json_accessors_def
  scope_methods_def task_methods_def output_members_def response_members_def args_members_def
  walk_members_def error_members_def stat_members_def non_zero_exit_members_def

lemmas stdlib_rows = mrow_def drow_def rrow_def

end
