(* ===== verification/Method_Builtins.thy ===== *)
theory Method_Builtins
  imports Collection_Builtins Stdlib_Tables
begin

text \<open>
  The dispatch of builtins (\<open>method_builtin\<close> and \<open>free_builtin\<close> of \<open>brasa_vm/src/builtins.rs\<close>),
  the members of the standard library's records, \<open>std::math\<close>, and the environment in which the
  machine runs with them. The \<open>Json\<close> accessors (on trees of \<open>serde_json\<close>), the scheduler's
  \<open>Scope\<close> and \<open>Task\<close>, the output stream and the modules that reach the operating system stay
  parameters (\<open>host\<close>).
\<close>

section \<open>Records\<close>

definition member_kind :: "record_decl list \<Rightarrow> string \<Rightarrow> record_kind option" where
  "member_kind members name = map_option rd_kind (find_row (\<lambda>decl. rd_name decl = name) members)"

definition record_member_kind :: "val \<Rightarrow> string \<Rightarrow> record_kind option" where
  "record_member_kind recv name =
     (case recv of
        VProcOutput _ \<Rightarrow> member_kind output_members name
      | VHttpResponse _ \<Rightarrow> member_kind response_members name
      | VCliArgs _ \<Rightarrow> member_kind args_members name
      | VWalk _ _ _ \<Rightarrow> member_kind walk_members name
      | VStat _ \<Rightarrow> member_kind stat_members name
      | VNativeError e \<Rightarrow>
          (case ne_payload e of
             None \<Rightarrow> member_kind error_members name
           | Some _ \<Rightarrow> member_kind non_zero_exit_members name)
      | _ \<Rightarrow> None)"

definition is_record_field :: "val \<Rightarrow> string \<Rightarrow> bool" where
  "is_record_field recv name \<longleftrightarrow> record_member_kind recv name = Some FieldMember"

definition is_record_receiver :: "val \<Rightarrow> bool" where
  "is_record_receiver recv =
     (case recv of
        VProcOutput _ \<Rightarrow> True | VHttpResponse _ \<Rightarrow> True | VCliArgs _ \<Rightarrow> True
      | VWalk _ _ _ \<Rightarrow> True | VStat _ \<Rightarrow> True | VNativeError _ \<Rightarrow> True | _ \<Rightarrow> False)"

definition can_bind_member :: "val \<Rightarrow> string \<Rightarrow> bool" where
  "can_bind_member recv name \<longleftrightarrow>
     \<not> is_record_receiver recv \<or> name = ''toString'' \<or> record_member_kind recv name \<noteq> None"

definition proc_output_builtin :: "output_value \<Rightarrow> string \<Rightarrow> val list \<Rightarrow> ('w, val) prog" where
  "proc_output_builtin out name args =
     on_args name (no_args args) (\<lambda>_.
       if name = ''stdout'' then PDone (VStr (out_stdout out))
       else if name = ''stderr'' then PDone (VStr (out_stderr out))
       else if name = ''code'' then PDone (VInt (out_code out))
       else builtin_error name)"

definition response_builtin :: "'w host \<Rightarrow> response_value \<Rightarrow> string \<Rightarrow> val list \<Rightarrow> ('w, val) prog" where
  "response_builtin H response name args =
     (if name = ''status'' then on_args name (no_args args) (\<lambda>_. PDone (VInt (resp_status response)))
      else if name = ''body'' then on_args name (no_args args) (\<lambda>_. PDone (VStr (resp_body response)))
      else if name = ''header'' then
        on_args name (str_arg args) (\<lambda>wanted.
          opt_value (map_option VStr (map_of (resp_headers response) (h_lowercase H wanted))))
      else builtin_error name)"

definition args_builtin :: "args_value \<Rightarrow> string \<Rightarrow> val list \<Rightarrow> ('w, val) prog" where
  "args_builtin parsed name args =
     (if name = ''flag'' then
        on_args name (str_arg args) (\<lambda>wanted. PDone (VBool (wanted \<in> set (args_flags parsed))))
      else if name = ''option'' then
        on_args name (str_arg args) (\<lambda>wanted. opt_value (map_option VStr (map_of (args_options parsed) wanted)))
      else if name = ''rest'' then on_args name (no_args args) (\<lambda>_. str_vector (args_rest parsed))
      else builtin_error name)"

definition native_error_builtin :: "native_error_value \<Rightarrow> string \<Rightarrow> val list \<Rightarrow> ('w, val) prog" where
  "native_error_builtin e name args =
     on_args name (no_args args) (\<lambda>_.
       case ne_payload e of
         None \<Rightarrow> if name = ''message'' then PDone (VStr (ne_message e)) else builtin_error name
       | Some out \<Rightarrow>
           if name = ''message'' then PDone (VStr (ne_message e))
           else if name = ''output'' then PDone (VProcOutput out)
           else builtin_error name)"

definition walk_builtin :: "val \<Rightarrow> val \<Rightarrow> string \<Rightarrow> val list \<Rightarrow> ('w, val) prog" where
  "walk_builtin paths unreadable name args =
     on_args name (no_args args) (\<lambda>_.
       if name = ''paths'' then PDone paths
       else if name = ''unreadable'' then PDone unreadable
       else builtin_error name)"

definition stat_builtin :: "stat_value \<Rightarrow> string \<Rightarrow> val list \<Rightarrow> ('w, val) prog" where
  "stat_builtin st name args =
     on_args name (no_args args) (\<lambda>_.
       if name = ''size'' then PDone (VInt (stat_size st))
       else if name = ''modifiedMillis'' then PDone (VInt (stat_modified_millis st))
       else if name = ''isFile?'' then PDone (VBool (stat_is_file st))
       else if name = ''isDir?'' then PDone (VBool (stat_is_dir st))
       else if name = ''isSymlink?'' then PDone (VBool (stat_is_symlink st))
       else builtin_error name)"

section \<open>Methods\<close>

definition json_value_builtin :: "'w host \<Rightarrow> json_value \<Rightarrow> string \<Rightarrow> val list \<Rightarrow> ('w, val) prog" where
  "json_value_builtin H tree name args =
     prog_bind (h_json H tree name args) (\<lambda>r. case r of Some v \<Rightarrow> PDone v | None \<Rightarrow> builtin_error name)"

text \<open>\<open>json_option_builtin\<close> on \<open>None\<close>.\<close>

definition absent_json_builtin :: "string \<Rightarrow> val list \<Rightarrow> ('w, val) prog" where
  "absent_json_builtin name args =
     on_args name (no_args args) (\<lambda>_.
       if name = ''null?'' then PDone (VBool False)
       else if name \<in> set [''asString'', ''asInt'', ''asFloat'', ''asBool'', ''asArray'', ''asObject''] then PDone VNone
       else builtin_error name)"

definition method_builtin :: "'w env \<Rightarrow> 'w host \<Rightarrow> string \<Rightarrow> val \<Rightarrow> val list \<Rightarrow> ('w, val) prog" where
  "method_builtin E H name recv args =
     (if name = ''toString'' \<and> args = [] \<and> \<not> (case recv of VInt _ \<Rightarrow> True | VFloat _ \<Rightarrow> True | _ \<Rightarrow> False)
      then display_value E recv
      else case recv of
        VInt v \<Rightarrow> int_builtin E H v name args
      | VFloat v \<Rightarrow> float_builtin E H v name args
      | VStr s \<Rightarrow> string_builtin H s name args
      | VVector r \<Rightarrow> vector_builtin E r name args
      | VMap r \<Rightarrow> map_builtin r name args
      | VSet r \<Rightarrow> set_builtin r name args
      | VProcOutput out \<Rightarrow> proc_output_builtin out name args
      | VHttpResponse response \<Rightarrow> response_builtin H response name args
      | VCliArgs parsed \<Rightarrow> args_builtin parsed name args
      | VWalk _ paths unreadable \<Rightarrow> walk_builtin paths unreadable name args
      | VStat st \<Rightarrow> stat_builtin st name args
      | VNativeError e \<Rightarrow> native_error_builtin e name args
      | VConcurrentScope _ \<Rightarrow> h_scope H recv name args
      | VTask _ \<Rightarrow> h_task H recv name args
      | VJson tree \<Rightarrow> json_value_builtin H tree name args
      | VSome _ inner \<Rightarrow>
          (case inner of VJson tree \<Rightarrow> json_value_builtin H tree name args | _ \<Rightarrow> builtin_error name)
      | VNone \<Rightarrow> absent_json_builtin name args
      | _ \<Rightarrow> builtin_error name)"

section \<open>Free builtins\<close>

definition invalid_module_args :: "string \<Rightarrow> string \<Rightarrow> ('w, 'a) prog" where
  "invalid_module_args module_of name =
     PRaise (SFatal (''brasa: invalid argument(s) to `'' @ module_of @ ''.'' @ name @ ''`''))"

definition unknown_module_member :: "string \<Rightarrow> string \<Rightarrow> ('w, 'a) prog" where
  "unknown_module_member module_of name =
     PRaise (SFatal (''brasa: unknown member `'' @ name @ ''` on module `'' @ module_of @ ''`''))"

definition f64_pi :: f64 where "f64_pi = 0x400921FB54442D18"
definition f64_e :: f64 where "f64_e = 0x4005BF0A8B145769"

definition f64_abs :: "f64 \<Rightarrow> f64" where
  "f64_abs x = word_of_int (f64_magnitude x)"

definition checked_abs :: "i64 \<Rightarrow> i64 option" where
  "checked_abs v = i64_of \<bar>sint v\<bar>"

definition as_float :: "val \<Rightarrow> f64 option" where
  "as_float v = (case v of VFloat x \<Rightarrow> Some x | _ \<Rightarrow> None)"

definition float_call :: "string \<Rightarrow> (f64 \<Rightarrow> f64) \<Rightarrow> val list \<Rightarrow> ('w, val) prog" where
  "float_call name f args =
     (case Option.bind (one_arg args) as_float of
        Some x \<Rightarrow> PDone (VFloat (f x)) | None \<Rightarrow> invalid_module_args ''math'' name)"

definition extremum ::
    "string \<Rightarrow> (int \<Rightarrow> int \<Rightarrow> int) \<Rightarrow> (f64 \<Rightarrow> f64 \<Rightarrow> f64) \<Rightarrow> val list \<Rightarrow> ('w, val) prog" where
  "extremum name f g args =
     (case pair_args as_int as_int args of
        Some (a, b) \<Rightarrow> PDone (VInt (word_of_int (f (sint a) (sint b))))
      | None \<Rightarrow>
          (case pair_args as_float as_float args of
             Some (a, b) \<Rightarrow> PDone (VFloat (g a b)) | None \<Rightarrow> invalid_module_args ''math'' name))"

definition math_call :: "'w env \<Rightarrow> 'w host \<Rightarrow> string \<Rightarrow> val list \<Rightarrow> ('w, val) prog" where
  "math_call E H name args =
     (if name \<notin> set (map dd_name math_members) then unknown_module_member ''math'' name
      else if name = ''pi'' \<and> args = [] then PDone (VFloat f64_pi)
      else if name = ''e'' \<and> args = [] then PDone (VFloat f64_e)
      else if name \<in> set [''sqrt'', ''floor'', ''ceil'', ''round''] then float_call name (h_float_unary H name) args
      else if name = ''pow'' then
        (case pair_args as_float as_float args of
           Some (a, b) \<Rightarrow> PDone (VFloat (e_float_pow E a b)) | None \<Rightarrow> invalid_module_args ''math'' name)
      else if name = ''abs'' then
        (case Option.bind (one_arg args) as_int of
           Some v \<Rightarrow>
             (case checked_abs v of
                Some r \<Rightarrow> PDone (VInt r)
              | None \<Rightarrow> prog_panic E integer_overflow ''integer overflow in `math.abs`'')
         | None \<Rightarrow> float_call name f64_abs args)
      else if name = ''min'' then extremum name min (h_float_min H) args
      else if name = ''max'' then extremum name max (h_float_max H) args
      else invalid_module_args ''math'' name)"

definition raise_text :: "val list \<Rightarrow> (string \<Rightarrow> ('w, 'a) prog) \<Rightarrow> ('w, 'a) prog" where
  "raise_text args k = (case args of VStr message # _ \<Rightarrow> k message | _ \<Rightarrow> PCrash BadKind)"

definition free_builtin :: "'w env \<Rightarrow> 'w host \<Rightarrow> string \<Rightarrow> val list \<Rightarrow> ('w, val) prog" where
  "free_builtin E H name args =
     (if name = ''puts'' \<or> name = ''print'' then
        (case one_arg args of
           Some v \<Rightarrow>
             prog_bind (display E v) (\<lambda>text.
               prog_map (\<lambda>_. VUnit) (h_print H (if name = ''puts'' then text @ line_feed else text)))
         | None \<Rightarrow> PRaise (SFatal ''brasa: `puts`/`print` take exactly 1 argument''))
      else if name = ''<fatal>'' then raise_text args (\<lambda>message. PRaise (SFatal message))
      else if name = ''<assert-failed>'' then raise_text args (prog_panic E assertion_failed)
      else if starts_with name ''math.'' then math_call E H (drop 5 name) args
      else h_free H name args)"

section \<open>The machine with its builtins\<close>

definition with_builtins :: "'w host \<Rightarrow> 'w env \<Rightarrow> 'w env" where
  "with_builtins H E =
     E\<lparr>e_method := method_builtin E H, e_free := free_builtin E H,
       e_record_field := is_record_field, e_can_bind := can_bind_member\<rparr>"

end
