(* ===== verification/Quiet_Builtins.thy ===== *)
theory Quiet_Builtins
  imports Method_Builtins
begin

text \<open>
  No modelled builtin parks the task by itself or panics in one of the ways the machine's discipline excludes. So
  the hypothesis \<open>quiet_env\<close> of the theorems on the machine holds for the machine with its
  builtins as soon as the parts outside the model are quiet.
\<close>

named_theorems parkless

lemma parkless_core [parkless]:
  "no_park (PDone x)" "sig \<noteq> SPark \<Longrightarrow> no_park (PRaise sig)" "soft k \<Longrightarrow> no_park (PCrash k)"
  "(\<And>s. no_park (g s)) \<Longrightarrow> no_park (PRead g)" "no_park p \<Longrightarrow> no_park (PWrite st p)"
  "(\<And>r. r \<noteq> Inl SPark \<Longrightarrow> no_park (h r)) \<Longrightarrow> no_park (PCall callee args h)"
  by simp_all

lemmas [parkless] = no_park_bind no_park_map no_park_result no_park_heap no_park_display

lemma parkless_show [parkless]: "no_park (display E v)"
  by (simp add: display_def no_park_render)

lemma parkless_cases [parkless]:
  "(b \<Longrightarrow> no_park p) \<Longrightarrow> (\<not> b \<Longrightarrow> no_park q) \<Longrightarrow> no_park (if b then p else q)"
  "no_park p \<Longrightarrow> (\<And>y. no_park (k y)) \<Longrightarrow> no_park (case_option p k x)"
  "(\<And>a b. no_park (g a b)) \<Longrightarrow> no_park (case_prod g z)"
  by (simp_all split: option.split prod.split)

lemma parkless_errors [parkless]:
  "no_park (builtin_error name)" "no_park (native_error name message)" "no_park (prog_panic E name detail)"
  "no_park (parse_failure H t wanted)" "no_park (invalid_module_args m name)" "no_park (unknown_module_member m name)"
  unfolding builtin_error_def native_error_def prog_panic_def parse_failure_def invalid_module_args_def
    unknown_module_member_def
  by (intro parkless; simp)+

lemma parkless_results [parkless]:
  "(\<And>x. no_park (k x)) \<Longrightarrow> no_park (on_args name shape k)" "no_park (alloc_value alloc)"
  "(\<And>a. no_park (ka a)) \<Longrightarrow> no_park (next_node ka)" "no_park (some_value v)" "no_park (opt_value x)"
  unfolding on_args_def alloc_value_def next_node_def some_value_def opt_value_def by (intro parkless; simp)+

lemma parkless_cells [parkless]:
  "(\<And>xs. no_park (k xs)) \<Longrightarrow> no_park (vector_items r k)"
  "(\<And>h m. no_park (km h m)) \<Longrightarrow> no_park (map_table r km)"
  "(\<And>h st. no_park (ks h st)) \<Longrightarrow> no_park (set_table r ks)"
  "(\<And>x. no_park (ke x)) \<Longrightarrow> no_park (edit_value edit ke)"
  unfolding vector_items_def map_table_def set_table_def edit_value_def by (intro parkless; simp)+

lemma parkless_nodes [parkless]: "(\<And>ts. no_park (k ts)) \<Longrightarrow> no_park (tuple_nodes xss k)"
  by (induction xss arbitrary: k) (auto intro!: parkless simp del: no_park.simps)

lemma parkless_flatten [parkless]: "(\<And>ts. no_park (k ts)) \<Longrightarrow> no_park (flatten_items vs flat k)"
  by (induction vs arbitrary: flat) (auto intro!: parkless split: val.split simp del: no_park.simps)

lemma parkless_orderable [parkless]: "no_park p \<Longrightarrow> no_park (orderable E a b v p)"
  by (auto simp: orderable_def intro!: parkless split: val.split simp del: no_park.simps)

lemma parkless_all_orderable [parkless]: "no_park p \<Longrightarrow> no_park (all_orderable E vs p)"
  by (induction vs) (auto intro: parkless_orderable)

lemma parkless_regex [parkless]: "(\<And>re. no_park (k re)) \<Longrightarrow> no_park (compile_regex H pattern k)"
  unfolding compile_regex_def by (intro parkless)

section \<open>Traversals\<close>

lemma parkless_roots [parkless]:
  "no_park p \<Longrightarrow> no_park (unroot mark p)" "no_park p \<Longrightarrow> no_park (keep_root v p)"
  "(\<And>v. no_park (k v)) \<Longrightarrow> no_park (root_at ix k)"
  "(\<And>a b c. no_park (kr a b c)) \<Longrightarrow> no_park (rooted_region before snapshot kr)"
  unfolding unroot_def keep_root_def root_at_def rooted_region_def by (intro parkless; simp)+

lemma parkless_or_unroot [parkless]:
  "no_park p \<Longrightarrow> (\<And>x. no_park (k x)) \<Longrightarrow> no_park (or_unroot mark p k)"
  unfolding or_unroot_def by (rule no_park_try) (auto simp: unroot_def split: sum.split)

lemma parkless_collect [parkless]:
  assumes "\<And>item. no_park (turn item)" shows "no_park (collect_rooted recv snapshot turn)"
proof -
  have e: "no_park rest \<Longrightarrow> no_park (collect_each turn mark ixs rest)" for mark ixs and rest :: "('a, val list) prog"
    by (induction ixs) (auto intro!: parkless assms simp del: no_park.simps)
  show ?thesis unfolding collect_rooted_def by (intro parkless e)
qed

lemma parkless_find [parkless]:
  assumes "\<And>item. no_park (turn item)" shows "no_park (find_rooted recv snapshot turn)"
proof -
  have "no_park (find_each turn mark ixs)" for mark ixs
    by (induction ixs) (auto intro!: parkless assms simp del: no_park.simps)
  then show ?thesis unfolding find_rooted_def by (intro parkless)
qed

lemma parkless_pairs [parkless]:
  assumes "\<And>a b. no_park (turn a b)" shows "no_park (each_pair_rooted recv snapshot turn)"
proof -
  have "no_park (each_pair turn mark ix end_ix)" for mark ix end_ix
    by (induction "end_ix - ix" arbitrary: ix rule: less_induct)
      (subst each_pair.simps, intro parkless assms, simp)
  then show ?thesis unfolding each_pair_rooted_def by (intro parkless)
qed

lemma parkless_keys [parkless]:
  assumes "\<And>item. no_park (key_of item)" shows "no_park (key_rooted recv snapshot key_of)"
proof -
  have e: "no_park rest \<Longrightarrow> no_park (key_each key_of mark ixs rest)" for mark ixs and rest :: "('a, (val \<times> val) list) prog"
    by (induction ixs) (auto intro!: parkless assms simp del: no_park.simps)
  show ?thesis unfolding key_rooted_def Let_def by (intro parkless e)
qed

lemma parkless_fold [parkless]:
  assumes "\<And>a b. no_park (turn a b)" shows "no_park (fold_rooted recv snapshot init turn)"
proof -
  have "no_park (fold_each turn mark ixs)" for mark ixs
    by (induction ixs) (auto intro!: parkless assms simp del: no_park.simps)
  then show ?thesis unfolding fold_rooted_def by (intro parkless)
qed

lemma parkless_join [parkless]: "no_park (join_each E mark ixs parts)"
  by (induction ixs arbitrary: parts) (auto intro!: parkless simp del: no_park.simps)

lemma parkless_call_back [parkless]: "no_park (call_back f args)"
  unfolding call_back_def by (intro parkless)

lemma parkless_predicate [parkless]: "no_park (predicate name f item g)"
  unfolding predicate_def by (rule no_park_bind [OF parkless_call_back]) (auto split: val.split)

section \<open>Dispatch\<close>

lemma parkless_string: "no_park (string_builtin H t name args)"
  unfolding string_builtin_def string_split_def string_find_def string_captures_def Let_def by (intro parkless)

lemma parkless_collections:
  "no_park (vector_builtin E r name args)" "no_park (map_builtin r name args)" "no_park (set_builtin r name args)"
  unfolding vector_builtin_def vector_push_def vector_map_def vector_filter_def vector_each_def vector_reduce_def
    vector_find_def vector_decide_def vector_zip_def sort_natural_def sort_by_def Let_def vector_join_def
    map_builtin_def set_builtin_def
  by (intro parkless)+

lemma parkless_fixed [parkless]: "(\<And>n. no_park (k n)) \<Longrightarrow> no_park (check_fixed_digits E digits k)"
  unfolding check_fixed_digits_def by (intro parkless)

lemma parkless_records:
  "no_park (int_builtin E H i name args)" "no_park (float_builtin E H x name args)"
  "no_park (proc_output_builtin out name args)" "no_park (response_builtin H response name args)"
  "no_park (args_builtin parsed name args)" "no_park (native_error_builtin e name args)"
  "no_park (walk_builtin paths unreadable name args)" "no_park (stat_builtin st name args)"
  "no_park (absent_json_builtin name args)" "no_park (math_call E H name args)"
  unfolding int_builtin_def float_builtin_def proc_output_builtin_def response_builtin_def args_builtin_def
    native_error_builtin_def walk_builtin_def stat_builtin_def absent_json_builtin_def math_call_def float_call_def
    extremum_def
  by (intro parkless)+

definition quiet_host :: "'w host \<Rightarrow> bool" where
  "quiet_host H \<longleftrightarrow>
     (\<forall>t. no_park (h_print H t)) \<and> (\<forall>tree name args. no_park (h_json H tree name args)) \<and>
     (\<forall>v name args. no_park (h_scope H v name args) \<and> no_park (h_task H v name args)) \<and>
     (\<forall>name args. no_park (h_free H name args))"

lemma quiet_hostD:
  assumes "quiet_host H"
  shows "no_park (h_print H t)" "no_park (h_json H tree name args)" "no_park (h_scope H v name args)"
    "no_park (h_task H v name args)" "no_park (h_free H name args)"
  using assms by (simp_all add: quiet_host_def)

lemma parkless_method:
  assumes "quiet_host H" shows "no_park (method_builtin E H name recv args)"
proof -
  have j: "no_park (json_value_builtin H tree name args)" for tree
    unfolding json_value_builtin_def by (intro parkless quiet_hostD [OF assms])
  show ?thesis
    unfolding method_builtin_def
    by (intro parkless; cases recv)
      (simp_all add: j quiet_hostD [OF assms] parkless_string parkless_collections parkless_records parkless_errors
        del: no_park.simps split: val.split)
qed

lemma parkless_free:
  assumes "quiet_host H" shows "no_park (free_builtin E H name args)"
proof -
  have r: "(\<And>t. no_park (k t)) \<Longrightarrow> no_park (raise_text args k)" for args and k :: "string \<Rightarrow> ('a, val) prog"
    by (auto simp: raise_text_def split: list.split val.split)
  show ?thesis
    unfolding free_builtin_def by (intro parkless quiet_hostD [OF assms] r parkless_records; simp)
qed

lemma with_builtins_quiet: "quiet_host H \<Longrightarrow> quiet_env (with_builtins H E)"
  by (simp add: quiet_env_def with_builtins_def parkless_method parkless_free)

end
