(* ===== verification/Root_Balance.thy ===== *)
theory Root_Balance
  imports Method_Builtins
begin

text \<open>
  Native code balances the stack of native roots: whatever a builtin does between, on return and
  on every signal the stack is what it was. The contract is the locale \<open>callback\<close>: calls back
  into compiled code balance it, so every builtin does. The machine is an instance: by induction
  on its fuel, no instruction, no call and no run leaves a root behind or drops one.
\<close>

section \<open>Where a computation leaves the roots\<close>

named_theorems rooting

definition roots_end :: "val list \<Rightarrow> ('a, 'w vm) outcome \<Rightarrow> bool" where
  "roots_end rs r =
     (case r of
        Returns _ s \<Rightarrow> roots_of s = rs | Raises _ s \<Rightarrow> roots_of s = rs | Crash _ \<Rightarrow> True | OutOfFuel \<Rightarrow> True)"

lemma roots_end_simps [simp]:
  "roots_end rs (Returns x s) \<longleftrightarrow> roots_of s = rs" "roots_end rs (Raises sig s) \<longleftrightarrow> roots_of s = rs"
  "roots_end rs (Crash k)" "roots_end rs OutOfFuel"
  by (simp_all add: roots_end_def)

lemma roots_of_simps [simp]:
  "roots_of (s\<lparr>vm_stack := st\<rparr>) = roots_of s" "roots_of (s\<lparr>vm_frames := fs\<rparr>) = roots_of s"
  "roots_of (s\<lparr>vm_globals := gs\<rparr>) = roots_of s" "roots_of (s\<lparr>vm_reentry := n\<rparr>) = roots_of s"
  "roots_of (s\<lparr>vm_store := st'\<rparr>) = st_roots st'" "roots_of (set_heap h s) = roots_of s"
  "roots_of (truncate_stack m s) = roots_of s" "roots_of (put_iter a it s) = roots_of s"
  "roots_of (leave_nested s) = roots_of s"
  by (simp_all add: roots_of_def set_heap_def truncate_stack_def put_iter_def leave_nested_def)

lemma st_roots_store [simp]: "st_roots (vm_store s) = roots_of s"
  by (simp add: roots_of_def)

lemma st_roots_set [simp]:
  "st_roots (set_roots g s) = g (roots_of s)" "st_roots (unroot_store mark s) = take mark (roots_of s)"
  by (simp_all add: set_roots_def unroot_store_def Let_def)

definition leaves ::
    "(val \<Rightarrow> val list \<Rightarrow> 'w vm \<Rightarrow> (val, 'w vm) outcome) \<Rightarrow>
     (func_id \<Rightarrow> val list \<Rightarrow> 'w vm \<Rightarrow> (val, 'w vm) outcome) \<Rightarrow>
     val list \<Rightarrow> val list \<Rightarrow> ('w, 'a) prog \<Rightarrow> bool" where
  "leaves cv cf rs rs' p \<longleftrightarrow> (\<forall>s. roots_of s = rs \<longrightarrow> roots_end rs' (run_prog cv cf p s))"

definition balanced ::
    "(val \<Rightarrow> val list \<Rightarrow> 'w vm \<Rightarrow> (val, 'w vm) outcome) \<Rightarrow>
     (func_id \<Rightarrow> val list \<Rightarrow> 'w vm \<Rightarrow> (val, 'w vm) outcome) \<Rightarrow> ('w, 'a) prog \<Rightarrow> bool" where
  "balanced cv cf p \<longleftrightarrow> (\<forall>rs. leaves cv cf rs rs p)"

lemma run_prog_try:
  "run_prog cv cf (prog_try p k) s =
     (case run_prog cv cf p s of
        Returns x s' \<Rightarrow> run_prog cv cf (k (Inr x)) s'
      | Raises sig s' \<Rightarrow> run_prog cv cf (k (Inl sig)) s'
      | Crash c \<Rightarrow> Crash c
      | OutOfFuel \<Rightarrow> OutOfFuel)"
proof (induction p arbitrary: s)
  case (PRead f)
  show ?case using PRead [OF rangeI, of s s] by simp
next
  case (PCall callee args f)
  note IH = PCall [OF rangeI]
  show ?case by (cases "cv callee args s") (simp_all only: prog_try.simps run_prog.simps outcome.case IH)
next
  case (PFunc func args f)
  note IH = PFunc [OF rangeI]
  show ?case by (cases "cf func args s") (simp_all only: prog_try.simps run_prog.simps outcome.case IH)
next
  case (PWrite f p)
  show ?case by (simp only: prog_try.simps run_prog.simps PWrite)
qed (simp_all only: prog_try.simps run_prog.simps outcome.case)

lemma run_prog_bind:
  "run_prog cv cf (prog_bind p k) s = bind (run_prog cv cf p s) (\<lambda>x. run_prog cv cf (k x))"
  by (simp add: prog_bind_def run_prog_try bind_def split: outcome.split)

lemma leaves_simps:
  "leaves cv cf rs rs (PDone x)" "leaves cv cf rs rs (PRaise sig)" "leaves cv cf rs rs' (PCrash k)"
  by (simp_all add: leaves_def)

lemma leaves_read: "(\<And>s. roots_of s = rs \<Longrightarrow> leaves cv cf rs rs' (f s)) \<Longrightarrow> leaves cv cf rs rs' (PRead f)"
  by (auto simp: leaves_def)

lemma leaves_write:
  "(\<And>s. roots_of s = rs \<Longrightarrow> st_roots (f s) = rs1) \<Longrightarrow> leaves cv cf rs1 rs' p \<Longrightarrow> leaves cv cf rs rs' (PWrite f p)"
  unfolding leaves_def run_prog.simps by simp

lemma leavesD: "leaves cv cf rs rs' p \<Longrightarrow> roots_of s = rs \<Longrightarrow> roots_end rs' (run_prog cv cf p s)"
  by (simp add: leaves_def)

lemma leavesI: "(\<And>s. roots_of s = rs \<Longrightarrow> roots_end rs' (run_prog cv cf p s)) \<Longrightarrow> leaves cv cf rs rs' p"
  by (simp add: leaves_def)

lemma leaves_try:
  assumes "leaves cv cf rs rs1 p" and "\<And>r. leaves cv cf rs1 rs' (k r)"
  shows "leaves cv cf rs rs' (prog_try p k)"
proof (rule leavesI)
  fix s :: "'a vm"
  assume "roots_of s = rs"
  from leavesD [OF assms(1) this] show "roots_end rs' (run_prog cv cf (prog_try p k) s)"
    unfolding run_prog_try by (cases "run_prog cv cf p s") (simp_all add: leavesD [OF assms(2)])
qed

lemma leaves_bind:
  "leaves cv cf rs rs1 p \<Longrightarrow> (\<And>x. leaves cv cf rs1 rs1 (k x)) \<Longrightarrow> leaves cv cf rs rs1 (prog_bind p k)"
  unfolding prog_bind_def by (rule leaves_try) (auto simp: leaves_simps split: sum.split)

lemma leaves_unroot: "leaves cv cf (take mark rs) rs' p \<Longrightarrow> leaves cv cf rs rs' (unroot mark p)"
  unfolding unroot_def by (rule leaves_write) simp_all

lemma leaves_result: "leaves cv cf rs rs (of_result r)"
  by (simp add: of_result_def leaves_simps split: sum.split)

lemma leaves_or_unroot:
  assumes "balanced cv cf p" and "\<And>x. leaves cv cf rs (take mark rs) (k x)"
  shows "leaves cv cf rs (take mark rs) (or_unroot mark p k)"
  unfolding or_unroot_def
  by (rule leaves_try [where ?rs1.0 = rs])
    (use assms in \<open>auto simp: balanced_def intro!: leaves_unroot leaves_simps split: sum.split\<close>)

lemma leaves_root_at: "(\<And>v. leaves cv cf rs rs' (k v)) \<Longrightarrow> leaves cv cf rs rs' (root_at ix k)"
  unfolding root_at_def by (rule leaves_read) (simp add: leaves_simps)

lemma leaves_keep: "leaves cv cf (rs @ [v]) rs' p \<Longrightarrow> leaves cv cf rs rs' (keep_root v p)"
  unfolding keep_root_def by (rule leaves_write) simp_all

lemma leaves_region:
  assumes "\<And>rs. leaves cv cf (rs @ before @ snapshot) rs
      (k (length rs) (length rs + length before) (length rs + length before + length snapshot))"
  shows "balanced cv cf (rooted_region before snapshot k)"
  unfolding balanced_def rooted_region_def
  by (intro allI leaves_read leaves_write [where ?rs1.0 = "rs @ before @ snapshot" for rs]) (use assms in auto)

lemma balanced_simps [rooting]:
  "balanced cv cf (PDone x)" "balanced cv cf (PRaise sig)" "balanced cv cf (PCrash k)"
  "balanced cv cf (of_result r)"
  by (simp_all add: balanced_def leaves_simps leaves_result)

lemma balanced_read [rooting]: "(\<And>s. balanced cv cf (f s)) \<Longrightarrow> balanced cv cf (PRead f)"
  by (simp add: balanced_def leaves_def)

lemma balanced_bind [rooting]:
  "balanced cv cf p \<Longrightarrow> (\<And>x. balanced cv cf (k x)) \<Longrightarrow> balanced cv cf (prog_bind p k)"
  by (auto simp: balanced_def intro: leaves_bind)

lemma balanced_map [rooting]: "balanced cv cf p \<Longrightarrow> balanced cv cf (prog_map f p)"
  unfolding prog_map_def by (intro rooting)

lemma balanced_heap [rooting]: "(\<And>y. balanced cv cf (k y)) \<Longrightarrow> balanced cv cf (with_heap x k)"
  by (auto simp: with_heap_def intro: rooting split: option.split)

lemma balanced_rooted [rooting]:
  assumes "balanced cv cf p" shows "balanced cv cf (with_rooted vs p)"
  unfolding balanced_def with_rooted_def
proof (intro allI leaves_read leaves_write [where ?rs1.0 = "rs @ vs" for rs])
  fix rs and s :: "'a vm"
  assume "roots_of s = rs"
  then show "leaves cv cf (rs @ vs) rs (prog_try p (\<lambda>r. unroot (length (roots_of s)) (of_result r)))"
    using assms by (intro leaves_try [where ?rs1.0 = "rs @ vs"] leaves_unroot) (auto simp: balanced_def leaves_result)
qed auto

section \<open>The rooted traversals\<close>

text \<open>Below, the roots are those of the caller followed by the traversal's own.\<close>

lemma leaves_collect:
  assumes "\<And>item. balanced cv cf (turn item)" and "\<And>xs. leaves cv cf (rs @ xs) rs rest"
  shows "leaves cv cf (rs @ xs) rs (collect_each turn (length rs) ixs rest)"
proof (induction ixs arbitrary: xs)
  case (Cons ix ixs)
  have "leaves cv cf (rs @ xs) (take (length rs) (rs @ xs)) (or_unroot (length rs) (turn item) (\<lambda>kept.
      case kept of
        Some v \<Rightarrow> keep_root v (collect_each turn (length rs) ixs rest)
      | None \<Rightarrow> collect_each turn (length rs) ixs rest))" for item
    using assms(1) Cons.IH
    by (intro leaves_or_unroot) (auto intro!: leaves_keep split: option.split)
  then show ?case by (auto intro!: leaves_root_at)
qed (use assms(2) in simp)

lemma balanced_collect [rooting]:
  assumes "\<And>item. balanced cv cf (turn item)"
  shows "balanced cv cf (collect_rooted recv snapshot turn)"
  unfolding collect_rooted_def
  by (intro leaves_region leaves_collect assms leaves_read leaves_unroot) (simp add: leaves_simps)

lemma leaves_find:
  assumes "\<And>item. balanced cv cf (turn item)"
  shows "leaves cv cf (rs @ xs) rs (find_each turn (length rs) ixs)"
proof (induction ixs)
  case (Cons ix ixs)
  have "leaves cv cf (rs @ xs) (take (length rs) (rs @ xs)) (or_unroot (length rs) (turn item) (\<lambda>found.
      case found of Some v \<Rightarrow> unroot (length rs) (PDone (Some v)) | None \<Rightarrow> find_each turn (length rs) ixs))" for item
    using assms Cons.IH
    by (intro leaves_or_unroot) (auto intro!: leaves_unroot simp: leaves_simps split: option.split)
  then show ?case by (auto intro!: leaves_root_at)
qed (auto intro!: leaves_unroot simp: leaves_simps)

lemma balanced_find [rooting]:
  "(\<And>item. balanced cv cf (turn item)) \<Longrightarrow> balanced cv cf (find_rooted recv snapshot turn)"
  unfolding find_rooted_def by (intro leaves_region leaves_find)

lemma leaves_pairs:
  assumes "\<And>a b. balanced cv cf (turn a b)"
  shows "leaves cv cf (rs @ xs) rs (each_pair turn (length rs) ix end_ix)"
proof (induction "end_ix - ix" arbitrary: ix rule: less_induct)
  case less
  have "ix < end_ix \<Longrightarrow> leaves cv cf (rs @ xs) (take (length rs) (rs @ xs))
      (or_unroot (length rs) (turn a b) (\<lambda>_. each_pair turn (length rs) (ix + 2) end_ix))" for a b
    using assms less by (intro leaves_or_unroot) auto
  then show ?case
    by (subst each_pair.simps) (auto intro!: leaves_root_at leaves_unroot simp: leaves_simps)
qed

lemma balanced_pairs [rooting]:
  "(\<And>a b. balanced cv cf (turn a b)) \<Longrightarrow> balanced cv cf (each_pair_rooted recv snapshot turn)"
  unfolding each_pair_rooted_def by (intro leaves_region leaves_pairs)

lemma leaves_keys:
  assumes "\<And>item. balanced cv cf (key_of item)" and "\<And>xs. leaves cv cf (rs @ xs) rs rest"
  shows "leaves cv cf (rs @ xs) rs (key_each key_of (length rs) ixs rest)"
proof (induction ixs arbitrary: xs)
  case (Cons ix ixs)
  have "leaves cv cf (rs @ xs) (take (length rs) (rs @ xs)) (or_unroot (length rs) (key_of item) (\<lambda>key.
      keep_root key (key_each key_of (length rs) ixs rest)))" for item
    using assms(1) Cons.IH by (intro leaves_or_unroot) (auto intro!: leaves_keep)
  then show ?case by (auto intro!: leaves_root_at)
qed (use assms(2) in simp)

lemma balanced_keys [rooting]:
  assumes "\<And>item. balanced cv cf (key_of item)"
  shows "balanced cv cf (key_rooted recv snapshot key_of)"
  unfolding key_rooted_def Let_def
  by (intro leaves_region leaves_keys assms leaves_read leaves_unroot) (simp add: leaves_simps)

lemma leaves_fold:
  assumes "\<And>a b. balanced cv cf (turn a b)"
  shows "leaves cv cf (rs @ x # xs) rs (fold_each turn (length rs) ixs)"
proof (induction ixs arbitrary: x)
  case Nil
  then show ?case by (auto intro!: leaves_root_at leaves_unroot simp: leaves_simps)
next
  case (Cons ix ixs)
  have "leaves cv cf (rs @ x # xs) (take (length rs) (rs @ x # xs)) (or_unroot (length rs) (turn a b) (\<lambda>nxt.
      PRead (\<lambda>s. if length rs < length (roots_of s)
                 then PWrite (set_roots (\<lambda>rs'. rs'[length rs := nxt])) (fold_each turn (length rs) ixs)
                 else PCrash BadIndex)))" for a b
  proof (intro leaves_or_unroot leaves_read assms)
    fix nxt and s :: "'a vm"
    assume "roots_of s = rs @ x # xs"
    moreover have "leaves cv cf (rs @ nxt # xs) (take (length rs) (rs @ x # xs)) (fold_each turn (length rs) ixs)"
      using Cons.IH by simp
    ultimately show "leaves cv cf (rs @ x # xs) (take (length rs) (rs @ x # xs))
        (if length rs < length (roots_of s)
         then PWrite (set_roots (\<lambda>rs'. rs'[length rs := nxt])) (fold_each turn (length rs) ixs) else PCrash BadIndex)"
      by (auto intro!: leaves_write [where ?rs1.0 = "rs @ nxt # xs"])
  qed
  then show ?case by (auto intro!: leaves_root_at)
qed

lemma balanced_fold [rooting]:
  "(\<And>a b. balanced cv cf (turn a b)) \<Longrightarrow> balanced cv cf (fold_rooted recv snapshot init turn)"
  unfolding fold_rooted_def by (intro leaves_region) (simp add: leaves_fold)

lemma leaves_join:
  assumes "\<And>item. balanced cv cf (display E item)"
  shows "leaves cv cf (rs @ xs) rs (join_each E (length rs) ixs parts)"
proof (induction ixs arbitrary: parts)
  case (Cons ix ixs)
  have "leaves cv cf (rs @ xs) (take (length rs) (rs @ xs)) (or_unroot (length rs) (display E item) (\<lambda>t.
      join_each E (length rs) ixs (parts @ [t])))" for item
    using assms Cons.IH by (intro leaves_or_unroot) auto
  then show ?case by (auto intro!: leaves_root_at)
qed (auto intro!: leaves_unroot simp: leaves_simps)

section \<open>Rendering over a balanced machine\<close>

locale callback =
  fixes cv :: "val \<Rightarrow> val list \<Rightarrow> 'w vm \<Rightarrow> (val, 'w vm) outcome"
    and cf :: "func_id \<Rightarrow> val list \<Rightarrow> 'w vm \<Rightarrow> (val, 'w vm) outcome"
  assumes value_call: "roots_end (roots_of s) (cv callee args s)"
    and func_call: "roots_end (roots_of s) (cf func args s)"
begin

lemma balanced_call [rooting]:
  assumes "\<And>r. balanced cv cf (k r)"
  shows "balanced cv cf (PCall callee args k)" "balanced cv cf (PFunc func args k)"
proof -
  have k: "roots_end (roots_of s) (run_prog cv cf (k r) s)" for r s
    using assms by (simp add: balanced_def leaves_def)
  show "balanced cv cf (PCall callee args k)" unfolding balanced_def
  proof (intro allI leavesI)
    fix rs and s :: "'w vm"
    assume "roots_of s = rs"
    with value_call [of s callee args] k show "roots_end rs (run_prog cv cf (PCall callee args k) s)"
      by (cases "cv callee args s") auto
  qed
  show "balanced cv cf (PFunc func args k)" unfolding balanced_def
  proof (intro allI leavesI)
    fix rs and s :: "'w vm"
    assume "roots_of s = rs"
    with func_call [of s func args] k show "roots_end rs (run_prog cv cf (PFunc func args k) s)"
      by (cases "cf func args s") auto
  qed
qed

lemma balanced_cell [rooting]:
  "(\<And>path. balanced cv cf (body path)) \<Longrightarrow> balanced cv cf (render_cell v cell path body)"
  by (auto simp: render_cell_def intro!: rooting)

lemma balanced_text [rooting]:
  "(\<And>t. balanced cv cf (k t)) \<Longrightarrow> balanced cv cf (render_text_field t depth k)"
  by (auto simp: render_text_field_def too_deep_def intro!: rooting)

lemma balanced_render:
  "balanced cv cf (render E v quoted depth path)" "balanced cv cf (render_list E vs depth path)"
proof (induction E v quoted depth path and E vs depth path rule: render_render_list.induct)
  case (1 E v quoted depth path)
  show ?case
  proof (cases "max_display_depth < depth \<or> render_leaf E v quoted \<noteq> None")
    case True
    then show ?thesis by (auto simp: render.simps [of E v] too_deep_def intro!: rooting)
  next
    case False
    then have "\<not> max_display_depth < depth" "render_leaf E v quoted = None" by auto
    with 1 show ?thesis
      by (simp add: render.simps [of E v])
        (auto simp: Let_def split: option.split sum.split val.split prod.split intro!: rooting)
  qed
next
  case (3 E v vs depth path)
  then show ?case by (auto simp: render_list.simps(2) intro!: rooting)
qed (auto intro: rooting)

lemma balanced_display [rooting]: "balanced cv cf (display E v)" "balanced cv cf (display_value E v)"
  by (simp_all add: display_def display_value_def balanced_render balanced_map)

end

section \<open>Builtins over a balanced machine\<close>

lemma balanced_write [rooting]:
  "(\<And>s. st_roots (f s) = roots_of s) \<Longrightarrow> balanced cv cf p \<Longrightarrow> balanced cv cf (PWrite f p)"
  unfolding balanced_def by (intro allI leaves_write) auto

lemma balanced_cases [rooting]:
  "(b \<Longrightarrow> balanced cv cf p) \<Longrightarrow> (\<not> b \<Longrightarrow> balanced cv cf q) \<Longrightarrow> balanced cv cf (if b then p else q)"
  "balanced cv cf p \<Longrightarrow> (\<And>y. balanced cv cf (k y)) \<Longrightarrow> balanced cv cf (case_option p k x)"
  "(\<And>a b. balanced cv cf (g a b)) \<Longrightarrow> balanced cv cf (case_prod g z)"
  by (simp_all split: option.split prod.split)

lemma balanced_errors [rooting]:
  "balanced cv cf (builtin_error name)" "balanced cv cf (native_error name message)"
  "balanced cv cf (prog_panic E name detail)" "balanced cv cf (parse_failure H t wanted)"
  "balanced cv cf (invalid_module_args m name)" "balanced cv cf (unknown_module_member m name)"
  unfolding builtin_error_def native_error_def prog_panic_def parse_failure_def invalid_module_args_def
    unknown_module_member_def
  by (intro rooting)+

lemma balanced_args [rooting]: "(\<And>x. balanced cv cf (k x)) \<Longrightarrow> balanced cv cf (on_args name shape k)"
  unfolding on_args_def by (intro rooting)

lemma balanced_results [rooting]:
  "balanced cv cf (alloc_value alloc)" "(\<And>a. balanced cv cf (k a)) \<Longrightarrow> balanced cv cf (next_node k)"
  "balanced cv cf (some_value v)" "balanced cv cf (opt_value x)"
proof -
  show node: "balanced cv cf (next_node k)" if "\<And>a. balanced cv cf (k a)" for k :: "addr \<Rightarrow> ('a, 'b) prog"
    unfolding next_node_def by (intro rooting that) simp
  show "balanced cv cf (alloc_value alloc)" unfolding alloc_value_def by (intro rooting) simp
  show some: "balanced cv cf (some_value v)" for v
    unfolding some_value_def next_node_def by (intro rooting) simp
  show "balanced cv cf (opt_value x)" unfolding opt_value_def by (intro rooting some)
qed

lemma balanced_cells [rooting]:
  "(\<And>xs. balanced cv cf (k xs)) \<Longrightarrow> balanced cv cf (vector_items r k)"
  "(\<And>h m. balanced cv cf (km h m)) \<Longrightarrow> balanced cv cf (map_table r km)"
  "(\<And>h st. balanced cv cf (ks h st)) \<Longrightarrow> balanced cv cf (set_table r ks)"
  unfolding vector_items_def map_table_def set_table_def by (intro rooting; simp)+

lemma balanced_edit [rooting]: "(\<And>x. balanced cv cf (k x)) \<Longrightarrow> balanced cv cf (edit_value edit k)"
  unfolding edit_value_def by (intro rooting) simp_all

lemma balanced_nodes [rooting]:
  "(\<And>ts. balanced cv cf (k ts)) \<Longrightarrow> balanced cv cf (tuple_nodes xss k)"
  by (induction xss arbitrary: k) (auto intro!: rooting)

lemma balanced_flatten [rooting]:
  "(\<And>ts. balanced cv cf (k ts)) \<Longrightarrow> balanced cv cf (flatten_items vs flat k)"
  by (induction vs arbitrary: flat) (auto intro!: rooting split: val.split)

lemma balanced_orderable [rooting]:
  "balanced cv cf p \<Longrightarrow> balanced cv cf (orderable E a b v p)"
  "balanced cv cf p \<Longrightarrow> balanced cv cf (all_orderable E vs p)"
proof -
  show one: "balanced cv cf (orderable E a b v p)" if "balanced cv cf p" for a b v and p :: "('a, 'b) prog"
    using that by (auto simp: orderable_def intro!: rooting split: val.split)
  show "balanced cv cf p \<Longrightarrow> balanced cv cf (all_orderable E vs p)"
    by (induction vs) (auto intro: one)
qed

lemma balanced_regex [rooting]:
  "(\<And>re. balanced cv cf (k re)) \<Longrightarrow> balanced cv cf (compile_regex H pattern k)"
  unfolding compile_regex_def by (intro rooting)

lemma balanced_string: "balanced cv cf (string_builtin H t name args)"
  unfolding string_builtin_def string_split_def string_find_def string_captures_def Let_def
  by (intro rooting)

lemma balanced_set: "balanced cv cf (set_builtin r name args)"
  unfolding set_builtin_def by (intro rooting)

lemma balanced_fixed [rooting]:
  "(\<And>n. balanced cv cf (k n)) \<Longrightarrow> balanced cv cf (check_fixed_digits E digits k)"
  unfolding check_fixed_digits_def by (intro rooting)

lemma balanced_records:
  "balanced cv cf (proc_output_builtin out name args)" "balanced cv cf (response_builtin H response name args)"
  "balanced cv cf (args_builtin parsed name args)" "balanced cv cf (native_error_builtin e name args)"
  "balanced cv cf (walk_builtin paths unreadable name args)" "balanced cv cf (stat_builtin st name args)"
  "balanced cv cf (absent_json_builtin name args)"
  unfolding proc_output_builtin_def response_builtin_def args_builtin_def native_error_builtin_def
    walk_builtin_def stat_builtin_def absent_json_builtin_def
  by (intro rooting)+

lemma balanced_math: "balanced cv cf (math_call E H name args)"
  unfolding math_call_def float_call_def extremum_def by (intro rooting)

lemma balanced_raise: "(\<And>t. balanced cv cf (k t)) \<Longrightarrow> balanced cv cf (raise_text args k)"
  by (auto simp: raise_text_def intro!: rooting split: list.split val.split)

definition rooted_host :: "'w host \<Rightarrow> bool" where
  "rooted_host H \<longleftrightarrow>
     (\<forall>cv cf. callback cv cf \<longrightarrow>
        (\<forall>t. balanced cv cf (h_print H t)) \<and> (\<forall>tree name args. balanced cv cf (h_json H tree name args)) \<and>
        (\<forall>v name args. balanced cv cf (h_scope H v name args) \<and> balanced cv cf (h_task H v name args)) \<and>
        (\<forall>name args. balanced cv cf (h_free H name args)))"

context callback
begin

lemma balanced_call_back [rooting]:
  "balanced cv cf (call_back f args)" "balanced cv cf (predicate name f item g)"
proof -
  show c: "balanced cv cf (call_back f args)" for f args unfolding call_back_def by (intro rooting)
  show "balanced cv cf (predicate name f item g)"
    unfolding predicate_def by (intro balanced_bind c) (auto intro!: rooting split: val.split)
qed

lemma balanced_vector: "balanced cv cf (vector_builtin E r name args)"
  unfolding vector_builtin_def vector_push_def vector_map_def vector_filter_def vector_each_def
    vector_reduce_def vector_find_def vector_decide_def vector_zip_def sort_natural_def sort_by_def Let_def
    vector_join_def
  by (intro rooting leaves_region leaves_join)

lemma balanced_map_builtin: "balanced cv cf (map_builtin r name args)"
  unfolding map_builtin_def by (intro rooting)

lemma balanced_numbers: "balanced cv cf (int_builtin E H i name args)" "balanced cv cf (float_builtin E H x name args)"
  unfolding int_builtin_def float_builtin_def by (intro rooting)+

lemma balanced_method:
  assumes "rooted_host H" shows "balanced cv cf (method_builtin E H name recv args)"
proof -
  have h: "balanced cv cf (h_json H tree name args)" "balanced cv cf (h_scope H v name args)"
    "balanced cv cf (h_task H v name args)" for tree v name args
    using assms callback_axioms by (auto simp: rooted_host_def)
  have j: "balanced cv cf (json_value_builtin H tree name args)" for tree
    unfolding json_value_builtin_def by (intro rooting h)
  show ?thesis
    unfolding method_builtin_def
    by (intro rooting; cases recv)
      (simp_all add: h j balanced_numbers balanced_string balanced_vector balanced_map_builtin balanced_set
        balanced_records balanced_errors split: val.split)
qed

lemma balanced_free:
  assumes "rooted_host H" shows "balanced cv cf (free_builtin E H name args)"
proof -
  have h: "balanced cv cf (h_print H t)" "balanced cv cf (h_free H name args)" for t name args
    using assms callback_axioms by (auto simp: rooted_host_def)
  show ?thesis unfolding free_builtin_def by (intro rooting h balanced_raise balanced_math)
qed

end

end
