(* ===== verification/Root_Machine.thy ===== *)
theory Root_Machine
  imports Root_Balance Vm_Fuel
begin

text \<open>
  The machine leaves the native roots as it finds them: every instruction, every call from native
  code and every run, whatever the fuel. The calls of the machine are an instance of \<open>callback\<close>.
\<close>

section \<open>Helpers of the instructions\<close>

named_theorems unmoved

lemma unmoved_bind [unmoved]:
  "roots_end rs r \<Longrightarrow> (\<And>x s. roots_of s = rs \<Longrightarrow> roots_end rs (f x s)) \<Longrightarrow> roots_end rs (bind r f)"
  by (cases r) auto

lemma unmoved_cases [unmoved]:
  "(b \<Longrightarrow> roots_end rs p) \<Longrightarrow> (\<not> b \<Longrightarrow> roots_end rs q) \<Longrightarrow> roots_end rs (if b then p else q)"
  "roots_end rs p \<Longrightarrow> (\<And>y. roots_end rs (k y)) \<Longrightarrow> roots_end rs (case_option p k x)"
  "(\<And>a b. roots_end rs (g a b)) \<Longrightarrow> roots_end rs (case_prod g z)"
  by (simp_all split: option.split prod.split)

lemma unmoved_stack [unmoved]:
  "roots_of s = rs \<Longrightarrow> roots_end rs (push v s)" "roots_of s = rs \<Longrightarrow> roots_end rs (pop s)"
  "roots_of s = rs \<Longrightarrow> roots_end rs (pop_n n s)" "roots_of s = rs \<Longrightarrow> roots_end rs (peek s)"
  "roots_of s = rs \<Longrightarrow> roots_end rs (fatal m s)" "roots_of s = rs \<Longrightarrow> roots_end rs (demand k x s)"
  "roots_of s = rs \<Longrightarrow> roots_end rs (top_frame s)" "roots_of s = rs \<Longrightarrow> roots_end rs (jump target s)"
  "roots_of s = rs \<Longrightarrow> roots_end rs (fresh s)" "roots_of s = rs \<Longrightarrow> roots_end rs (gc_alloc alloc s)"
  "roots_of s = rs \<Longrightarrow> roots_end rs (vm_panic E name detail s)" "roots_of s = rs \<Longrightarrow> roots_end rs (Returns x s)"
  "roots_of s = rs \<Longrightarrow> roots_end rs (Raises sig s)" "roots_end rs (Crash k)" "roots_end rs OutOfFuel"
  by (auto simp: push_def pop_def pop_n_def peek_def fatal_def demand_def top_frame_def jump_def fresh_def
      gc_alloc_def vm_panic_def split: option.split list.split)

lemma unmoved_pops [unmoved]:
  "roots_of s = rs \<Longrightarrow> roots_end rs (pop_int m s)" "roots_of s = rs \<Longrightarrow> roots_end rs (pop_bool m s)"
  "roots_of s = rs \<Longrightarrow> roots_end rs (slot_get slot s)" "roots_of s = rs \<Longrightarrow> roots_end rs (slot_set slot v s)"
  "roots_of s = rs \<Longrightarrow> roots_end rs (overflow E symbol s)"
  "roots_of s = rs \<Longrightarrow> roots_end rs (enter_function E func base ret s)"
  "roots_of s = rs \<Longrightarrow> roots_end rs (write_captures E func caps s)"
  "roots_of s = rs \<Longrightarrow> roots_end rs (struct_view E r s)" "roots_of s = rs \<Longrightarrow> roots_end rs (field_at fs ix s)"
  "roots_of s = rs \<Longrightarrow> roots_end rs (const_str E c s)" "roots_of s = rs \<Longrightarrow> roots_end rs (method_arity fn s)"
  by (auto simp: pop_int_def pop_bool_def slot_get_def slot_set_def overflow_def enter_function_def
      write_captures_def struct_view_def field_at_def const_str_def method_arity_def Let_def
      intro!: unmoved split: val.split option.split pool_constant.split)

lemma unmoved_binding [unmoved]: "roots_of s = rs \<Longrightarrow> roots_end rs (binding_ref slot s)"
  by (auto simp: binding_ref_def intro!: unmoved split: val.split)

section \<open>Instructions without native code\<close>

lemma unmoved_slots [unmoved]:
  "roots_of s = rs \<Longrightarrow> roots_end rs (op_const E c s)" "roots_of s = rs \<Longrightarrow> roots_end rs (op_dup s)"
  "roots_of s = rs \<Longrightarrow> roots_end rs (op_load_local slot s)" "roots_of s = rs \<Longrightarrow> roots_end rs (op_store_local slot s)"
  "roots_of s = rs \<Longrightarrow> roots_end rs (op_make_binding slot s)" "roots_of s = rs \<Longrightarrow> roots_end rs (op_load_binding slot s)"
  "roots_of s = rs \<Longrightarrow> roots_end rs (op_store_binding slot s)" "roots_of s = rs \<Longrightarrow> roots_end rs (op_load_global E ix s)"
  "roots_of s = rs \<Longrightarrow> roots_end rs (op_store_global ix s)"
  unfolding op_const_def op_dup_def op_load_local_def op_store_local_def op_make_binding_def op_load_binding_def
    op_store_binding_def op_load_global_def op_store_global_def
  by (auto intro!: unmoved)

lemma unmoved_arith [unmoved]:
  "roots_of s = rs \<Longrightarrow> roots_end rs (int_arith E symbol g s)"
  "roots_of s = rs \<Longrightarrow> roots_end rs (int_div_rem E detail symbol g s)"
  "roots_of s = rs \<Longrightarrow> roots_end rs (op_pow_int E s)" "roots_of s = rs \<Longrightarrow> roots_end rs (op_neg_int E s)"
  "roots_of s = rs \<Longrightarrow> roots_end rs (float_arith h s)" "roots_of s = rs \<Longrightarrow> roots_end rs (op_neg_float s)"
  "roots_of s = rs \<Longrightarrow> roots_end rs (op_concat s)" "roots_of s = rs \<Longrightarrow> roots_end rs (op_not s)"
  "roots_of s = rs \<Longrightarrow> roots_end rs (op_eq s)" "roots_of s = rs \<Longrightarrow> roots_end rs (int_cmp p s)"
  "roots_of s = rs \<Longrightarrow> roots_end rs (float_cmp q s)" "roots_of s = rs \<Longrightarrow> roots_end rs (op_eq_bool s)"
  unfolding int_arith_def int_div_rem_def op_pow_int_def op_neg_int_def float_arith_def op_neg_float_def
    op_concat_def op_not_def op_eq_def int_cmp_def float_cmp_def op_eq_bool_def
  by (auto intro!: unmoved split: val.split)

lemma unmoved_jumps [unmoved]:
  "roots_of s = rs \<Longrightarrow> roots_end rs (op_jump_if_false target s)"
  "roots_of s = rs \<Longrightarrow> roots_end rs (op_jump_or_pop key target s)"
  "roots_of s = rs \<Longrightarrow> roots_end rs (op_jump_if_variant_ne variant target s)"
  "roots_of s = rs \<Longrightarrow> roots_end rs (op_jump_if_none target s)"
  "roots_of s = rs \<Longrightarrow> roots_end rs (op_wrap_some s)" "roots_of s = rs \<Longrightarrow> roots_end rs (op_wrap_some_dynamic s)"
  "roots_of s = rs \<Longrightarrow> roots_end rs (op_unwrap_some s)"
  unfolding op_jump_if_false_def op_jump_or_pop_def op_jump_if_variant_ne_def op_jump_if_none_def
    op_wrap_some_def op_wrap_some_dynamic_def op_unwrap_some_def push_some_def
  by (auto intro!: unmoved split: val.split)

lemma unmoved_json [unmoved]: "roots_of s = rs \<Longrightarrow> roots_end rs (json_index_value E tree i s)"
  unfolding json_index_value_def Let_def by (auto intro!: unmoved split: val.split)

lemma unmoved_index [unmoved]:
  "roots_of s = rs \<Longrightarrow> roots_end rs (get_index E recv i s)" "roots_of s = rs \<Longrightarrow> roots_end rs (set_index E recv i v s)"
  unfolding get_index_def set_index_def by (auto intro!: unmoved split: val.split)

lemma unmoved_fields [unmoved]:
  "roots_of s = rs \<Longrightarrow> roots_end rs (op_tuple_field ix s)" "roots_of s = rs \<Longrightarrow> roots_end rs (op_enum_field ix s)"
  "roots_of s = rs \<Longrightarrow> roots_end rs (op_get_field ix s)" "roots_of s = rs \<Longrightarrow> roots_end rs (op_set_field ix s)"
  "roots_of s = rs \<Longrightarrow> roots_end rs (op_get_index E s)" "roots_of s = rs \<Longrightarrow> roots_end rs (op_set_index E s)"
  "roots_of s = rs \<Longrightarrow> roots_end rs (op_call E func argc s)"
  "roots_of s = rs \<Longrightarrow> roots_end rs (op_bind_method func s)" "roots_of s = rs \<Longrightarrow> roots_end rs (op_bind_builtin b s)"
  "roots_of s = rs \<Longrightarrow> roots_end rs (op_ret s)"
  unfolding op_tuple_field_def op_enum_field_def op_get_field_def op_set_field_def op_get_index_def op_set_index_def
    op_call_def op_bind_method_def op_bind_builtin_def op_ret_def
  by (auto intro!: unmoved split: val.split list.split)

lemma unmoved_make [unmoved]:
  "roots_of s = rs \<Longrightarrow> roots_end rs (op_make_vector n s)" "roots_of s = rs \<Longrightarrow> roots_end rs (op_make_map n s)"
  "roots_of s = rs \<Longrightarrow> roots_end rs (op_make_tuple n s)" "roots_of s = rs \<Longrightarrow> roots_end rs (op_make_set_from_vector s)"
  "roots_of s = rs \<Longrightarrow> roots_end rs (op_make_struct E shp s)"
  "roots_of s = rs \<Longrightarrow> roots_end rs (op_make_enum en variant n s)"
  "roots_of s = rs \<Longrightarrow> roots_end rs (op_make_closure func n s)" "roots_of s = rs \<Longrightarrow> roots_end rs (op_make_range inc s)"
  unfolding op_make_vector_def op_make_map_def op_make_tuple_def op_make_set_from_vector_def op_make_struct_def
    op_make_enum_def op_make_closure_def op_make_range_def
  by (auto intro!: unmoved split: val.split)

lemma unmoved_iter_new [unmoved]: "roots_of s = rs \<Longrightarrow> roots_end rs (iter_new v s)"
  unfolding iter_new_def Let_def by (auto intro!: unmoved split: val.split)

lemma unmoved_iter [unmoved]:
  "roots_of s = rs \<Longrightarrow> roots_end rs (op_iter_new s)" "roots_of s = rs \<Longrightarrow> roots_end rs (op_iter_next target s)"
  unfolding op_iter_new_def op_iter_next_def by (auto intro!: unmoved split: val.split)

lemma unmoved_errors [unmoved]:
  "roots_of s = rs \<Longrightarrow> roots_end rs (op_throw s)" "roots_of s = rs \<Longrightarrow> roots_end rs (op_jump_if_panic target s)"
  "roots_of s = rs \<Longrightarrow> roots_end rs (op_jump_if_tag_ne E tag target s)"
  "roots_of s = rs \<Longrightarrow> roots_end rs (op_caught_value s)" "roots_of s = rs \<Longrightarrow> roots_end rs (op_caught_detail s)"
  "roots_of s = rs \<Longrightarrow> roots_end rs (op_rethrow s)"
  unfolding op_throw_def op_jump_if_panic_def op_jump_if_tag_ne_def op_caught_value_def op_caught_detail_def
    op_rethrow_def
  by (auto intro!: unmoved split: val.split)

section \<open>Instructions that run native code\<close>

definition rooted_env :: "'w env \<Rightarrow> bool" where
  "rooted_env E \<longleftrightarrow>
     (\<forall>cv cf. callback cv cf \<longrightarrow>
        (\<forall>name recv args. balanced cv cf (e_method E name recv args)) \<and>
        (\<forall>name args. balanced cv cf (e_free E name args)))"

lemma with_builtins_rooted: "rooted_host H \<Longrightarrow> rooted_env (with_builtins H E)"
  by (simp add: rooted_env_def with_builtins_def callback.balanced_method callback.balanced_free)

context callback
begin

lemma unmoved_run [unmoved]: "balanced cv cf p \<Longrightarrow> roots_of s = rs \<Longrightarrow> roots_end rs (run_prog cv cf p s)"
  unfolding balanced_def by (blast intro: leavesD)

lemma balanced_env:
  assumes "rooted_env E"
  shows "balanced cv cf (e_method E name recv args)" "balanced cv cf (builtin_with_args E b args)"
proof -
  have e: "balanced cv cf (e_method E name recv args)" "balanced cv cf (e_free E name args)" for name recv args
    using assms callback_axioms by (auto simp: rooted_env_def)
  then show "balanced cv cf (e_method E name recv args)" by simp
  show "balanced cv cf (builtin_with_args E b args)"
    unfolding builtin_with_args_def by (auto intro!: rooting e split: list.split)
qed

lemma balanced_by_name: "balanced cv cf (call_struct_by_name E recv name args)"
  unfolding call_struct_by_name_def by (intro rooting; cases recv) (auto intro!: rooting)

lemma unmoved_ordering [unmoved]: "roots_of s = rs \<Longrightarrow> roots_end rs (ordering_op E (run_prog cv cf) g s)"
  unfolding ordering_op_def ordering_fallback_def
  by (auto intro!: unmoved balanced_by_name split: val.split)

lemma unmoved_value_op:
  "rooted_env E \<Longrightarrow> roots_of s = rs \<Longrightarrow> roots_end rs (call_value_op E (run_prog cv cf) argc s)"
  unfolding call_value_op_def Let_def by (auto intro!: unmoved balanced_env split: val.split)

lemma unmoved_method_dyn:
  "rooted_env E \<Longrightarrow> roots_of s = rs \<Longrightarrow> roots_end rs (call_method_dyn E (run_prog cv cf) name argc s)"
  unfolding call_method_dyn_def Let_def
  by (auto intro!: unmoved balanced_env unmoved_value_op rooting split: val.split)

lemma unmoved_bind_member:
  "rooted_env E \<Longrightarrow> roots_of s = rs \<Longrightarrow> roots_end rs (bind_member_by_name E (run_prog cv cf) recv name s)"
  unfolding bind_member_by_name_def bind_builtin_member_def
  by (auto intro!: unmoved balanced_env split: val.split)

lemma unmoved_native_ops:
  "rooted_env E \<Longrightarrow> roots_of s = rs \<Longrightarrow> roots_end rs (op_call_builtin E (run_prog cv cf) b argc s)"
  "rooted_env E \<Longrightarrow> roots_of s = rs \<Longrightarrow> roots_end rs (op_call_method_dyn E (run_prog cv cf) c argc s)"
  "rooted_env E \<Longrightarrow> roots_of s = rs \<Longrightarrow> roots_end rs (op_bind_method_dyn E (run_prog cv cf) c s)"
  "roots_of s = rs \<Longrightarrow> roots_end rs (op_to_string E (run_prog cv cf) s)"
  unfolding op_call_builtin_def op_call_method_dyn_def op_bind_method_dyn_def op_to_string_def
  by (auto intro!: unmoved balanced_env unmoved_method_dyn unmoved_bind_member rooting)

lemma unmoved_step:
  "rooted_env E \<Longrightarrow> roots_of s = rs \<Longrightarrow> roots_end rs (step E (run_prog cv cf) op s)"
  by (cases op) (simp_all add: step_def unmoved unmoved_value_op unmoved_native_ops)

end

section \<open>The loop, calls and runs\<close>

lemma unmoved_unwind: "roots_of s = rs \<Longrightarrow> roots_end rs (unwind E sig m fs s)"
  by (induction E sig m fs s rule: unwind.induct)
    (auto simp: enter_handler_def intro!: unmoved split: option.split)

lemma unmoved_loop [unmoved]:
  "roots_of s = rs \<Longrightarrow> roots_end rs (safepoint s)" "roots_of s = rs \<Longrightarrow> roots_end rs (fetch E s)"
  "roots_end rs r \<Longrightarrow> roots_end rs (settle E m r)"
proof -
  show "roots_of s = rs \<Longrightarrow> roots_end rs (safepoint s)"
    unfolding safepoint_def by (auto split: option.split)
  show "roots_of s = rs \<Longrightarrow> roots_end rs (fetch E s)"
    unfolding fetch_def by (auto intro!: unmoved split: list.split)
  show "roots_end rs r \<Longrightarrow> roots_end rs (settle E m r)"
    unfolding settle_def by (cases r) (auto intro!: unmoved_unwind)
qed

definition frames_rooted :: "(nat \<Rightarrow> 'w vm \<Rightarrow> (unit, 'w vm) outcome) \<Rightarrow> bool" where
  "frames_rooted exec \<longleftrightarrow> (\<forall>m s. roots_end (roots_of s) (exec m s))"

lemma unmoved_exec: "frames_rooted exec \<Longrightarrow> roots_of s = rs \<Longrightarrow> roots_end rs (exec m s)"
  by (auto simp: frames_rooted_def)


lemma unmoved_call_frames:
  assumes "frames_rooted exec" and "roots_of s = rs"
  shows "roots_end rs (call_frames E exec func caps args s)"
proof -
  have "roots_end rs (enter_function E func (length (vm_stack s)) (length (vm_stack s)) (s\<lparr>vm_stack := vm_stack s @ args\<rparr>))"
    using assms(2) by (auto intro!: unmoved)
  then have "roots_end rs (call_prep E func caps args s)"
    unfolding call_prep_def Let_def
    by (cases "enter_function E func (length (vm_stack s)) (length (vm_stack s)) (s\<lparr>vm_stack := vm_stack s @ args\<rparr>)")
      (auto intro!: unmoved split: option.split)
  then show ?thesis
    unfolding call_frames_def
  proof (rule unmoved_bind)
    fix x and t :: "'a vm"
    assume "roots_of t = rs"
    then have "roots_end rs (exec (length (vm_frames t)) (t\<lparr>vm_reentry := vm_reentry t + 1\<rparr>))"
      by (intro unmoved_exec [OF assms(1)]) simp
    then show "roots_end rs (case exec (length (vm_frames t)) (t\<lparr>vm_reentry := vm_reentry t + 1\<rparr>) of
         Returns _ s' \<Rightarrow> pop (leave_nested s')
       | Raises sig s' \<Rightarrow> Raises sig (leave_nested s')
       | Crash c \<Rightarrow> Crash c
       | OutOfFuel \<Rightarrow> OutOfFuel)"
      by (auto intro!: unmoved split: outcome.split)
  qed
qed

lemma unmoved_rooted_call:
  assumes "\<And>t. roots_end (roots_of t) (body t)" and "roots_of s = rs"
  shows "roots_end rs (rooted_call vs body s)"
  using assms(1) [of "s\<lparr>vm_store := set_roots (\<lambda>rs. rs @ vs) s\<rparr>"] assms(2)
  unfolding rooted_call_def Let_def by (auto split: outcome.split)

context callback
begin

lemma unmoved_exec_step:
  assumes "rooted_env E" and "frames_rooted exec"
  shows "frames_rooted (exec_step E (run_prog cv cf) exec)"
proof -
  have "roots_end (roots_of s) (exec_step E (run_prog cv cf) exec m s)" for m s
    unfolding exec_step_def one_instruction_def
    by (auto intro!: unmoved unmoved_step [OF assms(1)] unmoved_exec [OF assms(2)])
  then show ?thesis by (simp add: frames_rooted_def)
qed

lemma unmoved_call_value:
  "rooted_env E \<Longrightarrow> frames_rooted exec \<Longrightarrow> roots_of s = rs \<Longrightarrow>
     roots_end rs (call_value_native E exec (run_prog cv cf) callee args s)"
  unfolding call_value_native_def
  by (cases callee) (auto intro!: unmoved unmoved_call_frames unmoved_rooted_call balanced_env)

end

text \<open>The calls of the machine are such callbacks, at every fuel.\<close>

lemma machine_balances:
  assumes "rooted_env E"
  shows "frames_rooted (execute E n)" and "callback (call_callable E n) (\<lambda>func. call_frames E (execute E n) func None)"
proof (induction n)
  case 0
  {
    case 1
    show ?case by (simp add: frames_rooted_def)
  next
    case 2
    show ?case by unfold_locales (simp_all add: unmoved_call_frames frames_rooted_def)
  }
next
  case (Suc n)
  note calls = callback.unmoved_exec_step [OF Suc(2) assms Suc(1)] callback.unmoved_call_value [OF Suc(2) assms Suc(1)]
  {
    case 1
    show ?case using calls by simp
  next
    case 2
    show ?case using calls by unfold_locales (simp_all add: unmoved_call_frames)
  }
qed

locale rooted_machine =
  fixes E :: "'w env"
  assumes rooted: "rooted_env E"
begin

lemma unmoved_entry: "roots_of s = rs \<Longrightarrow> roots_end rs (call_entry E n func s)"
  unfolding call_entry_def by (auto intro!: unmoved unmoved_exec [OF machine_balances(1) [OF rooted]])

lemma unmoved_program: "roots_of s = rs \<Longrightarrow> roots_end rs (run_program E n s)"
  unfolding run_program_def by (auto intro!: unmoved unmoved_entry)

end

sublocale rooted_machine \<subseteq> calls: callback "call_callable E n" "call_function E n" for n
  using machine_balances(2) [OF rooted, of n] by (simp add: call_function_def [abs_def])

context rooted_machine
begin

lemma unmoved_finish:
  assumes "roots_end rs r" shows "roots_end rs (finish E n r)"
proof -
  have "roots_of s = rs \<Longrightarrow> roots_end rs (finish_error E n v s)" for v s
    using calls.unmoved_run [OF calls.balanced_display(1), of s rs n E v]
    by (auto simp: finish_error_def native_def split: option.split outcome.split)
  with assms show ?thesis by (cases r) (auto simp: finish_def split: signal.split)
qed

lemma unmoved_vm_run: "roots_of s = rs \<Longrightarrow> roots_end rs (vm_run E n s)"
  unfolding vm_run_def by (intro unmoved_finish unmoved_program)

end

text \<open>The whole machine with its builtins and nothing outside: what it prints is dropped, and a call that
  would leave the model is a fatal error.\<close>

definition closed_host :: "'w host" where
  "closed_host =
     \<lparr>h_uppercase = id, h_lowercase = id, h_debug_text = id, h_regex = (\<lambda>_. None), h_parse_float = (\<lambda>_. None),
      h_float_of_int = id, h_int_of_float = id, h_float_to_fixed = (\<lambda>_ _. []), h_float_unary = (\<lambda>_ x. x),
      h_float_min = (\<lambda>x _. x), h_float_max = (\<lambda>x _. x), h_print = (\<lambda>_. PDone ()),
      h_json = (\<lambda>_ _ _. PDone None), h_scope = (\<lambda>_ name _. builtin_error name),
      h_task = (\<lambda>_ name _. builtin_error name), h_free = (\<lambda>name _. builtin_error name)\<rparr>"

lemma closed_host_rooted: "rooted_host closed_host"
  by (simp add: rooted_host_def closed_host_def balanced_simps balanced_errors)

interpretation closed_machine: rooted_machine "with_builtins closed_host E"
  by unfold_locales (rule with_builtins_rooted [OF closed_host_rooted])

text \<open>C5: Native roots are balanced. Whatever a program does, on success, on an uncaught error, on a panic
  or on an exit, and wherever a builtin's traversal was cut short by a signal of its callback, a run of
  the machine ends with the stack of native roots it started with, provided the parts outside the model do so
  when they are called.\<close>

theorem runs_balance_native_roots:
  assumes "rooted_host H"
  shows "roots_end (roots_of s) (vm_run (with_builtins H E) n s)"
  by (rule rooted_machine.unmoved_vm_run [OF _ refl]) (simp add: rooted_machine_def with_builtins_rooted assms)

lemma fn_at_builtins [simp]: "fn_at (with_builtins H E) f = fn_at E f"
  by (simp add: fn_at_def with_builtins_def)

lemma with_builtins_simps [simp]:
  "e_module (with_builtins H E) = e_module E" "e_max_depth (with_builtins H E) = e_max_depth E"
  by (simp_all add: with_builtins_def)

lemma runs_balance_native_roots_witness:
  "\<exists>t. vm_run (with_builtins closed_host demo_env)
       (Suc (Suc (Suc (Suc (Suc (Suc (Suc (Suc (Suc (Suc (Suc (Suc (Suc (Suc 0)))))))))))))) demo_start =
     Returns OSuccess t \<and> roots_of t = []"
proof -
  let ?r = "vm_run (with_builtins closed_host demo_env)
       (Suc (Suc (Suc (Suc (Suc (Suc (Suc (Suc (Suc (Suc (Suc (Suc (Suc (Suc 0)))))))))))))) demo_start"
  obtain t where t: "?r = Returns OSuccess t"
    by (simp add: demo_eval demo_entry vm_run_def run_program_def call_entry_def finish_def op_call_def
        del: execute.simps call_callable.simps One_nat_def) 
  moreover have "roots_end (roots_of demo_start) ?r" by (rule runs_balance_native_roots [OF closed_host_rooted])
  moreover have "roots_of demo_start = []" by (simp add: demo_start_def vm_new_def roots_of_def)
  ultimately show ?thesis by simp
qed

end
