(* ===== verification/Builtin_Loops.thy ===== *)
theory Builtin_Loops
  imports Root_Machine
begin

text \<open>
  The traversal behind \<open>each\<close> is a loop: it calls its closure on the elements one after the other,
  inside one \<open>with_rooted\<close> of receiver and elements. The loop runs over a snapshot, so it ends
  whatever the closure does to the vector.
\<close>

section \<open>Reference loops\<close>

fun for_each ::
    "(val \<Rightarrow> val list \<Rightarrow> 'w vm \<Rightarrow> (val, 'w vm) outcome) \<Rightarrow> val \<Rightarrow> val list \<Rightarrow> 'w vm \<Rightarrow> (val, 'w vm) outcome" where
  "for_each cv f [] s = Returns VUnit s"
| "for_each cv f (x # xs) s = bind (cv f [x] s) (\<lambda>_ s. for_each cv f xs s)"

text \<open>How a loop of native code goes on: a signal unroots.\<close>

definition loop_then :: "nat \<Rightarrow> ('a, 'w vm) outcome \<Rightarrow> ('a \<Rightarrow> 'w vm \<Rightarrow> ('b, 'w vm) outcome) \<Rightarrow> ('b, 'w vm) outcome" where
  "loop_then mark r k =
     (case r of
        Returns x t \<Rightarrow> k x t
      | Raises sig t \<Rightarrow> Raises sig (t\<lparr>vm_store := unroot_store mark t\<rparr>)
      | Crash c \<Rightarrow> Crash c
      | OutOfFuel \<Rightarrow> OutOfFuel)"

lemma loop_then_simps [simp]:
  "loop_then mark (Returns x t) k = k x t"
  "loop_then mark (Raises sig t) k = Raises sig (t\<lparr>vm_store := unroot_store mark t\<rparr>)"
  "loop_then mark (Crash c) k = Crash c" "loop_then mark OutOfFuel k = OutOfFuel"
  by (simp_all add: loop_then_def)

lemma loop_then_bind: "loop_then mark (bind r g) k = loop_then mark r (\<lambda>x t. loop_then mark (g x t) k)"
  by (cases r) simp_all

lemma run_or_unroot:
  "run_prog cv cf (or_unroot mark p k) s = loop_then mark (run_prog cv cf p s) (\<lambda>x t. run_prog cv cf (k x) t)"
  by (simp add: or_unroot_def run_prog_try unroot_def loop_then_def split: outcome.split)

lemma run_root_at:
  "ix < length (roots_of s) \<Longrightarrow> run_prog cv cf (root_at ix k) s = run_prog cv cf (k (roots_of s ! ix)) s"
  by (simp add: root_at_def)

lemma run_call_back: "run_prog cv cf (call_back f args) s = cv f args s"
  by (cases "cv f args s") (simp_all add: call_back_def of_result_def)

lemma run_region:
  "run_prog cv cf (rooted_region before snapshot k) s =
     run_prog cv cf (k (length (roots_of s)) (length (roots_of s) + length before)
         (length (roots_of s) + length before + length snapshot))
       (s\<lparr>vm_store := set_roots (\<lambda>rs. rs @ before @ snapshot) s\<rparr>)"
  by (simp add: rooted_region_def)

lemma map_nth_region: "map ((!) (rs @ before @ xs)) [length rs + length before..<length rs + length before + length xs] = xs"
  by (rule nth_equalityI) (simp_all add: nth_append)

context callback
begin

lemma call_keeps: "cv f args s = Returns v t \<Longrightarrow> roots_of t = roots_of s"
  using value_call [of s f args] by simp

lemma run_collect_each:
  assumes "roots_of s = rs" and "\<forall>ix \<in> set ixs. ix < length rs"
  shows "run_prog cv cf (collect_each (\<lambda>item. prog_map (\<lambda>_. None) (call_back f [item])) mark ixs rest) s =
    loop_then mark (for_each cv f (map ((!) rs) ixs) s) (\<lambda>_ t. run_prog cv cf rest t)"
  using assms
proof (induction ixs arbitrary: s)
  case (Cons ix ixs)
  let ?p = "prog_map (\<lambda>_. None :: val option) (call_back f [rs ! ix])"
  have turn: "run_prog cv cf ?p s = bind (cv f [rs ! ix] s) (\<lambda>_. Returns None)"
    by (simp add: prog_map_def run_prog_bind run_call_back)
  show ?case
  proof (cases "cv f [rs ! ix] s")
    case (Returns v t)
    with Cons.prems call_keeps [OF Returns] Cons.IH [of t] show ?thesis
      by (simp add: run_root_at run_or_unroot turn)
  qed (use Cons.prems in \<open>simp_all add: run_root_at run_or_unroot turn\<close>)
qed simp

lemma unmoved_for_each: "roots_of s = rs \<Longrightarrow> roots_end rs (for_each cv f xs s)"
proof (induction xs arbitrary: s)
  case (Cons x xs)
  then show ?case using value_call [of s f "[x]"] by (auto intro!: unmoved_bind)
qed simp

text \<open>\<open>each\<close> is the loop over the snapshot, with receiver and snapshot rooted around it.\<close>

lemma each_is_loop:
  assumes "heap_vector (vm_heap s) r = Some xs"
  shows "run_prog cv cf (method_builtin E H ''each'' (VVector r) [f]) s =
    rooted_call (VVector r # xs) (for_each cv f xs) s"
proof -
  let ?rs = "roots_of s @ [VVector r] @ xs"
  let ?s = "s\<lparr>vm_store := set_roots (\<lambda>rs. rs @ VVector r # xs) s\<rparr>"
  let ?ixs = "[Suc (length (roots_of s))..<Suc (length (roots_of s) + length xs)]"
  let ?rest = "PRead (\<lambda>t. unroot (length (roots_of s)) (PDone (drop (Suc (length (roots_of s) + length xs)) (roots_of t)))) :: ('w, val list) prog"
  have xs: "map ((!) ?rs) ?ixs = xs"
    using map_nth_region [of "roots_of s" "[VVector r]" xs] by simp
  have "run_prog cv cf (vector_each (VVector r) xs f) s =
      bind (run_prog cv cf (collect_each (\<lambda>item. prog_map (\<lambda>_. None) (call_back f [item]))
        (length (roots_of s)) ?ixs ?rest) ?s) (\<lambda>_. Returns VUnit)"
    by (simp add: vector_each_def prog_map_def run_prog_bind collect_rooted_def run_region)
  also have "\<dots> = bind (loop_then (length (roots_of s)) (for_each cv f xs ?s) (\<lambda>_ t. run_prog cv cf ?rest t)) (\<lambda>_. Returns VUnit)"
    by (subst run_collect_each [of ?s ?rs]) (simp_all only: xs, auto)
  also have "\<dots> = rooted_call (VVector r # xs) (for_each cv f xs) s"
  proof -
    have "for_each cv f ys t = Returns v t' \<Longrightarrow> v = VUnit" for ys t v t'
      by (induction ys arbitrary: t) (auto simp: bind_def split: outcome.splits)
    then show ?thesis
      by (cases "for_each cv f xs ?s") (auto simp: rooted_call_def Let_def unroot_def dest: sym)
  qed
  finally show ?thesis
    using assms by (simp add: method_builtin_def vector_builtin_def on_args_def one_arg_def vector_items_def with_heap_def)
qed

end

section \<open>The loop ends\<close>

lemma for_each_returns:
  assumes "I t" and "\<And>x t. x \<in> set xs \<Longrightarrow> I t \<Longrightarrow> \<exists>n v t'. call_callable E n f [x] t = Returns v t' \<and> I t'"
  shows "\<exists>n ss. length ss = length xs \<and> for_each (call_callable E n) f xs t = Returns VUnit (last (t # ss)) \<and>
    (\<forall>i < length xs. \<exists>v. call_callable E n f [xs ! i] ((t # ss) ! i) = Returns v (ss ! i))"
  using assms
proof (induction xs arbitrary: t)
  case Nil
  then show ?case by (intro exI [of _ 0] exI [of _ "[]"]) simp
next
  case (Cons x xs)
  obtain n v t1 where x: "call_callable E n f [x] t = Returns v t1" and I: "I t1"
    using Cons.prems by fastforce
  have "\<exists>n ss. length ss = length xs \<and> for_each (call_callable E n) f xs t1 = Returns VUnit (last (t1 # ss)) \<and>
      (\<forall>i < length xs. \<exists>v. call_callable E n f [xs ! i] ((t1 # ss) ! i) = Returns v (ss ! i))"
    using Cons.IH [OF I] Cons.prems(2) by simp
  then obtain m ss where ss: "length ss = length xs"
      "for_each (call_callable E m) f xs t1 = Returns VUnit (last (t1 # ss))"
      "\<forall>i < length xs. \<exists>v. call_callable E m f [xs ! i] ((t1 # ss) ! i) = Returns v (ss ! i)" by blast
  have n: "call_callable E (n + m) f [x] t = Returns v t1"
    using fuel_below(2) [of E n f "[x]" t m] x by simp
  have m: "call_callable E (n + m) f args u = Returns w u'" if "call_callable E m f args u = Returns w u'" for args u w u'
    using fuel_below(2) [of E m f args u n] that by (simp add: add.commute)
  have loop: "for_each (call_callable E m) f ys u = Returns VUnit u' \<Longrightarrow>
      for_each (call_callable E (n + m)) f ys u = Returns VUnit u'" for ys u u'
  proof (induction ys arbitrary: u)
    case (Cons y ys)
    then obtain w u1 where "call_callable E m f [y] u = Returns w u1" "for_each (call_callable E m) f ys u1 = Returns VUnit u'"
      by (cases "call_callable E m f [y] u") auto
    with Cons.IH [of u1] m [of "[y]" u w u1] show ?case by simp
  qed simp
  show ?case
  proof (rule exI [of _ "n + m"], rule exI [of _ "t1 # ss"], intro conjI allI impI)
    show "length (t1 # ss) = length (x # xs)" using ss(1) by simp
    show "for_each (call_callable E (n + m)) f (x # xs) t = Returns VUnit (last (t # t1 # ss))"
      using n loop [OF ss(2)] by simp
    fix i
    assume "i < length (x # xs)"
    then show "\<exists>v. call_callable E (n + m) f [(x # xs) ! i] ((t # t1 # ss) ! i) = Returns v ((t1 # ss) ! i)"
    proof (cases i)
      case (Suc j)
      with \<open>i < length (x # xs)\<close> ss(3) obtain v where
        "call_callable E m f [xs ! j] ((t1 # ss) ! j) = Returns v (ss ! j)" by auto
      from m [OF this] Suc show ?thesis by auto
    qed (use n in simp)
  qed
qed

text \<open>C14: \<open>each\<close> always gets through. If the closure returns whenever the machine satisfies \<open>I\<close> and leaves it
  so, then with enough fuel \<open>each\<close> returns: it has called the closure once for every element the vector
  held at the start, in order, each call from the state the one before left, even if the closure
  changes the vector; and it drops the roots it held meanwhile.\<close>

theorem each_visits_every_element:
  assumes "rooted_host H" and "heap_vector (vm_heap s) r = Some xs"
    and "\<And>x t. x \<in> set xs \<Longrightarrow> I t \<Longrightarrow> \<exists>n v t'. call_callable (with_builtins H E) n f [x] t = Returns v t' \<and> I t'"
    and "I (s\<lparr>vm_store := set_roots (\<lambda>rs. rs @ VVector r # xs) s\<rparr>)"
  shows "\<exists>n t ss. native (with_builtins H E) n (method_builtin (with_builtins H E) H ''each'' (VVector r) [f]) s = Returns VUnit t \<and>
    roots_of t = roots_of s \<and> length ss = Suc (length xs) \<and>
    ss ! 0 = s\<lparr>vm_store := set_roots (\<lambda>rs. rs @ VVector r # xs) s\<rparr> \<and>
    t = (last ss)\<lparr>vm_store := unroot_store (length (roots_of s)) (last ss)\<rparr> \<and>
    (\<forall>i < length xs. \<exists>v. call_callable (with_builtins H E) n f [xs ! i] (ss ! i) = Returns v (ss ! Suc i))"
proof -
  let ?E = "with_builtins H E" and ?s = "s\<lparr>vm_store := set_roots (\<lambda>rs. rs @ VVector r # xs) s\<rparr>"
  have cb: "callback (call_callable ?E n) (call_function ?E n)" for n
    using machine_balances(2) [OF with_builtins_rooted [OF assms(1)], of E n] by (simp add: call_function_def [abs_def])
  obtain n ss where ss: "length ss = length xs"
      "for_each (call_callable ?E n) f xs ?s = Returns VUnit (last (?s # ss))"
      "\<forall>i < length xs. \<exists>v. call_callable ?E n f [xs ! i] ((?s # ss) ! i) = Returns v (ss ! i)"
    using for_each_returns [of I ?s xs ?E f, OF assms(4,3)] by blast
  have "native ?E n (method_builtin ?E H ''each'' (VVector r) [f]) s = rooted_call (VVector r # xs) (for_each (call_callable ?E n) f xs) s"
    unfolding native_def by (rule callback.each_is_loop [OF cb assms(2)])
  moreover have "rooted_call (VVector r # xs) (for_each (call_callable ?E n) f xs) s =
      Returns VUnit ((last (?s # ss))\<lparr>vm_store := unroot_store (length (roots_of s)) (last (?s # ss))\<rparr>)"
    using ss(2) by (simp add: rooted_call_def)
  moreover have "roots_end (roots_of s) (rooted_call (VVector r # xs) (for_each (call_callable ?E n) f xs) s)"
    by (intro unmoved_rooted_call [OF callback.unmoved_for_each] refl) (rule cb)
  ultimately show ?thesis
    using ss(1,3)
    by (intro exI [of _ n] exI [of _ "(last (?s # ss))\<lparr>vm_store := unroot_store (length (roots_of s)) (last (?s # ss))\<rparr>"]
        exI [of _ "?s # ss"]) simp
qed

text \<open>Pushing every element of a vector on that vector: the loop runs over the three words it held.\<close>

definition three_words :: heap where
  "three_words = (heap_new 48 1024)\<lparr>cells := [CVector [VStr ''b'', VStr ''c'', VStr ''a'']],
     stat_live := 1, live_bytes := 120\<rparr>"

definition three_words_vm :: "unit vm" where
  "three_words_vm =
     \<lparr>vm_globals = [], vm_stack = [], vm_frames = [], vm_reentry = 0,
      vm_store = \<lparr>st_heap = three_words, st_next = 0, st_roots = [], st_world = ()\<rparr>\<rparr>"

lemma three_words_wf: "heap_wf three_words"
  by (simp add: heap_wf_def three_words_def heap_new_def occupied_def retained_def cell_bytes_def slot_bytes_def nth_Cons')

lemma three_words_vector: "heap_vector (vm_heap three_words_vm) 0 = Some [VStr ''b'', VStr ''c'', VStr ''a'']"
  by (simp add: three_words_vm_def three_words_def heap_vector_def cell_at_def)

definition push_env :: "unit env" where
  "push_env = demo_env\<lparr>e_registry := [(''push'', True)]\<rparr>"

lemma push_returns:
  assumes "heap_vector (vm_heap t) 0 \<noteq> None"
  shows "\<exists>n v t'. call_callable (with_builtins closed_host push_env) n (VBoundBuiltin 0 (VVector 0) 0) [x] t = Returns v t' \<and>
    heap_vector (vm_heap t') 0 \<noteq> None"
proof -
  from assms obtain xs where xs: "heap_vector (vm_heap t) 0 = Some xs" by blast
  then obtain h where h: "edit_vector 0 (\<lambda>xs. ((), xs @ [x])) (vm_heap t) = Some ((), h)"
    by (auto simp: edit_vector_def)
  from edit_vector_reads [OF this] xs have r: "heap_vector h 0 \<noteq> None" by (auto split: if_splits)
  have c: "call_callable (with_builtins closed_host push_env) (Suc 0) (VBoundBuiltin 0 (VVector 0) 0) [x] t =
      Returns VUnit (t\<lparr>vm_store := (vm_store t)\<lparr>st_heap := h\<rparr>\<rparr>)"
    using h by (simp add: call_value_native_def builtin_with_args_def nth_opt_def with_builtins_def push_env_def
        method_builtin_def vector_builtin_def on_args_def one_arg_def vector_push_def edit_value_def)
  show ?thesis by (rule exI [of _ "Suc 0"], rule exI [of _ VUnit], rule exI, rule conjI [OF c]) (simp add: r)
qed

lemma each_visits_every_element_witness:
  "\<exists>n t ss. native (with_builtins closed_host push_env) n
       (method_builtin (with_builtins closed_host push_env) closed_host ''each'' (VVector 0) [VBoundBuiltin 0 (VVector 0) 0])
       three_words_vm = Returns VUnit t \<and> roots_of t = [] \<and> length ss = 4 \<and>
     t = (last ss)\<lparr>vm_store := unroot_store 0 (last ss)\<rparr>"
proof -
  let ?s = "three_words_vm\<lparr>vm_store := set_roots (\<lambda>rs. rs @ VVector 0 # [VStr ''b'', VStr ''c'', VStr ''a'']) three_words_vm\<rparr>"
  have "heap_vector (vm_heap ?s) 0 \<noteq> None" using three_words_vector by (simp add: set_roots_def)
  moreover have "roots_of three_words_vm = []" by (simp add: three_words_vm_def roots_of_def)
  ultimately show ?thesis
    using each_visits_every_element [OF closed_host_rooted three_words_vector, of "\<lambda>t. heap_vector (vm_heap t) 0 \<noteq> None" push_env
      "VBoundBuiltin 0 (VVector 0) 0"] push_returns by (fastforce simp: numeral_eq_Suc)
qed

end
