(* ===== verification/Builtin_Sorting.thy ===== *)
theory Builtin_Sorting
  imports Builtin_Loops "HOL-Library.Multiset"
begin

text \<open>
  \<open>sort\<close> of a vector: the standard library's contract of a stable sort, proved for the model's
  insertion sort on any total preorder, and instantiated with the ordering of the values.
\<close>

section \<open>A stable sort\<close>

definition total_cmp :: "'a set \<Rightarrow> ('a \<Rightarrow> 'a \<Rightarrow> ordering) \<Rightarrow> bool" where
  "total_cmp A f \<longleftrightarrow>
     (\<forall>x \<in> A. \<forall>y \<in> A. f x y = Greater \<longrightarrow> f y x \<noteq> Greater) \<and>
     (\<forall>x \<in> A. \<forall>y \<in> A. \<forall>z \<in> A. f x y \<noteq> Greater \<and> f y z \<noteq> Greater \<longrightarrow> f x z \<noteq> Greater)"

lemma total_cmpD:
  "total_cmp A f \<Longrightarrow> x \<in> A \<Longrightarrow> y \<in> A \<Longrightarrow> f x y = Greater \<Longrightarrow> f y x \<noteq> Greater"
  "total_cmp A f \<Longrightarrow> x \<in> A \<Longrightarrow> y \<in> A \<Longrightarrow> z \<in> A \<Longrightarrow> f x y \<noteq> Greater \<Longrightarrow> f y z \<noteq> Greater \<Longrightarrow> f x z \<noteq> Greater"
  unfolding total_cmp_def by blast+

lemma stable_sort_simps [simp]:
  "stable_sort f [] = []" "stable_sort f (x # xs) = insert_sorted f x (stable_sort f xs)"
  by (simp_all add: stable_sort_def)

lemma mset_insert_sorted [simp]: "mset (insert_sorted f x ys) = add_mset x (mset ys)"
  by (induction ys) simp_all

lemma mset_stable_sort [simp]: "mset (stable_sort f xs) = mset xs"
  by (induction xs) simp_all

lemma set_insert_sorted [simp]: "set (insert_sorted f x ys) = insert x (set ys)"
  by (induction ys) (simp_all add: insert_commute)

lemma set_stable_sort [simp]: "set (stable_sort f xs) = set xs"
  by (induction xs) simp_all

lemma sorted_insert:
  assumes "total_cmp A f" and "x \<in> A" and "set ys \<subseteq> A"
  shows "sorted_wrt (\<lambda>a b. f a b \<noteq> Greater) ys \<Longrightarrow> sorted_wrt (\<lambda>a b. f a b \<noteq> Greater) (insert_sorted f x ys)"
  using assms(3)
proof (induction ys)
  case (Cons y ys)
  note o = total_cmpD [OF assms(1)]
  show ?case
  proof (cases "f x y = Greater")
    case True
    with Cons o(1) [OF assms(2)] show ?thesis by auto
  next
    case False
    with Cons o(2) [OF assms(2)] show ?thesis by fastforce
  qed
qed simp

lemma sorted_stable_sort:
  "total_cmp A f \<Longrightarrow> set xs \<subseteq> A \<Longrightarrow> sorted_wrt (\<lambda>a b. f a b \<noteq> Greater) (stable_sort f xs)"
proof (induction xs)
  case (Cons x xs)
  show ?case unfolding stable_sort_simps by (rule sorted_insert [of A]) (use Cons in simp_all)
qed simp

lemma filter_insert_sorted:
  "(\<And>y. P x \<Longrightarrow> P y \<Longrightarrow> y \<in> set ys \<Longrightarrow> f x y \<noteq> Greater) \<Longrightarrow>
     filter P (insert_sorted f x ys) = (if P x then x # filter P ys else filter P ys)"
  by (induction ys) auto

text \<open>Elements that compare equal keep their order.\<close>

lemma filter_stable_sort:
  "(\<And>x y. x \<in> set xs \<Longrightarrow> y \<in> set xs \<Longrightarrow> P x \<Longrightarrow> P y \<Longrightarrow> f x y \<noteq> Greater) \<Longrightarrow>
     filter P (stable_sort f xs) = filter P xs"
proof (induction xs)
  case (Cons x xs)
  have "filter P (insert_sorted f x (stable_sort f xs)) =
      (if P x then x # filter P (stable_sort f xs) else filter P (stable_sort f xs))"
    by (rule filter_insert_sorted) (use Cons.prems in auto)
  with Cons show ?case by simp
qed simp

section \<open>The ordering of the values\<close>

lemma str_cmp_flip: "str_cmp x y = Greater \<longleftrightarrow> str_cmp y x = Less"
  by (induction x y rule: str_cmp.induct) auto

lemma str_cmp_eq: "str_cmp x y = Equal \<longleftrightarrow> x = y"
  by (induction x y rule: str_cmp.induct) auto

lemma str_cmp_refl [simp]: "str_cmp x x = Equal"
  by (simp add: str_cmp_eq)

lemma str_cmp_trans: "str_cmp x y \<noteq> Greater \<Longrightarrow> str_cmp y z \<noteq> Greater \<Longrightarrow> str_cmp x z \<noteq> Greater"
proof (induction x y arbitrary: z rule: str_cmp.induct)
  case (4 a as b bs)
  then show ?case by (cases z) (auto split: if_splits)
qed (auto split: if_splits elim: str_cmp.elims)

text \<open>Values of one orderable kind; a NaN is of none.\<close>

datatype order_kind = IntKind | FloatKind | StrKind | CharKind

definition order_kind_of :: "val \<Rightarrow> order_kind option" where
  "order_kind_of v =
     (case v of
        VInt _ \<Rightarrow> Some IntKind
      | VFloat x \<Rightarrow> if f64_is_nan x then None else Some FloatKind
      | VStr _ \<Rightarrow> Some StrKind | VChar _ \<Rightarrow> Some CharKind
      | _ \<Rightarrow> None)"

definition same_kind :: "val \<Rightarrow> val \<Rightarrow> bool" where
  "same_kind a b \<longleftrightarrow> order_kind_of a \<noteq> None \<and> order_kind_of a = order_kind_of b"

definition one_kind :: "val list \<Rightarrow> bool" where
  "one_kind vs \<longleftrightarrow> list_all (same_kind (hd vs)) vs"

lemma same_kind_cases:
  assumes "same_kind a b"
  obtains i j where "a = VInt i" "b = VInt j"
  | x y where "a = VFloat x" "b = VFloat y" "\<not> f64_is_nan x" "\<not> f64_is_nan y"
  | s t where "a = VStr s" "b = VStr t"
  | c d where "a = VChar c" "b = VChar d"
proof -
  obtain k where "order_kind_of a = Some k" "order_kind_of b = Some k"
    using assms by (metis same_kind_def not_None_eq)
  then show ?thesis
    using that by (cases k) (auto simp: order_kind_of_def split: val.splits if_splits)
qed

lemma same_kind_val_cmp: "same_kind a b \<Longrightarrow> val_cmp a b = Some (cmp_or_equal a b)"
  by (erule same_kind_cases) (auto simp: val_cmp_def cmp_or_equal_def f64_partial_cmp_def)

lemma same_kind_trans: "same_kind k a \<Longrightarrow> same_kind k b \<Longrightarrow> same_kind a b"
  by (metis same_kind_def)

lemma one_kindD: "one_kind vs \<Longrightarrow> a \<in> set vs \<Longrightarrow> b \<in> set vs \<Longrightarrow> same_kind a b"
  by (auto simp: one_kind_def list_all_iff intro: same_kind_trans)

lemma cmp_flip: "cmp_or_equal a b = Greater \<Longrightarrow> same_kind a b \<Longrightarrow> cmp_or_equal b a \<noteq> Greater"
  by (erule same_kind_cases)
    (auto simp: val_cmp_def cmp_or_equal_def f64_partial_cmp_def str_cmp_flip split: if_splits)

lemma cmp_trans:
  assumes "same_kind a b" and "same_kind b c" and "cmp_or_equal a b \<noteq> Greater" and "cmp_or_equal b c \<noteq> Greater"
  shows "cmp_or_equal a c \<noteq> Greater"
  using assms(1)
proof (cases rule: same_kind_cases)
  case (3 s t)
  with assms(2) obtain u where "c = VStr u" by (auto elim: same_kind_cases)
  with 3 assms(3,4) str_cmp_trans [of s t u] show ?thesis by (simp add: cmp_or_equal_def val_cmp_def)
qed (use assms in \<open>auto elim!: same_kind_cases simp: cmp_or_equal_def val_cmp_def f64_partial_cmp_def split: if_splits\<close>)

lemma one_kind_preorder: "one_kind vs \<Longrightarrow> total_cmp (set vs) cmp_or_equal"
  unfolding total_cmp_def by (meson cmp_flip cmp_trans one_kindD)

lemma cmp_equal_class:
  assumes "same_kind a b" and "val_cmp a k = Some Equal" and "val_cmp b k = Some Equal"
  shows "cmp_or_equal a b \<noteq> Greater"
  using assms(1)
  by (cases rule: same_kind_cases)
    (use assms(2,3) in \<open>auto simp: val_cmp_def cmp_or_equal_def f64_partial_cmp_def str_cmp_eq split: val.splits if_splits\<close>)

section \<open>Sorting a vector\<close>

lemma all_orderable_one_kind: "one_kind vs \<Longrightarrow> all_orderable E vs p = p"
proof -
  have "list_all (\<lambda>v. same_kind v v) us \<Longrightarrow> all_orderable E us p = p" for us
    by (induction us) (auto simp: orderable_def elim!: same_kind_cases)
  then show "one_kind vs \<Longrightarrow> all_orderable E vs p = p" by (simp add: list_all_iff one_kindD)
qed

lemma run_alloc_vector:
  assumes wf: "heap_wf (vm_heap s)" and room: "length (cells (vm_heap s)) < 2 ^ 32"
  obtains q t where "run_prog cv cf (alloc_value (alloc_vector ys)) s = Returns (VVector q) t"
    and "heap_vector (vm_heap t) q = Some ys" and "\<And>r xs. heap_vector (vm_heap s) r = Some xs \<Longrightarrow> heap_vector (vm_heap t) r = Some xs"
    and "heap_vector (vm_heap s) q = None" and "roots_of t = roots_of s"
proof -
  have "\<exists>q h. heap_alloc (CVector ys) (vm_heap s) = Some (q, h)"
  proof (cases "free (vm_heap s)")
    case (Cons ix rest)
    then have "ix < length (cells (vm_heap s))" using wf by (auto simp: heap_wf_def)
    with Cons show ?thesis by (simp add: heap_alloc_def Let_def charge_def)
  qed (use room in \<open>simp add: heap_alloc_def Let_def charge_def\<close>)
  then obtain q h where a: "heap_alloc (CVector ys) (vm_heap s) = Some (q, h)" by blast
  note k = arena.alloc_read [OF wf _ a] arena.alloc_other [OF wf _ a] arena.alloc_fresh [OF wf _ a]
  let ?t = "s\<lparr>vm_store := (vm_store s)\<lparr>st_heap := h\<rparr>\<rparr>"
  have "run_prog cv cf (alloc_value (alloc_vector ys)) s = Returns (VVector q) ?t"
    using a by (simp add: alloc_value_def alloc_vector_def)
  moreover have "heap_vector (vm_heap ?t) q = Some ys" "heap_vector (vm_heap s) q = None"
    using k by (auto simp: heap_vector_def split: option.split)
  moreover have "heap_vector (vm_heap ?t) r = Some xs" if "heap_vector (vm_heap s) r = Some xs" for r xs
  proof -
    have "r \<noteq> q" using that k(3) by (auto simp: heap_vector_def)
    with that k(2) show ?thesis by (simp add: heap_vector_def)
  qed
  ultimately show ?thesis by (intro that [of q ?t]) simp_all
qed



end
