(* ===== verification/Stdlib_Signatures.thy ===== *)
theory Stdlib_Signatures
  imports Stdlib_Tables Type_Terms Builtin_Registry
begin

text \<open>
  The checker's view of the standard library (\<open>brasa_typeck/src/builtins.rs\<close>): the table a receiver
  selects, the lowering of a row to types, and the errors a member throws. An outer \<open>None\<close> is a panic
  (the \<open>unreachable!\<close> of the source), an inner one says that there is no such member.
\<close>

section \<open>Lowering\<close>

datatype recv_args = ArgsNone | ArgsElem ty | ArgsKeyValue ty ty

fun lower_type :: "ty_desc \<Rightarrow> recv_args \<Rightarrow> ty option"
  and lower_types :: "ty_desc list \<Rightarrow> recv_args \<Rightarrow> ty list option" where
  "lower_type DInt r = Some TInt"
| "lower_type DFloat r = Some TFloat"
| "lower_type DString r = Some TString"
| "lower_type DBool r = Some TBool"
| "lower_type DUnit r = Some TUnit"
| "lower_type DChar r = Some TChar"
| "lower_type DRange r = Some TRange"
| "lower_type DUnknown r = Some TUnknown"
| "lower_type DWalk r = Some TWalk"
| "lower_type DStat r = Some TStat"
| "lower_type DJson r = Some TJson"
| "lower_type DProcOutput r = Some TProcOutput"
| "lower_type DHttpResponse r = Some THttpResponse"
| "lower_type DCliArgs r = Some TCliArgs"
| "lower_type DElem r = (case r of ArgsElem e \<Rightarrow> Some e | _ \<Rightarrow> None)"
| "lower_type DKey r = (case r of ArgsKeyValue k v \<Rightarrow> Some k | _ \<Rightarrow> None)"
| "lower_type DValue r = (case r of ArgsKeyValue k v \<Rightarrow> Some v | _ \<Rightarrow> None)"
| "lower_type (DVector d) r = map_option TVector (lower_type d r)"
| "lower_type (DOption d) r = map_option TOption (lower_type d r)"
| "lower_type (DSet d) r = map_option TSet (lower_type d r)"
| "lower_type (DMap k v) r = Option.bind (lower_type k r) (\<lambda>a. map_option (TMap a) (lower_type v r))"
| "lower_type (DTuple ds) r = map_option TTuple (lower_types ds r)"
| "lower_type (DFn ds d) r = Option.bind (lower_types ds r) (\<lambda>ps. map_option (TFn ps) (lower_type d r))"
| "lower_types [] r = Some []"
| "lower_types (d # ds) r = Option.bind (lower_type d r) (\<lambda>t. map_option (Cons t) (lower_types ds r))"

text \<open>What the guard of the tables tests of every type a row mentions.\<close>

fun names_only :: "recv_shape \<Rightarrow> ty_desc \<Rightarrow> bool"
  and all_name_only :: "recv_shape \<Rightarrow> ty_desc list \<Rightarrow> bool" where
  "names_only s (DVector d) \<longleftrightarrow> names_only s d"
| "names_only s (DOption d) \<longleftrightarrow> names_only s d"
| "names_only s (DSet d) \<longleftrightarrow> names_only s d"
| "names_only s (DMap k v) \<longleftrightarrow> names_only s k \<and> names_only s v"
| "names_only s (DTuple ds) \<longleftrightarrow> all_name_only s ds"
| "names_only s (DFn ds d) \<longleftrightarrow> all_name_only s ds \<and> names_only s d"
| "names_only s d \<longleftrightarrow> shape_provides s d"
| "all_name_only s [] \<longleftrightarrow> True"
| "all_name_only s (d # ds) \<longleftrightarrow> names_only s d \<and> all_name_only s ds"

definition shape_of :: "recv_args \<Rightarrow> recv_shape" where
  "shape_of r = (case r of ArgsNone \<Rightarrow> ShPlain | ArgsElem _ \<Rightarrow> ShElem | ArgsKeyValue _ _ \<Rightarrow> ShKeyValue)"

lemma lower_total:
  "names_only (shape_of r) d \<Longrightarrow> lower_type d r \<noteq> None"
  "all_name_only (shape_of r) ds \<Longrightarrow> lower_types ds r \<noteq> None"
  by (induction d r and ds r rule: lower_type_lower_types.induct)
    (auto simp: shape_of_def shape_provides_def split: recv_args.splits)

section \<open>Methods\<close>

datatype ret_rule = RrFixed ty | RrVectorOfFnRet | RrTaskOfFnRet

record method_sig =
  ms_params :: "ty list"
  ms_ret :: ret_rule

definition type_sig :: "ty list \<Rightarrow> ret_rule \<Rightarrow> method_sig" where
  "type_sig params ret = \<lparr>ms_params = params, ms_ret = ret\<rparr>"

definition orderable_type :: "ty \<Rightarrow> bool" where
  "orderable_type elem \<longleftrightarrow> elem \<in> {TInt, TFloat, TString, TChar} \<or> is_flexible elem"

definition receiver_table :: "ty \<Rightarrow> (method_decl list \<times> recv_args) option" where
  "receiver_table recv =
     (case recv of
        TInt \<Rightarrow> Some (int_methods, ArgsNone)
      | TFloat \<Rightarrow> Some (float_methods, ArgsNone)
      | TString \<Rightarrow> Some (string_methods, ArgsNone)
      | TVector elem \<Rightarrow> Some (vector_methods, ArgsElem elem)
      | TMap key value \<Rightarrow> Some (map_methods, ArgsKeyValue key value)
      | TSet elem \<Rightarrow> Some (set_methods, ArgsElem elem)
      | TJson \<Rightarrow> Some (json_accessors, ArgsNone)
      | TOption inner \<Rightarrow> if inner = TJson then Some (json_accessors, ArgsNone) else None
      | TConcurrentScope \<Rightarrow> Some (scope_methods, ArgsNone)
      | TTask elem \<Rightarrow> Some (task_methods, ArgsElem elem)
      | _ \<Rightarrow> None)"

definition method_throws :: "ty \<Rightarrow> string \<Rightarrow> string list" where
  "method_throws recv name =
     (case receiver_table recv of
        None \<Rightarrow> []
      | Some (table, _) \<Rightarrow>
          (case find_row (\<lambda>decl. md_name decl = name) table of
             Some decl \<Rightarrow> md_throws decl
           | None \<Rightarrow> []))"

definition vector_custom_method :: "ty \<Rightarrow> string \<Rightarrow> method_sig option option" where
  "vector_custom_method elem name =
     (if name = ''sort'' then
        Some (if orderable_type elem then Some (type_sig [] (RrFixed (TVector elem))) else None)
      else if name = ''flatten'' then
        Some (case elem of
          TVector inner \<Rightarrow> Some (type_sig [] (RrFixed (TVector inner)))
        | _ \<Rightarrow> if is_flexible elem then Some (type_sig [] (RrFixed (TVector TUnknown))) else None)
      else None)"

definition row_sig :: "method_decl \<Rightarrow> recv_args \<Rightarrow> method_sig option option" where
  "row_sig decl args =
     (case md_ret decl of
        RetTy ret \<Rightarrow>
          Option.bind (lower_types (md_params decl) args) (\<lambda>ps.
            map_option (\<lambda>t. Some (type_sig ps (RrFixed t))) (lower_type ret args))
      | VectorOfFnRet \<Rightarrow> map_option (\<lambda>ps. Some (type_sig ps RrVectorOfFnRet)) (lower_types (md_params decl) args)
      | TaskOfFnRet \<Rightarrow> map_option (\<lambda>ps. Some (type_sig ps RrTaskOfFnRet)) (lower_types (md_params decl) args)
      | RetCustom \<Rightarrow>
          (case args of
             ArgsElem elem \<Rightarrow>
               if find_row (\<lambda>d. md_name d = md_name decl) vector_methods = None then None
               else vector_custom_method elem (md_name decl)
           | _ \<Rightarrow> None))"

definition method_lookup :: "ty \<Rightarrow> string \<Rightarrow> method_sig option option" where
  "method_lookup recv name =
     (case receiver_table recv of
        None \<Rightarrow> Some None
      | Some (table, args) \<Rightarrow>
          (case find_row (\<lambda>decl. md_name decl = name) table of
             None \<Rightarrow> Some None
           | Some decl \<Rightarrow> row_sig decl args))"

section \<open>Records\<close>

datatype record_member_sig = RmField ty | RmMethod method_sig

definition native_error_type :: "string \<Rightarrow> ty" where
  "native_error_type error = (if error = proc_non_zero_exit then TProcNonZeroExit else TNativeError)"

definition record_table_of :: "ty \<Rightarrow> record_decl list option" where
  "record_table_of recv =
     (case recv of
        TProcOutput \<Rightarrow> Some output_members
      | THttpResponse \<Rightarrow> Some response_members
      | TCliArgs \<Rightarrow> Some args_members
      | TWalk \<Rightarrow> Some walk_members
      | TStat \<Rightarrow> Some stat_members
      | TNativeError \<Rightarrow> Some error_members
      | TProcNonZeroExit \<Rightarrow> Some non_zero_exit_members
      | _ \<Rightarrow> None)"

definition record_row_sig :: "record_decl \<Rightarrow> record_member_sig option" where
  "record_row_sig decl =
     (case rd_kind decl of
        FieldMember \<Rightarrow> map_option RmField (lower_type (rd_ret decl) ArgsNone)
      | MethodMember params \<Rightarrow>
          Option.bind (lower_types params ArgsNone) (\<lambda>ps.
            map_option (\<lambda>t. RmMethod (type_sig ps (RrFixed t))) (lower_type (rd_ret decl) ArgsNone)))"

definition record_member :: "ty \<Rightarrow> string \<Rightarrow> record_member_sig option option" where
  "record_member recv name =
     (case Option.bind (record_table_of recv) (find_row (\<lambda>decl. rd_name decl = name)) of
        None \<Rightarrow> Some None
      | Some decl \<Rightarrow> map_option Some (record_row_sig decl))"

section \<open>Modules\<close>

datatype module_param = MpTy ty | MpCommand

record module_sig =
  mg_required :: "module_param list"
  mg_optional :: "module_param list"
  mg_ret :: ty

definition module_throws :: "string \<Rightarrow> string \<Rightarrow> string list" where
  "module_throws module name =
     (case free_member module name of
        Some decl \<Rightarrow> dd_throws decl
      | None \<Rightarrow> [])"

definition lower_param :: "param_desc \<Rightarrow> module_param option" where
  "lower_param desc =
     (case desc of
        PTy d \<Rightarrow> map_option MpTy (lower_type d ArgsNone)
      | PCommand \<Rightarrow> Some MpCommand)"

definition module_row_sig :: "module_decl \<Rightarrow> module_sig option option" where
  "module_row_sig decl =
     (case dd_kind decl of
        KCall required optional ret \<Rightarrow>
          Option.bind (those (map lower_param required)) (\<lambda>rs.
            Option.bind (those (map lower_param optional)) (\<lambda>opts.
              map_option (\<lambda>t. Some \<lparr>mg_required = rs, mg_optional = opts, mg_ret = t\<rparr>) (lower_type ret ArgsNone)))
      | _ \<Rightarrow> Some None)"

definition module_member :: "string \<Rightarrow> string \<Rightarrow> module_sig option option" where
  "module_member module name =
     (case free_member module name of
        None \<Rightarrow> Some None
      | Some decl \<Rightarrow> module_row_sig decl)"

definition module_constant :: "string \<Rightarrow> string \<Rightarrow> ty option option" where
  "module_constant module name =
     (case map_option dd_kind (free_member module name) of
        Some (KConstant t) \<Rightarrow> map_option Some (lower_type t ArgsNone)
      | _ \<Rightarrow> Some None)"

definition module_member_special :: "string \<Rightarrow> string \<Rightarrow> bool" where
  "module_member_special module name \<longleftrightarrow>
     (case map_option dd_kind (free_member module name) of Some (KCustom _) \<Rightarrow> True | _ \<Rightarrow> False)"

definition module_closed :: "string \<Rightarrow> bool" where
  "module_closed module \<longleftrightarrow> is_free_module module"

section \<open>The guards of the tables\<close>

text \<open>A row names no type its receiver lacks, and only \<open>Vector\<close> delegates signatures.\<close>

definition row_fits :: "recv_shape \<Rightarrow> method_decl \<Rightarrow> bool" where
  "row_fits s decl \<longleftrightarrow> all_name_only s (md_params decl) \<and>
     (case md_ret decl of
        RetTy t \<Rightarrow> names_only s t
      | RetCustom \<Rightarrow> s = ShElem \<and> (md_name decl = ''sort'' \<or> md_name decl = ''flatten'')
      | _ \<Rightarrow> True)"

definition module_row_fits :: "module_decl \<Rightarrow> bool" where
  "module_row_fits decl \<longleftrightarrow>
     (case dd_kind decl of
        KCall required optional ret \<Rightarrow>
          list_all (\<lambda>p. lower_param p \<noteq> None) (required @ optional) \<and> names_only ShPlain ret
      | KConstant t \<Rightarrow> names_only ShPlain t
      | KCustom _ \<Rightarrow> True)"

definition record_row_fits :: "record_decl \<Rightarrow> bool" where
  "record_row_fits decl \<longleftrightarrow> names_only ShPlain (rd_ret decl) \<and>
     (case rd_kind decl of FieldMember \<Rightarrow> True | MethodMember ps \<Rightarrow> all_name_only ShPlain ps)"

lemma method_rows_fit: "list_all (\<lambda>(_, s, rows). list_all (row_fits s) rows) receivers"
  by code_simp

lemma module_rows_fit: "list_all (\<lambda>(_, rows). list_all module_row_fits rows) free_modules"
  by code_simp

lemma record_rows_fit: "list_all (\<lambda>(_, rows). list_all record_row_fits rows) record_tables"
  by code_simp

lemma vector_delegates:
  "find_row (\<lambda>d. md_name d = ''sort'') vector_methods \<noteq> None"
  "find_row (\<lambda>d. md_name d = ''flatten'') vector_methods \<noteq> None"
  by code_simp+

lemma row_sig_total: "row_fits (shape_of args) decl \<Longrightarrow> row_sig decl args \<noteq> None"
  using lower_total [of args] vector_delegates
  by (auto simp: row_fits_def row_sig_def vector_custom_method_def shape_of_def
      split: ret_desc.splits recv_args.splits bind_split)

lemma module_row_sig_total: "module_row_fits decl \<Longrightarrow> module_row_sig decl \<noteq> None"
proof (cases "dd_kind decl")
  case (KCall required optional ret)
  have those: "list_all (\<lambda>p. lower_param p \<noteq> None) ps \<Longrightarrow> those (map lower_param ps) \<noteq> None" for ps
    by (induction ps) auto
  assume "module_row_fits decl"
  with KCall those [of required] those [of optional] lower_total(1) [of ArgsNone ret] show ?thesis
    by (auto simp: module_row_fits_def module_row_sig_def shape_of_def)
qed (simp_all add: module_row_sig_def)

lemma record_row_sig_total: "record_row_fits decl \<Longrightarrow> record_row_sig decl \<noteq> None"
  using lower_total [of ArgsNone]
  by (auto simp: record_row_fits_def record_row_sig_def shape_of_def split: record_kind.splits bind_split)

lemma free_member_listed:
  "free_member module name = Some decl \<Longrightarrow>
    dd_name decl = name \<and> (\<exists>rows. (module, rows) \<in> set free_modules \<and> decl \<in> set rows)"
  unfolding free_member_def by (auto simp: Option.bind_eq_Some_conv dest!: find_row_Some)

section \<open>Agreement with the registry\<close>

text \<open>Every declared member has an id, under its bare name or under the name of its module.\<close>

definition registered :: "string \<Rightarrow> bool" where "registered name \<longleftrightarrow> name \<in> set (map fst builtins)"

lemma registered_id: "registered name \<Longrightarrow> builtin_id name \<noteq> None"
  by (auto simp: registered_def builtin_id_def find_pos_None_iff)

lemma builtins_registered: "list_all (\<lambda>d. registered (fst d)) builtins"
  by (simp add: list_all_iff registered_def)

lemmas registered_names =
  builtins_registered [unfolded builtins_def free_name_def method_name_def list.pred_inject fst_conv]

lemma methods_registered: "list_all (\<lambda>(_, _, rows). list_all (\<lambda>d. registered (md_name d)) rows) receivers"
  by (simp add: stdlib_tables mrow_def registered_names)

lemma records_registered: "list_all (\<lambda>(_, rows). list_all (\<lambda>d. registered (rd_name d)) rows) record_tables"
  by (simp add: stdlib_tables rrow_def registered_names)

text \<open>The receivers and records of the checker select tables of the library.\<close>

lemma receiver_table_rows:
  assumes "receiver_table recv = Some (rows, args)"
  shows "list_all (row_fits (shape_of args)) rows \<and> list_all (\<lambda>d. registered (md_name d)) rows"
  using assms method_rows_fit [unfolded receivers_def] methods_registered [unfolded receivers_def]
  by (cases recv) (auto simp: receiver_table_def shape_of_def split: if_splits)

lemma record_table_rows:
  assumes "record_table_of recv = Some rows"
  shows "list_all record_row_fits rows \<and> list_all (\<lambda>d. registered (rd_name d)) rows"
  using assms record_rows_fit [unfolded record_tables_def] records_registered [unfolded record_tables_def]
  by (cases recv) (auto simp: record_table_of_def)

definition callable_row :: "module_decl \<Rightarrow> bool" where
  "callable_row decl \<longleftrightarrow> (case dd_kind decl of KCall _ _ _ \<Rightarrow> True | _ \<Rightarrow> False)"

lemma modules_registered:
  "list_all (\<lambda>(m, rows). list_all (\<lambda>d. callable_row d \<longrightarrow> registered (m @ ''.'' @ dd_name d)) rows) free_modules"
  by (simp add: stdlib_tables drow_def registered_names callable_row_def)

lemma method_lookup_cases:
  obtains "method_lookup recv name = Some None"
  | decl sig args where "method_lookup recv name = row_sig decl args" "row_fits (shape_of args) decl" "registered name"
proof (cases "receiver_table recv")
  case None
  then show ?thesis by (intro that(1)) (simp add: method_lookup_def)
next
  case (Some ta)
  obtain rows args where ta: "ta = (rows, args)" by fastforce
  show ?thesis
  proof (cases "find_row (\<lambda>decl. md_name decl = name) rows")
    case None
    with Some ta show ?thesis by (intro that(1)) (simp add: method_lookup_def)
  next
    case (Some decl)
    with \<open>receiver_table recv = Some ta\<close> ta receiver_table_rows [of recv rows args] show ?thesis
      by (intro that(2) [of decl args]) (auto simp: method_lookup_def list_all_iff dest: find_row_Some)
  qed
qed

lemma record_member_cases:
  obtains "record_member recv name = Some None"
  | decl where "record_member recv name = map_option Some (record_row_sig decl)" "record_row_fits decl" "registered name"
proof (cases "Option.bind (record_table_of recv) (find_row (\<lambda>decl. rd_name decl = name))")
  case None
  then show ?thesis by (intro that(1)) (simp add: record_member_def)
next
  case (Some decl)
  then obtain rows where rows: "record_table_of recv = Some rows" "find_row (\<lambda>decl. rd_name decl = name) rows = Some decl"
    by (auto simp: Option.bind_eq_Some_conv)
  with Some record_table_rows [of recv rows] show ?thesis
    by (intro that(2) [of decl]) (auto simp: record_member_def list_all_iff dest: find_row_Some)
qed

lemma free_member_fits: "free_member module name = Some decl \<Longrightarrow> module_row_fits decl"
  using module_rows_fit by (fastforce simp: list_all_iff dest: free_member_listed)

lemma module_row_uncalled: "\<not> callable_row decl \<Longrightarrow> module_row_sig decl = Some None"
  by (auto simp: callable_row_def module_row_sig_def split: module_kind.splits)

lemma free_member_registered:
  assumes "free_member module name = Some decl" and "module_row_sig decl \<noteq> Some None"
  shows "registered (module @ ''.'' @ name)"
proof -
  obtain rows where rows: "(module, rows) \<in> set free_modules" "decl \<in> set rows" and name: "dd_name decl = name"
    using free_member_listed [OF assms(1)] by blast
  have called: "callable_row decl" using assms(2) module_row_uncalled by blast
  have "list_all (\<lambda>d. callable_row d \<longrightarrow> registered (module @ ''.'' @ dd_name d)) rows"
    using modules_registered rows(1) unfolding list_all_iff by blast
  then show ?thesis using rows(2) called name unfolding list_all_iff by blast
qed

lemma method_lookup_sound:
  "method_lookup recv name \<noteq> None \<and> (method_lookup recv name = Some None \<or> builtin_id name \<noteq> None)"
  by (rule method_lookup_cases [of recv name]) (use row_sig_total registered_id in force)+

lemma record_member_sound:
  "record_member recv name \<noteq> None \<and> (record_member recv name = Some None \<or> builtin_id name \<noteq> None)"
  by (rule record_member_cases [of recv name]) (use record_row_sig_total registered_id in force)+

lemma module_member_sound:
  "module_member module name \<noteq> None \<and>
    (module_member module name = Some None \<or> builtin_id (module @ ''.'' @ name) \<noteq> None)"
  using free_member_fits [of module name] free_member_registered [of module name] module_row_sig_total
    registered_id [of "module @ ''.'' @ name"]
  by (cases "free_member module name") (auto simp: module_member_def)

lemma module_constant_sound: "module_constant module name \<noteq> None"
  using free_member_fits [of module name] lower_total(1) [of ArgsNone]
  by (auto simp: module_constant_def module_row_fits_def shape_of_def split: option.splits module_kind.splits)



end
