(* ===== verification/Error_Sets.thy ===== *)
theory Error_Sets
  imports Hir_Tree Stdlib_Signatures "HOL-Library.AList" "HOL-Library.Char_ord" "HOL-Library.List_Lexorder"
begin

text \<open>
  What one body contributes to its error-set (\<open>brasa_errorset/src/lib.rs\<close>, \<open>collect.rs\<close>): tags and sets, the
  tables of the resolver read as tags, and the collector. A step of the collector yields a set and the
  state it threads: the sets of the lambda literals, where each task came from, and the diagnostics
  (\<open>None\<close> outside the checking pass). A hash table is an association list without duplicate keys.
\<close>

section \<open>Tags and sets\<close>

datatype primitive = PrInt | PrFloat | PrBool | PrString | PrChar | PrUnit

definition primitive_name :: "primitive \<Rightarrow> string" where
  "primitive_name p =
     (case p of
        PrInt \<Rightarrow> ''int'' | PrFloat \<Rightarrow> ''float'' | PrBool \<Rightarrow> ''bool'' | PrString \<Rightarrow> ''string''
      | PrChar \<Rightarrow> ''char'' | PrUnit \<Rightarrow> ''unit'')"

definition primitive_rank :: "primitive \<Rightarrow> nat" where
  "primitive_rank p =
     (case p of PrInt \<Rightarrow> 0 | PrFloat \<Rightarrow> 1 | PrBool \<Rightarrow> 2 | PrString \<Rightarrow> 3 | PrChar \<Rightarrow> 4 | PrUnit \<Rightarrow> 5)"

datatype error_tag = TagItem item_id | TagPrimitive primitive | TagOpaque string

definition tag_rank :: "error_tag \<Rightarrow> nat" where
  "tag_rank t = (case t of TagItem _ \<Rightarrow> 0 | TagPrimitive _ \<Rightarrow> 1 | TagOpaque _ \<Rightarrow> 2)"

text \<open>The order of the tags: items by index, then primitives, then names.\<close>

instantiation error_tag :: linorder
begin

definition less_eq_error_tag :: "error_tag \<Rightarrow> error_tag \<Rightarrow> bool" where
  "less_eq_error_tag s t \<longleftrightarrow>
     (case (s, t) of
        (TagItem a, TagItem b) \<Rightarrow> a \<le> b
      | (TagPrimitive a, TagPrimitive b) \<Rightarrow> primitive_rank a \<le> primitive_rank b
      | (TagOpaque a, TagOpaque b) \<Rightarrow> a \<le> b
      | _ \<Rightarrow> tag_rank s \<le> tag_rank t)"

definition less_error_tag :: "error_tag \<Rightarrow> error_tag \<Rightarrow> bool" where
  "less_error_tag s t \<longleftrightarrow> s \<le> t \<and> \<not> t \<le> s"

instance
proof
  have inj: "primitive_rank a = primitive_rank b \<Longrightarrow> a = b" for a b
    by (cases a; cases b) (simp_all add: primitive_rank_def)
  fix x y z :: error_tag
  show "x < y \<longleftrightarrow> x \<le> y \<and> \<not> y \<le> x" by (rule less_error_tag_def)
  show "x \<le> x" by (cases x) (simp_all add: less_eq_error_tag_def)
  show "x \<le> y \<Longrightarrow> y \<le> z \<Longrightarrow> x \<le> z"
    by (cases x; cases y; cases z) (auto simp: less_eq_error_tag_def tag_rank_def)
  show "x \<le> y \<Longrightarrow> y \<le> x \<Longrightarrow> x = y"
    by (cases x; cases y) (auto simp: less_eq_error_tag_def tag_rank_def intro: inj)
  show "x \<le> y \<or> y \<le> x"
    by (cases x; cases y) (auto simp: less_eq_error_tag_def tag_rank_def)
qed

end

text \<open>A set with a flag: an open set may have members that it does not list. Sets are ordered by
  inclusion, \<open>union_with\<close> is the supremum and the default set the least one.\<close>

datatype error_set = ErrorSet (es_tags: "error_tag set") (es_open: bool)

instantiation error_set :: bounded_semilattice_sup_bot
begin

definition bot_error_set :: error_set where "bot_error_set = ErrorSet {} False"

definition sup_error_set :: "error_set \<Rightarrow> error_set \<Rightarrow> error_set" where
  "sup_error_set s t = ErrorSet (es_tags s \<union> es_tags t) (es_open s \<or> es_open t)"

definition less_eq_error_set :: "error_set \<Rightarrow> error_set \<Rightarrow> bool" where
  "less_eq_error_set s t \<longleftrightarrow> es_tags s \<subseteq> es_tags t \<and> (es_open s \<longrightarrow> es_open t)"

definition less_error_set :: "error_set \<Rightarrow> error_set \<Rightarrow> bool" where
  "less_error_set s t \<longleftrightarrow> s \<le> t \<and> \<not> t \<le> s"

instance
  by standard (auto simp: less_error_set_def less_eq_error_set_def sup_error_set_def bot_error_set_def
      intro: error_set.expand)

end

lemmas error_set_order = less_eq_error_set_def sup_error_set_def bot_error_set_def

definition open_set :: error_set where "open_set = ErrorSet {} True"

definition tag_set :: "error_tag set \<Rightarrow> error_set" where "tag_set T = ErrorSet T False"

section \<open>Names as tags\<close>

definition tag_of :: "ty option \<Rightarrow> error_tag option" where
  "tag_of t =
     (case t of
        Some (TStruct i _) \<Rightarrow> Some (TagItem i)
      | Some (TEnum i _) \<Rightarrow> Some (TagItem i)
      | Some TInt \<Rightarrow> Some (TagPrimitive PrInt)
      | Some TFloat \<Rightarrow> Some (TagPrimitive PrFloat)
      | Some TBool \<Rightarrow> Some (TagPrimitive PrBool)
      | Some TString \<Rightarrow> Some (TagPrimitive PrString)
      | Some TChar \<Rightarrow> Some (TagPrimitive PrChar)
      | Some TUnit \<Rightarrow> Some (TagPrimitive PrUnit)
      | _ \<Rightarrow> None)"

definition caught_tag :: "hir \<Rightarrow> type_res \<Rightarrow> error_tag option" where
  "caught_tag H r =
     (case r of
        ResItem i \<Rightarrow> (case h_item H i of IStruct _ \<Rightarrow> Some (TagItem i) | IEnum _ \<Rightarrow> Some (TagItem i) | _ \<Rightarrow> None)
      | ResBuiltin BInt \<Rightarrow> Some (TagPrimitive PrInt)
      | ResBuiltin BFloat \<Rightarrow> Some (TagPrimitive PrFloat)
      | ResBuiltin BBool \<Rightarrow> Some (TagPrimitive PrBool)
      | ResBuiltin BString \<Rightarrow> Some (TagPrimitive PrString)
      | ResBuiltin BChar \<Rightarrow> Some (TagPrimitive PrChar)
      | ResBuiltin BUnit \<Rightarrow> Some (TagPrimitive PrUnit)
      | _ \<Rightarrow> None)"

definition slot_tag :: "hir \<Rightarrow> resolutions \<Rightarrow> catch_key \<Rightarrow> error_tag option" where
  "slot_tag H R key =
     (case catch_arm_native_errors R key of
        Some native \<Rightarrow> Some (TagOpaque native)
      | None \<Rightarrow> Option.bind (catch_arm_types R key) (caught_tag H))"

text \<open>The entry of a list of optional resolutions, when it has one.\<close>

definition listed :: "type_res option list option \<Rightarrow> nat \<Rightarrow> type_res option" where
  "listed rs n = Option.bind rs (\<lambda>rs. if n < length rs then rs ! n else None)"

definition throws_tag :: "hir \<Rightarrow> resolutions \<Rightarrow> def_ref \<Rightarrow> nat \<Rightarrow> error_tag option" where
  "throws_tag H R d n =
     (case throws_native_errors R (d, n) of
        Some native \<Rightarrow> Some (TagOpaque native)
      | None \<Rightarrow> Option.bind (listed (throws_types R d) n) (caught_tag H))"

definition iface_member_tag :: "hir \<Rightarrow> resolutions \<Rightarrow> item_id \<Rightarrow> nat \<Rightarrow> nat \<Rightarrow> error_tag option" where
  "iface_member_tag H R i m n =
     (case iface_member_throws_natives R (i, m, n) of
        Some native \<Rightarrow> Some (TagOpaque native)
      | None \<Rightarrow> Option.bind (listed (iface_member_throws R (i, m)) n) (caught_tag H))"

text \<open>\<open>filter_map\<close> over the indices of a list of names.\<close>

definition named_tags :: "(nat \<Rightarrow> error_tag option) \<Rightarrow> nat \<Rightarrow> error_tag set" where
  "named_tags f n = set (List.map_filter f [0..<n])"

lemma finite_named_tags: "finite (named_tags f n)"
  by (simp add: named_tags_def)

end
