(* ===== verification/Error_Collector.thy ===== *)
theory Error_Collector
  imports Error_Sets
begin

text \<open>
  The walk over one body (\<open>brasa_errorset/src/collect.rs\<close>, \<open>dump.rs\<close>) and the checks of one \<open>catch\<close> that it
  runs on the way (\<open>check.rs\<close>). Each node combines the steps of its children; an argument comes with its
  own step and, for a lambda literal, with the step of the lambda's body.
\<close>

section \<open>State\<close>

record diagnostic =
  dg_code :: string
  dg_span :: span
  dg_message :: string
  dg_label :: string
  dg_notes :: "string list"

type_synonym ('k, 'v) table = "('k \<times> 'v) list"

record collector =
  co_hir :: hir
  co_res :: resolutions
  co_types :: type_tables
  co_sets :: "(def_ref, error_set) table"

record col_state =
  cl_lambdas :: "(expr_id, error_set) table"
  cl_by_call :: "(expr_id, error_set) table"
  cl_by_local :: "(local_id, error_set) table"
  cl_diags :: "diagnostic list option"

type_synonym collect = "col_state \<Rightarrow> error_set \<times> col_state"

definition yields :: "error_set \<Rightarrow> collect" where
  "yields s st = (s, st)"

definition also_with :: "collect \<Rightarrow> collect \<Rightarrow> collect" where
  "also_with m n st =
     (case m st of (s, st1) \<Rightarrow>
      case n st1 of (t, st2) \<Rightarrow> (sup s t, st2))"

primrec all_of :: "collect list \<Rightarrow> collect" where
  "all_of [] = yields bot"
| "all_of (m # ms) = also_with m (all_of ms)"

text \<open>The result is dropped, the effects stay.\<close>

definition muted :: "collect \<Rightarrow> collect" where
  "muted m st = (bot, snd (m st))"

definition get_set :: "('k, error_set) table \<Rightarrow> 'k \<Rightarrow> error_set" where
  "get_set t k = (case map_of t k of Some s \<Rightarrow> s | None \<Rightarrow> bot)"

definition expr_type :: "collector \<Rightarrow> expr \<Rightarrow> ty option" where
  "expr_type E e = expr_types (co_types E) (expr_id e)"

definition res_of :: "collector \<Rightarrow> expr \<Rightarrow> res option" where
  "res_of E e = expr_res (co_res E) (expr_id e)"

section \<open>Names\<close>

definition item_name :: "hir \<Rightarrow> item_id \<Rightarrow> string" where
  "item_name H i =
     (case h_item H i of
        IFunc d \<Rightarrow> fd_name d
      | IStruct d \<Rightarrow> sd_name d
      | IEnum d \<Rightarrow> ed_name d
      | IInterface d \<Rightarrow> id_name d
      | ITopLet name _ \<Rightarrow> name
      | ITest name _ _ \<Rightarrow> ''test \"'' @ name @ ''\"''
      | _ \<Rightarrow> ''<item>'')"

definition tag_name :: "hir \<Rightarrow> error_tag \<Rightarrow> string" where
  "tag_name H t =
     (case t of TagItem i \<Rightarrow> item_name H i | TagPrimitive p \<Rightarrow> primitive_name p | TagOpaque name \<Rightarrow> name)"

definition def_ref_name :: "hir \<Rightarrow> def_ref \<Rightarrow> string" where
  "def_ref_name H d =
     (case d of
        DefItem i \<Rightarrow> item_name H i
      | DefMethod owner ix \<Rightarrow>
          item_name H owner @ ''.'' @
            (case h_item H owner of
               IStruct sd \<Rightarrow> if ix < length (sd_methods sd) then fd_name (sd_methods sd ! ix) else ''<method>''
             | _ \<Rightarrow> ''<method>''))"

primrec join_names :: "string \<Rightarrow> string list \<Rightarrow> string" where
  "join_names sep [] = ''''"
| "join_names sep (x # xs) = (if xs = [] then x else x @ sep @ join_names sep xs)"

definition tag_list :: "hir \<Rightarrow> error_tag set \<Rightarrow> string" where
  "tag_list H T =
     (case map (\<lambda>t. ''`'' @ tag_name H t @ ''`'') (sorted_list_of_set T) of
        [] \<Rightarrow> ''''
      | [only] \<Rightarrow> only
      | names \<Rightarrow> join_names '', '' (butlast names) @ '' and '' @ last names)"

definition render_throws_clause :: "hir \<Rightarrow> error_set \<Rightarrow> string" where
  "render_throws_clause H s =
     (if es_open s then ''throws <not fully inferred>''
      else if es_tags s = {} then ''throws never''
      else ''throws '' @ join_names '' | '' (map (tag_name H) (sorted_list_of_set (es_tags s))))"

section \<open>Calls\<close>

text \<open>An argument with its step and with the step of its body, should it be a lambda literal.\<close>

type_synonym arg_part = "expr \<times> collect \<times> collect"

definition lambda_literal :: "expr \<Rightarrow> bool" where
  "lambda_literal e = (case expr_node e of ELambda _ \<Rightarrow> True | _ \<Rightarrow> False)"

definition record_lambda :: "expr_id \<Rightarrow> collect \<Rightarrow> collect" where
  "record_lambda i m st =
     (case m st of (s, st1) \<Rightarrow> (s, st1\<lparr>cl_lambdas := AList.update i s (cl_lambdas st1)\<rparr>))"

definition plain_args :: "arg_part list \<Rightarrow> collect" where
  "plain_args args = all_of (map (\<lambda>(a, m, b). m) args)"

definition hof_arg :: "collector \<Rightarrow> arg_part \<Rightarrow> collect" where
  "hof_arg E arg =
     (case arg of (a, m, b) \<Rightarrow>
        if lambda_literal a then record_lambda (expr_id a) b
        else also_with m (yields (case expr_type E a of Some (TFn _ _) \<Rightarrow> open_set | _ \<Rightarrow> bot)))"

definition hof_args :: "collector \<Rightarrow> arg_part list \<Rightarrow> collect" where
  "hof_args E args = all_of (map (hof_arg E) args)"

definition ident_callee :: "collector \<Rightarrow> expr \<Rightarrow> error_set" where
  "ident_callee E callee =
     (case res_of E callee of
        Some (RBuiltin _) \<Rightarrow> bot
      | Some (RModule _) \<Rightarrow> bot
      | Some (RItem i) \<Rightarrow>
          (case h_item (co_hir E) i of IFunc _ \<Rightarrow> get_set (co_sets E) (DefItem i) | _ \<Rightarrow> open_set)
      | _ \<Rightarrow> open_set)"

definition is_module_ref :: "collector \<Rightarrow> expr \<Rightarrow> bool" where
  "is_module_ref E e \<longleftrightarrow>
     (case (expr_node e, res_of E e) of (EIdent _, Some (RModule _)) \<Rightarrow> True | _ \<Rightarrow> False)"

definition std_module_of :: "collector \<Rightarrow> expr \<Rightarrow> string option" where
  "std_module_of E recv =
     (case res_of E recv of
        Some (RModule i) \<Rightarrow> (case h_item (co_hir E) i of IImport path \<Rightarrow> std_module path | _ \<Rightarrow> None)
      | _ \<Rightarrow> None)"

definition native_set :: "string list \<Rightarrow> error_set" where
  "native_set names = tag_set (TagOpaque ` set names)"

definition method_errors :: "collector \<Rightarrow> item_id \<Rightarrow> string \<Rightarrow> error_set" where
  "method_errors E i name =
     (case h_item (co_hir E) i of
        IStruct d \<Rightarrow>
          (case find_pos (\<lambda>m. fd_name m = name) (sd_methods d) of
             Some ix \<Rightarrow> get_set (co_sets E) (DefMethod i ix)
           | None \<Rightarrow> if name = ''toString'' then bot else open_set)
      | _ \<Rightarrow> open_set)"

definition constraint_member_throws :: "collector \<Rightarrow> def_ref \<Rightarrow> nat \<Rightarrow> string \<Rightarrow> error_tag set option" where
  "constraint_member_throws E owner ix name =
     (case constraint_res (co_res E) (owner, ix) of
        Some (ResItem iface) \<Rightarrow>
          (case h_item (co_hir E) iface of
             IInterface d \<Rightarrow>
               Option.bind (find_pos (\<lambda>m. im_name m = name) (id_methods d)) (\<lambda>m.
                 case im_throws (id_methods d ! m) of
                   None \<Rightarrow> None
                 | Some ThrowsNever \<Rightarrow> Some {}
                 | Some (ThrowsTypes names) \<Rightarrow>
                     Some (named_tags (iface_member_tag (co_hir E) (co_res E) iface m) (length names)))
           | _ \<Rightarrow> None)
      | _ \<Rightarrow> None)"

text \<open>\<open>scope.spawn\<close> with a lambda literal records the set of the block against the call.\<close>

definition record_spawn :: "expr_id \<Rightarrow> arg_part list \<Rightarrow> collect" where
  "record_spawn i args st =
     (case args of
        [(a, m, b)] \<Rightarrow>
          if lambda_literal a then
            (let st1 = snd (record_lambda (expr_id a) b st)
             in (bot, case map_of (cl_lambdas st1) (expr_id a) of
                        Some spawned \<Rightarrow> st1\<lparr>cl_by_call := AList.update i spawned (cl_by_call st1)\<rparr>
                      | None \<Rightarrow> st1))
          else (bot, st)
      | _ \<Rightarrow> (bot, st))"

definition task_origin :: "collector \<Rightarrow> expr \<Rightarrow> collect" where
  "task_origin E recv st =
     (case map_of (cl_by_call st) (expr_id recv) of
        Some s \<Rightarrow> (s, st)
      | None \<Rightarrow>
          (case res_of E recv of
             Some (RLocal l) \<Rightarrow> (get_set (cl_by_local st) l, st)
           | _ \<Rightarrow> (bot, st)))"

definition common_throws :: "collector \<Rightarrow> string \<Rightarrow> ty \<Rightarrow> error_set" where
  "common_throws E name alt =
     (case alt of TStruct i _ \<Rightarrow> method_errors E i name | _ \<Rightarrow> native_set (method_throws alt name))"

definition method_part :: "collector \<Rightarrow> expr_id \<Rightarrow> expr \<Rightarrow> string \<Rightarrow> arg_part list \<Rightarrow> collect" where
  "method_part E i recv name args =
     (case expr_type E recv of
        None \<Rightarrow> also_with (plain_args args) (yields open_set)
      | Some t \<Rightarrow>
          (case t of
             TStruct s _ \<Rightarrow> also_with (plain_args args) (yields (method_errors E s name))
           | _ \<Rightarrow>
               if t = TConcurrentScope \<and> name = ''spawn'' then
                 also_with (record_spawn i args)
                   (also_with (hof_args E args) (yields (native_set (method_throws t name))))
               else if (case t of TTask _ \<Rightarrow> True | _ \<Rightarrow> False) \<and> name = ''value'' then task_origin E recv
               else if method_throws t name \<noteq> [] then
                 also_with (hof_args E args) (yields (native_set (method_throws t name)))
               else
                 (case t of
                    TCommon alts \<Rightarrow> also_with (plain_args args) (all_of (map (\<lambda>a. yields (common_throws E name a)) alts))
                  | TGeneric owner ix \<Rightarrow>
                      also_with (plain_args args)
                        (yields (case constraint_member_throws E owner ix name of
                           Some T \<Rightarrow> tag_set T | None \<Rightarrow> open_set))
                  | TFn _ _ \<Rightarrow> also_with (plain_args args) (yields open_set)
                  | TUnknown \<Rightarrow> also_with (plain_args args) (yields open_set)
                  | TNever \<Rightarrow> also_with (plain_args args) (yields open_set)
                  | _ \<Rightarrow> hof_args E args)))"

definition method_call :: "collector \<Rightarrow> expr_id \<Rightarrow> expr \<Rightarrow> string \<Rightarrow> collect \<Rightarrow> arg_part list \<Rightarrow> collect" where
  "method_call E i recv name m_recv args =
     (if is_module_ref E recv then
        also_with (plain_args args)
          (yields (case std_module_of E recv of
             Some module \<Rightarrow> native_set (module_throws module name) | None \<Rightarrow> bot))
      else also_with m_recv (method_part E i recv name args))"

text \<open>\<open>m_sub\<close> is the step of the callee: of the receiver of a method, or of the body of a lambda.\<close>

definition call_node :: "collector \<Rightarrow> expr_id \<Rightarrow> expr \<Rightarrow> collect \<Rightarrow> arg_part list \<Rightarrow> collect" where
  "call_node E i callee m_sub args =
     (if (case res_of E callee of Some (RItem _) \<Rightarrow> True | _ \<Rightarrow> False) then
        also_with (plain_args args) (yields (ident_callee E callee))
      else
        (case expr_node callee of
           EField recv name \<Rightarrow> method_call E i recv name m_sub args
         | EIdent _ \<Rightarrow>
             if res_of E callee = Some (RBuiltin BvConcurrent) then hof_args E args
             else also_with (plain_args args) (yields (ident_callee E callee))
         | ELambda _ \<Rightarrow> also_with (plain_args args) (record_lambda (expr_id callee) m_sub)
         | _ \<Rightarrow> also_with m_sub (also_with (plain_args args) (yields open_set))))"

section \<open>Catching\<close>

type_synonym catch_arms = "(catch_type list \<times> expr option \<times> arm_body) list"

primrec subtract_slots :: "collector \<Rightarrow> expr_id \<Rightarrow> nat \<Rightarrow> nat \<Rightarrow> catch_type list \<Rightarrow> error_set \<Rightarrow> error_set" where
  "subtract_slots E i ax tx [] s = s"
| "subtract_slots E i ax tx (t # ts) s =
     subtract_slots E i ax (Suc tx) ts
       (case t of
          CtWildcard _ \<Rightarrow> ErrorSet {} False
        | CtNamed _ _ \<Rightarrow>
            (case slot_tag (co_hir E) (co_res E) (i, ax, tx) of
               Some tag \<Rightarrow> ErrorSet (es_tags s - {tag}) (es_open s)
             | None \<Rightarrow> s))"

text \<open>A guarded arm subtracts nothing.\<close>

primrec subtract_arms :: "collector \<Rightarrow> expr_id \<Rightarrow> nat \<Rightarrow> catch_arms \<Rightarrow> error_set \<Rightarrow> error_set" where
  "subtract_arms E i ax [] s = s"
| "subtract_arms E i ax (arm # arms) s =
     subtract_arms E i (Suc ax) arms
       (case arm of (ts, guard, _) \<Rightarrow> if guard \<noteq> None then s else subtract_slots E i ax 0 ts s)"

definition open_set_note :: string where
  "open_set_note = ''an indirect call or a throw of unknown type makes the set open''"

definition err :: "string \<Rightarrow> span \<Rightarrow> string \<Rightarrow> string \<Rightarrow> diagnostic" where
  "err c sp message label =
     \<lparr>dg_code = c, dg_span = sp, dg_message = message, dg_label = label, dg_notes = []\<rparr>"

definition with_note :: "diagnostic \<Rightarrow> string \<Rightarrow> diagnostic" where
  "with_note d note = d\<lparr>dg_notes := dg_notes d @ [note]\<rparr>"

definition ambient :: "error_tag \<Rightarrow> bool" where
  "ambient tag \<longleftrightarrow> tag = TagOpaque concurrent_cancelled"

definition unreachable_slot :: "collector \<Rightarrow> error_set \<Rightarrow> catch_key \<Rightarrow> catch_type \<Rightarrow> diagnostic list" where
  "unreachable_slot E subject key t =
     (case t of
        CtWildcard _ \<Rightarrow> []
      | CtNamed name sp \<Rightarrow>
          (case slot_tag (co_hir E) (co_res E) key of
             None \<Rightarrow> []
           | Some tag \<Rightarrow>
               if ambient tag \<or> tag \<in> es_tags subject then []
               else [err ''E001'' sp
                  (''unreachable `catch` arm: `'' @ tag_name (co_hir E) tag @ ''` is not in the error-set here'')
                  (''this expression cannot throw `'' @ name @ ''`'')]))"

definition unreachable_arms :: "collector \<Rightarrow> expr_id \<Rightarrow> catch_arms \<Rightarrow> error_set \<Rightarrow> diagnostic list" where
  "unreachable_arms E i arms subject =
     concat (map (\<lambda>(ax, ts, _, _).
       concat (map (\<lambda>(tx, t). unreachable_slot E subject (i, ax, tx) t) (zip [0..<length ts] ts)))
       (zip [0..<length arms] arms))"

text \<open>The tags that the unguarded arms leave, and whether one of them is \<open>_\<close>.\<close>

primrec remaining_slots ::
    "collector \<Rightarrow> expr_id \<Rightarrow> nat \<Rightarrow> nat \<Rightarrow> catch_type list \<Rightarrow> error_tag set \<times> bool \<Rightarrow> error_tag set \<times> bool" where
  "remaining_slots E i ax tx [] r = r"
| "remaining_slots E i ax tx (t # ts) r =
     remaining_slots E i ax (Suc tx) ts
       (case t of
          CtWildcard _ \<Rightarrow> (fst r, True)
        | CtNamed _ _ \<Rightarrow>
            (case slot_tag (co_hir E) (co_res E) (i, ax, tx) of
               Some tag \<Rightarrow> (fst r - {tag}, snd r)
             | None \<Rightarrow> r))"

primrec remaining_arms ::
    "collector \<Rightarrow> expr_id \<Rightarrow> nat \<Rightarrow> catch_arms \<Rightarrow> error_tag set \<times> bool \<Rightarrow> error_tag set \<times> bool" where
  "remaining_arms E i ax [] r = r"
| "remaining_arms E i ax (arm # arms) r =
     remaining_arms E i (Suc ax) arms
       (case arm of (ts, guard, _) \<Rightarrow> if guard \<noteq> None then r else remaining_slots E i ax 0 ts r)"

definition useless_wildcards :: "catch_arms \<Rightarrow> diagnostic list" where
  "useless_wildcards arms =
     concat (map (\<lambda>(ts, _, _). concat (map (\<lambda>t.
       case t of
         CtWildcard sp \<Rightarrow>
           [err ''E001'' sp ''`_` is unreachable: every error is already handled'' ''`_` can never match here'']
       | CtNamed _ _ \<Rightarrow> []) ts)) arms)"

definition check_exhaustive :: "collector \<Rightarrow> expr_id \<Rightarrow> span \<Rightarrow> catch_arms \<Rightarrow> error_set \<Rightarrow> diagnostic list" where
  "check_exhaustive E i sp arms subject =
     (if es_open subject then
        [with_note (err ''E003'' sp ''catch! cannot be verified: the subject's error-set is open''
           ''the error-set of this expression is open'') open_set_note]
      else case remaining_arms E i 0 arms (es_tags subject, False) of
        (remaining, wildcard) \<Rightarrow>
          if remaining = {} then useless_wildcards arms
          else if wildcard then []
          else [err ''E002'' sp (''catch! does not handle '' @ tag_list (co_hir E) remaining) ''add arms or `_`''])"

definition catch_checks :: "collector \<Rightarrow> expr_id \<Rightarrow> span \<Rightarrow> bool \<Rightarrow> catch_arms \<Rightarrow> error_set \<Rightarrow> diagnostic list" where
  "catch_checks E i sp exhaustive arms subject =
     (if es_open subject then [] else unreachable_arms E i arms subject) @
     (if exhaustive then check_exhaustive E i sp arms subject else [])"

text \<open>\<open>m_arms\<close> are the steps of the guards and bodies of the arms, in their order.\<close>

definition catch_node ::
    "collector \<Rightarrow> expr_id \<Rightarrow> span \<Rightarrow> bool \<Rightarrow> catch_arms \<Rightarrow> collect \<Rightarrow> collect \<Rightarrow> collect" where
  "catch_node E i sp exhaustive arms m_subject m_arms st =
     (case m_subject st of (s, st1) \<Rightarrow>
      case m_arms (st1\<lparr>cl_diags := map_option (\<lambda>ds. ds @ catch_checks E i sp exhaustive arms s) (cl_diags st1)\<rparr>) of
        (t, st2) \<Rightarrow> (sup (subtract_arms E i 0 arms s) t, st2))"

section \<open>The walk\<close>

text \<open>\<open>throw\<close> adds the tag of the thrown type, and a \<open>let\<close> carries the set of a spawned block from the call
  onto the binding.\<close>

definition thrown :: "collector \<Rightarrow> expr \<Rightarrow> error_set" where
  "thrown E e = (case tag_of (expr_type E e) of Some tag \<Rightarrow> tag_set {tag} | None \<Rightarrow> open_set)"

definition let_node :: "collector \<Rightarrow> stmt_id \<Rightarrow> expr \<Rightarrow> collect \<Rightarrow> collect" where
  "let_node E i e m st =
     (case m st of (s, st1) \<Rightarrow>
       (s, case (map_of (cl_by_call st1) (expr_id e), stmt_locals (co_res E) i) of
             (Some spawned, Some l) \<Rightarrow> st1\<lparr>cl_by_local := AList.update l spawned (cl_by_local st1)\<rparr>
           | _ \<Rightarrow> st1))"

function (sequential) collect_expr :: "collector \<Rightarrow> expr \<Rightarrow> collect"
  and collect_stmt :: "collector \<Rightarrow> stmt \<Rightarrow> collect"
  and collect_body :: "collector \<Rightarrow> arm_body \<Rightarrow> collect" where
  "collect_expr E (Expr i sp (ECall callee args)) =
     call_node E i callee
       (case callee of
          Expr j sp' (EField recv name) \<Rightarrow> collect_expr E recv
        | Expr j sp' (ELambda b) \<Rightarrow> collect_body E b
        | _ \<Rightarrow> collect_expr E callee)
       (map (\<lambda>a. (a, collect_expr E a,
          (case a of Expr j sp' (ELambda b) \<Rightarrow> collect_body E b | _ \<Rightarrow> yields bot))) args)"
| "collect_expr E (Expr i sp (EField recv name)) = collect_expr E recv"
| "collect_expr E (Expr i sp (EIndex recv ix)) = all_of [collect_expr E recv, collect_expr E ix]"
| "collect_expr E (Expr i sp (EUnary u e)) = collect_expr E e"
| "collect_expr E (Expr i sp (EBinary b x y)) = all_of [collect_expr E x, collect_expr E y]"
| "collect_expr E (Expr i sp (EOptionWrap e)) = collect_expr E e"
| "collect_expr E (Expr i sp (EToString e)) = collect_expr E e"
| "collect_expr E (Expr i sp (ELambda b)) = muted (record_lambda i (collect_body E b))"
| "collect_expr E (Expr i sp (EIf branches els)) =
     all_of (map (\<lambda>(c, b). also_with (collect_expr E c) (all_of (map (collect_stmt E) b))) branches @
       (case els of None \<Rightarrow> [] | Some b \<Rightarrow> [all_of (map (collect_stmt E) b)]))"
| "collect_expr E (Expr i sp (EMatch scrutinee arms)) =
     also_with (collect_expr E scrutinee)
       (all_of (map (\<lambda>(p, g, b). also_with
          (case g of None \<Rightarrow> yields bot | Some e \<Rightarrow> collect_expr E e) (collect_body E b)) arms))"
| "collect_expr E (Expr i sp (EVector es)) = all_of (map (collect_expr E) es)"
| "collect_expr E (Expr i sp (EMap ps)) = all_of (map (\<lambda>(k, v). also_with (collect_expr E k) (collect_expr E v)) ps)"
| "collect_expr E (Expr i sp (ETuple es)) = all_of (map (collect_expr E) es)"
| "collect_expr E (Expr i sp (EStruct fs)) = all_of (map (\<lambda>(x, v). collect_expr E v) fs)"
| "collect_expr E (Expr i sp (ERange lo hi incl)) = all_of [collect_expr E lo, collect_expr E hi]"
| "collect_expr E (Expr i sp (ECatch subject exhaustive arms)) =
     catch_node E i sp exhaustive arms (collect_expr E subject)
       (all_of (map (\<lambda>(ts, g, b). also_with
          (case g of None \<Rightarrow> yields bot | Some e \<Rightarrow> collect_expr E e) (collect_body E b)) arms))"
| "collect_expr E (Expr i sp (EEnum name args)) = all_of (map (collect_expr E) args)"
| "collect_expr E (Expr i sp n) = yields bot"
| "collect_stmt E (Stmt i sp (SLet e)) = let_node E i e (collect_expr E e)"
| "collect_stmt E (Stmt i sp (SAssign target e)) = all_of [collect_expr E target, collect_expr E e]"
| "collect_stmt E (Stmt i sp (SReturn v)) = (case v of None \<Rightarrow> yields bot | Some e \<Rightarrow> collect_expr E e)"
| "collect_stmt E (Stmt i sp (SThrow e)) = also_with (collect_expr E e) (yields (thrown E e))"
| "collect_stmt E (Stmt i sp (SIf branches els)) =
     all_of (map (\<lambda>(c, b). also_with (collect_expr E c) (all_of (map (collect_stmt E) b))) branches @
       (case els of None \<Rightarrow> [] | Some b \<Rightarrow> [all_of (map (collect_stmt E) b)]))"
| "collect_stmt E (Stmt i sp (SWhile c b)) = also_with (collect_expr E c) (all_of (map (collect_stmt E) b))"
| "collect_stmt E (Stmt i sp (SFor p e b)) = also_with (collect_expr E e) (all_of (map (collect_stmt E) b))"
| "collect_stmt E (Stmt i sp (SExpr e)) = collect_expr E e"
| "collect_stmt E (Stmt i sp n) = yields bot"
| "collect_body E (AExpr e) = collect_expr E e"
| "collect_body E (ABlock b) = all_of (map (collect_stmt E) b)"
  by pat_completeness auto
termination
  by (relation "measure (\<lambda>x. case x of
        Inl (_, e) \<Rightarrow> size e | Inr (Inl (_, s)) \<Rightarrow> size s | Inr (Inr (_, b)) \<Rightarrow> size b)")
     (auto dest!: hir_size)

abbreviation collect_block :: "collector \<Rightarrow> stmt list \<Rightarrow> collect" where
  "collect_block E b \<equiv> all_of (map (collect_stmt E) b)"

end
