(* ===== verification/Error_Inference.thy ===== *)
theory Error_Inference
  imports Error_Collector "HOL-Library.While_Combinator"
begin

text \<open>
  The inference of error-sets (\<open>infer\<close> of \<open>brasa_errorset/src/lib.rs\<close>): passes over every body until
  the sets stand still, then one checking pass, and the checks of contracts (\<open>check.rs\<close>). The loop is a
  \<open>while_option\<close>: \<open>None\<close> would be a loop that never ends.
\<close>

section \<open>Contracts\<close>

definition func_of :: "hir \<Rightarrow> def_ref \<Rightarrow> func_def option" where
  "func_of H d =
     (case d of
        DefItem i \<Rightarrow> (case h_item H i of IFunc f \<Rightarrow> Some f | _ \<Rightarrow> None)
      | DefMethod owner ix \<Rightarrow>
          (case h_item H owner of
             IStruct sd \<Rightarrow> if ix < length (sd_methods sd) then Some (sd_methods sd ! ix) else None
           | _ \<Rightarrow> None))"

definition reject_declared_panics :: "(string \<times> span) list \<Rightarrow> diagnostic list" where
  "reject_declared_panics names =
     concat (map (\<lambda>(name, sp).
       if take 7 name = ''panics.'' then
         [with_note (err ''E006'' sp (''`throws` cannot name a panic: `'' @ name @ ''`'') ''a panic is not an error'')
            ''panics never enter an error-set: drop it here and name it in a `catch` arm instead'']
       else []) names)"

definition undeclared :: "error_tag set \<Rightarrow> error_set \<Rightarrow> error_tag list" where
  "undeclared declared s = filter (\<lambda>tag. tag \<notin> declared) (sorted_list_of_set (es_tags s))"

definition declared_tags :: "hir \<Rightarrow> resolutions \<Rightarrow> def_ref \<Rightarrow> (string \<times> span) list \<Rightarrow> error_tag set" where
  "declared_tags H R d names = named_tags (throws_tag H R d) (length names)"

definition throws_contract ::
    "hir \<Rightarrow> resolutions \<Rightarrow> (def_ref, error_set) table \<Rightarrow> def_ref \<Rightarrow> diagnostic list" where
  "throws_contract H R sets d =
     (case (func_of H d, map_of sets d) of
        (Some f, Some s) \<Rightarrow>
          (let sp = fd_span f; name = def_ref_name H d in
           case fd_throws f of
             None \<Rightarrow> []
           | Some ThrowsNever \<Rightarrow>
               if es_tags s \<noteq> {} then
                 [err ''E005'' sp (''`'' @ name @ ''` declares `throws never` but can throw '' @ tag_list H (es_tags s))
                    ''this function can throw'']
               else if es_open s then
                 [with_note (err ''E005'' sp (''cannot verify `throws never`: `'' @ name @ ''`'' @ CHR 0x27 # ''s error-set is open'')
                    ''the error-set of this function is open'') open_set_note]
               else []
           | Some (ThrowsTypes names) \<Rightarrow>
               reject_declared_panics names @
               map (\<lambda>tag. err ''E004'' sp (''`'' @ name @ ''` throws `'' @ tag_name H tag @ ''` but does not declare it'')
                   (''this function can throw `'' @ tag_name H tag @ ''`''))
                 (undeclared (declared_tags H R d names) s) @
               (if es_open s then
                  [with_note (err ''E004'' sp (''cannot verify `throws`: `'' @ name @ ''`'' @ CHR 0x27 # ''s error-set is open'')
                     ''the error-set of this function is open'') open_set_note]
                else []))
      | _ \<Rightarrow> [])"

definition em_dash :: string where "em_dash = [CHR 0xE2, CHR 0x80, CHR 0x94]"

definition render_reach_note :: string where
  "render_reach_note =
     ''`toString` is reached from `puts`, string interpolation, and every container, `Option`, tuple, and enum that renders its elements, as well as from error reporting itself ''
       @ em_dash @ '' a failure there has nowhere left to be reported''"

definition render_repair_note :: string where
  "render_repair_note =
     ''handle the failure inside `toString` with a `catch` and render a fallback, or move the fallible work to a method with another name''"

definition render_contract :: "hir \<Rightarrow> (def_ref, error_set) table \<Rightarrow> def_ref \<Rightarrow> diagnostic list" where
  "render_contract H sets d =
     (case (d, func_of H d, map_of sets d) of
        (DefMethod _ _, Some f, Some s) \<Rightarrow>
          if fd_name f \<noteq> ''toString'' then []
          else
            (let sp = fd_span f; name = def_ref_name H d;
                 noted = (\<lambda>d. [with_note (with_note d render_reach_note) render_repair_note]) in
             if es_tags s \<noteq> {} then
               noted (err ''E007'' sp
                 (''`'' @ name @ ''` can throw '' @ tag_list H (es_tags s) @ '': rendering has to be infallible'')
                 ''this method can throw'')
             else if es_open s then
               noted (with_note (err ''E007'' sp
                 (''cannot verify that `'' @ name @ ''` is infallible: its error-set is open'')
                 ''the error-set of this method is open'') open_set_note)
             else [])
      | _ \<Rightarrow> [])"

text \<open>What a member of an interface promises: nothing, or at most these tags.\<close>

definition member_promise :: "hir \<Rightarrow> resolutions \<Rightarrow> item_id \<Rightarrow> nat \<Rightarrow> iface_member \<Rightarrow> error_tag set option" where
  "member_promise H R iface m member =
     (case im_throws member of
        None \<Rightarrow> None
      | Some ThrowsNever \<Rightarrow> Some {}
      | Some (ThrowsTypes names) \<Rightarrow> Some (named_tags (iface_member_tag H R iface m) (length names)))"

definition iface_member_contract ::
    "hir \<Rightarrow> resolutions \<Rightarrow> (def_ref, error_set) table \<Rightarrow> item_id \<Rightarrow> hir_struct \<Rightarrow> item_id \<Rightarrow> hir_interface \<Rightarrow>
     span \<Rightarrow> nat \<times> iface_member \<Rightarrow> diagnostic list" where
  "iface_member_contract H R sets s sd i iface sp = (\<lambda>(m, member).
     case (member_promise H R i m member, find_pos (\<lambda>f. fd_name f = im_name member) (sd_methods sd)) of
       (Some declared, Some ix) \<Rightarrow>
         (case map_of sets (DefMethod s ix) of
            None \<Rightarrow> []
          | Some es \<Rightarrow>
              map (\<lambda>tag. err ''E008'' sp
                  (''`'' @ sd_name sd @ ''.'' @ im_name member @ ''` throws `'' @ tag_name H tag @ ''`, which `''
                    @ id_name iface @ ''.'' @ im_name member @ ''` does not declare'')
                  (''`'' @ sd_name sd @ ''` is used as `'' @ id_name iface @ ''` here''))
                (undeclared declared es) @
              (if es_open es then
                 [with_note (err ''E008'' sp
                    (''cannot verify `'' @ id_name iface @ ''.'' @ im_name member @ ''`'' @ CHR 0x27 # ''s contract: `''
                      @ sd_name sd @ ''.'' @ im_name member @ ''`'' @ CHR 0x27 # ''s error-set is open'')
                    (''`'' @ sd_name sd @ ''` is used as `'' @ id_name iface @ ''` here'')) open_set_note]
               else []))
     | _ \<Rightarrow> [])"

definition iface_use_contract ::
    "hir \<Rightarrow> resolutions \<Rightarrow> (def_ref, error_set) table \<Rightarrow> item_id \<times> item_id \<times> span \<Rightarrow> diagnostic list" where
  "iface_use_contract H R sets = (\<lambda>(s, i, sp).
     case (h_item H s, h_item H i) of
       (IStruct sd, IInterface iface) \<Rightarrow>
         concat (map (iface_member_contract H R sets s sd i iface sp)
           (zip [0..<length (id_methods iface)] (id_methods iface)))
     | _ \<Rightarrow> [])"

text \<open>Every pair of a struct and an interface is reported once.\<close>

primrec iface_throws_contracts ::
    "hir \<Rightarrow> resolutions \<Rightarrow> (def_ref, error_set) table \<Rightarrow> (item_id \<times> item_id) list \<Rightarrow>
     (item_id \<times> item_id \<times> span) list \<Rightarrow> diagnostic list" where
  "iface_throws_contracts H R sets seen [] = []"
| "iface_throws_contracts H R sets seen (u # us) =
     (let pair = (fst u, fst (snd u)) in
      if pair \<in> set seen then iface_throws_contracts H R sets seen us
      else iface_use_contract H R sets u @ iface_throws_contracts H R sets (pair # seen) us)"

section \<open>The fixpoint\<close>

text \<open>The bodies under the roots, in the order of their declaration.\<close>

definition item_defs :: "hir \<Rightarrow> item_id \<Rightarrow> (def_ref \<times> stmt list) list" where
  "item_defs H i =
     (case h_item H i of
        IFunc f \<Rightarrow> [(DefItem i, fd_body f)]
      | IStruct sd \<Rightarrow>
          map (\<lambda>(ix, m). (DefMethod i ix, fd_body m)) (zip [0..<length (sd_methods sd)] (sd_methods sd))
      | _ \<Rightarrow> [])"

definition collect_defs :: "hir \<Rightarrow> item_id list \<Rightarrow> (def_ref \<times> stmt list) list" where
  "collect_defs H roots = concat (map (item_defs H) roots)"

text \<open>The arguments of \<open>infer\<close>.\<close>

record program =
  pr_hir :: hir
  pr_roots :: "item_id list"
  pr_res :: resolutions
  pr_types :: type_tables

type_synonym set_tables = "(def_ref, error_set) table \<times> (expr_id, error_set) table"

definition defs_of :: "program \<Rightarrow> (def_ref \<times> stmt list) list" where
  "defs_of P = collect_defs (pr_hir P) (pr_roots P)"

definition collector_of :: "program \<Rightarrow> (def_ref, error_set) table \<Rightarrow> collector" where
  "collector_of P sets =
     \<lparr>co_hir = pr_hir P, co_res = pr_res P, co_types = pr_types P, co_sets = sets\<rparr>"

definition fresh_state :: "(expr_id, error_set) table \<Rightarrow> diagnostic list option \<Rightarrow> col_state" where
  "fresh_state lams ds = \<lparr>cl_lambdas = lams, cl_by_call = [], cl_by_local = [], cl_diags = ds\<rparr>"

definition initial_tables :: "program \<Rightarrow> set_tables" where
  "initial_tables P = (fold (\<lambda>(d, _). AList.update d bot) (defs_of P) [], [])"

definition pass_step :: "program \<Rightarrow> (def_ref, error_set) table \<Rightarrow> def_ref \<times> stmt list \<Rightarrow> set_tables \<Rightarrow> set_tables" where
  "pass_step P sets = (\<lambda>(d, body) (next_sets, lams).
     case collect_block (collector_of P sets) body (fresh_state lams None) of
       (s, st) \<Rightarrow> (AList.update d s next_sets, cl_lambdas st))"

definition pass :: "program \<Rightarrow> set_tables \<Rightarrow> set_tables" where
  "pass P tables = fold (pass_step P (fst tables)) (defs_of P) ([], [])"

definition same_table :: "('k, 'v) table \<Rightarrow> ('k, 'v) table \<Rightarrow> bool" where
  "same_table xs ys \<longleftrightarrow> list_all (\<lambda>k. map_of xs k = map_of ys k) (map fst xs @ map fst ys)"

definition same_tables :: "set_tables \<Rightarrow> set_tables \<Rightarrow> bool" where
  "same_tables s t \<longleftrightarrow> same_table (fst s) (fst t) \<and> same_table (snd s) (snd t)"

definition fixpoint_tables :: "program \<Rightarrow> set_tables option" where
  "fixpoint_tables P = while_option (\<lambda>t. \<not> same_tables (pass P t) t) (pass P) (initial_tables P)"

section \<open>The checking pass\<close>

type_synonym check_state = "(expr_id, error_set) table \<times> diagnostic list"

definition check_def :: "program \<Rightarrow> (def_ref, error_set) table \<Rightarrow> def_ref \<times> stmt list \<Rightarrow> check_state \<Rightarrow> check_state" where
  "check_def P sets = (\<lambda>(d, body) (lams, ds).
     case collect_block (collector_of P sets) body (fresh_state lams (Some ds)) of
       (s, st) \<Rightarrow>
         (cl_lambdas st,
          (case cl_diags st of None \<Rightarrow> [] | Some ds \<Rightarrow> ds)
            @ throws_contract (pr_hir P) (pr_res P) sets d @ render_contract (pr_hir P) sets d))"

text \<open>The top level is one body.\<close>

definition top_item :: "collector \<Rightarrow> item_id \<Rightarrow> collect" where
  "top_item E i =
     (case h_item (co_hir E) i of
        ITopLet name e \<Rightarrow> collect_expr E e
      | IStmt b \<Rightarrow> collect_block E b
      | _ \<Rightarrow> yields bot)"

definition top_level :: "collector \<Rightarrow> item_id list \<Rightarrow> collect" where
  "top_level E roots = all_of (map (top_item E) roots)"

record inferred =
  in_sets :: "(def_ref, error_set) table"
  in_lambdas :: "(expr_id, error_set) table"
  in_diags :: "diagnostic list"

definition check_program :: "program \<Rightarrow> (def_ref, error_set) table \<Rightarrow> inferred" where
  "check_program P sets =
     (case fold (check_def P sets) (defs_of P) ([], []) of (lams, ds) \<Rightarrow>
      case top_level (collector_of P sets) (pr_roots P) (fresh_state lams (Some ds)) of (_, st) \<Rightarrow>
        \<lparr>in_sets = sets, in_lambdas = cl_lambdas st,
         in_diags = (case cl_diags st of None \<Rightarrow> [] | Some ds \<Rightarrow> ds)
           @ iface_throws_contracts (pr_hir P) (pr_res P) sets [] (iface_uses (pr_types P))\<rparr>)"

definition infer :: "program \<Rightarrow> inferred option" where
  "infer P = map_option (\<lambda>t. check_program P (fst t)) (fixpoint_tables P)"

end
