(* ===== verification/Error_Monotone.thy ===== *)
theory Error_Monotone
  imports Error_Inference
begin

text \<open>
  Every body is collected monotonically and from a finite stock of tags: what the walk yields grows with
  the sets of the definitions it calls, and every tag in it is one of these sets' or one of finitely many
  that the body mentions. Both facts are one predicate, \<open>regular\<close>, with a rule for each combinator.
\<close>

section \<open>Tables\<close>

definition tables_le :: "('k, error_set) table \<Rightarrow> ('k, error_set) table \<Rightarrow> bool" where
  "tables_le S T \<longleftrightarrow> (\<forall>k. get_set S k \<le> get_set T k)"

definition table_le :: "('k, error_set) table \<Rightarrow> ('k, error_set) table \<Rightarrow> bool" where
  "table_le = list_all2 (\<lambda>(k, s) (k', s'). k = k' \<and> s \<le> s')"

definition table_in :: "error_tag set \<Rightarrow> ('k, error_set) table \<Rightarrow> bool" where
  "table_in W S \<longleftrightarrow> (\<forall>s \<in> snd ` set S. es_tags s \<subseteq> W)"

lemma table_le_refl: "table_le S S"
  unfolding table_le_def by (induction S) auto

lemma table_le_update: "table_le S T \<Longrightarrow> s \<le> t \<Longrightarrow> table_le (AList.update k s S) (AList.update k t T)"
  unfolding table_le_def by (induction rule: list_all2_induct) auto

lemma table_le_map_of:
  "table_le S T \<Longrightarrow> (map_of S k = None \<longleftrightarrow> map_of T k = None) \<and> (\<forall>s t. map_of S k = Some s \<longrightarrow> map_of T k = Some t \<longrightarrow> s \<le> t)"
  unfolding table_le_def by (induction rule: list_all2_induct) auto

lemma table_le_get: "table_le S T \<Longrightarrow> get_set S k \<le> get_set T k"
  using table_le_map_of [of S T k] by (auto simp: get_set_def split: option.splits)

lemma table_in_update: "table_in W S \<Longrightarrow> es_tags s \<subseteq> W \<Longrightarrow> table_in W (AList.update k s S)"
  unfolding table_in_def by (induction S) auto

lemma table_in_map_of: "table_in W S \<Longrightarrow> map_of S k = Some s \<Longrightarrow> es_tags s \<subseteq> W"
  by (force simp: table_in_def dest: map_of_SomeD)

lemma table_in_get: "table_in W S \<Longrightarrow> es_tags (get_set S k) \<subseteq> W"
  by (auto simp: get_set_def bot_error_set_def dest: table_in_map_of split: option.splits)

lemma table_in_Nil [simp]: "table_in W []"
  by (simp add: table_in_def)

section \<open>Steps\<close>

text \<open>The sets depend on where the tasks came from, and neither on the table of the lambdas (whose entries are read
  only right after they were written) nor on the diagnostics.\<close>

definition state_le :: "col_state \<Rightarrow> col_state \<Rightarrow> bool" where
  "state_le st st' \<longleftrightarrow> table_le (cl_by_call st) (cl_by_call st') \<and> table_le (cl_by_local st) (cl_by_local st')"

definition state_in :: "error_tag set \<Rightarrow> col_state \<Rightarrow> bool" where
  "state_in W st \<longleftrightarrow> table_in W (cl_by_call st) \<and> table_in W (cl_by_local st)"

definition step_le :: "collect \<Rightarrow> collect \<Rightarrow> bool" where
  "step_le m n \<longleftrightarrow> (\<forall>st st'. state_le st st' \<longrightarrow> fst (m st) \<le> fst (n st') \<and> state_le (snd (m st)) (snd (n st')))"

definition step_in :: "error_tag set \<Rightarrow> collect \<Rightarrow> bool" where
  "step_in W m \<longleftrightarrow> (\<forall>st. state_in W st \<longrightarrow> es_tags (fst (m st)) \<subseteq> W \<and> state_in W (snd (m st)))"

type_synonym def_sets = "(def_ref, error_set) table"

definition regular_set :: "(def_sets \<Rightarrow> error_set) \<Rightarrow> bool" where
  "regular_set f \<longleftrightarrow> (\<forall>S T. tables_le S T \<longrightarrow> f S \<le> f T)
     \<and> (\<exists>U. finite U \<and> (\<forall>W S. U \<subseteq> W \<and> table_in W S \<longrightarrow> es_tags (f S) \<subseteq> W))"

definition regular :: "(def_sets \<Rightarrow> collect) \<Rightarrow> bool" where
  "regular m \<longleftrightarrow> (\<forall>S T. tables_le S T \<longrightarrow> step_le (m S) (m T))
     \<and> (\<exists>U. finite U \<and> (\<forall>W S. U \<subseteq> W \<and> table_in W S \<longrightarrow> step_in W (m S)))"

lemma regularI:
  assumes "\<And>S T. tables_le S T \<Longrightarrow> step_le (m S) (m T)"
    and "finite U" and "\<And>W S. U \<subseteq> W \<Longrightarrow> table_in W S \<Longrightarrow> step_in W (m S)"
  shows "regular m"
  unfolding regular_def by (intro conjI exI [of _ U] allI impI assms) simp_all

lemma regularE:
  assumes "regular m"
  obtains U where "\<And>S T. tables_le S T \<Longrightarrow> step_le (m S) (m T)" "finite U"
    "\<And>W S. U \<subseteq> W \<Longrightarrow> table_in W S \<Longrightarrow> step_in W (m S)"
proof -
  from assms obtain U where U: "\<forall>S T. tables_le S T \<longrightarrow> step_le (m S) (m T)" "finite U"
    "\<forall>W S. U \<subseteq> W \<and> table_in W S \<longrightarrow> step_in W (m S)"
    unfolding regular_def by (elim conjE exE)
  show ?thesis by (rule that [of U]) (use U in simp_all)
qed

text \<open>A combinator that acts on each result preserves regularity.\<close>

lemma regular_map:
  assumes m: "regular m" and le: "\<And>n n'. step_le n n' \<Longrightarrow> step_le (F n) (F n')"
    and wi: "\<And>W n. step_in W n \<Longrightarrow> step_in W (F n)"
  shows "regular (\<lambda>S. F (m S))"
proof -
  from m obtain U where "\<And>S T. tables_le S T \<Longrightarrow> step_le (m S) (m T)" "finite U"
    "\<And>W S. U \<subseteq> W \<Longrightarrow> table_in W S \<Longrightarrow> step_in W (m S)" by (rule regularE) blast
  then show ?thesis by (intro regularI [where U = U] le wi)
qed

lemma regular_map2:
  assumes m: "regular m" and n: "regular n"
    and le: "\<And>a a' b b'. step_le a a' \<Longrightarrow> step_le b b' \<Longrightarrow> step_le (F a b) (F a' b')"
    and wi: "\<And>W a b. step_in W a \<Longrightarrow> step_in W b \<Longrightarrow> step_in W (F a b)"
  shows "regular (\<lambda>S. F (m S) (n S))"
proof -
  from m obtain U where U: "\<And>S T. tables_le S T \<Longrightarrow> step_le (m S) (m T)" "finite U"
    "\<And>W S. U \<subseteq> W \<Longrightarrow> table_in W S \<Longrightarrow> step_in W (m S)" by (rule regularE) blast
  from n obtain V where V: "\<And>S T. tables_le S T \<Longrightarrow> step_le (n S) (n T)" "finite V"
    "\<And>W S. V \<subseteq> W \<Longrightarrow> table_in W S \<Longrightarrow> step_in W (n S)" by (rule regularE) blast
  show ?thesis using U V by (intro regularI [where U = "U \<union> V"] le wi) auto
qed

section \<open>Rules\<close>

lemma step_le_yields: "s \<le> t \<Longrightarrow> step_le (yields s) (yields t)"
  by (simp add: step_le_def yields_def)

lemma step_in_yields: "es_tags s \<subseteq> W \<Longrightarrow> step_in W (yields s)"
  by (simp add: step_in_def yields_def)

lemma regular_yields:
  assumes "regular_set f"
  shows "regular (\<lambda>S. yields (f S))"
proof -
  from assms obtain U where U: "\<forall>S T. tables_le S T \<longrightarrow> f S \<le> f T" "finite U"
    "\<forall>W S. U \<subseteq> W \<and> table_in W S \<longrightarrow> es_tags (f S) \<subseteq> W"
    unfolding regular_set_def by (elim conjE exE)
  then show ?thesis by (intro regularI [where U = U] step_le_yields step_in_yields) simp_all
qed

lemma regular_const: "finite (es_tags s) \<Longrightarrow> regular_set (\<lambda>S. s)"
  unfolding regular_set_def by auto

lemma regular_get: "regular_set (\<lambda>S. get_set S d)"
  unfolding regular_set_def by (auto simp: tables_le_def dest: table_in_get intro!: exI [of _ "{}"])

lemma step_le_also: "step_le a a' \<Longrightarrow> step_le b b' \<Longrightarrow> step_le (also_with a b) (also_with a' b')"
  unfolding step_le_def by (auto simp: also_with_def split_beta intro: le_supI1 le_supI2)

lemma step_in_also: "step_in W a \<Longrightarrow> step_in W b \<Longrightarrow> step_in W (also_with a b)"
  unfolding step_in_def by (simp add: also_with_def split_beta sup_error_set_def)

lemma regular_also: "regular m \<Longrightarrow> regular n \<Longrightarrow> regular (\<lambda>S. also_with (m S) (n S))"
  by (rule regular_map2 [of m n also_with]) (auto intro: step_le_also step_in_also)

lemma regular_bot: "regular (\<lambda>S. yields bot)"
  by (intro regular_yields regular_const) (simp add: bot_error_set_def)

lemma regular_all: "(\<And>x. x \<in> set xs \<Longrightarrow> regular (\<lambda>S. m S x)) \<Longrightarrow> regular (\<lambda>S. all_of (map (m S) xs))"
  by (induction xs) (auto intro: regular_bot regular_also)

lemma all_of_append: "all_of (xs @ ys) = also_with (all_of xs) (all_of ys)"
  by (induction xs) (auto simp: fun_eq_iff also_with_def yields_def sup.assoc split_beta)

lemma regular_append:
  "regular (\<lambda>S. all_of (m S)) \<Longrightarrow> regular (\<lambda>S. all_of (n S)) \<Longrightarrow> regular (\<lambda>S. all_of (m S @ n S))"
  unfolding all_of_append by (rule regular_also)

lemma regular_two: "regular m \<Longrightarrow> regular n \<Longrightarrow> regular (\<lambda>S. all_of [m S, n S])"
  using regular_also [OF _ regular_also [OF _ regular_bot]] by simp

lemma regular_muted: "regular m \<Longrightarrow> regular (\<lambda>S. muted (m S))"
  by (erule regular_map) (simp_all add: step_le_def step_in_def muted_def bot_error_set_def)

lemma regular_record_lambda: "regular m \<Longrightarrow> regular (\<lambda>S. record_lambda i (m S))"
  by (erule regular_map)
    (auto simp: step_le_def step_in_def record_lambda_def state_le_def state_in_def split_beta
      intro: table_le_update table_in_update)

text \<open>What a step reads of the collector besides the sets of the definitions is fixed.\<close>

abbreviation at_sets :: "collector \<Rightarrow> def_sets \<Rightarrow> collector" where
  "at_sets E S \<equiv> E\<lparr>co_sets := S\<rparr>"

lemma fixed_fields:
  "co_hir (at_sets E S) = co_hir E" "co_res (at_sets E S) = co_res E" "co_types (at_sets E S) = co_types E"
  by simp_all

lemma fixed_lookups [simp]:
  "expr_type (at_sets E S) e = expr_type E e" "res_of (at_sets E S) e = res_of E e"
  "is_module_ref (at_sets E S) e = is_module_ref E e" "std_module_of (at_sets E S) e = std_module_of E e"
  "constraint_member_throws (at_sets E S) d ix name = constraint_member_throws E d ix name"
  "thrown (at_sets E S) e = thrown E e" "task_origin (at_sets E S) e = task_origin E e"
  unfolding is_module_ref_def std_module_of_def constraint_member_throws_def thrown_def task_origin_def [abs_def]
    expr_type_def res_of_def fixed_fields by (rule refl)+

lemma finite_thrown: "finite (es_tags (thrown E e))"
  by (simp add: thrown_def tag_set_def open_set_def split: option.split)

lemma finite_native: "finite (es_tags (native_set names))"
  by (simp add: native_set_def tag_set_def)

lemma finite_open: "finite (es_tags open_set)"
  by (simp add: open_set_def)

lemma finite_bot_tags: "finite (es_tags bot)"
  by (simp add: bot_error_set_def)

lemma finite_constraint: "constraint_member_throws E d ix name = Some T \<Longrightarrow> finite T"
  by (auto simp: constraint_member_throws_def finite_named_tags
      split: option.splits type_res.splits hir_item.splits throws.splits bind_splits)

lemmas regular_leaves =
  regular_const [OF finite_open] regular_const [OF finite_bot_tags] regular_const [OF finite_native]
  regular_const [OF finite_thrown] regular_get

lemma regular_ident: "regular_set (\<lambda>S. ident_callee (at_sets E S) callee)"
proof (cases "res_of E callee")
  case (Some r)
  show ?thesis
  proof (cases r)
    case (RItem i)
    show ?thesis
      by (cases "h_item (co_hir E) i") (simp_all add: ident_callee_def Some RItem regular_leaves)
  qed (simp_all add: ident_callee_def Some regular_leaves)
qed (simp add: ident_callee_def regular_leaves)

lemma regular_method_errors: "regular_set (\<lambda>S. method_errors (at_sets E S) i name)"
proof (cases "h_item (co_hir E) i")
  case (IStruct sd)
  show ?thesis
    by (cases "find_pos (\<lambda>m. fd_name m = name) (sd_methods sd)")
      (simp_all add: method_errors_def IStruct regular_leaves)
qed (simp_all add: method_errors_def regular_leaves)

lemma regular_common: "regular_set (\<lambda>S. common_throws (at_sets E S) name alt)"
  by (cases alt) (simp_all add: common_throws_def regular_method_errors regular_leaves)

section \<open>Nodes\<close>

lemma regular_plain_args:
  assumes "\<And>a. a \<in> set args \<Longrightarrow> regular (\<lambda>S. m S a)"
  shows "regular (\<lambda>S. plain_args (map (\<lambda>a. (a, m S a, n S a)) args))"
  using regular_all [of args m] assms by (simp add: plain_args_def comp_def)

lemma regular_hof_args:
  assumes m: "\<And>a. a \<in> set args \<Longrightarrow> regular (\<lambda>S. m S a)"
    and n: "\<And>a. a \<in> set args \<Longrightarrow> regular (\<lambda>S. n S a)"
  shows "regular (\<lambda>S. hof_args (at_sets E S) (map (\<lambda>a. (a, m S a, n S a)) args))"
proof -
  have "regular (\<lambda>S. hof_arg (at_sets E S) (a, m S a, n S a))" if "a \<in> set args" for a
  proof (cases "lambda_literal a")
    case True
    with n [OF that] show ?thesis by (simp add: hof_arg_def regular_record_lambda)
  next
    case False
    have "regular (\<lambda>S. yields (case expr_type E a of Some (TFn _ _) \<Rightarrow> open_set | _ \<Rightarrow> bot))"
      by (intro regular_yields regular_const) (simp add: finite_open finite_bot_tags split: option.split ty.split)
    with m [OF that] False show ?thesis by (simp add: hof_arg_def regular_also)
  qed
  then show ?thesis
    using regular_all [of args "\<lambda>S a. hof_arg (at_sets E S) (a, m S a, n S a)"]
    by (simp add: hof_args_def comp_def)
qed

lemma step_le_spawn:
  assumes "step_le b b'"
  shows "step_le (record_spawn i [(a, m, b)]) (record_spawn i [(a, m', b')])"
  unfolding step_le_def
proof (intro allI impI)
  fix st st'
  assume le: "state_le st st'"
  show "fst (record_spawn i [(a, m, b)] st) \<le> fst (record_spawn i [(a, m', b')] st') \<and>
    state_le (snd (record_spawn i [(a, m, b)] st)) (snd (record_spawn i [(a, m', b')] st'))"
  proof (cases "lambda_literal a")
    case True
    have "fst (b st) \<le> fst (b' st')" "state_le (snd (b st)) (snd (b' st'))"
      using assms le by (simp_all add: step_le_def)
    with True show ?thesis
      by (simp add: record_spawn_def record_lambda_def state_le_def split_beta update_conv' table_le_update)
  qed (simp add: record_spawn_def le)
qed

lemma step_in_spawn:
  assumes "step_in W b"
  shows "step_in W (record_spawn i [(a, m, b)])"
  using assms
  by (auto simp: step_in_def record_spawn_def record_lambda_def state_in_def split_beta update_conv' bot_error_set_def
      intro: table_in_update)

lemma regular_spawn:
  assumes "\<And>a. a \<in> set args \<Longrightarrow> regular (\<lambda>S. n S a)"
  shows "regular (\<lambda>S. record_spawn i (map (\<lambda>a. (a, m S a, n S a)) args))"
proof (cases "\<exists>a. args = [a]")
  case True
  then obtain a where a: "args = [a]" by blast
  have "(\<lambda>S. record_spawn i [(a, m S a, n S a)]) = (\<lambda>S. record_spawn i [(a, yields bot, n S a)])"
    by (simp add: fun_eq_iff record_spawn_def)
  then show ?thesis
    using regular_map [of "\<lambda>S. n S a" "\<lambda>y. record_spawn i [(a, yields bot, y)]", OF assms step_le_spawn step_in_spawn]
    by (simp add: a)
next
  case False
  then have "record_spawn i (map (\<lambda>a. (a, m S a, n S a)) args) = yields bot" for S
    by (cases args rule: remdups_adj.cases) (simp_all add: fun_eq_iff record_spawn_def yields_def)
  then show ?thesis by (simp add: regular_bot)
qed

lemma regular_task_origin: "regular (\<lambda>S. task_origin E e)"
proof (rule regularI [where U = "{}"])
  fix S T :: def_sets
  show "step_le (task_origin E e) (task_origin E e)"
    unfolding step_le_def
  proof (intro allI impI)
    fix st st' assume le: "state_le st st'"
    then have "table_le (cl_by_call st) (cl_by_call st')" "table_le (cl_by_local st) (cl_by_local st')"
      by (simp_all add: state_le_def)
    then show "fst (task_origin E e st) \<le> fst (task_origin E e st') \<and>
      state_le (snd (task_origin E e st)) (snd (task_origin E e st'))"
      using le table_le_map_of [of "cl_by_call st" "cl_by_call st'" "expr_id e"]
      by (auto simp: task_origin_def table_le_get split: option.splits res.splits)
  qed
next
  fix W :: "error_tag set"
  show "step_in W (task_origin E e)"
    unfolding step_in_def task_origin_def state_in_def
    by (auto simp: bot_error_set_def dest: table_in_map_of table_in_get split: option.splits res.splits)
qed simp

lemma regular_let: "regular m \<Longrightarrow> regular (\<lambda>S. let_node (at_sets E S) i e (m S))"
proof -
  assume m: "regular m"
  have "let_node (at_sets E S) = let_node E" for S
    by (simp add: let_node_def fun_eq_iff)
  moreover have "regular (\<lambda>S. let_node E i e (m S))"
  proof (rule regular_map [OF m])
    fix n n' assume le: "step_le n n'"
    show "step_le (let_node E i e n) (let_node E i e n')"
      unfolding step_le_def
    proof (intro allI impI)
      fix st st' assume "state_le st st'"
      with le have n: "fst (n st) \<le> fst (n' st')" "state_le (snd (n st)) (snd (n' st'))"
        by (simp_all add: step_le_def)
      then have "table_le (cl_by_call (snd (n st))) (cl_by_call (snd (n' st')))"
        by (simp add: state_le_def)
      from table_le_map_of [OF this, of "expr_id e"] n
      show "fst (let_node E i e n st) \<le> fst (let_node E i e n' st') \<and>
        state_le (snd (let_node E i e n st)) (snd (let_node E i e n' st'))"
        by (auto simp: let_node_def split_beta state_le_def intro: table_le_update split: option.splits)
    qed
  next
    fix W n assume "step_in W n"
    then show "step_in W (let_node E i e n)"
      by (auto simp: step_in_def let_node_def split_beta state_in_def
          intro: table_in_update dest: table_in_map_of split: option.splits)
  qed
  ultimately show ?thesis by simp
qed

lemma subtract_slots_le: "s \<le> t \<Longrightarrow> subtract_slots E i ax tx ts s \<le> subtract_slots E i ax tx ts t"
proof (induction ts arbitrary: tx s t)
  case (Cons x xs)
  show ?case
    unfolding subtract_slots.simps
    by (rule Cons.IH) (use Cons.prems in \<open>auto simp: less_eq_error_set_def split: catch_type.split option.split\<close>)
qed simp

lemma subtract_arms_le: "s \<le> t \<Longrightarrow> subtract_arms E i ax arms s \<le> subtract_arms E i ax arms t"
proof (induction arms arbitrary: ax s t)
  case (Cons x xs)
  show ?case
    unfolding subtract_arms.simps
    by (rule Cons.IH) (use Cons.prems in \<open>auto simp: subtract_slots_le split: prod.split\<close>)
qed simp

lemma subtract_slots_tags: "es_tags (subtract_slots E i ax tx ts s) \<subseteq> es_tags s"
proof (induction ts arbitrary: tx s)
  case (Cons x xs)
  show ?case
    unfolding subtract_slots.simps
    by (rule order_trans [OF Cons.IH]) (auto split: catch_type.split option.split)
qed simp

lemma subtract_arms_tags: "es_tags (subtract_arms E i ax arms s) \<subseteq> es_tags s"
proof (induction arms arbitrary: ax s)
  case (Cons x xs)
  show ?case
    unfolding subtract_arms.simps
    by (rule order_trans [OF Cons.IH]) (auto dest: subsetD [OF subtract_slots_tags] split: prod.split)
qed simp

lemma subtract_at_sets [simp]:
  "subtract_slots (at_sets E S) i ax tx ts s = subtract_slots E i ax tx ts s"
  "subtract_arms (at_sets E S) i ax arms s = subtract_arms E i ax arms s"
proof -
  show slots: "subtract_slots (at_sets E S) i ax tx ts s = subtract_slots E i ax tx ts s" for ax tx ts s
    by (induction ts arbitrary: tx s) (simp_all split: catch_type.split)
  show "subtract_arms (at_sets E S) i ax arms s = subtract_arms E i ax arms s"
    by (induction arms arbitrary: ax s) (simp_all add: slots split: prod.split)
qed

text \<open>The diagnostics of a \<open>catch\<close> go into the state and into nothing else.\<close>

lemma catch_node_cases:
  obtains ds where
    "catch_node (at_sets E S) i sp exhaustive arms m n st =
       (sup (subtract_arms E i 0 arms (fst (m st))) (fst (n ((snd (m st))\<lparr>cl_diags := ds\<rparr>))),
        snd (n ((snd (m st))\<lparr>cl_diags := ds\<rparr>)))"
  by (rule that) (simp add: catch_node_def split_beta)

lemma step_le_catch:
  assumes m: "step_le m m'" and n: "step_le n n'"
  shows "step_le (catch_node (at_sets E S) i sp exhaustive arms m n) (catch_node (at_sets E T) i sp exhaustive arms m' n')"
  unfolding step_le_def
proof (intro allI impI)
  fix st st' assume "state_le st st'"
  with m have r: "fst (m st) \<le> fst (m' st')" and st: "state_le (snd (m st)) (snd (m' st'))"
    by (simp_all add: step_le_def)
  have "state_le ((snd (m st))\<lparr>cl_diags := ds\<rparr>) ((snd (m' st'))\<lparr>cl_diags := ds'\<rparr>)" for ds ds'
    using st by (simp add: state_le_def)
  with n have a: "fst (n ((snd (m st))\<lparr>cl_diags := ds\<rparr>)) \<le> fst (n' ((snd (m' st'))\<lparr>cl_diags := ds'\<rparr>))"
    "state_le (snd (n ((snd (m st))\<lparr>cl_diags := ds\<rparr>))) (snd (n' ((snd (m' st'))\<lparr>cl_diags := ds'\<rparr>)))" for ds ds'
    by (simp_all add: step_le_def)
  obtain ds where "catch_node (at_sets E S) i sp exhaustive arms m n st =
      (sup (subtract_arms E i 0 arms (fst (m st))) (fst (n ((snd (m st))\<lparr>cl_diags := ds\<rparr>))),
       snd (n ((snd (m st))\<lparr>cl_diags := ds\<rparr>)))" by (rule catch_node_cases)
  moreover obtain ds' where "catch_node (at_sets E T) i sp exhaustive arms m' n' st' =
      (sup (subtract_arms E i 0 arms (fst (m' st'))) (fst (n' ((snd (m' st'))\<lparr>cl_diags := ds'\<rparr>))),
       snd (n' ((snd (m' st'))\<lparr>cl_diags := ds'\<rparr>)))" by (rule catch_node_cases)
  ultimately show "fst (catch_node (at_sets E S) i sp exhaustive arms m n st) \<le> fst (catch_node (at_sets E T) i sp exhaustive arms m' n' st')
    \<and> state_le (snd (catch_node (at_sets E S) i sp exhaustive arms m n st)) (snd (catch_node (at_sets E T) i sp exhaustive arms m' n' st'))"
    using a [of ds ds'] subtract_arms_le [OF r] by (simp only: fst_conv snd_conv sup_mono)
qed

lemma step_in_catch:
  assumes m: "step_in W m" and n: "step_in W n"
  shows "step_in W (catch_node (at_sets E S) i sp exhaustive arms m n)"
  unfolding step_in_def
proof (intro allI impI)
  fix st assume "state_in W st"
  with m have r: "es_tags (fst (m st)) \<subseteq> W" and st: "state_in W (snd (m st))" by (simp_all add: step_in_def)
  have "state_in W ((snd (m st))\<lparr>cl_diags := ds\<rparr>)" for ds using st by (simp add: state_in_def)
  with n have a: "es_tags (fst (n ((snd (m st))\<lparr>cl_diags := ds\<rparr>))) \<subseteq> W"
    "state_in W (snd (n ((snd (m st))\<lparr>cl_diags := ds\<rparr>)))" for ds
    by (simp_all add: step_in_def)
  obtain ds where "catch_node (at_sets E S) i sp exhaustive arms m n st =
      (sup (subtract_arms E i 0 arms (fst (m st))) (fst (n ((snd (m st))\<lparr>cl_diags := ds\<rparr>))),
       snd (n ((snd (m st))\<lparr>cl_diags := ds\<rparr>)))" by (rule catch_node_cases)
  then show "es_tags (fst (catch_node (at_sets E S) i sp exhaustive arms m n st)) \<subseteq> W
    \<and> state_in W (snd (catch_node (at_sets E S) i sp exhaustive arms m n st))"
    using a [of ds] r subtract_arms_tags [of E i 0 arms "fst (m st)"] by (auto simp: sup_error_set_def)
qed

lemma regular_catch:
  assumes m: "regular m" and n: "regular n"
  shows "regular (\<lambda>S. catch_node (at_sets E S) i sp exhaustive arms (m S) (n S))"
proof -
  from m obtain U where U: "\<And>S T. tables_le S T \<Longrightarrow> step_le (m S) (m T)" "finite U"
    "\<And>W S. U \<subseteq> W \<Longrightarrow> table_in W S \<Longrightarrow> step_in W (m S)" by (rule regularE) blast
  from n obtain V where V: "\<And>S T. tables_le S T \<Longrightarrow> step_le (n S) (n T)" "finite V"
    "\<And>W S. V \<subseteq> W \<Longrightarrow> table_in W S \<Longrightarrow> step_in W (n S)" by (rule regularE) blast
  show ?thesis using U V by (intro regularI [where U = "U \<union> V"] step_le_catch step_in_catch) auto
qed

lemma regular_if: "(b \<Longrightarrow> regular f) \<Longrightarrow> (\<not> b \<Longrightarrow> regular g) \<Longrightarrow> regular (\<lambda>S. if b then f S else g S)"
  by (cases b) simp_all

text \<open>Calls: the arguments and the callee are regular, so is the call.\<close>

lemma regular_method_part:
  assumes m: "\<And>a. a \<in> set args \<Longrightarrow> regular (\<lambda>S. m S a)"
    and n: "\<And>a. a \<in> set args \<Longrightarrow> regular (\<lambda>S. n S a)"
  shows "regular (\<lambda>S. method_part (at_sets E S) i recv name (map (\<lambda>a. (a, m S a, n S a)) args))"
proof (cases "expr_type E recv")
  case None
  then show ?thesis
    by (simp add: method_part_def)
      (intro regular_also regular_plain_args regular_yields regular_leaves m)
next
  case (Some t)
  have plain: "regular f \<Longrightarrow> regular (\<lambda>S. also_with (plain_args (map (\<lambda>a. (a, m S a, n S a)) args)) (f S))" for f
    by (intro regular_also regular_plain_args m)
  have hof: "regular (\<lambda>S. hof_args (at_sets E S) (map (\<lambda>a. (a, m S a, n S a)) args))"
    by (intro regular_hof_args m n)
  have native: "regular (\<lambda>S. yields (native_set names))" for names
    by (intro regular_yields regular_leaves)
  have constraint: "regular (\<lambda>S. yields (case constraint_member_throws E d ix name of Some T \<Rightarrow> tag_set T | None \<Rightarrow> open_set))"
    for d ix
    by (intro regular_yields regular_const) (auto simp: tag_set_def open_set_def dest: finite_constraint split: option.split)
  note rules = plain regular_also [OF hof native] hof regular_task_origin regular_yields [OF regular_method_errors]
    regular_yields [OF regular_leaves(1)] constraint regular_also [OF regular_spawn [OF n] regular_also [OF hof native]]
    regular_all [OF regular_yields [OF regular_common]]
  show ?thesis
    by (cases t) (auto simp: method_part_def Some intro!: regular_if rules)
qed

lemma regular_method_call:
  assumes r: "regular r" and m: "\<And>a. a \<in> set args \<Longrightarrow> regular (\<lambda>S. m S a)"
    and n: "\<And>a. a \<in> set args \<Longrightarrow> regular (\<lambda>S. n S a)"
  shows "regular (\<lambda>S. method_call (at_sets E S) i recv name (r S) (map (\<lambda>a. (a, m S a, n S a)) args))"
proof -
  have "finite (es_tags (case std_module_of E recv of Some module \<Rightarrow> native_set (module_throws module name) | None \<Rightarrow> bot))"
    by (simp add: finite_native finite_bot_tags split: option.split)
  then show ?thesis
    unfolding method_call_def fixed_lookups
    by (intro regular_if regular_also regular_plain_args regular_yields regular_const regular_method_part r m n)
qed

lemma regular_call_node:
  assumes r: "regular r" and m: "\<And>a. a \<in> set args \<Longrightarrow> regular (\<lambda>S. m S a)"
    and n: "\<And>a. a \<in> set args \<Longrightarrow> regular (\<lambda>S. n S a)"
  shows "regular (\<lambda>S. call_node (at_sets E S) i callee (r S) (map (\<lambda>a. (a, m S a, n S a)) args))"
proof -
  note rules = regular_also [OF regular_plain_args [OF m] regular_yields [OF regular_ident]]
    regular_also [OF r regular_also [OF regular_plain_args [OF m] regular_yields [OF regular_leaves(1)]]]
    regular_hof_args [OF m n] regular_method_call [OF r m n]
    regular_also [OF regular_plain_args [OF m] regular_record_lambda [OF r]]
  show ?thesis
    unfolding call_node_def fixed_lookups
    by (rule regular_if, rule rules(1), simp, cases "expr_node callee") (auto intro!: regular_if rules)
qed

text \<open>A block and the branches of an \<open>if\<close>.\<close>

lemma regular_branches:
  assumes "\<And>c b. (c, b) \<in> set branches \<Longrightarrow> regular (\<lambda>S. e S c)"
    and "\<And>c b s. (c, b) \<in> set branches \<Longrightarrow> s \<in> set b \<Longrightarrow> regular (\<lambda>S. f S s)"
    and "\<And>b s. els = Some b \<Longrightarrow> s \<in> set b \<Longrightarrow> regular (\<lambda>S. f S s)"
  shows "regular (\<lambda>S. all_of (map (\<lambda>(c, b). also_with (e S c) (all_of (map (f S) b))) branches @
    (case els of None \<Rightarrow> [] | Some b \<Rightarrow> [all_of (map (f S) b)])))"
proof (rule regular_append)
  have "regular (\<lambda>S. (\<lambda>(c, b). also_with (e S c) (all_of (map (f S) b))) x)" if x: "x \<in> set branches" for x
  proof (cases x)
    case (Pair c b)
    with x assms(1,2) show ?thesis by (auto intro!: regular_also regular_all)
  qed
  then show "regular (\<lambda>S. all_of (map (\<lambda>(c, b). also_with (e S c) (all_of (map (f S) b))) branches))"
    by (rule regular_all)
  show "regular (\<lambda>S. all_of (case els of None \<Rightarrow> [] | Some b \<Rightarrow> [all_of (map (f S) b)]))"
    using assms(3) regular_also [OF regular_all regular_bot, of _ f] by (cases els) (simp_all add: regular_bot)
qed

lemma regular_option:
  "(\<And>e. g = Some e \<Longrightarrow> regular (\<lambda>S. f S e)) \<Longrightarrow>
   regular (\<lambda>S. case g of None \<Rightarrow> yields bot | Some e \<Rightarrow> f S e)"
  by (cases g) (simp_all add: regular_bot)

theorem regular_collect:
  "regular (\<lambda>S. collect_expr (at_sets E S) e)"
  "regular (\<lambda>S. collect_stmt (at_sets E S) s)"
  "regular (\<lambda>S. collect_body (at_sets E S) b)"
proof (induction E e and E s and E b rule: collect_expr_collect_stmt_collect_body.induct)
  case (1 E i sp callee args)
  have sub: "regular (\<lambda>S. case callee of Expr j sp' (EField recv name) \<Rightarrow> collect_expr (at_sets E S) recv
      | Expr j sp' (ELambda b) \<Rightarrow> collect_body (at_sets E S) b | _ \<Rightarrow> collect_expr (at_sets E S) callee)"
  proof (cases callee)
    case (Expr j sp' n)
    with 1 show ?thesis by (cases n) simp_all
  qed
  have "regular (\<lambda>S. case a of Expr j sp' (ELambda b) \<Rightarrow> collect_body (at_sets E S) b | _ \<Rightarrow> yields bot)"
    if a: "a \<in> set args" for a
  proof (cases a)
    case (Expr j sp' n)
    with 1 a show ?thesis by (cases n) (simp_all add: regular_bot)
  qed
  moreover have "regular (\<lambda>S. collect_expr (at_sets E S) a)" if "a \<in> set args" for a
    by (rule 1) (rule that)
  ultimately show ?case unfolding collect_expr.simps by (intro regular_call_node [OF sub])
qed (auto intro!: regular_two regular_muted regular_record_lambda regular_branches regular_option regular_all
    regular_also regular_let regular_catch regular_yields regular_leaves regular_bot split: option.split)

end
