(* ===== verification/Error_Fixpoint.thy ===== *)
theory Error_Fixpoint
  imports Error_Monotone
begin

text \<open>
  The inference ends, and what it answers is the least solution of the equations of the bodies. The
  iteration is an instance of the locale \<open>climbing\<close>: a monotone step on states that carry an order and a
  rank that grows strictly, up to a bound, as long as the step still moves.
\<close>

section \<open>Iteration\<close>

text \<open>\<open>step_up\<close> is the step on the sets and \<open>extra\<close> what the loop computes and compares beside them. A
  state is \<open>good\<close> when it is below its step and within the bound.\<close>

locale climbing =
  fixes step_up :: "'s \<Rightarrow> 's" and extra :: "'s \<Rightarrow> 'e" and good :: "'s \<Rightarrow> bool" and below :: "'s \<Rightarrow> 's \<Rightarrow> bool"
    and room :: "'s \<Rightarrow> nat"
  assumes good_step: "good s \<Longrightarrow> good (step_up s)"
    and shrinks: "good s \<Longrightarrow> step_up s \<noteq> s \<Longrightarrow> room (step_up s) < room s"
    and below_step: "below s t \<Longrightarrow> below (step_up t) t \<Longrightarrow> below (step_up s) t"
begin

definition round :: "'s \<times> 'e \<Rightarrow> 's \<times> 'e" where "round t = (step_up (fst t), extra (fst t))"

definition left_to_do :: "'s \<times> 'e \<Rightarrow> nat" where
  "left_to_do t = 2 * room (fst t) + (if snd t = extra (fst t) then 0 else 1)"

lemma left_to_do_decreases:
  assumes "good (fst t)" and "round t \<noteq> t"
  shows "left_to_do (round t) < left_to_do t"
proof (cases "step_up (fst t) = fst t")
  case True
  with assms(2) have "extra (fst t) \<noteq> snd t" by (auto simp: round_def prod_eq_iff)
  with True show ?thesis by (auto simp: left_to_do_def round_def)
next
  case False
  then show ?thesis using shrinks [OF assms(1)] by (simp add: left_to_do_def round_def)
qed

text \<open>The loop compares with \<open>same\<close>, which holds at least of equal states.\<close>

lemma loop_ends:
  assumes "good s" and same: "\<And>t. same t t"
  shows "\<exists>t. while_option (\<lambda>t. \<not> same (round t) t) round (s, x) = Some t"
proof (rule wf_while_option_Some [where P = "\<lambda>t. good (fst t)"])
  let ?R = "{(t, s). (good (fst s) \<and> \<not> same (round s) s) \<and> t = round s}"
  have "?R \<subseteq> measure left_to_do"
    using left_to_do_decreases same by (auto simp: measure_def inv_image_def) metis
  then show "wf ?R" by (rule wf_subset [OF wf_measure])
  show "good (fst (s, x))" using assms(1) by simp
  show "good (fst (round t))" if "good (fst t)" for t using good_step that by (simp add: round_def)
qed

lemma loop_good:
  assumes "while_option (\<lambda>t. \<not> same (round t) t) round (s, x) = Some t" and "good s"
  shows "good (fst t)" and "same (round t) t"
proof -
  show "good (fst t)"
    by (rule while_option_rule [where P = "\<lambda>t. good (fst t)", OF _ assms(1)]) (use assms(2) good_step in \<open>simp_all add: round_def\<close>)
  show "same (round t) t" using while_option_stop [OF assms(1)] by simp
qed

lemma loop_least:
  assumes "while_option b round (s, x) = Some t" and "below s u" and "below (step_up u) u"
  shows "below (fst t) u"
  by (rule while_option_rule [where P = "\<lambda>t. below (fst t) u", OF _ assms(1)])
    (use below_step assms(2,3) in \<open>simp_all add: round_def\<close>)

end

section \<open>The step on the sets\<close>

definition body_set :: "program \<Rightarrow> def_sets \<Rightarrow> stmt list \<Rightarrow> error_set" where
  "body_set P S body = fst (collect_block (collector_of P S) body (fresh_state [] None))"

definition sets_step :: "program \<Rightarrow> def_sets \<Rightarrow> def_sets" where
  "sets_step P S = fst (pass P (S, []))"

definition lambdas_step :: "program \<Rightarrow> def_sets \<Rightarrow> (expr_id, error_set) table" where
  "lambdas_step P S = snd (pass P (S, []))"

lemma regular_body: "regular (\<lambda>S. collect_block (collector_of P S) body)"
proof -
  have "(\<lambda>S. collect_block (collector_of P S) body) = (\<lambda>S. collect_block (at_sets (collector_of P []) S) body)"
    by (simp add: collector_of_def)
  moreover have "regular (\<lambda>S. collect_block (at_sets (collector_of P []) S) body)"
    by (rule regular_all) (rule regular_collect)
  ultimately show ?thesis by simp
qed

lemma regular_steps: "regular m \<Longrightarrow> tables_le S T \<Longrightarrow> step_le (m S) (m T)"
  by (simp add: regular_def)

lemma tables_le_refl: "tables_le S S"
  by (simp add: tables_le_def)

lemma state_le_fresh: "state_le (fresh_state l ds) (fresh_state l' ds')"
  by (simp add: state_le_def fresh_state_def table_le_refl)

text \<open>The state in which a body is collected has no effect on its set.\<close>

lemma collected_body_set: "fst (collect_block (collector_of P S) body (fresh_state l ds)) = body_set P S body"
proof -
  have "step_le (collect_block (collector_of P S) body) (collect_block (collector_of P S) body)"
    by (rule regular_steps [OF regular_body tables_le_refl])
  then show ?thesis
    unfolding body_set_def step_le_def using state_le_fresh by (blast intro: antisym)
qed

lemma body_set_mono: "tables_le S T \<Longrightarrow> body_set P S body \<le> body_set P T body"
  using regular_steps [OF regular_body, of S T P body] state_le_fresh unfolding body_set_def step_le_def by blast

lemma fold_pass_sets:
  "fst (fold (pass_step P S) ds (ns, l)) = fold (\<lambda>(d, b). AList.update d (body_set P S b)) ds ns"
proof (induction ds arbitrary: ns l)
  case (Cons x ds)
  obtain d b where x: "x = (d, b)" by fastforce
  have "pass_step P S x (ns, l) =
      (AList.update d (body_set P S b) ns,
       cl_lambdas (snd (collect_block (collector_of P S) b (fresh_state l None))))"
    using collected_body_set [of P S b l None] by (auto simp: pass_step_def x split: prod.split)
  then show ?case by (simp add: Cons.IH x)
qed simp

lemma sets_step_fold: "sets_step P S = fold (\<lambda>(d, b). AList.update d (body_set P S b)) (defs_of P) []"
  by (simp add: sets_step_def pass_def fold_pass_sets)

lemma fold_update_le:
  assumes "\<And>b. f b \<le> g b" and "table_le ns ns'"
  shows "table_le (fold (\<lambda>(d, b). AList.update d (f b)) ds ns) (fold (\<lambda>(d, b). AList.update d (g b)) ds ns')"
  using assms(2) by (induction ds arbitrary: ns ns') (auto intro: table_le_update assms(1))

lemma sets_step_mono: "tables_le S T \<Longrightarrow> table_le (sets_step P S) (sets_step P T)"
  unfolding sets_step_fold by (intro fold_update_le body_set_mono table_le_refl)

lemma table_le_tables_le: "table_le S T \<Longrightarrow> tables_le S T"
  by (simp add: tables_le_def table_le_get)

lemma initial_le_step: "table_le (fst (initial_tables P)) (sets_step P S)"
  unfolding sets_step_fold initial_tables_def fst_conv
  using fold_update_le [of "\<lambda>_. bot" "body_set P S" "[]" "[]" "defs_of P"] by (simp add: table_le_refl)

text \<open>The definitions of a program have one body each.\<close>

lemma item_defs_func_of: "(d, b) \<in> set (item_defs H i) \<Longrightarrow> \<exists>f. func_of H d = Some f \<and> b = fd_body f"
  by (cases "h_item H i") (auto simp: item_defs_def func_of_def in_set_zip)

lemma defs_func_of: "(d, b) \<in> set (defs_of P) \<Longrightarrow> \<exists>f. func_of (pr_hir P) d = Some f \<and> b = fd_body f"
  by (auto simp: defs_of_def collect_defs_def dest: item_defs_func_of)

lemma defs_functional: "(d, b) \<in> set (defs_of P) \<Longrightarrow> (d, c) \<in> set (defs_of P) \<Longrightarrow> b = c"
  using defs_func_of [of d b P] defs_func_of [of d c P] by auto

lemma map_of_fold_update:
  "map_of (fold (\<lambda>(d, b). AList.update d (f b)) ds ns) k =
     (case map_of (rev ds) k of Some b \<Rightarrow> Some (f b) | None \<Rightarrow> map_of ns k)"
  by (induction ds arbitrary: ns) (auto simp: update_conv' map_add_Some_iff split: option.splits)

lemma sets_step_get:
  assumes "(d, b) \<in> set (defs_of P)"
  shows "map_of (sets_step P S) d = Some (body_set P S b)"
proof -
  obtain c where c: "map_of (rev (defs_of P)) d = Some c"
    using assms by (metis imageI map_of_eq_None_iff not_Some_eq prod.sel(1) set_rev)
  then have "(d, c) \<in> set (defs_of P)" by (auto dest: map_of_SomeD)
  then have "c = b" using assms by (rule defs_functional)
  with c show ?thesis by (simp add: sets_step_fold map_of_fold_update)
qed

lemma sets_step_other: "d \<notin> fst ` set (defs_of P) \<Longrightarrow> map_of (sets_step P S) d = None"
  by (auto simp: sets_step_fold map_of_fold_update map_of_eq_None_iff split: option.split dest!: map_of_SomeD)

section \<open>The states of the iteration\<close>

text \<open>What the loop passes through, and the tags that occur there: finitely many.\<close>

definition reached :: "program \<Rightarrow> def_sets \<Rightarrow> bool" where
  "reached P S \<longleftrightarrow> (\<exists>n. S = (sets_step P ^^ n) (fst (initial_tables P)))"

definition stock :: "program \<Rightarrow> error_tag set" where
  "stock P = (\<Union>S \<in> {S. reached P S}. \<Union>s \<in> snd ` set S. es_tags s)"

lemma reached_initial: "reached P (fst (initial_tables P))"
  unfolding reached_def by (rule exI [of _ 0]) simp

lemma reached_step: "reached P S \<Longrightarrow> reached P (sets_step P S)"
  unfolding reached_def by (elim exE, rule_tac x = "Suc n" in exI) simp

lemma reached_induct [consumes 1, case_names initial step]:
  assumes "reached P S" and "Q (fst (initial_tables P))" and "\<And>S. reached P S \<Longrightarrow> Q S \<Longrightarrow> Q (sets_step P S)"
  shows "Q S"
proof -
  have "reached P ((sets_step P ^^ n) (fst (initial_tables P)))" for n
    by (auto simp: reached_def)
  then have "Q ((sets_step P ^^ n) (fst (initial_tables P)))" for n
    by (induction n) (simp_all add: assms(2,3))
  with assms(1) show ?thesis by (auto simp: reached_def)
qed

lemma reached_climbs: "reached P S \<Longrightarrow> table_le S (sets_step P S)"
  by (induction rule: reached_induct) (auto intro: initial_le_step sets_step_mono table_le_tables_le)

lemma bodies_finite:
  "\<exists>U. finite U \<and> (\<forall>W S. U \<subseteq> W \<and> table_in W S \<longrightarrow> (\<forall>(d, b) \<in> set ds. es_tags (body_set P S b) \<subseteq> W))"
proof (induction ds)
  case (Cons x ds)
  obtain d b where x: "x = (d, b)" by fastforce
  from Cons obtain U where U: "finite U"
    "\<forall>W S. U \<subseteq> W \<and> table_in W S \<longrightarrow> (\<forall>(d, b) \<in> set ds. es_tags (body_set P S b) \<subseteq> W)" by blast
  from regular_body [of P b] obtain V where V: "finite V"
    "\<And>W S. V \<subseteq> W \<Longrightarrow> table_in W S \<Longrightarrow> step_in W (collect_block (collector_of P S) b)"
    by (rule regularE) blast
  have "es_tags (body_set P S b) \<subseteq> W" if "V \<subseteq> W" "table_in W S" for W S
    using V(2) [OF that] by (simp add: step_in_def body_set_def state_in_def fresh_state_def)
  with U V(1) show ?case by (intro exI [of _ "U \<union> V"]) (auto simp: x)
qed auto

lemma table_in_fold:
  assumes "\<And>d b. (d, b) \<in> set ds \<Longrightarrow> es_tags (f b) \<subseteq> W" and "table_in W ns"
  shows "table_in W (fold (\<lambda>(d, b). AList.update d (f b)) ds ns)"
  using assms
proof (induction ds arbitrary: ns)
  case (Cons x ds)
  obtain d b where x: "x = (d, b)" by fastforce
  have "table_in W (AList.update d (f b) ns)" using Cons.prems x by (intro table_in_update) auto
  then have "table_in W (fold (\<lambda>(d, b). AList.update d (f b)) ds (AList.update d (f b) ns))"
    by (intro Cons.IH) (use Cons.prems in auto)
  then show ?case by (simp add: x)
qed simp

lemma finite_stock: "finite (stock P)"
proof -
  from bodies_finite [of "defs_of P" P] obtain U where U: "finite U"
    "\<forall>W S. U \<subseteq> W \<and> table_in W S \<longrightarrow> (\<forall>(d, b) \<in> set (defs_of P). es_tags (body_set P S b) \<subseteq> W)"
    by (elim exE conjE)
  have "table_in U S" if "reached P S" for S
    using that
  proof (induction rule: reached_induct)
    case initial
    then show ?case
      unfolding initial_tables_def fst_conv
      using table_in_fold [of "defs_of P" "\<lambda>_. bot" U "[]"] by (simp add: bot_error_set_def)
  next
    case (step S)
    then have "\<forall>(d, b) \<in> set (defs_of P). es_tags (body_set P S b) \<subseteq> U" using U(2) by blast
    then show ?case unfolding sets_step_fold by (intro table_in_fold) auto
  qed
  then have "stock P \<subseteq> U" by (auto simp: stock_def table_in_def)
  then show ?thesis using U(1) by (rule finite_subset)
qed

lemma reached_in_stock: "reached P S \<Longrightarrow> table_in (stock P) S"
  by (auto simp: stock_def table_in_def)

definition set_room :: "error_tag set \<Rightarrow> error_set \<Rightarrow> nat" where
  "set_room W s = card (W - es_tags s) + (if es_open s then 0 else 1)"

definition table_room :: "program \<Rightarrow> def_sets \<Rightarrow> nat" where
  "table_room P S = sum_list (map (set_room (stock P) \<circ> snd) S)"

lemma set_room_le: "finite W \<Longrightarrow> s \<le> t \<Longrightarrow> set_room W t \<le> set_room W s"
  unfolding set_room_def less_eq_error_set_def by (intro add_mono card_mono) auto

lemma set_room_less:
  assumes W: "finite W" "es_tags t \<subseteq> W" and le: "s \<le> t" and ne: "s \<noteq> t"
  shows "set_room W t < set_room W s"
proof (cases "es_tags s = es_tags t")
  case True
  with le ne have "\<not> es_open s" "es_open t"
    by (auto simp: less_eq_error_set_def intro: error_set.expand)
  with True show ?thesis by (simp add: set_room_def)
next
  case False
  with le W have "W - es_tags t \<subset> W - es_tags s" by (auto simp: less_eq_error_set_def)
  then have "card (W - es_tags t) < card (W - es_tags s)" using W(1) by (intro psubset_card_mono) auto
  with le show ?thesis by (simp add: set_room_def less_eq_error_set_def)
qed

lemma sum_list_shrinks:
  fixes r :: "'x \<Rightarrow> nat"
  assumes "list_all2 (\<lambda>x y. r y \<le> r x \<and> (x \<noteq> y \<longrightarrow> r y < r x)) xs ys"
  shows "sum_list (map r ys) \<le> sum_list (map r xs) \<and> (xs \<noteq> ys \<longrightarrow> sum_list (map r ys) < sum_list (map r xs))"
  using assms by (induction rule: list_all2_induct) (auto simp: add_mono add_less_le_mono add_le_less_mono)

lemma table_room_less:
  assumes le: "table_le S T" and ne: "S \<noteq> T" and wi: "table_in (stock P) T"
  shows "table_room P T < table_room P S"
proof -
  let ?r = "set_room (stock P) \<circ> snd"
  have "list_all2 (\<lambda>x y. ?r y \<le> ?r x \<and> (x \<noteq> y \<longrightarrow> ?r y < ?r x)) S T"
    using le unfolding table_le_def
  proof (rule list.rel_mono_strong)
    fix x y assume xy: "x \<in> set S" "y \<in> set T" "(case x of (k, s) \<Rightarrow> \<lambda>(k', s'). k = k' \<and> s \<le> s') y"
    then have le: "fst x = fst y" "snd x \<le> snd y" by (auto split: prod.splits)
    have "es_tags (snd y) \<subseteq> stock P" using wi xy(2) by (auto simp: table_in_def)
    then show "?r y \<le> ?r x \<and> (x \<noteq> y \<longrightarrow> ?r y < ?r x)"
      using le set_room_le [OF finite_stock le(2)] set_room_less [OF finite_stock _ le(2)]
      by (auto simp: prod_eq_iff)
  qed
  from sum_list_shrinks [OF this] ne show ?thesis unfolding table_room_def by blast
qed

interpretation inference: climbing "sets_step P" "lambdas_step P" "reached P" tables_le "table_room P" for P
proof
  fix S T
  show "reached P S \<Longrightarrow> reached P (sets_step P S)" by (rule reached_step)
  show "table_room P (sets_step P S) < table_room P S" if "reached P S" "sets_step P S \<noteq> S"
    using reached_climbs [OF that(1)] that(2) [symmetric] reached_in_stock [OF reached_step [OF that(1)]]
    by (rule table_room_less)
  show "tables_le (sets_step P S) T" if "tables_le S T" "tables_le (sets_step P T) T"
    using table_le_tables_le [OF sets_step_mono [OF that(1)]] that(2)
    unfolding tables_le_def by (blast intro: order_trans)
qed

section \<open>The inference\<close>

lemma pass_round: "pass P = inference.round P"
  by (simp add: fun_eq_iff inference.round_def sets_step_def lambdas_step_def pass_def)

lemma same_table_iff: "same_table xs ys \<longleftrightarrow> map_of xs = map_of ys"
proof
  assume same: "same_table xs ys"
  show "map_of xs = map_of ys"
  proof
    fix k
    show "map_of xs k = map_of ys k"
      using same map_of_eq_None_iff [of xs k] map_of_eq_None_iff [of ys k]
      by (cases "k \<in> fst ` set xs \<union> fst ` set ys") (auto simp: same_table_def list_all_iff)
  qed
qed (simp add: same_table_def list_all_iff)

lemma same_tables_refl: "same_tables t t"
  by (simp add: same_tables_def same_table_iff)

lemma initial_pair: "initial_tables P = (fst (initial_tables P), [])"
  by (simp add: initial_tables_def)

lemma fixpoint_round:
  "fixpoint_tables P = while_option (\<lambda>t. \<not> same_tables (inference.round P t) t) (inference.round P) (fst (initial_tables P), [])"
  unfolding fixpoint_tables_def pass_round using initial_pair by metis

lemma fixpoint_ends: "\<exists>t. fixpoint_tables P = Some t"
  unfolding fixpoint_round by (rule inference.loop_ends [OF reached_initial same_tables_refl])

lemma fixpoint_solves:
  assumes "fixpoint_tables P = Some t"
  shows "map_of (sets_step P (fst t)) = map_of (fst t)"
  using inference.loop_good(2) [where same = same_tables, OF assms [unfolded fixpoint_round] reached_initial]
  by (simp add: inference.round_def same_tables_def same_table_iff)

lemma get_set_update: "get_set (AList.update k s S) d = (if d = k then s else get_set S d)"
  by (simp add: get_set_def update_conv')

lemma get_fold_bot: "(\<And>d. get_set ns d = bot) \<Longrightarrow> get_set (fold (\<lambda>(d, _). AList.update d bot) ds ns) d = bot"
  by (induction ds arbitrary: ns) (auto simp: get_set_update split: prod.split)

lemma initial_bot: "get_set (fst (initial_tables P)) d = bot"
  unfolding initial_tables_def fst_conv by (rule get_fold_bot) (simp add: get_set_def)

lemma fixpoint_least:
  assumes "fixpoint_tables P = Some t" and T: "\<And>d body. (d, body) \<in> set (defs_of P) \<Longrightarrow> body_set P T body \<le> get_set T d"
  shows "tables_le (fst t) T"
proof (rule inference.loop_least [OF assms(1) [unfolded fixpoint_round]])
  show "tables_le (fst (initial_tables P)) T" by (simp add: tables_le_def initial_bot)
  show "tables_le (sets_step P T) T"
    unfolding tables_le_def
  proof
    fix d
    show "get_set (sets_step P T) d \<le> get_set T d"
      using T sets_step_get [of d _ P T] sets_step_other [of d P T]
      by (cases "d \<in> fst ` set (defs_of P)") (auto simp: get_set_def)
  qed
qed

lemma check_program_sets [simp]: "in_sets (check_program P S) = S"
  by (simp add: check_program_def split: prod.split)

lemma infer_sets: "infer P = Some r \<Longrightarrow> \<exists>t. fixpoint_tables P = Some t \<and> in_sets r = fst t"
  unfolding infer_def by (cases "fixpoint_tables P") auto

lemma inferred_sets:
  assumes "infer P = Some r" and "(d, body) \<in> set (defs_of P)"
  shows "map_of (in_sets r) d = Some (body_set P (in_sets r) body)"
proof -
  from infer_sets [OF assms(1)] obtain t where t: "fixpoint_tables P = Some t" "in_sets r = fst t" by blast
  then show ?thesis using fixpoint_solves [OF t(1)] sets_step_get [OF assms(2), of "fst t"] by simp
qed

text \<open>C6: The inference ends on every program, and its answer is the least one: each function and method has exactly the
  set that its body contributes when its callees have theirs, and every other assignment that grants each
  body at least what it contributes grants every definition at least the inferred set. So a tag is in an inferred
  set only if some chain of calls brings it there.\<close>

theorem infer_ends_least:
  "\<exists>r. infer P = Some r
    \<and> (\<forall>(d, body) \<in> set (defs_of P). map_of (in_sets r) d = Some (body_set P (in_sets r) body))
    \<and> (\<forall>T. (\<forall>(d, body) \<in> set (defs_of P). body_set P T body \<le> get_set T d) \<longrightarrow> tables_le (in_sets r) T)"
proof -
  obtain t where t: "fixpoint_tables P = Some t" using fixpoint_ends by blast
  then obtain r where r: "infer P = Some r" "in_sets r = fst t"
    by (simp add: infer_def)
  moreover have "\<forall>(d, body) \<in> set (defs_of P). map_of (in_sets r) d = Some (body_set P (in_sets r) body)"
    using inferred_sets [OF r(1)] by blast
  moreover have "tables_le (in_sets r) T" if "\<forall>(d, body) \<in> set (defs_of P). body_set P T body \<le> get_set T d" for T
    unfolding r(2) using that by (intro fixpoint_least [OF t]) auto
  ultimately show ?thesis by blast
qed

text \<open>Two functions that call each other, one of which throws a string.\<close>

lemmas collect_eval =
  body_set_def collector_of_def fresh_state_def yields_def also_with_def muted_def record_lambda_def let_node_def
  thrown_def tag_of_def expr_type_def res_of_def expr_id_def expr_node_def call_node_def method_call_def method_part_def
  plain_args_def hof_args_def hof_arg_def ident_callee_def lambda_literal_def is_module_ref_def record_spawn_def
  catch_node_def tag_set_def open_set_def bot_error_set_def sup_error_set_def get_set_def

definition plain_function :: "string \<Rightarrow> stmt list \<Rightarrow> hir_item" where
  "plain_function name body =
     IFunc \<lparr>fd_name = name, fd_span = span_default, fd_returns = False, fd_throws = None, fd_body = body\<rparr>"

definition ping :: "stmt list" where
  "ping =
     [plain_stmt (SIf [(plain_expr (EBool True), [plain_stmt (SThrow (Expr 1 span_default (EStr ''boom'')))])] None),
      plain_stmt (SExpr (plain_expr (ECall (Expr 2 span_default (EIdent ''pong'')) [])))]"

definition pong :: "stmt list" where
  "pong = [plain_stmt (SExpr (plain_expr (ECall (Expr 3 span_default (EIdent ''ping'')) [])))]"

definition ping_pong :: program where
  "ping_pong =
     \<lparr>pr_hir = \<lparr>h_item = (\<lambda>i. if i = 0 then plain_function ''ping'' ping else plain_function ''pong'' pong),
        h_item_span = (\<lambda>_. span_default), h_exprs = [], h_stmts = []\<rparr>,
      pr_roots = [0, 1],
      pr_res = no_resolutions\<lparr>expr_res := [2 \<mapsto> RItem 1, 3 \<mapsto> RItem 0]\<rparr>,
      pr_types = no_types\<lparr>expr_types := [1 \<mapsto> TString]\<rparr>\<rparr>"

abbreviation string_set :: error_set where "string_set \<equiv> ErrorSet {TagPrimitive PrString} False"

lemma ping_pong_defs: "defs_of ping_pong = [(DefItem 0, ping), (DefItem 1, pong)]"
  by (simp add: defs_of_def collect_defs_def item_defs_def ping_pong_def plain_function_def)

lemma ping_pong_bodies:
  "body_set ping_pong S ping = sup string_set (get_set S (DefItem 1))"
  "body_set ping_pong S pong = get_set S (DefItem 0)"
  by (simp_all add: ping_def pong_def ping_pong_def plain_function_def no_resolutions_def no_types_def collect_eval
      split: option.split)

theorem infer_ends_least_witness:
  "\<exists>r. infer ping_pong = Some r \<and> map_of (in_sets r) (DefItem 0) = Some string_set
     \<and> map_of (in_sets r) (DefItem 1) = Some string_set"
proof -
  obtain r where r: "infer ping_pong = Some r"
    "\<forall>(d, body) \<in> set (defs_of ping_pong). map_of (in_sets r) d = Some (body_set ping_pong (in_sets r) body)"
    "\<forall>T. (\<forall>(d, body) \<in> set (defs_of ping_pong). body_set ping_pong T body \<le> get_set T d) \<longrightarrow> tables_le (in_sets r) T"
    using infer_ends_least [of ping_pong] by blast
  let ?T = "[(DefItem 0, string_set), (DefItem 1, string_set)]"
  from r(3) have "tables_le (in_sets r) ?T"
    by (simp add: ping_pong_defs ping_pong_bodies get_set_def sup_error_set_def)
  then have le: "get_set (in_sets r) (DefItem 0) \<le> string_set"
    by (auto simp: tables_le_def get_set_def dest: spec [of _ "DefItem 0"])
  have sets: "map_of (in_sets r) (DefItem 0) = Some (sup string_set (get_set (in_sets r) (DefItem 1)))"
    "map_of (in_sets r) (DefItem 1) = Some (get_set (in_sets r) (DefItem 0))"
    using r(2) by (simp_all add: ping_pong_defs ping_pong_bodies)
  then have "get_set (in_sets r) (DefItem 0) = sup string_set (get_set (in_sets r) (DefItem 1))"
    by (subst get_set_def) (simp only: option.case)
  with le have "get_set (in_sets r) (DefItem 0) = string_set" by (metis antisym sup_ge1)
  with sets show ?thesis using r(1) by (auto simp: get_set_def)
qed

end
