(* ===== verification/Error_Checks.thy ===== *)
theory Error_Checks
  imports Error_Fixpoint
begin

text \<open>
  What a program without diagnostics may rely on: the contracts that its functions declare hold of the
  inferred sets, and a \<open>catch!\<close> lets no error of its subject pass. The diagnostics only grow along the walk
  (\<open>grows\<close>), so a walk that reported nothing has checked every \<open>catch\<close> on its way without a complaint.
\<close>

section \<open>Diagnostics grow\<close>

definition grows :: "collect \<Rightarrow> bool" where
  "grows m \<longleftrightarrow> (\<forall>st ds. cl_diags st = Some ds \<longrightarrow> (\<exists>more. cl_diags (snd (m st)) = Some (ds @ more)))"

lemma growsD: "grows m \<Longrightarrow> cl_diags st = Some ds \<Longrightarrow> \<exists>more. cl_diags (snd (m st)) = Some (ds @ more)"
  by (simp add: grows_def)

lemma grows_yields: "grows (yields s)"
  by (simp add: grows_def yields_def)

lemma grows_also: "grows m \<Longrightarrow> grows n \<Longrightarrow> grows (also_with m n)"
  unfolding grows_def also_with_def by (simp add: split_beta) (metis append.assoc)

lemma grows_all: "(\<And>m. m \<in> set ms \<Longrightarrow> grows m) \<Longrightarrow> grows (all_of ms)"
  by (induction ms) (auto intro: grows_yields grows_also)

lemma grows_muted: "grows m \<Longrightarrow> grows (muted m)"
  by (simp add: grows_def muted_def)

lemma grows_record_lambda: "grows m \<Longrightarrow> grows (record_lambda i m)"
  by (simp add: grows_def record_lambda_def split_beta)

lemma grows_let: "grows m \<Longrightarrow> grows (let_node E i e m)"
  by (simp add: grows_def let_node_def split_beta split: option.split)

lemma grows_task_origin: "grows (task_origin E e)"
  by (auto simp: grows_def task_origin_def split: option.split res.split)

lemma grows_spawn: "(\<And>a m b. (a, m, b) \<in> set args \<Longrightarrow> grows b) \<Longrightarrow> grows (record_spawn i args)"
proof (cases args rule: remdups_adj.cases)
  case (2 x)
  assume b: "\<And>a m b. (a, m, b) \<in> set args \<Longrightarrow> grows b"
  obtain a m b' where x: "x = (a, m, b')" by (cases x)
  then have "grows (record_lambda (expr_id a) b')" using b 2 by (auto intro: grows_record_lambda)
  then show ?thesis
    by (auto simp: grows_def record_spawn_def 2 x Let_def split: option.split)
qed (simp_all add: grows_def record_spawn_def)

lemma grows_catch: "grows m \<Longrightarrow> grows n \<Longrightarrow> grows (catch_node E i sp exhaustive arms m n)"
  unfolding grows_def
proof (intro allI impI)
  fix st :: col_state and ds
  assume m: "\<forall>st ds. cl_diags st = Some ds \<longrightarrow> (\<exists>more. cl_diags (snd (m st)) = Some (ds @ more))"
    and n: "\<forall>st ds. cl_diags st = Some ds \<longrightarrow> (\<exists>more. cl_diags (snd (n st)) = Some (ds @ more))"
    and st: "cl_diags st = Some ds"
  from m st obtain more where more: "cl_diags (snd (m st)) = Some (ds @ more)" by blast
  let ?ds = "map_option (\<lambda>ds. ds @ catch_checks E i sp exhaustive arms (fst (m st))) (cl_diags (snd (m st)))"
  have "cl_diags ((snd (m st))\<lparr>cl_diags := ?ds\<rparr>) = Some (ds @ more @ catch_checks E i sp exhaustive arms (fst (m st)))"
    using more by simp
  from n [rule_format, OF this]
  show "\<exists>more. cl_diags (snd (catch_node E i sp exhaustive arms m n st)) = Some (ds @ more)"
    by (auto simp: catch_node_def split_beta)
qed

lemma grows_args:
  assumes "\<And>a m b. (a, m, b) \<in> set args \<Longrightarrow> grows m" and "\<And>a m b. (a, m, b) \<in> set args \<Longrightarrow> grows b"
  shows "grows (plain_args args)" and "grows (hof_args E args)"
  using assms unfolding plain_args_def hof_args_def hof_arg_def
  by (auto intro!: grows_all grows_record_lambda grows_also grows_yields)

lemma grows_call:
  assumes r: "grows r" and m: "\<And>a m b. (a, m, b) \<in> set args \<Longrightarrow> grows m" and b: "\<And>a m b. (a, m, b) \<in> set args \<Longrightarrow> grows b"
  shows "grows (call_node E i callee r args)"
proof -
  note args = grows_args [of args, OF m b]
  have part: "grows (method_part E i recv name args)" for recv name
    unfolding method_part_def
    by (auto intro!: grows_also args grows_yields grows_all grows_task_origin grows_spawn [OF b]
        split: option.split ty.split)
  have "grows (method_call E i recv name r args)" for recv name
    unfolding method_call_def by (auto intro!: grows_also args grows_yields part r)
  then show ?thesis
    unfolding call_node_def
    by (auto intro!: grows_also args grows_yields grows_record_lambda r split: option.split expr_node.split)
qed

theorem collect_grows: "grows (collect_expr E e)" "grows (collect_stmt E s)" "grows (collect_body E b)"
proof (induction E e and E s and E b rule: collect_expr_collect_stmt_collect_body.induct)
  case (1 E i sp callee args)
  have sub: "grows (case callee of Expr j sp' (EField recv name) \<Rightarrow> collect_expr E recv
      | Expr j sp' (ELambda b) \<Rightarrow> collect_body E b | _ \<Rightarrow> collect_expr E callee)"
  proof (cases callee)
    case (Expr j sp' n)
    with 1 show ?thesis by (cases n) simp_all
  qed
  have lam: "grows (case a of Expr j sp' (ELambda b) \<Rightarrow> collect_body E b | _ \<Rightarrow> yields bot)" if a: "a \<in> set args" for a
  proof (cases a)
    case (Expr j sp' n)
    with 1 a show ?thesis by (cases n) (simp_all add: grows_yields)
  qed
  have "grows (collect_expr E a)" if "a \<in> set args" for a by (rule 1) (rule that)
  with lam show ?case unfolding collect_expr.simps by (intro grows_call [OF sub]) auto
qed (auto intro!: grows_all grows_also grows_muted grows_record_lambda grows_let grows_catch grows_yields split: option.split)

section \<open>Exhaustive catches\<close>

text \<open>What the exhaustiveness check keeps is what the subtraction keeps, up to the first \<open>_\<close>.\<close>

definition kept :: "bool \<Rightarrow> error_set \<Rightarrow> error_tag set \<times> bool \<Rightarrow> bool" where
  "kept open_flag s r \<longleftrightarrow> s = (if snd r then bot else ErrorSet (fst r) open_flag)"

lemma kept_slots:
  "kept b s r \<Longrightarrow> kept b (subtract_slots E i ax tx ts s) (remaining_slots E i ax tx ts r)"
proof (induction ts arbitrary: tx s r)
  case (Cons t ts)
  show ?case
    unfolding subtract_slots.simps remaining_slots.simps
    by (rule Cons.IH) (use Cons.prems in \<open>auto simp: kept_def bot_error_set_def split: catch_type.split option.split\<close>)
qed simp

lemma kept_arms:
  "kept b s r \<Longrightarrow> kept b (subtract_arms E i ax arms s) (remaining_arms E i ax arms r)"
proof (induction arms arbitrary: ax s r)
  case (Cons arm arms)
  show ?case
    unfolding subtract_arms.simps remaining_arms.simps
    by (rule Cons.IH) (use Cons.prems in \<open>auto intro: kept_slots split: prod.split\<close>)
qed simp

lemma exhaustive_subtracts_all:
  assumes "check_exhaustive E i sp arms s = []"
  shows "\<not> es_open s \<and> subtract_arms E i 0 arms s = bot"
proof -
  have closed: "\<not> es_open s" using assms by (auto simp: check_exhaustive_def)
  obtain R w where R: "remaining_arms E i 0 arms (es_tags s, False) = (R, w)" by fastforce
  then have "R = {} \<or> w" using assms closed by (auto simp: check_exhaustive_def split: if_splits)
  moreover have "kept False s (es_tags s, False)"
    using closed by (cases s) (simp add: kept_def)
  then have "kept False (subtract_arms E i 0 arms s) (R, w)" using kept_arms R by metis
  ultimately show ?thesis using closed by (auto simp: kept_def bot_error_set_def)
qed

text \<open>The steps of the guards and bodies of the arms.\<close>

definition arms_step :: "collector \<Rightarrow> catch_arms \<Rightarrow> collect" where
  "arms_step E arms =
     all_of (map (\<lambda>(ts, g, b). also_with (case g of None \<Rightarrow> yields bot | Some e \<Rightarrow> collect_expr E e) (collect_body E b)) arms)"

lemma grows_arms: "grows (arms_step E arms)"
  unfolding arms_step_def by (auto intro!: grows_all grows_also grows_yields collect_grows split: option.split)

text \<open>C8: A \<open>catch!\<close> that is walked without a new diagnostic lets no error of its subject pass: the set of the subject
  is closed, the unguarded arms subtract all of it, and what the whole expression can throw is what the guards and the
  bodies of its arms can throw.\<close>

theorem exhaustive_catch_lets_nothing_pass:
  assumes "collect_expr E (Expr i sp (ECatch subject True arms)) st = (s, st')"
    and "cl_diags st = Some ds" and "cl_diags st' = Some ds"
  shows "\<not> es_open (fst (collect_expr E subject st))
    \<and> subtract_arms E i 0 arms (fst (collect_expr E subject st)) = bot
    \<and> (\<exists>st1. s = fst (arms_step E arms st1))"
proof -
  let ?m = "collect_expr E subject st"
  obtain more where more: "cl_diags (snd ?m) = Some (ds @ more)"
    using growsD [OF collect_grows(1) assms(2)] by blast
  let ?checks = "catch_checks E i sp True arms (fst ?m)"
  let ?st1 = "(snd ?m)\<lparr>cl_diags := Some (ds @ more @ ?checks)\<rparr>"
  have node: "s = sup (subtract_arms E i 0 arms (fst ?m)) (fst (arms_step E arms ?st1))" "st' = snd (arms_step E arms ?st1)"
    using assms(1) more by (auto simp: catch_node_def arms_step_def split_beta)
  have "cl_diags ?st1 = Some (ds @ more @ ?checks)" by simp
  from growsD [OF grows_arms this] obtain rest
    where "cl_diags (snd (arms_step E arms ?st1)) = Some ((ds @ more @ ?checks) @ rest)" by blast
  then have "?checks = []" using assms(3) node(2) by simp
  then have "check_exhaustive E i sp arms (fst ?m) = []" by (simp add: catch_checks_def)
  from exhaustive_subtracts_all [OF this] node(1) show ?thesis by auto
qed

section \<open>Contracts\<close>

lemma empty_diags_growing:
  assumes "grows m" and "cl_diags (snd (m st)) = Some []"
    and "cl_diags st = Some ds"
  shows "ds = []"
  using growsD [OF assms(1,3)] assms(2) by auto

lemma check_def_out:
  "\<exists>l' more. check_def P sets (d, b) (l, ds) =
     (l', ds @ more @ throws_contract (pr_hir P) (pr_res P) sets d @ render_contract (pr_hir P) sets d)"
proof -
  have "grows (collect_block (collector_of P sets) b)" by (auto intro!: grows_all collect_grows)
  from growsD [OF this, of "fresh_state l (Some ds)" ds]
  obtain more where "cl_diags (snd (collect_block (collector_of P sets) b (fresh_state l (Some ds)))) = Some (ds @ more)"
    by (auto simp: fresh_state_def)
  then show ?thesis by (auto simp: check_def_def split_beta)
qed

lemma checked_defs:
  assumes "fold (check_def P sets) defs (l, ds) = (l', [])"
  shows "ds = [] \<and> (\<forall>(d, b) \<in> set defs.
    throws_contract (pr_hir P) (pr_res P) sets d = [] \<and> render_contract (pr_hir P) sets d = [])"
  using assms
proof (induction defs arbitrary: l ds)
  case (Cons x defs)
  obtain d b where x: "x = (d, b)" by fastforce
  from check_def_out [of P sets d b l ds] obtain l1 more where out: "check_def P sets (d, b) (l, ds) =
     (l1, ds @ more @ throws_contract (pr_hir P) (pr_res P) sets d @ render_contract (pr_hir P) sets d)" by blast
  with Cons.IH [of l1] Cons.prems x show ?case by fastforce
qed simp

lemma accepted_program:
  assumes "infer P = Some r" and "in_diags r = []"
  shows "\<forall>(d, b) \<in> set (defs_of P). throws_contract (pr_hir P) (pr_res P) (in_sets r) d = []
      \<and> render_contract (pr_hir P) (in_sets r) d = []"
    and "iface_throws_contracts (pr_hir P) (pr_res P) (in_sets r) [] (iface_uses (pr_types P)) = []"
proof -
  from assms(1) have r: "r = check_program P (in_sets r)"
    unfolding infer_def by (cases "fixpoint_tables P") auto
  obtain l ds where f: "fold (check_def P (in_sets r)) (defs_of P) ([], []) = (l, ds)" by fastforce
  let ?top = "top_level (collector_of P (in_sets r)) (pr_roots P)"
  have top: "grows ?top"
    unfolding top_level_def top_item_def
    by (auto intro!: grows_all grows_yields collect_grows split: hir_item.split)
  from growsD [OF top, of "fresh_state l (Some ds)" ds] obtain more
    where more: "cl_diags (snd (?top (fresh_state l (Some ds)))) = Some (ds @ more)" by (auto simp: fresh_state_def)
  have "in_diags r = ds @ more @ iface_throws_contracts (pr_hir P) (pr_res P) (in_sets r) [] (iface_uses (pr_types P))"
    by (subst r) (simp add: check_program_def f more split_beta)
  with assms(2) have "ds = []" and iface: "iface_throws_contracts (pr_hir P) (pr_res P) (in_sets r) [] (iface_uses (pr_types P)) = []"
    by simp_all
  with checked_defs [of P "in_sets r" "defs_of P" "[]" "[]" l] f
  show "\<forall>(d, b) \<in> set (defs_of P). throws_contract (pr_hir P) (pr_res P) (in_sets r) d = []
      \<and> render_contract (pr_hir P) (in_sets r) d = []" by simp
  show "iface_throws_contracts (pr_hir P) (pr_res P) (in_sets r) [] (iface_uses (pr_types P)) = []" by (rule iface)
qed

lemma inferred_finite:
  assumes "infer P = Some r" and "map_of (in_sets r) d = Some s"
  shows "finite (es_tags s)"
proof -
  from infer_sets [OF assms(1)] obtain t where t: "fixpoint_tables P = Some t" "in_sets r = fst t" by blast
  have "reached P (fst t)"
    using inference.loop_good(1) [where same = same_tables, OF t(1) [unfolded fixpoint_round] reached_initial] .
  then have "es_tags s \<subseteq> stock P" using assms(2) t(2) reached_in_stock table_in_map_of by metis
  then show ?thesis using finite_stock finite_subset by blast
qed

lemma undeclared_Nil: "finite (es_tags s) \<Longrightarrow> undeclared T s = [] \<Longrightarrow> \<not> es_open s \<Longrightarrow> s \<le> tag_set T"
  by (auto simp: undeclared_def filter_empty_conv less_eq_error_set_def tag_set_def)

lemma nothing_thrown: "es_tags s = {} \<Longrightarrow> \<not> es_open s \<Longrightarrow> s = bot"
  by (cases s) (simp add: bot_error_set_def)

text \<open>C7: In a program accepted without diagnostics every declared contract holds of the inferred sets: a function that
  declares \<open>throws never\<close>, and every \<open>toString\<close> of a struct, has the empty closed set, and a function with a list of
  declared errors has a closed set of declared ones. With \<open>infer_ends_least\<close>, these sets are what the bodies contribute.\<close>

theorem accepted_contracts_hold:
  assumes "infer P = Some r" and "in_diags r = []" and "(d, body) \<in> set (defs_of P)" and "func_of (pr_hir P) d = Some f"
  shows "(fd_throws f = Some ThrowsNever \<longrightarrow> body_set P (in_sets r) body = bot)
    \<and> (\<forall>names. fd_throws f = Some (ThrowsTypes names) \<longrightarrow>
         body_set P (in_sets r) body \<le> tag_set (declared_tags (pr_hir P) (pr_res P) d names))
    \<and> (\<forall>owner ix. d = DefMethod owner ix \<longrightarrow> fd_name f = ''toString'' \<longrightarrow> body_set P (in_sets r) body = bot)"
proof -
  let ?s = "body_set P (in_sets r) body"
  have s: "map_of (in_sets r) d = Some ?s" by (rule inferred_sets [OF assms(1,3)])
  have fin: "finite (es_tags ?s)" by (rule inferred_finite [OF assms(1) s])
  have c: "throws_contract (pr_hir P) (pr_res P) (in_sets r) d = []" "render_contract (pr_hir P) (in_sets r) d = []"
    using accepted_program(1) [OF assms(1,2)] assms(3) by auto
  have "?s = bot" if "fd_throws f = Some ThrowsNever"
    using c(1) that by (auto simp: throws_contract_def assms(4) s Let_def intro!: nothing_thrown split: if_splits)
  moreover have "?s \<le> tag_set (declared_tags (pr_hir P) (pr_res P) d names)" if "fd_throws f = Some (ThrowsTypes names)" for names
    using c(1) that fin by (auto simp: throws_contract_def assms(4) s Let_def intro!: undeclared_Nil split: if_splits)
  moreover have "?s = bot" if "d = DefMethod owner ix" "fd_name f = ''toString''" for owner ix
    using c(2) that assms(4) s by (auto simp: render_contract_def Let_def intro!: nothing_thrown split: if_splits)
  ultimately show ?thesis by blast
qed


section \<open>Programs\<close>

text \<open>A function that throws a string, and one that promises to throw nothing and catches all of it.\<close>

definition never_throws :: "string \<Rightarrow> stmt list \<Rightarrow> hir_item" where
  "never_throws name body =
     IFunc \<lparr>fd_name = name, fd_span = span_default, fd_returns = False, fd_throws = Some ThrowsNever, fd_body = body\<rparr>"

definition loud :: "stmt list" where
  "loud = [plain_stmt (SThrow (Expr 1 span_default (EStr ''boom'')))]"

definition calm_subject :: expr where
  "calm_subject = plain_expr (ECall (Expr 2 span_default (EIdent ''loud'')) [])"

definition calm :: "stmt list" where
  "calm = [plain_stmt (SExpr (Expr 3 span_default
     (ECatch calm_subject True [([CtWildcard span_default], None, ABlock [])])))]"

definition loud_and_calm :: program where
  "loud_and_calm =
     \<lparr>pr_hir = \<lparr>h_item = (\<lambda>i. if i = 0 then plain_function ''loud'' loud else never_throws ''calm'' calm),
        h_item_span = (\<lambda>_. span_default), h_exprs = [], h_stmts = []\<rparr>,
      pr_roots = [0, 1],
      pr_res = no_resolutions\<lparr>expr_res := [2 \<mapsto> RItem 0]\<rparr>,
      pr_types = no_types\<lparr>expr_types := [1 \<mapsto> TString]\<rparr>\<rparr>"

lemma loud_and_calm_defs: "defs_of loud_and_calm = [(DefItem 0, loud), (DefItem 1, calm)]"
  by (simp add: defs_of_def collect_defs_def item_defs_def loud_and_calm_def plain_function_def never_throws_def)

lemma loud_and_calm_funcs:
  "func_of (pr_hir loud_and_calm) (DefItem 0) =
     Some \<lparr>fd_name = ''loud'', fd_span = span_default, fd_returns = False, fd_throws = None, fd_body = loud\<rparr>"
  "func_of (pr_hir loud_and_calm) (DefItem 1) =
     Some \<lparr>fd_name = ''calm'', fd_span = span_default, fd_returns = False, fd_throws = Some ThrowsNever, fd_body = calm\<rparr>"
  by (simp_all add: func_of_def loud_and_calm_def plain_function_def never_throws_def)

lemmas check_eval = catch_checks_def check_exhaustive_def unreachable_arms_def unreachable_slot_def

lemma loud_walk:
  "collect_block (collector_of loud_and_calm S) loud st = (string_set, st)"
  by (simp add: loud_def loud_and_calm_def no_resolutions_def no_types_def collect_eval)

lemma calm_walk:
  assumes "map_of S (DefItem 0) = Some string_set"
  shows "collect_block (collector_of loud_and_calm S) calm st = (bot, st)"
  using assms
  by (simp add: calm_def calm_subject_def plain_function_def loud_and_calm_def no_resolutions_def no_types_def collect_eval check_eval option.map_ident)

lemma loud_and_calm_accepted:
  "\<exists>r. infer loud_and_calm = Some r \<and> in_diags r = []"
proof -
  obtain t where "fixpoint_tables loud_and_calm = Some t" using fixpoint_ends by blast
  then obtain r where r: "infer loud_and_calm = Some r" "r = check_program loud_and_calm (in_sets r)"
    by (simp add: infer_def)
  have "map_of (in_sets r) (DefItem 0) = Some (body_set loud_and_calm (in_sets r) loud)"
    "map_of (in_sets r) (DefItem 1) = Some (body_set loud_and_calm (in_sets r) calm)"
    using inferred_sets [OF r(1)] by (simp_all add: loud_and_calm_defs)
  then have sets: "map_of (in_sets r) (DefItem 0) = Some string_set" "map_of (in_sets r) (DefItem 1) = Some bot"
    by (simp_all add: body_set_def loud_walk calm_walk)
  have "in_diags (check_program loud_and_calm (in_sets r)) = []"
    using sets loud_and_calm_funcs
    by (simp add: check_program_def loud_and_calm_defs check_def_def loud_walk calm_walk throws_contract_def
        render_contract_def bot_error_set_def fresh_state_def)
       (simp add: loud_and_calm_def no_types_def top_level_def top_item_def collect_eval plain_function_def never_throws_def)
  with r show ?thesis by metis
qed

theorem accepted_contracts_hold_witness:
  "\<exists>r. infer loud_and_calm = Some r \<and> in_diags r = [] \<and> body_set loud_and_calm (in_sets r) calm = bot"
proof -
  obtain r where r: "infer loud_and_calm = Some r" "in_diags r = []" using loud_and_calm_accepted by blast
  have "(DefItem 1, calm) \<in> set (defs_of loud_and_calm)" by (simp add: loud_and_calm_defs)
  from accepted_contracts_hold [OF r this loud_and_calm_funcs(2)] r show ?thesis by simp
qed

text \<open>The catch of \<open>calm\<close>, walked in the checking pass.\<close>

abbreviation calm_collector :: collector where
  "calm_collector \<equiv> collector_of loud_and_calm [(DefItem 0, string_set)]"

lemma calm_catch_walk:
  "collect_expr calm_collector calm_subject st = (string_set, st)"
  "collect_expr calm_collector (Expr 3 span_default (ECatch calm_subject True [([CtWildcard span_default], None, ABlock [])]))
     (fresh_state [] (Some [])) = (bot, fresh_state [] (Some []))"
  by (simp_all add: calm_subject_def plain_function_def loud_and_calm_def no_resolutions_def no_types_def collect_eval check_eval)

theorem exhaustive_catch_lets_nothing_pass_witness:
  "collect_expr calm_collector (Expr 3 span_default (ECatch calm_subject True [([CtWildcard span_default], None, ABlock [])]))
     (fresh_state [] (Some [])) = (bot, fresh_state [] (Some []))
   \<and> fst (collect_expr calm_collector calm_subject (fresh_state [] (Some []))) = string_set
   \<and> subtract_arms calm_collector 3 0 [([CtWildcard span_default], None, ABlock [])] string_set = bot"
proof -
  have "cl_diags (fresh_state [] (Some [])) = Some []" by (simp add: fresh_state_def)
  from exhaustive_catch_lets_nothing_pass [OF calm_catch_walk(2) this this]
  show ?thesis using calm_catch_walk by simp
qed

section \<open>A caught spawn\<close>

text \<open>
  The set of a spawned block is charged where \<open>scope.spawn\<close> is called, so a \<open>catch\<close> around that call takes it
  away again. But the block does not run there (\<open>spawn_task\<close> of \<open>brasa_vm/src/builtins.rs\<close> only registers it): it runs
  when the scope settles, outside of the \<open>catch\<close>, and \<open>settle_scope\<close> rethrows its error from \<open>concurrent\<close>.
\<close>

definition spawn_call :: expr where
  "spawn_call =
     Expr 6 span_default (ECall (plain_expr (EField (Expr 4 span_default (EIdent ''scope'')) ''spawn''))
       [Expr 3 span_default (ELambda (ABlock [plain_stmt (SThrow (Expr 2 span_default (EStr ''boom'')))]))])"

definition spawning :: "stmt list" where
  "spawning =
     [plain_stmt (SExpr (plain_expr (ECall (Expr 10 span_default (EIdent ''concurrent''))
       [Expr 9 span_default (ELambda (ABlock
         [plain_stmt (SExpr (Expr 8 span_default (ECatch spawn_call False
            [([CtWildcard span_default], None, ABlock [plain_stmt (SReturn None)])])))]))])))]"

definition caught_spawn :: program where
  "caught_spawn =
     \<lparr>pr_hir = \<lparr>h_item = (\<lambda>_. never_throws ''calm'' spawning), h_item_span = (\<lambda>_. span_default), h_exprs = [], h_stmts = []\<rparr>,
      pr_roots = [0],
      pr_res = no_resolutions\<lparr>expr_res := [4 \<mapsto> RLocal 0, 10 \<mapsto> RBuiltin BvConcurrent]\<rparr>,
      pr_types = no_types\<lparr>expr_types := [2 \<mapsto> TString, 4 \<mapsto> TConcurrentScope]\<rparr>\<rparr>"

lemma caught_spawn_defs: "defs_of caught_spawn = [(DefItem 0, spawning)]"
  by (simp add: defs_of_def collect_defs_def item_defs_def caught_spawn_def never_throws_def)

lemma spawn_body_walk:
  "collect_body (collector_of caught_spawn S) (ABlock [plain_stmt (SThrow (Expr 2 span_default (EStr ''boom'')))]) st = (string_set, st)"
  by (simp add: caught_spawn_def no_resolutions_def no_types_def collect_eval)

lemma spawning_walk:
  "\<exists>st. collect_block (collector_of caught_spawn S) spawning (fresh_state l ds) = (bot, st)
     \<and> cl_diags st = ds \<and> map_of (cl_lambdas st) 3 = Some string_set"
  by (simp add: spawning_def spawn_call_def caught_spawn_def no_resolutions_def no_types_def collect_eval check_eval
      update_conv' option.map_ident)


end
